(* ===== verification/JsBase.thy ===== *)
theory JsBase
  imports Main "HOL-Library.Word" "HOL-Library.Monad_Syntax"
begin

text \<open>
  The prelude of the development: what the JavaScript sources use of their language.
  \<^item> strings are sequences of UTF-16 code units (\<open>ustring\<close>), with \<open>js\<close> for the literals
    of the sources and the string methods the components call;
  \<^item> objects used as dictionaries are maps from property names to values, with the
    properties every object inherits from \<open>Object.prototype\<close> made explicit in
    \<open>has_prop\<close>, the \<open>in\<close> operator;
  \<^item> arrays are lists, with the array methods the components call as the language defines them;
  \<^item> an operation that can raise a TypeError (a property access on null or undefined) returns
    an option, and None is the exception.
  The collection \<open>js_simps\<close> gathers the rewrite rules the components share.
\<close>

named_theorems js_simps \<open>rewrite rules of the JavaScript library shared by the components\<close>

section \<open>Strings as UTF-16 code units\<close>

type_synonym code_unit = "16 word"
type_synonym ustring = "code_unit list"

definition js :: "string \<Rightarrow> ustring" where
  "js s = map of_char s"

lemma unat_of_char16: "unat (of_char c :: 16 word) = of_char c"
proof -
  have "(of_char c :: nat) < 2 ^ LENGTH(16)"
    by (rule less_trans [OF nat_of_char_less_256]) simp
  then have "unat (of_nat (of_char c) :: 16 word) = of_char c"
    by (simp add: unat_of_nat take_bit_nat_eq_self)
  then show ?thesis by (simp add: of_nat_of_char)
qed

lemma of_char_inj16 [simp]: "(of_char c :: 16 word) = of_char d \<longleftrightarrow> c = d"
  by (metis of_char_eq_iff unat_of_char16)

lemma js_eq_iff [simp]: "js s = js t \<longleftrightarrow> s = t"
  by (simp add: js_def inj_def)

lemma js_Nil_iff [simp]: "js s = [] \<longleftrightarrow> s = []" "[] = js s \<longleftrightarrow> s = []"
  by (auto simp: js_def)

lemma js_Nil [simp]: "js [] = []"
  by (simp add: js_def)

lemma js_append: "js (s @ t) = js s @ js t"
  by (simp add: js_def)

lemma length_js [simp]: "length (js s) = length s"
  by (simp add: js_def)

text \<open>The single code units the components compare with.\<close>

definition cu :: "char \<Rightarrow> code_unit" where
  "cu c = of_char c"

lemma cu_eq_iff [simp]: "cu c = cu d \<longleftrightarrow> c = d"
  by (simp add: cu_def)

lemma js_Cons: "js (c # s) = cu c # js s"
  by (simp add: js_def cu_def)

text \<open>
  \<open>String.prototype.split\<close> with a one-character separator: the empty string gives one empty
  piece, and \<open>join\<close> puts the separator back between the pieces.
\<close>

fun split_on :: "'c \<Rightarrow> 'c list \<Rightarrow> 'c list list" where
  "split_on d [] = [[]]"
| "split_on d (c # s) =
     (if c = d then [] # split_on d s
      else (case split_on d s of [] \<Rightarrow> [[c]] | p # ps \<Rightarrow> (c # p) # ps))"

fun join_with :: "'c list \<Rightarrow> 'c list list \<Rightarrow> 'c list" where
  "join_with d [] = []"
| "join_with d [p] = p"
| "join_with d (p # q # ps) = p @ d @ join_with d (q # ps)"

lemma split_on_not_Nil [simp]: "split_on d s \<noteq> []"
  by (induction s) (auto split: list.splits)

lemma join_split [simp]: "join_with [d] (split_on d s) = s"
proof (induction s)
  case (Cons c s)
  obtain p ps where p: "split_on d s = p # ps"
    by (cases "split_on d s") auto
  with Cons show ?case by (cases ps) auto
qed simp

lemma split_on_no_sep: "p \<in> set (split_on d s) \<Longrightarrow> d \<notin> set p"
  by (induction s arbitrary: p) (force split: list.splits if_splits)+

lemma split_on_id: "d \<notin> set s \<Longrightarrow> split_on d s = [s]"
  by (induction s) auto

lemma split_on_append_sep: "d \<notin> set p \<Longrightarrow> split_on d (p @ d # s) = p # split_on d s"
  by (induction p) auto

lemma split_join: "ps \<noteq> [] \<Longrightarrow> \<forall>p\<in>set ps. d \<notin> set p \<Longrightarrow> split_on d (join_with [d] ps) = ps"
  by (induction "[d]" ps rule: join_with.induct) (auto simp: split_on_id split_on_append_sep)

text \<open>\<open>toLowerCase\<close> on the Basic Latin letters, the only ones event names use.\<close>

definition to_lower :: "code_unit \<Rightarrow> code_unit" where
  "to_lower c = (if 0x41 \<le> c \<and> c \<le> 0x5A then c + 0x20 else c)"

definition to_lower_case :: "ustring \<Rightarrow> ustring" where
  "to_lower_case s = map to_lower s"

lemma to_lower_idem [simp]: "to_lower (to_lower c) = to_lower c"
proof (cases "0x41 \<le> c \<and> c \<le> 0x5A")
  case True
  then have "unat c \<le> 90" by (simp add: word_le_nat_alt)
  moreover from True have "65 \<le> unat c" by (simp add: word_le_nat_alt)
  ultimately have "\<not> unat (c + 0x20) \<le> 90" by (simp add: unat_word_ariths)
  then have "\<not> c + 0x20 \<le> 0x5A" by (simp add: word_le_nat_alt)
  with True show ?thesis by (simp add: to_lower_def)
qed (simp add: to_lower_def)

lemma to_lower_case_idem [simp]: "to_lower_case (to_lower_case s) = to_lower_case s"
  by (simp add: to_lower_case_def)

section \<open>Objects as dictionaries\<close>

text \<open>
  An object literal used as a table inherits the properties of \<open>Object.prototype\<close>: \<open>k in o\<close>
  is true for them although no one stored them, and \<open>o[k]\<close> is an inherited function.
\<close>

definition proto_keys :: "ustring list" where
  "proto_keys = map js [''constructor'', ''hasOwnProperty'', ''isPrototypeOf'',
     ''propertyIsEnumerable'', ''toLocaleString'', ''toString'', ''valueOf'', ''__proto__'',
     ''__defineGetter__'', ''__defineSetter__'', ''__lookupGetter__'', ''__lookupSetter__'']"

definition has_prop :: "(ustring \<rightharpoonup> 'v) \<Rightarrow> ustring \<Rightarrow> bool" where
  "has_prop m k \<longleftrightarrow> m k \<noteq> None \<or> k \<in> set proto_keys"

text \<open>What \<open>o[k]\<close> evaluates to.\<close>

datatype 'v property = Own 'v | Inherited | Undefined

definition get_prop :: "(ustring \<rightharpoonup> 'v) \<Rightarrow> ustring \<Rightarrow> 'v property" where
  "get_prop m k = (case m k of Some v \<Rightarrow> Own v
     | None \<Rightarrow> if k \<in> set proto_keys then Inherited else Undefined)"

lemma has_prop_plain: "k \<notin> set proto_keys \<Longrightarrow> has_prop m k \<longleftrightarrow> m k \<noteq> None"
  by (simp add: has_prop_def)

lemma has_prop_upd [simp]: "has_prop (m(k \<mapsto> v)) k' \<longleftrightarrow> k' = k \<or> has_prop m k'"
  by (auto simp: has_prop_def)

lemma get_prop_upd [simp]: "get_prop (m(k \<mapsto> v)) k' = (if k' = k then Own v else get_prop m k')"
  by (simp add: get_prop_def)

lemma get_prop_Undefined: "get_prop m k = Undefined \<longleftrightarrow> \<not> has_prop m k"
  by (auto simp: get_prop_def has_prop_def split: option.splits)

section \<open>Arrays\<close>

definition hd_opt :: "'a list \<Rightarrow> 'a option" where
  "hd_opt xs = (case xs of [] \<Rightarrow> None | x # _ \<Rightarrow> Some x)"

definition last_opt :: "'a list \<Rightarrow> 'a option" where
  "last_opt xs = (if xs = [] then None else Some (last xs))"

lemma hd_opt_simps [simp]:
  "hd_opt [] = None" "hd_opt (x # xs) = Some x"
  by (simp_all add: hd_opt_def)

lemma last_opt_simps [simp]:
  "last_opt [] = None" "last_opt (xs @ [x]) = Some x"
  by (simp_all add: last_opt_def)

lemma hd_opt_None [simp]: "hd_opt xs = None \<longleftrightarrow> xs = []"
  by (cases xs) auto

lemma last_opt_None [simp]: "last_opt xs = None \<longleftrightarrow> xs = []"
  by (cases xs rule: rev_cases) auto

lemma hd_opt_append: "hd_opt (xs @ ys) = (if xs = [] then hd_opt ys else hd_opt xs)"
  by (cases xs) auto

lemma last_opt_append: "last_opt (xs @ ys) = (if ys = [] then last_opt xs else last_opt ys)"
  by (cases ys rule: rev_cases) (auto simp flip: append_assoc)

lemma last_opt_Cons: "last_opt (x # xs) = (if xs = [] then Some x else last_opt xs)"
  using last_opt_append [of "[x]" xs] last_opt_simps(2) [of "[]" x] by simp

lemma hd_opt_in_set: "hd_opt xs = Some x \<Longrightarrow> x \<in> set xs"
  by (cases xs) auto

lemma last_opt_in_set: "last_opt xs = Some x \<Longrightarrow> x \<in> set xs"
  by (cases xs rule: rev_cases) auto

text \<open>\<open>a[i]\<close> on an array: undefined out of range, never an exception.\<close>

definition nth_opt :: "'a list \<Rightarrow> nat \<Rightarrow> 'a option" where
  "nth_opt xs i = (if i < length xs then Some (xs ! i) else None)"

text \<open>\<open>a.splice(i, 1)\<close> for an index in range.\<close>

definition remove_at :: "nat \<Rightarrow> 'a list \<Rightarrow> 'a list" where
  "remove_at i xs = take i xs @ drop (Suc i) xs"

lemma length_remove_at: "i < length xs \<Longrightarrow> length (remove_at i xs) = length xs - 1"
  by (auto simp: remove_at_def)

text \<open>
  \<open>a.slice(start, end)\<close>: negative bounds count from the end, and both are clamped to the array.
\<close>

definition clamp_index :: "nat \<Rightarrow> int \<Rightarrow> nat" where
  "clamp_index n i = nat (if i < 0 then max (int n + i) 0 else min i (int n))"

definition js_slice :: "'a list \<Rightarrow> int \<Rightarrow> int \<Rightarrow> 'a list" where
  "js_slice xs i j =
     (let a = clamp_index (length xs) i; b = clamp_index (length xs) j in take (b - a) (drop a xs))"

lemma clamp_index_le: "clamp_index n i \<le> n"
  by (auto simp: clamp_index_def)

lemma set_js_slice: "set (js_slice xs i j) \<subseteq> set xs"
  by (auto simp: js_slice_def Let_def dest: in_set_takeD in_set_dropD)

section \<open>Neighbours in a list\<close>

text \<open>The element after another one and before it, and insertion beside it.\<close>

fun after_in :: "'a \<Rightarrow> 'a list \<Rightarrow> 'a option" where
  "after_in x (y # z # zs) = (if y = x then Some z else after_in x (z # zs))"
| "after_in x ys = None"

fun before_in :: "'a \<Rightarrow> 'a list \<Rightarrow> 'a option" where
  "before_in x (y # z # zs) = (if z = x then Some y else before_in x (z # zs))"
| "before_in x ys = None"

fun insert_after :: "'a \<Rightarrow> 'a \<Rightarrow> 'a list \<Rightarrow> 'a list" where
  "insert_after new ref [] = []"
| "insert_after new ref (x # xs) = (if x = ref then x # new # xs else x # insert_after new ref xs)"

fun insert_before :: "'a \<Rightarrow> 'a \<Rightarrow> 'a list \<Rightarrow> 'a list" where
  "insert_before new ref [] = []"
| "insert_before new ref (x # xs) = (if x = ref then new # x # xs else x # insert_before new ref xs)"

lemma insert_absent: "ref \<notin> set xs \<Longrightarrow> insert_before new ref xs = xs" "ref \<notin> set xs \<Longrightarrow> insert_after new ref xs = xs"
  by (induction xs) auto

lemma insert_at_nth:
  "distinct r \<Longrightarrow> x < length r \<Longrightarrow> insert_before new (r ! x) r = take x r @ new # drop x r"
  "distinct r \<Longrightarrow> x < length r \<Longrightarrow> insert_after new (r ! x) r = take (Suc x) r @ new # drop (Suc x) r"
  by (induction r arbitrary: x; auto simp: nth_Cons split: nat.splits)+

lemma after_in_append: "x \<notin> set xs \<Longrightarrow> after_in x (xs @ x # ys) = hd_opt ys"
proof (induction xs)
  case Nil
  show ?case by (cases ys) simp_all
next
  case (Cons z xs)
  then show ?case by (cases xs) auto
qed

lemma before_in_absent: "x \<notin> set ys \<Longrightarrow> before_in x (y # ys) = None"
  by (induction ys arbitrary: y) auto

lemma before_in_append: "x \<notin> set xs \<Longrightarrow> x \<notin> set ys \<Longrightarrow> before_in x (xs @ x # ys) = last_opt xs"
proof (induction xs)
  case Nil
  then show ?case by (simp add: before_in_absent)
next
  case (Cons z xs)
  then show ?case by (cases xs) (auto simp: last_opt_Cons)
qed

lemma hd_opt_drop: "hd_opt (drop i xs) = nth_opt xs i"
  by (auto simp: hd_opt_def nth_opt_def hd_drop_conv_nth [symmetric] split: list.splits)

lemma last_opt_take: "i < length xs \<Longrightarrow> last_opt (take (Suc i) xs) = Some (xs ! i)"
  by (simp add: take_Suc_conv_app_nth)

lemma nth_not_beside: "distinct xs \<Longrightarrow> i < length xs \<Longrightarrow> xs ! i \<notin> set (take i xs) \<and> xs ! i \<notin> set (drop (Suc i) xs)"
  by (auto simp: in_set_conv_nth nth_eq_iff_index_eq)

lemma after_in_nth: "distinct xs \<Longrightarrow> i < length xs \<Longrightarrow> after_in (xs ! i) xs = nth_opt xs (Suc i)"
  using after_in_append [of "xs ! i" "take i xs" "drop (Suc i) xs"] nth_not_beside [of xs i]
  by (simp add: id_take_nth_drop [symmetric] hd_opt_drop)

lemma before_in_nth:
  assumes "distinct xs" "i < length xs"
  shows "before_in (xs ! i) xs = (if i = 0 then None else Some (xs ! (i - 1)))"
proof (cases i)
  case 0
  then show ?thesis using assms by (cases xs) (simp_all add: before_in_absent)
next
  case (Suc k)
  then show ?thesis
    using before_in_append [of "xs ! i" "take i xs" "drop (Suc i) xs"] nth_not_beside [OF assms] last_opt_take [of k xs] assms(2)
    by (simp add: id_take_nth_drop [symmetric])
qed

lemma after_in_set: "after_in x xs = Some y \<Longrightarrow> y \<in> set xs"
  by (induction x xs rule: after_in.induct) (auto split: if_splits)

lemma before_in_set: "before_in x xs = Some y \<Longrightarrow> y \<in> set xs"
  by (induction x xs rule: before_in.induct) (auto split: if_splits)

end
