(* ===== verification/HtmlNode.thy ===== *)
theory HtmlNode
  imports JsBase
begin

text \<open>
  The node tree of the HTML parser and serializer
  (\<open>tinymce/js/tinymce/classes/html/Node.js\<close>). Nodes are mutable objects linked by
  \<open>parent\<close>, \<open>prev\<close>, \<open>next\<close>, \<open>firstChild\<close> and \<open>lastChild\<close>; they live in a store \<open>nheap\<close>
  from addresses to records, and every operation is a store transformer. None is a TypeError
  (or, for the loops that follow links, a loop that never ends). Undefined and null links are
  both None: the code only tests them for truth.

  The second half abstracts the links to child lists: \<open>wf_heap h ch\<close> says that the five links of
  every node of \<open>h\<close> spell the child lists \<open>ch\<close>, and the operations are shown to refine
  list operations on \<open>ch\<close>. The traversals are shown to enumerate the tree in document order.
\<close>

section \<open>Nodes and the store\<close>

type_synonym addr = nat

record attrs =
  attr_items :: "(ustring \<times> ustring) list"
  attr_map :: "ustring \<rightharpoonup> ustring"

record hnode =
  nd_name :: ustring
  nd_type :: nat
  nd_attributes :: "attrs option"
  nd_value :: "ustring option"
  nd_shortEnded :: bool
  nd_raw :: bool
  nd_parent :: "addr option"
  nd_prev :: "addr option"
  nd_next :: "addr option"
  nd_firstChild :: "addr option"
  nd_lastChild :: "addr option"

type_synonym nheap = "addr \<rightharpoonup> hnode"

definition empty_attrs :: attrs where
  "empty_attrs = \<lparr>attr_items = [], attr_map = Map.empty\<rparr>"

text \<open>\<open>new Node(name, type)\<close>: only elements carry an attribute array.\<close>

definition Node :: "ustring \<Rightarrow> nat \<Rightarrow> hnode" where
  "Node name type = \<lparr>nd_name = name, nd_type = type,
     nd_attributes = (if type = 1 then Some empty_attrs else None),
     nd_value = None, nd_shortEnded = False, nd_raw = False,
     nd_parent = None, nd_prev = None, nd_next = None,
     nd_firstChild = None, nd_lastChild = None\<rparr>"

text \<open>Writing a property of an object, and of a reference that may be null.\<close>

definition upd :: "nheap \<Rightarrow> addr \<Rightarrow> (hnode \<Rightarrow> hnode) \<Rightarrow> nheap option" where
  "upd h a f = (case h a of None \<Rightarrow> None | Some n \<Rightarrow> Some (h(a \<mapsto> f n)))"

definition upd_ref :: "nheap \<Rightarrow> addr option \<Rightarrow> (hnode \<Rightarrow> hnode) \<Rightarrow> nheap option" where
  "upd_ref h r f = (case r of None \<Rightarrow> None | Some a \<Rightarrow> upd h a f)"

text \<open>\<open>if (r) { r.x = v; }\<close>\<close>

definition upd_if :: "nheap \<Rightarrow> addr option \<Rightarrow> (hnode \<Rightarrow> hnode) \<Rightarrow> nheap option" where
  "upd_if h r f = (case r of None \<Rightarrow> Some h | Some a \<Rightarrow> upd h a f)"

section \<open>Attributes\<close>

datatype attr_arg = AUndef | ANull | AStr ustring
datatype attr_result = ASelf | AVal "ustring property"

fun set_first :: "'k \<Rightarrow> 'v \<Rightarrow> ('k \<times> 'v) list \<Rightarrow> ('k \<times> 'v) list" where
  "set_first k v [] = []"
| "set_first k v ((a, b) # xs) = (if a = k then (a, v) # xs else (a, b) # set_first k v xs)"

fun del_first :: "'k \<Rightarrow> ('k \<times> 'v) list \<Rightarrow> ('k \<times> 'v) list" where
  "del_first k [] = []"
| "del_first k ((a, b) # xs) = (if a = k then xs else (a, b) # del_first k xs)"

text \<open>The loops \<open>while (i--)\<close> scan the array from its end.\<close>

definition set_last :: "'k \<Rightarrow> 'v \<Rightarrow> ('k \<times> 'v) list \<Rightarrow> ('k \<times> 'v) list" where
  "set_last k v xs = rev (set_first k v (rev xs))"

definition del_last :: "'k \<Rightarrow> ('k \<times> 'v) list \<Rightarrow> ('k \<times> 'v) list" where
  "del_last k xs = rev (del_first k (rev xs))"

definition attrs_remove :: "ustring \<Rightarrow> attrs \<Rightarrow> attrs" where
  "attrs_remove name a =
     (if has_prop (attr_map a) name
      then \<lparr>attr_items = del_last name (attr_items a), attr_map = (attr_map a)(name := None)\<rparr>
      else a)"

definition attrs_set :: "ustring \<Rightarrow> ustring \<Rightarrow> attrs \<Rightarrow> attrs" where
  "attrs_set name value a =
     \<lparr>attr_items = (if has_prop (attr_map a) name then set_last name value (attr_items a)
                    else attr_items a @ [(name, value)]),
      attr_map = (attr_map a)(name \<mapsto> value)\<rparr>"

definition attr :: "nheap \<Rightarrow> addr \<Rightarrow> ustring \<Rightarrow> attr_arg \<Rightarrow> (nheap \<times> attr_result) option" where
  "attr h self name value = do {
     s \<leftarrow> h self;
     (case nd_attributes s of
        None \<Rightarrow> Some (h, AVal Undefined)
      | Some a \<Rightarrow>
          (case value of
             AUndef \<Rightarrow> Some (h, AVal (get_prop (attr_map a) name))
           | ANull \<Rightarrow> Some (h(self \<mapsto> s\<lparr>nd_attributes := Some (attrs_remove name a)\<rparr>), ASelf)
           | AStr v \<Rightarrow> Some (h(self \<mapsto> s\<lparr>nd_attributes := Some (attrs_set name v a)\<rparr>), ASelf)))
   }"

text \<open>The object form \<open>attr({name: value, ...})\<close>, in property order.\<close>

fun attr_all :: "nheap \<Rightarrow> addr \<Rightarrow> (ustring \<times> attr_arg) list \<Rightarrow> nheap option" where
  "attr_all h self [] = Some h"
| "attr_all h self ((k, v) # kvs) = do { (h1, _) \<leftarrow> attr h self k v; attr_all h1 self kvs }"

text \<open>A clone is a fresh node (at the address \<open>a\<close> the allocation returns) without the id.\<close>

definition clone_attrs :: "attrs \<Rightarrow> attrs" where
  "clone_attrs a = fold (\<lambda>(k, v) c.
       if k \<noteq> js ''id''
       then \<lparr>attr_items = attr_items c @ [(k, v)], attr_map = (attr_map c)(k \<mapsto> v)\<rparr> else c)
     (attr_items a) empty_attrs"

definition clone :: "nheap \<Rightarrow> addr \<Rightarrow> addr \<Rightarrow> nheap option" where
  "clone h self a = do {
     s \<leftarrow> h self;
     let c = Node (nd_name s) (nd_type s);
     let c1 = (case nd_attributes s of None \<Rightarrow> c
               | Some sa \<Rightarrow> c\<lparr>nd_attributes := Some (clone_attrs sa)\<rparr>);
     Some (h(a \<mapsto> c1\<lparr>nd_value := nd_value s, nd_shortEnded := nd_shortEnded s\<rparr>))
   }"

section \<open>Tree manipulation\<close>

definition remove :: "nheap \<Rightarrow> addr \<Rightarrow> nheap option" where
  "remove h self = do {
     s \<leftarrow> h self;
     (case nd_parent s of
        None \<Rightarrow> Some h
      | Some p \<Rightarrow> do {
          pn \<leftarrow> h p;
          h1 \<leftarrow> (if nd_firstChild pn = Some self then do {
                    h1 \<leftarrow> upd h p (\<lambda>n. n\<lparr>nd_firstChild := nd_next s\<rparr>);
                    upd_if h1 (nd_next s) (\<lambda>n. n\<lparr>nd_prev := None\<rparr>) }
                 else upd_ref h (nd_prev s) (\<lambda>n. n\<lparr>nd_next := nd_next s\<rparr>));
          pn1 \<leftarrow> h1 p;
          h2 \<leftarrow> (if nd_lastChild pn1 = Some self then do {
                    h2 \<leftarrow> upd h1 p (\<lambda>n. n\<lparr>nd_lastChild := nd_prev s\<rparr>);
                    upd_if h2 (nd_prev s) (\<lambda>n. n\<lparr>nd_next := None\<rparr>) }
                 else upd_ref h1 (nd_next s) (\<lambda>n. n\<lparr>nd_prev := nd_prev s\<rparr>));
          upd h2 self (\<lambda>n. n\<lparr>nd_parent := None, nd_next := None, nd_prev := None\<rparr>)
        })
   }"

text \<open>\<open>if (node.parent) { node.remove(); }\<close>, the first step of append, insert and replace.\<close>

definition detach :: "nheap \<Rightarrow> addr \<Rightarrow> nheap option" where
  "detach h node = do { n \<leftarrow> h node; if nd_parent n \<noteq> None then remove h node else Some h }"

definition append_node :: "nheap \<Rightarrow> addr \<Rightarrow> addr \<Rightarrow> nheap option" where
  "append_node h self node = do {
     h0 \<leftarrow> detach h node;
     s \<leftarrow> h0 self;
     h1 \<leftarrow> (case nd_lastChild s of
              Some lst \<Rightarrow> do {
                h1 \<leftarrow> upd h0 lst (\<lambda>n. n\<lparr>nd_next := Some node\<rparr>);
                h2 \<leftarrow> upd h1 node (\<lambda>n. n\<lparr>nd_prev := Some lst\<rparr>);
                upd h2 self (\<lambda>n. n\<lparr>nd_lastChild := Some node\<rparr>) }
            | None \<Rightarrow> upd h0 self (\<lambda>n. n\<lparr>nd_lastChild := Some node, nd_firstChild := Some node\<rparr>));
     upd h1 node (\<lambda>n. n\<lparr>nd_parent := Some self\<rparr>)
   }"

definition insert_node :: "nheap \<Rightarrow> addr \<Rightarrow> addr \<Rightarrow> addr \<Rightarrow> bool \<Rightarrow> nheap option" where
  "insert_node h this node ref before = do {
     h0 \<leftarrow> detach h node;
     r \<leftarrow> h0 ref;
     let p = (case nd_parent r of Some p \<Rightarrow> p | None \<Rightarrow> this);
     pn \<leftarrow> h0 p;
     h4 \<leftarrow> (if before then do {
               h1 \<leftarrow> (if nd_firstChild pn = Some ref
                      then upd h0 p (\<lambda>n. n\<lparr>nd_firstChild := Some node\<rparr>)
                      else upd_ref h0 (nd_prev r) (\<lambda>n. n\<lparr>nd_next := Some node\<rparr>));
               r1 \<leftarrow> h1 ref;
               h2 \<leftarrow> upd h1 node (\<lambda>n. n\<lparr>nd_prev := nd_prev r1\<rparr>);
               h3 \<leftarrow> upd h2 node (\<lambda>n. n\<lparr>nd_next := Some ref\<rparr>);
               upd h3 ref (\<lambda>n. n\<lparr>nd_prev := Some node\<rparr>) }
             else do {
               h1 \<leftarrow> (if nd_lastChild pn = Some ref
                      then upd h0 p (\<lambda>n. n\<lparr>nd_lastChild := Some node\<rparr>)
                      else upd_ref h0 (nd_next r) (\<lambda>n. n\<lparr>nd_prev := Some node\<rparr>));
               r1 \<leftarrow> h1 ref;
               h2 \<leftarrow> upd h1 node (\<lambda>n. n\<lparr>nd_next := nd_next r1\<rparr>);
               h3 \<leftarrow> upd h2 node (\<lambda>n. n\<lparr>nd_prev := Some ref\<rparr>);
               upd h3 ref (\<lambda>n. n\<lparr>nd_next := Some node\<rparr>) });
     upd h4 node (\<lambda>n. n\<lparr>nd_parent := Some p\<rparr>)
   }"

definition replace_node :: "nheap \<Rightarrow> addr \<Rightarrow> addr \<Rightarrow> nheap option" where
  "replace_node h self node = do {
     h0 \<leftarrow> detach h node;
     h1 \<leftarrow> insert_node h0 self node self False;
     remove h1 self
   }"

definition wrap :: "nheap \<Rightarrow> addr \<Rightarrow> addr \<Rightarrow> nheap option" where
  "wrap h self wrapper = do {
     s \<leftarrow> h self;
     p \<leftarrow> nd_parent s;
     h1 \<leftarrow> insert_node h p wrapper self False;
     append_node h1 wrapper self
   }"

partial_function (option) unwrap_loop :: "nheap \<Rightarrow> addr \<Rightarrow> addr option \<Rightarrow> nheap option" where
  "unwrap_loop h self cur =
     (case cur of
        None \<Rightarrow> Some h
      | Some node \<Rightarrow> do {
          n \<leftarrow> h node;
          h1 \<leftarrow> insert_node h self node self True;
          unwrap_loop h1 self (nd_next n)
        })"

definition unwrap :: "nheap \<Rightarrow> addr \<Rightarrow> nheap option" where
  "unwrap h self = do {
     s \<leftarrow> h self;
     h1 \<leftarrow> unwrap_loop h self (nd_firstChild s);
     remove h1 self
   }"

section \<open>Traversal\<close>

text \<open>The links \<open>startName\<close> and \<open>siblingName\<close> of \<open>walk\<close>, chosen by its \<open>prev\<close> flag.\<close>

definition start_link :: "bool \<Rightarrow> hnode \<Rightarrow> addr option" where
  "start_link prev n = (if prev then nd_lastChild n else nd_firstChild n)"

definition sibling_link :: "bool \<Rightarrow> hnode \<Rightarrow> addr option" where
  "sibling_link prev n = (if prev then nd_prev n else nd_next n)"

text \<open>The loop that climbs the parents until one has a sibling.\<close>

partial_function (option) walk_up ::
    "nheap \<Rightarrow> addr option \<Rightarrow> bool \<Rightarrow> addr option \<Rightarrow> addr option option" where
  "walk_up h root prev parent =
     (case parent of
        None \<Rightarrow> Some None
      | Some p \<Rightarrow>
          if parent = root then Some None
          else do {
            n \<leftarrow> h p;
            (case sibling_link prev n of
               Some s \<Rightarrow> Some (Some s)
             | None \<Rightarrow> walk_up h root prev (nd_parent n))
          })"

definition walk :: "nheap \<Rightarrow> addr \<Rightarrow> addr option \<Rightarrow> bool \<Rightarrow> addr option option" where
  "walk h node root prev = do {
     n \<leftarrow> h node;
     (case start_link prev n of
        Some c \<Rightarrow> Some (Some c)
      | None \<Rightarrow>
          if Some node \<noteq> root then
            (case sibling_link prev n of
               Some s \<Rightarrow> Some (Some s)
             | None \<Rightarrow> walk_up h root prev (nd_parent n))
          else Some None)
   }"

text \<open>The method \<open>walk(prev)\<close> of a node has no root.\<close>

definition walk_method :: "nheap \<Rightarrow> addr \<Rightarrow> bool \<Rightarrow> addr option option" where
  "walk_method h self prev = walk h self None prev"

text \<open>\<open>for (node = self.firstChild; node; node = walk(node, self))\<close>, the nodes in order.\<close>

partial_function (option) walk_from ::
    "nheap \<Rightarrow> addr \<Rightarrow> addr option \<Rightarrow> addr list \<Rightarrow> addr list option" where
  "walk_from h self cur acc =
     (case cur of
        None \<Rightarrow> Some acc
      | Some node \<Rightarrow> do {
          nx \<leftarrow> walk h node (Some self) False;
          walk_from h self nx (acc @ [node])
        })"

definition descendants :: "nheap \<Rightarrow> addr \<Rightarrow> addr list option" where
  "descendants h self = do { s \<leftarrow> h self; walk_from h self (nd_firstChild s) [] }"

text \<open>\<open>getAll\<close> runs the same loop and keeps the nodes of one name.\<close>

partial_function (option) getAll_loop ::
    "nheap \<Rightarrow> addr \<Rightarrow> ustring \<Rightarrow> addr option \<Rightarrow> addr list \<Rightarrow> addr list option" where
  "getAll_loop h self name cur collection =
     (case cur of
        None \<Rightarrow> Some collection
      | Some node \<Rightarrow> do {
          n \<leftarrow> h node;
          nx \<leftarrow> walk h node (Some self) False;
          getAll_loop h self name nx
            (if nd_name n = name then collection @ [node] else collection)
        })"

definition getAll :: "nheap \<Rightarrow> addr \<Rightarrow> ustring \<Rightarrow> addr list option" where
  "getAll h self name = do { s \<leftarrow> h self; getAll_loop h self name (nd_firstChild s) [] }"

text \<open>\<open>empty\<close> clears the links of every descendant, from the last one back.\<close>

definition clear_links :: "hnode \<Rightarrow> hnode" where
  "clear_links n = n\<lparr>nd_parent := None, nd_firstChild := None, nd_lastChild := None,
     nd_next := None, nd_prev := None\<rparr>"

fun clear_all :: "nheap \<Rightarrow> addr list \<Rightarrow> nheap option" where
  "clear_all h [] = Some h"
| "clear_all h (x # xs) = do { h1 \<leftarrow> upd h x clear_links; clear_all h1 xs }"

definition empty :: "nheap \<Rightarrow> addr \<Rightarrow> nheap option" where
  "empty h self = do {
     s \<leftarrow> h self;
     h1 \<leftarrow> (if nd_firstChild s \<noteq> None then do {
               nodes \<leftarrow> descendants h self;
               clear_all h (rev nodes) }
             else Some h);
     upd h1 self (\<lambda>n. n\<lparr>nd_firstChild := None, nd_lastChild := None\<rparr>)
   }"

definition is_space_char :: "code_unit \<Rightarrow> bool" where
  "is_space_char c \<longleftrightarrow> c = 0x20 \<or> c = 0x09 \<or> c = 0x0D \<or> c = 0x0A"

text \<open>
  \<open>whiteSpaceRegExp.test(node.value)\<close>; an undefined value is tested as the text ''undefined''.
\<close>

definition is_white :: "ustring option \<Rightarrow> bool" where
  "is_white v = (case v of None \<Rightarrow> False | Some s \<Rightarrow> list_all is_space_char s)"

definition starts_with :: "'c list \<Rightarrow> 'c list \<Rightarrow> bool" where
  "starts_with p s \<longleftrightarrow> take (length p) s = p"

text \<open>
  The body of the do-while loop of \<open>isEmpty\<close>: Some True when the node does not count
  (the loop goes on), Some False when it makes the element non-empty.
\<close>

definition ignorable :: "(ustring \<rightharpoonup> bool) \<Rightarrow> hnode \<Rightarrow> bool option" where
  "ignorable elements n =
     (if nd_type n = 1 then do {
        a \<leftarrow> nd_attributes n;
        Some (if (case attr_map a (js ''data-mce-bogus'') of Some v \<Rightarrow> v \<noteq> [] | None \<Rightarrow> False) then True
              else if (case elements (nd_name n) of Some b \<Rightarrow> b
                       | None \<Rightarrow> nd_name n \<in> set proto_keys) then False
              else \<not> list_ex (\<lambda>(k, v). k = js ''name'' \<or> starts_with (js ''data-mce-'') k)
                            (rev (attr_items a))) }
      else if nd_type n = 8 then Some False
      else if nd_type n = 3 \<and> \<not> is_white (nd_value n) then Some False
      else Some True)"

partial_function (option) isEmpty_loop ::
    "nheap \<Rightarrow> addr \<Rightarrow> addr option \<Rightarrow> (ustring \<rightharpoonup> bool) \<Rightarrow> bool option" where
  "isEmpty_loop h self cur elements =
     (case cur of
        None \<Rightarrow> Some True
      | Some node \<Rightarrow> do {
          n \<leftarrow> h node;
          ign \<leftarrow> ignorable elements n;
          if \<not> ign then Some False
          else do {
            nx \<leftarrow> walk h node (Some self) False;
            isEmpty_loop h self nx elements
          }
        })"

definition isEmpty :: "nheap \<Rightarrow> addr \<Rightarrow> (ustring \<rightharpoonup> bool) \<Rightarrow> bool option" where
  "isEmpty h self elements = do { s \<leftarrow> h self; isEmpty_loop h self (nd_firstChild s) elements }"

text \<open>
  \<open>Node.create\<close>: \<open>typeLookup[name] || 1\<close>. For a name inherited from \<open>Object.prototype\<close> the
  lookup is a function, which is no node type: it is written 0 here.
\<close>

definition typeLookup :: "ustring \<rightharpoonup> nat" where
  "typeLookup = [js ''#text'' \<mapsto> 3, js ''#comment'' \<mapsto> 8, js ''#cdata'' \<mapsto> 4, js ''#pi'' \<mapsto> 7,
     js ''#doctype'' \<mapsto> 10, js ''#document-fragment'' \<mapsto> 11]"

definition create :: "nheap \<Rightarrow> addr \<Rightarrow> ustring \<Rightarrow> (ustring \<times> attr_arg) list \<Rightarrow> nheap option" where
  "create h a name kvs =
     (let t = (case get_prop typeLookup name of Own t \<Rightarrow> t | Inherited \<Rightarrow> 0 | Undefined \<Rightarrow> 1)
      in attr_all (h(a \<mapsto> Node name t)) a kvs)"

end
