(* ===== verification/HtmlTree.thy ===== *)
theory HtmlTree
  imports HtmlNode
begin

text \<open>
  The links of the node store abstracted to child lists. \<open>links\<close> and \<open>ends\<close> project the five
  links out of the store, \<open>seg\<close> is a doubly linked segment of siblings, and
  \<open>wf_heap h ch\<close> is the invariant: the links spell exactly the child lists \<open>ch\<close>.
  \<open>remove\<close>, \<open>append\<close>, \<open>insert\<close>, \<open>replace\<close>, \<open>wrap\<close> and \<open>unwrap\<close> are shown to refine the
  list operations on \<open>ch\<close> one expects, never to fail on a well-formed store, and to leave the
  contents of the nodes alone.
\<close>

section \<open>Segments of siblings\<close>

type_synonym link_map = "addr \<rightharpoonup> addr option \<times> addr option \<times> addr option"
type_synonym end_map = "addr \<rightharpoonup> addr option \<times> addr option"

definition links :: "nheap \<Rightarrow> link_map" where
  "links h x = map_option (\<lambda>n. (nd_parent n, nd_prev n, nd_next n)) (h x)"

definition ends :: "nheap \<Rightarrow> end_map" where
  "ends h x = map_option (\<lambda>n. (nd_firstChild n, nd_lastChild n)) (h x)"

text \<open>What a node holds besides its links.\<close>

definition contents :: "nheap \<Rightarrow> nheap" where
  "contents h x = map_option clear_links (h x)"

definition or_else :: "'a option \<Rightarrow> 'a option \<Rightarrow> 'a option" where
  "or_else a b = (case a of None \<Rightarrow> b | Some x \<Rightarrow> Some x)"

lemma or_else_simps [simp]:
  "or_else None b = b" "or_else (Some x) b = Some x" "or_else a None = a"
  by (auto simp: or_else_def split: option.splits)

fun seg :: "link_map \<Rightarrow> addr \<Rightarrow> addr option \<Rightarrow> addr list \<Rightarrow> addr option \<Rightarrow> bool" where
  "seg L p pv [] nx = True"
| "seg L p pv (x # xs) nx =
     (L x = Some (Some p, pv, or_else (hd_opt xs) nx) \<and> seg L p (Some x) xs nx)"

lemma seg_append [simp]:
  "seg L p pv (xs @ ys) nx \<longleftrightarrow>
     seg L p pv xs (or_else (hd_opt ys) nx) \<and> seg L p (or_else (last_opt xs) pv) ys nx"
  by (induction xs arbitrary: pv)
     (auto simp: hd_opt_append last_opt_Cons or_else_def split: option.splits)

lemma seg_cong: "(\<And>x. x \<in> set xs \<Longrightarrow> L' x = L x) \<Longrightarrow> seg L' p pv xs nx = seg L p pv xs nx"
  by (induction xs arbitrary: pv) auto

lemma seg_upd [simp]: "a \<notin> set xs \<Longrightarrow> seg (L(a := v)) p pv xs nx = seg L p pv xs nx"
  by (rule seg_cong) auto

lemma seg_parent: "seg L p pv xs nx \<Longrightarrow> x \<in> set xs \<Longrightarrow> \<exists>a b. L x = Some (Some p, a, b)"
  by (induction xs arbitrary: pv) auto

text \<open>\<open>l.next = r; r.prev = l\<close>, each where the other side exists.\<close>

definition set_nx :: "link_map \<Rightarrow> addr option \<Rightarrow> addr option \<Rightarrow> link_map" where
  "set_nx L r v = (case r of None \<Rightarrow> L
     | Some a \<Rightarrow> (case L a of None \<Rightarrow> L | Some (par, pv, nx) \<Rightarrow> L(a \<mapsto> (par, pv, v))))"

definition set_pv :: "link_map \<Rightarrow> addr option \<Rightarrow> addr option \<Rightarrow> link_map" where
  "set_pv L r v = (case r of None \<Rightarrow> L
     | Some a \<Rightarrow> (case L a of None \<Rightarrow> L | Some (par, pv, nx) \<Rightarrow> L(a \<mapsto> (par, v, nx))))"

definition joined :: "link_map \<Rightarrow> addr option \<Rightarrow> addr option \<Rightarrow> link_map" where
  "joined L l r = set_pv (set_nx L l r) r l"

lemma set_nx_other: "Some a \<noteq> r \<Longrightarrow> set_nx L r v a = L a"
  by (auto simp: set_nx_def split: option.splits)

lemma set_pv_other: "Some a \<noteq> r \<Longrightarrow> set_pv L r v a = L a"
  by (auto simp: set_pv_def split: option.splits)

lemma joined_other: "Some a \<noteq> l \<Longrightarrow> Some a \<noteq> r \<Longrightarrow> joined L l r a = L a"
  by (simp add: joined_def set_nx_other set_pv_other)

lemma dom_joined [simp]: "dom (joined L l r) = dom L"
  by (auto simp: joined_def set_nx_def set_pv_def split: option.splits if_splits)

lemma seg_set_nx:
  "seg L p pv (xs @ [l]) nx \<Longrightarrow> l \<notin> set xs \<Longrightarrow> seg (set_nx L (Some l) v) p pv (xs @ [l]) v"
  by (auto simp: set_nx_def)

lemma seg_set_pv:
  "seg L p pv (y # ys) nx \<Longrightarrow> y \<notin> set ys \<Longrightarrow> seg (set_pv L (Some y) v) p v (y # ys) nx"
  by (auto simp: set_pv_def)

lemma seg_joined:
  assumes xs: "seg L p None xs a" and ys: "seg L p b ys None" and d: "distinct (xs @ ys)"
  shows "seg (joined L (last_opt xs) (hd_opt ys)) p None (xs @ ys) None"
proof -
  let ?L1 = "set_nx L (last_opt xs) (hd_opt ys)"
  let ?L2 = "joined L (last_opt xs) (hd_opt ys)"
  have x1: "seg ?L1 p None xs (hd_opt ys)"
  proof (cases xs rule: rev_cases)
    case (snoc us u)
    with xs d seg_set_nx [of L p None us u a "hd_opt ys"] show ?thesis by simp
  qed simp
  have "seg ?L1 p b ys None"
  proof -
    have "seg ?L1 p b ys None = seg L p b ys None"
      using d by (intro seg_cong set_nx_other) (cases xs rule: rev_cases; auto)
    with ys show ?thesis by simp
  qed
  then have y2: "seg ?L2 p (last_opt xs) ys None"
  proof (cases ys)
    case (Cons y zs)
    with \<open>seg ?L1 p b ys None\<close> d seg_set_pv [of ?L1 p b y zs None "last_opt xs"]
    show ?thesis by (simp add: joined_def)
  qed simp
  have "seg ?L2 p None xs (hd_opt ys) = seg ?L1 p None xs (hd_opt ys)"
    using d unfolding joined_def by (intro seg_cong set_pv_other) (cases ys; auto)
  with x1 y2 show ?thesis by simp
qed

section \<open>Well-formed stores\<close>

definition wf_links :: "link_map \<Rightarrow> end_map \<Rightarrow> (addr \<Rightarrow> addr list) \<Rightarrow> bool" where
  "wf_links L E ch \<longleftrightarrow>
     dom L = dom E
   \<and> (\<forall>p. p \<notin> dom E \<longrightarrow> ch p = [])
   \<and> (\<forall>p e. E p = Some e \<longrightarrow> e = (hd_opt (ch p), last_opt (ch p)) \<and> distinct (ch p)
          \<and> p \<notin> set (ch p) \<and> seg L p None (ch p) None)
   \<and> (\<forall>x par pv nx. L x = Some (par, pv, nx) \<longrightarrow>
          (case par of None \<Rightarrow> pv = None \<and> nx = None | Some p \<Rightarrow> x \<in> set (ch p)))"

definition wf_heap :: "nheap \<Rightarrow> (addr \<Rightarrow> addr list) \<Rightarrow> bool" where
  "wf_heap h ch \<longleftrightarrow> wf_links (links h) (ends h) ch"

lemma dom_links [simp]: "dom (links h) = dom h"
  by (auto simp: links_def)

lemma dom_ends [simp]: "dom (ends h) = dom h"
  by (auto simp: ends_def)

lemma wf_linksD:
  assumes "wf_links L E ch"
  shows "dom L = dom E"
    and "p \<notin> dom E \<Longrightarrow> ch p = []"
    and "p \<in> dom E \<Longrightarrow> E p = Some (hd_opt (ch p), last_opt (ch p))"
    and "distinct (ch p)" and "p \<notin> set (ch p)" and "seg L p None (ch p) None"
    and "L x = Some (Some p, pv, nx) \<Longrightarrow> x \<in> set (ch p)"
    and "L x = Some (None, pv, nx) \<Longrightarrow> pv = None \<and> nx = None"
proof -
  show "dom L = dom E" using assms by (simp add: wf_links_def)
  show c2: "ch p = []" if "p \<notin> dom E" using assms that by (simp add: wf_links_def)
  have *: "E p = Some (hd_opt (ch p), last_opt (ch p)) \<and> distinct (ch p) \<and> p \<notin> set (ch p)
      \<and> seg L p None (ch p) None" if "p \<in> dom E"
    using assms that unfolding wf_links_def by auto
  show "E p = Some (hd_opt (ch p), last_opt (ch p))" if "p \<in> dom E" using * that by simp
  show "distinct (ch p)" "p \<notin> set (ch p)" "seg L p None (ch p) None"
    using * c2 by (cases "p \<in> dom E"; simp)+
  show "x \<in> set (ch p)" if "L x = Some (Some p, pv, nx)"
    using assms that unfolding wf_links_def by fastforce
  show "pv = None \<and> nx = None" if "L x = Some (None, pv, nx)"
    using assms that unfolding wf_links_def by fastforce
qed

lemma wf_linksI:
  assumes "dom L = dom E" and "\<And>p. p \<notin> dom E \<Longrightarrow> ch p = []"
    and "\<And>p. p \<in> dom E \<Longrightarrow> E p = Some (hd_opt (ch p), last_opt (ch p))"
    and "\<And>p. distinct (ch p)" and "\<And>p. p \<notin> set (ch p)" and "\<And>p. seg L p None (ch p) None"
    and "\<And>x par pv nx. L x = Some (par, pv, nx) \<Longrightarrow>
          (case par of None \<Rightarrow> pv = None \<and> nx = None | Some p \<Rightarrow> x \<in> set (ch p))"
  shows "wf_links L E ch"
proof -
  have "e = (hd_opt (ch p), last_opt (ch p))" if "E p = Some e" for p e
    using assms(3) [of p] that by auto
  then show ?thesis unfolding wf_links_def using assms(1,2,4-7) by auto
qed

lemma wf_links_parent:
  assumes "wf_links L E ch" and "x \<in> set (ch p)"
  shows "\<exists>a b. L x = Some (Some p, a, b)"
  using seg_parent [OF wf_linksD(6) [OF assms(1)] assms(2)] .

text \<open>
  Replacing one child list: the one lemma behind unlinking and linking. The nodes that leave
  the list are detached, the ones that enter it were detached before, the others keep their
  links.
\<close>

lemma wf_links_relist:
  assumes wf: "wf_links L E ch" and p: "p \<in> dom E"
    and zs: "distinct zs" "p \<notin> set zs" "seg L' p None zs None"
    and dom: "dom L' = dom L"
    and out: "\<And>a. a \<in> set (ch p) \<Longrightarrow> a \<notin> set zs \<Longrightarrow> L' a = Some (None, None, None)"
    and new: "\<And>a. a \<in> set zs \<Longrightarrow> a \<notin> set (ch p) \<Longrightarrow> \<exists>pv nx. L a = Some (None, pv, nx)"
    and same: "\<And>a. a \<notin> set (ch p) \<Longrightarrow> a \<notin> set zs \<Longrightarrow> L' a = L a"
  shows "wf_links L' (E(p \<mapsto> (hd_opt zs, last_opt zs))) (ch(p := zs))"
proof -
  have other: "seg L' q None (ch q) None" if "q \<noteq> p" for q
  proof -
    have "L' a = L a" if a: "a \<in> set (ch q)" for a
    proof -
      obtain u v where "L a = Some (Some q, u, v)"
        using wf_links_parent [OF wf a] by blast
      with \<open>q \<noteq> p\<close> have "a \<notin> set (ch p)" "a \<notin> set zs"
        using wf_links_parent [OF wf, of a p] new [of a] by auto
      then show ?thesis by (rule same)
    qed
    then have "seg L' q None (ch q) None = seg L q None (ch q) None"
      by (rule seg_cong)
    with wf_linksD(6) [OF wf] show ?thesis by simp
  qed
  have last: "case par of None \<Rightarrow> pv = None \<and> nx = None | Some q \<Rightarrow> x \<in> set ((ch(p := zs)) q)"
    if x: "L' x = Some (par, pv, nx)" for x par pv nx
  proof -
    consider "x \<in> set zs" | "x \<in> set (ch p)" "x \<notin> set zs" | "x \<notin> set (ch p)" "x \<notin> set zs"
      by blast
    then show ?thesis
    proof cases
      case 1
      with seg_parent [OF zs(3)] x show ?thesis by fastforce
    next
      case 2
      with out x show ?thesis by simp
    next
      case 3
      with same x have L: "L x = Some (par, pv, nx)" by simp
      with wf_linksD(7,8) [OF wf] 3 show ?thesis by (cases par) auto
    qed
  qed
  show ?thesis
  proof (rule wf_linksI)
    show "dom L' = dom (E(p \<mapsto> (hd_opt zs, last_opt zs)))"
      using dom p wf_linksD(1) [OF wf] by auto
    show "seg L' q None ((ch(p := zs)) q) None" for q
      using other zs(3) by simp
    show "(E(p \<mapsto> (hd_opt zs, last_opt zs))) q =
        Some (hd_opt ((ch(p := zs)) q), last_opt ((ch(p := zs)) q))"
      if "q \<in> dom (E(p \<mapsto> (hd_opt zs, last_opt zs)))" for q
      using that wf_linksD(3) [OF wf, of q] by auto
  qed (use wf_linksD(2,4,5) [OF wf] p zs last in auto)
qed

section \<open>The effect of the operations on the links\<close>

lemma upd_Some: "h a = Some n \<Longrightarrow> upd h a f = Some (h(a \<mapsto> f n))"
  by (simp add: upd_def)

lemma links_Some: "links h x = Some (par, pv, nx) \<Longrightarrow>
    \<exists>n. h x = Some n \<and> nd_parent n = par \<and> nd_prev n = pv \<and> nd_next n = nx"
  by (auto simp: links_def)

lemma ends_Some: "ends h x = Some (a, b) \<Longrightarrow>
    \<exists>n. h x = Some n \<and> nd_firstChild n = a \<and> nd_lastChild n = b"
  by (auto simp: ends_def)

lemma wf_heap_parentE:
  assumes "wf_heap h ch" and "ch p \<noteq> []"
  obtains pn where "h p = Some pn" "nd_firstChild pn = hd_opt (ch p)" "nd_lastChild pn = last_opt (ch p)"
proof -
  from assms have "p \<in> dom h" using wf_linksD(2) [of "links h" "ends h" ch p] by (auto simp: wf_heap_def)
  then show thesis
    using that wf_linksD(3) [of "links h" "ends h" ch p] ends_Some [of h p] assms(1) by (auto simp: wf_heap_def)
qed

lemma wf_heap_childE:
  assumes "wf_heap h ch" and "ch p = xs @ x # ys"
  obtains n where "h x = Some n" "nd_parent n = Some p" "nd_prev n = last_opt xs" "nd_next n = hd_opt ys"
proof -
  from wf_linksD(6) [of "links h" "ends h" ch p] assms
  have "links h x = Some (Some p, last_opt xs, hd_opt ys)" by (simp add: wf_heap_def)
  then show thesis using that links_Some by blast
qed

lemma wf_heap_distinct:
  assumes "wf_heap h ch"
  shows "distinct (ch p)" and "p \<notin> set (ch p)"
  using assms wf_linksD(4,5) by (auto simp: wf_heap_def)

definition effect :: "nheap option \<Rightarrow> link_map \<Rightarrow> end_map \<Rightarrow> nheap \<Rightarrow> bool" where
  "effect r L E C \<longleftrightarrow> (\<exists>h'. r = Some h' \<and> links h' = L \<and> ends h' = E \<and> contents h' = C)"

lemma effect_Some: "effect (Some h') L E C \<longleftrightarrow>
    (\<forall>a. links h' a = L a) \<and> (\<forall>a. ends h' a = E a) \<and> (\<forall>a. contents h' a = C a)"
  by (auto simp: effect_def)

definition cut :: "link_map \<Rightarrow> addr list \<Rightarrow> addr \<Rightarrow> addr list \<Rightarrow> link_map" where
  "cut L xs x ys = (joined L (last_opt xs) (hd_opt ys))(x \<mapsto> (None, None, None))"

lemma remove_effect:
  assumes wf: "wf_heap h ch" and x: "ch p = xs @ x # ys"
  shows "effect (remove h x) (cut (links h) xs x ys)
     ((ends h)(p \<mapsto> (hd_opt (xs @ ys), last_opt (xs @ ys)))) (contents h)"
proof -
  obtain pn where pn: "h p = Some pn" "nd_firstChild pn = hd_opt (xs @ x # ys)"
      "nd_lastChild pn = last_opt (xs @ x # ys)"
    using wf_heap_parentE [OF wf, of p] x by auto
  obtain s where s: "h x = Some s" "nd_parent s = Some p" "nd_prev s = last_opt xs" "nd_next s = hd_opt ys"
    using wf_heap_childE [OF wf x] by blast
  have d: "distinct (xs @ x # ys)" "p \<notin> set (xs @ x # ys)"
    using wf_heap_distinct [OF wf, of p] x by auto
  note rules = remove_def upd_def upd_if_def upd_ref_def cut_def joined_def set_nx_def set_pv_def
    links_def ends_def contents_def clear_links_def effect_Some last_opt_Cons hd_opt_append
    last_opt_append
  show ?thesis
  proof (cases xs rule: rev_cases)
    case Nil
    show ?thesis
    proof (cases ys)
      case (Cons y zs)
      then have "\<exists>yn. h y = Some yn \<and> nd_prev yn = Some x"
        using wf_heap_childE [OF wf, of p "xs @ [x]" y zs] x by auto
      then show ?thesis
        using Nil Cons pn s d by (auto simp: rules dest: last_opt_in_set)
    qed (use Nil pn s d in \<open>simp add: rules\<close>)
  next
    case (snoc us l)
    then obtain ln where ln: "h l = Some ln" "nd_next ln = Some x"
      using wf_heap_childE [OF wf, of p us l "x # ys"] x by auto
    have us: "hd_opt us \<noteq> Some x" using d snoc by (auto dest: hd_opt_in_set)
    show ?thesis
    proof (cases ys)
      case (Cons y zs)
      then obtain yn where yn: "h y = Some yn" "nd_prev yn = Some x"
        using wf_heap_childE [OF wf, of p "xs @ [x]" y zs] x by auto
      have "last_opt zs \<noteq> Some x" "l \<noteq> y" "y \<noteq> x" "l \<noteq> x" "p \<noteq> x" "p \<noteq> l" "p \<noteq> y"
        using d Cons snoc by (auto dest: last_opt_in_set)
      then show ?thesis
        using snoc Cons pn s us ln yn by (simp add: rules)
    qed (use snoc pn s d us ln in \<open>simp add: rules\<close>)
  qed
qed

lemma effectE:
  assumes "effect r L E C"
  obtains h' where "r = Some h'" "links h' = L" "ends h' = E" "contents h' = C"
  using assms by (auto simp: effect_def)

lemma wf_links_cut:
  assumes wf: "wf_links L E ch" and x: "ch p = xs @ x # ys"
  shows "wf_links (cut L xs x ys) (E(p \<mapsto> (hd_opt (xs @ ys), last_opt (xs @ ys)))) (ch(p := xs @ ys))"
proof (rule wf_links_relist [OF wf])
  note d = wf_linksD(4,5) [OF wf, of p, unfolded x]
  have s: "seg L p None (xs @ x # ys) None"
    using wf_linksD(6) [OF wf, of p] x by simp
  show "p \<in> dom E" using wf_linksD(2) [OF wf, of p] x by auto
  show "distinct (xs @ ys)" "p \<notin> set (xs @ ys)" using d by auto
  have "seg (joined L (last_opt xs) (hd_opt ys)) p None (xs @ ys) None"
    using seg_joined [of L p xs "Some x" "Some x" ys] s d by auto
  then show "seg (cut L xs x ys) p None (xs @ ys) None"
    using d unfolding cut_def by (subst seg_upd) auto
  have "x \<in> dom L" using s by auto
  then show "dom (cut L xs x ys) = dom L"
    by (auto simp: cut_def simp del: fun_upd_apply)
  show "cut L xs x ys a = Some (None, None, None)" if "a \<in> set (ch p)" "a \<notin> set (xs @ ys)" for a
    using that x by (auto simp: cut_def)
  show "cut L xs x ys a = L a" if "a \<notin> set (ch p)" "a \<notin> set (xs @ ys)" for a
    using that x unfolding cut_def
    by (auto intro!: joined_other dest: sym [THEN hd_opt_in_set] sym [THEN last_opt_in_set])
  show "\<exists>pv nx. L a = Some (None, pv, nx)" if "a \<in> set (xs @ ys)" "a \<notin> set (ch p)" for a
    using that x by auto
qed

definition ins :: "link_map \<Rightarrow> addr \<Rightarrow> addr list \<Rightarrow> addr \<Rightarrow> addr list \<Rightarrow> link_map" where
  "ins L p xs n ys =
     joined (joined (L(n \<mapsto> (Some p, None, None))) (last_opt xs) (Some n)) (Some n) (hd_opt ys)"

lemma seg_ins:
  assumes s: "seg L p None (xs @ ys) None" and d: "distinct (xs @ n # ys)"
  shows "seg (ins L p xs n ys) p None (xs @ n # ys) None"
proof -
  let ?L0 = "L(n \<mapsto> (Some p, None, None))"
  let ?L1 = "joined ?L0 (last_opt xs) (Some n)"
  have xs: "seg ?L0 p None xs (hd_opt ys)" and ys: "seg ?L0 p (last_opt xs) ys None"
    using s d by auto
  have "seg ?L1 p None (xs @ [n]) None"
    using seg_joined [OF xs, of None "[n]"] d by simp
  moreover have "seg ?L1 p (last_opt xs) ys None = seg ?L0 p (last_opt xs) ys None"
    using d by (intro seg_cong joined_other) (auto dest: sym [THEN last_opt_in_set])
  ultimately show ?thesis
    using seg_joined [of ?L1 p "xs @ [n]" None "last_opt xs" ys] ys d by (simp add: ins_def)
qed

lemma ins_other: "a \<noteq> n \<Longrightarrow> a \<notin> set xs \<Longrightarrow> a \<notin> set ys \<Longrightarrow> ins L p xs n ys a = L a"
  unfolding ins_def
  by (subst joined_other; (subst joined_other)?)
     (auto dest: sym [THEN hd_opt_in_set] sym [THEN last_opt_in_set])

lemma wf_links_ins:
  assumes wf: "wf_links L E ch" and p: "ch p = xs @ ys" "p \<in> dom E" "n \<noteq> p"
    and n: "L n = Some (None, pv, nx)"
  shows "wf_links (ins L p xs n ys)
           (E(p \<mapsto> (hd_opt (xs @ n # ys), last_opt (xs @ n # ys)))) (ch(p := xs @ n # ys))"
proof (rule wf_links_relist [OF wf p(2)])
  have "n \<notin> set (ch p)" using wf_links_parent [OF wf, of n p] n by auto
  with wf_linksD(4,5) [OF wf, of p] p
  show d: "distinct (xs @ n # ys)" and "p \<notin> set (xs @ n # ys)" by auto
  show "seg (ins L p xs n ys) p None (xs @ n # ys) None"
    using seg_ins [OF _ d] wf_linksD(6) [OF wf, of p] p(1) by simp
  show "dom (ins L p xs n ys) = dom L"
    using n by (auto simp: ins_def simp del: fun_upd_apply)
  show "ins L p xs n ys a = Some (None, None, None)"
    if "a \<in> set (ch p)" "a \<notin> set (xs @ n # ys)" for a
    using that p by auto
  show "\<exists>pv nx. L a = Some (None, pv, nx)" if "a \<in> set (xs @ n # ys)" "a \<notin> set (ch p)" for a
    using that p n by auto
  show "ins L p xs n ys a = L a" if "a \<notin> set (ch p)" "a \<notin> set (xs @ n # ys)" for a
    using that by (intro ins_other) auto
qed

lemmas effect_rules = upd_def upd_if_def upd_ref_def joined_def set_nx_def set_pv_def
  links_def ends_def contents_def clear_links_def effect_Some last_opt_Cons hd_opt_append
  last_opt_append

lemma detached_links:
  assumes "wf_heap h ch" and "h n = Some nn" and "nd_parent nn = None"
  shows "links h n = Some (None, None, None)"
  using wf_linksD(8) [of "links h" "ends h" ch n] assms by (auto simp: wf_heap_def links_def)

lemma append_effect:
  assumes wf: "wf_heap h ch" and s: "self \<in> dom h" "n \<noteq> self"
    and n: "h n = Some nn" "nd_parent nn = None"
  shows "effect (append_node h self n) (ins (links h) self (ch self) n [])
     ((ends h)(self \<mapsto> (hd_opt (ch self @ [n]), last_opt (ch self @ [n])))) (contents h)"
proof -
  obtain sn where sn: "h self = Some sn" "nd_firstChild sn = hd_opt (ch self)"
      "nd_lastChild sn = last_opt (ch self)"
    using s(1) wf_linksD(3) [of "links h" "ends h" ch self] ends_Some [of h self] wf
    by (auto simp: wf_heap_def)
  have nn: "nd_prev nn = None" "nd_next nn = None"
    using detached_links [OF wf n] n by (auto simp: links_def)
  show ?thesis
  proof (cases "ch self" rule: rev_cases)
    case Nil
    then show ?thesis
      using sn s(2) n nn by (simp add: append_node_def detach_def ins_def effect_rules)
  next
    case (snoc us l)
    obtain ln where ln: "h l = Some ln" "nd_next ln = None" "nd_parent ln = Some self"
      using wf_heap_childE [OF wf snoc] by auto
    then have "l \<noteq> n" "l \<noteq> self"
      using n wf_heap_distinct [OF wf, of self] snoc by auto
    then show ?thesis
      using sn s(2) n nn ln snoc by (simp add: append_node_def detach_def ins_def effect_rules)
  qed
qed

lemma insert_before_effect:
  assumes wf: "wf_heap h ch" and p: "ch p = xs @ r # ys" and n: "h n = Some nn" "nd_parent nn = None" "n \<noteq> p"
  shows "effect (insert_node h this n r True) (ins (links h) p xs n (r # ys))
     ((ends h)(p \<mapsto> (hd_opt (xs @ n # r # ys), last_opt (xs @ n # r # ys)))) (contents h)"
proof -
  obtain pn where pn: "h p = Some pn" "nd_firstChild pn = hd_opt (xs @ r # ys)"
      "nd_lastChild pn = last_opt (xs @ r # ys)"
    using wf_heap_parentE [OF wf, of p] p by auto
  obtain rn where rn: "h r = Some rn" "nd_parent rn = Some p" "nd_prev rn = last_opt xs" "nd_next rn = hd_opt ys"
    using wf_heap_childE [OF wf p] by blast
  have nn: "nd_prev nn = None" "nd_next nn = None"
    using detached_links [OF wf n(1,2)] n by (auto simp: links_def)
  have d: "distinct (xs @ r # ys)" "p \<notin> set (xs @ r # ys)" "r \<noteq> n" "p \<noteq> r"
    using wf_heap_distinct [OF wf, of p] p rn n by auto
  show ?thesis
  proof (cases xs rule: rev_cases)
    case Nil
    then show ?thesis
      using pn rn n nn d by (simp add: insert_node_def detach_def ins_def effect_rules)
  next
    case (snoc us l)
    obtain ln where ln: "h l = Some ln" "nd_next ln = Some r" "nd_parent ln = Some p"
      using wf_heap_childE [OF wf, of p us l "r # ys"] p snoc by auto
    then have l: "l \<noteq> n" "l \<noteq> r" "l \<noteq> p" "hd_opt us \<noteq> Some r"
      using n d snoc by (auto dest: hd_opt_in_set)
    then show ?thesis
      using pn rn n nn d ln snoc by (simp add: insert_node_def detach_def ins_def effect_rules)
  qed
qed

lemma insert_after_effect:
  assumes wf: "wf_heap h ch" and p: "ch p = xs @ r # ys" and n: "h n = Some nn" "nd_parent nn = None" "n \<noteq> p"
  shows "effect (insert_node h this n r False) (ins (links h) p (xs @ [r]) n ys)
     ((ends h)(p \<mapsto> (hd_opt (xs @ r # n # ys), last_opt (xs @ r # n # ys)))) (contents h)"
proof -
  obtain pn where pn: "h p = Some pn" "nd_firstChild pn = hd_opt (xs @ r # ys)"
      "nd_lastChild pn = last_opt (xs @ r # ys)"
    using wf_heap_parentE [OF wf, of p] p by auto
  obtain rn where rn: "h r = Some rn" "nd_parent rn = Some p" "nd_prev rn = last_opt xs" "nd_next rn = hd_opt ys"
    using wf_heap_childE [OF wf p] by blast
  have nn: "nd_prev nn = None" "nd_next nn = None"
    using detached_links [OF wf n(1,2)] n by (auto simp: links_def)
  have d: "distinct (xs @ r # ys)" "p \<notin> set (xs @ r # ys)" "r \<noteq> n" "p \<noteq> r"
    using wf_heap_distinct [OF wf, of p] p rn n by auto
  show ?thesis
  proof (cases ys)
    case Nil
    then show ?thesis
      using pn rn n nn d by (simp add: insert_node_def detach_def ins_def effect_rules)
  next
    case (Cons y zs)
    obtain yn where yn: "h y = Some yn" "nd_prev yn = Some r" "nd_parent yn = Some p"
      using wf_heap_childE [OF wf, of p "xs @ [r]" y zs] p Cons by auto
    then have y: "y \<noteq> n" "y \<noteq> r" "y \<noteq> p" "last_opt zs \<noteq> Some r"
      using n d Cons by (auto dest: last_opt_in_set)
    then show ?thesis
      using pn rn n nn d yn Cons by (simp add: insert_node_def detach_def ins_def effect_rules)
  qed
qed

section \<open>Refinement of list operations\<close>

lemma wf_heap_notin: "wf_heap h ch \<Longrightarrow> h n = Some nn \<Longrightarrow> nd_parent nn = None \<Longrightarrow> n \<notin> set (ch q)"
  using wf_links_parent [of "links h" "ends h" ch n q] by (auto simp: wf_heap_def links_def)

lemma wf_heap_only_parent:
  "wf_heap h ch \<Longrightarrow> x \<in> set (ch p) \<Longrightarrow> x \<in> set (ch q) \<Longrightarrow> p = q"
  using wf_links_parent [of "links h" "ends h" ch x p] wf_links_parent [of "links h" "ends h" ch x q]
  by (auto simp: wf_heap_def)

lemma wf_heap_dom: "wf_heap h ch \<Longrightarrow> x \<in> set (ch p) \<Longrightarrow> x \<in> dom h \<and> p \<in> dom h"
  using wf_links_parent [of "links h" "ends h" ch x p] wf_linksD(2) [of "links h" "ends h" ch p]
  by (force simp: wf_heap_def links_def)

text \<open>The child lists after \<open>x\<close> has left its parent.\<close>

definition without :: "addr \<Rightarrow> (addr \<Rightarrow> addr list) \<Rightarrow> addr \<Rightarrow> addr list" where
  "without x ch p = remove1 x (ch p)"

lemma without_id: "(\<And>q. x \<notin> set (ch q)) \<Longrightarrow> without x ch = ch"
  by (auto simp: without_def fun_eq_iff remove1_idem)

lemma without_child:
  assumes "wf_heap h ch" and "ch p = xs @ x # ys"
  shows "without x ch = ch(p := xs @ ys)"
proof
  fix q
  show "without x ch q = (ch(p := xs @ ys)) q"
  proof (cases "q = p")
    case True
    with assms wf_heap_distinct [OF assms(1), of p] show ?thesis
      by (simp add: without_def remove1_append)
  next
    case False
    then have "x \<notin> set (ch q)"
      using wf_heap_only_parent [OF assms(1), of x p q] assms(2) by auto
    with False show ?thesis by (simp add: without_def remove1_idem)
  qed
qed

lemma remove_refines:
  assumes wf: "wf_heap h ch" and x: "x \<in> dom h"
  obtains h' where "remove h x = Some h'" "wf_heap h' (without x ch)" "contents h' = contents h"
    "links h' x = Some (None, None, None)"
proof -
  obtain n where n: "h x = Some n" using x by auto
  show thesis
  proof (cases "nd_parent n")
    case None
    then have "remove h x = Some h" using n by (simp add: remove_def)
    moreover have "without x ch = ch"
      using wf_heap_notin [OF wf n None] by (rule without_id)
    ultimately show thesis
      using that wf detached_links [OF wf n None] by auto
  next
    case (Some p)
    then have "x \<in> set (ch p)"
      using wf_linksD(7) [of "links h" "ends h" ch x p] wf n by (auto simp: wf_heap_def links_def)
    then obtain xs ys where p: "ch p = xs @ x # ys" by (meson split_list)
    obtain h' where h': "remove h x = Some h'" "links h' = cut (links h) xs x ys"
        "ends h' = (ends h)(p \<mapsto> (hd_opt (xs @ ys), last_opt (xs @ ys)))" "contents h' = contents h"
      using remove_effect [OF wf p] by (rule effectE)
    have "wf_heap h' (ch(p := xs @ ys))"
      using wf_links_cut [of "links h" "ends h" ch p xs x ys] wf p h' by (simp add: wf_heap_def)
    then show thesis
      using that h' by (simp add: without_child [OF wf p] cut_def)
  qed
qed

lemma detach_refines:
  assumes wf: "wf_heap h ch" and x: "x \<in> dom h"
  obtains h0 n where "detach h x = Some h0" "wf_heap h0 (without x ch)" "contents h0 = contents h"
    "h0 x = Some n" "nd_parent n = None"
proof -
  obtain n where n: "h x = Some n" using x by auto
  obtain h' where h': "remove h x = Some h'" "wf_heap h' (without x ch)" "contents h' = contents h"
      "links h' x = Some (None, None, None)"
    using remove_refines [OF wf x] .
  show thesis
  proof (cases "nd_parent n")
    case None
    then have "without x ch = ch"
      using wf_heap_notin [OF wf n None] by (intro without_id)
    with None show thesis using that [of h n] n wf by (simp add: detach_def)
  next
    case (Some p)
    moreover obtain m where "h' x = Some m" "nd_parent m = None"
      using h'(4) links_Some by blast
    ultimately show thesis using that [of h' m] n h' by (simp add: detach_def)
  qed
qed

lemma dom_contents: "dom (contents h) = dom h"
  by (auto simp: contents_def)

lemma contents_dom: "contents h' = contents h \<Longrightarrow> dom h' = dom h"
  by (metis dom_contents)

lemma detach_twice: "detach h x = Some h0 \<Longrightarrow> h0 x = Some n \<Longrightarrow> nd_parent n = None \<Longrightarrow> detach h0 x = Some h0"
  by (simp add: detach_def)

lemma append_refines:
  assumes wf: "wf_heap h ch" and s: "self \<in> dom h" and n: "node \<in> dom h" "node \<noteq> self"
  obtains h' where "append_node h self node = Some h'" "contents h' = contents h"
    "wf_heap h' ((without node ch)(self := without node ch self @ [node]))"
proof -
  obtain h0 nn where h0: "detach h node = Some h0" "wf_heap h0 (without node ch)"
      "contents h0 = contents h" "h0 node = Some nn" "nd_parent nn = None"
    using detach_refines [OF wf n(1)] .
  have s0: "self \<in> dom h0" using s contents_dom [OF h0(3)] by simp
  have eq: "append_node h self node = append_node h0 self node"
    using h0 detach_twice by (simp add: append_node_def)
  let ?c = "without node ch"
  obtain h' where h': "append_node h0 self node = Some h'"
      "links h' = ins (links h0) self (?c self) node []"
      "ends h' = (ends h0)(self \<mapsto> (hd_opt (?c self @ [node]), last_opt (?c self @ [node])))"
      "contents h' = contents h0"
    using append_effect [OF h0(2) s0 n(2) h0(4,5)] by (rule effectE)
  have "wf_heap h' (?c(self := ?c self @ [node]))"
    using wf_links_ins [of "links h0" "ends h0" ?c self "?c self" "[]" node None None] h0(2) s0 n(2) h'
      detached_links [OF h0(2,4,5)] by (simp add: wf_heap_def)
  then show thesis using that h' h0(3) eq by simp
qed

text \<open>The child list of the reference's parent after an insertion.\<close>

definition put :: "bool \<Rightarrow> addr list \<Rightarrow> addr \<Rightarrow> addr \<Rightarrow> addr list \<Rightarrow> addr list" where
  "put before xs node ref ys = (if before then xs @ node # ref # ys else xs @ ref # node # ys)"

lemma insert_detached_refines:
  assumes wf: "wf_heap h ch" and p: "ch p = xs @ r # ys"
    and n: "h node = Some nn" "nd_parent nn = None" "node \<noteq> p"
  obtains h' where "insert_node h this node r before = Some h'" "contents h' = contents h"
    "wf_heap h' (ch(p := put before xs node r ys))"
proof (cases before)
  case True
  obtain h' where "insert_node h this node r True = Some h'" "links h' = ins (links h) p xs node (r # ys)"
      "ends h' = (ends h)(p \<mapsto> (hd_opt (xs @ node # r # ys), last_opt (xs @ node # r # ys)))"
      "contents h' = contents h"
    using insert_before_effect [OF wf p n] by (rule effectE)
  moreover have "p \<in> dom h" using wf_heap_dom [OF wf, of r p] p by auto
  ultimately show thesis
    using that [of h'] True wf_links_ins [of "links h" "ends h" ch p xs "r # ys" node None None] wf p n(3)
      detached_links [OF wf n(1,2)] by (simp add: wf_heap_def put_def)
next
  case False
  obtain h' where "insert_node h this node r False = Some h'" "links h' = ins (links h) p (xs @ [r]) node ys"
      "ends h' = (ends h)(p \<mapsto> (hd_opt (xs @ r # node # ys), last_opt (xs @ r # node # ys)))"
      "contents h' = contents h"
    using insert_after_effect [OF wf p n] by (rule effectE)
  moreover have "p \<in> dom h" using wf_heap_dom [OF wf, of r p] p by auto
  ultimately show thesis
    using that [of h'] False wf_links_ins [of "links h" "ends h" ch p "xs @ [r]" ys node None None] wf p n(3)
      detached_links [OF wf n(1,2)] by (simp add: wf_heap_def put_def)
qed

lemma without_split:
  assumes "wf_heap h ch" and "ch p = xs @ r # ys" and "node \<noteq> r"
  shows "without node ch p = remove1 node xs @ r # remove1 node ys"
  using assms wf_heap_distinct(1) [OF assms(1), of p]
  by (auto simp: without_def remove1_append remove1_idem intro!: remove1_idem [symmetric])

lemma insert_refines:
  assumes wf: "wf_heap h ch" and p: "ch p = xs @ r # ys"
    and n: "node \<in> dom h" "node \<noteq> p" "node \<noteq> r"
  obtains h' where "insert_node h this node r before = Some h'" "contents h' = contents h"
    "wf_heap h' ((without node ch)(p := put before (remove1 node xs) node r (remove1 node ys)))"
proof -
  obtain h0 nn where h0: "detach h node = Some h0" "wf_heap h0 (without node ch)"
      "contents h0 = contents h" "h0 node = Some nn" "nd_parent nn = None"
    using detach_refines [OF wf n(1)] .
  have eq: "insert_node h this node r before = insert_node h0 this node r before"
    using h0 detach_twice by (simp add: insert_node_def)
  show thesis
    by (rule insert_detached_refines [OF h0(2) without_split [OF wf p n(3)] h0(4,5) n(2),
          of this before]) (use that eq h0(3) in auto)
qed

lemma insert_detached_ref_fails:
  assumes wf: "wf_heap h ch" and r: "h r = Some rn" "nd_parent rn = None"
    and n: "node \<in> dom h" "node \<noteq> r"
  shows "insert_node h this node r before = None"
proof -
  obtain h0 nn where h0: "detach h node = Some h0" "wf_heap h0 (without node ch)"
      "contents h0 = contents h" "h0 node = Some nn" "nd_parent nn = None"
    using detach_refines [OF wf n(1)] .
  have "r \<in> dom h0" using r contents_dom [OF h0(3)] by auto
  then obtain rn0 where rn0: "h0 r = Some rn0" by auto
  have notin: "r \<notin> set (without node ch q)" for q
    using wf_heap_notin [OF wf r] notin_set_remove1 by (auto simp: without_def)
  have par: "nd_parent rn0 = None"
  proof (rule ccontr)
    assume "nd_parent rn0 \<noteq> None"
    then obtain q where "nd_parent rn0 = Some q" by auto
    then have "r \<in> set (without node ch q)"
      using wf_linksD(7) [of "links h0" "ends h0" "without node ch" r q] h0(2) rn0
      by (auto simp: wf_heap_def links_def)
    with notin show False by blast
  qed
  have rl: "nd_prev rn0 = None" "nd_next rn0 = None"
    using detached_links [OF h0(2) rn0 par] rn0 by (auto simp: links_def)
  have ends: "nd_firstChild tn \<noteq> Some r \<and> nd_lastChild tn \<noteq> Some r" if "h0 this = Some tn" for tn
    using wf_linksD(3) [of "links h0" "ends h0" "without node ch" this] h0(2) that notin [of this]
    by (auto simp: wf_heap_def ends_def domI dest: hd_opt_in_set last_opt_in_set
          sym [THEN hd_opt_in_set] sym [THEN last_opt_in_set])
  show ?thesis
    using h0(1) rn0 par rl ends
    by (cases "h0 this") (auto simp: insert_node_def upd_ref_def)
qed

lemma replace_refines:
  assumes wf: "wf_heap h ch" and p: "ch p = xs @ self # ys"
    and n: "node \<in> dom h" "node \<noteq> p" "node \<noteq> self"
  obtains h' where "replace_node h self node = Some h'" "contents h' = contents h"
    "wf_heap h' ((without node ch)(p := remove1 node xs @ node # remove1 node ys))"
proof -
  obtain h0 nn where h0: "detach h node = Some h0" "wf_heap h0 (without node ch)"
      "contents h0 = contents h" "h0 node = Some nn" "nd_parent nn = None"
    using detach_refines [OF wf n(1)] .
  let ?xs = "remove1 node xs" let ?ys = "remove1 node ys"
  have p0: "without node ch p = ?xs @ self # ?ys"
    using without_split [OF wf p n(3)] .
  obtain h1 where h1: "insert_node h0 self node self False = Some h1" "contents h1 = contents h0"
      "wf_heap h1 ((without node ch)(p := put False ?xs node self ?ys))"
    using insert_detached_refines [OF h0(2) p0 h0(4,5) n(2)] .
  let ?c1 = "(without node ch)(p := ?xs @ self # node # ?ys)"
  have c1: "wf_heap h1 ?c1" "?c1 p = ?xs @ self # node # ?ys"
    using h1(3) by (simp_all add: put_def)
  have "self \<in> dom h1" using wf_heap_dom [OF c1(1), of self p] by simp
  then obtain h2 where h2: "remove h1 self = Some h2" "wf_heap h2 (without self ?c1)"
      "contents h2 = contents h1"
    using remove_refines [OF c1(1)] by metis
  have "replace_node h self node = Some h2"
    using h0(1) h1(1) h2(1) by (simp add: replace_node_def)
  moreover have "without self ?c1 = (without node ch)(p := ?xs @ node # ?ys)"
    using without_child [OF c1(1), of p ?xs self "node # ?ys"] c1(2) by simp
  ultimately show thesis using that h2 h1(2) h0(3) by simp
qed

lemma wrap_refines:
  assumes wf: "wf_heap h ch" and p: "ch p = xs @ self # ys"
    and w: "w \<in> dom h" "w \<noteq> p" "w \<noteq> self"
  obtains h' where "wrap h self w = Some h'" "contents h' = contents h"
    "wf_heap h' ((without w ch)(p := remove1 w xs @ w # remove1 w ys, w := ch w @ [self]))"
proof -
  obtain sn where sn: "h self = Some sn" "nd_parent sn = Some p"
    using wf_heap_childE [OF wf p] by blast
  obtain h1 where h1: "insert_node h p w self False = Some h1" "contents h1 = contents h"
      "wf_heap h1 ((without w ch)(p := put False (remove1 w xs) w self (remove1 w ys)))"
    using insert_refines [OF wf p w] .
  let ?c1 = "(without w ch)(p := remove1 w xs @ self # w # remove1 w ys)"
  have c1: "wf_heap h1 ?c1" "?c1 p = remove1 w xs @ self # w # remove1 w ys"
    using h1(3) by (simp_all add: put_def)
  have dom: "w \<in> dom h1" "self \<in> dom h1"
    using wf_heap_dom [OF c1(1), of _ p] by auto
  obtain h2 where h2: "append_node h1 w self = Some h2" "contents h2 = contents h1"
      "wf_heap h2 ((without self ?c1)(w := without self ?c1 w @ [self]))"
    using append_refines [OF c1(1) dom w(3) [symmetric]] .
  have "w \<notin> set (ch w)" using wf_heap_distinct [OF wf, of w] by simp
  moreover have wo: "without self ?c1 = (without w ch)(p := remove1 w xs @ w # remove1 w ys)"
    using without_child [OF c1(1), of p "remove1 w xs" self "w # remove1 w ys"] c1(2) by simp
  ultimately have "(without self ?c1) w = ch w"
    using w(2) by (simp add: without_def remove1_idem)
  with h2(3) wo
  have "wf_heap h2 ((without w ch)(p := remove1 w xs @ w # remove1 w ys, w := ch w @ [self]))"
    by simp
  moreover have "wrap h self w = Some h2"
    using sn h1(1) h2(1) by (simp add: wrap_def)
  ultimately show thesis using that h2(2) h1(2) by simp
qed

lemma unwrap_loop_refines:
  assumes "wf_heap h ch" and "ch p = xs @ self # ys" and "ch self = zs" and "self \<noteq> p"
    and "p \<notin> set zs"
  shows "\<exists>h'. unwrap_loop h self (hd_opt zs) = Some h' \<and> contents h' = contents h
     \<and> wf_heap h' (ch(p := xs @ zs @ self # ys, self := []))"
  using assms
proof (induction zs arbitrary: h ch xs)
  case Nil
  then show ?case by (simp add: unwrap_loop.simps fun_upd_idem)
next
  case (Cons z zs)
  have z: "ch self = [] @ z # zs" using Cons.prems(3) by simp
  obtain zn where zn: "h z = Some zn" "nd_next zn = hd_opt zs"
    using wf_heap_childE [OF Cons.prems(1) z] by blast
  have zd: "z \<in> dom h" "z \<noteq> p" "z \<noteq> self" "z \<notin> set zs"
    using zn Cons.prems wf_heap_distinct [OF Cons.prems(1), of self] by auto
  have "z \<notin> set (ch p)"
    using wf_heap_only_parent [OF Cons.prems(1), of z self p] Cons.prems(3,4) by auto
  then have zp: "remove1 z xs = xs" "remove1 z ys = ys"
    using Cons.prems(2) by (auto simp: remove1_idem)
  obtain h1 where h1: "insert_node h self z self True = Some h1" "contents h1 = contents h"
      "wf_heap h1 ((without z ch)(p := put True xs z self ys))"
    using insert_refines [OF Cons.prems(1,2) zd(1,2,3), of self True] zp by metis
  let ?c1 = "ch(self := zs, p := (xs @ [z]) @ self # ys)"
  have "(without z ch)(p := put True xs z self ys) = ?c1"
    using without_child [OF Cons.prems(1) z] by (simp add: put_def)
  with h1(3) have wf1: "wf_heap h1 ?c1" by simp
  have "\<exists>h'. unwrap_loop h1 self (hd_opt zs) = Some h' \<and> contents h' = contents h1
     \<and> wf_heap h' (?c1(p := (xs @ [z]) @ zs @ self # ys, self := []))"
    using Cons.prems(4,5) by (intro Cons.IH [OF wf1]) auto
  then obtain h' where h': "unwrap_loop h1 self (hd_opt zs) = Some h'" "contents h' = contents h1"
      "wf_heap h' (?c1(p := (xs @ [z]) @ zs @ self # ys, self := []))"
    by blast
  have "?c1(p := (xs @ [z]) @ zs @ self # ys, self := []) = ch(p := xs @ (z # zs) @ self # ys, self := [])"
    using Cons.prems(4) by (auto simp: fun_eq_iff)
  with h'(3) have "wf_heap h' (ch(p := xs @ (z # zs) @ self # ys, self := []))" by metis
  moreover have "unwrap_loop h self (hd_opt (z # zs)) = Some h'"
    using zn h1(1) h'(1) by (simp add: unwrap_loop.simps [of h self "Some z"])
  ultimately show ?case using h'(2) h1(2) by metis
qed

lemma unwrap_refines:
  assumes wf: "wf_heap h ch" and p: "ch p = xs @ self # ys" and cyc: "p \<notin> set (ch self)"
  obtains h' where "unwrap h self = Some h'" "contents h' = contents h"
    "wf_heap h' (ch(p := xs @ ch self @ ys, self := []))"
proof -
  have sp: "self \<noteq> p" using wf_heap_distinct [OF wf, of p] p by auto
  have "self \<in> dom h" using wf_heap_dom [OF wf, of self p] p by simp
  then obtain sn where sn: "h self = Some sn" "nd_firstChild sn = hd_opt (ch self)"
    using wf_linksD(3) [of "links h" "ends h" ch self] ends_Some [of h self] wf
    by (auto simp: wf_heap_def)
  obtain h1 where h1: "unwrap_loop h self (hd_opt (ch self)) = Some h1" "contents h1 = contents h"
      "wf_heap h1 (ch(p := xs @ ch self @ self # ys, self := []))"
    using unwrap_loop_refines [OF wf p refl sp cyc] by blast
  let ?c1 = "ch(p := xs @ ch self @ self # ys, self := [])"
  have c1: "?c1 p = (xs @ ch self) @ self # ys" using sp by simp
  have "self \<in> dom h1" using wf_heap_dom [OF h1(3), of self p] c1 by simp
  then obtain h2 where h2: "remove h1 self = Some h2" "wf_heap h2 (without self ?c1)"
      "contents h2 = contents h1"
    using remove_refines [OF h1(3)] by metis
  have "unwrap h self = Some h2"
    using sn h1(1) h2(1) by (simp add: unwrap_def)
  moreover have "without self ?c1 = ch(p := xs @ ch self @ ys, self := [])"
    using without_child [OF h1(3), of p "xs @ ch self" self ys] sp by (auto simp: fun_eq_iff)
  ultimately show thesis using that h2 h1(2) by simp
qed

end
