(* ===== verification/HtmlTraversal.thy ===== *)
theory HtmlTraversal
  imports HtmlTree
begin

text \<open>
  The traversals of \<open>html/Node.js\<close> on a well-formed store. A finite \<open>tree\<close> of addresses names
  the nodes below a node (\<open>tree_in\<close>); \<open>walk\<close> is shown to enumerate them in document order, and
  \<open>getAll\<close>, \<open>isEmpty\<close> and \<open>empty\<close>, the loops built on it, are reduced to list functions of that
  enumeration. In particular all of them end.
\<close>

section \<open>Traversal in document order\<close>

datatype tree = T addr "tree list"

fun troot :: "tree \<Rightarrow> addr" where
  "troot (T x ts) = x"

fun preorder :: "tree \<Rightarrow> addr list" where
  "preorder (T x ts) = x # concat (map preorder ts)"

fun tree_in :: "(addr \<Rightarrow> addr list) \<Rightarrow> tree \<Rightarrow> bool" where
  "tree_in ch (T x ts) \<longleftrightarrow> map troot ts = ch x \<and> (\<forall>t\<in>set ts. tree_in ch t)"

lemma tree_in_unique: "tree_in ch t \<Longrightarrow> tree_in ch u \<Longrightarrow> troot t = troot u \<Longrightarrow> t = u"
proof (induction t arbitrary: u)
  case (T x ts)
  obtain us where u: "u = T x us" using T.prems(3) by (cases u) auto
  have eq: "map troot ts = map troot us" using T.prems u by simp
  then have len: "length ts = length us" by (metis length_map)
  have "ts ! i = us ! i" if "i < length ts" for i
  proof (rule T.IH)
    show "ts ! i \<in> set ts" using that by simp
    then show "tree_in ch (ts ! i)" using T.prems(1) by simp
    show "tree_in ch (us ! i)" using T.prems(2) u that len by simp
    show "troot (ts ! i) = troot (us ! i)" using eq that len by (metis nth_map)
  qed
  then show ?case using u len by (simp add: nth_equalityI)
qed

lemma size_child: "t \<in> set ts \<Longrightarrow> size t < size (T x ts)"
  using size_list_estimation' [of t ts "size t" size] by simp

lemma preorder_subtree: "a \<in> set (preorder t) \<Longrightarrow> tree_in ch t \<Longrightarrow>
    \<exists>u. tree_in ch u \<and> troot u = a \<and> size u \<le> size t"
proof (induction t)
  case (T x ts)
  show ?case
  proof (cases "a = x")
    case True
    then show ?thesis using T.prems by (intro exI [of _ "T x ts"]) simp
  next
    case False
    then obtain t where t: "t \<in> set ts" "a \<in> set (preorder t)" using T.prems by auto
    then obtain u where u: "tree_in ch u" "troot u = a" "size u \<le> size t"
      using T.IH [OF t] T.prems by auto
    have "size u \<le> size (T x ts)" using u(3) size_child [OF t(1), of x] by simp
    with u show ?thesis by (intro exI [of _ u]) simp
  qed
qed

lemma root_notin_children:
  assumes "tree_in ch (T r ts)" and "t \<in> set ts"
  shows "r \<notin> set (preorder t)"
proof
  assume "r \<in> set (preorder t)"
  then obtain u where u: "tree_in ch u" "troot u = r" "size u \<le> size t"
    using preorder_subtree assms by (metis tree_in.simps)
  have "u = T r ts" using tree_in_unique [OF u(1) assms(1)] u(2) by simp
  moreover have "size t < size (T r ts)"
    using assms(2) by (rule size_child)
  ultimately show False using u(3) by simp
qed


lemma wf_heap_node:
  assumes "wf_heap h ch" and "x \<in> dom h"
  obtains n where "h x = Some n" "nd_firstChild n = hd_opt (ch x)" "nd_lastChild n = last_opt (ch x)"
proof -
  have "ends h x = Some (hd_opt (ch x), last_opt (ch x))"
    using wf_linksD(3) [of "links h" "ends h" ch x] assms by (simp add: wf_heap_def)
  then show thesis using that ends_Some by blast
qed

lemma troot_in_preorder [simp]: "troot t \<in> set (preorder t)"
  by (cases t) simp

lemma walk_child:
  assumes "wf_heap h ch" and "x \<in> dom h" and "ch x = c # cs"
  shows "walk h x root False = Some (Some c)"
proof -
  obtain n where "h x = Some n" "nd_firstChild n = Some c"
    by (rule wf_heap_node [OF assms(1,2)]) (simp add: assms(3))
  then show ?thesis by (simp add: walk_def start_link_def)
qed

lemma walk_leaf:
  assumes "wf_heap h ch" and "x \<in> dom h" and "ch x = []" and "x \<noteq> r"
  shows "walk h x (Some r) False = walk_up h (Some r) False (Some x)"
proof -
  obtain n where "h x = Some n" "nd_firstChild n = None"
    by (rule wf_heap_node [OF assms(1,2)]) (simp add: assms(3))
  then show ?thesis
    using assms(4) by (subst walk_up.simps) (auto simp: walk_def start_link_def split: option.splits)
qed

lemma walk_up_next:
  assumes "wf_heap h ch" and "ch p = xs @ x # ys" and "x \<noteq> r"
  shows "walk_up h (Some r) False (Some x) =
    (case ys of y # _ \<Rightarrow> Some (Some y) | [] \<Rightarrow> walk_up h (Some r) False (Some p))"
proof -
  obtain n where "h x = Some n" "nd_parent n = Some p" "nd_next n = hd_opt ys"
    using wf_heap_childE [OF assms(1,2)] by blast
  then show ?thesis
    using assms(3) by (subst walk_up.simps) (auto simp: sibling_link_def split: list.splits)
qed

lemma walk_up_root: "walk_up h (Some r) False (Some r) = Some None"
  by (subst walk_up.simps) simp

lemma walk_from_step:
  "walk h x (Some r) False = Some nx \<Longrightarrow>
   walk_from h r (Some x) acc = walk_from h r nx (acc @ [x])"
  by (subst walk_from.simps) simp

text \<open>The siblings \<open>us\<close> that end a child list, once each subtree is known to be enumerated.\<close>

lemma walk_from_forest:
  assumes wf: "wf_heap h ch" and up: "walk_up h (Some r) False (Some x) = Some c"
    and sub: "\<And>t d acc. t \<in> set us \<Longrightarrow> walk_up h (Some r) False (Some (troot t)) = Some d \<Longrightarrow>
       walk_from h r (Some (troot t)) acc = walk_from h r d (acc @ preorder t)"
    and r: "\<And>t. t \<in> set us \<Longrightarrow> troot t \<noteq> r"
    and ch: "ch x = pre @ map troot us" and ne: "us \<noteq> []"
  shows "walk_from h r (Some (troot (hd us))) acc = walk_from h r c (acc @ concat (map preorder us))"
  using sub r ch ne
proof (induction us arbitrary: pre acc)
  case (Cons t us)
  have chx: "ch x = pre @ troot t # map troot us" using Cons.prems(3) by simp
  note nxt = walk_up_next [OF wf chx, of r]
  show ?case
  proof (cases us)
    case Nil
    then have "walk_up h (Some r) False (Some (troot t)) = Some c"
      using nxt up Cons.prems(2) by simp
    then have "walk_from h r (Some (troot t)) acc = walk_from h r c (acc @ preorder t)"
      using Cons.prems(1) by simp
    with Nil show ?thesis by simp
  next
    case (Cons u vs)
    then have "walk_up h (Some r) False (Some (troot t)) = Some (Some (troot u))"
      using nxt Cons.prems(2) by simp
    then have "walk_from h r (Some (troot t)) acc = walk_from h r (Some (troot u)) (acc @ preorder t)"
      using Cons.prems(1) by simp
    moreover have "walk_from h r (Some (troot (hd us))) (acc @ preorder t) =
        walk_from h r c ((acc @ preorder t) @ concat (map preorder us))"
      by (rule Cons.IH [of "pre @ [troot t]"]) (use Cons.prems chx Cons in auto)
    ultimately show ?thesis using Cons by simp
  qed
qed simp

lemma walk_from_tree:
  assumes wf: "wf_heap h ch"
  shows "tree_in ch t \<Longrightarrow> r \<notin> set (preorder t) \<Longrightarrow> troot t \<in> dom h \<Longrightarrow>
    walk_up h (Some r) False (Some (troot t)) = Some c \<Longrightarrow>
    walk_from h r (Some (troot t)) acc = walk_from h r c (acc @ preorder t)"
proof (induction t arbitrary: c acc)
  case (T x ts)
  show ?case
  proof (cases ts)
    case Nil
    then have "walk h x (Some r) False = Some c"
      using walk_leaf [OF wf, of x r] T.prems by auto
    with Nil show ?thesis by (simp add: walk_from_step)
  next
    case (Cons t us)
    have chx: "ch x = map troot ts" using T.prems by simp
    then have w: "walk h x (Some r) False = Some (Some (troot t))"
      using walk_child [OF wf, of x] T.prems(3) Cons by simp
    have "walk_from h r (Some (troot (hd ts))) (acc @ [x]) =
        walk_from h r c ((acc @ [x]) @ concat (map preorder ts))"
    proof (rule walk_from_forest [OF wf, of r x c ts "[]"])
      fix u d acc
      assume u: "u \<in> set ts" and up: "walk_up h (Some r) False (Some (troot u)) = Some d"
      have "troot u \<in> dom h" using wf_heap_dom [OF wf, of "troot u" x] chx u by auto
      then show "walk_from h r (Some (troot u)) acc = walk_from h r d (acc @ preorder u)"
        using T.IH [OF u _ _ _ up] T.prems(1,2) u by auto
    next
      fix u assume "u \<in> set ts"
      then show "troot u \<noteq> r" using T.prems(2) troot_in_preorder [of u] by auto
    qed (use T.prems chx Cons in auto)
    with w Cons show ?thesis by (simp add: walk_from_step)
  qed
qed

lemma walk_from_None: "walk_from h r None acc = Some acc"
  by (subst walk_from.simps) simp

theorem descendants_preorder:
  assumes wf: "wf_heap h ch" and t: "tree_in ch (T r ts)" and r: "r \<in> dom h"
  shows "descendants h r = Some (concat (map preorder ts))"
proof -
  obtain n where n: "h r = Some n" "nd_firstChild n = hd_opt (ch r)"
    using wf_heap_node [OF wf r] by blast
  show ?thesis
  proof (cases ts)
    case Nil
    then show ?thesis using n t by (auto simp: descendants_def walk_from_None)
  next
    case (Cons u us)
    have chr: "ch r = map troot ts" using t by simp
    have "walk_from h r (Some (troot (hd ts))) [] = walk_from h r None ([] @ concat (map preorder ts))"
    proof (rule walk_from_forest [OF wf walk_up_root, where us = ts and pre = "[]"])
      fix v d acc
      assume v: "v \<in> set ts" and up: "walk_up h (Some r) False (Some (troot v)) = Some d"
      have "troot v \<in> dom h" using wf_heap_dom [OF wf, of "troot v" r] chr v by auto
      then show "walk_from h r (Some (troot v)) acc = walk_from h r d (acc @ preorder v)"
        using walk_from_tree [OF wf _ root_notin_children [OF t v] _ up] t v by simp
    next
      fix v assume "v \<in> set ts"
      then show "troot v \<noteq> r" using root_notin_children [OF t] troot_in_preorder [of v] by metis
    qed (use chr Cons in auto)
    then show ?thesis using n chr Cons by (simp add: descendants_def walk_from_None)
  qed
qed

section \<open>The loops over the descendants\<close>

text \<open>The name of the node at an address, and whether it counts for \<open>isEmpty\<close>.\<close>

definition named :: "nheap \<Rightarrow> ustring \<Rightarrow> addr \<Rightarrow> bool" where
  "named h name x \<longleftrightarrow> (case h x of Some n \<Rightarrow> nd_name n = name | None \<Rightarrow> False)"

definition ignored :: "nheap \<Rightarrow> (ustring \<rightharpoonup> bool) \<Rightarrow> addr \<Rightarrow> bool" where
  "ignored h elements x \<longleftrightarrow> (case h x of Some n \<Rightarrow> ignorable elements n = Some True | None \<Rightarrow> False)"

text \<open>Elements carry attributes, as the constructor makes them.\<close>

definition typed_heap :: "nheap \<Rightarrow> bool" where
  "typed_heap h \<longleftrightarrow> (\<forall>x n. h x = Some n \<longrightarrow> nd_type n = 1 \<longrightarrow> nd_attributes n \<noteq> None)"

lemma ignorable_total:
  "typed_heap h \<Longrightarrow> h x = Some n \<Longrightarrow> ignorable el n = Some (ignored h el x)"
  by (cases "nd_attributes n") (force simp: typed_heap_def ignored_def ignorable_def)+

lemma walk_node: "walk h x root prev = Some nx \<Longrightarrow> \<exists>n. h x = Some n"
  by (cases "h x") (auto simp: walk_def)

lemma walk_from_induct [consumes 1, case_names stop step]:
  assumes run: "walk_from h r cur acc = Some xs"
    and stop: "\<And>acc. P None acc acc"
    and step: "\<And>x n nx acc xs. h x = Some n \<Longrightarrow> walk h x (Some r) False = Some nx \<Longrightarrow>
      P nx (acc @ [x]) xs \<Longrightarrow> P (Some x) acc xs"
  shows "P cur acc xs"
proof -
  have "h = h \<longrightarrow> r = r \<longrightarrow> P cur acc xs"
  proof (rule walk_from.raw_induct [where P = "\<lambda>h' r' cur acc xs. h' = h \<longrightarrow> r' = r \<longrightarrow> P cur acc xs", OF _ run])
    fix rec h' r' cur acc xs
    assume IH: "\<And>h' r' cur acc xs. rec h' r' cur acc = Some xs \<Longrightarrow> h' = h \<longrightarrow> r' = r \<longrightarrow> P cur acc xs"
      and body: "(case cur of None \<Rightarrow> Some acc
        | Some node \<Rightarrow> walk h' node (Some r') False \<bind> (\<lambda>nx. rec h' r' nx (acc @ [node]))) = Some xs"
    show "h' = h \<longrightarrow> r' = r \<longrightarrow> P cur acc xs"
    proof (intro impI, cases cur)
      case None
      then show "P cur acc xs" using body stop by simp
    next
      fix x assume hr: "h' = h" "r' = r" and x: "cur = Some x"
      obtain nx where nx: "walk h x (Some r) False = Some nx" "rec h r nx (acc @ [x]) = Some xs"
        using body hr x by (auto split: Option.bind_splits)
      then show "P cur acc xs" using walk_node [OF nx(1)] step [OF _ nx(1)] IH [OF nx(2)] x by blast
    qed
  qed
  then show ?thesis by simp
qed

lemma getAll_loop_filter:
  "walk_from h r cur acc = Some xs \<Longrightarrow>
   getAll_loop h r name cur (filter (named h name) acc) = Some (filter (named h name) xs)"
proof (induction rule: walk_from_induct)
  case (step x n nx acc xs)
  then have "named h name x \<longleftrightarrow> nd_name n = name" by (simp add: named_def)
  with step show ?case by (subst getAll_loop.simps) (simp split: if_splits)
qed (simp add: getAll_loop.simps)

lemma isEmpty_loop_all:
  assumes "typed_heap h"
  shows "walk_from h r cur acc = Some xs \<Longrightarrow>
    \<exists>ys. xs = acc @ ys \<and> isEmpty_loop h r cur el = Some (list_all (ignored h el) ys)"
proof (induction rule: walk_from_induct)
  case (step x n nx acc xs)
  then obtain ys where ys: "xs = (acc @ [x]) @ ys"
      "isEmpty_loop h r nx el = Some (list_all (ignored h el) ys)" by blast
  have "isEmpty_loop h r (Some x) el = Some (list_all (ignored h el) (x # ys))"
    using step ys(2) ignorable_total [OF assms step(1), of el] by (subst isEmpty_loop.simps) simp
  with ys(1) show ?case by simp
qed (simp add: isEmpty_loop.simps)

lemma clear_links_idem: "clear_links (clear_links n) = clear_links n"
  by (simp add: clear_links_def)

lemma clear_links_ends: "clear_links (n\<lparr>nd_firstChild := None, nd_lastChild := None\<rparr>) = clear_links n"
  by (simp add: clear_links_def)

lemma clear_all_Some:
  "set xs \<subseteq> dom h \<Longrightarrow> \<exists>h'. clear_all h xs = Some h' \<and>
     (\<forall>a. h' a = (if a \<in> set xs then map_option clear_links (h a) else h a))"
proof (induction xs arbitrary: h)
  case (Cons x xs)
  obtain n where n: "h x = Some n" using Cons.prems by auto
  have "set xs \<subseteq> dom (h(x \<mapsto> clear_links n))" using Cons.prems by auto
  from Cons.IH [OF this] obtain h' where "clear_all (h(x \<mapsto> clear_links n)) xs = Some h'"
    "\<forall>a. h' a = (if a \<in> set xs then map_option clear_links ((h(x \<mapsto> clear_links n)) a)
                 else (h(x \<mapsto> clear_links n)) a)" by blast
  then show ?case using n by (simp add: upd_def) (simp add: clear_links_def)
qed simp

lemma preorder_children:
  "tree_in ch t \<Longrightarrow> a \<in> set (preorder t) \<Longrightarrow> a = troot t \<or> (\<exists>p\<in>set (preorder t). a \<in> set (ch p))"
proof (induction t)
  case (T x ts)
  show ?case
  proof (cases "a = x")
    case False
    then obtain t where t: "t \<in> set ts" "a \<in> set (preorder t)" using T.prems by auto
    have "a = troot t \<or> (\<exists>p\<in>set (preorder t). a \<in> set (ch p))" using T.IH [OF t(1) _ t(2)] T.prems(1) t by auto
    moreover have "troot t \<in> set (ch x)" using T.prems(1) t(1) by (metis image_eqI list.set_map tree_in.simps)
    ultimately show ?thesis using t by auto
  qed simp
qed

lemma preorder_closed:
  "tree_in ch t \<Longrightarrow> p \<in> set (preorder t) \<Longrightarrow> a \<in> set (ch p) \<Longrightarrow> a \<in> set (preorder t)"
proof (induction t)
  case (T x ts)
  show ?case
  proof (cases "p = x")
    case True
    then have "a \<in> set (map troot ts)" using T.prems by simp
    then obtain t where "t \<in> set ts" "a = troot t" by auto
    then show ?thesis by (auto intro!: bexI [of _ t])
  next
    case False
    then obtain t where t: "t \<in> set ts" "p \<in> set (preorder t)" using T.prems by auto
    have "a \<in> set (preorder t)" using T.IH [OF t(1) _ t(2)] T.prems t(1) by auto
    with t show ?thesis by auto
  qed
qed


lemma below_dom:
  "wf_heap h ch \<Longrightarrow> tree_in ch (T r ts) \<Longrightarrow> set (concat (map preorder ts)) \<subseteq> dom h"
proof
  fix a assume wf: "wf_heap h ch" and t: "tree_in ch (T r ts)" and "a \<in> set (concat (map preorder ts))"
  then have a: "a \<in> set (preorder (T r ts))" "a \<noteq> r" using root_notin_children [OF t] by auto
  then obtain p where "a \<in> set (ch p)" using preorder_children [OF t a(1)] by auto
  then show "a \<in> dom h" using wf_heap_dom [OF wf] by blast
qed

lemma wf_links_clear:
  assumes wf: "wf_links L E ch" and D: "D \<subseteq> dom E" "r \<notin> D" "r \<in> dom E"
    and down: "\<And>p a. p \<in> insert r D \<Longrightarrow> a \<in> set (ch p) \<Longrightarrow> a \<in> D"
    and up: "\<And>p a. a \<in> D \<Longrightarrow> a \<in> set (ch p) \<Longrightarrow> p \<in> insert r D"
  shows "wf_links (\<lambda>a. if a \<in> D then Some (None, None, None) else L a)
     (\<lambda>a. if a \<in> insert r D then Some (None, None) else E a)
     (\<lambda>a. if a \<in> insert r D then [] else ch a)" (is "wf_links ?L ?E ?ch")
proof (rule wf_linksI)
  have "L a \<noteq> None \<longleftrightarrow> E a \<noteq> None" for a using wf_linksD(1) [OF wf] by (metis domIff)
  then show "dom ?L = dom ?E" using D(3) by (auto simp: dom_def)
  fix p
  show "p \<notin> dom ?E \<Longrightarrow> ?ch p = []" using wf_linksD(2) [OF wf, of p] by (simp add: domIff split: if_splits)
  show "p \<in> dom ?E \<Longrightarrow> ?E p = Some (hd_opt (?ch p), last_opt (?ch p))"
    using wf_linksD(3) [OF wf, of p] by (cases "p \<in> insert r D") (auto simp: domIff)
  show "distinct (?ch p)" "p \<notin> set (?ch p)" using wf_linksD(4,5) [OF wf, of p] by auto
  have "seg ?L p None (ch p) None" if "p \<notin> insert r D"
    using wf_linksD(6) [OF wf, of p] that up by (subst seg_cong [where L = L]) auto
  then show "seg ?L p None (?ch p) None" by simp
  fix x par pv nx assume x: "?L x = Some (par, pv, nx)"
  show "case par of None \<Rightarrow> pv = None \<and> nx = None | Some p \<Rightarrow> x \<in> set (?ch p)"
  proof (cases "x \<in> D")
    case False
    then have Lx: "L x = Some (par, pv, nx)" using x by simp
    show ?thesis
    proof (cases par)
      case None
      then show ?thesis using wf_linksD(8) [OF wf] Lx by simp
    next
      case (Some p)
      then have "x \<in> set (ch p)" using wf_linksD(7) [OF wf] Lx by simp
      then show ?thesis using down False Some by auto
    qed
  qed (use x in auto)
qed

lemma empty_refines:
  assumes wf: "wf_heap h ch" and t: "tree_in ch (T r ts)" and r: "r \<in> dom h"
  obtains h' where "empty h r = Some h'" "contents h' = contents h"
    "wf_heap h' (\<lambda>a. if a \<in> set (preorder (T r ts)) then [] else ch a)"
proof -
  let ?D = "set (concat (map preorder ts))"
  obtain n where n: "h r = Some n" "nd_firstChild n = hd_opt (ch r)"
    using wf_heap_node [OF wf r] by blast
  have rD: "r \<notin> ?D" using root_notin_children [OF t] by auto
  have "\<exists>h1. (if nd_firstChild n \<noteq> None then do { nodes \<leftarrow> descendants h r; clear_all h (rev nodes) }
       else Some h) = Some h1 \<and> (\<forall>a. h1 a = (if a \<in> ?D then map_option clear_links (h a) else h a))"
  proof (cases ts)
    case Nil
    then show ?thesis using n t by auto
  next
    case (Cons u us)
    have "nd_firstChild n \<noteq> None" using n t Cons by auto
    moreover obtain h1 where "clear_all h (rev (concat (map preorder ts))) = Some h1"
      "\<forall>a. h1 a = (if a \<in> set (rev (concat (map preorder ts))) then map_option clear_links (h a) else h a)"
      using clear_all_Some [of "rev (concat (map preorder ts))" h] below_dom [OF wf t]
      by (metis set_rev)
    ultimately show ?thesis
      using descendants_preorder [OF wf t r] by (intro exI [of _ h1]) simp
  qed
  then obtain h1 where h1: "(if nd_firstChild n \<noteq> None then do { nodes \<leftarrow> descendants h r;
         clear_all h (rev nodes) } else Some h) = Some h1"
      "\<And>a. h1 a = (if a \<in> ?D then map_option clear_links (h a) else h a)" by blast
  define h' where "h' = h1(r \<mapsto> n\<lparr>nd_firstChild := None, nd_lastChild := None\<rparr>)"
  have run: "empty h r = Some h'"
    using h1(2) [of r] rD n(1)
    by (simp only: empty_def n(1) bind.bind_lunit h1(1) upd_def h'_def option.case if_False)
  have h'a: "h' a = (if a = r then Some (n\<lparr>nd_firstChild := None, nd_lastChild := None\<rparr>)
      else if a \<in> ?D then map_option clear_links (h a) else h a)" for a
    by (simp add: h'_def h1(2))
  have c: "contents h' = contents h"
    using n(1) clear_links_ends [of n]
    by (auto simp: fun_eq_iff contents_def h'a clear_links_idem option.map_comp comp_def)
  have D: "a \<in> ?D \<Longrightarrow> \<exists>m. h a = Some m" for a using below_dom [OF wf t] by blast
  have L: "links h' = (\<lambda>a. if a \<in> ?D then Some (None, None, None) else links h a)"
    using n(1) rD D by (fastforce simp: fun_eq_iff links_def h'a clear_links_def)
  have E: "ends h' = (\<lambda>a. if a \<in> insert r ?D then Some (None, None) else ends h a)"
    using n(1) D by (fastforce simp: fun_eq_iff ends_def h'a clear_links_def)
  have pre: "set (preorder (T r ts)) = insert r ?D" by simp
  have "wf_heap h' (\<lambda>a. if a \<in> insert r ?D then [] else ch a)"
    unfolding wf_heap_def L E
  proof (rule wf_links_clear)
    show "wf_links (links h) (ends h) ch" using wf by (simp add: wf_heap_def)
    show "?D \<subseteq> dom (ends h)" "r \<in> dom (ends h)" using below_dom [OF wf t] r by simp_all
    show "r \<notin> ?D" by (rule rD)
    fix p a
    { assume "p \<in> insert r ?D" "a \<in> set (ch p)"
      then have "a \<in> insert r ?D" using preorder_closed [OF t, of p a] pre by blast
      moreover have "a \<noteq> r"
      proof
        assume "a = r"
        then obtain u where u: "tree_in ch u" "troot u = p" "r \<in> set (ch p)" "size u \<le> size (T r ts)"
          using preorder_subtree [of p "T r ts" ch] \<open>p \<in> insert r ?D\<close> \<open>a \<in> set (ch p)\<close> t pre by blast
        then obtain us where us: "u = T p us" by (cases u) auto
        then obtain v where v: "v \<in> set us" "troot v = r" using u by (metis image_iff list.set_map tree_in.simps)
        then have "v = T r ts" using u(1) us tree_in_unique [OF _ t, of v] by auto
        then show False using size_child [OF v(1), of p] u(4) us by simp
      qed
      ultimately show "a \<in> ?D" by blast }
    { assume "a \<in> ?D" "a \<in> set (ch p)"
      then obtain q where "q \<in> set (preorder (T r ts))" "a \<in> set (ch q)"
        using preorder_children [OF t, of a] rD pre by (metis insertI2 troot.simps)
      then show "p \<in> insert r ?D" using wf_heap_only_parent [OF wf \<open>a \<in> set (ch p)\<close>] pre by metis }
  qed
  then show thesis using that run c pre by simp
qed

end
