(* ===== verification/Dictionary.thy ===== *)
theory Dictionary
  imports JsBase
begin

text \<open>
  The contract of a key/value store, as the components that keep one promise it: what a lookup
  returns after a write and after a deletion, under an invariant and for admissible keys.
  The lemmas about whole sequences of writes are proved here once; attribute arrays of nodes and
  the fallback storage are its instances.
\<close>

locale dictionary =
  fixes inv :: "'s \<Rightarrow> bool"
    and key :: "'k \<Rightarrow> bool"
    and lookup :: "'s \<Rightarrow> 'k \<Rightarrow> 'v option"
    and put :: "'k \<Rightarrow> 'v \<Rightarrow> 's \<Rightarrow> 's"
    and del :: "'k \<Rightarrow> 's \<Rightarrow> 's"
  assumes put_inv: "inv s \<Longrightarrow> key k \<Longrightarrow> inv (put k v s)"
    and del_inv: "inv s \<Longrightarrow> key k \<Longrightarrow> inv (del k s)"
    and lookup_put: "inv s \<Longrightarrow> key k \<Longrightarrow> lookup (put k v s) j = (if j = k then Some v else lookup s j)"
    and lookup_del: "inv s \<Longrightarrow> key k \<Longrightarrow> lookup (del k s) j = (if j = k then None else lookup s j)"
begin

lemma put_all_inv: "inv s \<Longrightarrow> \<forall>(k, v)\<in>set kvs. key k \<Longrightarrow> inv (fold (\<lambda>(k, v). put k v) kvs s)"
  by (induction kvs arbitrary: s) (auto simp: put_inv)

lemma lookup_put_all:
  "inv s \<Longrightarrow> \<forall>(k, v)\<in>set kvs. key k \<Longrightarrow>
   lookup (fold (\<lambda>(k, v). put k v) kvs s) = lookup s ++ map_of (rev kvs)"
proof (induction kvs arbitrary: s)
  case (Cons p kvs)
  obtain k v where p: "p = (k, v)" by (cases p)
  have "lookup (put k v s) = (lookup s)(k \<mapsto> v)"
    using Cons.prems p by (auto simp: fun_eq_iff lookup_put)
  then show ?case using Cons p by (auto simp: put_inv fun_eq_iff map_add_def split: option.splits)
qed simp

lemma del_put: "inv s \<Longrightarrow> key k \<Longrightarrow> lookup (del k (put k v s)) = (lookup s)(k := None)"
  by (auto simp: fun_eq_iff lookup_del lookup_put put_inv)

end

end
