(* ===== verification/HtmlAttributes.thy ===== *)
theory HtmlAttributes
  imports HtmlNode Dictionary
begin

text \<open>
  The attribute array of a node (\<open>html/Node.js\<close>, \<open>attr\<close> and \<open>clone\<close>): an array of name/value
  pairs together with an index \<open>map\<close>. It is a dictionary, for the names that no object inherits.
\<close>

section \<open>Attributes\<close>

text \<open>
  The array and the map of a node's attributes agree when the array holds each name once and
  the map is its index. Names that every object inherits are excluded: for them the \<open>in\<close> test
  of \<open>attr\<close> is true although no one stored them.
\<close>

definition coherent :: "attrs \<Rightarrow> bool" where
  "coherent a \<longleftrightarrow> distinct (map fst (attr_items a)) \<and> attr_map a = map_of (attr_items a)"

lemma set_first_map: "map fst (set_first k v xs) = map fst xs"
  by (induction xs) auto

lemma del_first_map: "map fst (del_first k xs) = remove1 k (map fst xs)"
  by (induction xs) auto

lemma map_of_set_first: "k \<in> fst ` set xs \<Longrightarrow> map_of (set_first k v xs) x = ((map_of xs)(k \<mapsto> v)) x"
  by (induction xs) (force split: if_splits)+

lemma map_of_del_first:
  "distinct (map fst xs) \<Longrightarrow> map_of (del_first k xs) x = ((map_of xs)(k := None)) x"
proof (induction xs)
  case (Cons p xs)
  then show ?case using map_of_eq_None_iff [of xs k] by (cases p) (auto simp del: map_of_eq_None_iff)
qed simp

lemma map_of_rev: "distinct (map fst xs) \<Longrightarrow> map_of (rev xs) = map_of xs"
  by (rule map_of_inject_set [THEN iffD2]) (auto simp: rev_map [symmetric])

lemma distinct_fst_rev: "distinct (map fst (rev xs)) = distinct (map fst xs)"
  by (simp add: rev_map [symmetric])

lemma map_of_set_last:
  "distinct (map fst xs) \<Longrightarrow> k \<in> fst ` set xs \<Longrightarrow> map_of (set_last k v xs) = (map_of xs)(k \<mapsto> v)"
  by (rule ext) (simp add: set_last_def map_of_rev map_of_set_first set_first_map distinct_fst_rev)

lemma map_of_del_last:
  "distinct (map fst xs) \<Longrightarrow> map_of (del_last k xs) = (map_of xs)(k := None)"
  by (rule ext) (simp add: del_last_def map_of_rev map_of_del_first del_first_map distinct_fst_rev)

lemma distinct_set_last: "distinct (map fst (set_last k v xs)) = distinct (map fst xs)"
  by (simp add: set_last_def distinct_fst_rev set_first_map)

lemma distinct_del_last: "distinct (map fst xs) \<Longrightarrow> distinct (map fst (del_last k xs))"
  by (simp add: del_last_def distinct_fst_rev del_first_map)

lemma map_of_snoc: "k \<notin> fst ` set xs \<Longrightarrow> map_of (xs @ [(k, v)]) = (map_of xs)(k \<mapsto> v)"
  by (induction xs) (auto simp: fun_eq_iff)

lemma coherent_set: "coherent a \<Longrightarrow> name \<notin> set proto_keys \<Longrightarrow> coherent (attrs_set name v a)"
  by (cases "name \<in> fst ` set (attr_items a)")
     (simp_all add: coherent_def attrs_set_def has_prop_plain map_of_eq_None_iff distinct_set_last
        map_of_set_last map_of_snoc del: map_of_append)

lemma coherent_remove: "coherent a \<Longrightarrow> coherent (attrs_remove name a)"
  by (simp add: coherent_def attrs_remove_def map_of_del_last distinct_del_last)

lemma coherent_clone: "coherent a \<Longrightarrow>
  clone_attrs a = \<lparr>attr_items = filter (\<lambda>(k, v). k \<noteq> js ''id'') (attr_items a),
                   attr_map = (attr_map a)(js ''id'' := None)\<rparr>"
proof -
  have "fold (\<lambda>(k, v) c. if k \<noteq> d
         then \<lparr>attr_items = attr_items c @ [(k, v)], attr_map = (attr_map c)(k \<mapsto> v)\<rparr> else c) xs
       \<lparr>attr_items = ys, attr_map = m\<rparr> =
     \<lparr>attr_items = ys @ filter (\<lambda>(k, v). k \<noteq> d) xs, attr_map = m ++ (map_of xs)(d := None)\<rparr>"
    if "distinct (map fst xs)" for d ys m and xs :: "(ustring \<times> ustring) list"
    using that
  proof (induction xs arbitrary: ys m)
    case (Cons p xs)
    obtain k v where p: "p = (k, v)" by (cases p)
    have k: "map_of xs k = None" using Cons.prems p by (simp add: map_of_eq_None_iff)
    show ?case
    proof (cases "k = d")
      case True
      then have "(map_of (p # xs))(d := None) = (map_of xs)(d := None)" using p by (simp add: fun_eq_iff)
      then show ?thesis using Cons p True by (simp del: map_of.simps fun_upd_apply)
    next
      case False
      have "m(k \<mapsto> v) ++ (map_of xs)(d := None) = m ++ (map_of (p # xs))(d := None)"
        using p k False by (auto simp: fun_eq_iff map_add_def split: option.splits)
      then show ?thesis using Cons p False by (simp del: fun_upd_apply)
    qed
  qed simp
  note this [of "attr_items a" "js ''id''" "[]" Map.empty]
  then show "coherent a \<Longrightarrow> ?thesis" by (simp add: clone_attrs_def empty_attrs_def coherent_def)
qed

interpretation at: dictionary coherent "\<lambda>k. k \<notin> set proto_keys" attr_map attrs_set attrs_remove
proof
  fix s k v j assume "coherent s" "k \<notin> set proto_keys"
  then show "coherent (attrs_set k v s)" "coherent (attrs_remove k s)"
    by (simp_all add: coherent_set coherent_remove)
qed (auto simp: attrs_set_def attrs_remove_def has_prop_plain)

text \<open>The object form of \<open>attr\<close> is the fold of the single writes.\<close>

lemma attr_all_fold:
  "h self = Some n \<Longrightarrow> nd_attributes n = Some a \<Longrightarrow>
   attr_all h self (map (\<lambda>(k, v). (k, AStr v)) kvs) =
     Some (h(self \<mapsto> n\<lparr>nd_attributes := Some (fold (\<lambda>(k, v). attrs_set k v) kvs a)\<rparr>))"
proof (induction kvs arbitrary: h n a)
  case Nil
  then show ?case by (simp add: fun_upd_idem)
next
  case (Cons p kvs)
  obtain k v where p: "p = (k, v)" by (cases p)
  have "attr h self k (AStr v) = Some (h(self \<mapsto> n\<lparr>nd_attributes := Some (attrs_set k v a)\<rparr>), ASelf)"
    using Cons.prems by (simp add: attr_def)
  moreover have "attr_all (h(self \<mapsto> n\<lparr>nd_attributes := Some (attrs_set k v a)\<rparr>)) self
      (map (\<lambda>(k, v). (k, AStr v)) kvs) =
    Some ((h(self \<mapsto> n\<lparr>nd_attributes := Some (attrs_set k v a)\<rparr>))
      (self \<mapsto> n\<lparr>nd_attributes := Some (attrs_set k v a)\<rparr>
        \<lparr>nd_attributes := Some (fold (\<lambda>(k, v). attrs_set k v) kvs (attrs_set k v a))\<rparr>))"
    by (rule Cons.IH) simp_all
  ultimately show ?case using p by (simp del: fun_upd_apply)
qed

end
