(* ===== verification/HtmlNodeProps.thy ===== *)
theory HtmlNodeProps
  imports HtmlTraversal HtmlAttributes
begin

text \<open>
  The properties of the node tree of \<open>html/Node.js\<close>, stated over the operations of \<open>HtmlNode\<close>
  and the child lists of \<open>HtmlTree\<close>, each applied to a small concrete tree.
\<close>

section \<open>A concrete tree\<close>

text \<open>\<open>demo\<close> is the tree \<open><p><b><i/></b>text</p>\<close> beside a detached \<open><u/></u>\<close>.\<close>

definition demo :: nheap where
  "demo = [1 \<mapsto> (Node (js ''p'') 1)\<lparr>nd_firstChild := Some 2, nd_lastChild := Some 3\<rparr>,
           2 \<mapsto> (Node (js ''b'') 1)\<lparr>nd_parent := Some 1, nd_next := Some 3,
                  nd_firstChild := Some 4, nd_lastChild := Some 4\<rparr>,
           3 \<mapsto> (Node (js ''#text'') 3)\<lparr>nd_value := Some (js ''text''), nd_parent := Some 1, nd_prev := Some 2\<rparr>,
           4 \<mapsto> (Node (js ''i'') 1)\<lparr>nd_parent := Some 2\<rparr>,
           5 \<mapsto> Node (js ''u'') 1]"

definition demo_ch :: "addr \<Rightarrow> addr list" where
  "demo_ch = (\<lambda>_. [])(1 := [2, 3], 2 := [4])"

lemma links_demo: "links demo = [1 \<mapsto> (None, None, None), 2 \<mapsto> (Some 1, None, Some 3),
    3 \<mapsto> (Some 1, Some 2, None), 4 \<mapsto> (Some 2, None, None), 5 \<mapsto> (None, None, None)]"
  by (auto simp: fun_eq_iff links_def demo_def Node_def)

lemma ends_demo: "ends demo = [1 \<mapsto> (Some 2, Some 3), 2 \<mapsto> (Some 4, Some 4),
    3 \<mapsto> (None, None), 4 \<mapsto> (None, None), 5 \<mapsto> (None, None)]"
  by (auto simp: fun_eq_iff ends_def demo_def Node_def)

lemma wf_demo: "wf_heap demo demo_ch"
  unfolding wf_heap_def links_demo ends_demo
  by (rule wf_linksI) (auto simp: demo_ch_def last_opt_def split: if_splits)

lemma dom_demo: "dom demo = {1, 2, 3, 4, 5}"
  by (auto simp: demo_def)

lemma tree_demo: "tree_in demo_ch (T 1 [T 2 [T 4 []], T 3 []])"
  by (simp add: demo_ch_def)

lemma typed_demo: "typed_heap demo"
  by (auto simp: typed_heap_def demo_def Node_def)

section \<open>The operations on child lists\<close>

text \<open>Removing a node of a well-formed tree succeeds, takes exactly that node out of the
  child list of its parent (and changes nothing for a detached node), leaves all five links of
  every node consistent with the child lists, and leaves what the nodes hold alone.\<close>

lemma node_remove:
  assumes "wf_heap h ch" and "x \<in> dom h"
  shows "\<exists>h'. remove h x = Some h' \<and> wf_heap h' (\<lambda>p. remove1 x (ch p)) \<and> contents h' = contents h
    \<and> (\<forall>p. x \<notin> set (remove1 x (ch p)))"
proof -
  have "x \<notin> set (remove1 x (ch p))" for p using wf_heap_distinct(1) [OF assms(1), of p] by simp
  then show ?thesis by (rule_tac remove_refines [OF assms]) (auto simp: without_def [abs_def])
qed


text \<open>\<open>append\<close> detaches the node from where it was and makes it the last child of the
  receiver, whether it was detached, elsewhere in the tree or already a child.\<close>

lemma node_append:
  assumes "wf_heap h ch" and "self \<in> dom h" and "node \<in> dom h" and "node \<noteq> self"
  shows "\<exists>h'. append_node h self node = Some h' \<and> contents h' = contents h
    \<and> wf_heap h' (\<lambda>p. if p = self then remove1 node (ch self) @ [node] else remove1 node (ch p))"
proof -
  have "(without node ch)(self := without node ch self @ [node]) =
      (\<lambda>p. if p = self then remove1 node (ch self) @ [node] else remove1 node (ch p))"
    by (auto simp: fun_eq_iff without_def)
  with append_refines [OF assms] show ?thesis by metis
qed


text \<open>C21. \<open>insert\<close> with a reference that has a parent puts the node right before or right after
  the reference in the parent's child list, after taking it out of its old place.\<close>

theorem node_insert:
  assumes "wf_heap h ch" and "ch p = xs @ r # ys" and "node \<in> dom h" and "node \<noteq> p" and "node \<noteq> r"
  shows "\<exists>h'. insert_node h this node r before = Some h' \<and> contents h' = contents h
    \<and> wf_heap h' (\<lambda>q. if q = p then remove1 node xs @ (if before then [node, r] else [r, node]) @ remove1 node ys
                       else remove1 node (ch q))"
proof -
  have "(without node ch)(p := put before (remove1 node xs) node r (remove1 node ys)) =
      (\<lambda>q. if q = p then remove1 node xs @ (if before then [node, r] else [r, node]) @ remove1 node ys
           else remove1 node (ch q))"
    by (auto simp: fun_eq_iff without_def put_def)
  with insert_refines [OF assms, of this before] show ?thesis by metis
qed

theorem node_insert_witness:
  "\<exists>h'. insert_node demo 9 5 3 True = Some h' \<and> contents h' = contents demo
    \<and> wf_heap h' (\<lambda>q. if q = 1 then remove1 5 [2] @ (if True then [5, 3] else [3, 5]) @ remove1 5 []
                       else remove1 5 (demo_ch q))"
  by (rule node_insert [OF wf_demo]) (simp_all add: dom_demo demo_ch_def)

text \<open>\<open>insert\<close> with a reference that has no parent falls back on the receiver as the parent,
  and then raises a TypeError: the reference is no child of it, so there is a null sibling link
  to write through.\<close>

lemma node_insert_detached_reference:
  assumes "wf_heap h ch" and "h r = Some rn" and "nd_parent rn = None" and "node \<in> dom h" and "node \<noteq> r"
  shows "insert_node h this node r before = None"
  by (rule insert_detached_ref_fails [OF assms])


text \<open>\<open>replace\<close> puts the node in the place of the receiver, which ends up detached.\<close>

lemma node_replace:
  assumes "wf_heap h ch" and "ch p = xs @ self # ys" and "node \<in> dom h" and "node \<noteq> p" and "node \<noteq> self"
  shows "\<exists>h'. replace_node h self node = Some h' \<and> contents h' = contents h
    \<and> wf_heap h' ((\<lambda>q. remove1 node (ch q))(p := remove1 node xs @ node # remove1 node ys))"
  by (rule replace_refines [OF assms]) (auto simp: without_def [abs_def])


text \<open>C36. \<open>wrap\<close> puts the wrapper in the place of the receiver and the receiver last in it, and
  \<open>unwrap\<close> undoes it: wrapping a node in an empty detached wrapper and unwrapping the wrapper
  gives back the child lists of before.\<close>

theorem node_wrap_unwrap:
  assumes "wf_heap h ch" and "ch p = xs @ self # ys" and "h w = Some wn" and "nd_parent wn = None"
    and "ch w = []" and "w \<noteq> p" and "w \<noteq> self"
  shows "\<exists>h1 h2. wrap h self w = Some h1 \<and> wf_heap h1 (ch(p := xs @ w # ys, w := [self]))
    \<and> unwrap h1 w = Some h2 \<and> wf_heap h2 ch \<and> contents h2 = contents h"
proof -
  have w: "w \<in> dom h" "\<And>q. w \<notin> set (ch q)" using assms(3) wf_heap_notin [OF assms(1,3,4)] by auto
  have nw: "w \<notin> set xs" "w \<notin> set ys" using w(2) [of p] assms(2) by auto
  have "without w ch = ch" using w(2) by (rule without_id)
  then obtain h1 where h1: "wrap h self w = Some h1" "contents h1 = contents h"
      "wf_heap h1 (ch(p := xs @ w # ys, w := [self]))"
    using wrap_refines [OF assms(1,2) w(1) assms(6,7)] nw assms(5) by (metis append_Nil remove1_idem)
  have "self \<noteq> p" using wf_heap_distinct(2) [OF assms(1), of p] assms(2) by auto
  then obtain h2 where h2: "unwrap h1 w = Some h2" "contents h2 = contents h1"
      "wf_heap h2 ((ch(p := xs @ w # ys, w := [self]))(p := xs @ [self] @ ys, w := []))"
    using unwrap_refines [OF h1(3), of p xs w ys] assms(6) by auto
  have "(ch(p := xs @ w # ys, w := [self]))(p := xs @ [self] @ ys, w := []) = ch"
    using assms(2,5,6) by (auto simp: fun_eq_iff)
  with h1 h2 show ?thesis by metis
qed

theorem node_wrap_unwrap_witness:
  "\<exists>h1 h2. wrap demo 2 5 = Some h1 \<and> wf_heap h1 (demo_ch(1 := [] @ 5 # [3], 5 := [2]))
    \<and> unwrap h1 5 = Some h2 \<and> wf_heap h2 demo_ch \<and> contents h2 = contents demo"
  by (rule node_wrap_unwrap [OF wf_demo, of 1 "[]" 2 "[3]" 5 "Node (js ''u'') 1"])
     (simp_all add: demo_ch_def, simp_all add: demo_def Node_def)

text \<open>\<open>unwrap\<close> splices the children of the receiver, in order, into its place.\<close>

lemma node_unwrap:
  assumes "wf_heap h ch" and "ch p = xs @ self # ys" and "p \<notin> set (ch self)"
  shows "\<exists>h'. unwrap h self = Some h' \<and> contents h' = contents h
    \<and> wf_heap h' (ch(p := xs @ ch self @ ys, self := []))"
  by (rule unwrap_refines [OF assms]) blast


section \<open>The traversals\<close>

text \<open>\<open>getAll\<close> ends and returns exactly the descendants of the given name, in document
  order and without the node itself.\<close>

lemma node_getAll:
  assumes "wf_heap h ch" and "tree_in ch (T r ts)" and "r \<in> dom h"
  shows "getAll h r name = Some (filter (named h name) (concat (map preorder ts)))"
proof -
  obtain n where n: "h r = Some n" using assms(3) by blast
  then have "walk_from h r (nd_firstChild n) [] = Some (concat (map preorder ts))"
    using descendants_preorder [OF assms] by (simp add: descendants_def)
  from getAll_loop_filter [OF this, of name] n show ?thesis by (simp add: getAll_def)
qed


text \<open>\<open>isEmpty\<close> ends and is true exactly when no descendant counts as content.\<close>

lemma node_isEmpty:
  assumes "wf_heap h ch" and "tree_in ch (T r ts)" and "r \<in> dom h" and "typed_heap h"
  shows "isEmpty h r elements = Some (\<forall>x\<in>set (concat (map preorder ts)). ignored h elements x)"
proof -
  obtain n where n: "h r = Some n" using assms(3) by blast
  then have "walk_from h r (nd_firstChild n) [] = Some (concat (map preorder ts))"
    using descendants_preorder [OF assms(1-3)] by (simp add: descendants_def)
  from isEmpty_loop_all [OF assms(4) this, of elements] n show ?thesis
    by (simp add: isEmpty_def list_all_iff)
qed


text \<open>\<open>empty\<close> detaches every descendant from every other: afterwards the node and all that was
  below it have no children, and the rest of the store is as it was.\<close>

lemma node_empty:
  assumes "wf_heap h ch" and "tree_in ch (T r ts)" and "r \<in> dom h"
  shows "\<exists>h'. empty h r = Some h' \<and> contents h' = contents h
    \<and> wf_heap h' (\<lambda>a. if a \<in> set (preorder (T r ts)) then [] else ch a)"
  by (rule empty_refines [OF assms]) blast


section \<open>Attributes\<close>

text \<open>Setting attributes one after the other (the object form of \<open>attr\<close>) keeps the array and
  its index in agreement and makes every later lookup return the last value written for its
  name, or the value of before where the name was not written.\<close>

lemma node_attr_all:
  assumes "h self = Some n" and "nd_attributes n = Some a" and "coherent a"
    and "\<forall>(k, v)\<in>set kvs. k \<notin> set proto_keys"
  shows "\<exists>a'. attr_all h self (map (\<lambda>(k, v). (k, AStr v)) kvs) =
      Some (h(self \<mapsto> n\<lparr>nd_attributes := Some a'\<rparr>))
    \<and> coherent a' \<and> attr_map a' = attr_map a ++ map_of (rev kvs)"
  using attr_all_fold [of h self n a kvs] assms(1,2) at.put_all_inv [OF assms(3,4)] at.lookup_put_all [OF assms(3,4)]
  by blast


end
