(* ===== verification/JsNumber.thy ===== *)
theory JsNumber
  imports JsBase
begin

text \<open>
  Numbers and their texts: printing a non-negative integer in decimal (string concatenation with
  a number), \<open>parseInt\<close> with an explicit radix, and the conversions of \<open>String.fromCharCode\<close> and of
  the bit operators. Numbers are exact integers here (the double type of the language is exact up
  to 2 to the 53rd); NaN is None.
\<close>

section \<open>Digits\<close>

definition digit_chr :: "nat \<Rightarrow> code_unit" where
  "digit_chr d = (if d < 10 then of_nat (48 + d) else of_nat (87 + d))"

definition digit_val :: "code_unit \<Rightarrow> nat option" where
  "digit_val c = (let n = unat c in
     if 48 \<le> n \<and> n \<le> 57 then Some (n - 48)
     else if 97 \<le> n \<and> n \<le> 122 then Some (n - 87)
     else if 65 \<le> n \<and> n \<le> 90 then Some (n - 55)
     else None)"

lemma unat_small: "n < 65536 \<Longrightarrow> unat (of_nat n :: code_unit) = n"
  by (simp add: unat_of_nat take_bit_nat_eq_self)

lemma digit_val_chr [simp]: "d < 36 \<Longrightarrow> digit_val (digit_chr d) = Some d"
proof -
  assume "d < 36"
  then have "unat (digit_chr d) = (if d < 10 then 48 + d else 87 + d)"
    unfolding digit_chr_def by (simp only: unat_small split: if_split) (simp add: unat_small)
  then show ?thesis using \<open>d < 36\<close> by (simp add: digit_val_def)
qed

text \<open>\<open>Number.prototype.toString(radix)\<close> of a non-negative integer.\<close>

fun show_radix :: "nat \<Rightarrow> nat \<Rightarrow> ustring" where
  "show_radix r n =
     (if r \<le> 1 \<or> n < r then [digit_chr n] else show_radix r (n div r) @ [digit_chr (n mod r)])"

declare show_radix.simps [simp del]

definition show_nat :: "nat \<Rightarrow> ustring" where
  "show_nat n = show_radix 10 n"

section \<open>parseInt\<close>

text \<open>The value of the longest prefix of digits; None when there is no digit.\<close>

definition is_digit :: "nat \<Rightarrow> code_unit \<Rightarrow> bool" where
  "is_digit r c \<longleftrightarrow> (case digit_val c of Some d \<Rightarrow> d < r | None \<Rightarrow> False)"

definition digits_value :: "nat \<Rightarrow> ustring \<Rightarrow> nat" where
  "digits_value r ds = fold (\<lambda>c acc. acc * r + (case digit_val c of Some d \<Rightarrow> d | None \<Rightarrow> 0)) ds 0"

definition js_space :: "code_unit \<Rightarrow> bool" where
  "js_space c \<longleftrightarrow> (0x09 \<le> c \<and> c \<le> 0x0D) \<or> c = 0x20 \<or> c = 0xA0 \<or> c = 0x1680
     \<or> (0x2000 \<le> c \<and> c \<le> 0x200A) \<or> c = 0x2028 \<or> c = 0x2029 \<or> c = 0x202F \<or> c = 0x205F
     \<or> c = 0x3000 \<or> c = 0xFEFF"

definition strip_hex :: "nat \<Rightarrow> ustring \<Rightarrow> ustring" where
  "strip_hex r s = (case s of a # b # t \<Rightarrow>
       if r = 16 \<and> a = 0x30 \<and> (b = 0x78 \<or> b = 0x58) then t else s | _ \<Rightarrow> s)"

definition parse_nat :: "nat \<Rightarrow> ustring \<Rightarrow> nat option" where
  "parse_nat r s = (let ds = takeWhile (is_digit r) (strip_hex r s) in
     if ds = [] then None else Some (digits_value r ds))"

definition parse_int :: "nat \<Rightarrow> ustring \<Rightarrow> int option" where
  "parse_int r s =
     (case dropWhile js_space s of
        [] \<Rightarrow> None
      | c # t \<Rightarrow> if c = 0x2D then map_option (\<lambda>n. - int n) (parse_nat r t)
                 else if c = 0x2B then map_option int (parse_nat r t)
                 else map_option int (parse_nat r (c # t)))"

lemma digits_value_snoc:
  "digits_value r (ds @ [c]) = digits_value r ds * r + (case digit_val c of Some d \<Rightarrow> d | None \<Rightarrow> 0)"
  by (simp add: digits_value_def)

lemma show_radix_digits: "1 < r \<Longrightarrow> r \<le> 36 \<Longrightarrow> c \<in> set (show_radix r n) \<Longrightarrow> is_digit r c"
proof (induction r n rule: show_radix.induct)
  case (1 r n)
  show ?case
  proof (cases "n < r")
    case True
    then have "c = digit_chr n" using "1.prems" by (simp add: show_radix.simps [of r n])
    then show ?thesis using True "1.prems" by (simp add: is_digit_def)
  next
    case False
    have "n mod r < r" using "1.prems"(1) by simp
    then have "n mod r < 36" using "1.prems"(2) by simp
    then have "is_digit r (digit_chr (n mod r))" using "1.prems"(1) by (simp add: is_digit_def)
    then show ?thesis using False "1.prems" "1.IH" by (auto simp: show_radix.simps [of r n])
  qed
qed

lemma show_radix_not_Nil [simp]: "show_radix r n \<noteq> []"
  by (subst show_radix.simps) simp

lemma digits_value_show: "1 < r \<Longrightarrow> r \<le> 36 \<Longrightarrow> digits_value r (show_radix r n) = n"
proof (induction r n rule: show_radix.induct)
  case (1 r n)
  show ?case
  proof (cases "n < r")
    case True
    then show ?thesis using "1.prems" by (simp add: show_radix.simps [of r n] digits_value_def)
  next
    case False
    have m: "n mod r < 36" using "1.prems" by (meson less_le_trans mod_less_divisor not_one_less_zero order.strict_trans zero_less_one)
    have "digits_value r (show_radix r (n div r)) = n div r" using False "1.prems" "1.IH" by simp
    then show ?thesis using False "1.prems" m
      by (simp add: show_radix.simps [of r n] digits_value_snoc)
  qed
qed

lemma is_digit_not_space: "is_digit r c \<Longrightarrow> \<not> js_space c \<and> c \<noteq> 0x2D \<and> c \<noteq> 0x2B"
  by (auto simp: is_digit_def digit_val_def js_space_def Let_def word_le_nat_alt split: if_splits)

lemma parse_nat_show: "1 < r \<Longrightarrow> r \<le> 36 \<Longrightarrow> r \<noteq> 16 \<Longrightarrow> \<not> is_digit r c \<Longrightarrow>
    parse_nat r (show_radix r n @ c # s) = Some n \<and> parse_nat r (show_radix r n) = Some n"
proof -
  assume r: "1 < r" "r \<le> 36" "r \<noteq> 16" and c: "\<not> is_digit r c"
  have "strip_hex r t = t" for t using r(3) by (auto simp: strip_hex_def split: list.splits)
  moreover have "takeWhile (is_digit r) (show_radix r n @ c # s) = show_radix r n"
    using show_radix_digits [OF r(1,2)] c by (subst takeWhile_append2) auto
  moreover have "takeWhile (is_digit r) (show_radix r n) = show_radix r n"
    using show_radix_digits [OF r(1,2)] by (simp add: takeWhile_eq_all_conv)
  ultimately show ?thesis using digits_value_show [OF r(1,2), of n]
    by (simp only: parse_nat_def Let_def show_radix_not_Nil if_False simp_thms)
qed

lemma parse_int_show:
  assumes r: "1 < r" "r \<le> 36" "r \<noteq> 16"
  shows "parse_int r (show_radix r n) = Some (int n)"
proof -
  obtain c t where ct: "show_radix r n = c # t" by (cases "show_radix r n") auto
  then have "is_digit r c" using show_radix_digits [OF r(1,2), of c n] by simp
  then have "dropWhile js_space (show_radix r n) = c # t" "c \<noteq> 0x2D" "c \<noteq> 0x2B"
    using is_digit_not_space [of r c] ct by auto
  moreover have "\<not> is_digit r 0" by (simp add: is_digit_def digit_val_def)
  then have "parse_nat r (show_radix r n) = Some n" using parse_nat_show [OF r] by blast
  ultimately show ?thesis using ct by (simp add: parse_int_def)
qed

lemma parse_int_show_nat [simp]: "parse_int 10 (show_nat n) = Some (int n)"
  unfolding show_nat_def by (rule parse_int_show) auto

section \<open>Conversions\<close>

text \<open>\<open>String.fromCharCode\<close> takes its argument modulo 2 to the 16th, and NaN as 0.\<close>

definition from_char_code :: "int option \<Rightarrow> code_unit" where
  "from_char_code v = (case v of None \<Rightarrow> 0 | Some n \<Rightarrow> word_of_int n)"

text \<open>The operand of a bit operator, as a signed 32-bit integer.\<close>

definition to_int32 :: "int \<Rightarrow> int" where
  "to_int32 n = signed_take_bit 31 n"

lemma to_int32_small: "0 \<le> n \<Longrightarrow> n < 2 ^ 31 \<Longrightarrow> to_int32 n = n"
  by (simp add: to_int32_def signed_take_bit_int_eq_self_iff)

end
