(* ===== verification/Tools.thy ===== *)
theory Tools
  imports JsNumber "HOL-Library.AList"
begin

text \<open>
  The utility functions of \<open>tinymce/js/tinymce/classes/util/Tools.js\<close>: loops with an early exit
  (\<open>each\<close>, \<open>map\<close>, \<open>grep\<close>, \<open>walk\<close>), string splitting (\<open>trim\<close>, \<open>explode\<close>, \<open>makeMap\<close>), merging of
  objects (\<open>extend\<close>) and namespaces (\<open>createNS\<close>, \<open>resolve\<close>). Objects with an iteration order are
  lists of their own properties. A callback is a function of its arguments and of the state it
  reads and writes; its second result is False exactly when the callback returns \<open>false\<close>.
\<close>

section \<open>Types of values\<close>

datatype js_kind = KUndefined | KNull | KBoolean | KNumber | KString | KFunction | KArray | KObject

definition js_typeof :: "js_kind \<Rightarrow> ustring" where
  "js_typeof k = js (case k of KUndefined \<Rightarrow> ''undefined'' | KNull \<Rightarrow> ''object'' | KBoolean \<Rightarrow> ''boolean''
     | KNumber \<Rightarrow> ''number'' | KString \<Rightarrow> ''string'' | KFunction \<Rightarrow> ''function''
     | KArray \<Rightarrow> ''object'' | KObject \<Rightarrow> ''object'')"

definition is_a :: "js_kind \<Rightarrow> ustring \<Rightarrow> bool" where
  "is_a ob t =
     (if t = [] then ob \<noteq> KUndefined
      else if t = js ''array'' \<and> ob = KArray then True
      else js_typeof ob = t)"

section \<open>Loops\<close>

text \<open>\<open>each\<close> over an array: value and index to the callback; 1 when it ran to the end, else 0.\<close>

fun each_from :: "('v \<Rightarrow> nat \<Rightarrow> 's \<Rightarrow> 's \<times> bool) \<Rightarrow> nat \<Rightarrow> 'v list \<Rightarrow> 's \<Rightarrow> 's \<times> nat" where
  "each_from cb n [] s = (s, 1)"
| "each_from cb n (v # vs) s =
     (case cb v n s of (s', True) \<Rightarrow> each_from cb (Suc n) vs s' | (s', False) \<Rightarrow> (s', 0))"

definition each :: "'v list option \<Rightarrow> ('v \<Rightarrow> nat \<Rightarrow> 's \<Rightarrow> 's \<times> bool) \<Rightarrow> 's \<Rightarrow> 's \<times> nat" where
  "each ob cb s = (case ob of None \<Rightarrow> (s, 0) | Some vs \<Rightarrow> each_from cb 0 vs s)"

text \<open>\<open>each\<close> over an object: its own properties in their order.\<close>

fun each_prop :: "('v \<Rightarrow> 'k \<Rightarrow> 's \<Rightarrow> 's \<times> bool) \<Rightarrow> ('k \<times> 'v) list \<Rightarrow> 's \<Rightarrow> 's \<times> nat" where
  "each_prop cb [] s = (s, 1)"
| "each_prop cb ((k, v) # ps) s =
     (case cb v k s of (s', True) \<Rightarrow> each_prop cb ps s' | (s', False) \<Rightarrow> (s', 0))"

definition tmap :: "'a list option \<Rightarrow> ('a \<Rightarrow> 'b) \<Rightarrow> 'b list" where
  "tmap a f = fst (each a (\<lambda>v _ ob. (ob @ [f v], True)) [])"

definition grep :: "'a list option \<Rightarrow> ('a \<Rightarrow> bool) option \<Rightarrow> 'a list" where
  "grep a f = fst (each a (\<lambda>v _ ob.
     (if (case f of None \<Rightarrow> True | Some p \<Rightarrow> p v) then ob @ [v] else ob, True)) [])"

fun inArray_from :: "int \<Rightarrow> 'a list \<Rightarrow> 'a \<Rightarrow> int" where
  "inArray_from i [] v = -1"
| "inArray_from i (x # xs) v = (if x = v then i else inArray_from (i + 1) xs v)"

definition inArray :: "'a list option \<Rightarrow> 'a \<Rightarrow> int" where
  "inArray a v = (case a of None \<Rightarrow> -1 | Some xs \<Rightarrow> inArray_from 0 xs v)"

definition toArray :: "'a list \<Rightarrow> 'a list" where
  "toArray xs = map (\<lambda>i. xs ! i) [0..<length xs]"

text \<open>
  \<open>walk(o, f, n)\<close> visits the members of the collection \<open>n\<close> of \<open>o\<close> and below them. A callback that
  returns false ends the loop over its siblings, not the loops further out.
\<close>

datatype 'a rose = Rose 'a "'a rose list"

fun walk_tree :: "('a \<Rightarrow> nat \<Rightarrow> 's \<Rightarrow> 's \<times> bool) \<Rightarrow> 'a rose \<Rightarrow> 's \<Rightarrow> 's"
and walk_items :: "('a \<Rightarrow> nat \<Rightarrow> 's \<Rightarrow> 's \<times> bool) \<Rightarrow> nat \<Rightarrow> 'a rose list \<Rightarrow> 's \<Rightarrow> 's" where
  "walk_tree f (Rose a ts) s = walk_items f 0 ts s"
| "walk_items f i [] s = s"
| "walk_items f i (Rose a ts # us) s =
     (case f a i s of (s', False) \<Rightarrow> s'
      | (s', True) \<Rightarrow> walk_items f (Suc i) us (walk_tree f (Rose a ts) s'))"

section \<open>Strings\<close>

text \<open>The whitespace at both ends goes; null and undefined give the empty string.\<close>

definition strip :: "ustring \<Rightarrow> ustring" where
  "strip s = rev (dropWhile js_space (rev (dropWhile js_space s)))"

definition trim :: "ustring option \<Rightarrow> ustring" where
  "trim str = (case str of None \<Rightarrow> [] | Some s \<Rightarrow> strip s)"

text \<open>None: \<open>explode\<close> returns its falsy argument as it is.\<close>

definition explode :: "ustring option \<Rightarrow> code_unit option \<Rightarrow> ustring list option" where
  "explode s d =
     (case s of None \<Rightarrow> None
      | Some t \<Rightarrow> if t = [] then None
                 else Some (tmap (Some (split_on (case d of None \<Rightarrow> cu CHR '','' | Some c \<Rightarrow> c) t))
                              (\<lambda>p. trim (Some p))))"

text \<open>\<open>makeMap\<close>: every item becomes a property whose value is an empty object.\<close>

fun makeMap_loop :: "ustring list \<Rightarrow> (ustring \<rightharpoonup> unit) \<Rightarrow> ustring \<rightharpoonup> unit" where
  "makeMap_loop [] m = m"
| "makeMap_loop (x # xs) m = (makeMap_loop xs m)(x \<mapsto> ())"

definition makeMap :: "ustring list \<Rightarrow> (ustring \<rightharpoonup> unit) \<Rightarrow> ustring \<rightharpoonup> unit" where
  "makeMap items m = makeMap_loop items m"

definition makeMap_str :: "ustring \<Rightarrow> code_unit \<Rightarrow> ustring \<rightharpoonup> unit" where
  "makeMap_str items delim = makeMap (if items = [] then [] else split_on delim items) Map.empty"

section \<open>Objects\<close>

text \<open>\<open>extend(obj, ext1, ext2, ...)\<close>; a property whose value is undefined is skipped.\<close>

fun extend_one :: "('k \<times> 'v option) list \<Rightarrow> ('k \<rightharpoonup> 'v) \<Rightarrow> 'k \<rightharpoonup> 'v" where
  "extend_one [] obj = obj"
| "extend_one ((name, value) # ps) obj =
     extend_one ps (case value of None \<Rightarrow> obj | Some v \<Rightarrow> obj(name \<mapsto> v))"

fun extend :: "('k \<rightharpoonup> 'v) \<Rightarrow> ('k \<times> 'v option) list list \<Rightarrow> 'k \<rightharpoonup> 'v" where
  "extend obj [] = obj"
| "extend obj (ext # exts) = extend (extend_one ext obj) exts"

text \<open>
  Namespaces are objects of objects. \<open>createNS\<close> returns the object at the path, making the
  missing ones; the model returns the new root and that object. None: a step of the path is a
  property every object inherits, which is a function and no namespace.
\<close>

datatype namespace = NS "(ustring \<times> namespace) list"

fun members :: "namespace \<Rightarrow> (ustring \<times> namespace) list" where
  "members (NS ps) = ps"

definition set_member :: "ustring \<Rightarrow> namespace \<Rightarrow> namespace \<Rightarrow> namespace" where
  "set_member v x ob = NS (AList.update v x (members ob))"

fun create_path :: "ustring list \<Rightarrow> namespace \<Rightarrow> (namespace \<times> namespace) option" where
  "create_path [] ob = Some (ob, ob)"
| "create_path (v # vs) ob =
     (case map_of (members ob) v of
        Some c \<Rightarrow> map_option (\<lambda>(c', x). (set_member v c' ob, x)) (create_path vs c)
      | None \<Rightarrow> if v \<in> set proto_keys then None
                else map_option (\<lambda>(c', x). (set_member v c' ob, x)) (create_path vs (NS [])))"

definition createNS :: "ustring \<Rightarrow> namespace \<Rightarrow> (namespace \<times> namespace) option" where
  "createNS n ob = create_path (split_on (cu CHR ''.'') n) ob"

fun resolve_path :: "ustring list \<Rightarrow> namespace \<Rightarrow> namespace property" where
  "resolve_path [] ob = Own ob"
| "resolve_path (v # vs) ob =
     (case map_of (members ob) v of
        Some c \<Rightarrow> resolve_path vs c
      | None \<Rightarrow> if v \<in> set proto_keys then Inherited else Undefined)"

definition resolve :: "ustring \<Rightarrow> namespace \<Rightarrow> namespace property" where
  "resolve n ob = resolve_path (split_on (cu CHR ''.'') n) ob"

section \<open>What the functions compute\<close>

lemma each_from_fold:
  "(\<And>v n s. snd (cb v n s)) \<Longrightarrow>
   each_from cb n vs s = (fold (\<lambda>(v, i) s. fst (cb v i s)) (zip vs [n..<n + length vs]) s, 1)"
proof (induction vs arbitrary: n s)
  case (Cons v vs)
  obtain s' where cb: "cb v n s = (s', True)" using Cons.prems [of v n s] by (cases "cb v n s") auto
  have "zip (v # vs) [n..<n + length (v # vs)] = (v, n) # zip vs [Suc n..<Suc n + length vs]"
    by (simp add: upt_rec)
  with Cons.IH [of "Suc n" s'] Cons.prems cb show ?case by simp
qed simp

lemma tmap_map [simp]: "tmap (Some xs) f = map f xs" "tmap None f = []"
proof -
  have "fst (each_from (\<lambda>v _ ob. (ob @ [f v], True)) n xs acc) = acc @ map f xs" for n acc
    by (induction xs arbitrary: n acc) auto
  then show "tmap (Some xs) f = map f xs" by (simp add: tmap_def each_def)
qed (simp add: tmap_def each_def)

lemma grep_filter [simp]: "grep (Some xs) (Some p) = filter p xs" "grep (Some xs) None = xs"
proof -
  have "fst (each_from (\<lambda>v _ ob. (if q v then ob @ [v] else ob, True)) n xs acc) = acc @ filter q xs"
    for q n acc by (induction xs arbitrary: n acc) auto
  from this [of p 0 "[]"] this [of "\<lambda>_. True" 0 "[]"]
  show "grep (Some xs) (Some p) = filter p xs" "grep (Some xs) None = xs"
    by (simp_all add: grep_def each_def)
qed

lemma inArray_from_cases:
  "inArray_from i xs v = (if v \<in> set xs then i + int (length (takeWhile (\<lambda>x. x \<noteq> v) xs)) else -1)"
  by (induction xs arbitrary: i) auto

lemma toArray_id [simp]: "toArray xs = xs"
  by (simp add: toArray_def map_nth)

text \<open>The nodes below the root, in the order a callback that never stops sees them.\<close>

fun below :: "'a rose \<Rightarrow> 'a list" where
  "below (Rose a ts) = concat (map (\<lambda>t. case t of Rose b us \<Rightarrow> b # below t) ts)"

lemma walk_preorder:
  "f = (\<lambda>a i s. (s @ [a], True)) \<Longrightarrow> walk_tree f t s = s @ below t"
  "f = (\<lambda>a i s. (s @ [a], True)) \<Longrightarrow> walk_items f i ts s = s @ below (Rose x ts)"
  by (induction f t s and f i ts s rule: walk_tree_walk_items.induct) auto

lemma makeMap_lookup: "makeMap items m k = (if k \<in> set items then Some () else m k)"
  unfolding makeMap_def by (induction items) auto

lemma dropWhile_not_hd: "dropWhile p xs = y # ys \<Longrightarrow> \<not> p y"
  by (metis dropWhile_eq_Cons_conv)

lemma strip_idem [simp]: "strip (strip s) = strip s"
proof -
  let ?t = "dropWhile js_space s"
  have "dropWhile js_space (strip s) = strip s"
  proof (cases "strip s")
    case (Cons c cs)
    obtain ws where ws: "?t = strip s @ ws"
      unfolding strip_def by (metis dropWhile_eq_drop rev_append rev_rev_ident takeWhile_dropWhile_id)
    then have "\<not> js_space c" using Cons dropWhile_not_hd [of js_space s c "cs @ ws"] by simp
    with Cons show ?thesis by simp
  qed simp
  then show ?thesis
    by (simp add: strip_def [of "strip s"]) (simp add: strip_def dropWhile_idem)
qed

definition defined_props :: "('k \<times> 'v option) list \<Rightarrow> ('k \<times> 'v) list" where
  "defined_props ps = map (\<lambda>(k, v). (k, the v)) (filter (\<lambda>(k, v). v \<noteq> None) ps)"

lemma extend_one_add: "extend_one ps obj = obj ++ map_of (rev (defined_props ps))"
proof (induction ps obj rule: extend_one.induct)
  case (2 name v ps obj)
  show ?case
  proof (cases v)
    case None
    with 2 show ?thesis by (simp add: defined_props_def)
  next
    case (Some a)
    have "obj(name \<mapsto> a) ++ map_of (rev (defined_props ps)) =
        obj ++ map_of (rev (defined_props ((name, v) # ps)))"
      using Some by (auto simp: fun_eq_iff map_add_def defined_props_def split: option.splits)
    with 2 Some show ?thesis by (simp del: fun_upd_apply)
  qed
qed (simp add: defined_props_def)

lemma extend_add: "extend obj exts = obj ++ map_of (rev (defined_props (concat exts)))"
  by (induction exts arbitrary: obj) (simp_all add: extend_one_add, simp_all add: defined_props_def)

lemma create_path_resolve:
  "create_path vs ob = Some (ob', x) \<Longrightarrow> resolve_path vs ob' = Own x \<and> create_path vs ob' = Some (ob', x)"
proof (induction vs ob arbitrary: ob' x rule: create_path.induct)
  case (2 v vs ob)
  have *: "resolve_path (v # vs) (set_member v c' ob) = resolve_path vs c'" 
    "create_path (v # vs) (set_member v c' ob) =
        map_option (\<lambda>(d, x). (set_member v d (set_member v c' ob), x)) (create_path vs c')" for c'
    by (simp_all add: set_member_def update_conv')
  have **: "set_member v c' (set_member v c' ob) = set_member v c' ob" for c'
    by (simp add: set_member_def )
  show ?case
  proof (cases "map_of (members ob) v")
    case None
    then obtain c' where c: "v \<notin> set proto_keys" "create_path vs (NS []) = Some (c', x)" "ob' = set_member v c' ob"
      using "2.prems" by (auto split: if_splits)
    with "2.IH"(1) [OF None c(1,2)] * ** show ?thesis by simp
  next
    case (Some d)
    then obtain c' where c: "create_path vs d = Some (c', x)" "ob' = set_member v c' ob"
      using "2.prems" by auto
    with "2.IH"(2) [OF Some c(1)] * ** show ?thesis by simp
  qed
qed simp


text \<open>\<open>extend\<close> merges all its sources into the target from left to right: afterwards a property has
  the last defined value any source gives it, or the target's own value when none does;
  undefined values never overwrite.\<close>

lemma extend_last_defined:
  "extend obj exts = obj ++ map_of (rev (defined_props (concat exts)))"
  by (rule extend_add)

text \<open>The namespace \<open>createNS\<close> returns is the one \<open>resolve\<close> then finds under the same name, and
  creating it again changes nothing and returns the same one.\<close>

lemma createNS_resolve:
  assumes "createNS n ob = Some (ob', x)"
  shows "resolve n ob' = Own x \<and> createNS n ob' = Some (ob', x)"
  using create_path_resolve assms by (simp add: createNS_def resolve_def)


end
