(* ===== verification/Entities.thy ===== *)
theory Entities
  imports Tools
begin

text \<open>
  The entity encoders and the decoder of \<open>tinymce/js/tinymce/classes/html/Entities.js\<close>, on
  strings of UTF-16 code units. The regular expressions are recognisers at the head of the
  string; \<open>replace\<close> with a global one is the recursion that copies what does not match. The
  browser's own decoding (\<open>nativeDecode\<close>) is a parameter.
\<close>

section \<open>Tables\<close>

definition asciiMap :: "nat \<rightharpoonup> code_unit" where
  "asciiMap = map_of
    [(128, 0x20AC), (130, 0x201A), (131, 0x0192), (132, 0x201E), (133, 0x2026), (134,
     0x2020), (135, 0x2021), (136, 0x02C6), (137, 0x2030), (138, 0x0160), (139, 0x2039),
     (140, 0x0152), (142, 0x017D), (145, 0x2018), (146, 0x2019), (147, 0x201C), (148,
     0x201D), (149, 0x2022), (150, 0x2013), (151, 0x2014), (152, 0x02DC), (153, 0x2122),
     (154, 0x0161), (155, 0x203A), (156, 0x0153), (158, 0x017E), (159, 0x0178)]"

definition baseEntities :: "ustring \<rightharpoonup> ustring" where
  "baseEntities = [js [CHR 0x22] \<mapsto> js ''&quot;'', js [CHR 0x27] \<mapsto> js ''&#39;'', js ''<'' \<mapsto> js ''&lt;'',
     js ''>'' \<mapsto> js ''&gt;'', js ''&'' \<mapsto> js ''&amp;'']"

definition reverseEntities :: "ustring \<rightharpoonup> ustring" where
  "reverseEntities = [js ''&lt;'' \<mapsto> js ''<'', js ''&gt;'' \<mapsto> js ''>'', js ''&amp;'' \<mapsto> js ''&'',
     js ''&quot;'' \<mapsto> js [CHR 0x22], js ''&apos;'' \<mapsto> js [CHR 0x27]]"

text \<open>
  \<open>buildEntitiesLookup\<close> over the comma separated items, code and name in turn. The text of a
  missing last name is ''undefined''. No items: no table, which the callers test.
\<close>

fun build_loop :: "nat \<Rightarrow> ustring list \<Rightarrow> (ustring \<rightharpoonup> ustring) \<Rightarrow> ustring \<rightharpoonup> ustring" where
  "build_loop radix [] lookup = lookup"
| "build_loop radix (code # items) lookup =
     (let chr = [from_char_code (parse_int radix code)];
          entity = js ''&'' @ (case items of [] \<Rightarrow> js ''undefined'' | name # _ \<Rightarrow> name) @ js '';''
      in build_loop radix (tl items)
           (if baseEntities chr = None then lookup(chr \<mapsto> entity, entity \<mapsto> chr) else lookup))"

definition buildEntitiesLookup :: "ustring \<Rightarrow> nat \<Rightarrow> (ustring \<rightharpoonup> ustring) option" where
  "buildEntitiesLookup items radix =
     (if items = [] then None else Some (build_loop radix (split_on (cu CHR '','') items) Map.empty))"

definition named_lines :: "string list" where
  "named_lines =
   [''50,nbsp,51,iexcl,52,cent,53,pound,54,curren,55,yen,56,brvbar,57,sect,58,uml,59,copy,'',
    ''5a,ordf,5b,laquo,5c,not,5d,shy,5e,reg,5f,macr,5g,deg,5h,plusmn,5i,sup2,5j,sup3,5k,acute,'',
    ''5l,micro,5m,para,5n,middot,5o,cedil,5p,sup1,5q,ordm,5r,raquo,5s,frac14,5t,frac12,5u,frac34,'',
    ''5v,iquest,60,Agrave,61,Aacute,62,Acirc,63,Atilde,64,Auml,65,Aring,66,AElig,67,Ccedil,'',
    ''68,Egrave,69,Eacute,6a,Ecirc,6b,Euml,6c,Igrave,6d,Iacute,6e,Icirc,6f,Iuml,6g,ETH,6h,Ntilde,'',
    ''6i,Ograve,6j,Oacute,6k,Ocirc,6l,Otilde,6m,Ouml,6n,times,6o,Oslash,6p,Ugrave,6q,Uacute,'',
    ''6r,Ucirc,6s,Uuml,6t,Yacute,6u,THORN,6v,szlig,70,agrave,71,aacute,72,acirc,73,atilde,74,auml,'',
    ''75,aring,76,aelig,77,ccedil,78,egrave,79,eacute,7a,ecirc,7b,euml,7c,igrave,7d,iacute,7e,icirc,'',
    ''7f,iuml,7g,eth,7h,ntilde,7i,ograve,7j,oacute,7k,ocirc,7l,otilde,7m,ouml,7n,divide,7o,oslash,'',
    ''7p,ugrave,7q,uacute,7r,ucirc,7s,uuml,7t,yacute,7u,thorn,7v,yuml,ci,fnof,sh,Alpha,si,Beta,'',
    ''sj,Gamma,sk,Delta,sl,Epsilon,sm,Zeta,sn,Eta,so,Theta,sp,Iota,sq,Kappa,sr,Lambda,ss,Mu,'',
    ''st,Nu,su,Xi,sv,Omicron,t0,Pi,t1,Rho,t3,Sigma,t4,Tau,t5,Upsilon,t6,Phi,t7,Chi,t8,Psi,'',
    ''t9,Omega,th,alpha,ti,beta,tj,gamma,tk,delta,tl,epsilon,tm,zeta,tn,eta,to,theta,tp,iota,'',
    ''tq,kappa,tr,lambda,ts,mu,tt,nu,tu,xi,tv,omicron,u0,pi,u1,rho,u2,sigmaf,u3,sigma,u4,tau,'',
    ''u5,upsilon,u6,phi,u7,chi,u8,psi,u9,omega,uh,thetasym,ui,upsih,um,piv,812,bull,816,hellip,'',
    ''81i,prime,81j,Prime,81u,oline,824,frasl,88o,weierp,88h,image,88s,real,892,trade,89l,alefsym,'',
    ''8cg,larr,8ch,uarr,8ci,rarr,8cj,darr,8ck,harr,8dl,crarr,8eg,lArr,8eh,uArr,8ei,rArr,8ej,dArr,'',
    ''8ek,hArr,8g0,forall,8g2,part,8g3,exist,8g5,empty,8g7,nabla,8g8,isin,8g9,notin,8gb,ni,8gf,prod,'',
    ''8gh,sum,8gi,minus,8gn,lowast,8gq,radic,8gt,prop,8gu,infin,8h0,ang,8h7,and,8h8,or,8h9,cap,8ha,cup,'',
    ''8hb,int,8hk,there4,8hs,sim,8i5,cong,8i8,asymp,8j0,ne,8j1,equiv,8j4,le,8j5,ge,8k2,sub,8k3,sup,8k4,'',
    ''nsub,8k6,sube,8k7,supe,8kl,oplus,8kn,otimes,8l5,perp,8m5,sdot,8o8,lceil,8o9,rceil,8oa,lfloor,8ob,'',
    ''rfloor,8p9,lang,8pa,rang,9ea,loz,9j0,spades,9j3,clubs,9j5,hearts,9j6,diams,ai,OElig,aj,oelig,b0,'',
    ''Scaron,b1,scaron,bo,Yuml,m6,circ,ms,tilde,802,ensp,803,emsp,809,thinsp,80c,zwnj,80d,zwj,80e,lrm,'',
    ''80f,rlm,80j,ndash,80k,mdash,80o,lsquo,80p,rsquo,80q,sbquo,80s,ldquo,80t,rdquo,80u,bdquo,810,dagger,'',
    ''811,Dagger,81g,permil,81p,lsaquo,81q,rsaquo,85c,euro'']"

definition named_items :: string where
  "named_items = concat named_lines"

definition namedEntities :: "ustring \<rightharpoonup> ustring" where
  "namedEntities = (case buildEntitiesLookup (js named_items) 32 of Some t \<Rightarrow> t | None \<Rightarrow> Map.empty)"

section \<open>Encoding\<close>

text \<open>The character classes of \<open>textCharsRegExp\<close>, \<open>attrsCharsRegExp\<close> and \<open>rawCharsRegExp\<close>.\<close>

definition is_high :: "code_unit \<Rightarrow> bool" where "is_high c \<longleftrightarrow> 0xD800 \<le> c \<and> c \<le> 0xDBFF"
definition is_low :: "code_unit \<Rightarrow> bool" where "is_low c \<longleftrightarrow> 0xDC00 \<le> c \<and> c \<le> 0xDFFF"

definition text_chars :: "code_unit \<Rightarrow> bool" where
  "text_chars c \<longleftrightarrow> c \<in> {0x3C, 0x3E, 0x26} \<or> (0x7E \<le> c \<and> c \<le> 0xD7FF) \<or> (0xE000 \<le> c \<and> c \<le> 0xFFEF)"

definition attrs_chars :: "code_unit \<Rightarrow> bool" where
  "attrs_chars c \<longleftrightarrow> c = 0x22 \<or> text_chars c"

definition raw_chars :: "code_unit \<Rightarrow> bool" where
  "raw_chars c \<longleftrightarrow> c \<in> {0x3C, 0x3E, 0x26, 0x22, 0x27}"

definition chars :: "bool \<Rightarrow> code_unit \<Rightarrow> bool" where
  "chars attr = (if attr then attrs_chars else text_chars)"

text \<open>\<open>text.replace(/[class]|[\uD800-\uDBFF][\uDC00-\uDFFF]/g, f)\<close>\<close>

fun replace_chars :: "(code_unit \<Rightarrow> bool) \<Rightarrow> (ustring \<Rightarrow> ustring) \<Rightarrow> ustring \<Rightarrow> ustring" where
  "replace_chars P f [] = []"
| "replace_chars P f [c] = (if P c then f [c] else [c])"
| "replace_chars P f (c # d # s) =
     (if P c then f [c] @ replace_chars P f (d # s)
      else if is_high c \<and> is_low d then f [c, d] @ replace_chars P f s
      else c # replace_chars P f (d # s))"

text \<open>\<open>text.replace(/[class]/g, f)\<close>\<close>

definition replace_class :: "(code_unit \<Rightarrow> bool) \<Rightarrow> (ustring \<Rightarrow> ustring) \<Rightarrow> ustring \<Rightarrow> ustring" where
  "replace_class P f s = concat (map (\<lambda>c. if P c then f [c] else [c]) s)"

text \<open>\<open>a || b\<close> on a table lookup; no table holds an empty string.\<close>

definition default :: "ustring option \<Rightarrow> ustring \<Rightarrow> ustring" where
  "default v d = (case v of Some x \<Rightarrow> if x = [] then d else x | None \<Rightarrow> d)"

definition numeric_entity :: "nat \<Rightarrow> ustring" where
  "numeric_entity n = js ''&#'' @ show_nat n @ js '';''"

definition encodeRaw :: "ustring \<Rightarrow> bool \<Rightarrow> ustring" where
  "encodeRaw text attr = replace_chars (chars attr) (\<lambda>chr. default (baseEntities chr) chr) text"

definition encodeAllRaw :: "ustring \<Rightarrow> ustring" where
  "encodeAllRaw text = replace_class raw_chars (\<lambda>chr. default (baseEntities chr) chr) text"

definition numeric_chr :: "ustring \<Rightarrow> ustring" where
  "numeric_chr chr =
     (case chr of
        c # d # _ \<Rightarrow> numeric_entity ((unat c - 0xD800) * 0x400 + (unat d - 0xDC00) + 0x10000)
      | [c] \<Rightarrow> default (baseEntities chr) (numeric_entity (unat c))
      | [] \<Rightarrow> [])"

definition encodeNumeric :: "ustring \<Rightarrow> bool \<Rightarrow> ustring" where
  "encodeNumeric text attr = replace_chars (chars attr) numeric_chr text"

definition encodeNamed :: "ustring \<Rightarrow> bool \<Rightarrow> (ustring \<rightharpoonup> ustring) option \<Rightarrow> ustring" where
  "encodeNamed text attr entities =
     (let ents = (case entities of Some e \<Rightarrow> e | None \<Rightarrow> namedEntities)
      in replace_chars (chars attr) (\<lambda>chr. default (baseEntities chr) (default (ents chr) chr)) text)"

definition encodeNamedAndNumeric :: "(ustring \<rightharpoonup> ustring) \<Rightarrow> ustring \<Rightarrow> bool \<Rightarrow> ustring" where
  "encodeNamedAndNumeric entities text attr =
     replace_chars (chars attr)
       (\<lambda>chr. default (baseEntities chr) (default (entities chr) (numeric_entity (unat (hd chr))))) text"

text \<open>\<open>getEncodeFunc\<close> picks the encoder by the names in its first argument.\<close>

definition getEncodeFunc :: "ustring \<Rightarrow> ustring \<Rightarrow> ustring \<Rightarrow> bool \<Rightarrow> ustring" where
  "getEncodeFunc name entities =
     (let ents = (case buildEntitiesLookup entities 10 of Some t \<Rightarrow> t | None \<Rightarrow> namedEntities);
          names = makeMap_str (map (\<lambda>c. if c = cu CHR ''+'' then cu CHR '','' else c) name) (cu CHR '','')
      in if has_prop names (js ''named'') \<and> has_prop names (js ''numeric'') then encodeNamedAndNumeric ents
         else if has_prop names (js ''named'') then (\<lambda>text attr. encodeNamed text attr (Some ents))
         else if has_prop names (js ''numeric'') then encodeNumeric
         else encodeRaw)"

section \<open>Decoding\<close>

definition is_word_char :: "code_unit \<Rightarrow> bool" where
  "is_word_char c \<longleftrightarrow> (0x30 \<le> c \<and> c \<le> 0x39) \<or> (0x41 \<le> c \<and> c \<le> 0x5A) \<or> (0x61 \<le> c \<and> c \<le> 0x7A) \<or> c = 0x5F"

text \<open>\<open>([\w]+);\<close> at the head of the string: the word and what follows the semicolon.\<close>

definition word_semi :: "ustring \<Rightarrow> (ustring \<times> ustring) option" where
  "word_semi s = (let w = takeWhile is_word_char s; r = dropWhile is_word_char s in
     case r of c # t \<Rightarrow> if w \<noteq> [] \<and> c = 0x3B then Some (w, t) else None | [] \<Rightarrow> None)"

text \<open>
  What follows the ampersand in \<open>&(#x|#)?([\w]+);\<close>: the first group (as its length), the second
  and the rest. The group backs off from \<open>#x\<close> to \<open>#\<close> when no word follows the \<open>x\<close>.
\<close>

definition entity_at :: "ustring \<Rightarrow> (nat \<times> ustring \<times> ustring) option" where
  "entity_at s =
     (case s of
        a # t \<Rightarrow>
          if a = 0x23 then
            (case (case t of b # u \<Rightarrow> if b = 0x78 then word_semi u else None | [] \<Rightarrow> None) of
               Some (w, r) \<Rightarrow> Some (2, w, r)
             | None \<Rightarrow> map_option (\<lambda>(w, r). (1, w, r)) (word_semi t))
          else map_option (\<lambda>(w, r). (0, w, r)) (word_semi s)
      | [] \<Rightarrow> None)"

text \<open>The replacement of one entity. A value above 0xFFFF becomes two code units.\<close>

definition decode_number :: "int option \<Rightarrow> ustring" where
  "decode_number v =
     (case v of
        Some n \<Rightarrow>
          if n > 0xFFFF then
            (let m = to_int32 (n - 0x10000)
             in [from_char_code (Some (0xD800 + m div 1024)), from_char_code (Some (0xDC00 + m mod 1024))])
          else (case (if n < 0 then None else asciiMap (nat n)) of
                  Some c \<Rightarrow> [c] | None \<Rightarrow> [from_char_code (Some n)])
      | None \<Rightarrow> [from_char_code None])"

definition decode_entity :: "(ustring \<Rightarrow> ustring) \<Rightarrow> nat \<Rightarrow> ustring \<Rightarrow> ustring" where
  "decode_entity nativeDecode numeric value =
     (if numeric \<noteq> 0 then decode_number (parse_int (if numeric = 2 then 16 else 10) value)
      else let all = js ''&'' @ value @ js '';''
           in default (reverseEntities all) (default (namedEntities all) (nativeDecode all)))"

lemma word_semi_shorter: "word_semi s = Some (w, r) \<Longrightarrow> length r < length s"
proof -
  assume "word_semi s = Some (w, r)"
  then have "dropWhile is_word_char s = 0x3B # r"
    by (auto simp: word_semi_def Let_def split: list.splits if_splits)
  then show ?thesis using length_dropWhile_le [of is_word_char s] by simp
qed

lemma entity_at_shorter: "entity_at s = Some (k, w, r) \<Longrightarrow> length r < length s"
  by (auto simp: entity_at_def dest!: word_semi_shorter split: list.splits if_splits option.splits)

function (sequential) decode :: "(ustring \<Rightarrow> ustring) \<Rightarrow> ustring \<Rightarrow> ustring" where
  "decode nativeDecode [] = []"
| "decode nativeDecode (c # s) =
     (if c = 0x26 then
        (case entity_at s of
           Some (numeric, value, rest) \<Rightarrow> decode_entity nativeDecode numeric value @ decode nativeDecode rest
         | None \<Rightarrow> c # decode nativeDecode s)
      else c # decode nativeDecode s)"
  by pat_completeness auto

termination decode
  by (relation "measure (\<lambda>(_, s). length s)") (auto dest!: entity_at_shorter)

end
