(* ===== verification/HtmlWriter.thy ===== *)
theory HtmlWriter
  imports Entities
begin

text \<open>
  The HTML writer of \<open>tinymce/js/tinymce/classes/html/Writer.js\<close>. Its state is the array of chunks
  \<open>html\<close> that \<open>getContent\<close> joins; its configuration, computed once by the constructor from the
  settings, is the record \<open>writer\<close>. An undefined chunk is joined as the empty string.
\<close>

section \<open>The writer\<close>

record writer_settings =
  st_indent :: bool
  st_indent_before :: ustring
  st_indent_after :: ustring
  st_entity_encoding :: ustring
  st_entities :: ustring
  st_element_format :: ustring

record writer =
  wr_indent :: bool
  wr_indentBefore :: "ustring \<rightharpoonup> unit"
  wr_indentAfter :: "ustring \<rightharpoonup> unit"
  wr_encode :: "ustring \<Rightarrow> bool \<Rightarrow> ustring"
  wr_htmlOutput :: bool

text \<open>
  \<open>new Writer(settings)\<close>; the empty string stands for a setting that is not given.
\<close>

definition Writer :: "writer_settings \<Rightarrow> writer" where
  "Writer settings = \<lparr>wr_indent = st_indent settings,
     wr_indentBefore = makeMap_str (st_indent_before settings) (cu CHR '',''),
     wr_indentAfter = makeMap_str (st_indent_after settings) (cu CHR '',''),
     wr_encode = getEncodeFunc (if st_entity_encoding settings = [] then js ''raw'' else st_entity_encoding settings)
                   (st_entities settings),
     wr_htmlOutput = (st_element_format settings = js ''html'')\<rparr>"

definition nl :: ustring where
  "nl = [0x0A]"

text \<open>
  \<open>if (html.length > 0) { value = html[html.length - 1]; if (value.length > 0 && value !== '\n')
  html.push('\n'); }\<close>
\<close>

definition push_nl :: "ustring list \<Rightarrow> ustring list" where
  "push_nl html = (case last_opt html of None \<Rightarrow> html
     | Some v \<Rightarrow> if v \<noteq> [] \<and> v \<noteq> nl then html @ [nl] else html)"

definition attr_chunks :: "writer \<Rightarrow> (ustring \<times> ustring) list \<Rightarrow> ustring list" where
  "attr_chunks w attrs =
     concat (map (\<lambda>(name, v). [js '' '', name, [0x3D, 0x22], wr_encode w v True, [0x22]]) attrs)"

definition start :: "writer \<Rightarrow> ustring \<Rightarrow> (ustring \<times> ustring) list option \<Rightarrow> bool \<Rightarrow> ustring list \<Rightarrow> ustring list" where
  "start w name attrs emp html =
     (let h1 = (if wr_indent w \<and> has_prop (wr_indentBefore w) name then push_nl html else html);
          h2 = h1 @ [js ''<'', name] @ (case attrs of None \<Rightarrow> [] | Some al \<Rightarrow> attr_chunks w al);
          h3 = h2 @ [if \<not> emp \<or> wr_htmlOutput w then js ''>'' else js '' />'']
      in if emp \<and> wr_indent w \<and> has_prop (wr_indentAfter w) name then push_nl h3 else h3)"

definition end_tag :: "writer \<Rightarrow> ustring \<Rightarrow> ustring list \<Rightarrow> ustring list" where
  "end_tag w name html =
     (let h1 = html @ [js ''</'', name, js ''>'']
      in if wr_indent w \<and> has_prop (wr_indentAfter w) name then push_nl h1 else h1)"

definition text_out :: "writer \<Rightarrow> ustring \<Rightarrow> bool \<Rightarrow> ustring list \<Rightarrow> ustring list" where
  "text_out w s raw html =
     (if length s > 0 then html @ [if raw then s else wr_encode w s False] else html)"

definition chunk :: "ustring option \<Rightarrow> ustring" where
  "chunk v = (case v of None \<Rightarrow> [] | Some s \<Rightarrow> s)"

definition cdata :: "ustring option \<Rightarrow> ustring list \<Rightarrow> ustring list" where
  "cdata v html = html @ [js ''<![CDATA['', chunk v, js '']]>'']"

definition comment :: "ustring option \<Rightarrow> ustring list \<Rightarrow> ustring list" where
  "comment v html = html @ [js ''<!--'', chunk v, js ''-->'']"

definition pi :: "writer \<Rightarrow> ustring \<Rightarrow> ustring option \<Rightarrow> ustring list \<Rightarrow> ustring list" where
  "pi w name v html =
     html @ (if chunk v \<noteq> [] then [js ''<?'', name, js '' '', chunk v, js ''?>''] else [js ''<?'', name, js ''?>''])
          @ (if wr_indent w then [nl] else [])"

definition doctype :: "writer \<Rightarrow> ustring option \<Rightarrow> ustring list \<Rightarrow> ustring list" where
  "doctype w v html = html @ [js ''<!DOCTYPE'', chunk v, js ''>'', if wr_indent w then nl else []]"

definition reset :: "ustring list \<Rightarrow> ustring list" where
  "reset html = []"

definition getContent :: "ustring list \<Rightarrow> ustring" where
  "getContent html = (let s = concat html in if last_opt s = Some 0x0A then butlast s else s)"

section \<open>Calls as events\<close>

text \<open>The calls a client makes on the writer.\<close>

datatype event =
    Start ustring "(ustring \<times> ustring) list option" bool
  | End ustring
  | Text ustring bool
  | CData "ustring option"
  | Comment "ustring option"
  | PI ustring "ustring option"
  | Doctype "ustring option"

fun emit :: "writer \<Rightarrow> event \<Rightarrow> ustring list \<Rightarrow> ustring list" where
  "emit w (Start name attrs emp) = start w name attrs emp"
| "emit w (End name) = end_tag w name"
| "emit w (Text s raw) = text_out w s raw"
| "emit w (CData v) = cdata v"
| "emit w (Comment v) = comment v"
| "emit w (PI name v) = pi w name v"
| "emit w (Doctype v) = doctype w v"

definition emit_all :: "writer \<Rightarrow> event list \<Rightarrow> ustring list \<Rightarrow> ustring list" where
  "emit_all w es html = fold (emit w) es html"

lemma emit_all_simps [simp]:
  "emit_all w [] html = html"
  "emit_all w (e # es) html = emit_all w es (emit w e html)"
  "emit_all w (es @ fs) html = emit_all w fs (emit_all w es html)"
  by (simp_all add: emit_all_def)

section \<open>What indentation changes\<close>

definition plain :: "writer \<Rightarrow> writer" where
  "plain w = w\<lparr>wr_indent := False\<rparr>"

lemma plain_sel [simp]:
  "\<not> wr_indent (plain w)" "wr_encode (plain w) = wr_encode w" "wr_htmlOutput (plain w) = wr_htmlOutput w"
  by (simp_all add: plain_def)

lemma plain_plain [simp]: "plain (plain w) = plain w"
  by (simp add: plain_def)

lemma attr_chunks_plain [simp]: "attr_chunks (plain w) = attr_chunks w"
  by (simp add: attr_chunks_def fun_eq_iff)

text \<open>The text of one event when there is no indentation.\<close>

definition render :: "writer \<Rightarrow> event \<Rightarrow> ustring" where
  "render w e = concat (emit (plain w) e [])"

lemma emit_plain_append: "emit (plain w) e html = html @ emit (plain w) e []"
  by (cases e) (simp_all add: start_def end_tag_def text_out_def cdata_def comment_def pi_def doctype_def Let_def)

lemma emit_all_plain: "concat (emit_all (plain w) es html) = concat html @ concat (map (render w) es)"
proof (induction es arbitrary: html)
  case (Cons e es)
  then show ?case by (simp add: render_def) (metis append_assoc concat_append emit_plain_append)
qed simp

text \<open>Indentation puts at most one line break before the text of a call, where the settings ask for one and the last chunk is not a line break
  already, and one after it.\<close>

definition breaks_before :: "writer \<Rightarrow> event \<Rightarrow> bool" where
  "breaks_before w e \<longleftrightarrow> wr_indent w \<and> (case e of Start name _ _ \<Rightarrow> has_prop (wr_indentBefore w) name | _ \<Rightarrow> False)"

definition breaks_after :: "writer \<Rightarrow> event \<Rightarrow> bool" where
  "breaks_after w e \<longleftrightarrow> wr_indent w
     \<and> (case e of Start name _ emp \<Rightarrow> emp \<and> has_prop (wr_indentAfter w) name | End name \<Rightarrow> has_prop (wr_indentAfter w) name
        | PI _ _ \<Rightarrow> True | Doctype _ \<Rightarrow> True | _ \<Rightarrow> False)"

definition break_if :: "bool \<Rightarrow> ustring" where
  "break_if b = (if b then nl else [])"

text \<open>\<open>s.replace(/\n$/, '')\<close>\<close>

definition without_last_break :: "ustring \<Rightarrow> ustring" where
  "without_last_break s = (if last_opt s = Some 0x0A then butlast s else s)"

lemma getContent_concat: "getContent html = without_last_break (concat html)"
  by (simp add: getContent_def without_last_break_def)

lemma break_if_simps [simp]: "break_if True = nl" "break_if False = []"
  by (simp_all add: break_if_def)

lemma push_nl_before: "\<exists>b. concat (push_nl html) = concat html @ break_if b"
  by (auto simp: push_nl_def break_if_def split: option.split)

lemma push_nl_after: "c \<noteq> [] \<Longrightarrow> c \<noteq> nl \<Longrightarrow> push_nl (html @ [c]) = html @ [c, nl]"
  by (simp add: push_nl_def)

lemma tag_ends: "js ''>'' \<noteq> []" "js ''>'' \<noteq> nl" "js '' />'' \<noteq> []" "js '' />'' \<noteq> nl"
  by (simp_all add: js_def nl_def)

lemma start_breaks:
  "\<exists>b. b \<le> breaks_before w (Start name attrs emp)
    \<and> concat (start w name attrs emp html) = concat html @ break_if b @ render w (Start name attrs emp) @ break_if (breaks_after w (Start name attrs emp))"
proof -
  let ?h = "if breaks_before w (Start name attrs emp) then push_nl html else html"
  let ?m = "[js ''<'', name] @ (case attrs of None \<Rightarrow> [] | Some al \<Rightarrow> attr_chunks w al)" and ?c = "if \<not> emp \<or> wr_htmlOutput w then js ''>'' else js '' />''"
  have out: "start w name attrs emp html = (?h @ ?m @ [?c]) @ (if breaks_after w (Start name attrs emp) then [nl] else [])"
  proof -
    have "?c \<noteq> []" "?c \<noteq> nl" using tag_ends by simp_all
    then have "push_nl ((?h @ ?m) @ [?c]) = (?h @ ?m) @ [?c, nl]" by (rule push_nl_after)
    then have "push_nl (?h @ ?m @ [?c]) = (?h @ ?m @ [?c]) @ [nl]" by (simp only: append_assoc append_Cons append_Nil)
    moreover have "start w name attrs emp html = (if breaks_after w (Start name attrs emp) then push_nl (?h @ ?m @ [?c]) else ?h @ ?m @ [?c])"
      by (simp add: start_def Let_def breaks_before_def breaks_after_def conj_commute conj_left_commute)
    ultimately show ?thesis by simp
  qed
  have r: "render w (Start name attrs emp) = concat (?m @ [?c])" by (simp add: render_def start_def cong: option.case_cong)
  obtain b where b: "b \<le> breaks_before w (Start name attrs emp)" "concat ?h = concat html @ break_if b"
    using push_nl_before [of html] by (cases "breaks_before w (Start name attrs emp)") (auto intro: exI [of _ False])
  show ?thesis using b unfolding out r by (intro exI [of _ b]) (simp add: break_if_def)
qed

lemma emit_breaks:
  "\<exists>b. b \<le> breaks_before w e \<and> concat (emit w e html) = concat html @ break_if b @ render w e @ break_if (breaks_after w e)"
proof (cases e)
  case (Start name attrs emp)
  then show ?thesis using start_breaks [of w name attrs emp html] by simp
next
  case (End name)
  have "push_nl (html @ [js ''</'', name, js ''>'']) = html @ [js ''</'', name, js ''>'', nl]" using push_nl_after [of "js ''>''" "html @ [js ''</'', name]"] tag_ends by simp
  then show ?thesis using End by (intro exI [of _ False]) (simp add: end_tag_def render_def breaks_after_def break_if_def Let_def)
qed (auto intro!: exI [of _ False] simp: text_out_def cdata_def comment_def pi_def doctype_def render_def breaks_after_def)

lemma emit_all_breaks:
  "\<exists>bs. list_all2 (\<le>) bs (map (breaks_before w) es)
    \<and> concat (emit_all w es []) = concat (map2 (\<lambda>b e. break_if b @ render w e @ break_if (breaks_after w e)) bs es)"
proof (induction es rule: rev_induct)
  case (snoc e es)
  then obtain bs where bs: "list_all2 (\<le>) bs (map (breaks_before w) es)"
    "concat (emit_all w es []) = concat (map2 (\<lambda>b e. break_if b @ render w e @ break_if (breaks_after w e)) bs es)" by blast
  obtain b where b: "b \<le> breaks_before w e"
    "concat (emit w e (emit_all w es [])) = concat (emit_all w es []) @ break_if b @ render w e @ break_if (breaks_after w e)"
    using emit_breaks [of w e "emit_all w es []"] by blast
  have "length bs = length es" using list_all2_lengthD [OF bs(1)] by simp
  then have "concat (emit_all w (es @ [e]) []) = concat (map2 (\<lambda>b e. break_if b @ render w e @ break_if (breaks_after w e)) (bs @ [b]) (es @ [e]))"
    using bs(2) b(2) by simp
  moreover have "list_all2 (\<le>) (bs @ [b]) (map (breaks_before w) (es @ [e]))" using bs(1) b(1) by (simp only: map_append list_all2_appendI list.map list.rel_inject list.rel_intros)
  ultimately show ?case by blast
qed simp

end
