(* ===== verification/HtmlSerializer.thy ===== *)
theory HtmlSerializer
  imports HtmlNodeProps HtmlWriter "HOL-Library.Multiset"
begin

text \<open>
  The serializer of \<open>tinymce/js/tinymce/classes/html/Serializer.js\<close>: it walks a node tree and
  calls the writer. The recursion follows the links of the store, so it is a partial function;
  None is a TypeError (a text node without a value, an element the schema has no rule for, an
  attribute whose value is an inherited function) or a walk that never ends. The schema enters by
  the one method the code calls, \<open>getElementRule\<close>, as the attribute order of an element.
\<close>

section \<open>The serializer\<close>

record serializer =
  sz_validate :: bool
  sz_inner :: bool
  sz_writer :: writer
  sz_rule :: "ustring \<Rightarrow> ustring list option"

text \<open>The two loops that sort the attributes: first the schema's order, then what is left.\<close>

fun sort_known :: "attrs \<Rightarrow> ustring list \<Rightarrow> (ustring \<times> ustring property) list \<Rightarrow> (ustring \<times> ustring property) list" where
  "sort_known attrs [] out = out"
| "sort_known attrs (attrName # order) out =
     sort_known attrs order
       (if has_prop (attr_map attrs) attrName
        then out @ [(attrName, get_prop (attr_map attrs) attrName)] else out)"

fun sort_rest :: "attrs \<Rightarrow> (ustring \<times> ustring) list \<Rightarrow> (ustring \<times> ustring property) list \<Rightarrow> (ustring \<times> ustring property) list" where
  "sort_rest attrs [] out = out"
| "sort_rest attrs ((attrName, v) # items) out =
     sort_rest attrs items
       (if \<not> has_prop (map_of out) attrName
        then out @ [(attrName, get_prop (attr_map attrs) attrName)] else out)"

text \<open>The writer encodes each value, which has to be a string.\<close>

fun string_values :: "(ustring \<times> ustring property) list \<Rightarrow> (ustring \<times> ustring) list option" where
  "string_values [] = Some []"
| "string_values ((name, v) # ps) =
     (case v of Own s \<Rightarrow> map_option ((#) (name, s)) (string_values ps) | _ \<Rightarrow> None)"

definition sort_attrs :: "ustring list \<Rightarrow> attrs \<Rightarrow> (ustring \<times> ustring) list option" where
  "sort_attrs order attrs = string_values (sort_rest attrs (attr_items attrs) (sort_known attrs order []))"

definition out_attrs :: "serializer \<Rightarrow> hnode \<Rightarrow> (ustring \<times> ustring) list option option" where
  "out_attrs sz n =
     (case nd_attributes n of
        None \<Rightarrow> Some None
      | Some attrs \<Rightarrow>
          if sz_validate sz \<and> length (attr_items attrs) > 1
          then do { order \<leftarrow> sz_rule sz (nd_name n); map_option Some (sort_attrs order attrs) }
          else Some (Some (attr_items attrs)))"

text \<open>The handlers of the node types that have no children to walk. The parser also makes texts whose type is the string \<open>'3'\<close>, written here
  with the code of the character: as a key of the handlers it is the same as the number.\<close>

abbreviation str_3 :: nat where
  "str_3 \<equiv> 51"

definition leaf_type :: "nat \<Rightarrow> bool" where
  "leaf_type t \<longleftrightarrow> t \<in> {3, str_3, 8, 7, 10, 4}"

definition leaf_event :: "hnode \<Rightarrow> event option" where
  "leaf_event n =
     (if nd_type n = 3 \<or> nd_type n = str_3 then map_option (\<lambda>v. Text v (nd_raw n)) (nd_value n)
      else if nd_type n = 8 then Some (Comment (nd_value n))
      else if nd_type n = 7 then Some (PI (nd_name n) (nd_value n))
      else if nd_type n = 10 then Some (Doctype (nd_value n))
      else Some (CData (nd_value n)))"

definition leaf_handler :: "serializer \<Rightarrow> hnode \<Rightarrow> ustring list \<Rightarrow> ustring list option" where
  "leaf_handler sz n html = map_option (\<lambda>e. emit (sz_writer sz) e html) (leaf_event n)"

text \<open>
  \<open>do { walk(node); } while ((node = node.next));\<close> with the body of \<open>walk\<close> written out.
\<close>

partial_function (option) walk_list ::
    "serializer \<Rightarrow> nheap \<Rightarrow> addr option \<Rightarrow> ustring list \<Rightarrow> ustring list option" where
  "walk_list sz h cur html =
     (case cur of
        None \<Rightarrow> Some html
      | Some node \<Rightarrow> do {
          n \<leftarrow> h node;
          html1 \<leftarrow>
            (if leaf_type (nd_type n) then leaf_handler sz n html
             else if nd_type n = 11 then walk_list sz h (nd_firstChild n) html
             else do {
               attrs \<leftarrow> out_attrs sz n;
               if nd_shortEnded n then Some (emit (sz_writer sz) (Start (nd_name n) attrs True) html)
               else do {
                 html2 \<leftarrow> walk_list sz h (nd_firstChild n)
                           (emit (sz_writer sz) (Start (nd_name n) attrs False) html);
                 Some (emit (sz_writer sz) (End (nd_name n)) html2)
               }
             });
          walk_list sz h (nd_next n) html1
        })"

definition walk_node :: "serializer \<Rightarrow> nheap \<Rightarrow> hnode \<Rightarrow> ustring list \<Rightarrow> ustring list option" where
  "walk_node sz h n html =
     (if leaf_type (nd_type n) then leaf_handler sz n html
      else if nd_type n = 11 then walk_list sz h (nd_firstChild n) html
      else do {
        attrs \<leftarrow> out_attrs sz n;
        if nd_shortEnded n then Some (emit (sz_writer sz) (Start (nd_name n) attrs True) html)
        else do {
          html2 \<leftarrow> walk_list sz h (nd_firstChild n)
                    (emit (sz_writer sz) (Start (nd_name n) attrs False) html);
          Some (emit (sz_writer sz) (End (nd_name n)) html2)
        }
      })"

definition serialize :: "serializer \<Rightarrow> nheap \<Rightarrow> addr \<Rightarrow> ustring list \<Rightarrow> ustring option" where
  "serialize sz h node html = do {
     n \<leftarrow> h node;
     html1 \<leftarrow> (if nd_type n = 1 \<and> \<not> sz_inner sz then walk_node sz h n (reset html)
                else walk_list sz h (nd_firstChild n) (reset html));
     Some (getContent html1)
   }"

lemma walk_list_None [simp]: "walk_list sz h None html = Some html"
  by (subst walk_list.simps) simp

lemma walk_list_Some:
  "h x = Some n \<Longrightarrow> walk_list sz h (Some x) html =
     do { html1 \<leftarrow> walk_node sz h n html; walk_list sz h (nd_next n) html1 }"
  by (subst walk_list.simps) (simp add: walk_node_def)

section \<open>The events of a tree\<close>

text \<open>
  What the serializer says to the writer, as a function of the tree: the reference the code is
  compared with.
\<close>

fun tree_events :: "serializer \<Rightarrow> nheap \<Rightarrow> tree \<Rightarrow> event list option" where
  "tree_events sz h (T x ts) = do {
     n \<leftarrow> h x;
     if leaf_type (nd_type n) then map_option (\<lambda>e. [e]) (leaf_event n)
     else if nd_type n = 11 then map_option concat (those (map (tree_events sz h) ts))
     else do {
       attrs \<leftarrow> out_attrs sz n;
       if nd_shortEnded n then Some [Start (nd_name n) attrs True]
       else do {
         es \<leftarrow> those (map (tree_events sz h) ts);
         Some (Start (nd_name n) attrs False # concat es @ [End (nd_name n)])
       }
     }
   }"

definition forest_events :: "serializer \<Rightarrow> nheap \<Rightarrow> tree list \<Rightarrow> event list option" where
  "forest_events sz h ts = map_option concat (those (map (tree_events sz h) ts))"

lemma forest_events_simps:
  "forest_events sz h [] = Some []"
  "forest_events sz h (t # ts) =
     do { es \<leftarrow> tree_events sz h t; fs \<leftarrow> forest_events sz h ts; Some (es @ fs) }"
  by (cases "those (map (tree_events sz h) ts)"; auto simp: forest_events_def split: option.splits)+

definition written :: "serializer \<Rightarrow> event list option \<Rightarrow> ustring list \<Rightarrow> ustring list option" where
  "written sz es html = map_option (\<lambda>es. emit_all (sz_writer sz) es html) es"

lemma written_Some [simp]: "written sz (Some es) html = Some (emit_all (sz_writer sz) es html)"
  by (simp add: written_def)

lemma written_None [simp]: "written sz None html = None"
  by (simp add: written_def)

lemma walk_forest:
  assumes wf: "wf_heap h ch" and ch: "ch p = pre @ map troot us"
    and sub: "\<And>t n html. t \<in> set us \<Longrightarrow> h (troot t) = Some n \<Longrightarrow>
       walk_node sz h n html = written sz (tree_events sz h t) html"
  shows "walk_list sz h (hd_opt (map troot us)) html = written sz (forest_events sz h us) html"
  using sub ch
proof (induction us arbitrary: pre html)
  case Nil
  then show ?case by (simp add: forest_events_simps)
next
  case (Cons t us)
  obtain n where n: "h (troot t) = Some n" "nd_next n = hd_opt (map troot us)"
    using wf_heap_childE [OF wf, of p pre "troot t" "map troot us"] Cons.prems(2) by auto
  have IH: "walk_list sz h (hd_opt (map troot us)) html = written sz (forest_events sz h us) html" for html
    by (rule Cons.IH [of "pre @ [troot t]"]) (use Cons.prems in auto)
  have "walk_node sz h n html = written sz (tree_events sz h t) html"
    using Cons.prems(1) n by simp
  with n IH show ?case
    by (cases "tree_events sz h t"; cases "forest_events sz h us")
       (simp_all add: walk_list_Some forest_events_simps)
qed

lemma walk_node_tree:
  assumes wf: "wf_heap h ch"
  shows "tree_in ch t \<Longrightarrow> h (troot t) = Some n \<Longrightarrow>
    walk_node sz h n html = written sz (tree_events sz h t) html"
proof (induction t arbitrary: n html)
  case (T x ts)
  have x: "h x = Some n" "ch x = map troot ts" using T.prems by simp_all
  have "x \<in> dom h" using x by auto
  from wf_heap_node [OF wf this] have fc: "nd_firstChild n = hd_opt (map troot ts)" using x by auto
  have kids: "walk_list sz h (nd_firstChild n) html = written sz (forest_events sz h ts) html" for html
    unfolding fc using walk_forest [OF wf, of x "[]" ts sz html] x T.IH T.prems by simp
  show ?case
  proof (cases "leaf_type (nd_type n) \<or> nd_type n = 11")
    case True
    then show ?thesis
      using x kids by (cases "leaf_event n") (auto simp: walk_node_def leaf_handler_def forest_events_def written_def leaf_type_def)
  next
    case False
    then show ?thesis
      using x kids
      by (cases "out_attrs sz n"; cases "those (map (tree_events sz h) ts)")
         (auto simp: walk_node_def forest_events_def written_def)
  qed
qed

section \<open>The order of the attributes\<close>

text \<open>The attributes in the schema's order, then the others in theirs.\<close>

definition in_order :: "ustring list \<Rightarrow> attrs \<Rightarrow> (ustring \<times> ustring) list" where
  "in_order order a = [(n, v). n \<leftarrow> order, (m, v) \<leftarrow> attr_items a, m = n]
     @ filter (\<lambda>(n, v). n \<notin> set order) (attr_items a)"

definition plain_names :: "ustring list \<Rightarrow> bool" where
  "plain_names ns \<longleftrightarrow> set ns \<inter> set proto_keys = {}"

lemma string_values_Own: "string_values (map (\<lambda>(n, v). (n, Own v)) xs) = Some xs"
  by (induction xs) auto

lemma sort_known_map: "sort_known a order out =
    out @ map (\<lambda>n. (n, get_prop (attr_map a) n)) (filter (has_prop (attr_map a)) order)"
  by (induction a order out rule: sort_known.induct) auto

lemma lookup_list:
  "distinct (map fst xs) \<Longrightarrow> concat (map (\<lambda>(m, v). if m = n then [(n, v)] else []) xs) =
     (case map_of xs n of None \<Rightarrow> [] | Some v \<Rightarrow> [(n, v)])"
proof (induction xs)
  case (Cons p xs)
  obtain m v where p: "p = (m, v)" by (cases p)
  show ?case
  proof (cases "m = n")
    case True
    then have "map_of xs n = None" using Cons.prems p by (simp add: map_of_eq_None_iff)
    with Cons p True show ?thesis by simp
  qed (use Cons p in auto)
qed simp

lemma sort_known_spec:
  assumes "coherent a" and "plain_names order"
  shows "sort_known a order [] = map (\<lambda>(n, v). (n, Own v)) [(n, v). n \<leftarrow> order, (m, v) \<leftarrow> attr_items a, m = n]"
proof -
  have d: "distinct (map fst (attr_items a))" "attr_map a = map_of (attr_items a)"
    using assms(1) by (auto simp: coherent_def)
  show ?thesis
    using assms(2) unfolding sort_known_map append_Nil
  proof (induction order)
    case (Cons n order)
    have n: "n \<notin> set proto_keys" using Cons.prems by (simp add: plain_names_def)
    have "plain_names order" using Cons.prems by (simp add: plain_names_def)
    note IH = Cons.IH [OF this]
    show ?case
      using IH n d(2) by (cases "map_of (attr_items a) n")
        (simp_all add: lookup_list [OF d(1)] has_prop_def get_prop_def)
  qed simp
qed

lemma sort_rest_spec:
  "distinct (map fst items) \<Longrightarrow> plain_names (map fst items) \<Longrightarrow>
   \<forall>(n, v)\<in>set items. attr_map a n = Some v \<Longrightarrow>
   sort_rest a items out = out @ map (\<lambda>(n, v). (n, Own v)) (filter (\<lambda>(n, v). n \<notin> fst ` set out) items)"
proof (induction a items out rule: sort_rest.induct)
  case (2 a n v items out)
  have pl: "n \<notin> set proto_keys" and m: "attr_map a n = Some v" and nd: "n \<notin> fst ` set items"
    using "2.prems" by (auto simp: plain_names_def)
  have h: "has_prop (map_of out) n \<longleftrightarrow> n \<in> fst ` set out"
    using pl by (simp add: has_prop_def) (metis map_of_eq_None_iff option.distinct(1) option.exhaust)
  have "filter (\<lambda>(k, v). k \<notin> fst ` set (out @ [(n, w)])) items = filter (\<lambda>(k, v). k \<notin> fst ` set out) items" for w
    using nd by (intro filter_cong) (auto simp: image_iff)
  then show ?case
    using 2 h m by (cases "n \<in> fst ` set out") (auto simp: plain_names_def get_prop_def)
qed simp

lemma sort_attrs_spec:
  assumes "coherent a" and "plain_names order" and "plain_names (map fst (attr_items a))"
  shows "sort_attrs order a = Some (in_order order a)"
proof -
  let ?k = "[(n, v). n \<leftarrow> order, (m, v) \<leftarrow> attr_items a, m = n]"
  have d: "distinct (map fst (attr_items a))" "attr_map a = map_of (attr_items a)"
    using assms(1) by (auto simp: coherent_def)
  have "n \<notin> fst ` set (map (\<lambda>(n, v). (n, Own v)) ?k) \<longleftrightarrow> n \<notin> set order" if "(n, v) \<in> set (attr_items a)" for n v
    using that by (force simp: image_iff)
  then have f: "filter (\<lambda>(n, v). n \<notin> fst ` set (map (\<lambda>(n, v). (n, Own v)) ?k)) (attr_items a) =
      filter (\<lambda>(n, v). n \<notin> set order) (attr_items a)"
    by (intro filter_cong) auto
  have "sort_rest a (attr_items a) (sort_known a order []) = map (\<lambda>(n, v). (n, Own v)) (in_order order a)"
    using sort_rest_spec [OF d(1) assms(3), of a "map (\<lambda>(n, v). (n, Own v)) ?k"] d(1)
    unfolding sort_known_spec [OF assms(1,2)] f by (simp add: in_order_def d(2))
  then show ?thesis by (simp add: sort_attrs_def string_values_Own)
qed

lemma mset_in_order:
  assumes d: "distinct (map fst (attr_items a))" and "distinct order"
  shows "mset (in_order order a) = mset (attr_items a)"
proof -
  have dn: "distinct (attr_items a)" using d by (simp add: distinct_map)
  have k: "map fst [(n, v). n \<leftarrow> ns, (m, v) \<leftarrow> attr_items a, m = n] =
      filter (\<lambda>n. map_of (attr_items a) n \<noteq> None) ns" for ns
    by (induction ns) (auto simp: lookup_list [OF d] split: option.splits)
  have f: "distinct (map fst (filter P (attr_items a)))" for P using d by (rule distinct_map_filter)
  have "distinct (map fst (in_order order a))"
    unfolding in_order_def map_append k using assms(2) f by auto
  then have "distinct (in_order order a)" by (simp add: distinct_map)
  moreover have "set (in_order order a) = set (attr_items a)"
    by (auto simp: in_order_def)
  ultimately show ?thesis using dn by (simp add: set_eq_iff_mset_eq_distinct)
qed


section \<open>Properties\<close>

text \<open>C1. On every well-formed tree the serializer ends, and its output is what the writer makes of
  the events of the tree in document order; it raises exactly where the event of a node does not
  exist (a text without a value, an element without a rule, a value that is no string).\<close>

theorem serialize_tree:
  assumes "wf_heap h ch" and "tree_in ch (T r ts)" and "h r = Some n"
  shows "serialize sz h r html =
    map_option (\<lambda>es. getContent (emit_all (sz_writer sz) es []))
      (if nd_type n = 1 \<and> \<not> sz_inner sz then tree_events sz h (T r ts) else forest_events sz h ts)"
proof -
  have node: "walk_node sz h m html' = written sz (tree_events sz h t) html'"
    if "tree_in ch t" "h (troot t) = Some m" for t m html' using walk_node_tree [OF assms(1) that] .
  have chr: "ch r = map troot ts" using assms(2) by simp
  have "r \<in> dom h" using assms(3) by auto
  from wf_heap_node [OF assms(1) this] have "nd_firstChild n = hd_opt (map troot ts)"
    using assms(3) chr by auto
  moreover have "walk_list sz h (hd_opt (map troot ts)) [] = written sz (forest_events sz h ts) []"
    by (rule walk_forest [OF assms(1), of r "[]"]) (use chr node assms(2) in auto)
  ultimately show ?thesis
    using node [OF assms(2), of n "[]"] assms(3)
    by (auto simp: serialize_def reset_def written_def map_option_case split: option.splits simp del: tree_events.simps)
qed

definition raw_writer :: writer where
  "raw_writer = \<lparr>wr_indent = False, wr_indentBefore = Map.empty, wr_indentAfter = Map.empty,
     wr_encode = encodeRaw, wr_htmlOutput = False\<rparr>"

definition plain_serializer :: serializer where
  "plain_serializer = \<lparr>sz_validate = False, sz_inner = False, sz_writer = raw_writer, sz_rule = (\<lambda>_. None)\<rparr>"

theorem serialize_tree_witness: "serialize plain_serializer demo 1 [] = Some (js ''<p><b><i></i></b>text</p>'')"
proof -
  have n: "demo 1 = Some ((Node (js ''p'') 1)\<lparr>nd_firstChild := Some 2, nd_lastChild := Some 3\<rparr>)"
    by (simp add: demo_def)
  show ?thesis
    unfolding serialize_tree [OF wf_demo tree_demo n]
    by (simp add: demo_def Node_def plain_serializer_def raw_writer_def leaf_type_def leaf_event_def out_attrs_def
        empty_attrs_def emit_all_def start_def end_tag_def text_out_def attr_chunks_def getContent_def encodeRaw_def
        chars_def text_chars_def is_high_def is_low_def last_opt_def js_def)
qed

text \<open>Sorting the attributes for output loses and invents none: it is a permutation that puts
  the attributes the schema orders first, in the schema's order, and keeps the others in theirs.\<close>

lemma sort_attrs_permutes:
  assumes "coherent a" and "plain_names order" and "plain_names (map fst (attr_items a))" and "distinct order"
  shows "\<exists>out. sort_attrs order a = Some out \<and> out = in_order order a \<and> mset out = mset (attr_items a)"
  using sort_attrs_spec [OF assms(1-3)] mset_in_order [OF _ assms(4)] assms(1) by (simp add: coherent_def)


text \<open>C37. Indentation only adds line breaks between the texts of the calls: for any sequence of calls the content with indentation is, apart from the line break
  that \<open>getContent\<close> drops at the end, the texts of the calls one after the other, each of them whole, with at most one line break before the text of a
  call, only at the start of an element of \<open>indent_before\<close>, and one after it, exactly after the end of an element of \<open>indent_after\<close>, a processing
  instruction or a document type; without indentation it is just the texts of the calls, apart from the same line break.\<close>

theorem indent_only_line_breaks:
  "(\<exists>bs. list_all2 (\<le>) bs (map (breaks_before w) es)
     \<and> getContent (emit_all w es []) = without_last_break (concat (map2 (\<lambda>b e. break_if b @ render w e @ break_if (breaks_after w e)) bs es)))
   \<and> getContent (emit_all (plain w) es []) = without_last_break (concat (map (render w) es))"
  using emit_all_breaks [of w es] emit_all_plain [of w es "[]"] by (auto simp: getContent_concat)

end
