(* ===== verification/EntityCodec.thy ===== *)
theory EntityCodec
  imports Entities
begin

text \<open>
  Decoding undoes encoding (\<open>html/Entities.js\<close>). The contract of an encoder that the decoder can
  undo is the locale \<open>entity_encoder\<close>; the raw and the numeric encoder are its instances here, the
  named one in \<open>EntityNames\<close>.
\<close>

section \<open>Decoding one entity\<close>

lemma decode_word:
  assumes w: "w \<noteq> []" "list_all is_word_char w"
  shows "decode nd (js ''&'' @ w @ js '';'' @ s) = decode_entity nd 0 w @ decode nd s"
proof -
  have n: "\<not> is_word_char 0x3B" "\<not> is_word_char 0x23" by (simp_all add: is_word_char_def)
  have tw: "takeWhile is_word_char (w @ 0x3B # s) = w" "dropWhile is_word_char (w @ 0x3B # s) = 0x3B # s"
    using w(2) n by (auto simp: takeWhile_append2 dropWhile_append2 list_all_iff)
  then have ws: "word_semi (w @ 0x3B # s) = Some (w, s)" using w by (simp add: word_semi_def)
  obtain a t where at: "w = a # t" "a \<noteq> 0x23" using w n by (cases w) auto
  have "entity_at (w @ 0x3B # s) = Some (0, w, s)"
    using ws at by (simp add: entity_at_def)
  then show ?thesis by (simp add: js_def)
qed

lemma digit_word: "is_digit 10 c \<Longrightarrow> is_word_char c \<and> c \<noteq> 0x78"
  by (auto simp: is_digit_def digit_val_def is_word_char_def Let_def word_le_nat_alt split: if_splits)

lemma decode_numeric: "decode nd (numeric_entity n @ s) = decode_number (Some (int n)) @ decode nd s"
proof -
  have dig: "is_digit 10 c" if "c \<in> set (show_nat n)" for c
    using show_radix_digits [of 10 c n] that by (simp add: show_nat_def)
  then have w: "list_all is_word_char (show_nat n)" using digit_word by (auto simp: list_all_iff)
  have ne: "show_nat n \<noteq> []" by (simp add: show_nat_def)
  obtain b u where bu: "show_nat n = b # u" "b \<noteq> 0x78"
    using dig digit_word ne by (cases "show_nat n") auto
  have n: "\<not> is_word_char 0x3B" by (simp add: is_word_char_def)
  have "word_semi (show_nat n @ 0x3B # s) = Some (show_nat n, s)"
    using w n ne by (auto simp: word_semi_def takeWhile_append2 dropWhile_append2 list_all_iff)
  then have "entity_at (0x23 # show_nat n @ 0x3B # s) = Some (1, show_nat n, s)"
    using bu by (simp add: entity_at_def)
  then show ?thesis by (simp add: numeric_entity_def js_def decode_entity_def)
qed

lemma decode_plain: "c \<noteq> 0x26 \<Longrightarrow> decode nd (c # s) = c # decode nd s"
  by simp

section \<open>The contract of an encoder\<close>

text \<open>
  An encoder replaces the characters of a class, and pairs of surrogates, by a text. It can be
  undone when the class has the ampersand and decoding each replacement in front of any text
  gives the character back; \<open>ok\<close> singles out the characters for which this is so.
\<close>

locale entity_encoder =
  fixes nd :: "ustring \<Rightarrow> ustring" and P :: "code_unit \<Rightarrow> bool"
    and f :: "ustring \<Rightarrow> ustring" and ok :: "code_unit \<Rightarrow> bool"
  assumes amp: "P 0x26"
    and single: "P c \<Longrightarrow> ok c \<Longrightarrow> decode nd (f [c] @ s) = c # decode nd s"
    and pair: "is_high c \<Longrightarrow> is_low d \<Longrightarrow> decode nd (f [c, d] @ s) = c # d # decode nd s"
begin

lemma decode_replace: "list_all ok s \<Longrightarrow> decode nd (replace_chars P f s) = s"
proof (induction s rule: induct_list012)
  case (2 c)
  then show ?case using single [of c "[]"] decode_plain [of c] amp by (cases "P c") auto
next
  case (3 c d s)
  show ?case
  proof (cases "P c")
    case True
    with 3 show ?thesis by (simp add: single del: decode.simps)
  next
    case False
    then have "c \<noteq> 0x26" using amp by auto
    with 3 False show ?thesis by (simp add: pair del: decode.simps add: decode_plain)
  qed
qed simp

end


section \<open>The encoders\<close>

lemma base_lookup:
  "baseEntities [0x26] = Some (js ''&amp;'')" "baseEntities [0x3C] = Some (js ''&lt;'')"
  "baseEntities [0x3E] = Some (js ''&gt;'')" "baseEntities [0x22] = Some (js ''&quot;'')"
  "baseEntities [0x27] = Some (js ''&#39;'')"
  by (simp_all add: baseEntities_def js_def)

lemma base_other: "c \<notin> {0x26, 0x3C, 0x3E, 0x22, 0x27} \<Longrightarrow> baseEntities [c] = None"
  "baseEntities (c # d # s) = None"
  by (auto simp: baseEntities_def js_def)

lemma decode_base:
  assumes "baseEntities [c] = Some e"
  shows "decode nd (e @ s) = c # decode nd s" and "e \<noteq> []"
proof -
  have w: "list_all is_word_char (js ''amp'')" "list_all is_word_char (js ''lt'')"
    "list_all is_word_char (js ''gt'')" "list_all is_word_char (js ''quot'')"
    by (simp_all add: js_def is_word_char_def)
  have r: "decode_entity nd 0 (js ''amp'') = [0x26]" "decode_entity nd 0 (js ''lt'') = [0x3C]"
     "decode_entity nd 0 (js ''gt'') = [0x3E]" "decode_entity nd 0 (js ''quot'') = [0x22]"
    by (simp_all add: decode_entity_def js_append [symmetric] reverseEntities_def default_def) (simp_all add: js_def)
  have a: "decode nd (js ''&#39;'' @ s) = 0x27 # decode nd s"
    using decode_numeric [of nd 39 s]
    by (simp add: numeric_entity_def show_nat_def show_radix.simps digit_chr_def decode_number_def
        asciiMap_def from_char_code_def js_def)
  have split: "js ''&amp;'' @ s = js ''&'' @ js ''amp'' @ js '';'' @ s" "js ''&lt;'' @ s = js ''&'' @ js ''lt'' @ js '';'' @ s"
    "js ''&gt;'' @ s = js ''&'' @ js ''gt'' @ js '';'' @ s" "js ''&quot;'' @ s = js ''&'' @ js ''quot'' @ js '';'' @ s"
    by (simp_all add: js_def)
  from assms have "c \<in> {0x26, 0x3C, 0x3E, 0x22, 0x27}" using base_other(1) by force
  with assms show "decode nd (e @ s) = c # decode nd s"
    by (auto simp: base_lookup split a decode_word w r simp del: decode.simps)
  from assms \<open>c \<in> _\<close> show "e \<noteq> []" by (auto simp: base_lookup)
qed

lemma chars_amp: "chars attr 0x26"
  by (simp add: chars_def attrs_chars_def text_chars_def)

lemma is_high_not_amp: "is_high c \<Longrightarrow> c \<noteq> 0x26" "is_low c \<Longrightarrow> c \<noteq> 0x26"
  by (auto simp: is_high_def is_low_def)

lemma chars_not_base: "chars attr c \<Longrightarrow> baseEntities [c] = None \<Longrightarrow> c \<noteq> 0x26"
  by (auto simp: base_lookup)

interpretation raw: entity_encoder nd "chars attr" "\<lambda>chr. default (baseEntities chr) chr" "\<lambda>_. True"
proof
  show "chars attr 0x26" by (rule chars_amp)
  fix c s
  show "decode nd (default (baseEntities [c]) [c] @ s) = c # decode nd s" if "chars attr c"
    using decode_base(1) [of c _ nd s] decode_base(2) [of c] chars_not_base [OF that] decode_plain [of c nd s]
    by (cases "baseEntities [c]") (auto simp: default_def simp del: decode.simps)
  fix d
  show "decode nd (default (baseEntities [c, d]) [c, d] @ s) = c # d # decode nd s"
    if "is_high c" "is_low d"
    using is_high_not_amp that by (simp add: base_other default_def)
qed

text \<open>A numeric entity gives its code unit back, except for the codes the decoder remaps.\<close>

definition kept :: "code_unit \<Rightarrow> bool" where
  "kept c \<longleftrightarrow> asciiMap (unat c) = None"

lemma decode_unit: "kept c \<Longrightarrow> decode_number (Some (int (unat c))) = [c]"
proof -
  assume "kept c"
  moreover have "\<not> uint c > 0xFFFF" using unsigned_less [of c, where 'a = int] by simp
  ultimately show ?thesis by (simp add: decode_number_def kept_def from_char_code_def)
qed

lemma decode_surrogates:
  assumes "is_high c" "is_low d"
  shows "decode_number (Some (int ((unat c - 0xD800) * 0x400 + (unat d - 0xDC00) + 0x10000))) = [c, d]"
proof -
  let ?a = "unat c - 0xD800" and ?b = "unat d - 0xDC00"
  have c: "0xD800 \<le> unat c" "unat c \<le> 0xDBFF" and d: "0xDC00 \<le> unat d" "unat d \<le> 0xDFFF"
    using assms by (auto simp: is_high_def is_low_def word_le_nat_alt)
  then have a: "?a < 1024" and b: "?b < 1024" by auto
  have i: "int (?a * 0x400 + ?b + 0x10000) - 0x10000 = int (?a * 1024 + ?b)" by simp
  have t: "to_int32 (int (?a * 1024 + ?b)) = int (?a * 1024 + ?b)"
    using a b by (intro to_int32_small) auto
  have dm: "int (?a * 1024 + ?b) div 1024 = int ?a" "int (?a * 1024 + ?b) mod 1024 = int ?b"
    using b by (simp_all only: of_nat_add of_nat_mult) simp_all
  have "word_of_int (0xD800 + int ?a) = c" "word_of_int (0xDC00 + int ?b) = d"
    using c d by (simp_all add: of_nat_diff)
  then show ?thesis using i t dm by (simp add: decode_number_def Let_def from_char_code_def)
qed

interpretation numeric: entity_encoder nd "chars attr" numeric_chr kept
proof
  show "chars attr 0x26" by (rule chars_amp)
  fix c s
  show "decode nd (numeric_chr [c] @ s) = c # decode nd s" if "chars attr c" "kept c"
    using decode_base(1) [of c _ nd s] decode_base(2) [of c] decode_numeric [of nd "unat c" s] decode_unit [OF that(2)]
    by (cases "baseEntities [c]") (auto simp: numeric_chr_def default_def simp del: decode.simps)
  fix d
  show "decode nd (numeric_chr [c, d] @ s) = c # d # decode nd s" if "is_high c" "is_low d"
    using decode_numeric [of nd _ s] decode_surrogates [OF that]
    by (simp add: numeric_chr_def del: decode.simps)
qed

end
