(* ===== verification/EntityTable.thy ===== *)
theory EntityTable
  imports Entities
begin

text \<open>
  What is checked of the built-in entity table of \<open>html/Entities.js\<close>: its packed string is the
  comma separated list of the pairs below, the names are made of word characters, are pairwise
  distinct and are none of the five base names.
\<close>

section \<open>The built-in table\<close>

fun char_bits :: "char \<Rightarrow> bool list" where
  "char_bits (Char b0 b1 b2 b3 b4 b5 b6 b7) = [b0, b1, b2, b3, b4, b5, b6, b7]"

text \<open>Distinctness of many strings, by splitting on one bit after the other.\<close>

fun trie_distinct :: "nat \<Rightarrow> bool list list \<Rightarrow> bool" where
  "trie_distinct n [] = True"
| "trie_distinct n [x] = True"
| "trie_distinct 0 (x # y # xs) = False"
| "trie_distinct (Suc n) (x # y # xs) =
     (length (filter (\<lambda>l. l = []) (x # y # xs)) \<le> 1
      \<and> trie_distinct n (map tl (filter (\<lambda>l. l \<noteq> [] \<and> hd l) (x # y # xs)))
      \<and> trie_distinct n (map tl (filter (\<lambda>l. l \<noteq> [] \<and> \<not> hd l) (x # y # xs))))"

fun pairs_of :: "'a list \<Rightarrow> ('a \<times> 'a) list" where
  "pairs_of (code # name # items) = (code, name) # pairs_of items"
| "pairs_of _ = []"

fun word_char :: "char \<Rightarrow> bool" where
  "word_char (Char b0 b1 b2 b3 b4 b5 b6 b7) \<longleftrightarrow> \<not> b7 \<and>
     (b6 \<and> (b0 \<or> b1 \<or> b2 \<or> b3 \<or> b4) \<and> \<not> (b4 \<and> b3 \<and> (b2 \<or> b1 \<and> b0))
      \<or> \<not> b6 \<and> b5 \<and> b4 \<and> \<not> (b3 \<and> (b2 \<or> b1)))"

definition named_pairs :: "(string \<times> string) list" where
  "named_pairs =
   [(''50'', ''nbsp''), (''51'', ''iexcl''), (''52'', ''cent''), (''53'', ''pound''), (''54'',
    ''curren''), (''55'', ''yen''), (''56'', ''brvbar''), (''57'', ''sect''), (''58'', ''uml''),
    (''59'', ''copy''), (''5a'', ''ordf''), (''5b'', ''laquo''), (''5c'', ''not''), (''5d'',
    ''shy''), (''5e'', ''reg''), (''5f'', ''macr''), (''5g'', ''deg''), (''5h'', ''plusmn''),
    (''5i'', ''sup2''), (''5j'', ''sup3''), (''5k'', ''acute''), (''5l'', ''micro''), (''5m'',
    ''para''), (''5n'', ''middot''), (''5o'', ''cedil''), (''5p'', ''sup1''), (''5q'', ''ordm''),
    (''5r'', ''raquo''), (''5s'', ''frac14''), (''5t'', ''frac12''), (''5u'', ''frac34''), (''5v'',
    ''iquest''), (''60'', ''Agrave''), (''61'', ''Aacute''), (''62'', ''Acirc''), (''63'',
    ''Atilde''), (''64'', ''Auml''), (''65'', ''Aring''), (''66'', ''AElig''), (''67'',
    ''Ccedil''), (''68'', ''Egrave''), (''69'', ''Eacute''), (''6a'', ''Ecirc''), (''6b'',
    ''Euml''), (''6c'', ''Igrave''), (''6d'', ''Iacute''), (''6e'', ''Icirc''), (''6f'', ''Iuml''),
    (''6g'', ''ETH''), (''6h'', ''Ntilde''), (''6i'', ''Ograve''), (''6j'', ''Oacute''), (''6k'',
    ''Ocirc''), (''6l'', ''Otilde''), (''6m'', ''Ouml''), (''6n'', ''times''), (''6o'',
    ''Oslash''), (''6p'', ''Ugrave''), (''6q'', ''Uacute''), (''6r'', ''Ucirc''), (''6s'',
    ''Uuml''), (''6t'', ''Yacute''), (''6u'', ''THORN''), (''6v'', ''szlig''), (''70'',
    ''agrave''), (''71'', ''aacute''), (''72'', ''acirc''), (''73'', ''atilde''), (''74'',
    ''auml''), (''75'', ''aring''), (''76'', ''aelig''), (''77'', ''ccedil''), (''78'',
    ''egrave''), (''79'', ''eacute''), (''7a'', ''ecirc''), (''7b'', ''euml''), (''7c'',
    ''igrave''), (''7d'', ''iacute''), (''7e'', ''icirc''), (''7f'', ''iuml''), (''7g'', ''eth''),
    (''7h'', ''ntilde''), (''7i'', ''ograve''), (''7j'', ''oacute''), (''7k'', ''ocirc''), (''7l'',
    ''otilde''), (''7m'', ''ouml''), (''7n'', ''divide''), (''7o'', ''oslash''), (''7p'',
    ''ugrave''), (''7q'', ''uacute''), (''7r'', ''ucirc''), (''7s'', ''uuml''), (''7t'',
    ''yacute''), (''7u'', ''thorn''), (''7v'', ''yuml''), (''ci'', ''fnof''), (''sh'', ''Alpha''),
    (''si'', ''Beta''), (''sj'', ''Gamma''), (''sk'', ''Delta''), (''sl'', ''Epsilon''), (''sm'',
    ''Zeta''), (''sn'', ''Eta''), (''so'', ''Theta''), (''sp'', ''Iota''), (''sq'', ''Kappa''),
    (''sr'', ''Lambda''), (''ss'', ''Mu''), (''st'', ''Nu''), (''su'', ''Xi''), (''sv'',
    ''Omicron''), (''t0'', ''Pi''), (''t1'', ''Rho''), (''t3'', ''Sigma''), (''t4'', ''Tau''),
    (''t5'', ''Upsilon''), (''t6'', ''Phi''), (''t7'', ''Chi''), (''t8'', ''Psi''), (''t9'',
    ''Omega''), (''th'', ''alpha''), (''ti'', ''beta''), (''tj'', ''gamma''), (''tk'', ''delta''),
    (''tl'', ''epsilon''), (''tm'', ''zeta''), (''tn'', ''eta''), (''to'', ''theta''), (''tp'',
    ''iota''), (''tq'', ''kappa''), (''tr'', ''lambda''), (''ts'', ''mu''), (''tt'', ''nu''),
    (''tu'', ''xi''), (''tv'', ''omicron''), (''u0'', ''pi''), (''u1'', ''rho''), (''u2'',
    ''sigmaf''), (''u3'', ''sigma''), (''u4'', ''tau''), (''u5'', ''upsilon''), (''u6'', ''phi''),
    (''u7'', ''chi''), (''u8'', ''psi''), (''u9'', ''omega''), (''uh'', ''thetasym''), (''ui'',
    ''upsih''), (''um'', ''piv''), (''812'', ''bull''), (''816'', ''hellip''), (''81i'',
    ''prime''), (''81j'', ''Prime''), (''81u'', ''oline''), (''824'', ''frasl''), (''88o'',
    ''weierp''), (''88h'', ''image''), (''88s'', ''real''), (''892'', ''trade''), (''89l'',
    ''alefsym''), (''8cg'', ''larr''), (''8ch'', ''uarr''), (''8ci'', ''rarr''), (''8cj'',
    ''darr''), (''8ck'', ''harr''), (''8dl'', ''crarr''), (''8eg'', ''lArr''), (''8eh'', ''uArr''),
    (''8ei'', ''rArr''), (''8ej'', ''dArr''), (''8ek'', ''hArr''), (''8g0'', ''forall''), (''8g2'',
    ''part''), (''8g3'', ''exist''), (''8g5'', ''empty''), (''8g7'', ''nabla''), (''8g8'',
    ''isin''), (''8g9'', ''notin''), (''8gb'', ''ni''), (''8gf'', ''prod''), (''8gh'', ''sum''),
    (''8gi'', ''minus''), (''8gn'', ''lowast''), (''8gq'', ''radic''), (''8gt'', ''prop''),
    (''8gu'', ''infin''), (''8h0'', ''ang''), (''8h7'', ''and''), (''8h8'', ''or''), (''8h9'',
    ''cap''), (''8ha'', ''cup''), (''8hb'', ''int''), (''8hk'', ''there4''), (''8hs'', ''sim''),
    (''8i5'', ''cong''), (''8i8'', ''asymp''), (''8j0'', ''ne''), (''8j1'', ''equiv''), (''8j4'',
    ''le''), (''8j5'', ''ge''), (''8k2'', ''sub''), (''8k3'', ''sup''), (''8k4'', ''nsub''),
    (''8k6'', ''sube''), (''8k7'', ''supe''), (''8kl'', ''oplus''), (''8kn'', ''otimes''),
    (''8l5'', ''perp''), (''8m5'', ''sdot''), (''8o8'', ''lceil''), (''8o9'', ''rceil''), (''8oa'',
    ''lfloor''), (''8ob'', ''rfloor''), (''8p9'', ''lang''), (''8pa'', ''rang''), (''9ea'',
    ''loz''), (''9j0'', ''spades''), (''9j3'', ''clubs''), (''9j5'', ''hearts''), (''9j6'',
    ''diams''), (''ai'', ''OElig''), (''aj'', ''oelig''), (''b0'', ''Scaron''), (''b1'',
    ''scaron''), (''bo'', ''Yuml''), (''m6'', ''circ''), (''ms'', ''tilde''), (''802'', ''ensp''),
    (''803'', ''emsp''), (''809'', ''thinsp''), (''80c'', ''zwnj''), (''80d'', ''zwj''), (''80e'',
    ''lrm''), (''80f'', ''rlm''), (''80j'', ''ndash''), (''80k'', ''mdash''), (''80o'', ''lsquo''),
    (''80p'', ''rsquo''), (''80q'', ''sbquo''), (''80s'', ''ldquo''), (''80t'', ''rdquo''),
    (''80u'', ''bdquo''), (''810'', ''dagger''), (''811'', ''Dagger''), (''81g'', ''permil''),
    (''81p'', ''lsaquo''), (''81q'', ''rsaquo''), (''85c'', ''euro'')]"

lemma named_join: "named_items = join_with '','' (concat (map (\<lambda>(c, w). [c, w]) named_pairs))"
  by (simp add: named_items_def named_lines_def named_pairs_def)

lemma named_distinct: "trie_distinct 80 (map (\<lambda>(c, w). concat (map char_bits w)) named_pairs)"
  by code_simp

lemma named_words: "list_all (\<lambda>(c, w). c \<noteq> [] \<and> list_all word_char c \<and> w \<noteq> [] \<and> list_all word_char w
    \<and> w \<notin> set [''lt'', ''gt'', ''amp'', ''quot'', ''apos'']) named_pairs"
  by code_simp
end
