(* ===== verification/EntityNames.thy ===== *)
theory EntityNames
  imports EntityCodec EntityTable
begin

text \<open>
  The named encoder of \<open>html/Entities.js\<close>: the table that \<open>buildEntitiesLookup\<close> makes of the
  built-in names works in both directions, so the named encoder meets the contract of
  \<open>EntityCodec\<close>. The properties of all the encoders follow.
\<close>

section \<open>Tables of names\<close>

definition entity :: "ustring \<Rightarrow> ustring" where
  "entity n = js ''&'' @ n @ js '';''"

text \<open>
  A table in which each character with an entity is found again under that entity, for names
  from \<open>S\<close>.
\<close>

definition two_way :: "(ustring \<rightharpoonup> ustring) \<Rightarrow> ustring set \<Rightarrow> bool" where
  "two_way t S \<longleftrightarrow> (\<forall>c e. t [c] = Some e \<longrightarrow> (\<exists>n\<in>S. e = entity n \<and> t e = Some [c]))
     \<and> (\<forall>k. t k \<noteq> None \<longrightarrow> length k = 1 \<or> hd k = 0x26)"

lemma entity_eq [simp]: "entity m = entity n \<longleftrightarrow> m = n"
  by (simp add: entity_def js_def)

lemma entity_not_single [simp]: "entity n \<noteq> [c]" "[c] \<noteq> entity n"
  by (simp_all add: entity_def js_def)

lemma hd_entity: "hd (entity n) = 0x26"
  by (simp add: entity_def js_def)

lemma two_way_add:
  assumes "two_way t S" and "n \<notin> S"
  shows "two_way (t([c] \<mapsto> entity n, entity n \<mapsto> [c])) (insert n S)"
proof -
  let ?t = "t([c] \<mapsto> entity n, entity n \<mapsto> [c])"
  have "\<exists>m\<in>insert n S. e = entity m \<and> ?t e = Some [b]" if "?t [b] = Some e" for b e
  proof (cases "b = c")
    case False
    then have "t [b] = Some e" using that by simp
    then obtain m where "m \<in> S" "e = entity m" "t e = Some [b]" using assms(1) unfolding two_way_def by blast
    moreover from this have "m \<noteq> n" using assms(2) by auto
    ultimately show ?thesis by (intro bexI [of _ m]) simp_all
  qed (use that in simp)
  moreover have "length k = 1 \<or> hd k = 0x26" if "?t k \<noteq> None" for k
  proof (cases "k = [c] \<or> k = entity n")
    case False
    then have "t k \<noteq> None" using that by simp
    then show ?thesis using assms(1) unfolding two_way_def by blast
  qed (auto simp: hd_entity)
  ultimately show ?thesis unfolding two_way_def by blast
qed

lemma two_way_mono: "two_way t S \<Longrightarrow> S \<subseteq> S' \<Longrightarrow> two_way t S'"
  unfolding two_way_def by blast

lemma two_way_build:
  "two_way t S \<Longrightarrow> distinct (map snd ps) \<Longrightarrow> \<forall>n\<in>set (map snd ps). n \<notin> S \<Longrightarrow>
   two_way (build_loop radix (concat (map (\<lambda>(c, w). [c, w]) ps)) t) (S \<union> set (map snd ps))"
proof (induction ps arbitrary: t S)
  case (Cons p ps)
  obtain c w where p: "p = (c, w)" by (cases p)
  let ?chr = "from_char_code (parse_int radix c)"
  let ?t = "if baseEntities [?chr] = None then t([?chr] \<mapsto> entity w, entity w \<mapsto> [?chr]) else t"
  have "two_way ?t (insert w S)"
  proof (cases "baseEntities [?chr] = None")
    case True
    then show ?thesis using two_way_add [OF Cons.prems(1), of w ?chr] Cons.prems(3) p by simp
  next
    case False
    then show ?thesis using two_way_mono [OF Cons.prems(1), of "insert w S"] by (simp only: if_False subset_insertI)
  qed
  then have "two_way (build_loop radix (concat (map (\<lambda>(c, w). [c, w]) ps)) ?t) (insert w S \<union> set (map snd ps))"
    using Cons p by (intro Cons.IH) auto
  moreover have "build_loop radix (concat (map (\<lambda>(c, w). [c, w]) (p # ps))) t =
      build_loop radix (concat (map (\<lambda>(c, w). [c, w]) ps)) ?t"
    using p by (simp add: Let_def entity_def)
  ultimately show ?case using p by simp
qed simp

lemma split_on_map: "inj f \<Longrightarrow> split_on (f d) (map f s) = map (map f) (split_on d s)"
  by (induction s) (auto simp: inj_eq split: list.splits)

lemma inj_of_char16: "inj (of_char :: char \<Rightarrow> 16 word)"
  by (rule injI) simp

lemma split_on_js: "split_on (cu d) (js s) = map js (split_on d s)"
  unfolding cu_def js_def [abs_def] by (rule split_on_map [OF inj_of_char16])

lemma distinct_tl: "\<forall>l\<in>set xs. l \<noteq> [] \<and> hd l = b \<Longrightarrow> distinct (map tl xs) \<Longrightarrow> distinct xs"
  by (simp add: distinct_map)

lemma distinct_filter3:
  "length (filter p xs) \<le> 1 \<Longrightarrow> distinct (filter q xs) \<Longrightarrow> distinct (filter r xs) \<Longrightarrow>
   (\<And>x. p x \<or> q x \<or> r x) \<Longrightarrow> distinct xs"
proof (induction xs)
  case (Cons x xs)
  have "distinct xs" using Cons by (auto split: if_splits)
  moreover have "x \<notin> set xs"
  proof
    assume x: "x \<in> set xs"
    consider "p x" | "q x" | "r x" using Cons.prems(4) by blast
    then show False
    proof cases
      case 1
      then have "filter p xs = []" using Cons.prems(1) by simp
      then show False using x 1 by (auto simp: filter_empty_conv)
    qed (use Cons.prems x in auto)
  qed
  ultimately show ?case by simp
qed simp

lemma trie_distinct_sound: "trie_distinct n xs \<Longrightarrow> distinct xs"
proof (induction n xs rule: trie_distinct.induct)
  case (4 n x y xs)
  let ?l = "x # y # xs"
  have a: "distinct (filter (\<lambda>l. l \<noteq> [] \<and> hd l) ?l)"
    by (rule distinct_tl [where b = True]) (use 4 in auto)
  have b: "distinct (filter (\<lambda>l. l \<noteq> [] \<and> \<not> hd l) ?l)"
    by (rule distinct_tl [where b = False]) (use 4 in auto)
  have c: "length (filter (\<lambda>l. l = []) ?l) \<le> 1" using "4.prems" by (simp only: trie_distinct.simps)
  show ?case by (rule distinct_filter3 [OF c a b]) auto
qed auto

lemma distinct_names: "distinct (map snd named_pairs)"
proof -
  have "distinct (map (\<lambda>(c, w). concat (map char_bits w)) named_pairs)"
    by (rule trie_distinct_sound [OF named_distinct])
  then have "distinct (map (\<lambda>w. concat (map char_bits w)) (map snd named_pairs))"
    by (simp add: comp_def case_prod_unfold)
  then show ?thesis by (simp only: distinct_map)
qed

lemma is_word_char_of_char: "word_char c \<Longrightarrow> is_word_char (of_char c)"
proof (cases c)
  case (Char b0 b1 b2 b3 b4 b5 b6 b7)
  have "is_word_char (of_char c) \<longleftrightarrow> (let n = of_char c :: nat in
      (48 \<le> n \<and> n \<le> 57) \<or> (65 \<le> n \<and> n \<le> 90) \<or> (97 \<le> n \<and> n \<le> 122) \<or> n = 95)"
    by (simp add: is_word_char_def word_le_nat_alt unat_of_char16 word_unat_eq_iff Let_def)
  moreover assume "word_char c"
  ultimately show ?thesis
    unfolding Char by (cases b0; cases b1; cases b2; cases b3; cases b4; cases b5; cases b6; cases b7; simp)
qed

lemma named_ok: "(c, w) \<in> set named_pairs \<Longrightarrow> w \<noteq> [] \<and> list_all is_word_char (js w)
    \<and> CHR '','' \<notin> set c \<and> CHR '','' \<notin> set w \<and> w \<notin> set [''lt'', ''gt'', ''amp'', ''quot'', ''apos'']"
proof -
  assume "(c, w) \<in> set named_pairs"
  then have w: "list_all word_char c" "w \<noteq> []" "list_all word_char w" "w \<notin> set [''lt'', ''gt'', ''amp'', ''quot'', ''apos'']"
    using named_words by (auto simp: list_all_iff simp del: word_char.simps)
  moreover have "\<not> word_char (CHR '','')" by simp
  ultimately show ?thesis using is_word_char_of_char
    by (auto simp: list_all_iff js_def simp del: word_char.simps)
qed

lemma concat_pairs: "ps \<noteq> [] \<Longrightarrow> concat (map (\<lambda>(c, w). [c, w]) ps) \<noteq> []"
  by (cases ps) auto

lemma named_split: "split_on (CHR '','') named_items = concat (map (\<lambda>(c, w). [c, w]) named_pairs)"
proof -
  have "named_pairs \<noteq> []" by (simp add: named_pairs_def)
  then have "concat (map (\<lambda>(c, w). [c, w]) named_pairs) \<noteq> []" by (rule concat_pairs)
  then show ?thesis unfolding named_join using named_ok by (intro split_join) auto
qed

lemma named_build: "namedEntities =
    build_loop 32 (concat (map (\<lambda>(c, w). [c, w]) (map (\<lambda>(c, w). (js c, js w)) named_pairs))) Map.empty"
proof -
  have "named_items \<noteq> []" by (simp add: named_items_def named_lines_def)
  moreover have "map js (concat (map (\<lambda>(c, w). [c, w]) named_pairs)) =
      concat (map (\<lambda>(c, w). [c, w]) (map (\<lambda>(c, w). (js c, js w)) named_pairs))"
    by (simp add: map_concat comp_def case_prod_unfold)
  ultimately show ?thesis
    by (simp add: namedEntities_def buildEntitiesLookup_def split_on_js named_split)
qed

lemma two_way_named: "two_way namedEntities (js ` snd ` set named_pairs)"
proof -
  have "distinct (map js (map snd named_pairs))"
    using distinct_names by (simp add: distinct_map inj_on_def)
  then have d: "distinct (map snd (map (\<lambda>(c, w). (js c, js w)) named_pairs))"
    by (simp add: comp_def case_prod_unfold)
  have "two_way Map.empty {}" by (simp add: two_way_def)
  from two_way_build [OF this d, of 32] show ?thesis
    unfolding named_build by (simp add: image_image case_prod_unfold)
qed

lemma decode_named:
  assumes "namedEntities [c] = Some e"
  shows "decode nd (e @ s) = c # decode nd s" and "e \<noteq> []"
proof -
  obtain a w where w: "(a, w) \<in> set named_pairs" "e = entity (js w)" "namedEntities e = Some [c]"
    using two_way_named [unfolded two_way_def, THEN conjunct1, rule_format, OF assms]
    by (elim bexE imageE conjE) (metis prod.collapse)
  have r: "reverseEntities e = None"
    using named_ok [OF w(1)] w(2) by (auto simp: reverseEntities_def entity_def js_append [symmetric] simp del: js_append)
  have "decode_entity nd 0 (js w) = [c]"
    using r w(2,3) by (simp add: decode_entity_def entity_def default_def)
  then show "decode nd (e @ s) = c # decode nd s"
    using decode_word [of "js w" nd s] named_ok [OF w(1)] w(2) by (simp add: entity_def del: decode.simps)
  show "e \<noteq> []" using w(2) by (simp add: entity_def)
qed

interpretation named: entity_encoder nd "chars attr"
  "\<lambda>chr. default (baseEntities chr) (default (namedEntities chr) chr)" "\<lambda>_. True"
proof
  show "chars attr 0x26" by (rule chars_amp)
  fix c s
  show "decode nd (default (baseEntities [c]) (default (namedEntities [c]) [c]) @ s) = c # decode nd s" if "chars attr c"
    using decode_base(1) [of c _ nd s] decode_base(2) [of c] chars_not_base [OF that] decode_plain [of c nd s]
      decode_named(1) [of c _ nd s] decode_named(2) [of c]
    by (cases "baseEntities [c]"; cases "namedEntities [c]") (auto simp: default_def simp del: decode.simps)
  fix d
  assume h: "is_high c" "is_low d"
  have "namedEntities [c, d] = None"
    using two_way_named [unfolded two_way_def, THEN conjunct2, rule_format, of "[c, d]"]
      is_high_not_amp(1) [OF h(1)] by (cases "namedEntities [c, d]") simp_all
  then show "decode nd (default (baseEntities [c, d]) (default (namedEntities [c, d]) [c, d]) @ s) = c # d # decode nd s"
    using is_high_not_amp h by (simp add: base_other default_def)
qed

section \<open>Properties of the encoders\<close>

lemma decode_class: "decode nd (replace_class raw_chars (\<lambda>chr. default (baseEntities chr) chr) s) = s"
proof (induction s)
  case (Cons c s)
  show ?case
  proof (cases "raw_chars c")
    case True
    then obtain e where e: "baseEntities [c] = Some e" by (auto simp: raw_chars_def base_lookup)
    have "decode nd (e @ replace_class raw_chars (\<lambda>chr. default (baseEntities chr) chr) s) = c # s"
      using decode_base(1) [OF e] Cons by (simp del: decode.simps)
    then show ?thesis using True e decode_base(2) [OF e] by (simp add: replace_class_def default_def del: decode.simps)
  next
    case False
    then have "c \<noteq> 0x26" by (auto simp: raw_chars_def)
    then show ?thesis using False Cons by (simp add: replace_class_def)
  qed
qed (simp add: replace_class_def)

text \<open>Decoding undoes the raw encoders: whatever the text, and as attribute or text content,
  what \<open>encodeRaw\<close> and \<open>encodeAllRaw\<close> produce decodes to the text again.\<close>

lemma decode_encodeRaw: "decode nd (encodeRaw s attr) = s \<and> decode nd (encodeAllRaw s) = s"
  using raw.decode_replace [of s nd attr] decode_class
  by (simp add: encodeRaw_def encodeAllRaw_def list_all_iff del: decode.simps)

text \<open>C31. Decoding undoes the named encoder with the built-in entities, for every text.\<close>

theorem decode_encodeNamed: "decode nd (encodeNamed s attr None) = s"
  using named.decode_replace [of s nd attr]
  by (simp add: encodeNamed_def Let_def list_all_iff del: decode.simps)

text \<open>C32. Decoding undoes the numeric encoder for every text without the code units (128 to 159)
  that the decoder reads as Windows characters; surrogate pairs, encoded as one number, come
  back as the same pair.\<close>

theorem decode_encodeNumeric:
  assumes "list_all kept s"
  shows "decode nd (encodeNumeric s attr) = s"
  using numeric.decode_replace [OF assms] by (simp add: encodeNumeric_def del: decode.simps)

theorem decode_encodeNumeric_witness:
  "decode (\<lambda>s. s) (encodeNumeric [0x3C, 0xE9, 0xD83D, 0xDE00] True) = [0x3C, 0xE9, 0xD83D, 0xDE00]"
  by (rule decode_encodeNumeric) (simp add: kept_def asciiMap_def)

text \<open>The combined encoder that \<open>getEncodeFunc\<close> returns for ''named+numeric'' loses half of
  every surrogate pair: it writes the number of the first code unit only, so decoding gives the
  lone high surrogate.\<close>

lemma named_numeric_drops_surrogate:
  assumes "is_high c" and "is_low d" and "kept c"
  shows "decode nd (getEncodeFunc (js ''named+numeric'') [] [c, d] attr) = [c]"
proof -
  have "namedEntities [c, d] = None"
    using two_way_named [unfolded two_way_def, THEN conjunct2, rule_format, of "[c, d]"]
      is_high_not_amp(1) [OF assms(1)] by (cases "namedEntities [c, d]") simp_all
  moreover have "\<not> chars attr c"
  proof -
    have "unat c \<ge> 0xD800" "unat c \<le> 0xDBFF" using assms(1) by (auto simp: is_high_def word_le_nat_alt)
    then show ?thesis by (auto simp: chars_def attrs_chars_def text_chars_def word_le_nat_alt)
  qed
  ultimately have "encodeNamedAndNumeric namedEntities [c, d] attr = numeric_entity (unat c)"
    using assms(1,2) by (simp add: encodeNamedAndNumeric_def base_other default_def)
  moreover have "decode nd (numeric_entity (unat c)) = [c]"
    using decode_numeric [of nd "unat c" "[]"] decode_unit [OF assms(3)] by simp
  moreover have "getEncodeFunc (js ''named+numeric'') [] = encodeNamedAndNumeric namedEntities"
    by (simp add: getEncodeFunc_def buildEntitiesLookup_def makeMap_str_def makeMap_lookup has_prop_def js_Cons)
  ultimately show ?thesis by simp
qed


lemma replace_chars_avoids:
  assumes "P b" and "\<And>c. P c \<Longrightarrow> b \<notin> set (f [c])"
    and "\<And>c d. is_high c \<Longrightarrow> is_low d \<Longrightarrow> b \<notin> set (f [c, d])"
  shows "b \<notin> set (replace_chars P f s)"
  using assms by (induction s rule: induct_list012) auto

lemma base_avoids: "baseEntities [c] = Some e \<Longrightarrow> b \<in> {0x3C, 0x3E, 0x22, 0x27} \<Longrightarrow> b \<notin> set e"
  using base_other(1) [of c] by (cases "c \<in> {0x26, 0x3C, 0x3E, 0x22, 0x27}") (auto simp: base_lookup js_def)

lemma numeric_avoids: "b \<in> {0x3C, 0x3E, 0x22} \<Longrightarrow> b \<notin> set (numeric_entity n)"
proof
  assume b: "b \<in> {0x3C, 0x3E, 0x22}" "b \<in> set (numeric_entity n)"
  then have "b \<in> set (show_nat n)" by (auto simp: numeric_entity_def js_def)
  then have "is_digit 10 b" using show_radix_digits [of 10 b n] by (simp add: show_nat_def)
  then show False using b(1) digit_word [of b] by (auto simp: is_word_char_def)
qed

lemma named_avoids: "namedEntities [c] = Some e \<Longrightarrow> b \<in> {0x3C, 0x3E, 0x22} \<Longrightarrow> b \<notin> set e"
proof
  assume b: "namedEntities [c] = Some e" "b \<in> {0x3C, 0x3E, 0x22}" "b \<in> set e"
  obtain a w where w: "(a, w) \<in> set named_pairs" "e = entity (js w)"
    using two_way_named [unfolded two_way_def, THEN conjunct1, rule_format, OF b(1)]
    by (elim bexE imageE conjE) (metis prod.collapse)
  then have "b \<in> set (js w)" using b(2,3) by (auto simp: entity_def js_def)
  then have "is_word_char b" using named_ok [OF w(1)] by (auto simp: list_all_iff)
  then show False using b(2) by (auto simp: is_word_char_def)
qed

lemma high_pair_avoids: "b \<in> {0x3C, 0x3E, 0x22} \<Longrightarrow> is_high c \<Longrightarrow> is_low d \<Longrightarrow> b \<noteq> c \<and> b \<noteq> d"
  by (auto simp: is_high_def is_low_def)

lemma markup_in_chars: "b \<in> {0x3C, 0x3E, 0x22} \<Longrightarrow> chars True b"
  by (auto simp: chars_def attrs_chars_def text_chars_def)

lemma encoders_avoid:
  assumes b: "b \<in> {0x3C, 0x3E, 0x22}" and P: "chars attr b"
  shows "b \<notin> set (encodeRaw s attr)" and "b \<notin> set (encodeNumeric s attr)"
    and "b \<notin> set (encodeNamed s attr None)" and "b \<notin> set (encodeNamedAndNumeric namedEntities s attr)"
proof -
  have base: "b \<notin> set e" if "baseEntities [c] = Some e" for c e using base_avoids [OF that] b by blast
  have self: "baseEntities [b] \<noteq> None" using b by (auto simp: base_lookup)
  have n2: "namedEntities [c, d] = None" if "is_high c" for c d
    using two_way_named [unfolded two_way_def, THEN conjunct2, rule_format, of "[c, d]"]
      is_high_not_amp(1) [OF that] by (cases "namedEntities [c, d]") simp_all
  show "b \<notin> set (encodeRaw s attr)"
    unfolding encodeRaw_def
  proof (rule replace_chars_avoids [of "chars attr", OF P])
    fix c show "b \<notin> set (default (baseEntities [c]) [c])"
      using self base [of c] decode_base(2) [of c] by (cases "baseEntities [c]") (auto simp: default_def)
  qed (use high_pair_avoids [OF b] in \<open>auto simp: base_other default_def\<close>)
  show "b \<notin> set (encodeNumeric s attr)"
    unfolding encodeNumeric_def
  proof (rule replace_chars_avoids [of "chars attr", OF P])
    fix c show "b \<notin> set (numeric_chr [c])"
      using base [of c] numeric_avoids [OF b]
      by (cases "baseEntities [c]") (auto simp: default_def numeric_chr_def)
  qed (use numeric_avoids [OF b] in \<open>auto simp: numeric_chr_def\<close>)
  show "b \<notin> set (encodeNamed s attr None)"
    unfolding encodeNamed_def Let_def option.case
  proof (rule replace_chars_avoids [of "chars attr", OF P])
    fix c show "b \<notin> set (default (baseEntities [c]) (default (namedEntities [c]) [c]))"
      using self base [of c] named_avoids [OF _ b, of c] decode_base(2) [of c]
      by (cases "baseEntities [c]"; cases "namedEntities [c]") (auto simp: default_def)
  qed (use high_pair_avoids [OF b] n2 in \<open>auto simp: base_other default_def\<close>)
  show "b \<notin> set (encodeNamedAndNumeric namedEntities s attr)"
    unfolding encodeNamedAndNumeric_def
  proof (rule replace_chars_avoids [of "chars attr", OF P])
    fix c show "b \<notin> set (default (baseEntities [c]) (default (namedEntities [c]) (numeric_entity (unat (hd [c])))))"
      using base [of c] named_avoids [OF _ b, of c] numeric_avoids [OF b]
      by (cases "baseEntities [c]"; cases "namedEntities [c]") (auto simp: default_def)
  qed (use numeric_avoids [OF b] n2 in \<open>auto simp: base_other default_def\<close>)
qed

text \<open>The encoders that \<open>getEncodeFunc\<close> chooses from when it gets no table of entities.\<close>

lemma getEncodeFunc_built_in:
  "getEncodeFunc name [] s attr \<in> {encodeRaw s attr, encodeNumeric s attr, encodeNamed s attr None, encodeNamedAndNumeric namedEntities s attr}"
  by (simp add: getEncodeFunc_def buildEntitiesLookup_def encodeNamed_def Let_def)

lemma encodeAllRaw_avoids:
  assumes "b \<in> {0x3C, 0x3E, 0x22, 0x27}" shows "b \<notin> set (encodeAllRaw s)"
proof -
  have "b \<notin> set (default (baseEntities [c]) [c])" if "raw_chars c" for c
    using base_avoids [OF _ assms, of c] that by (auto simp: raw_chars_def default_def base_lookup)
  moreover have "raw_chars b" using assms by (auto simp: raw_chars_def)
  ultimately show ?thesis by (auto simp: encodeAllRaw_def replace_class_def split: if_splits)
qed

text \<open>C35. The encoders let no markup through with the built-in table of entities: what \<open>encodeRaw\<close>, \<open>encodeNumeric\<close>, \<open>encodeNamed\<close> or any encoder that
  \<open>getEncodeFunc\<close> returns when it gets no entities makes of a text has no angle bracket, and what it makes of the value of an attribute no double quote either,
  so neither can end the text or the attribute it is put in; the output of \<open>encodeAllRaw\<close> has no single quote either. A table of entities of the
  user's own may name them with such characters.\<close>

theorem encoders_escape_markup:
  "{0x3C, 0x3E, 0x22} \<inter> (set (encodeRaw s True) \<union> set (encodeNumeric s True) \<union> set (encodeNamed s True None) \<union> set (getEncodeFunc name [] s True)) = {}
   \<and> {0x3C, 0x3E} \<inter> (set (encodeRaw s False) \<union> set (encodeNumeric s False) \<union> set (encodeNamed s False None) \<union> set (getEncodeFunc name [] s False)) = {}
   \<and> {0x3C, 0x3E, 0x22, 0x27} \<inter> set (encodeAllRaw s) = {}"
proof -
  have c: "chars False 0x3C" "chars False 0x3E" by (simp_all add: chars_def text_chars_def)
  have "b \<notin> set (encodeRaw s attr) \<union> set (encodeNumeric s attr) \<union> set (encodeNamed s attr None) \<union> set (getEncodeFunc name [] s attr)"
    if "b \<in> {0x3C, 0x3E, 0x22}" "chars attr b" for b attr
    using encoders_avoid [OF that, of s] getEncodeFunc_built_in [of name s attr] by auto
  with c markup_in_chars encodeAllRaw_avoids show ?thesis by simp
qed

end
