(* ===== verification/UndoManager.thy ===== *)
theory UndoManager
  imports Tools
begin

text \<open>
  The undo manager of \<open>tinymce/js/tinymce/classes/UndoManager.js\<close>: the levels \<open>data\<close>, the position
  \<open>index\<close> among them and the flags the event handlers share, as the record \<open>um\<close>. The editor it
  works on is a parameter, the record \<open>editor_ops\<close> of the methods the code calls, over an
  editor state \<open>'e\<close> and bookmarks \<open>'b\<close>. \<open>editor.fire\<close> is recorded in the order of the calls; its
  one result the code uses, whether a listener of BeforeAddUndo prevents the level, is an
  operation of the editor.
\<close>

section \<open>The content without temporary markup\<close>

text \<open>Case-insensitive literals at the head of a string.\<close>

definition lit :: "string \<Rightarrow> ustring \<Rightarrow> ustring option" where
  "lit p s = (if map to_lower (take (length p) s) = js p then Some (drop (length p) s) else None)"

fun occurs :: "string \<Rightarrow> ustring \<Rightarrow> bool" where
  "occurs p [] = False"
| "occurs p (c # s) = ((case lit p (c # s) of Some r \<Rightarrow> r \<noteq> [] | None \<Rightarrow> False) \<or> occurs p s)"

text \<open>
  \<open><tag[^>]+data-mce-bogus[^>]+>\<close> followed by \<open>inner\<close> and the end tag: the attribute text runs to
  the first angle bracket and has something on both sides of the marker.
\<close>

definition bogus :: "string \<Rightarrow> string \<Rightarrow> (ustring \<Rightarrow> ustring option) \<Rightarrow> ustring \<Rightarrow> ustring option" where
  "bogus open close inner s =
     (case lit open s of None \<Rightarrow> None
      | Some t \<Rightarrow>
          (let seg = takeWhile (\<lambda>c. c \<noteq> 0x3E) t; rest = dropWhile (\<lambda>c. c \<noteq> 0x3E) t
           in if rest \<noteq> [] \<and> seg \<noteq> [] \<and> occurs ''data-mce-bogus'' (tl seg)
              then (case inner (tl rest) of None \<Rightarrow> None | Some u \<Rightarrow> lit close u)
              else None))"

definition zero_widths :: "ustring \<Rightarrow> ustring option" where
  "zero_widths s = (case s of
       c # _ \<Rightarrow> if c \<in> {0x200B, 0xFEFF} then Some (dropWhile (\<lambda>c. c \<in> {0x200B, 0xFEFF}) s) else None
     | [] \<Rightarrow> None)"

definition selected :: "ustring \<Rightarrow> ustring option" where
  "selected s =
     (let attr = (\<lambda>s. case lit (''data-mce-selected='' @ [CHR 0x22]) s of None \<Rightarrow> None
        | Some t \<Rightarrow> let v = takeWhile (\<lambda>c. c \<noteq> 0x22) t; r = dropWhile (\<lambda>c. c \<noteq> 0x22) t
                   in if v \<noteq> [] \<and> r \<noteq> [] then Some (tl r) else None)
      in case s of
           [] \<Rightarrow> None
         | c # t \<Rightarrow> (case (if js_space c then attr t else None) of Some r \<Rightarrow> Some r | None \<Rightarrow> attr s))"

definition trim_match :: "ustring \<Rightarrow> ustring option" where
  "trim_match s =
     (case bogus ''<span'' ''</span>'' zero_widths s of Some r \<Rightarrow> Some r
      | None \<Rightarrow> (case bogus ''<div'' ''</div>'' Some s of Some r \<Rightarrow> Some r | None \<Rightarrow> selected s))"

text \<open>\<open>replace(trimContentRegExp, '')\<close>; the fuel is the length, every match being non-empty.\<close>

fun trim_fuel :: "nat \<Rightarrow> ustring \<Rightarrow> ustring" where
  "trim_fuel 0 s = s"
| "trim_fuel (Suc k) [] = []"
| "trim_fuel (Suc k) (c # s) =
     (case trim_match (c # s) of Some r \<Rightarrow> trim_fuel k r | None \<Rightarrow> c # trim_fuel k s)"

definition trim_content :: "ustring \<Rightarrow> ustring" where
  "trim_content s = trim (Some (trim_fuel (length s) s))"

section \<open>The state\<close>

record 'b level =
  lv_content :: ustring
  lv_bookmark :: "'b option"
  lv_beforeBookmark :: "'b option"

datatype 'b fired =
    FBeforeAddUndo "'b level"
  | FAddUndo "'b level" "'b level option"
  | FChange "'b level option" "'b level option"
  | FUndo "'b level"
  | FRedo "'b level"
  | FClearUndos
  | FTypingUndo
  | FNodeChanged

record ('e, 'b) editor_ops =
  ed_raw :: "'e \<Rightarrow> ustring"
  ed_set :: "ustring \<Rightarrow> 'e \<Rightarrow> 'e"
  ed_bookmark :: "'e \<Rightarrow> 'b"
  ed_moveTo :: "'b option \<Rightarrow> 'e \<Rightarrow> 'e"
  ed_prevents :: "'b level \<Rightarrow> 'e \<Rightarrow> bool"
  ed_removed :: "'e \<Rightarrow> bool"
  ed_levels :: nat
  ed_mac :: bool

record ('e, 'b) um =
  um_index :: nat
  um_data :: "'b level list"
  um_beforeBookmark :: "'b option"
  um_firstTyped :: bool
  um_lock :: bool
  um_typing :: bool
  um_editor :: 'e
  um_isNotDirty :: bool
  um_fired :: "'b fired list"

definition init_um :: "'e \<Rightarrow> bool \<Rightarrow> ('e, 'b) um" where
  "init_um e notDirty = \<lparr>um_index = 0, um_data = [], um_beforeBookmark = None, um_firstTyped = False,
     um_lock = False, um_typing = False, um_editor = e, um_isNotDirty = notDirty, um_fired = []\<rparr>"

definition fire :: "'b fired \<Rightarrow> ('e, 'b) um \<Rightarrow> ('e, 'b) um" where
  "fire f s = s\<lparr>um_fired := um_fired s @ [f]\<rparr>"

section \<open>Operations\<close>

definition getContent :: "('e, 'b) editor_ops \<Rightarrow> ('e, 'b) um \<Rightarrow> ustring" where
  "getContent ed s = trim_content (ed_raw ed (um_editor s))"

definition beforeChange :: "('e, 'b) editor_ops \<Rightarrow> ('e, 'b) um \<Rightarrow> ('e, 'b) um" where
  "beforeChange ed s =
     (if \<not> um_lock s then s\<lparr>um_beforeBookmark := Some (ed_bookmark ed (um_editor s))\<rparr> else s)"

text \<open>
  The compression of a full history: the levels move one place down and \<open>index\<close> is set to the
  new length. A limit of 0 is none.
\<close>

definition compress :: "nat \<Rightarrow> 'b level list \<Rightarrow> nat \<Rightarrow> 'b level list \<times> nat" where
  "compress limit data index =
     (if limit \<noteq> 0 \<and> length data > limit then (tl data, length data - 1) else (data, index))"

definition crop :: "'b level list \<Rightarrow> nat \<Rightarrow> 'b level list" where
  "crop data index = (if index < length data - 1 then take (index + 1) data else data)"

definition add :: "('e, 'b) editor_ops \<Rightarrow> ('e, 'b) um \<Rightarrow> ('e, 'b) um \<times> 'b level option" where
  "add ed s =
     (let level = \<lparr>lv_content = getContent ed s, lv_bookmark = None, lv_beforeBookmark = None\<rparr>
      in if um_lock s then (s, None)
         else
           let s1 = fire (FBeforeAddUndo level) s
           in if ed_prevents ed level (um_editor s1) then (s1, None)
              else
                let lastLevel = nth_opt (um_data s1) (um_index s1)
                in if (case lastLevel of Some l \<Rightarrow> lv_content l = lv_content level | None \<Rightarrow> False) then (s1, None)
                   else
                     let data1 = (if um_index s1 < length (um_data s1)
                                  then (um_data s1)[um_index s1 :=
                                         (um_data s1 ! um_index s1)\<lparr>lv_beforeBookmark := um_beforeBookmark s1\<rparr>]
                                  else um_data s1);
                         last1 = nth_opt data1 (um_index s1);
                         (data2, index2) = compress (ed_levels ed) data1 (um_index s1);
                         level1 = level\<lparr>lv_bookmark := Some (ed_bookmark ed (um_editor s1))\<rparr>;
                         data3 = crop data2 index2 @ [level1];
                         index3 = length data3 - 1;
                         s2 = fire (FAddUndo level1 last1) (s1\<lparr>um_data := data3, um_index := index3\<rparr>);
                         s3 = (if index3 > 0 then (fire (FChange (Some level1) last1) s2)\<lparr>um_isNotDirty := False\<rparr>
                               else s2)
                     in (s3, Some level1))"

definition undo :: "('e, 'b) editor_ops \<Rightarrow> ('e, 'b) um \<Rightarrow> ('e, 'b) um \<times> 'b level option" where
  "undo ed s =
     (let s1 = (if um_typing s then (fst (add ed s))\<lparr>um_typing := False\<rparr> else s)
      in if um_index s1 > 0 then
           let index = um_index s1 - 1;
               level = um_data s1 ! index;
               s2 = s1\<lparr>um_index := index\<rparr>;
               s3 = (if index = 0 then s2\<lparr>um_isNotDirty := True\<rparr> else s2);
               s4 = s3\<lparr>um_editor := ed_moveTo ed (lv_beforeBookmark level) (ed_set ed (lv_content level) (um_editor s3))\<rparr>
           in (fire (FUndo level) s4, Some level)
         else (s1, None))"

definition redo :: "('e, 'b) editor_ops \<Rightarrow> ('e, 'b) um \<Rightarrow> ('e, 'b) um \<times> 'b level option" where
  "redo ed s =
     (if um_index s < length (um_data s) - 1 then
        let index = um_index s + 1;
            level = um_data s ! index;
            s1 = s\<lparr>um_index := index,
                   um_editor := ed_moveTo ed (lv_bookmark level) (ed_set ed (lv_content level) (um_editor s))\<rparr>
        in (fire (FRedo level) s1, Some level)
      else (s, None))"

definition clear :: "('e, 'b) um \<Rightarrow> ('e, 'b) um" where
  "clear s = fire FClearUndos (s\<lparr>um_data := [], um_index := 0, um_typing := False\<rparr>)"

definition hasUndo :: "('e, 'b) editor_ops \<Rightarrow> ('e, 'b) um \<Rightarrow> bool" where
  "hasUndo ed s \<longleftrightarrow> um_index s > 0 \<or>
     (um_typing s \<and> (case um_data s of l # _ \<Rightarrow> getContent ed s \<noteq> lv_content l | [] \<Rightarrow> False))"

definition hasRedo :: "('e, 'b) um \<Rightarrow> bool" where
  "hasRedo s \<longleftrightarrow> um_index s < length (um_data s) - 1 \<and> \<not> um_typing s"

text \<open>The callback of \<open>transact\<close> may do anything with the editor and call the manager itself.\<close>

definition transact ::
    "('e, 'b) editor_ops \<Rightarrow> (('e, 'b) um \<Rightarrow> ('e, 'b) um) \<Rightarrow> ('e, 'b) um \<Rightarrow> ('e, 'b) um" where
  "transact ed callback s =
     (let s1 = (beforeChange ed s)\<lparr>um_lock := True\<rparr>;
          s2 = (callback s1)\<lparr>um_lock := False\<rparr>
      in fst (add ed s2))"

definition addNonTypingUndoLevel :: "('e, 'b) editor_ops \<Rightarrow> ('e, 'b) um \<Rightarrow> ('e, 'b) um" where
  "addNonTypingUndoLevel ed s = fst (add ed (s\<lparr>um_typing := False\<rparr>))"

section \<open>Event handlers\<close>

definition on_init :: "('e, 'b) editor_ops \<Rightarrow> ('e, 'b) um \<Rightarrow> ('e, 'b) um" where
  "on_init ed s = fst (add ed s)"

definition history_command :: "ustring \<Rightarrow> bool" where
  "history_command cmd \<longleftrightarrow> cmd \<in> {js ''Undo'', js ''Redo'', js ''mceRepaint''}"

definition on_BeforeExecCommand :: "('e, 'b) editor_ops \<Rightarrow> ustring \<Rightarrow> ('e, 'b) um \<Rightarrow> ('e, 'b) um" where
  "on_BeforeExecCommand ed cmd s = (if \<not> history_command cmd then beforeChange ed s else s)"

definition on_ExecCommand :: "('e, 'b) editor_ops \<Rightarrow> ustring \<Rightarrow> ('e, 'b) um \<Rightarrow> ('e, 'b) um" where
  "on_ExecCommand ed cmd s = (if \<not> history_command cmd then fst (add ed s) else s)"

definition on_ObjectResizeStart :: "('e, 'b) editor_ops \<Rightarrow> ('e, 'b) um \<Rightarrow> ('e, 'b) um" where
  "on_ObjectResizeStart ed s = beforeChange ed s"

definition on_focusout :: "('e, 'b) editor_ops \<Rightarrow> ('e, 'b) um \<Rightarrow> ('e, 'b) um" where
  "on_focusout ed s = (if \<not> ed_removed ed (um_editor s) \<and> um_typing s then addNonTypingUndoLevel ed s else s)"

definition move_key :: "nat \<Rightarrow> bool" where
  "move_key k \<longleftrightarrow> (33 \<le> k \<and> k \<le> 36) \<or> (37 \<le> k \<and> k \<le> 40) \<or> k = 45"

definition on_KeyUp :: "('e, 'b) editor_ops \<Rightarrow> nat \<Rightarrow> bool \<Rightarrow> ('e, 'b) um \<Rightarrow> ('e, 'b) um" where
  "on_KeyUp ed keyCode ctrlKey s =
     (let s1 = (if move_key keyCode \<or> keyCode = 13 \<or> ctrlKey
                then fire FNodeChanged (addNonTypingUndoLevel ed s) else s);
          s2 = (if keyCode = 46 \<or> keyCode = 8 \<or> (ed_mac ed \<and> (keyCode = 91 \<or> keyCode = 93))
                then fire FNodeChanged s1 else s1)
      in if um_firstTyped s2 \<and> um_typing s2 then
           let s3 = (if um_isNotDirty s2 then
                       let clean = (case um_data s2 of [] \<Rightarrow> True | l # _ \<Rightarrow> getContent ed s2 = lv_content l);
                           s3 = s2\<lparr>um_isNotDirty := clean\<rparr>
                       in if \<not> clean then fire (FChange (hd_opt (um_data s3)) None) s3 else s3
                     else s2)
           in fire FNodeChanged ((fire FTypingUndo s3)\<lparr>um_firstTyped := False\<rparr>)
         else s2)"

definition on_KeyDown :: "('e, 'b) editor_ops \<Rightarrow> nat \<Rightarrow> ('e, 'b) um \<Rightarrow> ('e, 'b) um" where
  "on_KeyDown ed keyCode s =
     (if move_key keyCode then (if um_typing s then addNonTypingUndoLevel ed s else s)
      else if (keyCode < 16 \<or> keyCode > 20) \<and> keyCode \<noteq> 224 \<and> keyCode \<noteq> 91 \<and> \<not> um_typing s
      then (fst (add ed ((beforeChange ed s)\<lparr>um_typing := True\<rparr>)))\<lparr>um_firstTyped := True\<rparr>
      else s)"

definition on_MouseDown :: "('e, 'b) editor_ops \<Rightarrow> ('e, 'b) um \<Rightarrow> ('e, 'b) um" where
  "on_MouseDown ed s = (if um_typing s then addNonTypingUndoLevel ed s else s)"

definition on_changed :: "bool \<Rightarrow> ('e, 'b) um \<Rightarrow> ('e, 'b) um" where
  "on_changed defaultPrevented s = (if \<not> defaultPrevented then fire FNodeChanged s else s)"

section \<open>The trimming ends\<close>

lemma lit_length: "lit p s = Some r \<Longrightarrow> length s = length p + length r"
proof -
  assume l: "lit p s = Some r"
  then have m: "map to_lower (take (length p) s) = js p" and r: "r = drop (length p) s"
    by (auto simp: lit_def split: if_splits)
  from arg_cong [OF m, of length] r show ?thesis by simp
qed

lemma bogus_shorter:
  "bogus p q inner s = Some r \<Longrightarrow> p \<noteq> [] \<Longrightarrow> (\<And>t u. inner t = Some u \<Longrightarrow> length u \<le> length t) \<Longrightarrow> length r < length s"
proof -
  assume b: "bogus p q inner s = Some r" "p \<noteq> []" and inner: "\<And>t u. inner t = Some u \<Longrightarrow> length u \<le> length t"
  from b obtain t u where t: "lit p s = Some t" "inner (tl (dropWhile (\<lambda>c. c \<noteq> 0x3E) t)) = Some u" "lit q u = Some r"
    by (auto simp: bogus_def Let_def split: option.splits if_splits)
  have "length (dropWhile (\<lambda>c. c \<noteq> 0x3E) t) \<le> length t" by (rule length_dropWhile_le)
  with inner [OF t(2)] lit_length [OF t(1)] lit_length [OF t(3)] b(2) show ?thesis by (cases p) auto
qed

lemma selected_shorter: "selected s = Some r \<Longrightarrow> length r < length s"
proof -
  let ?attr = "\<lambda>s. case lit (''data-mce-selected='' @ [CHR 0x22]) s of None \<Rightarrow> None
        | Some t \<Rightarrow> let v = takeWhile (\<lambda>c. c \<noteq> 0x22) t; r = dropWhile (\<lambda>c. c \<noteq> 0x22) t
                   in if v \<noteq> [] \<and> r \<noteq> [] then Some (tl r) else None"
  have a: "length r < length t" if attr: "?attr t = Some r" for t
  proof -
    obtain u where u: "lit (''data-mce-selected='' @ [CHR 0x22]) t = Some u" "r = tl (dropWhile (\<lambda>c. c \<noteq> 0x22) u)"
      using attr by (auto simp: Let_def split: option.splits if_splits)
    have "length (dropWhile (\<lambda>c. c \<noteq> 0x22) u) \<le> length u" by (rule length_dropWhile_le)
    with lit_length [OF u(1)] u(2) show ?thesis by simp
  qed
  assume "selected s = Some r"
  then obtain c t where "s = c # t" "(js_space c \<and> ?attr t = Some r) \<or> ?attr s = Some r"
    unfolding selected_def Let_def by (cases s) (auto split: option.splits if_splits)
  then show ?thesis using a [of t] a [of s] by auto
qed

lemma trim_match_shorter: "trim_match s = Some r \<Longrightarrow> length r < length s"
proof -
  have z: "length u \<le> length t" if "zero_widths t = Some u" for t u
    using that by (auto simp: zero_widths_def length_dropWhile_le split: list.splits if_splits)
      (meson le_SucI length_dropWhile_le)+
  assume "trim_match s = Some r"
  then consider "bogus ''<span'' ''</span>'' zero_widths s = Some r" | "bogus ''<div'' ''</div>'' Some s = Some r" | "selected s = Some r"
    by (auto simp: trim_match_def split: option.splits)
  then show ?thesis
  proof cases
    case 1 then show ?thesis by (rule bogus_shorter) (use z in auto)
  next
    case 2 then show ?thesis by (rule bogus_shorter) auto
  next
    case 3 then show ?thesis by (rule selected_shorter)
  qed
qed

lemma trim_fuel_enough: "length s \<le> k \<Longrightarrow> trim_fuel k s = trim_fuel (length s) s"
proof (induction "length s" arbitrary: k s rule: less_induct)
  case less
  show ?case
  proof (cases s)
    case Nil
    then show ?thesis by (cases k) auto
  next
    case (Cons c t)
    then obtain j where j: "k = Suc j" "length t \<le> j" using less.prems by (cases k) auto
    show ?thesis
    proof (cases "trim_match s")
      case None
      then show ?thesis using Cons j less.hyps [of t j] by simp
    next
      case (Some r)
      then have "length r \<le> length t" using trim_match_shorter [OF Some] Cons by simp
      then have "trim_fuel j r = trim_fuel (length r) r" "trim_fuel (length t) r = trim_fuel (length r) r"
        using less.hyps [of r j] less.hyps [of r "length t"] Cons j by auto
      then show ?thesis using Cons j Some by simp
    qed
  qed
qed

section \<open>Invariant\<close>

definition um_ok :: "('e, 'b) editor_ops \<Rightarrow> ('e, 'b) um \<Rightarrow> bool" where
  "um_ok ed s \<longleftrightarrow> (um_data s = [] \<longrightarrow> um_index s = 0) \<and> (um_data s \<noteq> [] \<longrightarrow> um_index s < length (um_data s))
     \<and> (ed_levels ed \<noteq> 0 \<longrightarrow> length (um_data s) \<le> ed_levels ed + 1)
     \<and> (\<forall>l\<in>set (um_data s). lv_bookmark l \<noteq> None)"

lemma fire_sel [simp]:
  "um_data (fire f s) = um_data s" "um_index (fire f s) = um_index s" "um_editor (fire f s) = um_editor s"
  "um_typing (fire f s) = um_typing s" "um_lock (fire f s) = um_lock s"
  "um_beforeBookmark (fire f s) = um_beforeBookmark s" "um_firstTyped (fire f s) = um_firstTyped s"
  "um_isNotDirty (fire f s) = um_isNotDirty s"
  by (simp_all add: fire_def)

text \<open>The level \<open>add\<close> would store, and the test it makes first.\<close>

definition new_level :: "('e, 'b) editor_ops \<Rightarrow> ('e, 'b) um \<Rightarrow> 'b level" where
  "new_level ed s = \<lparr>lv_content = getContent ed s, lv_bookmark = Some (ed_bookmark ed (um_editor s)), lv_beforeBookmark = None\<rparr>"

definition marked :: "('e, 'b) um \<Rightarrow> 'b level list" where
  "marked s = (if um_index s < length (um_data s)
     then (um_data s)[um_index s := (um_data s ! um_index s)\<lparr>lv_beforeBookmark := um_beforeBookmark s\<rparr>]
     else um_data s)"

definition adds :: "('e, 'b) editor_ops \<Rightarrow> ('e, 'b) um \<Rightarrow> bool" where
  "adds ed s \<longleftrightarrow> \<not> um_lock s
     \<and> \<not> ed_prevents ed \<lparr>lv_content = getContent ed s, lv_bookmark = None, lv_beforeBookmark = None\<rparr> (um_editor s)
     \<and> (um_index s < length (um_data s) \<longrightarrow> lv_content (um_data s ! um_index s) \<noteq> getContent ed s)"

lemma add_refused: "\<not> adds ed s \<Longrightarrow>
    snd (add ed s) = None \<and> um_data (fst (add ed s)) = um_data s \<and> um_index (fst (add ed s)) = um_index s
    \<and> um_isNotDirty (fst (add ed s)) = um_isNotDirty s"
  by (auto simp: add_def adds_def Let_def nth_opt_def)

lemma add_taken:
  assumes "adds ed s" and "compress (ed_levels ed) (marked s) (um_index s) = (d, i)"
  shows "snd (add ed s) = Some (new_level ed s)
    \<and> um_data (fst (add ed s)) = crop d i @ [new_level ed s]
    \<and> um_index (fst (add ed s)) = length (crop d i)"
  using assms
  by (cases "um_index s < length (um_data s)")
     (simp_all add: add_def adds_def Let_def nth_opt_def new_level_def marked_def)

lemma add_keeps:
  "um_editor (fst (add ed s)) = um_editor s \<and> um_typing (fst (add ed s)) = um_typing s
   \<and> um_lock (fst (add ed s)) = um_lock s"
  by (auto simp: add_def Let_def split: prod.splits)

lemma length_marked [simp]: "length (marked s) = length (um_data s)" "marked s = [] \<longleftrightarrow> um_data s = []"
  by (simp_all add: marked_def)

lemma marked_content: "map lv_content (marked s) = map lv_content (um_data s)"
proof (cases "um_index s < length (um_data s)")
  case True
  then show ?thesis by (simp add: marked_def map_update) (simp add: list_update_same_conv)
qed (simp add: marked_def)

lemma marked_bookmarks: "\<forall>l\<in>set (um_data s). lv_bookmark l \<noteq> None \<Longrightarrow> \<forall>l\<in>set (marked s). lv_bookmark l \<noteq> None"
  by (auto simp: marked_def dest!: set_update_subset_insert [THEN subsetD])

lemma length_crop: "length (crop d i) \<le> length d"
  by (auto simp: crop_def)

lemma set_crop: "set (crop d i) \<subseteq> set d"
  by (auto simp: crop_def dest: in_set_takeD)

lemma compress_length:
  "compress n d i = (d', i') \<Longrightarrow> (n \<noteq> 0 \<longrightarrow> length d \<le> n + 1) \<Longrightarrow> set d' \<subseteq> set d \<and> (n \<noteq> 0 \<longrightarrow> length d' \<le> n)"
  by (auto simp: compress_def split: if_splits dest: list.set_sel(2) [rotated])

lemma add_ok: "um_ok ed s \<Longrightarrow> um_ok ed (fst (add ed s))"
proof -
  assume ok: "um_ok ed s"
  show ?thesis
  proof (cases "adds ed s")
    case False
    then show ?thesis using add_refused [of ed s] ok by (simp add: um_ok_def)
  next
    case True
    obtain d i where c: "compress (ed_levels ed) (marked s) (um_index s) = (d, i)" by (cases "compress (ed_levels ed) (marked s) (um_index s)")
    have d: "set d \<subseteq> set (marked s)" "ed_levels ed \<noteq> 0 \<longrightarrow> length d \<le> ed_levels ed"
      using compress_length [OF c] ok by (auto simp: um_ok_def)
    have "\<forall>l\<in>set (crop d i). lv_bookmark l \<noteq> None"
      using d(1) set_crop [of d i] marked_bookmarks [of s] ok by (auto simp: um_ok_def)
    then show ?thesis
      using add_taken [OF True c] d(2) length_crop [of d i] by (auto simp: um_ok_def new_level_def)
  qed
qed

lemma um_ok_upd [simp]:
  "um_ok ed (s\<lparr>um_typing := t\<rparr>) = um_ok ed s" "um_ok ed (s\<lparr>um_lock := l\<rparr>) = um_ok ed s"
  "um_ok ed (s\<lparr>um_firstTyped := f\<rparr>) = um_ok ed s" "um_ok ed (s\<lparr>um_editor := e\<rparr>) = um_ok ed s"
  "um_ok ed (s\<lparr>um_isNotDirty := n\<rparr>) = um_ok ed s" "um_ok ed (s\<lparr>um_beforeBookmark := b\<rparr>) = um_ok ed s"
  "um_ok ed (fire g s) = um_ok ed s"
  by (simp_all add: um_ok_def)

lemma beforeChange_ok [simp]: "um_ok ed (beforeChange ed s) = um_ok ed s"
  by (simp add: beforeChange_def)

lemma undo_ok: "um_ok ed s \<Longrightarrow> um_ok ed (fst (undo ed s))"
proof -
  assume "um_ok ed s"
  then have "um_ok ed (if um_typing s then (fst (add ed s))\<lparr>um_typing := False\<rparr> else s)" by (simp add: add_ok)
  then show ?thesis by (auto simp: undo_def Let_def um_ok_def)
qed

lemma redo_ok: "um_ok ed s \<Longrightarrow> um_ok ed (fst (redo ed s))"
  by (auto simp: redo_def Let_def um_ok_def)

lemma clear_ok: "um_ok ed s \<Longrightarrow> um_ok ed (clear s)"
  by (simp add: clear_def um_ok_def)

lemma addNonTyping_ok: "um_ok ed s \<Longrightarrow> um_ok ed (addNonTypingUndoLevel ed s)"
  by (simp add: addNonTypingUndoLevel_def add_ok)

lemma KeyDown_ok: "um_ok ed s \<Longrightarrow> um_ok ed (on_KeyDown ed k s)"
  by (simp add: on_KeyDown_def addNonTyping_ok add_ok)

lemma KeyUp_ok: "um_ok ed s \<Longrightarrow> um_ok ed (on_KeyUp ed k c s)"
  by (simp add: on_KeyUp_def addNonTyping_ok Let_def)

lemmas um_ops_ok = add_ok undo_ok redo_ok clear_ok addNonTyping_ok KeyDown_ok KeyUp_ok

section \<open>All the ways the state changes\<close>

text \<open>
  The calls and events of a session, in any order: the operations, the handlers, changes of the
  editor by others, and a transaction as its beginning and end around what the callback does.
\<close>

inductive um_step :: "('e, 'b) editor_ops \<Rightarrow> ('e, 'b) um \<Rightarrow> ('e, 'b) um \<Rightarrow> bool" for ed where
  edited: "um_step ed s (s\<lparr>um_editor := e\<rparr>)"
| before: "um_step ed s (beforeChange ed s)"
| added: "um_step ed s (fst (add ed s))"
| undone: "um_step ed s (fst (undo ed s))"
| redone: "um_step ed s (fst (redo ed s))"
| cleared: "um_step ed s (clear s)"
| transact_begin: "um_step ed s ((beforeChange ed s)\<lparr>um_lock := True\<rparr>)"
| transact_end: "um_step ed s (fst (add ed (s\<lparr>um_lock := False\<rparr>)))"
| init: "um_step ed s (on_init ed s)"
| before_command: "um_step ed s (on_BeforeExecCommand ed cmd s)"
| command: "um_step ed s (on_ExecCommand ed cmd s)"
| resize: "um_step ed s (on_ObjectResizeStart ed s)"
| non_typing: "um_step ed s (addNonTypingUndoLevel ed s)"
| focusout: "um_step ed s (on_focusout ed s)"
| key_up: "um_step ed s (on_KeyUp ed k c s)"
| key_down: "um_step ed s (on_KeyDown ed k s)"
| mouse_down: "um_step ed s (on_MouseDown ed s)"
| changed: "um_step ed s (on_changed p s)"

inductive_cases um_stepE: "um_step ed s s'"

lemma um_step_ok: "um_step ed s s' \<Longrightarrow> um_ok ed s \<Longrightarrow> um_ok ed s'"
  by (induction rule: um_step.induct)
     (simp_all add: um_ops_ok on_init_def on_BeforeExecCommand_def on_ExecCommand_def on_ObjectResizeStart_def
        on_focusout_def on_MouseDown_def on_changed_def)

lemma um_reach_ok: "(um_step ed)\<^sup>*\<^sup>* s s' \<Longrightarrow> um_ok ed s \<Longrightarrow> um_ok ed s'"
  by (induction rule: rtranclp_induct) (auto intro: um_step_ok)

lemma init_ok: "um_ok ed (init_um e d)"
  by (simp add: init_um_def um_ok_def)

section \<open>Undo and redo\<close>

text \<open>
  The contract of a linear history: moving back and forth changes the position by one and leaves
  the levels alone. Any number of moves back is undone by as many forth.
\<close>

locale history =
  fixes inv :: "'s \<Rightarrow> bool" and levels :: "'s \<Rightarrow> 'l list" and pos :: "'s \<Rightarrow> nat"
    and backward :: "'s \<Rightarrow> 's" and forward :: "'s \<Rightarrow> 's"
  assumes backward: "inv s \<Longrightarrow> 0 < pos s \<Longrightarrow> inv (backward s) \<and> levels (backward s) = levels s \<and> pos (backward s) = pos s - 1"
    and forward: "inv s \<Longrightarrow> Suc (pos s) < length (levels s) \<Longrightarrow>
      inv (forward s) \<and> levels (forward s) = levels s \<and> pos (forward s) = Suc (pos s)"
begin

lemma back_many: "inv s \<Longrightarrow> n \<le> pos s \<Longrightarrow>
    inv ((backward ^^ n) s) \<and> levels ((backward ^^ n) s) = levels s \<and> pos ((backward ^^ n) s) = pos s - n"
  by (induction n) (auto simp: backward)

lemma forth_many: "inv s \<Longrightarrow> pos s + n < length (levels s) \<Longrightarrow>
    inv ((forward ^^ n) s) \<and> levels ((forward ^^ n) s) = levels s \<and> pos ((forward ^^ n) s) = pos s + n"
  by (induction n) (auto simp: forward)

lemma there_and_back: "inv s \<Longrightarrow> n \<le> pos s \<Longrightarrow> pos s < length (levels s) \<Longrightarrow>
    levels ((forward ^^ n) ((backward ^^ n) s)) = levels s \<and> pos ((forward ^^ n) ((backward ^^ n) s)) = pos s"
  using back_many [of s n] forth_many [of "(backward ^^ n) s" n] by simp

end

lemma undo_moves:
  "\<not> um_typing s \<Longrightarrow> 0 < um_index s \<Longrightarrow>
   fst (undo ed s) = fire (FUndo (um_data s ! (um_index s - 1)))
     (s\<lparr>um_index := um_index s - 1, um_isNotDirty := (um_index s = 1 \<or> um_isNotDirty s),
        um_editor := ed_moveTo ed (lv_beforeBookmark (um_data s ! (um_index s - 1)))
          (ed_set ed (lv_content (um_data s ! (um_index s - 1))) (um_editor s))\<rparr>)"
  by (cases "um_index s = 1") (simp_all add: undo_def Let_def)

lemma redo_moves:
  "Suc (um_index s) < length (um_data s) \<Longrightarrow>
   fst (redo ed s) = fire (FRedo (um_data s ! Suc (um_index s)))
     (s\<lparr>um_index := Suc (um_index s),
        um_editor := ed_moveTo ed (lv_bookmark (um_data s ! Suc (um_index s)))
          (ed_set ed (lv_content (um_data s ! Suc (um_index s))) (um_editor s))\<rparr>)"
  by (simp add: redo_def Let_def)

interpretation um: history "\<lambda>s. \<not> um_typing s" um_data um_index "\<lambda>s. fst (undo ed s)" "\<lambda>s. fst (redo ed s)"
  by unfold_locales (simp_all add: undo_moves redo_moves)

text \<open>What the manager relies on of the editor: content that was set is read backward, and moving the
  selection leaves it.\<close>

definition faithful :: "('e, 'b) editor_ops \<Rightarrow> bool" where
  "faithful ed \<longleftrightarrow> (\<forall>c e. ed_raw ed (ed_set ed c e) = c) \<and> (\<forall>b e. ed_raw ed (ed_moveTo ed b e) = ed_raw ed e)"

lemma undo_content: "faithful ed \<Longrightarrow> \<not> um_typing s \<Longrightarrow> 0 < um_index s \<Longrightarrow>
    ed_raw ed (um_editor (fst (undo ed s))) = lv_content (um_data s ! (um_index s - 1))"
  by (simp add: undo_moves faithful_def)

lemma redo_content: "faithful ed \<Longrightarrow> Suc (um_index s) < length (um_data s) \<Longrightarrow>
    ed_raw ed (um_editor (fst (redo ed s))) = lv_content (um_data s ! Suc (um_index s))"
  by (simp add: redo_moves faithful_def)

definition room :: "('e, 'b) editor_ops \<Rightarrow> ('e, 'b) um \<Rightarrow> bool" where
  "room ed s \<longleftrightarrow> ed_levels ed = 0 \<or> length (um_data s) \<le> ed_levels ed"

lemma add_with_room:
  assumes "adds ed s" and "room ed s" and "um_index s < length (um_data s)"
  shows "um_data (fst (add ed s)) = take (Suc (um_index s)) (marked s) @ [new_level ed s]"
    and "um_index (fst (add ed s)) = Suc (um_index s)"
proof -
  have "compress (ed_levels ed) (marked s) (um_index s) = (marked s, um_index s)"
    using assms(2) by (auto simp: compress_def room_def)
  moreover have "crop (marked s) (um_index s) = take (Suc (um_index s)) (marked s)"
    using assms(3) by (auto simp: crop_def)
  ultimately show "um_data (fst (add ed s)) = take (Suc (um_index s)) (marked s) @ [new_level ed s]"
    and "um_index (fst (add ed s)) = Suc (um_index s)"
    using add_taken [OF assms(1)] assms(3) by auto
qed

lemma marked_nth: "i < length (um_data s) \<Longrightarrow> lv_content (marked s ! i) = lv_content (um_data s ! i)"
  using marked_content [of s] by (metis length_marked(1) nth_map)

section \<open>Transactions\<close>

text \<open>What a callback does while the manager is locked.\<close>

datatype 'e call = Edit "'e \<Rightarrow> 'e" | AddLevel | BeforeChange

fun run_call :: "('e, 'b) editor_ops \<Rightarrow> 'e call \<Rightarrow> ('e, 'b) um \<Rightarrow> ('e, 'b) um" where
  "run_call ed (Edit g) s = s\<lparr>um_editor := g (um_editor s)\<rparr>"
| "run_call ed AddLevel s = fst (add ed s)"
| "run_call ed BeforeChange s = beforeChange ed s"

fun edits :: "'e call list \<Rightarrow> 'e \<Rightarrow> 'e" where
  "edits [] e = e"
| "edits (Edit g # cs) e = edits cs (g e)"
| "edits (_ # cs) e = edits cs e"

lemma locked_calls: "um_lock s \<Longrightarrow> fold (run_call ed) cs s = s\<lparr>um_editor := edits cs (um_editor s)\<rparr>"
proof (induction cs arbitrary: s)
  case (Cons c cs)
  then show ?case by (cases c) (auto simp: add_def beforeChange_def)
qed simp

section \<open>Properties\<close>

text \<open>C22. In every state a session can reach, by any sequence of calls, key and mouse events,
  commands, transactions and edits, the position is a valid index of the levels (0 when there is
  none), the number of levels never exceeds the configured limit by more than one, and every
  level has a bookmark.\<close>

theorem undo_levels_bounded:
  assumes "(um_step ed)\<^sup>*\<^sup>* (init_um e d) s"
  shows "(um_data s = [] \<longrightarrow> um_index s = 0) \<and> (um_data s \<noteq> [] \<longrightarrow> um_index s < length (um_data s))
    \<and> (ed_levels ed \<noteq> 0 \<longrightarrow> length (um_data s) \<le> ed_levels ed + 1)
    \<and> (\<forall>l\<in>set (um_data s). lv_bookmark l \<noteq> None)"
  using um_reach_ok [OF assms init_ok] by (simp add: um_ok_def)

text \<open>A plain text editor, for the concrete cases.\<close>

definition text_editor :: "nat \<Rightarrow> (ustring, unit) editor_ops" where
  "text_editor n = \<lparr>ed_raw = (\<lambda>e. e), ed_set = (\<lambda>c e. c), ed_bookmark = (\<lambda>e. ()), ed_moveTo = (\<lambda>b e. e),
     ed_prevents = (\<lambda>l e. False), ed_removed = (\<lambda>e. False), ed_levels = n, ed_mac = False\<rparr>"

definition lev :: "string \<Rightarrow> unit level" where
  "lev c = \<lparr>lv_content = js c, lv_bookmark = Some (), lv_beforeBookmark = None\<rparr>"

definition text_state :: "string list \<Rightarrow> nat \<Rightarrow> string \<Rightarrow> (ustring, unit) um" where
  "text_state ls i c = (init_um (js c) True)\<lparr>um_data := map lev ls, um_index := i\<rparr>"

theorem undo_levels_bounded_witness:
  "\<exists>s. (um_step (text_editor 3))\<^sup>*\<^sup>* (init_um (js ''a'') True) s \<and> um_data s \<noteq> [] \<and> um_index s < length (um_data s)"
proof -
  let ?s = "on_init (text_editor 3) (init_um (js ''a'') True)"
  have r: "(um_step (text_editor 3))\<^sup>*\<^sup>* (init_um (js ''a'') True) ?s" by (intro r_into_rtranclp um_step.init)
  have "um_data ?s \<noteq> []"
    by (simp add: on_init_def add_def init_um_def text_editor_def Let_def nth_opt_def compress_def crop_def)
  with r undo_levels_bounded [OF r] show ?thesis by blast
qed

text \<open>C26. Undo after a change returns to the level before it, and redo to the change: when the
  history has room, adding a level for changed content and undoing restores the content and the
  position of before, and redoing then restores the new content; what had been undone before the
  change is dropped.\<close>

theorem add_undo_redo:
  assumes "faithful ed" and "adds ed s" and "room ed s" and "um_index s < length (um_data s)" and "\<not> um_typing s"
  shows "let s1 = fst (add ed s); s2 = fst (undo ed s1); s3 = fst (redo ed s2) in
     length (um_data s1) = um_index s + 2
   \<and> um_index s2 = um_index s \<and> ed_raw ed (um_editor s2) = lv_content (um_data s ! um_index s)
   \<and> um_index s3 = um_index s1 \<and> um_data s3 = um_data s1 \<and> ed_raw ed (um_editor s3) = getContent ed s"
proof -
  let ?s1 = "fst (add ed s)" and ?s2 = "fst (undo ed (fst (add ed s)))"
  note a = add_with_room [OF assms(2-4)]
  have t: "\<not> um_typing ?s1" using add_keeps [of ed s] assms(5) by simp
  have i: "0 < um_index ?s1" "um_index ?s1 - 1 = um_index s" by (simp_all add: a(2))
  have d2: "um_data ?s2 = um_data ?s1" "um_index ?s2 = um_index s" "\<not> um_typing ?s2"
    using undo_moves [OF t i(1), of ed] t i(2) by simp_all
  have r: "Suc (um_index ?s2) < length (um_data ?s2)" using a d2 assms(4) by simp
  have "ed_raw ed (um_editor ?s2) = lv_content (um_data s ! um_index s)"
    using undo_content [OF assms(1) t i(1)] assms(4) by (simp add: a nth_append marked_nth)
  moreover have "ed_raw ed (um_editor (fst (redo ed ?s2))) = getContent ed s"
    using redo_content [OF assms(1) r] d2 a(1) assms(4) by (simp add: nth_append new_level_def)
  moreover have "um_index (fst (redo ed ?s2)) = um_index ?s1" "um_data (fst (redo ed ?s2)) = um_data ?s1"
    using redo_moves [OF r, of ed] d2 a(2) by simp_all
  moreover have "length (um_data ?s1) = um_index s + 2" using a(1) assms(4) by simp
  ultimately show ?thesis using d2 by (simp add: Let_def)
qed

theorem add_undo_redo_witness:
  "let s = text_state [''a'', ''b'', ''c''] 1 ''x''; s1 = fst (add (text_editor 0) s);
       s2 = fst (undo (text_editor 0) s1); s3 = fst (redo (text_editor 0) s2) in
     length (um_data s1) = 3 \<and> um_index s2 = 1 \<and> um_editor s2 = js ''b'' \<and> um_editor s3 = js ''x''"
proof -
  let ?s = "text_state [''a'', ''b'', ''c''] 1 ''x''"
  have c: "getContent (text_editor 0) ?s = js ''x''"
    by (simp add: getContent_def text_editor_def text_state_def init_um_def trim_content_def trim_match_def
        bogus_def lit_def selected_def trim_def strip_def js_space_def to_lower_def js_def)
  have h: "faithful (text_editor 0)" "adds (text_editor 0) ?s" "room (text_editor 0) ?s"
    "um_index ?s < length (um_data ?s)" "\<not> um_typing ?s"
    using c by (simp_all add: faithful_def adds_def room_def text_state_def init_um_def lev_def, simp_all add: text_editor_def)
  from add_undo_redo [OF h] c show ?thesis
    by (simp add: Let_def text_editor_def text_state_def init_um_def lev_def)
qed


text \<open>Undoing any number of levels and redoing as many gives back the same levels at the same
  position.\<close>

lemma undo_redo_many:
  assumes "\<not> um_typing s" and "n \<le> um_index s" and "um_index s < length (um_data s)"
  shows "um_data (((\<lambda>s. fst (redo ed s)) ^^ n) (((\<lambda>s. fst (undo ed s)) ^^ n) s)) = um_data s
    \<and> um_index (((\<lambda>s. fst (redo ed s)) ^^ n) (((\<lambda>s. fst (undo ed s)) ^^ n) s)) = um_index s"
  by (rule um.there_and_back [OF assms])


text \<open>A transaction makes at most one level: whatever edits and calls to the manager the callback
  makes, the levels afterwards are those of the single \<open>add\<close> after the last edit.\<close>

lemma transact_one_level:
  assumes "\<not> um_lock s"
  shows "transact ed (fold (run_call ed) cs) s =
     fst (add ed ((beforeChange ed s)\<lparr>um_editor := edits cs (um_editor s)\<rparr>))
   \<and> length (um_data (transact ed (fold (run_call ed) cs) s)) \<le> length (um_data s) + 1"
proof -
  let ?s = "(beforeChange ed s)\<lparr>um_editor := edits cs (um_editor s)\<rparr>"
  have "transact ed (fold (run_call ed) cs) s = fst (add ed ?s)"
    using assms by (cases s) (simp add: transact_def locked_calls beforeChange_def)
  moreover have "length (um_data (fst (add ed ?s))) \<le> length (um_data s) + 1"
  proof (cases "adds ed ?s")
    case True
    obtain d i where c: "compress (ed_levels ed) (marked ?s) (um_index ?s) = (d, i)"
      by (cases "compress (ed_levels ed) (marked ?s) (um_index ?s)")
    have "um_data ?s = um_data s" by (simp add: beforeChange_def)
    moreover have "length d \<le> length (marked ?s)" using c by (auto simp: compress_def split: if_splits)
    ultimately have "length d \<le> length (um_data s)" by (simp only: length_marked)
    then show ?thesis using add_taken [OF True c] length_crop [of d i] by simp
  next
    case False
    then show ?thesis using add_refused [of ed ?s] by (simp add: beforeChange_def)
  qed
  ultimately show ?thesis by simp
qed


text \<open>C40. A full history forgets where it is: when the number of levels exceeds the limit and some
  levels have been undone, a change does not drop the undone levels but is put after them, and
  undoing the change then goes to the last undone level and not to the content of before.\<close>

theorem full_history_keeps_undone:
  assumes "faithful ed" and "adds ed s" and "ed_levels ed \<noteq> 0" and "ed_levels ed < length (um_data s)"
    and "um_index s < length (um_data s) - 1" and "\<not> um_typing s"
  shows "um_data (fst (add ed s)) = tl (marked s) @ [new_level ed s]
    \<and> ed_raw ed (um_editor (fst (undo ed (fst (add ed s))))) = lv_content (last (um_data s))"
proof -
  let ?s1 = "fst (add ed s)" and ?n = "length (um_data s)"
  have c: "compress (ed_levels ed) (marked s) (um_index s) = (tl (marked s), ?n - 1)"
    using assms(3,4) by (simp add: compress_def)
  have "crop (tl (marked s)) (?n - 1) = tl (marked s)" by (simp add: crop_def)
  with add_taken [OF assms(2) c] have d: "um_data ?s1 = tl (marked s) @ [new_level ed s]" and i: "um_index ?s1 = ?n - 1"
    by auto
  have n: "?n > 1" using assms(5) by linarith
  have t: "\<not> um_typing ?s1" using add_keeps [of ed s] assms(6) by simp
  have "ed_raw ed (um_editor (fst (undo ed ?s1))) = lv_content (um_data ?s1 ! (?n - 2))"
    using undo_content [OF assms(1) t] i n by (simp add: numeral_2_eq_2)
  also have "um_data ?s1 ! (?n - 2) = marked s ! (?n - 1)"
    using d n by (simp add: nth_append nth_tl Suc_diff_Suc numeral_2_eq_2)
  also have "lv_content (marked s ! (?n - 1)) = lv_content (last (um_data s))"
    using marked_nth [of "?n - 1" s] n by (metis One_nat_def diff_less last_conv_nth length_greater_0_conv less_trans zero_less_one)
  finally show ?thesis using d by simp
qed

theorem full_history_keeps_undone_witness:
  "ed_raw (text_editor 1) (um_editor (fst (undo (text_editor 1) (fst (add (text_editor 1)
      (text_state [''a'', ''b''] 0 ''x'')))))) = js ''b''"
proof -
  let ?s = "text_state [''a'', ''b''] 0 ''x''"
  have c: "getContent (text_editor 1) ?s = js ''x''"
    by (simp add: getContent_def text_editor_def text_state_def init_um_def trim_content_def trim_match_def
        bogus_def lit_def selected_def trim_def strip_def js_space_def to_lower_def js_def)
  have h: "faithful (text_editor 1)" "adds (text_editor 1) ?s" "ed_levels (text_editor 1) \<noteq> 0"
    "ed_levels (text_editor 1) < length (um_data ?s)" "um_index ?s < length (um_data ?s) - 1" "\<not> um_typing ?s"
    using c by (simp_all add: faithful_def adds_def text_state_def init_um_def lev_def, simp_all add: text_editor_def)
  from full_history_keeps_undone [OF h] show ?thesis by (simp add: text_state_def lev_def)
qed

end
