(* ===== verification/OwlStates.thy ===== *)
theory OwlStates
  imports JsBase
begin

text \<open>
  The state counters and the suppressed events of the carousel
  (\<open>server/html/js/owl.carousel.js\<close>: \<open>is\<close>, \<open>enter\<close>, \<open>leave\<close>, \<open>register\<close>, \<open>suppress\<close>, \<open>release\<close>).
  A state is counted, so that it can be entered more than once, and entering it also counts its
  tags. A counter that is decremented before it exists becomes NaN and stays it.
\<close>

section \<open>Counters\<close>

datatype count = Num int | NaN

record states =
  st_current :: "string \<rightharpoonup> count"
  st_tags :: "string \<rightharpoonup> string list"

definition init_states :: states where
  "init_states = \<lparr>st_current = Map.empty,
     st_tags = [''initializing'' \<mapsto> [''busy''], ''animating'' \<mapsto> [''busy''], ''dragging'' \<mapsto> [''interacting'']]\<rparr>"

definition is_state :: "string \<Rightarrow> states \<Rightarrow> bool" where
  "is_state name s \<longleftrightarrow> (case st_current s name of Some (Num n) \<Rightarrow> n > 0 | _ \<Rightarrow> False)"

definition with_tags :: "states \<Rightarrow> string \<Rightarrow> string list" where
  "with_tags s name = name # (case st_tags s name of Some ts \<Rightarrow> ts | None \<Rightarrow> [])"

definition count_up :: "string \<Rightarrow> states \<Rightarrow> states" where
  "count_up name s = s\<lparr>st_current := (st_current s)(name \<mapsto>
     (case st_current s name of None \<Rightarrow> Num 1 | Some (Num n) \<Rightarrow> Num (n + 1) | Some NaN \<Rightarrow> NaN))\<rparr>"

definition count_down :: "string \<Rightarrow> states \<Rightarrow> states" where
  "count_down name s = s\<lparr>st_current := (st_current s)(name \<mapsto>
     (case st_current s name of None \<Rightarrow> NaN | Some (Num n) \<Rightarrow> Num (n - 1) | Some NaN \<Rightarrow> NaN))\<rparr>"

definition enter :: "string \<Rightarrow> states \<Rightarrow> states" where
  "enter name s = fold count_up (with_tags s name) s"

definition leave :: "string \<Rightarrow> states \<Rightarrow> states" where
  "leave name s = fold count_down (with_tags s name) s"

text \<open>Registering a state adds its tags and keeps the first of each.\<close>

fun first_occurrences :: "'a list \<Rightarrow> 'a list \<Rightarrow> 'a list" where
  "first_occurrences seen [] = []"
| "first_occurrences seen (t # ts) =
     (if t \<in> set seen then first_occurrences seen ts else t # first_occurrences (t # seen) ts)"

definition register_state :: "string \<Rightarrow> string list \<Rightarrow> states \<Rightarrow> states" where
  "register_state name tags s = s\<lparr>st_tags := (st_tags s)(name \<mapsto>
     first_occurrences [] (case st_tags s name of None \<Rightarrow> tags | Some ts \<Rightarrow> ts @ tags))\<rparr>"

definition suppress :: "string list \<Rightarrow> string set \<Rightarrow> string set" where
  "suppress events muted = muted \<union> set events"

definition release :: "string list \<Rightarrow> string set \<Rightarrow> string set" where
  "release events muted = muted - set events"

section \<open>Registering event types\<close>

text \<open>
  \<open>register\<close> for an event wraps the default action of the jQuery event type once: for events
  of the carousel's namespace the default is prevented, for others the old default runs. The
  table of special events is shared by all carousels of a page.
\<close>

record special =
  sp_owl :: bool
  sp_default :: "(bool \<Rightarrow> bool) option"

definition wrapped :: "(bool \<Rightarrow> bool) option \<Rightarrow> bool \<Rightarrow> bool" where
  "wrapped old owl_event =
     (case old of Some f \<Rightarrow> if \<not> owl_event then f owl_event else True | None \<Rightarrow> owl_event)"

definition register_event :: "string \<Rightarrow> (string \<rightharpoonup> special) \<Rightarrow> string \<rightharpoonup> special" where
  "register_event name table =
     (let sp = (case table name of Some sp \<Rightarrow> sp | None \<Rightarrow> \<lparr>sp_owl = False, sp_default = None\<rparr>)
      in if sp_owl sp then table(name \<mapsto> sp)
         else table(name \<mapsto> \<lparr>sp_owl = True, sp_default = Some (wrapped (sp_default sp))\<rparr>))"

section \<open>Lemmas\<close>

lemma count_sel [simp]: "st_tags (count_up n s) = st_tags s" "st_tags (count_down n s) = st_tags s"
  by (simp_all add: count_up_def count_down_def)

lemma fold_count_tags [simp]:
  "st_tags (fold count_up ns s) = st_tags s" "st_tags (fold count_down ns s) = st_tags s"
  by (induction ns arbitrary: s) simp_all

lemma enter_tags [simp]: "st_tags (enter n s) = st_tags s" "st_tags (leave n s) = st_tags s"
  by (simp_all add: enter_def leave_def)

text \<open>The value of a counter: 0 when it does not exist; None for NaN.\<close>

definition val :: "states \<Rightarrow> string \<Rightarrow> int option" where
  "val s k = (case st_current s k of None \<Rightarrow> Some 0 | Some (Num n) \<Rightarrow> Some n | Some NaN \<Rightarrow> None)"

lemma is_state_val: "is_state k s \<longleftrightarrow> (case val s k of Some n \<Rightarrow> n > 0 | None \<Rightarrow> False)"
  by (auto simp: is_state_def val_def split: option.splits count.splits)

lemma val_up: "val (count_up n s) k = (if k = n then map_option (\<lambda>v. v + 1) (val s k) else val s k)"
  by (auto simp: val_def count_up_def split: option.splits count.splits)

lemma val_fold_up:
  "val (fold count_up ns s) k = map_option (\<lambda>v. v + int (count_list ns k)) (val s k)"
proof (induction ns arbitrary: s)
  case (Cons n ns)
  then show ?case by (cases "val s k") (auto simp: val_up)
qed (simp add: option.map_ident)

text \<open>The counters that exist and are numbers; only these can be counted down.\<close>

definition counted :: "states \<Rightarrow> string \<Rightarrow> bool" where
  "counted s k \<longleftrightarrow> (\<exists>n. st_current s k = Some (Num n))"

lemma val_down: "counted s n \<Longrightarrow> val (count_down n s) k = (if k = n then map_option (\<lambda>v. v - 1) (val s k) else val s k)"
  by (auto simp: val_def count_down_def counted_def split: option.splits count.splits)

lemma counted_down: "counted s n \<Longrightarrow> counted (count_down n s) k = counted s k"
  by (auto simp: counted_def count_down_def)

lemma val_fold_down:
  "\<forall>n\<in>set ns. counted s n \<Longrightarrow> val (fold count_down ns s) k = map_option (\<lambda>v. v - int (count_list ns k)) (val s k)"
proof (induction ns arbitrary: s)
  case (Cons n ns)
  then have "\<forall>m\<in>set ns. counted (count_down n s) m" by (simp add: counted_down)
  with Cons show ?case by (cases "val s k") (auto simp: val_down)
qed (simp add: option.map_ident)

lemma counted_up: "val s n \<noteq> None \<Longrightarrow> counted (count_up n s) n"
  by (auto simp: counted_def count_up_def val_def split: option.splits count.splits)

lemma counted_up_other: "k \<noteq> n \<Longrightarrow> counted (count_up n s) k = counted s k"
  by (auto simp: counted_def count_up_def)

lemma counted_fold_up: "\<forall>n\<in>set ns. val s n \<noteq> None \<Longrightarrow> k \<in> set ns \<or> counted s k \<Longrightarrow> counted (fold count_up ns s) k"
proof (induction ns arbitrary: s)
  case (Cons n ns)
  have "\<forall>m\<in>set ns. val (count_up n s) m \<noteq> None" using Cons.prems(1) by (auto simp: val_up)
  moreover have "k \<in> set ns \<or> counted (count_up n s) k"
    using Cons.prems counted_up [of s n] counted_up_other [of k n s] by (cases "k = n") auto
  ultimately show ?case using Cons.IH by simp
qed simp

lemma first_occurrences_distinct:
  "distinct (first_occurrences seen ts) \<and> set (first_occurrences seen ts) = set ts - set seen"
  by (induction seen ts rule: first_occurrences.induct) auto

section \<open>Properties\<close>


text \<open>Entering a state makes the carousel be in it and in each of its tags, as long as the counters
  are not negative, and leaving it again puts every counter back where it was: states nest.\<close>

lemma enter_leave_nested:
  assumes "\<forall>k. val s k \<noteq> None"
  shows "(\<forall>k. val (leave name (enter name s)) k = val s k)
    \<and> (\<forall>m\<in>set (with_tags s name). 0 \<le> the (val s m) \<longrightarrow> is_state m (enter name s))"
proof (intro conjI allI ballI impI)
  let ?ns = "with_tags s name"
  have v: "val (enter name s) k = map_option (\<lambda>v. v + int (count_list ?ns k)) (val s k)" for k
    by (simp add: enter_def val_fold_up)
  have "with_tags (enter name s) name = ?ns" by (simp add: with_tags_def)
  moreover have "\<forall>n\<in>set ?ns. counted (enter name s) n"
    using assms counted_fold_up [of ?ns s] by (simp add: enter_def)
  ultimately show "val (leave name (enter name s)) k = val s k" for k
    using v [of k] val_fold_down [of ?ns "enter name s" k]
    by (cases "val s k") (simp_all add: leave_def)
  fix m assume m: "m \<in> set ?ns" "0 \<le> the (val s m)"
  obtain w where w: "val s m = Some w" "w \<ge> 0" using assms m(2) by fastforce
  have "count_list ?ns m > 0" using m(1) by (metis count_list_0_iff gr0I)
  then show "is_state m (enter name s)" using v [of m] w by (simp add: is_state_val)
qed


text \<open>Leaving a state that was never entered breaks it for good: its counter becomes NaN, and the
  carousel can never again be in that state, however often it is entered.\<close>

lemma leave_unentered_sticks:
  assumes "st_current s name = None"
  shows "\<not> is_state name ((enter name ^^ n) (leave name s))"
proof -
  have nan: "val (fold count_down ns t) name = None" if "val t name = None" for ns t
    using that
  proof (induction ns arbitrary: t)
    case (Cons a ns)
    have "val (count_down a t) name = None"
      using Cons.prems by (auto simp: val_def count_down_def split: option.splits count.splits)
    then show ?case using Cons.IH by simp
  qed simp
  have "val (count_down name s) name = None" using assms by (simp add: val_def count_down_def)
  then have "val (leave name s) name = None" using nan by (simp add: leave_def with_tags_def)
  then have "val ((enter name ^^ n) (leave name s)) name = None"
    by (induction n) (simp_all add: enter_def val_fold_up)
  then show ?thesis by (simp add: is_state_val)
qed


end
