(* ===== verification/OwlCore.thy ===== *)
theory OwlCore
  imports OwlStates Complex_Main "HOL-Library.Signed_Division"
begin

text \<open>
  The core of the carousel (\<open>server/html/js/owl.carousel.js\<close>): its state as the record \<open>owl\<close>,
  positions and coordinates, the current position and the translation of the stage. Positions are
  integers, pixels and times are rational numbers; NaN and undefined results are None. The
  elements of the page enter by the record \<open>dom\<close> of what the code measures, items are named by
  numbers, and the public events are recorded in the order they are triggered. What a listener of
  the change event puts into its data is the parameter \<open>dm_change\<close>.
\<close>

section \<open>The state\<close>

record settings =
  se_items :: int
  se_loop :: bool
  se_center :: bool
  se_rewind :: bool
  se_checkVisibility :: bool
  se_pullDrag :: bool
  se_freeDrag :: bool
  se_margin :: rat
  se_stagePadding :: rat
  se_merge :: bool
  se_mergeFit :: bool
  se_autoWidth :: bool
  se_startPosition :: "int option"
  se_rtl :: bool
  se_smartSpeed :: rat
  se_dragEndSpeed :: rat

definition Defaults :: settings where
  "Defaults = \<lparr>se_items = 3, se_loop = False, se_center = False, se_rewind = False,
     se_checkVisibility = True, se_pullDrag = True, se_freeDrag = False, se_margin = 0,
     se_stagePadding = 0, se_merge = False, se_mergeFit = True, se_autoWidth = False,
     se_startPosition = Some 0, se_rtl = False, se_smartSpeed = 250, se_dragEndSpeed = 0\<rparr>"

record dom =
  dm_width :: rat
  dm_viewport :: rat
  dm_itemWidth :: "nat \<Rightarrow> rat"
  dm_visible :: bool
  dm_change :: "int \<Rightarrow> int option"

datatype part = PWidth | PItems | PSettings | PPosition | PAll

text \<open>A child of the stage: an item or a clone of it.\<close>

record child =
  ch_item :: nat
  ch_cloned :: bool

record css =
  css_width :: "rat option"
  css_marginLeft :: rat
  css_marginRight :: rat

record owl =
  ow_options :: settings
  ow_responsive :: "(rat \<times> (settings \<Rightarrow> settings)) list"
  ow_breakpoint :: rat
  ow_settings :: settings
  ow_current :: "int option"
  ow_speed :: "rat option"
  ow_coordinates :: "rat list"
  ow_width :: rat
  ow_items :: "nat list"
  ow_clones :: "int list"
  ow_mergers :: "rat list"
  ow_widths :: "rat list"
  ow_invalidated :: "part set"
  ow_states :: states
  ow_supress :: "string set"
  ow_stage :: "child list"
  ow_translate :: "rat option"
  ow_stageCss :: "(rat option \<times> rat) option"
  ow_childCss :: "css list"
  ow_active :: "nat list"
  ow_centered :: "int option"
  ow_events :: "string list"

definition nth_int :: "'a list \<Rightarrow> int \<Rightarrow> 'a option" where
  "nth_int xs i = (if 0 \<le> i then nth_opt xs (nat i) else None)"

text \<open>An expression \<open>x || 0\<close> where \<open>x\<close> may be undefined.\<close>

definition or_zero :: "rat option \<Rightarrow> rat" where
  "or_zero x = (case x of Some v \<Rightarrow> v | None \<Rightarrow> 0)"

section \<open>States, events, invalidation\<close>

definition is_in :: "string \<Rightarrow> owl \<Rightarrow> bool" where
  "is_in name s \<longleftrightarrow> is_state name (ow_states s)"

definition enter_st :: "string \<Rightarrow> owl \<Rightarrow> owl" where
  "enter_st name s = s\<lparr>ow_states := enter name (ow_states s)\<rparr>"

definition leave_st :: "string \<Rightarrow> owl \<Rightarrow> owl" where
  "leave_st name s = s\<lparr>ow_states := leave name (ow_states s)\<rparr>"

definition trigger :: "string \<Rightarrow> owl \<Rightarrow> owl" where
  "trigger name s = (if name \<notin> ow_supress s then s\<lparr>ow_events := ow_events s @ [name]\<rparr> else s)"

definition invalidate :: "part \<Rightarrow> owl \<Rightarrow> owl" where
  "invalidate p s =
     (let s1 = s\<lparr>ow_invalidated := insert p (ow_invalidated s)\<rparr>
      in if is_in ''valid'' s1 then leave_st ''valid'' s1 else s1)"

section \<open>Positions\<close>

definition half_clones :: "owl \<Rightarrow> int" where
  "half_clones s = int (length (ow_clones s)) div 2"

text \<open>
  \<open>((x % n) + n) % n\<close>, with the remainder of the language, which has the sign of the dividend.
\<close>

definition wrap_mod :: "int \<Rightarrow> int \<Rightarrow> int" where
  "wrap_mod x n = (x smod n + n) smod n"

definition normalize :: "owl \<Rightarrow> int \<Rightarrow> bool \<Rightarrow> int option" where
  "normalize s position rel =
     (let n = int (length (ow_items s)); m = (if rel then 0 else int (length (ow_clones s)))
      in if n < 1 then None
         else if position < 0 \<or> position \<ge> n + m then Some (wrap_mod (position - m div 2) n + m div 2)
         else Some position)"

definition relative :: "owl \<Rightarrow> int \<Rightarrow> int option" where
  "relative s position = normalize s (position - half_clones s) True"

definition minimum :: "owl \<Rightarrow> bool \<Rightarrow> int" where
  "minimum s rel = (if rel then 0 else half_clones s)"

text \<open>The items are measured from the last one back until they fill the element.\<close>

fun fill_back :: "(nat \<Rightarrow> rat) \<Rightarrow> rat \<Rightarrow> rat \<Rightarrow> nat \<Rightarrow> rat \<Rightarrow> int" where
  "fill_back w margin full 0 acc = -1"
| "fill_back w margin full (Suc i) acc =
     (let acc' = acc + w i + margin in if acc' > full then int i else fill_back w margin full i acc')"

definition maximum :: "dom \<Rightarrow> owl \<Rightarrow> bool \<Rightarrow> int" where
  "maximum d s rel =
     (let se = ow_settings s;
          n = length (ow_items s);
          m = (if se_loop se then half_clones s + int n - 1
               else if se_autoWidth se \<or> se_merge se then
                 (if n = 0 then 1
                  else fill_back (\<lambda>i. dm_itemWidth d (ow_items s ! i)) (se_margin se) (dm_width d) (n - 1)
                         (dm_itemWidth d (ow_items s ! (n - 1))) + 1)
               else if se_center se then int n - 1
               else int n - se_items se);
          m' = (if rel then m - half_clones s else m)
      in max m' 0)"

definition items_at :: "owl \<Rightarrow> int \<Rightarrow> nat option" where
  "items_at s position = (case normalize s position True of None \<Rightarrow> None | Some p \<Rightarrow> nth_int (ow_items s) p)"

definition mergers_at :: "owl \<Rightarrow> int \<Rightarrow> rat option" where
  "mergers_at s position = (case normalize s position True of None \<Rightarrow> None | Some p \<Rightarrow> nth_int (ow_mergers s) p)"

text \<open>The absolute position of the clone number \<open>i\<close>: the even ones follow the items, the odd ones
  precede them.\<close>

definition clone_position :: "owl \<Rightarrow> nat \<Rightarrow> int" where
  "clone_position s i =
     (if i mod 2 = 0 then half_clones s + int (length (ow_items s)) + int (i div 2)
      else half_clones s - int ((i + 1) div 2))"

definition clones_all :: "owl \<Rightarrow> int list" where
  "clones_all s = map (clone_position s) [0..<length (ow_clones s)]"

definition clones_of :: "owl \<Rightarrow> int \<Rightarrow> int list" where
  "clones_of s position =
     map (clone_position s) (filter (\<lambda>i. ow_clones s ! i = position) [0..<length (ow_clones s)])"

section \<open>Widths and coordinates\<close>

datatype dimension = Default | Inner | Outer

definition width :: "owl \<Rightarrow> dimension \<Rightarrow> rat" where
  "width s dn = (case dn of Default \<Rightarrow>
       ow_width s - se_stagePadding (ow_settings s) * 2 + se_margin (ow_settings s)
     | _ \<Rightarrow> ow_width s)"

definition coordinates :: "owl \<Rightarrow> int \<Rightarrow> rat option" where
  "coordinates s position =
     (let se = ow_settings s in
      if se_center se then
        (let mult = (if se_rtl se then -1 else 1); np = (if se_rtl se then position + 1 else position - 1)
         in case nth_int (ow_coordinates s) position of
              None \<Rightarrow> None
            | Some c \<Rightarrow> Some (of_int \<lceil>c + (width s Default - c + or_zero (nth_int (ow_coordinates s) np)) / 2 * mult\<rceil>))
      else Some (of_int \<lceil>or_zero (nth_int (ow_coordinates s) (position - 1))\<rceil>))"

definition coordinates_all :: "owl \<Rightarrow> rat list" where
  "coordinates_all s = List.map_filter (\<lambda>i. coordinates s (int i)) [0..<length (ow_coordinates s)]"

text \<open>The comparison operators, mirrored for right-to-left.\<close>

definition op_lt :: "owl \<Rightarrow> rat \<Rightarrow> rat \<Rightarrow> bool" where
  "op_lt s a b \<longleftrightarrow> (if se_rtl (ow_settings s) then a > b else a < b)"

definition op_gt :: "owl \<Rightarrow> rat \<Rightarrow> rat \<Rightarrow> bool" where
  "op_gt s a b \<longleftrightarrow> (if se_rtl (ow_settings s) then a < b else a > b)"

definition op_ge :: "owl \<Rightarrow> rat \<Rightarrow> rat \<Rightarrow> bool" where
  "op_ge s a b \<longleftrightarrow> (if se_rtl (ow_settings s) then a \<le> b else a \<ge> b)"

definition op_le :: "owl \<Rightarrow> rat \<Rightarrow> rat \<Rightarrow> bool" where
  "op_le s a b \<longleftrightarrow> (if se_rtl (ow_settings s) then a \<ge> b else a \<le> b)"

text \<open>\<open>factor\<close> is None where the caller gives none (or false).\<close>

definition duration :: "owl \<Rightarrow> int \<Rightarrow> int \<Rightarrow> rat option \<Rightarrow> rat" where
  "duration s from to factor =
     (if factor = Some 0 then 0
      else of_int (min (max \<bar>to - from\<bar> 1) 6) *
           \<bar>case factor of Some f \<Rightarrow> f | None \<Rightarrow> se_smartSpeed (ow_settings s)\<bar>)"

section \<open>Moving the stage\<close>

definition set_speed :: "rat option \<Rightarrow> owl \<Rightarrow> owl" where
  "set_speed v s = s\<lparr>ow_speed := v\<rparr>"

definition onTransitionEnd :: "owl \<Rightarrow> owl" where
  "onTransitionEnd s = trigger ''translated'' (leave_st ''animating'' s)"

definition positive :: "rat option \<Rightarrow> bool" where
  "positive v \<longleftrightarrow> (case v of Some x \<Rightarrow> x > 0 | None \<Rightarrow> False)"

text \<open>The stage gets the translation at once or in a transition; either way it is set.\<close>

definition animate :: "rat option \<Rightarrow> owl \<Rightarrow> owl" where
  "animate coordinate s =
     (let anim = positive (ow_speed s);
          s1 = (if is_in ''animating'' s then onTransitionEnd s else s);
          s2 = (if anim then trigger ''translate'' (enter_st ''animating'' s1) else s1)
      in s2\<lparr>ow_translate := coordinate\<rparr>)"

definition reset :: "int \<Rightarrow> owl \<Rightarrow> owl" where
  "reset position s =
     (case normalize s position False of
        None \<Rightarrow> s
      | Some p \<Rightarrow>
          (let s1 = s\<lparr>ow_speed := Some 0, ow_current := Some p\<rparr>;
               s2 = s1\<lparr>ow_supress := suppress [''translate'', ''translated''] (ow_supress s1)\<rparr>;
               s3 = animate (coordinates s2 p) s2
           in s3\<lparr>ow_supress := release [''translate'', ''translated''] (ow_supress s3)\<rparr>))"

text \<open>\<open>current(position)\<close>; with no argument it is \<open>ow_current\<close>.\<close>

definition current :: "dom \<Rightarrow> int \<Rightarrow> owl \<Rightarrow> owl" where
  "current d position s =
     (if ow_items s = [] then s
      else
        let p = normalize s position False
        in if ow_current s \<noteq> p then
             let s1 = trigger ''change'' s;
                 p1 = (case p of Some v \<Rightarrow> (if ''change'' \<notin> ow_supress s then
                                             (case dm_change d v of Some q \<Rightarrow> normalize s1 q False | None \<Rightarrow> p) else p)
                       | None \<Rightarrow> p);
                 s2 = invalidate PPosition (s1\<lparr>ow_current := p1\<rparr>)
             in trigger ''changed'' s2
           else s)"

text \<open>\<open>current()\<close> in an arithmetic expression: null counts as 0.\<close>

definition current_num :: "owl \<Rightarrow> int" where
  "current_num s = (case ow_current s of Some p \<Rightarrow> p | None \<Rightarrow> 0)"

end
