(* ===== verification/OwlUpdate.thy ===== *)
theory OwlUpdate
  imports OwlCore
begin

text \<open>
  The update process of the carousel (\<open>server/html/js/owl.carousel.js\<close>): the list of workers,
  each run when a part it depends on is invalidated, \<open>update\<close>, \<open>setup_owl\<close> and \<open>refresh\<close>, and the
  navigation \<open>to\<close>, \<open>next\<close> and \<open>prev\<close>. The workers share a cache, the record \<open>cache\<close>.
\<close>

section \<open>The workers\<close>

record cache =
  ca_current :: "nat option"
  ca_css :: css
  ca_merge :: bool
  ca_width :: rat

definition init_cache :: cache where
  "init_cache = \<lparr>ca_current = None, ca_css = \<lparr>css_width = None, css_marginLeft = 0, css_marginRight = 0\<rparr>,
     ca_merge = False, ca_width = 0\<rparr>"

definition worker_width :: "dom \<Rightarrow> owl \<Rightarrow> owl" where
  "worker_width d s = s\<lparr>ow_width := dm_width d\<rparr>"

definition worker_current :: "cache \<times> owl \<Rightarrow> cache \<times> owl" where
  "worker_current = (\<lambda>(c, s). (c\<lparr>ca_current :=
     (case relative s (current_num s) of None \<Rightarrow> None | Some r \<Rightarrow> nth_int (ow_items s) r)\<rparr>, s))"

definition worker_unclone :: "owl \<Rightarrow> owl" where
  "worker_unclone s = s\<lparr>ow_stage := filter (\<lambda>c. \<not> ch_cloned c) (ow_stage s)\<rparr>"

definition worker_css :: "cache \<times> owl \<Rightarrow> cache \<times> owl" where
  "worker_css = (\<lambda>(c, s).
     (let se = ow_settings s;
          css = \<lparr>css_width = None, css_marginLeft = (if se_rtl se then se_margin se else 0),
                 css_marginRight = (if se_rtl se then 0 else se_margin se)\<rparr>
      in (c\<lparr>ca_css := css\<rparr>,
          if se_autoWidth se then s\<lparr>ow_childCss := map (\<lambda>_. css) (ow_stage s)\<rparr> else s)))"

text \<open>\<open>toFixed(3)\<close>: the nearest thousandth, the larger in absolute value of two.\<close>

definition to_fixed3 :: "rat \<Rightarrow> rat" where
  "to_fixed3 x = (if x < 0 then - (of_int \<lfloor>- x * 1000 + 1 / 2\<rfloor> / 1000) else of_int \<lfloor>x * 1000 + 1 / 2\<rfloor> / 1000)"

text \<open>The merge value of an item, fitted to the number of visible items.\<close>

definition fit_merge :: "settings \<Rightarrow> rat \<Rightarrow> rat" where
  "fit_merge se merge =
     (if se_mergeFit se \<and> min merge (of_int (se_items se)) \<noteq> 0 then min merge (of_int (se_items se)) else merge)"

definition worker_widths :: "dom \<Rightarrow> cache \<times> owl \<Rightarrow> cache \<times> owl" where
  "worker_widths d = (\<lambda>(c, s).
     (let se = ow_settings s;
          w = to_fixed3 (width s Default / of_int (se_items se)) - se_margin se;
          merges = map (\<lambda>i. fit_merge se (ow_mergers s ! i)) [0..<length (ow_items s)]
      in (c\<lparr>ca_merge := list_ex (\<lambda>m. m > 1) merges, ca_width := w\<rparr>,
          s\<lparr>ow_widths := map (\<lambda>i. if se_autoWidth se then dm_itemWidth d (ow_items s ! i) else w * merges ! i)
                            [0..<length (ow_items s)]\<rparr>)))"

text \<open>The number of clones on each side, and the loop that makes them.\<close>

definition clone_repeat :: "owl \<Rightarrow> nat" where
  "clone_repeat s =
     (let se = ow_settings s; n = int (length (ow_items s));
          view = max (se_items se * 2) 4;
          size = (n + 1) div 2 * 2;
          repeat = (if se_loop se \<and> n \<noteq> 0 then (if se_rewind se then view else max view size) else 0)
      in nat (repeat div 2))"

fun clone_loop :: "owl \<Rightarrow> nat \<Rightarrow> int list \<times> child list \<times> child list \<Rightarrow> int list \<times> child list \<times> child list" where
  "clone_loop s 0 acc = acc"
| "clone_loop s (Suc k) (clones, app, prepend) =
     (let a = the (normalize s (int (length clones div 2)) True);
          clones1 = clones @ [a];
          app1 = app @ [\<lparr>ch_item = ow_items s ! nat a, ch_cloned = True\<rparr>];
          b = the (normalize s (int (length (ow_items s)) - 1 - int ((length clones1 - 1) div 2)) True);
          clones2 = clones1 @ [b];
          prepend1 = \<lparr>ch_item = ow_items s ! nat b, ch_cloned = True\<rparr> # prepend
      in clone_loop s k (clones2, app1, prepend1))"

definition worker_clones :: "owl \<Rightarrow> owl" where
  "worker_clones s =
     (case clone_loop s (clone_repeat s) ([], [], []) of
        (clones, app, prepend) \<Rightarrow>
          s\<lparr>ow_clones := clones, ow_stage := prepend @ ow_stage s @ app\<rparr>)"

fun coord_loop :: "owl \<Rightarrow> rat \<Rightarrow> nat list \<Rightarrow> rat list \<Rightarrow> rat list" where
  "coord_loop s rtl [] acc = acc"
| "coord_loop s rtl (i # is) acc =
     coord_loop s rtl is (acc @
       [or_zero (nth_int acc (int i - 1)) +
        (ow_widths s ! nat (the (relative s (int i))) + se_margin (ow_settings s)) * rtl])"

definition worker_coordinates :: "owl \<Rightarrow> owl" where
  "worker_coordinates s = s\<lparr>ow_coordinates :=
     coord_loop s (if se_rtl (ow_settings s) then 1 else -1)
       [0..<length (ow_clones s) + length (ow_items s)] []\<rparr>"

definition worker_stageCss :: "owl \<Rightarrow> owl" where
  "worker_stageCss s =
     (let padding = se_stagePadding (ow_settings s);
          w = (case last_opt (ow_coordinates s) of
                 Some c \<Rightarrow> Some (of_int \<lceil>\<bar>c\<bar>\<rceil> + padding * 2)
               | None \<Rightarrow> (case ow_stageCss s of Some (w, _) \<Rightarrow> w | None \<Rightarrow> None))
      in s\<lparr>ow_stageCss := Some (w, padding)\<rparr>)"

definition worker_childCss :: "cache \<times> owl \<Rightarrow> cache \<times> owl" where
  "worker_childCss = (\<lambda>(c, s).
     (if \<not> se_autoWidth (ow_settings s) \<and> ca_merge c then
        (c, s\<lparr>ow_childCss := map (\<lambda>i. (ca_css c)\<lparr>css_width := Some (ow_widths s ! nat (the (relative s (int i))))\<rparr>)
                              [0..<length (ow_coordinates s)]\<rparr>)
      else if \<not> se_autoWidth (ow_settings s) then
        (c, s\<lparr>ow_childCss := map (\<lambda>_. (ca_css c)\<lparr>css_width := Some (ca_width c)\<rparr>) (ow_stage s)\<rparr>)
      else (c, s)))"

definition worker_clearStyle :: "owl \<Rightarrow> owl" where
  "worker_clearStyle s = (if ow_coordinates s = [] then s\<lparr>ow_stageCss := None\<rparr> else s)"

text \<open>The index of the element of an item among the children of the stage, or -1.\<close>

fun stage_index :: "child list \<Rightarrow> nat \<Rightarrow> int" where
  "stage_index [] x = -1"
| "stage_index (c # cs) x =
     (if ch_item c = x \<and> \<not> ch_cloned c then 0
      else let r = stage_index cs x in if r < 0 then -1 else r + 1)"

definition worker_reset :: "dom \<Rightarrow> cache \<times> owl \<Rightarrow> cache \<times> owl" where
  "worker_reset d = (\<lambda>(c, s).
     (let i = (case ca_current c of Some x \<Rightarrow> stage_index (ow_stage s) x | None \<Rightarrow> 0)
      in (c, reset (max (minimum s False) (min (maximum d s False) i)) s)))"

definition current_coordinate :: "owl \<Rightarrow> rat option" where
  "current_coordinate s =
     (case ow_current s of Some p \<Rightarrow> coordinates s p
      | None \<Rightarrow> if se_center (ow_settings s) then None else coordinates s 0)"

definition worker_animate :: "owl \<Rightarrow> owl" where
  "worker_animate s = animate (current_coordinate s) s"

definition worker_active :: "owl \<Rightarrow> owl" where
  "worker_active s =
     (let rtl = (if se_rtl (ow_settings s) then 1 else -1);
          padding = se_stagePadding (ow_settings s) * 2;
          matches = (case current_coordinate s of
              None \<Rightarrow> []
            | Some c \<Rightarrow>
                (let first = c + padding; end' = first + width s Default * rtl
                 in filter (\<lambda>i.
                      let inner = or_zero (nth_int (ow_coordinates s) (int i - 1));
                          outer = \<bar>ow_coordinates s ! i\<bar> + padding * rtl
                      in (op_le s inner first \<and> op_gt s inner end') \<or> (op_lt s outer first \<and> op_gt s outer end'))
                    [0..<length (ow_coordinates s)]))
      in s\<lparr>ow_active := matches,
           ow_centered := (if se_center (ow_settings s) then ow_current s else None)\<rparr>)"

definition both :: "(owl \<Rightarrow> owl) \<Rightarrow> cache \<times> owl \<Rightarrow> cache \<times> owl" where
  "both f = (\<lambda>(c, s). (c, f s))"

definition Workers :: "dom \<Rightarrow> (part list \<times> (cache \<times> owl \<Rightarrow> cache \<times> owl)) list" where
  "Workers d = [
     ([PWidth, PSettings], both (worker_width d)),
     ([PWidth, PItems, PSettings], worker_current),
     ([PItems, PSettings], both worker_unclone),
     ([PWidth, PItems, PSettings], worker_css),
     ([PWidth, PItems, PSettings], worker_widths d),
     ([PItems, PSettings], both worker_clones),
     ([PWidth, PItems, PSettings], both worker_coordinates),
     ([PWidth, PItems, PSettings], both worker_stageCss),
     ([PWidth, PItems, PSettings], worker_childCss),
     ([PItems], both worker_clearStyle),
     ([PWidth, PItems, PSettings], worker_reset d),
     ([PPosition], both worker_animate),
     ([PWidth, PPosition, PItems, PSettings], both worker_active)]"

section \<open>Updating\<close>

definition run_worker :: "part list \<times> (cache \<times> owl \<Rightarrow> cache \<times> owl) \<Rightarrow> cache \<times> owl \<Rightarrow> cache \<times> owl" where
  "run_worker = (\<lambda>(filt, run) (c, s).
     if PAll \<in> ow_invalidated s \<or> list_ex (\<lambda>p. p \<in> ow_invalidated s) filt then run (c, s) else (c, s))"

definition update :: "dom \<Rightarrow> owl \<Rightarrow> owl" where
  "update d s =
     (let s1 = snd (fold run_worker (Workers d) (init_cache, s));
          s2 = s1\<lparr>ow_invalidated := {}\<rparr>
      in if \<not> is_in ''valid'' s2 then enter_st ''valid'' s2 else s2)"

text \<open>The largest breakpoint that the viewport reaches, -1 if there is none.\<close>

definition match_breakpoint :: "rat \<Rightarrow> rat list \<Rightarrow> rat" where
  "match_breakpoint viewport bs = fold (\<lambda>b match. if b \<le> viewport \<and> b > match then b else match) bs (-1)"

definition setup_owl :: "dom \<Rightarrow> owl \<Rightarrow> owl" where
  "setup_owl d s =
     (let match = match_breakpoint (dm_viewport d) (map fst (ow_responsive s));
          se = (case map_of (ow_responsive s) match of Some f \<Rightarrow> f (ow_options s) | None \<Rightarrow> ow_options s);
          s1 = trigger ''change'' s;
          s2 = invalidate PSettings (s1\<lparr>ow_breakpoint := match, ow_settings := se\<rparr>)
      in trigger ''changed'' s2)"

definition optionsLogic :: "owl \<Rightarrow> owl" where
  "optionsLogic s =
     (if se_autoWidth (ow_settings s)
      then s\<lparr>ow_settings := (ow_settings s)\<lparr>se_stagePadding := 0, se_merge := False\<rparr>\<rparr> else s)"

definition refresh :: "dom \<Rightarrow> owl \<Rightarrow> owl" where
  "refresh d s =
     trigger ''refreshed'' (leave_st ''refreshing''
       (update d (optionsLogic (setup_owl d (trigger ''refresh'' (enter_st ''refreshing'' s))))))"

definition isVisible :: "dom \<Rightarrow> owl \<Rightarrow> bool" where
  "isVisible d s = (if se_checkVisibility (ow_settings s) then dm_visible d else True)"

text \<open>\<open>prevented\<close>: a listener prevents the default of the resize event. None: the handler returned
  false before it did anything.\<close>

definition onResize :: "dom \<Rightarrow> bool \<Rightarrow> owl \<Rightarrow> owl" where
  "onResize d prevented s =
     (if ow_items s = [] then s
      else if ow_width s = dm_width d then s
      else if \<not> isVisible d s then s
      else
        let s1 = trigger ''resize'' (enter_st ''resizing'' s)
        in if prevented then leave_st ''resizing'' s1
           else trigger ''resized'' (leave_st ''resizing'' (refresh d (invalidate PWidth s1))))"

section \<open>Navigation\<close>

text \<open>
  The three ways a target position is found: with a loop (which may first jump to an equivalent
  position so that the movement stays within the clones), rewinding, and clamped.
\<close>

definition loop_target :: "dom \<Rightarrow> owl \<Rightarrow> int \<Rightarrow> int \<Rightarrow> int \<times> int \<times> int option" where
  "loop_target d s position rel =
     (let cur = current_num s;
          items = int (length (ow_items s));
          distance0 = position - rel;
          direction = sgn distance0;
          distance = (if \<not> se_rewind (ow_settings s) \<and> 2 * \<bar>distance0\<bar> > items
                      then distance0 + direction * -1 * items else distance0);
          position1 = cur + distance;
          revert = wrap_mod (position1 - minimum s False) items + minimum s False
      in if revert \<noteq> position1 \<and> revert - distance \<le> maximum d s False \<and> revert - distance > 0
         then (revert - distance, revert, Some (revert - distance))
         else (cur, position1, None))"

definition goto :: "dom \<Rightarrow> int \<Rightarrow> int \<Rightarrow> rat option \<Rightarrow> owl \<Rightarrow> owl" where
  "goto d cur position speed s =
     (let s1 = set_speed (Some (duration s cur position speed)) s;
          s2 = current d position s1
      in if isVisible d s2 then update d s2 else s2)"

text \<open>Without items the target is NaN: only the speed changes, to NaN unless 0 is asked for.\<close>

definition no_target :: "dom \<Rightarrow> rat option \<Rightarrow> owl \<Rightarrow> owl" where
  "no_target d speed s =
     (let s1 = set_speed (if speed = Some 0 then Some 0 else None) s
      in if isVisible d s1 then update d s1 else s1)"

definition to_pos :: "dom \<Rightarrow> int \<Rightarrow> rat option \<Rightarrow> owl \<Rightarrow> owl" where
  "to_pos d position speed s =
     (if se_loop (ow_settings s) then
        (case relative s (current_num s) of
           None \<Rightarrow> no_target d speed s
         | Some rel \<Rightarrow>
             (case loop_target d s position rel of
                (cur, p, None) \<Rightarrow> goto d cur p speed s
              | (cur, p, Some jump) \<Rightarrow> goto d cur p speed (reset jump s)))
      else if se_rewind (ow_settings s) then
        goto d (current_num s) (wrap_mod position (maximum d s False + 1)) speed s
      else
        goto d (current_num s) (max (minimum s False) (min (maximum d s False) position)) speed s)"

definition no_zero :: "rat option \<Rightarrow> rat option" where
  "no_zero speed = (if speed = Some 0 then None else speed)"

text \<open>\<open>relative(current()) + 1\<close>; with no items the sum is NaN.\<close>

definition next_pos :: "dom \<Rightarrow> rat option \<Rightarrow> owl \<Rightarrow> owl" where
  "next_pos d speed s = (case relative s (current_num s) of
     Some r \<Rightarrow> to_pos d (r + 1) (no_zero speed) s | None \<Rightarrow> no_target d (no_zero speed) s)"

definition prev_pos :: "dom \<Rightarrow> rat option \<Rightarrow> owl \<Rightarrow> owl" where
  "prev_pos d speed s = (case relative s (current_num s) of
     Some r \<Rightarrow> to_pos d (r - 1) (no_zero speed) s | None \<Rightarrow> no_target d (no_zero speed) s)"

end
