(* ===== verification/OwlProps.thy ===== *)
theory OwlProps
  imports OwlUpdate
begin

text \<open>
  The properties of the carousel core: positions modulo the number of items, navigation, clones,
  coordinates and the end of an update. They rest on what each operation leaves of the state.
\<close>

section \<open>Positions modulo the number of items\<close>

lemma smod_pos: "0 < n \<Longrightarrow> (x::int) smod n = (if x < 0 then - ((- x) mod n) else x mod n)"
  by (simp add: signed_modulo_int_def signed_divide_int_def sgn_if minus_mult_div_eq_mod [symmetric] algebra_simps)

lemma wrap_mod_mod: "0 < n \<Longrightarrow> wrap_mod x n = x mod n"
proof -
  assume n: "0 < n"
  have p: "0 \<le> x smod n + n" using n pos_mod_bound [OF n, of "- x"] pos_mod_sign [OF n, of x] by (auto simp: smod_pos less_imp_le)
  have "(x smod n) mod n = x mod n"
    using n mod_minus_eq [of "- x" n] by (cases "x < 0") (simp_all add: smod_pos)
  then have "(x smod n + n) mod n = x mod n" by simp
  then show ?thesis using p n by (simp add: wrap_mod_def smod_pos [of n "x smod n + n"])
qed

abbreviation item_count :: "owl \<Rightarrow> int" where
  "item_count s \<equiv> int (length (ow_items s))"

abbreviation even_clones :: "owl \<Rightarrow> bool" where
  "even_clones s \<equiv> even (length (ow_clones s))"

lemma half_clones_double: "even_clones s \<Longrightarrow> 2 * half_clones s = int (length (ow_clones s))"
  by (auto simp: half_clones_def elim!: evenE)

lemma half_clones_nonneg [simp]: "0 \<le> half_clones s"
  by (simp add: half_clones_def)

lemma normalize_Some:
  assumes "ow_items s \<noteq> []"
  obtains q where "normalize s p rel = Some q" "0 \<le> q"
    "q < item_count s + (if rel then 0 else int (length (ow_clones s)))" "q mod item_count s = p mod item_count s"
proof -
  let ?n = "item_count s" and ?m = "if rel then 0 else int (length (ow_clones s))"
  have n: "0 < ?n" using assms by simp
  show thesis
  proof (cases "p < 0 \<or> p \<ge> ?n + ?m")
    case True
    let ?q = "(p - ?m div 2) mod ?n + ?m div 2"
    have "normalize s p rel = Some ?q" using True n assms by (simp add: normalize_def Let_def wrap_mod_mod)
    moreover have "0 \<le> (p - ?m div 2) mod ?n" "(p - ?m div 2) mod ?n < ?n" using n by simp_all
    moreover have "?q mod ?n = p mod ?n" by (simp add: mod_add_left_eq)
    moreover have "0 \<le> ?m div 2" "?m div 2 \<le> ?m" by auto
    ultimately show thesis using that by (metis add_mono_thms_linordered_field(3) add_nonneg_nonneg)
  next
    case False
    then show thesis using that [of p] n assms by (simp add: normalize_def Let_def)
  qed
qed

lemma normalize_in: "0 \<le> p \<Longrightarrow> p < item_count s \<Longrightarrow> normalize s p True = Some p"
  by (cases "ow_items s") (simp_all add: normalize_def Let_def)

lemma normalize_rel: "ow_items s \<noteq> [] \<Longrightarrow> normalize s p True = Some (p mod item_count s)"
  by (rule normalize_Some [of s p True]) auto

lemma relative_mod: "ow_items s \<noteq> [] \<Longrightarrow> relative s p = Some ((p - half_clones s) mod item_count s)"
  by (simp add: relative_def normalize_rel)

lemma relative_normalize:
  assumes "ow_items s \<noteq> []" and "normalize s p False = Some q"
  shows "relative s q = relative s p"
proof -
  have "q mod item_count s = p mod item_count s"
    using normalize_Some [OF assms(1), of p False] assms(2) by (metis option.inject)
  then have "(q - half_clones s) mod item_count s = (p - half_clones s) mod item_count s"
    by (metis mod_diff_left_eq)
  then show ?thesis using assms(1) by (simp add: relative_mod)
qed

section \<open>What the operations leave alone\<close>

lemma trigger_sel [simp]:
  "ow_items (trigger e s) = ow_items s" "ow_clones (trigger e s) = ow_clones s"
  "ow_settings (trigger e s) = ow_settings s" "ow_current (trigger e s) = ow_current s"
  "ow_invalidated (trigger e s) = ow_invalidated s" "ow_coordinates (trigger e s) = ow_coordinates s"
  "ow_stage (trigger e s) = ow_stage s" "ow_supress (trigger e s) = ow_supress s"
  "ow_mergers (trigger e s) = ow_mergers s" "ow_width (trigger e s) = ow_width s" "ow_speed (trigger e s) = ow_speed s"
  "ow_states (trigger e s) = ow_states s"
  by (simp_all add: trigger_def)

lemma enter_st_sel [simp]:
  "ow_items (enter_st e s) = ow_items s" "ow_clones (enter_st e s) = ow_clones s"
  "ow_settings (enter_st e s) = ow_settings s" "ow_current (enter_st e s) = ow_current s"
  "ow_invalidated (enter_st e s) = ow_invalidated s" "ow_coordinates (enter_st e s) = ow_coordinates s"
  "ow_stage (enter_st e s) = ow_stage s" "ow_supress (enter_st e s) = ow_supress s"
  "ow_mergers (enter_st e s) = ow_mergers s" "ow_width (enter_st e s) = ow_width s" "ow_speed (enter_st e s) = ow_speed s"
  by (simp_all add: enter_st_def)

lemma leave_st_sel [simp]:
  "ow_items (leave_st e s) = ow_items s" "ow_clones (leave_st e s) = ow_clones s"
  "ow_settings (leave_st e s) = ow_settings s" "ow_current (leave_st e s) = ow_current s"
  "ow_invalidated (leave_st e s) = ow_invalidated s" "ow_coordinates (leave_st e s) = ow_coordinates s"
  "ow_stage (leave_st e s) = ow_stage s" "ow_supress (leave_st e s) = ow_supress s"
  "ow_mergers (leave_st e s) = ow_mergers s" "ow_width (leave_st e s) = ow_width s" "ow_speed (leave_st e s) = ow_speed s"
  by (simp_all add: leave_st_def)

lemma invalidate_sel [simp]:
  "ow_items (invalidate p s) = ow_items s" "ow_clones (invalidate p s) = ow_clones s"
  "ow_settings (invalidate p s) = ow_settings s" "ow_current (invalidate p s) = ow_current s"
  "ow_invalidated (invalidate p s) = insert p (ow_invalidated s)" "ow_coordinates (invalidate p s) = ow_coordinates s"
  "ow_stage (invalidate p s) = ow_stage s" "ow_supress (invalidate p s) = ow_supress s"
  "ow_mergers (invalidate p s) = ow_mergers s" "ow_width (invalidate p s) = ow_width s"
  by (simp_all add: invalidate_def Let_def)

lemma animate_sel [simp]:
  "ow_items (animate c s) = ow_items s" "ow_clones (animate c s) = ow_clones s"
  "ow_settings (animate c s) = ow_settings s" "ow_current (animate c s) = ow_current s"
  "ow_invalidated (animate c s) = ow_invalidated s" "ow_coordinates (animate c s) = ow_coordinates s"
  "ow_stage (animate c s) = ow_stage s" "ow_supress (animate c s) = ow_supress s"
  "ow_mergers (animate c s) = ow_mergers s" "ow_width (animate c s) = ow_width s"
  "ow_translate (animate c s) = c"
  by (simp_all add: animate_def Let_def onTransitionEnd_def)

lemma reset_sel [simp]:
  "ow_items (reset p s) = ow_items s" "ow_clones (reset p s) = ow_clones s"
  "ow_settings (reset p s) = ow_settings s" "ow_invalidated (reset p s) = ow_invalidated s"
  "ow_coordinates (reset p s) = ow_coordinates s" "ow_stage (reset p s) = ow_stage s"
  "ow_mergers (reset p s) = ow_mergers s" "ow_width (reset p s) = ow_width s"
  by (simp_all add: reset_def Let_def split: option.splits)

lemma reset_current: "normalize s p False = Some q \<Longrightarrow> ow_current (reset p s) = Some q"
  by (simp add: reset_def Let_def)

lemma set_speed_sel [simp]:
  "ow_items (set_speed v s) = ow_items s" "ow_clones (set_speed v s) = ow_clones s"
  "ow_settings (set_speed v s) = ow_settings s" "ow_current (set_speed v s) = ow_current s"
  "ow_invalidated (set_speed v s) = ow_invalidated s" "ow_coordinates (set_speed v s) = ow_coordinates s"
  "ow_mergers (set_speed v s) = ow_mergers s" "ow_stage (set_speed v s) = ow_stage s"
  by (simp_all add: set_speed_def)

lemma current_sel [simp]:
  "ow_items (current d p s) = ow_items s" "ow_clones (current d p s) = ow_clones s"
  "ow_settings (current d p s) = ow_settings s" "ow_coordinates (current d p s) = ow_coordinates s"
  "ow_mergers (current d p s) = ow_mergers s" "ow_stage (current d p s) = ow_stage s"
  by (simp_all add: current_def Let_def)

lemma normalize_cong: "ow_items s = ow_items t \<Longrightarrow> ow_clones s = ow_clones t \<Longrightarrow> normalize s = normalize t"
  by (simp add: normalize_def fun_eq_iff)

lemma relative_cong: "ow_items s = ow_items t \<Longrightarrow> ow_clones s = ow_clones t \<Longrightarrow> relative s = relative t"
  by (simp add: relative_def fun_eq_iff half_clones_def normalize_cong [of s t])

text \<open>No listener of the change event replaces the position.\<close>

definition unopposed :: "dom \<Rightarrow> bool" where
  "unopposed d \<longleftrightarrow> (\<forall>p. dm_change d p = None)"

lemma current_current:
  "unopposed d \<Longrightarrow> ow_items s \<noteq> [] \<Longrightarrow> ow_current (current d p s) = normalize s p False"
  by (auto simp: current_def Let_def unopposed_def split: option.splits)

lemma current_invalidated: "ow_invalidated (current d p s) \<subseteq> insert PPosition (ow_invalidated s)"
  by (auto simp: current_def Let_def)

lemma worker_active_sel [simp]:
  "ow_items (worker_active s) = ow_items s" "ow_clones (worker_active s) = ow_clones s"
  "ow_settings (worker_active s) = ow_settings s" "ow_current (worker_active s) = ow_current s"
  "ow_invalidated (worker_active s) = ow_invalidated s"
  "ow_translate (worker_active s) = ow_translate s" "ow_coordinates (worker_active s) = ow_coordinates s"
  by (simp_all add: worker_active_def Let_def)

lemma update_position_only:
  assumes "ow_invalidated s \<subseteq> {PPosition}"
  shows "snd (fold run_worker (Workers d) (init_cache, s)) =
    (if ow_invalidated s = {} then s else worker_active (worker_animate s))"
proof -
  consider "ow_invalidated s = {}" | "ow_invalidated s = {PPosition}" using assms by blast
  then show ?thesis
    by cases (simp_all add: Workers_def run_worker_def both_def worker_animate_def)
qed

lemma update_sel:
  assumes "ow_invalidated s \<subseteq> {PPosition}"
  shows "ow_items (update d s) = ow_items s" "ow_clones (update d s) = ow_clones s"
    "ow_current (update d s) = ow_current s" "ow_settings (update d s) = ow_settings s"
    "ow_coordinates (update d s) = ow_coordinates s"
  by (simp_all add: update_def Let_def update_position_only [OF assms] worker_animate_def)

section \<open>Navigation\<close>

lemma goto_lands:
  assumes "unopposed d" and "ow_items s \<noteq> []" and "ow_invalidated s \<subseteq> {PPosition}"
  shows "ow_current (goto d c p v s) = normalize s p False"
    and "ow_items (goto d c p v s) = ow_items s" and "ow_clones (goto d c p v s) = ow_clones s"
    and "ow_settings (goto d c p v s) = ow_settings s"
proof -
  let ?s2 = "current d p (set_speed (Some (duration s c p v)) s)"
  have inv: "ow_invalidated ?s2 \<subseteq> {PPosition}"
    using current_invalidated [of d p "set_speed (Some (duration s c p v)) s"] assms(3) by auto
  have cur: "ow_current ?s2 = normalize s p False"
    using current_current [of d "set_speed (Some (duration s c p v)) s" p] assms(1,2)
      normalize_cong [of "set_speed (Some (duration s c p v)) s" s] by simp
  show "ow_current (goto d c p v s) = normalize s p False"
    and "ow_items (goto d c p v s) = ow_items s" and "ow_clones (goto d c p v s) = ow_clones s"
    and "ow_settings (goto d c p v s) = ow_settings s"
    using cur update_sel [OF inv, of d] by (simp_all add: goto_def Let_def)
qed

lemma loop_target_congruent:
  assumes n: "ow_items s \<noteq> []" and rel: "relative s (current_num s) = Some rel"
    and t: "loop_target d s position rel = (c, p, jump)"
  shows "(p - half_clones s) mod item_count s = position mod item_count s"
proof -
  let ?n = "item_count s" and ?h = "half_clones s"
  have n0: "0 < ?n" using n by simp
  define dist where "dist = (if \<not> se_rewind (ow_settings s) \<and> 2 * \<bar>position - rel\<bar> > ?n
    then position - rel + sgn (position - rel) * -1 * ?n else position - rel)"
  have dm: "dist mod ?n = (position - rel) mod ?n"
    using mod_mult_self1 [of "position - rel" "sgn (position - rel) * -1" ?n] by (simp only: dist_def split: if_split) blast
  have r: "rel = (current_num s - ?h) mod ?n" using rel n by (simp add: relative_mod)
  have "(current_num s + dist - ?h) mod ?n = ((current_num s - ?h) mod ?n + dist mod ?n) mod ?n"
    by (simp add: mod_add_eq algebra_simps)
  also have "\<dots> = (rel + (position - rel)) mod ?n"
    unfolding dm r [symmetric] by (simp add: mod_add_right_eq)
  finally have p1: "(current_num s + dist - ?h) mod ?n = position mod ?n" by simp
  have "p = current_num s + dist \<or> p = wrap_mod (current_num s + dist - ?h) ?n + ?h"
    using t by (auto simp: loop_target_def Let_def dist_def minimum_def split: if_splits)
  then show ?thesis using p1 n0 by (auto simp: wrap_mod_mod)
qed

lemma to_loop:
  assumes "se_loop (ow_settings s)" and "ow_items s \<noteq> []" and "ow_invalidated s \<subseteq> {PPosition}" and "unopposed d"
  shows "\<exists>q. ow_current (to_pos d position v s) = Some q
    \<and> relative (to_pos d position v s) q = Some (position mod item_count s)"
proof -
  obtain rel where rel: "relative s (current_num s) = Some rel" using assms(2) by (simp add: relative_mod)
  obtain c p jump where t: "loop_target d s position rel = (c, p, jump)" by (cases "loop_target d s position rel")
  let ?t = "case jump of None \<Rightarrow> s | Some j \<Rightarrow> reset j s"
  have to: "to_pos d position v s = goto d c p v ?t"
    using assms(1) rel t by (simp add: to_pos_def split: option.splits)
  have same: "ow_items ?t = ow_items s" "ow_clones ?t = ow_clones s" "ow_invalidated ?t = ow_invalidated s"
    by (simp_all split: option.splits)
  obtain q where q: "normalize s p False = Some q" using normalize_Some [OF assms(2)] by metis
  have g: "ow_current (goto d c p v ?t) = Some q" "ow_items (goto d c p v ?t) = ow_items s"
    "ow_clones (goto d c p v ?t) = ow_clones s"
    using goto_lands [OF assms(4), of ?t c p v] same assms(2,3) q normalize_cong [of ?t s] by simp_all
  have "relative s q = Some (position mod item_count s)"
    using relative_normalize [OF assms(2) q] loop_target_congruent [OF assms(2) rel t] assms(2)
    by (simp add: relative_mod)
  then have "relative (goto d c p v ?t) q = Some (position mod item_count s)"
    using relative_cong [OF g(2,3)] by simp
  then show ?thesis unfolding to using g(1) by blast
qed

lemma fill_back_bounds: "-1 \<le> fill_back w m f i a \<and> fill_back w m f i a < int i \<or> i = 0 \<and> fill_back w m f i a = -1"
  by (induction w m f i a rule: fill_back.induct) (auto simp: Let_def)

lemma maximum_range:
  assumes "\<not> se_loop (ow_settings s)" and "ow_items s \<noteq> []" and "1 \<le> se_items (ow_settings s)"
  shows "0 \<le> maximum d s False \<and> maximum d s False < item_count s"
proof -
  let ?n = "length (ow_items s)"
  have n: "0 < ?n" using assms(2) by simp
  have "fill_back w m f (?n - 1) a + 1 < int ?n" for w m f a
    using fill_back_bounds [of w m f "?n - 1" a] n by auto
  then show ?thesis using assms n by (auto simp: maximum_def Let_def)
qed

lemma to_bounded:
  assumes "\<not> se_loop (ow_settings s)" and "ow_items s \<noteq> []" and "1 \<le> se_items (ow_settings s)" and "ow_clones s = []"
    and "ow_invalidated s \<subseteq> {PPosition}" and "unopposed d"
  shows "\<exists>q. ow_current (to_pos d position v s) = Some q \<and> 0 \<le> q \<and> q \<le> maximum d s False
    \<and> (\<not> se_rewind (ow_settings s) \<longrightarrow> q = max 0 (min (maximum d s False) position))"
proof -
  let ?max = "maximum d s False"
  have mx: "0 \<le> ?max" "?max < item_count s" using maximum_range [OF assms(1-3)] by auto
  have h: "minimum s False = 0" using assms(4) by (simp add: minimum_def half_clones_def)
  define p where "p = (if se_rewind (ow_settings s) then wrap_mod position (?max + 1)
     else max (minimum s False) (min ?max position))"
  have p: "0 \<le> p" "p \<le> ?max"
    using mx h pos_mod_bound [of "?max + 1" position] by (auto simp: p_def wrap_mod_mod)
  then have "normalize s p False = Some p"
    using mx assms(2,4) by (simp add: normalize_def Let_def)
  moreover have "to_pos d position v s = goto d (current_num s) p v s"
    using assms(1) by (simp add: to_pos_def p_def)
  ultimately show ?thesis
    using goto_lands(1) [OF assms(6,2,5), of "current_num s" p v] p h by (auto simp: p_def)
qed

section \<open>Clones\<close>

abbreviation item_el :: "nat \<Rightarrow> child" where
  "item_el x \<equiv> \<lparr>ch_item = x, ch_cloned = False\<rparr>"

abbreviation clone_el :: "owl \<Rightarrow> int \<Rightarrow> child" where
  "clone_el s i \<equiv> \<lparr>ch_item = ow_items s ! nat (i mod item_count s), ch_cloned = True\<rparr>"

lemma clone_loop_unfold:
  assumes "ow_items s \<noteq> []" and "length cl = 2 * j"
  shows "clone_loop s k (cl, ap, pr) =
    (cl @ concat (map (\<lambda>i. [int i mod item_count s, (- int i - 1) mod item_count s]) [j..<j + k]),
     ap @ map (\<lambda>i. clone_el s (int i)) [j..<j + k],
     rev (map (\<lambda>i. clone_el s (- int i - 1)) [j..<j + k]) @ pr)"
  using assms(2)
proof (induction k arbitrary: cl ap pr j)
  case (Suc k)
  have a: "normalize s (int (length cl div 2)) True = Some (int j mod item_count s)"
    using assms(1) Suc.prems by (simp add: normalize_rel)
  have "(item_count s - 1 - int j) mod item_count s = (- int j - 1) mod item_count s"
    using mod_add_self1 [of "item_count s" "- int j - 1"] by (simp add: algebra_simps)
  then have b: "normalize s (item_count s - 1 - int ((length (cl @ [x]) - 1) div 2)) True = Some ((- int j - 1) mod item_count s)" for x
    using assms(1) Suc.prems by (simp add: normalize_rel)
  have u: "[j..<j + Suc k] = j # [Suc j..<Suc j + k]" by (simp add: upt_rec)
  have "length (cl @ [int j mod item_count s] @ [(- int j - 1) mod item_count s]) = 2 * Suc j"
    using Suc.prems by simp
  note IH = Suc.IH [OF this]
  show ?case unfolding clone_loop.simps Let_def a b option.sel u using IH by simp
qed simp

lemma clone_loop_empty: "clone_repeat s = 0 \<Longrightarrow> clone_loop s (clone_repeat s) acc = acc"
  by simp

lemma concat_pairs_length: "length (concat (map (\<lambda>i. [f i, g i]) xs)) = 2 * length xs"
  by (induction xs) auto

lemma concat_pairs_nth:
  "i < 2 * length xs \<Longrightarrow> concat (map (\<lambda>i. [f i, g i]) xs) ! i =
     (if even i then f (xs ! (i div 2)) else g (xs ! (i div 2)))"
proof (induction xs arbitrary: i)
  case (Cons x xs)
  consider "i = 0" | "i = 1" | j where "i = Suc (Suc j)" by (metis One_nat_def not0_implies_Suc)
  then show ?case
  proof cases
    case 3
    then have "concat (map (\<lambda>i. [f i, g i]) (x # xs)) ! i = concat (map (\<lambda>i. [f i, g i]) xs) ! j" by simp
    with Cons 3 show ?thesis by simp
  qed auto
qed simp

lemma worker_clones_eq:
  assumes "ow_items s \<noteq> []"
  shows "worker_clones s = s\<lparr>
     ow_clones := concat (map (\<lambda>i. [int i mod item_count s, (- int i - 1) mod item_count s]) [0..<clone_repeat s]),
     ow_stage := rev (map (\<lambda>i. clone_el s (- int i - 1)) [0..<clone_repeat s]) @ ow_stage s
       @ map (\<lambda>i. clone_el s (int i)) [0..<clone_repeat s]\<rparr>"
  using clone_loop_unfold [OF assms, of "[]" 0 "clone_repeat s" "[]" "[]"] by (simp add: worker_clones_def)

lemma half_worker_clones:
  "ow_items s \<noteq> [] \<Longrightarrow> half_clones (worker_clones s) = int (clone_repeat s)"
  by (simp add: worker_clones_eq half_clones_def concat_pairs_length)

lemma stage_shows:
  assumes n: "ow_items s \<noteq> []" and st: "ow_stage s = map item_el (ow_items s)"
    and i: "i < length (ow_stage (worker_clones s))"
  shows "ch_item (ow_stage (worker_clones s) ! i) = ow_items s ! nat ((int i - int (clone_repeat s)) mod item_count s)"
proof -
  let ?k = "clone_repeat s" and ?n = "length (ow_items s)"
  let ?pre = "rev (map (\<lambda>i. clone_el s (- int i - 1)) [0..<?k])"
  have stage: "ow_stage (worker_clones s) = ?pre @ map item_el (ow_items s) @ map (\<lambda>i. clone_el s (int i)) [0..<?k]"
    using n st by (simp add: worker_clones_eq)
  have n0: "0 < ?n" using n by simp
  consider "i < ?k" | "?k \<le> i" "i < ?k + ?n" | "?k + ?n \<le> i" "i < ?k + ?n + ?k"
    using i stage by (simp; linarith)
  then show ?thesis
  proof cases
    case 1
    then have "?pre ! i = clone_el s (- int (?k - Suc i) - 1)" by (simp add: rev_nth)
    moreover have "- int (?k - Suc i) - 1 = int i - int ?k" using 1 by linarith
    ultimately show ?thesis using 1 stage by (simp add: nth_append)
  next
    case 2
    then have "(int i - int ?k) mod int ?n = int (i - ?k)" "i - ?k < ?n" by (simp_all add: of_nat_diff less_diff_conv2)
    then show ?thesis using 2 stage by (simp add: nth_append nat_diff_distrib)
  next
    case 3
    define j where "j = i - ?k - ?n"
    have ij: "i = ?k + ?n + j" "j < ?k" using 3 by (auto simp: j_def)
    then have "ow_stage (worker_clones s) ! i = clone_el s (int j)" using stage by (simp add: nth_append)
    moreover have "(int i - int ?k) mod int ?n = int j mod int ?n" using ij by simp
    ultimately show ?thesis by simp
  qed
qed

lemma clone_shows:
  assumes n: "ow_items s \<noteq> []" and i: "i < length (ow_clones (worker_clones s))"
  shows "relative (worker_clones s) (clone_position (worker_clones s) i) = Some (ow_clones (worker_clones s) ! i)"
proof -
  let ?s = "worker_clones s" and ?k = "clone_repeat s"
  have it: "ow_items ?s = ow_items s" using n by (simp add: worker_clones_eq)
  have i2: "i < 2 * ?k" using i n by (simp add: worker_clones_eq concat_pairs_length)
  have "ow_clones ?s ! i = (if even i then int (i div 2) mod item_count s else (- int (i div 2) - 1) mod item_count s)"
    using n i2 concat_pairs_nth [of i "[0..<?k]" "\<lambda>i. int i mod item_count s" "\<lambda>i. (- int i - 1) mod item_count s"]
    by (simp add: worker_clones_eq)
  moreover have "relative ?s p = Some ((p - int ?k) mod item_count s)" for p
    using relative_mod [of ?s p] n it half_worker_clones [OF n] by simp
  moreover have "clone_position ?s i - int ?k =
      (if even i then int (i div 2) + item_count s else - int (i div 2) - 1)"
    using half_worker_clones [OF n] it by (auto simp: clone_position_def even_iff_mod_2_eq_zero elim!: oddE)
  ultimately show ?thesis by simp
qed

section \<open>Coordinates\<close>

text \<open>The sums of the widths (with margin) of the first \<open>i\<close> children of the stage.\<close>

definition extent :: "owl \<Rightarrow> nat \<Rightarrow> rat" where
  "extent s i = (\<Sum>j<i. ow_widths s ! nat (the (relative s (int j))) + se_margin (ow_settings s))"

lemma coord_loop_sum:
  "acc = map (\<lambda>i. extent s (Suc i) * r) [0..<j] \<Longrightarrow>
   coord_loop s r [j..<j + k] acc = map (\<lambda>i. extent s (Suc i) * r) [0..<j + k]"
proof (induction k arbitrary: j acc)
  case (Suc k)
  have u: "[j..<j + Suc k] = j # [Suc j..<Suc j + k]" by (simp add: upt_rec)
  have "or_zero (nth_int acc (int j - 1)) = extent s j * r"
  proof (cases j)
    case 0
    then show ?thesis by (simp add: or_zero_def nth_int_def extent_def)
  next
    case (Suc i)
    then have "acc ! i = extent s (Suc i) * r" "i < length acc" using Suc.prems by (simp_all del: upt_Suc)
    then show ?thesis using Suc by (simp add: or_zero_def nth_int_def nth_opt_def)
  qed
  then have "acc @ [or_zero (nth_int acc (int j - 1)) + (ow_widths s ! nat (the (relative s (int j))) + se_margin (ow_settings s)) * r]
      = map (\<lambda>i. extent s (Suc i) * r) [0..<Suc j]"
    using Suc.prems by (simp add: extent_def algebra_simps)
  note IH = Suc.IH [OF this]
  show ?case unfolding u coord_loop.simps using IH by simp
qed simp

lemma worker_coordinates_eq:
  "ow_coordinates (worker_coordinates s) =
     map (\<lambda>i. extent s (Suc i) * (if se_rtl (ow_settings s) then 1 else -1))
       [0..<length (ow_clones s) + length (ow_items s)]"
  using coord_loop_sum [of "[]" s "if se_rtl (ow_settings s) then 1 else -1" 0 "length (ow_clones s) + length (ow_items s)"]
  by (simp add: worker_coordinates_def)

section \<open>The end of an update\<close>

text \<open>The worker functions and \<open>animate\<close> count other states than \<open>valid\<close>.\<close>

definition tags_ok :: "owl \<Rightarrow> bool" where
  "tags_ok s \<longleftrightarrow> st_tags (ow_states s) ''animating'' = Some [''busy''] \<and> st_tags (ow_states s) ''valid'' = None"

lemma count_other: "k \<notin> set ns \<Longrightarrow> st_current (fold count_up ns t) k = st_current t k"
  "k \<notin> set ns \<Longrightarrow> st_current (fold count_down ns t) k = st_current t k"
  by (induction ns arbitrary: t) (auto simp: count_up_def count_down_def)

definition count_of :: "string \<Rightarrow> owl \<Rightarrow> count option" where
  "count_of k s = st_current (ow_states s) k"

abbreviation valid_count :: "owl \<Rightarrow> count option" where
  "valid_count \<equiv> count_of ''valid''"

text \<open>The states that moving the stage does not count.\<close>

abbreviation quiet :: "string \<Rightarrow> bool" where
  "quiet k \<equiv> k \<noteq> ''animating'' \<and> k \<noteq> ''busy''"

lemma animating_keeps:
  assumes "tags_ok s" and "quiet k"
  shows "count_of k (enter_st ''animating'' s) = count_of k s" "tags_ok (enter_st ''animating'' s)"
    and "count_of k (leave_st ''animating'' s) = count_of k s" "tags_ok (leave_st ''animating'' s)"
  using assms by (simp_all add: count_of_def tags_ok_def enter_st_def leave_st_def enter_def leave_def
      with_tags_def count_other count_up_def count_down_def)

lemma upd_keeps [simp]:
  "count_of k (s\<lparr>ow_translate := c\<rparr>) = count_of k s" "tags_ok (s\<lparr>ow_translate := c\<rparr>) = tags_ok s"
  "count_of k (trigger e s) = count_of k s" "tags_ok (trigger e s) = tags_ok s"
  by (simp_all add: count_of_def tags_ok_def)

lemma animate_keeps: "tags_ok s \<Longrightarrow> quiet k \<Longrightarrow> count_of k (animate c s) = count_of k s \<and> tags_ok (animate c s)"
  by (simp add: animate_def Let_def onTransitionEnd_def animating_keeps)

lemma reset_keeps: "tags_ok s \<Longrightarrow> quiet k \<Longrightarrow> count_of k (reset p s) = count_of k s \<and> tags_ok (reset p s)"
proof (cases "normalize s p False")
  case (Some q)
  assume t: "tags_ok s" "quiet k"
  let ?s2 = "s\<lparr>ow_speed := Some 0, ow_current := Some q,
     ow_supress := suppress [''translate'', ''translated''] (ow_supress s)\<rparr>"
  have "tags_ok ?s2" "count_of k ?s2 = count_of k s" using t by (simp_all add: tags_ok_def count_of_def)
  with animate_keeps [of ?s2 k "coordinates ?s2 q"] t(2) Some show ?thesis
    by (simp add: reset_def Let_def) (simp add: tags_ok_def count_of_def)
qed (simp add: reset_def)

definition worker_safe :: "(cache \<times> owl \<Rightarrow> cache \<times> owl) \<Rightarrow> bool" where
  "worker_safe w \<longleftrightarrow> (\<forall>c s k. tags_ok s \<longrightarrow> quiet k \<longrightarrow>
     count_of k (snd (w (c, s))) = count_of k s \<and> tags_ok (snd (w (c, s))))"

lemma states_safe: "(\<And>c s. ow_states (snd (w (c, s))) = ow_states s) \<Longrightarrow> worker_safe w"
  by (simp add: worker_safe_def count_of_def tags_ok_def)

lemma Workers_safe: "(f, w) \<in> set (Workers d) \<Longrightarrow> worker_safe w"
proof -
  have "worker_safe (both (worker_width d))" "worker_safe worker_current" "worker_safe (both worker_unclone)"
    "worker_safe worker_css" "worker_safe (worker_widths d)" "worker_safe (both worker_clones)"
    "worker_safe (both worker_coordinates)" "worker_safe (both worker_stageCss)" "worker_safe worker_childCss"
    "worker_safe (both worker_clearStyle)" "worker_safe (both worker_active)"
    by (rule states_safe; simp add: both_def worker_width_def worker_current_def worker_unclone_def worker_css_def
          worker_widths_def worker_clones_def worker_coordinates_def worker_stageCss_def worker_childCss_def
          worker_clearStyle_def worker_active_def Let_def split: prod.splits)+
  moreover have "worker_safe (worker_reset d)" "worker_safe (both worker_animate)"
    
    unfolding worker_safe_def worker_reset_def both_def worker_animate_def
    using reset_keeps animate_keeps by (simp_all add: Let_def)
  moreover assume "(f, w) \<in> set (Workers d)"
  ultimately show ?thesis by (auto simp: Workers_def)
qed

lemma pipeline_keeps:
  "\<forall>(f, w)\<in>set ws. worker_safe w \<Longrightarrow> tags_ok s \<Longrightarrow> quiet k \<Longrightarrow>
   count_of k (snd (fold run_worker ws (c, s))) = count_of k s \<and> tags_ok (snd (fold run_worker ws (c, s)))"
proof (induction ws arbitrary: c s)
  case (Cons fw ws)
  obtain f w where fw: "fw = (f, w)" by (cases fw)
  obtain c' s' where r: "run_worker fw (c, s) = (c', s')" by (cases "run_worker fw (c, s)")
  have "count_of k s' = count_of k s \<and> tags_ok s'"
  proof (cases "PAll \<in> ow_invalidated s \<or> list_ex (\<lambda>p. p \<in> ow_invalidated s) f")
    case True
    then have "w (c, s) = (c', s')" using r fw by (simp add: run_worker_def)
    moreover have "worker_safe w" using Cons.prems(1) fw by auto
    ultimately show ?thesis using Cons.prems(2,3) unfolding worker_safe_def by (metis snd_conv)
  next
    case False
    then show ?thesis using r fw Cons.prems by (simp add: run_worker_def)
  qed
  then show ?case using Cons r by simp
qed simp

text \<open>An update counts no state but \<open>valid\<close> and those of the movement.\<close>

lemma update_keeps:
  assumes "tags_ok s" and "quiet k" and "k \<noteq> ''valid''"
  shows "count_of k (update d s) = count_of k s"
proof -
  let ?s1 = "(snd (fold run_worker (Workers d) (init_cache, s)))\<lparr>ow_invalidated := {}\<rparr>"
  have "\<forall>(f, w)\<in>set (Workers d). worker_safe w" using Workers_safe by blast
  then have k: "count_of k ?s1 = count_of k s" "tags_ok ?s1"
    using pipeline_keeps [of "Workers d" s k init_cache] assms by (simp_all add: count_of_def tags_ok_def)
  have "with_tags (ow_states ?s1) ''valid'' = [''valid'']" using k(2) by (simp add: tags_ok_def with_tags_def)
  then have "count_of k (enter_st ''valid'' ?s1) = count_of k s"
    using k(1) assms(3) by (simp add: count_of_def enter_st_def enter_def count_up_def)
  then show ?thesis using k(1) by (simp add: update_def Let_def)
qed

lemma update_valid:
  assumes "tags_ok s" and "valid_count s \<in> {None, Some (Num 0), Some (Num 1)}"
  shows "ow_invalidated (update d s) = {} \<and> is_in ''valid'' (update d s)
    \<and> valid_count (update d s) = Some (Num 1) \<and> tags_ok (update d s)"
proof -
  let ?s1 = "(snd (fold run_worker (Workers d) (init_cache, s)))\<lparr>ow_invalidated := {}\<rparr>"
  have "\<forall>(f, w)\<in>set (Workers d). worker_safe w" using Workers_safe by blast
  then have k: "valid_count ?s1 = valid_count s" "tags_ok ?s1"
    using pipeline_keeps [of "Workers d" s "''valid''" init_cache] assms(1) by (simp_all add: count_of_def tags_ok_def)
  show ?thesis
  proof (cases "is_in ''valid'' ?s1")
    case True
    then have "valid_count s = Some (Num 1)" using k(1) assms(2)
      by (auto simp: is_in_def is_state_def count_of_def split: option.splits count.splits)
    then show ?thesis using True k by (simp add: update_def Let_def)
  next
    case False
    then have "valid_count s \<noteq> Some (Num 1)" using k(1) by (auto simp: is_in_def is_state_def count_of_def)
    then have "valid_count s \<in> {None, Some (Num 0)}" using assms(2) by simp
    moreover have "update d s = enter_st ''valid'' ?s1" using False by (simp add: update_def Let_def)
    moreover have "with_tags (ow_states ?s1) ''valid'' = [''valid'']" using k(2) by (simp add: tags_ok_def with_tags_def)
    ultimately show ?thesis using k
      by (auto simp: is_in_def is_state_def count_of_def tags_ok_def enter_st_def enter_def count_up_def)
  qed
qed


section \<open>Properties\<close>

text \<open>Any position is brought into range without changing which item it shows: the result lies
  between 0 and the number of children of the stage, is the same item modulo the number of items,
  and is left alone by a second call; there is no result exactly when there are no items.\<close>

lemma normalize_position:
  "(ow_items s = [] \<longrightarrow> normalize s p rel = None)
   \<and> (ow_items s \<noteq> [] \<longrightarrow> (\<exists>q. normalize s p rel = Some q \<and> 0 \<le> q
        \<and> q < int (length (ow_items s)) + (if rel then 0 else int (length (ow_clones s)))
        \<and> q mod int (length (ow_items s)) = p mod int (length (ow_items s))
        \<and> normalize s q rel = Some q))"
proof (intro conjI impI)
  assume n: "ow_items s \<noteq> []"
  obtain q where q: "normalize s p rel = Some q" "0 \<le> q"
    "q < item_count s + (if rel then 0 else int (length (ow_clones s)))" "q mod item_count s = p mod item_count s"
    using normalize_Some [OF n] by metis
  moreover have "normalize s q rel = Some q" using q(2,3) n by (auto simp: normalize_def Let_def)
  ultimately show "\<exists>q. normalize s p rel = Some q \<and> 0 \<le> q
        \<and> q < int (length (ow_items s)) + (if rel then 0 else int (length (ow_clones s)))
        \<and> q mod int (length (ow_items s)) = p mod int (length (ow_items s))
        \<and> normalize s q rel = Some q" by blast
qed (simp add: normalize_def)

definition sample_owl :: "nat list \<Rightarrow> settings \<Rightarrow> owl" where
  "sample_owl xs se = \<lparr>ow_options = se, ow_responsive = [], ow_breakpoint = -1, ow_settings = se,
     ow_current = Some 0, ow_speed = Some 0, ow_coordinates = [], ow_width = 300, ow_items = xs, ow_clones = [],
     ow_mergers = map (\<lambda>_. 1) xs, ow_widths = map (\<lambda>_. 100) xs, ow_invalidated = {}, ow_states = init_states,
     ow_supress = {}, ow_stage = map item_el xs, ow_translate = None, ow_stageCss = None, ow_childCss = [],
     ow_active = [], ow_centered = None, ow_events = []\<rparr>"

definition sample_dom :: dom where
  "sample_dom = \<lparr>dm_width = 300, dm_viewport = 1000, dm_itemWidth = (\<lambda>_. 100), dm_visible = True, dm_change = (\<lambda>_. None)\<rparr>"


text \<open>C8. In a looping carousel \<open>to\<close> always ends at the item that was asked for, whatever shorter way
  round or jump between clones it takes: the new current position shows the item with the given
  number modulo the number of items.\<close>

theorem to_shows_item:
  assumes "se_loop (ow_settings s)" and "ow_items s \<noteq> []" and "ow_invalidated s \<subseteq> {PPosition}" and "unopposed d"
  shows "\<exists>q. ow_current (to_pos d position v s) = Some q
    \<and> relative (to_pos d position v s) q = Some (position mod int (length (ow_items s)))"
  by (rule to_loop [OF assms])

theorem to_shows_item_witness:
  "\<exists>q. ow_current (to_pos sample_dom 5 None (sample_owl [7, 8, 9] (Defaults\<lparr>se_loop := True\<rparr>))) = Some q
    \<and> relative (to_pos sample_dom 5 None (sample_owl [7, 8, 9] (Defaults\<lparr>se_loop := True\<rparr>))) q = Some 2"
  using to_shows_item [of "sample_owl [7, 8, 9] (Defaults\<lparr>se_loop := True\<rparr>)" sample_dom 5 None]
  by (simp add: sample_owl_def sample_dom_def unopposed_def)

text \<open>Without a loop \<open>to\<close> never leaves the range of positions from 0 to the maximum: it clamps
  the position, or with rewind wraps it around, and the maximum is always a position of an item.\<close>

lemma to_stays_in_range:
  assumes "\<not> se_loop (ow_settings s)" and "ow_items s \<noteq> []" and "1 \<le> se_items (ow_settings s)" and "ow_clones s = []"
    and "ow_invalidated s \<subseteq> {PPosition}" and "unopposed d"
  shows "maximum d s False < int (length (ow_items s))
    \<and> (\<exists>q. ow_current (to_pos d position v s) = Some q \<and> 0 \<le> q \<and> q \<le> maximum d s False
         \<and> (\<not> se_rewind (ow_settings s) \<longrightarrow> q = max 0 (min (maximum d s False) position)))"
  using to_bounded [OF assms, of position v] maximum_range [OF assms(1-3), of d] by blast


text \<open>C14. After the clones are made, every child of the stage, clone or item, is a copy of the item that
  \<open>relative\<close> computes for its position, and the positions \<open>clones\<close> reports for the clones belong
  to the items they copy.\<close>

theorem clones_match_positions:
  assumes "ow_items s \<noteq> []" and "ow_stage s = map item_el (ow_items s)"
  shows "(\<forall>i < length (ow_stage (worker_clones s)).
       ch_item (ow_stage (worker_clones s) ! i) = ow_items s ! nat (the (relative (worker_clones s) (int i))))
   \<and> (\<forall>i < length (ow_clones (worker_clones s)).
       relative (worker_clones s) (clone_position (worker_clones s) i) = Some (ow_clones (worker_clones s) ! i))"
proof -
  have "relative (worker_clones s) p = Some ((p - int (clone_repeat s)) mod item_count s)" for p
    using relative_mod [of "worker_clones s" p] assms(1) half_worker_clones [OF assms(1)] by (simp add: worker_clones_eq)
  then show ?thesis using stage_shows [OF assms] clone_shows [OF assms(1)] by simp
qed

theorem clones_match_positions_witness:
  "length (ow_stage (worker_clones (sample_owl [7, 8, 9] (Defaults\<lparr>se_loop := True\<rparr>)))) = 9
   \<and> ch_item (ow_stage (worker_clones (sample_owl [7, 8, 9] (Defaults\<lparr>se_loop := True\<rparr>))) ! 4) = 
     [7, 8, 9] ! nat (the (relative (worker_clones (sample_owl [7, 8, 9] (Defaults\<lparr>se_loop := True\<rparr>))) 4))"
proof -
  let ?s = "sample_owl [7, 8, 9] (Defaults\<lparr>se_loop := True\<rparr>)"
  have s: "ow_items ?s = [7, 8, 9]" "ow_items ?s \<noteq> []" "ow_stage ?s = map item_el (ow_items ?s)" by (simp_all add: sample_owl_def)
  have l: "length (ow_stage (worker_clones ?s)) = 9" by code_simp
  have "\<forall>i < length (ow_stage (worker_clones ?s)).
       ch_item (ow_stage (worker_clones ?s) ! i) = [7, 8, 9] ! nat (the (relative (worker_clones ?s) (int i)))"
    using clones_match_positions [OF s(2,3)] unfolding s(1) by blast
  then have "ch_item (ow_stage (worker_clones ?s) ! 4) = [7, 8, 9] ! nat (the (relative (worker_clones ?s) (int 4)))"
    unfolding l by simp
  then show ?thesis using l by simp
qed

text \<open>The coordinate of a child is the sum of the widths and margins of the children up to it,
  negated for left-to-right.\<close>

lemma coordinates_are_sums:
  "ow_coordinates (worker_coordinates s) =
     map (\<lambda>i. extent s (Suc i) * (if se_rtl (ow_settings s) then 1 else -1))
       [0..<length (ow_clones s) + length (ow_items s)]"
  by (rule worker_coordinates_eq)

text \<open>C38. An update leaves nothing invalidated and the carousel in the state valid, entered once,
  whatever was invalidated before.\<close>

theorem update_makes_valid:
  assumes "tags_ok s" and "valid_count s \<in> {None, Some (Num 0), Some (Num 1)}"
  shows "ow_invalidated (update d s) = {} \<and> is_in ''valid'' (update d s)
    \<and> valid_count (update d s) = Some (Num 1) \<and> tags_ok (update d s)"
  by (rule update_valid [OF assms])

theorem update_makes_valid_witness:
  "is_in ''valid'' (update sample_dom (invalidate PItems (sample_owl [7, 8, 9] Defaults)))"
  using update_makes_valid [of "invalidate PItems (sample_owl [7, 8, 9] Defaults)" sample_dom]
  by (simp add: sample_owl_def tags_ok_def count_of_def invalidate_def is_in_def is_state_def init_states_def Let_def)

end
