(* ===== verification/OwlItems.thy ===== *)
theory OwlItems
  imports OwlProps
begin

text \<open>
  The items of the carousel (\<open>server/html/js/owl.carousel.js\<close>): the constructor, \<open>prepare\<close>,
  \<open>replace\<close>, \<open>add\<close>, \<open>remove\<close>, \<open>initializeItems\<close> and \<open>initialize\<close>, and what they keep of the
  correspondence between items, their merge values and the children of the stage.
\<close>

section \<open>Construction\<close>

text \<open>\<open>stage\<close>: what a stage that is already in the page holds.\<close>

definition init_owl :: "settings \<Rightarrow> (rat \<times> (settings \<Rightarrow> settings)) list \<Rightarrow> child list \<Rightarrow> owl" where
  "init_owl options responsive stage = \<lparr>ow_options = options, ow_responsive = responsive, ow_breakpoint = -1,
     ow_settings = options, ow_current = None, ow_speed = None, ow_coordinates = [], ow_width = 0,
     ow_items = [], ow_clones = [], ow_mergers = [], ow_widths = [], ow_invalidated = {},
     ow_states = init_states, ow_supress = {}, ow_stage = stage, ow_translate = None, ow_stageCss = None,
     ow_childCss = [], ow_active = [], ow_centered = None, ow_events = []\<rparr>"

section \<open>Operations on the items\<close>

text \<open>Content to show: the container it gets and its \<open>data-merge\<close> attribute as a number (None: NaN).\<close>

record content =
  ct_item :: nat
  ct_merge :: "rat option"

definition merge_value :: "content \<Rightarrow> rat" where
  "merge_value c = (case ct_merge c of Some v \<Rightarrow> if v = 0 then 1 else v | None \<Rightarrow> 1)"

definition prepare :: "content \<Rightarrow> owl \<Rightarrow> owl" where
  "prepare c s = trigger ''prepared'' (trigger ''prepare'' s)"

definition append_item :: "content \<Rightarrow> owl \<Rightarrow> owl" where
  "append_item c s =
     (let s1 = prepare c s
      in s1\<lparr>ow_stage := ow_stage s1 @ [item_el (ct_item c)], ow_items := ow_items s1 @ [ct_item c],
            ow_mergers := ow_mergers s1 @ [merge_value c]\<rparr>)"

definition start_position :: "settings \<Rightarrow> int" where
  "start_position se = (case se_startPosition se of Some p \<Rightarrow> p | None \<Rightarrow> 0)"

definition replace :: "content list \<Rightarrow> owl \<Rightarrow> owl" where
  "replace cs s =
     (let s1 = fold append_item cs (s\<lparr>ow_stage := [], ow_items := []\<rparr>)
      in invalidate PItems (reset (start_position (ow_settings s1)) s1))"

fun insert_after :: "nat \<Rightarrow> child \<Rightarrow> child list \<Rightarrow> child list" where
  "insert_after x c [] = []"
| "insert_after x c (k # ks) = (if k = item_el x then k # c # ks else k # insert_after x c ks)"

fun insert_before :: "nat \<Rightarrow> child \<Rightarrow> child list \<Rightarrow> child list" where
  "insert_before x c [] = []"
| "insert_before x c (k # ks) = (if k = item_el x then c # k # ks else k # insert_before x c ks)"

text \<open>\<open>splice(p, 0, x)\<close> and \<open>splice(p, 1)\<close>.\<close>

definition splice_in :: "nat \<Rightarrow> 'a \<Rightarrow> 'a list \<Rightarrow> 'a list" where
  "splice_in p x xs = take p xs @ x # drop p xs"

definition splice_out :: "nat \<Rightarrow> 'a list \<Rightarrow> 'a list" where
  "splice_out p xs = take p xs @ drop (Suc p) xs"

text \<open>The position an item is added at: the end by default.\<close>

definition add_position :: "int option \<Rightarrow> owl \<Rightarrow> int option" where
  "add_position position s =
     (case position of None \<Rightarrow> Some (int (length (ow_items s))) | Some p \<Rightarrow> normalize s p True)"

definition add_at :: "content \<Rightarrow> int option \<Rightarrow> owl \<Rightarrow> owl" where
  "add_at c position s =
     (let n = length (ow_items s); x = ct_item c in
      if n = 0 then
        s\<lparr>ow_stage := ow_stage s @ [item_el x], ow_items := ow_items s @ [x],
          ow_mergers := ow_mergers s @ [merge_value c]\<rparr>
      else case position of
        None \<Rightarrow> s
      | Some p \<Rightarrow>
          if p = int n then
            s\<lparr>ow_stage := insert_after (ow_items s ! (n - 1)) (item_el x) (ow_stage s),
              ow_items := ow_items s @ [x], ow_mergers := ow_mergers s @ [merge_value c]\<rparr>
          else
            s\<lparr>ow_stage := insert_before (ow_items s ! nat p) (item_el x) (ow_stage s),
              ow_items := splice_in (nat p) x (ow_items s),
              ow_mergers := splice_in (nat p) (merge_value c) (ow_mergers s)\<rparr>)"

definition add :: "content \<Rightarrow> int option \<Rightarrow> owl \<Rightarrow> owl" where
  "add c position s =
     (let cur = relative s (current_num s);
          p = add_position position s;
          s1 = add_at c p (prepare c (trigger ''add'' s));
          s2 = (case cur of None \<Rightarrow> s1
                | Some k \<Rightarrow> (case nth_int (ow_items s1) k of None \<Rightarrow> s1
                             | Some x \<Rightarrow> reset (stage_index (ow_stage s1) x) s1))
      in trigger ''added'' (invalidate PItems s2))"

definition remove :: "int \<Rightarrow> owl \<Rightarrow> owl" where
  "remove position s =
     (case normalize s position True of
        None \<Rightarrow> s
      | Some p \<Rightarrow>
          (let s1 = trigger ''remove'' s;
               x = ow_items s1 ! nat p;
               s2 = s1\<lparr>ow_stage := remove1 (item_el x) (ow_stage s1),
                       ow_items := splice_out (nat p) (ow_items s1),
                       ow_mergers := splice_out (nat p) (ow_mergers s1)\<rparr>
           in trigger ''removed'' (invalidate PItems s2)))"

section \<open>Initialisation\<close>

text \<open>\<open>present\<close>: the items that are already in the page; \<open>contents\<close>: the children of the element.\<close>

definition initializeItems :: "dom \<Rightarrow> nat list \<Rightarrow> content list \<Rightarrow> owl \<Rightarrow> owl" where
  "initializeItems d present contents s =
     (if present \<noteq> [] then
        refresh d (s\<lparr>ow_items := present, ow_mergers := map (\<lambda>_. 1) present\<rparr>)
      else
        let s1 = replace contents s
        in if isVisible d s1 then refresh d s1 else invalidate PWidth s1)"

text \<open>Each image that is preloaded enters the state \<open>pre-loading\<close>.\<close>

definition preload_images :: "nat \<Rightarrow> owl \<Rightarrow> owl" where
  "preload_images n s = (enter_st ''pre-loading'' ^^ n) s"

definition image_loaded :: "dom \<Rightarrow> owl \<Rightarrow> owl" where
  "image_loaded d s =
     (let s1 = leave_st ''pre-loading'' s
      in if \<not> is_in ''pre-loading'' s1 \<and> \<not> is_in ''initializing'' s1 then refresh d s1 else s1)"

text \<open>\<open>imgs\<close> images in the element and \<open>w\<close> the width of its children, as measured.\<close>

definition initialize :: "dom \<Rightarrow> nat \<Rightarrow> rat \<Rightarrow> nat list \<Rightarrow> content list \<Rightarrow> owl \<Rightarrow> owl" where
  "initialize d imgs w present contents s =
     (let s1 = trigger ''initialize'' (enter_st ''initializing'' s);
          s2 = (if se_autoWidth (ow_settings s1) \<and> \<not> is_in ''pre-loading'' s1 \<and> imgs \<noteq> 0 \<and> w \<le> 0
                then preload_images imgs s1 else s1);
          s3 = initializeItems d present contents s2
      in trigger ''initialized'' (leave_st ''initializing'' s3))"

text \<open>The constructor runs \<open>setup\<close> and \<open>initialize\<close>.\<close>

definition new_owl ::
  "dom \<Rightarrow> settings \<Rightarrow> (rat \<times> (settings \<Rightarrow> settings)) list \<Rightarrow> nat \<Rightarrow> rat \<Rightarrow> nat list \<Rightarrow> content list \<Rightarrow> owl" where
  "new_owl d options responsive imgs w present contents =
     initialize d imgs w present contents (setup_owl d (init_owl options responsive (map item_el present)))"


section \<open>Items, merge values and the stage\<close>

text \<open>Every item has one merge value and one child of the stage, in the same order.\<close>

definition aligned :: "owl \<Rightarrow> bool" where
  "aligned s \<longleftrightarrow> distinct (ow_items s) \<and> length (ow_mergers s) = length (ow_items s)
     \<and> map ch_item (filter (\<lambda>c. \<not> ch_cloned c) (ow_stage s)) = ow_items s"

abbreviation real_items :: "child list \<Rightarrow> nat list" where
  "real_items ks \<equiv> map ch_item (filter (\<lambda>c. \<not> ch_cloned c) ks)"

lemma item_el_iff: "k = item_el x \<longleftrightarrow> ch_item k = x \<and> \<not> ch_cloned k"
  by (cases k) simp

lemma splice_in_length [simp]: "length (splice_in p x xs) = Suc (length xs)"
  by (simp add: splice_in_def)

lemma splice_out_in [simp]: "p \<le> length xs \<Longrightarrow> splice_out p (splice_in p x xs) = xs"
  by (simp add: splice_in_def splice_out_def)

lemma splice_out_length [simp]: "p < length xs \<Longrightarrow> length (splice_out p xs) = length xs - 1"
  by (simp add: splice_out_def)

lemma splice_in_end: "splice_in (length xs) x xs = xs @ [x]"
  by (simp add: splice_in_def)

lemma splice_in_nth [simp]: "p \<le> length xs \<Longrightarrow> splice_in p x xs ! p = x"
  by (simp add: splice_in_def nth_append)

lemma splice_in_Cons: "splice_in (Suc p) x (y # ys) = y # splice_in p x ys"
  by (simp add: splice_in_def)

lemma splice_out_Cons: "splice_out (Suc p) (y # ys) = y # splice_out p ys"
  by (simp add: splice_out_def)

lemma splice_in_set [simp]: "set (splice_in p x xs) = insert x (set xs)"
  unfolding splice_in_def by (metis append_take_drop_id list.simps(15) set_append Un_insert_right)

lemma splice_in_distinct: "distinct xs \<Longrightarrow> x \<notin> set xs \<Longrightarrow> distinct (splice_in p x xs)"
  unfolding splice_in_def
  by (metis (no_types, lifting) append_take_drop_id distinct_append distinct.simps(2) list.simps(15) set_append
      Un_iff insert_iff disjoint_insert(1) Int_commute)

lemma splice_out_distinct: "distinct xs \<Longrightarrow> distinct (splice_out p xs)"
  unfolding splice_out_def
  by (metis Suc_n_not_le_n distinct_append distinct_drop distinct_take nat_le_linear set_take_disj_set_drop_if_distinct)

text \<open>The child of the item at a position splits the stage.\<close>

lemma real_split:
  "real_items ks = us @ y # vs \<Longrightarrow> \<exists>k1 k2. ks = k1 @ item_el y # k2 \<and> real_items k1 = us \<and> real_items k2 = vs"
proof (induction ks arbitrary: us)
  case (Cons k ks)
  consider (clone) "ch_cloned k" | (here) "\<not> ch_cloned k" "us = []" | (later) u us' where "\<not> ch_cloned k" "us = u # us'"
    by (cases us) auto
  then show ?case
  proof cases
    case clone
    then obtain k1 k2 where "ks = k1 @ item_el y # k2" "real_items k1 = us" "real_items k2 = vs" using Cons by fastforce
    then show ?thesis using clone by (intro exI [of _ "k # k1"] exI [of _ k2]) simp
  next
    case here
    then have "k = item_el y" "real_items ks = vs" using Cons.prems by (simp_all add: item_el_iff)
    then show ?thesis using here by (intro exI [of _ "[]"] exI [of _ ks]) simp
  next
    case later
    then have "ch_item k = u" "real_items ks = us' @ y # vs" using Cons.prems by simp_all
    moreover obtain k1 k2 where "ks = k1 @ item_el y # k2" "real_items k1 = us'" "real_items k2 = vs"
      using Cons.IH calculation(2) by blast
    ultimately show ?thesis using later by (intro exI [of _ "k # k1"] exI [of _ k2]) simp
  qed
qed simp

lemma not_real: "y \<notin> set (real_items ks) \<Longrightarrow> item_el y \<notin> set ks"
  by force

lemma insert_before_split: "item_el y \<notin> set k1 \<Longrightarrow> insert_before y c (k1 @ item_el y # k2) = k1 @ c # item_el y # k2"
  by (induction k1) auto

lemma insert_after_split: "item_el y \<notin> set k1 \<Longrightarrow> insert_after y c (k1 @ item_el y # k2) = k1 @ item_el y # c # k2"
  by (induction k1) auto

lemma stage_at:
  assumes "distinct (real_items ks)" and "p < length (real_items ks)"
  shows "\<exists>k1 k2. ks = k1 @ item_el (real_items ks ! p) # k2 \<and> real_items k1 = take p (real_items ks)
    \<and> real_items k2 = drop (Suc p) (real_items ks) \<and> item_el (real_items ks ! p) \<notin> set k1"
proof -
  let ?y = "real_items ks ! p"
  have split: "real_items ks = take p (real_items ks) @ ?y # drop (Suc p) (real_items ks)"
    by (rule id_take_nth_drop [OF assms(2)])
  then obtain k1 k2 where k: "ks = k1 @ item_el ?y # k2" "real_items k1 = take p (real_items ks)"
    "real_items k2 = drop (Suc p) (real_items ks)" using real_split by blast
  have "?y \<notin> set (take p (real_items ks))"
    using assms(1) by (subst (asm) split) (simp only: distinct_append distinct.simps set_simps Int_insert_right, simp split: if_splits)
  then have "item_el ?y \<notin> set k1" using not_real [of ?y k1] k(2) by simp
  then show ?thesis using k by blast
qed

lemma insert_before_real:
  assumes "distinct (real_items ks)" and "p < length (real_items ks)"
  shows "real_items (insert_before (real_items ks ! p) (item_el x) ks) = splice_in p x (real_items ks)"
proof -
  obtain k1 k2 where "ks = k1 @ item_el (real_items ks ! p) # k2" "real_items k1 = take p (real_items ks)"
    "real_items k2 = drop (Suc p) (real_items ks)" "item_el (real_items ks ! p) \<notin> set k1" using stage_at [OF assms] by blast
  moreover have "insert_before (real_items ks ! p) (item_el x) ks = k1 @ item_el x # item_el (real_items ks ! p) # k2"
    using calculation(1,4) insert_before_split by metis
  ultimately show ?thesis using Cons_nth_drop_Suc [OF assms(2)] by (simp add: splice_in_def)
qed

lemma insert_after_real:
  assumes "distinct (real_items ks)" and "p < length (real_items ks)"
  shows "real_items (insert_after (real_items ks ! p) (item_el x) ks) = splice_in (Suc p) x (real_items ks)"
proof -
  obtain k1 k2 where "ks = k1 @ item_el (real_items ks ! p) # k2" "real_items k1 = take p (real_items ks)"
    "real_items k2 = drop (Suc p) (real_items ks)" "item_el (real_items ks ! p) \<notin> set k1" using stage_at [OF assms] by blast
  moreover have "insert_after (real_items ks ! p) (item_el x) ks = k1 @ item_el (real_items ks ! p) # item_el x # k2"
    using calculation(1,4) insert_after_split by metis
  ultimately show ?thesis using take_Suc_conv_app_nth [OF assms(2)] by (simp add: splice_in_def)
qed

lemma remove_real:
  assumes "distinct (real_items ks)" and "p < length (real_items ks)"
  shows "real_items (remove1 (item_el (real_items ks ! p)) ks) = splice_out p (real_items ks)"
proof -
  obtain k1 k2 where "ks = k1 @ item_el (real_items ks ! p) # k2" "real_items k1 = take p (real_items ks)"
    "real_items k2 = drop (Suc p) (real_items ks)" "item_el (real_items ks ! p) \<notin> set k1" using stage_at [OF assms] by blast
  moreover have "remove1 (item_el (real_items ks ! p)) ks = k1 @ k2"
    using calculation(1,4) by (metis remove1.simps(2) remove1_append)
  ultimately show ?thesis by (simp add: splice_out_def)
qed

section \<open>Adding, removing and replacing\<close>

lemma prepare_sel [simp]:
  "ow_items (prepare c s) = ow_items s" "ow_mergers (prepare c s) = ow_mergers s" "ow_stage (prepare c s) = ow_stage s"
  "ow_clones (prepare c s) = ow_clones s" "ow_settings (prepare c s) = ow_settings s"
  by (simp_all add: prepare_def)

text \<open>The index at which an item is added.\<close>

definition add_index :: "int option \<Rightarrow> owl \<Rightarrow> nat" where
  "add_index position s =
     (if ow_items s = [] then 0 else case position of None \<Rightarrow> length (ow_items s)
      | Some p \<Rightarrow> nat (p mod int (length (ow_items s))))"

lemma add_index_le: "add_index position s \<le> length (ow_items s)"
proof (cases "ow_items s = []")
  case False
  have "nat (p mod item_count s) \<le> length (ow_items s)" for p
    using pos_mod_bound [of "item_count s" p] False by (simp add: nat_le_iff order.strict_implies_order)
  then show ?thesis by (simp add: add_index_def split: option.split)
qed (simp add: add_index_def)

lemma add_at_sel:
  assumes "aligned s" and q: "q = (if ow_items s = [] then q else Some (int k))" and k: "k \<le> length (ow_items s)"
    and "ow_items s = [] \<Longrightarrow> k = 0"
  shows "ow_items (add_at c q s) = splice_in k (ct_item c) (ow_items s)"
    and "ow_mergers (add_at c q s) = splice_in k (merge_value c) (ow_mergers s)"
    and "real_items (ow_stage (add_at c q s)) = splice_in k (ct_item c) (ow_items s)"
proof -
  have a: "length (ow_mergers s) = length (ow_items s)" "real_items (ow_stage s) = ow_items s"
    "distinct (real_items (ow_stage s))" using assms(1) by (auto simp: aligned_def)
  have len: "length (real_items (ow_stage s)) = length (ow_items s)" by (simp only: a(2))
  show "ow_items (add_at c q s) = splice_in k (ct_item c) (ow_items s)"
    using assms by (auto simp: add_at_def Let_def splice_in_def split: option.splits)
  show "ow_mergers (add_at c q s) = splice_in k (merge_value c) (ow_mergers s)"
    using assms a(1) by (auto simp: add_at_def Let_def splice_in_def split: option.splits)
  consider (none) "ow_items s = []" | (ending) "ow_items s \<noteq> []" "k = length (ow_items s)"
    | (inside) "ow_items s \<noteq> []" "k < length (ow_items s)" using k by linarith
  then show "real_items (ow_stage (add_at c q s)) = splice_in k (ct_item c) (ow_items s)"
  proof cases
    case none
    then show ?thesis using assms(4) a(2) by (simp add: add_at_def Let_def splice_in_def)
  next
    case ending
    then have "ow_stage (add_at c q s) = insert_after (ow_items s ! (k - 1)) (item_el (ct_item c)) (ow_stage s)"
      using q by (simp add: add_at_def Let_def)
    then show ?thesis using insert_after_real [OF a(3), of "k - 1" "ct_item c"] ending len a(2) by simp
  next
    case inside
    then have "ow_stage (add_at c q s) = insert_before (ow_items s ! k) (item_el (ct_item c)) (ow_stage s)"
      using q by (simp add: add_at_def Let_def)
    then show ?thesis using insert_before_real [OF a(3), of k "ct_item c"] inside len a(2) by simp
  qed
qed

lemma add_position_index:
  "add_position position s = (if ow_items s = [] then add_position position s else Some (int (add_index position s)))"
  by (simp add: add_position_def add_index_def normalize_rel split: option.split)

lemma add_position_cong: "ow_items s = ow_items t \<Longrightarrow> ow_clones s = ow_clones t \<Longrightarrow> add_position q s = add_position q t"
  by (simp only: add_position_def normalize_cong [of s t])

lemma add_index_cong: "ow_items s = ow_items t \<Longrightarrow> add_index q s = add_index q t"
  by (simp only: add_index_def)

lemma aligned_cong: "ow_items s = ow_items t \<Longrightarrow> ow_mergers s = ow_mergers t \<Longrightarrow> ow_stage s = ow_stage t \<Longrightarrow> aligned s = aligned t"
  by (simp add: aligned_def)

lemma add_sel:
  assumes "aligned s"
  shows "ow_items (add c q s) = splice_in (add_index q s) (ct_item c) (ow_items s)"
    and "ow_mergers (add c q s) = splice_in (add_index q s) (merge_value c) (ow_mergers s)"
    and "real_items (ow_stage (add c q s)) = splice_in (add_index q s) (ct_item c) (ow_items s)"
proof -
  let ?t = "prepare c (trigger ''add'' s)"
  have t: "aligned ?t" "add_position q s = add_position q ?t" "add_index q s = add_index q ?t"
    using assms by (simp_all add: aligned_def add_position_cong [of s ?t] add_index_cong [of s ?t])
  have r: "ow_items (add c q s) = ow_items (add_at c (add_position q ?t) ?t)"
    "ow_mergers (add c q s) = ow_mergers (add_at c (add_position q ?t) ?t)"
    "ow_stage (add c q s) = ow_stage (add_at c (add_position q ?t) ?t)"
    by (simp_all add: add_def Let_def t(2) split: option.split)
  have z: "ow_items ?t = [] \<Longrightarrow> add_index q ?t = 0" by (simp add: add_index_def)
  have at: "ow_items (add_at c (add_position q ?t) ?t) = splice_in (add_index q ?t) (ct_item c) (ow_items ?t)"
    "ow_mergers (add_at c (add_position q ?t) ?t) = splice_in (add_index q ?t) (merge_value c) (ow_mergers ?t)"
    "real_items (ow_stage (add_at c (add_position q ?t) ?t)) = splice_in (add_index q ?t) (ct_item c) (ow_items ?t)"
    by (rule add_at_sel [OF t(1) add_position_index add_index_le z]; assumption)+
  show "ow_items (add c q s) = splice_in (add_index q s) (ct_item c) (ow_items s)"
    unfolding r(1) t(3) at(1) by simp
  show "ow_mergers (add c q s) = splice_in (add_index q s) (merge_value c) (ow_mergers s)"
    unfolding r(2) t(3) at(2) by simp
  show "real_items (ow_stage (add c q s)) = splice_in (add_index q s) (ct_item c) (ow_items s)"
    unfolding r(3) t(3) at(3) by simp
qed

lemma add_aligned: "aligned s \<Longrightarrow> ct_item c \<notin> set (ow_items s) \<Longrightarrow> aligned (add c q s)"
  unfolding aligned_def [of "add c q s"] by (simp add: add_sel) (simp add: aligned_def splice_in_distinct)

lemma remove_sel:
  fixes p :: int
  assumes "aligned s" and "ow_items s \<noteq> []"
  defines "k \<equiv> nat (p mod int (length (ow_items s)))"
  shows "ow_items (remove p s) = splice_out k (ow_items s)"
    and "ow_mergers (remove p s) = splice_out k (ow_mergers s)"
    and "real_items (ow_stage (remove p s)) = splice_out k (ow_items s)"
proof -
  have k: "normalize s p True = Some (int k)" "k < length (ow_items s)"
    using assms(2) pos_mod_bound [of "item_count s" p] by (simp_all add: normalize_rel k_def nat_less_iff)
  have a: "real_items (ow_stage s) = ow_items s" "distinct (real_items (ow_stage s))" using assms(1) by (auto simp: aligned_def)
  have len: "k < length (real_items (ow_stage s))" using k(2) by (simp only: a(1))
  show "ow_items (remove p s) = splice_out k (ow_items s)" "ow_mergers (remove p s) = splice_out k (ow_mergers s)"
    using k by (simp_all add: remove_def Let_def)
  have "ow_stage (remove p s) = remove1 (item_el (ow_items s ! k)) (ow_stage s)" using k by (simp add: remove_def Let_def)
  then show "real_items (ow_stage (remove p s)) = splice_out k (ow_items s)" using remove_real [OF a(2) len] a(1) by simp
qed

lemma remove_aligned: 
  assumes "aligned s" shows "aligned (remove p s)"
proof (cases "ow_items s = []")
  case True
  then show ?thesis using assms by (simp add: remove_def normalize_def)
next
  case False
  have "nat (p mod item_count s) < length (ow_items s)"
    using pos_mod_bound [of "item_count s" p] False by (simp add: nat_less_iff)
  then show ?thesis unfolding aligned_def [of "remove p s"]
    using assms by (simp add: remove_sel [OF assms False]) (simp add: aligned_def splice_out_distinct)
qed

lemma append_items:
  "ow_items (fold append_item cs s) = ow_items s @ map ct_item cs"
  "ow_mergers (fold append_item cs s) = ow_mergers s @ map merge_value cs"
  "ow_stage (fold append_item cs s) = ow_stage s @ map (item_el \<circ> ct_item) cs"
  "ow_clones (fold append_item cs s) = ow_clones s"
  by (induction cs arbitrary: s) (simp_all add: append_item_def Let_def)

lemma replace_sel:
  "ow_items (replace cs s) = map ct_item cs"
  "ow_mergers (replace cs s) = ow_mergers s @ map merge_value cs"
  "ow_stage (replace cs s) = map (item_el \<circ> ct_item) cs"
  by (simp_all add: replace_def Let_def append_items)

section \<open>Properties\<close>

text \<open>C23. Adding an item inserts it, its merge value and its child of the stage at one place, keeps items,
  merge values and stage aligned, and removing the item at that place restores all three.\<close>

theorem add_then_remove:
  fixes q :: "int option"
  assumes "aligned s" and "ct_item c \<notin> set (ow_items s)"
  defines "k \<equiv> add_index q s"
  defines "t \<equiv> add c q s"
  shows "aligned t \<and> ow_items t = splice_in k (ct_item c) (ow_items s)
    \<and> ow_mergers t = splice_in k (merge_value c) (ow_mergers s)
    \<and> aligned (remove (int k) t) \<and> ow_items (remove (int k) t) = ow_items s
    \<and> ow_mergers (remove (int k) t) = ow_mergers s"
proof -
  have a: "aligned t" unfolding t_def by (rule add_aligned [OF assms(1,2)])
  have t: "ow_items t = splice_in k (ct_item c) (ow_items s)" "ow_mergers t = splice_in k (merge_value c) (ow_mergers s)"
    by (simp_all add: t_def k_def add_sel [OF assms(1)])
  have k: "k \<le> length (ow_items s)" "length (ow_mergers s) = length (ow_items s)"
    using add_index_le assms(1) by (simp_all add: k_def aligned_def)
  have n: "ow_items t \<noteq> []" unfolding t(1) by (simp add: splice_in_def)
  have i: "nat (int k mod item_count t) = k" using k by (simp add: t(1))
  show ?thesis using a t k remove_sel [OF a n, of "int k"] remove_aligned [OF a] by (simp add: i)
qed

theorem add_then_remove_witness:
  "ow_items (add \<lparr>ct_item = 4, ct_merge = Some 2\<rparr> (Some (-1)) (sample_owl [7, 8, 9] Defaults)) = [7, 8, 4, 9]
   \<and> ow_items (remove 2 (add \<lparr>ct_item = 4, ct_merge = Some 2\<rparr> (Some (-1)) (sample_owl [7, 8, 9] Defaults))) = [7, 8, 9]"
proof -
  have i: "add_index (Some (-1)) (sample_owl [7, 8, 9] Defaults) = 2"
    by (simp add: add_index_def sample_owl_def)
  show ?thesis
    using add_then_remove [of "sample_owl [7, 8, 9] Defaults" "\<lparr>ct_item = 4, ct_merge = Some 2\<rparr>" "Some (-1)"]
    unfolding i by (simp add: aligned_def sample_owl_def splice_in_def)
qed

text \<open>Replacing the content does not discard the merge values of the old content: the new ones are
  pushed behind them, so that the new items keep their own merge values only where there were none
  before; after any other replacement the item at position \<open>i\<close> is laid out with the merge value
  number \<open>i\<close> of the old content.\<close>

lemma replace_keeps_old_mergers:
  assumes "distinct (map ct_item cs)"
  shows "ow_items (replace cs s) = map ct_item cs
    \<and> ow_mergers (replace cs s) = ow_mergers s @ map merge_value cs
    \<and> (aligned (replace cs s) \<longleftrightarrow> ow_mergers s = [])
    \<and> (\<forall>i < length cs. i < length (ow_mergers s) \<longrightarrow> ow_mergers (replace cs s) ! i = ow_mergers s ! i)"
proof -
  have "real_items (map (item_el \<circ> ct_item) cs) = map ct_item cs" by (simp add: filter_map comp_def)
  then show ?thesis using assms by (auto simp: replace_sel aligned_def nth_append)
qed


end
