(* ===== verification/OwlDrag.thy ===== *)
theory OwlDrag
  imports OwlItems
begin

text \<open>
  Dragging the carousel (\<open>server/html/js/owl.carousel.js\<close>): \<open>pointer\<close>, \<open>difference\<close>, \<open>closest\<close>
  and the handlers of a drag, from the pressed button or touch to its release. The state of the
  operation is the record \<open>drag\<close>; a coordinate that is NaN is None, and every comparison with it is
  false. The clock and the position of the stage in the page are arguments.
\<close>

section \<open>Pointers\<close>

record point =
  px :: "rat option"
  py :: "rat option"

text \<open>A touch, or an event without touches: its page and client coordinates.\<close>

record source =
  pageX :: "rat option"
  pageY :: "rat option"
  clientX :: "rat option"
  clientY :: "rat option"

record event =
  ev_which :: nat
  ev_touches :: "source list"
  ev_changedTouches :: "source list"
  ev_self :: source

definition truthy :: "rat option \<Rightarrow> bool" where
  "truthy v \<longleftrightarrow> v \<noteq> None \<and> v \<noteq> Some 0"

definition pointer :: "event \<Rightarrow> point" where
  "pointer e =
     (let src = (if ev_touches e \<noteq> [] then hd (ev_touches e)
                 else if ev_changedTouches e \<noteq> [] then hd (ev_changedTouches e) else ev_self e)
      in if truthy (pageX src) then \<lparr>px = pageX src, py = pageY src\<rparr>
         else \<lparr>px = clientX src, py = clientY src\<rparr>)"

definition num2 :: "(rat \<Rightarrow> rat \<Rightarrow> rat) \<Rightarrow> rat option \<Rightarrow> rat option \<Rightarrow> rat option" where
  "num2 f a b = (case (a, b) of (Some x, Some y) \<Rightarrow> Some (f x y) | _ \<Rightarrow> None)"

definition cmp2 :: "(rat \<Rightarrow> rat \<Rightarrow> bool) \<Rightarrow> rat option \<Rightarrow> rat option \<Rightarrow> bool" where
  "cmp2 f a b = (case (a, b) of (Some x, Some y) \<Rightarrow> f x y | _ \<Rightarrow> False)"

definition difference :: "point \<Rightarrow> point \<Rightarrow> point" where
  "difference a b = \<lparr>px = num2 (-) (px a) (px b), py = num2 (-) (py a) (py b)\<rparr>"

section \<open>The closest item\<close>

datatype direction = DLeft | DRight

text \<open>
  One coordinate of the list \<open>cs\<close> at the index \<open>i\<close>: the position it decides, if it decides one.
  \<open>dir\<close> is None before the first drag.
\<close>

definition closest_at :: "owl \<Rightarrow> rat list \<Rightarrow> rat \<Rightarrow> direction option \<Rightarrow> nat \<Rightarrow> int option" where
  "closest_at s cs coordinate dir i =
     (let v = cs ! i; w = width s Default in
      if dir = Some DLeft \<and> coordinate > v - 30 \<and> coordinate < v + 30 then Some (int i)
      else if dir = Some DRight \<and> coordinate > v - w - 30 \<and> coordinate < v - w + 30 then Some (int i + 1)
      else if op_lt s coordinate v
              \<and> op_gt s coordinate (if Suc i < length cs then cs ! Suc i else v - w)
      then Some (if dir = Some DLeft then int i + 1 else int i)
      else None)"

fun first_some :: "('a \<Rightarrow> 'b option) \<Rightarrow> 'a list \<Rightarrow> 'b option" where
  "first_some f [] = None"
| "first_some f (x # xs) = (case f x of Some y \<Rightarrow> Some y | None \<Rightarrow> first_some f xs)"

definition closest :: "dom \<Rightarrow> owl \<Rightarrow> rat option \<Rightarrow> direction option \<Rightarrow> int" where
  "closest d s coordinate dir =
     (case coordinate of
        None \<Rightarrow> -1
      | Some x \<Rightarrow>
          (let cs = coordinates_all s;
               p = (if se_freeDrag (ow_settings s) then -1
                    else case first_some (closest_at s cs x dir) [0..<length cs] of Some q \<Rightarrow> q | None \<Rightarrow> -1)
           in if se_loop (ow_settings s) then p
              else if (case nth_int cs (minimum s False) of Some m \<Rightarrow> op_gt s x m | None \<Rightarrow> False) then minimum s False
              else if (case nth_int cs (maximum d s False) of Some m \<Rightarrow> op_lt s x m | None \<Rightarrow> False) then maximum d s False
              else p))"

section \<open>The handlers\<close>

record drag =
  dr_time :: "int option"
  dr_pointer :: point
  dr_start :: point
  dr_current :: point
  dr_direction :: "direction option"
  dr_blockClick :: bool

definition init_drag :: drag where
  "init_drag = \<lparr>dr_time = None, dr_pointer = \<lparr>px = None, py = None\<rparr>, dr_start = \<lparr>px = None, py = None\<rparr>,
     dr_current = \<lparr>px = None, py = None\<rparr>, dr_direction = None, dr_blockClick = False\<rparr>"

text \<open>
  \<open>tf\<close>: transforms are supported; \<open>at\<close>: the translation of the stage, or without transforms its
  position in the page; \<open>sw\<close>: the width of the stage.
\<close>

definition stage_point :: "bool \<Rightarrow> point \<Rightarrow> rat \<Rightarrow> owl \<Rightarrow> point" where
  "stage_point tf pt sw s =
     (if tf then pt
      else \<lparr>px = (if se_rtl (ow_settings s)
                 then map_option (\<lambda>x. x + sw - width s Default + se_margin (ow_settings s)) (px pt) else px pt),
            py = py pt\<rparr>)"

definition onDragStart :: "bool \<Rightarrow> point \<Rightarrow> rat \<Rightarrow> int \<Rightarrow> event \<Rightarrow> drag \<times> owl \<Rightarrow> drag \<times> owl" where
  "onDragStart tf pt sw now e = (\<lambda>(g, s).
     if ev_which e = 3 then (g, s)
     else
       let stage = stage_point tf pt sw s;
           s1 = (if is_in ''animating'' s
                 then invalidate PPosition (if tf then animate (px stage) s else s) else s);
           s2 = set_speed (Some 0) s1
       in (g\<lparr>dr_time := Some now, dr_start := stage, dr_current := stage, dr_pointer := pointer e\<rparr>, s2))"

text \<open>The first move after the start: a mostly vertical one does not start dragging.\<close>

definition onFirstMove :: "event \<Rightarrow> drag \<times> owl \<Rightarrow> drag \<times> owl" where
  "onFirstMove e = (\<lambda>(g, s).
     let delta = difference (dr_pointer g) (pointer e)
     in if cmp2 (\<lambda>x y. \<bar>x\<bar> < \<bar>y\<bar>) (px delta) (py delta) \<and> is_in ''valid'' s then (g, s)
        else (g, trigger ''drag'' (enter_st ''dragging'' s)))"

text \<open>The remainder of the language on fractions; a remainder by 0 is NaN.\<close>

definition fmod :: "rat \<Rightarrow> rat \<Rightarrow> rat option" where
  "fmod x y = (if y = 0 then None
     else Some (x - y * of_int (if x / y < 0 then \<lceil>x / y\<rceil> else \<lfloor>x / y\<rfloor>)))"

definition wrap_coordinate :: "rat \<Rightarrow> rat \<Rightarrow> rat \<Rightarrow> rat option" where
  "wrap_coordinate x mn mx =
     (case fmod (x - mn) mx of None \<Rightarrow> None
      | Some r \<Rightarrow> (case fmod (r + mx) mx of None \<Rightarrow> None | Some q \<Rightarrow> Some (q + mn)))"

definition drag_loop_x :: "dom \<Rightarrow> owl \<Rightarrow> rat option \<Rightarrow> rat option" where
  "drag_loop_x d s x =
     (case (x, coordinates s (minimum s False), coordinates s (maximum d s False + 1)) of
        (Some v, Some mn, Some c) \<Rightarrow> wrap_coordinate v mn (c - mn)
      | _ \<Rightarrow> None)"

definition drag_bounded_x :: "dom \<Rightarrow> owl \<Rightarrow> rat option \<Rightarrow> rat option \<Rightarrow> rat option" where
  "drag_bounded_x d s x deltaX =
     (let se = ow_settings s;
          lo = coordinates s (minimum s False); hi = coordinates s (maximum d s False);
          mn = (if se_rtl se then hi else lo); mx = (if se_rtl se then lo else hi);
          pull = (if se_pullDrag se then map_option (\<lambda>v. -1 * v / 5) deltaX else Some 0)
      in num2 max (num2 min x (num2 (+) mn pull)) (num2 (+) mx pull))"

definition onDragMove :: "dom \<Rightarrow> event \<Rightarrow> drag \<times> owl \<Rightarrow> drag \<times> owl" where
  "onDragMove d e = (\<lambda>(g, s).
     let delta = difference (dr_pointer g) (pointer e);
         stage = difference (dr_start g) delta
     in if \<not> is_in ''dragging'' s then (g, s)
        else
          let x = (if se_loop (ow_settings s) then drag_loop_x d s (px stage)
                   else drag_bounded_x d s (px stage) (px delta));
              stage' = stage\<lparr>px := x\<rparr>
          in (g\<lparr>dr_current := stage'\<rparr>, animate x s))"

definition onDragEnd :: "dom \<Rightarrow> int \<Rightarrow> event \<Rightarrow> drag \<times> owl \<Rightarrow> drag \<times> owl" where
  "onDragEnd d now e = (\<lambda>(g, s).
     let delta = difference (dr_pointer g) (pointer e);
         dir = (if cmp2 (>) (px delta) (Some 0) \<noteq> se_rtl (ow_settings s) then DLeft else DRight);
         moved = px delta \<noteq> Some 0;
         (g1, s1) =
           (if (moved \<and> is_in ''dragging'' s) \<or> \<not> is_in ''valid'' s then
              let se = ow_settings s;
                  s1 = set_speed (Some (if se_dragEndSpeed se \<noteq> 0 then se_dragEndSpeed se else se_smartSpeed se)) s;
                  s2 = current d (closest d s1 (px (dr_current g)) (if moved then Some dir else dr_direction g)) s1;
                  s3 = update d (invalidate PPosition s2)
              in (g\<lparr>dr_direction := Some dir,
                    dr_blockClick := dr_blockClick g \<or> cmp2 (\<lambda>x y. \<bar>x\<bar> > y) (px delta) (Some 3)
                      \<or> now - (case dr_time g of Some t \<Rightarrow> t | None \<Rightarrow> 0) > 300\<rparr>, s3)
            else (g, s))
     in if \<not> is_in ''dragging'' s1 then (g1, s1)
        else (g1, trigger ''dragged'' (leave_st ''dragging'' s1)))"

section \<open>Wrapping a dragged coordinate\<close>

lemma fmod_bounds:
  assumes "y \<noteq> 0" and "fmod x y = Some r"
  shows "\<exists>k::int. r = x + of_int k * y" and "\<bar>r\<bar> < \<bar>y\<bar>" and "x / y \<ge> 0 \<Longrightarrow> r / y \<ge> 0"
proof -
  define q where "q = (if x / y < 0 then \<lceil>x / y\<rceil> else \<lfloor>x / y\<rfloor>)"
  have r: "r = x - y * of_int q" using assms by (simp add: fmod_def q_def split: if_splits)
  have ry: "r / y = x / y - of_int q" using assms(1) by (simp add: r diff_divide_distrib)
  show "\<exists>k::int. r = x + of_int k * y" by (rule exI [of _ "- q"]) (simp add: r)
  have "\<bar>x / y - of_int q\<bar> < 1" unfolding q_def
    using ceiling_correct [of "x / y"] floor_correct [of "x / y"] by (auto simp: abs_if split: if_splits) linarith+
  then have "\<bar>r / y\<bar> < 1" by (simp only: ry)
  then show "\<bar>r\<bar> < \<bar>y\<bar>" using assms(1) by (simp add: abs_divide field_simps)
  show "x / y \<ge> 0 \<Longrightarrow> r / y \<ge> 0" unfolding ry q_def by simp
qed

lemma wrap_coordinate_range:
  assumes "mx \<noteq> 0"
  shows "\<exists>y k. wrap_coordinate x mn mx = Some y \<and> y = x + of_int k * mx \<and> 0 \<le> (y - mn) / mx \<and> (y - mn) / mx < 1"
proof -
  obtain r where r: "fmod (x - mn) mx = Some r" using assms by (simp add: fmod_def)
  obtain q where q: "fmod (r + mx) mx = Some q" using assms by (simp add: fmod_def)
  have "\<bar>r / mx\<bar> < 1" using fmod_bounds(2) [OF assms r] assms by (simp add: abs_divide)
  then have "- 1 < r / mx" by linarith
  then have "(r + mx) / mx \<ge> 0" using assms by (simp add: add_divide_distrib)
  then have q0: "q / mx \<ge> 0" using fmod_bounds(3) [OF assms q] by simp
  have q1: "\<bar>q / mx\<bar> < 1" using fmod_bounds(2) [OF assms q] assms by (simp add: abs_divide)
  obtain k l :: int where kl: "r = x - mn + of_int k * mx" "q = r + mx + of_int l * mx"
    using fmod_bounds(1) [OF assms r] fmod_bounds(1) [OF assms q] by blast
  have "q + mn = x + of_int (k + l + 1) * mx" by (simp add: kl algebra_simps)
  moreover have "0 \<le> (q + mn - mn) / mx" using q0 by simp
  moreover have "(q + mn - mn) / mx < 1" using q1 by (simp only: abs_less_iff add_diff_cancel_right')
  moreover have "wrap_coordinate x mn mx = Some (q + mn)" using r q by (simp add: wrap_coordinate_def)
  ultimately show ?thesis by blast
qed

section \<open>States during a drag\<close>

definition valid_ok :: "owl \<Rightarrow> bool" where
  "valid_ok s \<longleftrightarrow> valid_count s \<in> {None, Some (Num 0), Some (Num 1)}"

lemma valid_ok_upd [simp]: "valid_ok (trigger e s) = valid_ok s" "valid_ok (set_speed v s) = valid_ok s"
  by (simp_all add: valid_ok_def set_speed_def count_of_def)

lemma invalidate_keeps:
  assumes "tags_ok s"
  shows "tags_ok (invalidate p s)" and "k \<noteq> ''valid'' \<Longrightarrow> count_of k (invalidate p s) = count_of k s"
    and "valid_ok s \<Longrightarrow> valid_ok (invalidate p s)"
  using assms by (auto simp: valid_ok_def invalidate_def Let_def tags_ok_def count_of_def leave_st_def leave_def with_tags_def
      count_down_def is_in_def is_state_def)

lemma set_speed_keeps [simp]: "tags_ok (set_speed v s) = tags_ok s" "count_of k (set_speed v s) = count_of k s"
  by (simp_all add: set_speed_def tags_ok_def count_of_def)

lemma current_keeps:
  assumes "tags_ok s"
  shows "tags_ok (current d p s)" and "k \<noteq> ''valid'' \<Longrightarrow> count_of k (current d p s) = count_of k s"
    and "valid_ok s \<Longrightarrow> valid_ok (current d p s)"
proof -
  have c: "tags_ok (t\<lparr>ow_current := q\<rparr>) = tags_ok t" "count_of k (t\<lparr>ow_current := q\<rparr>) = count_of k t"
    "valid_ok (t\<lparr>ow_current := q\<rparr>) = valid_ok t" for t q k
    by (simp_all add: tags_ok_def count_of_def valid_ok_def)
  let ?q = "case normalize s p False of None \<Rightarrow> normalize s p False
    | Some v \<Rightarrow> if ''change'' \<notin> ow_supress s
        then (case dm_change d v of None \<Rightarrow> normalize s p False | Some q \<Rightarrow> normalize (trigger ''change'' s) q False)
        else normalize s p False"
  obtain q where "q = ?q" by blast
  then have "current d p s = s \<or>
      current d p s = trigger ''changed'' (invalidate PPosition ((trigger ''change'' s)\<lparr>ow_current := q\<rparr>))"
    by (simp only: current_def Let_def split: if_split) blast
  then show "tags_ok (current d p s)" and "k \<noteq> ''valid'' \<Longrightarrow> count_of k (current d p s) = count_of k s"
    and "valid_ok s \<Longrightarrow> valid_ok (current d p s)"
    using assms invalidate_keeps [of "(trigger ''change'' s)\<lparr>ow_current := q\<rparr>"] by (auto simp: c)
qed

text \<open>The state of a drag in progress: entered once, with its tag.\<close>

definition dragging_once :: "owl \<Rightarrow> bool" where
  "dragging_once s \<longleftrightarrow> tags_ok s \<and> st_tags (ow_states s) ''dragging'' = Some [''interacting'']
     \<and> count_of ''dragging'' s = Some (Num 1) \<and> valid_ok s"

lemma drag_step_tags:
  "st_tags (ow_states (update d s)) = st_tags (ow_states s)" if "ow_invalidated s \<subseteq> {PPosition}"
  by (simp add: update_def Let_def update_position_only [OF that] worker_animate_def animate_def onTransitionEnd_def
      worker_active_def enter_st_def leave_st_def)


lemma closest_speed: "closest d (set_speed v s) = closest d s"
proof -
  have h: "half_clones (set_speed v s) = half_clones s" "width (set_speed v s) = width s"
    "minimum (set_speed v s) = minimum s" "op_gt (set_speed v s) = op_gt s" "op_lt (set_speed v s) = op_lt s"
    by (simp_all add: fun_eq_iff minimum_def half_clones_def width_def op_gt_def op_lt_def set_speed_def split: dimension.split)
  have c: "coordinates (set_speed v s) = coordinates s" "maximum d (set_speed v s) = maximum d s"
    by (unfold fun_eq_iff coordinates_def maximum_def set_speed_sel h) (rule allI, rule refl)+
  show ?thesis
    by (unfold fun_eq_iff closest_def closest_at_def coordinates_all_def set_speed_sel h c) blast
qed

lemma leave_dragging:
  assumes "st_tags (ow_states s) ''dragging'' = Some [''interacting'']" and "count_of ''dragging'' s = Some (Num 1)"
  shows "\<not> is_in ''dragging'' (leave_st ''dragging'' s)" and "is_in ''dragging'' s"
    and "is_in ''valid'' (leave_st ''dragging'' s) = is_in ''valid'' s"
  using assms by (simp_all add: is_in_def is_state_def leave_st_def leave_def with_tags_def count_down_def count_of_def)

lemma tags_invalidate [simp]: "st_tags (ow_states (invalidate p s)) = st_tags (ow_states s)"
  by (simp add: invalidate_def Let_def leave_st_def)

lemma tags_current [simp]: "st_tags (ow_states (current d p s)) = st_tags (ow_states s)"
  by (simp add: current_def Let_def)

lemma tags_set_speed [simp]: "ow_states (set_speed v s) = ow_states s"
  by (simp add: set_speed_def)

section \<open>Properties\<close>

text \<open>C27. Releasing the pointer after a movement always ends the drag: the carousel leaves the state
  dragging, it is valid with nothing left to update, and it has moved to the position that
  \<open>closest\<close> finds for where the stage was dragged to.\<close>

theorem drag_end_settles:
  fixes d e now v
  assumes "dragging_once s" and "unopposed d" and "ow_items s \<noteq> []" and "ow_invalidated s \<subseteq> {PPosition}"
    and "px (difference (dr_pointer g) (pointer e)) = Some v" and "v \<noteq> 0"
  defines "t \<equiv> snd (onDragEnd d now e (g, s))"
  shows "\<not> is_in ''dragging'' t \<and> is_in ''valid'' t \<and> ow_invalidated t = {}
    \<and> ow_current t = normalize s (closest d s (px (dr_current g))
         (Some (if (v > 0) \<noteq> se_rtl (ow_settings s) then DLeft else DRight))) False"
proof -
  let ?sp = "Some (if se_dragEndSpeed (ow_settings s) \<noteq> 0 then se_dragEndSpeed (ow_settings s) else se_smartSpeed (ow_settings s))"
  let ?p = "closest d s (px (dr_current g)) (Some (if (v > 0) \<noteq> se_rtl (ow_settings s) then DLeft else DRight))"
  let ?s1 = "set_speed ?sp s"
  let ?s3 = "invalidate PPosition (current d ?p ?s1)"
  let ?u = "update d ?s3"
  have s: "tags_ok s" "st_tags (ow_states s) ''dragging'' = Some [''interacting'']" "count_of ''dragging'' s = Some (Num 1)"
    "valid_ok s" using assms(1) by (auto simp: dragging_once_def)
  have cur: "tags_ok (current d ?p ?s1)" "valid_ok (current d ?p ?s1)" "count_of ''dragging'' (current d ?p ?s1) = Some (Num 1)"
    using current_keeps [of ?s1] s by simp_all
  have t3: "tags_ok ?s3" "valid_ok ?s3" "count_of ''dragging'' ?s3 = Some (Num 1)"
    using invalidate_keeps [OF cur(1)] cur by simp_all
  have inv: "ow_invalidated ?s3 \<subseteq> {PPosition}" using current_invalidated [of d ?p ?s1] assms(4) by auto
  have u: "is_in ''valid'' ?u" "ow_invalidated ?u = {}" "count_of ''dragging'' ?u = Some (Num 1)"
    "st_tags (ow_states ?u) ''dragging'' = Some [''interacting'']" "ow_current ?u = normalize s ?p False"
    using update_valid [OF t3(1) t3(2) [unfolded valid_ok_def], of d] update_keeps [OF t3(1), of "''dragging''"] t3(3)
      drag_step_tags [OF inv, of d] s(2) update_sel(3) [OF inv, of d] current_current [of d ?s1 ?p] assms(2,3)
      normalize_cong [of ?s1 s] by simp_all
  have "t = trigger ''dragged'' (leave_st ''dragging'' ?u)"
    using assms(5,6) leave_dragging(2) [OF s(2,3)] leave_dragging(2) [OF u(4,3)]
    by (simp add: t_def onDragEnd_def Let_def cmp2_def closest_speed)
  then show ?thesis using u leave_dragging [OF u(4,3)] by (simp add: is_in_def)
qed

text \<open>A drag by 30 pixels to the left of three items of 100 pixels.\<close>

definition sample_event :: "rat \<Rightarrow> event" where
  "sample_event x = \<lparr>ev_which = 1, ev_touches = [], ev_changedTouches = [],
     ev_self = \<lparr>pageX = Some x, pageY = Some 10, clientX = Some x, clientY = Some 10\<rparr>\<rparr>"

definition sample_drag :: drag where
  "sample_drag = init_drag\<lparr>dr_pointer := \<lparr>px = Some 50, py = Some 10\<rparr>, dr_start := \<lparr>px = Some 0, py = Some 0\<rparr>,
     dr_current := \<lparr>px = Some (-30), py = Some 0\<rparr>\<rparr>"

definition sample_dragged :: "settings \<Rightarrow> owl" where
  "sample_dragged se = enter_st ''dragging'' ((sample_owl [7, 8, 9] se)\<lparr>ow_coordinates := [-100, -200, -300]\<rparr>)"

lemma sample_delta: "px (difference (dr_pointer sample_drag) (pointer (sample_event 20))) = Some 30"
  by (simp add: sample_drag_def sample_event_def pointer_def truthy_def difference_def num2_def)

theorem drag_end_settles_witness:
  "\<not> is_in ''dragging'' (snd (onDragEnd sample_dom 0 (sample_event 20) (sample_drag, sample_dragged Defaults)))
   \<and> is_in ''valid'' (snd (onDragEnd sample_dom 0 (sample_event 20) (sample_drag, sample_dragged Defaults)))"
proof -
  have "dragging_once (sample_dragged Defaults)"
    by (simp add: dragging_once_def sample_dragged_def sample_owl_def init_states_def tags_ok_def valid_ok_def count_of_def
        enter_st_def enter_def with_tags_def count_up_def)
  moreover have "ow_items (sample_dragged Defaults) \<noteq> []" "ow_invalidated (sample_dragged Defaults) \<subseteq> {PPosition}"
    "unopposed sample_dom" by (simp_all add: sample_dragged_def sample_owl_def unopposed_def sample_dom_def)
  ultimately show ?thesis using drag_end_settles [OF _ _ _ _ sample_delta] by simp
qed

text \<open>In a looping carousel a drag never moves the stage out of one turn: it is translated to a
  coordinate between that of the first item and that of the end of the last one, which differs from
  the dragged coordinate by a whole number of turns and so shows the same picture.\<close>

lemma drag_wraps:
  fixes x mn c
  assumes "is_in ''dragging'' s" and "se_loop (ow_settings s)"
    and "px (difference (dr_start g) (difference (dr_pointer g) (pointer e))) = Some x"
    and "coordinates s (minimum s False) = Some mn" and "coordinates s (maximum d s False + 1) = Some c" and "c < mn"
  shows "\<exists>y k. ow_translate (snd (onDragMove d e (g, s))) = Some y \<and> px (dr_current (fst (onDragMove d e (g, s)))) = Some y
    \<and> c < y \<and> y \<le> mn \<and> y = x + of_int k * (c - mn)"
proof -
  obtain y k where y: "wrap_coordinate x mn (c - mn) = Some y" "y = x + of_int k * (c - mn)"
    "0 \<le> (y - mn) / (c - mn)" "(y - mn) / (c - mn) < 1" using wrap_coordinate_range [of "c - mn" x mn] assms(6) by auto
  have "y \<le> mn" "c < y" using y(3,4) assms(6) by (simp_all add: zero_le_divide_iff divide_less_eq)
  moreover have "drag_loop_x d s (Some x) = Some y" using assms(4,5) y(1) by (simp add: drag_loop_x_def)
  ultimately show ?thesis using assms(1-3) y(2) by (simp add: onDragMove_def Let_def)
qed


end
