(* ===== verification/OwlAutoplay.thy ===== *)
theory OwlAutoplay
  imports OwlDrag
begin

text \<open>
  The autoplay plugin of the carousel (\<open>server/html/js/owl.carousel.js\<close>). Its state is the record
  \<open>autoplay\<close>; the timers of the window that wait to call \<open>_next\<close> are a list of handles with the
  time they are due, so that a timer that is not cleared stays in it. Times are in milliseconds; the
  clock is read once per call. What \<open>next\<close> of the carousel does is a parameter, because the
  navigation plugin replaces it.
\<close>

section \<open>The plugin\<close>

record timer =
  tm_id :: nat
  tm_due :: int
  tm_speed :: "rat option"

record autoplay =
  ap_call :: "nat option"
  ap_time :: int
  ap_timeout :: int
  ap_paused :: bool
  ap_timers :: "timer list"
  ap_fresh :: nat

definition init_autoplay :: autoplay where
  "init_autoplay = \<lparr>ap_call = None, ap_time = 0, ap_timeout = 0, ap_paused = True, ap_timers = [], ap_fresh = 0\<rparr>"

record autoplay_settings =
  as_autoplay :: bool
  as_timeout :: int
  as_hoverPause :: bool
  as_speed :: "rat option"

definition AutoplayDefaults :: autoplay_settings where
  "AutoplayDefaults = \<lparr>as_autoplay = False, as_timeout = 5000, as_hoverPause = False, as_speed = None\<rparr>"

definition setTimeout :: "rat option \<Rightarrow> int \<Rightarrow> autoplay \<Rightarrow> autoplay" where
  "setTimeout speed due a =
     a\<lparr>ap_call := Some (ap_fresh a), ap_fresh := Suc (ap_fresh a),
       ap_timers := ap_timers a @ [\<lparr>tm_id = ap_fresh a, tm_due = due, tm_speed = speed\<rparr>]\<rparr>"

definition clearTimeout :: "autoplay \<Rightarrow> autoplay" where
  "clearTimeout a = a\<lparr>ap_timers := filter (\<lambda>t. Some (tm_id t) \<noteq> ap_call a) (ap_timers a)\<rparr>"

definition ap_read :: "int \<Rightarrow> autoplay \<Rightarrow> int" where
  "ap_read now a = now - ap_time a"

text \<open>\<open>Math.round\<close> of a quotient with a positive divisor: halves are rounded up.\<close>

definition round_div :: "int \<Rightarrow> int \<Rightarrow> int" where
  "round_div x y = (2 * x + y) div (2 * y)"

definition ap_next ::
  "(rat option \<Rightarrow> owl \<Rightarrow> owl) \<Rightarrow> autoplay_settings \<Rightarrow> bool \<Rightarrow> int \<Rightarrow> rat option \<Rightarrow> autoplay \<times> owl \<Rightarrow> autoplay \<times> owl" where
  "ap_next nxt se hidden now speed = (\<lambda>(a, s).
     let a1 = setTimeout speed
                (now + (ap_timeout a * (round_div (ap_read now a) (ap_timeout a) + 1) - ap_read now a)) a
     in if is_in ''interacting'' s \<or> hidden then (a1, s)
        else (a1, nxt (if truthy speed then speed else as_speed se) s))"

text \<open>The callback of a timer: the window forgets it and calls \<open>_next\<close>.\<close>

definition fire ::
  "(rat option \<Rightarrow> owl \<Rightarrow> owl) \<Rightarrow> autoplay_settings \<Rightarrow> bool \<Rightarrow> int \<Rightarrow> timer \<Rightarrow> autoplay \<times> owl \<Rightarrow> autoplay \<times> owl" where
  "fire nxt se hidden now t = (\<lambda>(a, s).
     ap_next nxt se hidden now (tm_speed t) (a\<lparr>ap_timers := filter (\<lambda>u. tm_id u \<noteq> tm_id t) (ap_timers a)\<rparr>, s))"

definition play :: "autoplay_settings \<Rightarrow> int \<Rightarrow> int option \<Rightarrow> rat option \<Rightarrow> autoplay \<times> owl \<Rightarrow> autoplay \<times> owl" where
  "play se now timeout speed = (\<lambda>(a, s).
     let s1 = (if \<not> is_in ''rotating'' s then enter_st ''rotating'' s else s);
         tmo = (case timeout of Some t \<Rightarrow> if t \<noteq> 0 then t else as_timeout se | None \<Rightarrow> as_timeout se);
         elapsed = min (ap_time a smod (if ap_timeout a \<noteq> 0 then ap_timeout a else tmo)) tmo;
         a1 = (if ap_paused a then a\<lparr>ap_time := ap_read now a, ap_paused := False\<rparr> else clearTimeout a);
         a2 = a1\<lparr>ap_time := ap_time a1 + (ap_read now a1 smod tmo - elapsed), ap_timeout := tmo\<rparr>
     in (setTimeout speed (now + (tmo - elapsed)) a2, s1))"

definition stop :: "autoplay \<times> owl \<Rightarrow> autoplay \<times> owl" where
  "stop = (\<lambda>(a, s).
     if is_in ''rotating'' s
     then (clearTimeout (a\<lparr>ap_time := 0, ap_paused := True\<rparr>), leave_st ''rotating'' s) else (a, s))"

definition pause :: "int \<Rightarrow> autoplay \<times> owl \<Rightarrow> autoplay \<times> owl" where
  "pause now = (\<lambda>(a, s).
     if is_in ''rotating'' s \<and> \<not> ap_paused a
     then (clearTimeout (a\<lparr>ap_time := ap_read now a, ap_paused := True\<rparr>), s) else (a, s))"

section \<open>The handlers\<close>

datatype autoplay_event =
    ChangedSettings | ChangedPosition | Initialized
  | Play "int option" "rat option" | Stop | MouseOver | MouseLeave | TouchStart | TouchEnd | Destroy

definition ap_handle :: "autoplay_settings \<Rightarrow> int \<Rightarrow> autoplay_event \<Rightarrow> autoplay \<times> owl \<Rightarrow> autoplay \<times> owl" where
  "ap_handle se now ev = (\<lambda>(a, s).
     (case ev of
        ChangedSettings \<Rightarrow> if as_autoplay se then play se now None None (a, s) else stop (a, s)
      | ChangedPosition \<Rightarrow> if ap_paused a then (a\<lparr>ap_time := 0\<rparr>, s) else (a, s)
      | Initialized \<Rightarrow> if as_autoplay se then play se now None None (a, s) else (a, s)
      | Play t v \<Rightarrow> play se now t v (a, s)
      | Stop \<Rightarrow> stop (a, s)
      | MouseOver \<Rightarrow> if as_hoverPause se \<and> is_in ''rotating'' s then pause now (a, s) else (a, s)
      | MouseLeave \<Rightarrow> if as_hoverPause se \<and> is_in ''rotating'' s then play se now None None (a, s) else (a, s)
      | TouchStart \<Rightarrow> if as_hoverPause se \<and> is_in ''rotating'' s then pause now (a, s) else (a, s)
      | TouchEnd \<Rightarrow> if as_hoverPause se then play se now None None (a, s) else (a, s)
      | Destroy \<Rightarrow> stop (a, s)))"

text \<open>
  A run of the plugin: its handlers at any time, the callbacks of timers, and anything else that
  happens to the carousel and leaves the state \<open>rotating\<close> alone.
\<close>

inductive ap_step :: "(rat option \<Rightarrow> owl \<Rightarrow> owl) \<Rightarrow> autoplay \<times> owl \<Rightarrow> autoplay \<times> owl \<Rightarrow> bool" for nxt where
  Handle: "ap_step nxt (a, s) (ap_handle se now ev (a, s))"
| Fire: "t \<in> set (ap_timers a) \<Longrightarrow> ap_step nxt (a, s) (fire nxt se hidden now t (a, s))"
| Other: "count_of ''rotating'' s' = count_of ''rotating'' s \<Longrightarrow> st_tags (ow_states s') = st_tags (ow_states s) \<Longrightarrow>
    ap_step nxt (a, s) (a, s')"

section \<open>What moving the carousel keeps of the states\<close>

abbreviation tags_of :: "owl \<Rightarrow> string \<Rightarrow> string list option" where
  "tags_of s \<equiv> st_tags (ow_states s)"

lemma tags_moves [simp]:
  "tags_of (enter_st n s) = tags_of s" "tags_of (leave_st n s) = tags_of s"
  "tags_of (animate c s) = tags_of s" "tags_of (reset p s) = tags_of s"
  by (simp_all add: enter_st_def leave_st_def animate_def reset_def onTransitionEnd_def Let_def split: option.split)

lemma worker_tags: "(f, w) \<in> set (Workers d) \<Longrightarrow> tags_of (snd (w (c, s))) = tags_of s"
  by (auto simp: Workers_def both_def worker_width_def worker_current_def worker_unclone_def worker_css_def
      worker_widths_def worker_clones_def worker_coordinates_def worker_stageCss_def worker_childCss_def
      worker_clearStyle_def worker_reset_def worker_animate_def worker_active_def Let_def split: prod.split)

lemma pipeline_tags:
  "set ws \<subseteq> set (Workers d) \<Longrightarrow> tags_of (snd (fold run_worker ws (c, s))) = tags_of s"
proof (induction ws arbitrary: c s)
  case (Cons fw ws)
  obtain f w where fw: "fw = (f, w)" by (cases fw)
  obtain c' s' where r: "run_worker fw (c, s) = (c', s')" by (cases "run_worker fw (c, s)")
  have "tags_of s' = tags_of s" using r fw Cons.prems worker_tags [of f w d c s]
    by (auto simp: run_worker_def split: if_splits)
  then show ?case using Cons r by simp
qed simp

lemma update_tags [simp]: "tags_of (update d s) = tags_of s"
  using pipeline_tags [of "Workers d" d init_cache s] by (simp add: update_def Let_def)

lemma tags_ok_cong: "tags_of s = tags_of t \<Longrightarrow> tags_ok s = tags_ok t"
  by (simp add: tags_ok_def)

text \<open>\<open>calm k f\<close>: the operation neither counts the state \<open>k\<close> nor registers tags.\<close>

definition calm :: "string \<Rightarrow> (owl \<Rightarrow> owl) \<Rightarrow> bool" where
  "calm k f \<longleftrightarrow> (\<forall>s. tags_ok s \<longrightarrow> count_of k (f s) = count_of k s \<and> tags_of (f s) = tags_of s)"

lemma calmI: "(\<And>s. tags_ok s \<Longrightarrow> count_of k (f s) = count_of k s) \<Longrightarrow> (\<And>s. tags_of (f s) = tags_of s) \<Longrightarrow> calm k f"
  by (simp add: calm_def)

lemma calm_comp: "calm k f \<Longrightarrow> calm k g \<Longrightarrow> calm k (\<lambda>s. g (f s))"
  unfolding calm_def using tags_ok_cong by metis

lemma calm_if: "calm k f \<Longrightarrow> calm k g \<Longrightarrow> calm k (\<lambda>s. if b s then f s else g s)"
  by (simp add: calm_def)

lemma calm_moves:
  assumes "quiet k" and "k \<noteq> ''valid''"
  shows "calm k (reset p)" and "calm k (\<lambda>s. set_speed (h s) s)" and "calm k (current d p)" and "calm k (update d)" and "calm k (\<lambda>s. s)"
  using assms reset_keeps current_keeps(2) update_keeps by (auto intro!: calmI)

lemma settle_calm: "quiet k \<Longrightarrow> k \<noteq> ''valid'' \<Longrightarrow> calm k (\<lambda>s. if isVisible d s then update d s else s)"
  by (intro calm_if calm_moves)

lemma goto_calm:
  assumes "quiet k" and "k \<noteq> ''valid''"
  shows "calm k (goto d c p v)"
proof -
  have "goto d c p v = (\<lambda>s. (\<lambda>s. if isVisible d s then update d s else s)
      (current d p (set_speed (Some (duration s c p v)) s)))" by (simp add: fun_eq_iff goto_def Let_def)
  then show ?thesis
    using calm_comp [OF calm_comp [OF calm_moves(2) [OF assms] calm_moves(3) [OF assms]] settle_calm [OF assms]] by simp
qed

lemma no_target_calm:
  assumes "quiet k" and "k \<noteq> ''valid''"
  shows "calm k (no_target d v)"
proof -
  have "no_target d v = (\<lambda>s. (\<lambda>s. if isVisible d s then update d s else s)
      (set_speed (if v = Some 0 then Some 0 else None) s))" by (simp add: fun_eq_iff no_target_def Let_def)
  then show ?thesis using calm_comp [OF calm_moves(2) [OF assms] settle_calm [OF assms]] by simp
qed

lemma to_calm:
  assumes "quiet k" and "k \<noteq> ''valid''"
  shows "calm k (to_pos d p v)"
  unfolding calm_def
proof (intro allI impI)
  fix s
  assume t: "tags_ok s"
  have r: "tags_ok (reset j s)" for j using t tags_ok_cong [of "reset j s" s] by simp
  show "count_of k (to_pos d p v s) = count_of k s \<and> tags_of (to_pos d p v s) = tags_of s"
    using t r goto_calm [OF assms] no_target_calm [OF assms] calm_moves(1) [OF assms]
    by (auto simp: to_pos_def calm_def split: option.splits prod.splits)
qed

lemma next_calm: "quiet k \<Longrightarrow> k \<noteq> ''valid'' \<Longrightarrow> calm k (next_pos d v)"
  using to_calm [of k d] no_target_calm [of k d] by (auto simp: calm_def next_pos_def split: option.splits)

section \<open>The invariant of the timers\<close>

definition ap_inv :: "autoplay \<times> owl \<Rightarrow> bool" where
  "ap_inv = (\<lambda>(a, s). tags_ok s \<and> tags_of s ''rotating'' = None
     \<and> count_of ''rotating'' s \<in> {None, Some (Num 0), Some (Num 1)}
     \<and> (if ap_paused a then ap_timers a = []
        else (\<exists>t. ap_timers a = [t] \<and> ap_call a = Some (tm_id t)) \<and> count_of ''rotating'' s = Some (Num 1)))"

lemma ap_sel [simp]:
  "ap_paused (setTimeout v due a) = ap_paused a" "ap_paused (clearTimeout a) = ap_paused a"
  "ap_time (setTimeout v due a) = ap_time a" "ap_timeout (setTimeout v due a) = ap_timeout a"
  "ap_time (clearTimeout a) = ap_time a" "ap_timeout (clearTimeout a) = ap_timeout a"
  by (simp_all add: setTimeout_def clearTimeout_def)

lemma setTimeout_one:
  "ap_timers a = [] \<Longrightarrow> \<exists>t. ap_timers (setTimeout v due a) = [t] \<and> ap_call (setTimeout v due a) = Some (tm_id t)"
  by (simp add: setTimeout_def)

lemma clearTimeout_one: "ap_timers a = [t] \<Longrightarrow> ap_call a = Some (tm_id t) \<Longrightarrow> ap_timers (clearTimeout a) = []"
  by (simp add: clearTimeout_def)

lemma rotating_count:
  assumes "tags_ok s" and "tags_of s ''rotating'' = None"
  shows "tags_ok (enter_st ''rotating'' s)" "tags_ok (leave_st ''rotating'' s)"
    and "is_in ''rotating'' s \<longleftrightarrow> (\<exists>n. count_of ''rotating'' s = Some (Num n) \<and> n > 0)"
    and "count_of ''rotating'' s \<in> {None, Some (Num 0)} \<Longrightarrow> count_of ''rotating'' (enter_st ''rotating'' s) = Some (Num 1)"
    and "count_of ''rotating'' s = Some (Num 1) \<Longrightarrow> count_of ''rotating'' (leave_st ''rotating'' s) = Some (Num 0)"
  using assms
  by (auto simp: tags_ok_def is_in_def is_state_def count_of_def enter_st_def leave_st_def enter_def leave_def with_tags_def
      count_up_def count_down_def split: option.splits count.splits)

lemma play_shape:
  "\<exists>due a1. play se now t v (a, s) = (setTimeout v due a1, if \<not> is_in ''rotating'' s then enter_st ''rotating'' s else s)
     \<and> ap_timers a1 = ap_timers (if ap_paused a then a else clearTimeout a) \<and> \<not> ap_paused a1"
  unfolding play_def Let_def prod.case by (intro exI conjI, rule refl) (simp_all add: if_distrib [of ap_timers])

lemma play_inv:
  assumes "ap_inv (a, s)"
  shows "ap_inv (play se now t v (a, s))"
proof -
  let ?s1 = "if \<not> is_in ''rotating'' s then enter_st ''rotating'' s else s"
  obtain due a1 where p: "play se now t v (a, s) = (setTimeout v due a1, ?s1)" "\<not> ap_paused a1"
    "ap_timers a1 = ap_timers (if ap_paused a then a else clearTimeout a)"
    using play_shape by blast
  have e: "ap_timers a1 = []" using assms p(3) clearTimeout_one by (auto simp: ap_inv_def split: if_splits)
  have s: "tags_ok s" "tags_of s ''rotating'' = None" "count_of ''rotating'' s \<in> {None, Some (Num 0), Some (Num 1)}"
    using assms by (auto simp: ap_inv_def)
  then have "tags_ok ?s1" "tags_of ?s1 ''rotating'' = None" "count_of ''rotating'' ?s1 = Some (Num 1)"
    using rotating_count [OF s(1,2)] by auto
  then show ?thesis using p setTimeout_one [OF e] by (simp add: ap_inv_def)
qed

lemma stop_inv:
  assumes "ap_inv (a, s)"
  shows "ap_inv (stop (a, s))"
proof (cases "is_in ''rotating'' s")
  case True
  have s: "tags_ok s" "tags_of s ''rotating'' = None" "count_of ''rotating'' s \<in> {None, Some (Num 0), Some (Num 1)}"
    using assms by (auto simp: ap_inv_def)
  then have c: "count_of ''rotating'' s = Some (Num 1)" using True rotating_count(3) [OF s(1,2)] by auto
  have "ap_timers (clearTimeout (a\<lparr>ap_time := 0, ap_paused := True\<rparr>)) = []"
    using assms clearTimeout_one by (auto simp: ap_inv_def clearTimeout_def split: if_splits)
  then show ?thesis using True s rotating_count [OF s(1,2)] c by (simp add: stop_def ap_inv_def)
qed (use assms in \<open>simp add: stop_def\<close>)

lemma pause_inv: "ap_inv (a, s) \<Longrightarrow> ap_inv (pause now (a, s))"
  by (auto simp: pause_def ap_inv_def clearTimeout_def)

lemma handle_inv: "ap_inv (a, s) \<Longrightarrow> ap_inv (ap_handle se now ev (a, s))"
  using play_inv stop_inv pause_inv [of a s]
  by (cases ev) (simp_all add: ap_handle_def, simp add: ap_inv_def)

text \<open>The interface to the carousel: \<open>next\<close> leaves the state \<open>rotating\<close> and the tags alone.\<close>

locale advance =
  fixes nxt :: "rat option \<Rightarrow> owl \<Rightarrow> owl"
  assumes nxt_calm: "calm ''rotating'' (nxt v)"
begin

lemma fire_inv:
  assumes "ap_inv (a, s)" and "t \<in> set (ap_timers a)"
  shows "ap_inv (fire nxt se hidden now t (a, s))"
proof -
  have p: "\<not> ap_paused a" "ap_timers a = [t]" using assms by (auto simp: ap_inv_def split: if_splits)
  let ?a0 = "a\<lparr>ap_timers := filter (\<lambda>u. tm_id u \<noteq> tm_id t) (ap_timers a)\<rparr>"
  have e: "ap_timers ?a0 = []" "\<not> ap_paused ?a0" using p by simp_all
  obtain due s' where f: "fire nxt se hidden now t (a, s) = (setTimeout (tm_speed t) due ?a0, s')"
    by (simp add: fire_def ap_next_def Let_def) (cases "is_in ''interacting'' s \<or> hidden"; simp)
  have n: "s' = s \<or> (\<exists>w. s' = nxt w s)" using f by (auto simp: fire_def ap_next_def Let_def split: if_splits)
  have "tags_ok s" "tags_of s ''rotating'' = None" "count_of ''rotating'' s = Some (Num 1)"
    using assms(1) p(1) by (auto simp: ap_inv_def)
  moreover from this have "tags_of s' = tags_of s" "count_of ''rotating'' s' = count_of ''rotating'' s"
    using n nxt_calm by (auto simp: calm_def)
  ultimately show ?thesis using f e setTimeout_one [OF e(1)] tags_ok_cong [of s' s] by (simp add: ap_inv_def)
qed

lemma step_inv: "ap_step nxt x y \<Longrightarrow> ap_inv x \<Longrightarrow> ap_inv y"
proof (induction rule: ap_step.induct)
  case (Other s' s a)
  then show ?case using tags_ok_cong [of s' s] by (simp add: ap_inv_def)
qed (simp_all add: handle_inv fire_inv)

lemma reachable_inv: "(ap_step nxt)\<^sup>*\<^sup>* x y \<Longrightarrow> ap_inv x \<Longrightarrow> ap_inv y"
  by (induction rule: rtranclp_induct) (auto intro: step_inv)

end

interpretation core_next: advance "next_pos d" for d
  by unfold_locales (simp add: next_calm)

section \<open>The clock\<close>

lemma round_div_bounds:
  assumes "0 < y"
  shows "2 * (y * round_div x y) \<le> 2 * x + y" and "2 * x - y < 2 * (y * round_div x y)"
proof -
  let ?q = "round_div x y"
  have "2 * y * ?q = 2 * x + y - (2 * x + y) mod (2 * y)"
    unfolding round_div_def by (simp only: minus_mod_eq_mult_div [symmetric])
  moreover have "0 \<le> (2 * x + y) mod (2 * y)" "(2 * x + y) mod (2 * y) < 2 * y" using assms by simp_all
  ultimately show "2 * (y * ?q) \<le> 2 * x + y" "2 * x - y < 2 * (y * ?q)" by simp_all
qed

lemma fire_timer:
  "ap_timers a = [t] \<Longrightarrow> ap_timers (fst (fire nxt se hidden now t (a, s))) =
    [\<lparr>tm_id = ap_fresh a, tm_due = ap_time a + ap_timeout a * (round_div (now - ap_time a) (ap_timeout a) + 1), tm_speed = tm_speed t\<rparr>]"
  by (simp add: fire_def ap_next_def Let_def setTimeout_def ap_read_def algebra_simps)

lemma fire_clock: "ap_time (fst (fire nxt se hidden now t (a, s))) = ap_time a"
  "ap_timeout (fst (fire nxt se hidden now t (a, s))) = ap_timeout a"
  by (simp_all add: fire_def ap_next_def Let_def)

lemma smod_nonneg: "0 \<le> (x::int) \<Longrightarrow> 0 < n \<Longrightarrow> x smod n = x mod n"
  by (simp add: smod_pos)

section \<open>Properties\<close>

text \<open>C20. However the plugin is started, paused, stopped and interrupted, at most one timer waits to
  show the next item: none while it is paused, and while it is playing exactly the one whose handle
  the plugin holds, so that it can always be cleared; and then the carousel is in the state
  rotating.\<close>

theorem autoplay_one_timer:
  assumes "tags_ok s0" and "tags_of s0 ''rotating'' = None" and "count_of ''rotating'' s0 = None"
    and "(ap_step (next_pos d))\<^sup>*\<^sup>* (init_autoplay, s0) (a, s)"
  shows "if ap_paused a then ap_timers a = []
    else (\<exists>t. ap_timers a = [t] \<and> ap_call a = Some (tm_id t)) \<and> is_in ''rotating'' s"
proof -
  have "ap_inv (init_autoplay, s0)" using assms(1-3) by (simp add: ap_inv_def init_autoplay_def)
  then have i: "ap_inv (a, s)" using core_next.reachable_inv [OF assms(4)] by simp
  then show ?thesis using rotating_count(3) [of s] by (auto simp: ap_inv_def split: if_splits)
qed

definition sample_playing :: "autoplay \<times> owl" where
  "sample_playing = ap_handle AutoplayDefaults 70 (Play (Some 50) None) (init_autoplay, sample_owl [7, 8, 9] Defaults)"

theorem autoplay_one_timer_witness:
  "\<exists>t. ap_timers (fst sample_playing) = [t] \<and> ap_call (fst sample_playing) = Some (tm_id t)"
proof -
  let ?s0 = "sample_owl [7, 8, 9] Defaults"
  have "(ap_step (next_pos sample_dom))\<^sup>*\<^sup>* (init_autoplay, ?s0) (fst sample_playing, snd sample_playing)"
    unfolding sample_playing_def prod.collapse by (rule r_into_rtranclp [of "ap_step (next_pos sample_dom)"], rule ap_step.Handle)
  moreover have "tags_ok ?s0" "tags_of ?s0 ''rotating'' = None" "count_of ''rotating'' ?s0 = None"
    by (simp_all add: tags_ok_def sample_owl_def init_states_def count_of_def)
  moreover have "\<not> ap_paused (fst sample_playing)"
    by (simp add: sample_playing_def ap_handle_def play_def init_autoplay_def Let_def)
  ultimately show ?thesis using autoplay_one_timer [of ?s0 sample_dom "fst sample_playing" "snd sample_playing"] by simp
qed

text \<open>The timer of the plugin keeps its beat: whenever it fires, however late, the next call is due a
  whole number of intervals after the origin of the clock, more than half and at most one and a half
  intervals from now. Pausing and playing on later waits for just the rest of the interval that was
  left when it was paused.\<close>

lemma autoplay_keeps_beat:
  assumes "0 < ap_timeout a" and "ap_timers a = [t]"
  defines "due \<equiv> (\<lambda>a. tm_due (hd (ap_timers a)))"
  shows "(due (fst (fire nxt se hidden now t (a, s))) - ap_time a) mod ap_timeout a = 0
      \<and> ap_timeout a < 2 * (due (fst (fire nxt se hidden now t (a, s))) - now) 
      \<and> 2 * (due (fst (fire nxt se hidden now t (a, s))) - now) \<le> 3 * ap_timeout a
    \<and> (is_in ''rotating'' s \<longrightarrow> \<not> ap_paused a \<longrightarrow> ap_call a = Some (tm_id t) \<longrightarrow> ap_time a \<le> t1 \<longrightarrow> as_timeout se = ap_timeout a \<longrightarrow>
        (let a' = fst (play se t2 None v (pause t1 (a, s)))
         in due a' = t2 + (ap_timeout a - (t1 - ap_time a) mod ap_timeout a)
            \<and> t2 - ap_time a' = t1 - ap_time a))"
proof -
  let ?n = "round_div (now - ap_time a) (ap_timeout a)"
  have f: "due (fst (fire nxt se hidden now t (a, s))) = ap_time a + ap_timeout a * (?n + 1)"
    by (simp add: due_def fire_timer [OF assms(2)])
  have r: "2 * (ap_timeout a * ?n) \<le> 2 * (now - ap_time a) + ap_timeout a"
    "2 * (now - ap_time a) - ap_timeout a < 2 * (ap_timeout a * ?n)"
    by (rule round_div_bounds(1) [OF assms(1)], rule round_div_bounds(2) [OF assms(1)])
  have "(due (fst (fire nxt se hidden now t (a, s))) - ap_time a) mod ap_timeout a = 0" by (simp add: f)
  moreover have "ap_timeout a < 2 * (due (fst (fire nxt se hidden now t (a, s))) - now)"
    "2 * (due (fst (fire nxt se hidden now t (a, s))) - now) \<le> 3 * ap_timeout a"
    using r by (simp_all add: f distrib_left)
  moreover have "let a' = fst (play se t2 None v (pause t1 (a, s)))
         in due a' = t2 + (ap_timeout a - (t1 - ap_time a) mod ap_timeout a) \<and> t2 - ap_time a' = t1 - ap_time a"
    if "is_in ''rotating'' s" "\<not> ap_paused a" "ap_call a = Some (tm_id t)" "ap_time a \<le> t1" "as_timeout se = ap_timeout a"
  proof -
    have p: "pause t1 (a, s) = (a\<lparr>ap_time := t1 - ap_time a, ap_paused := True, ap_timers := []\<rparr>, s)"
      using that assms(2) by (simp add: pause_def clearTimeout_def ap_read_def)
    have m: "(t1 - ap_time a) smod ap_timeout a = (t1 - ap_time a) mod ap_timeout a"
      using that(4) assms(1) by (simp add: smod_nonneg)
    have "(t1 - ap_time a) mod ap_timeout a < ap_timeout a" using assms(1) by simp
    then have e: "min ((t1 - ap_time a) mod ap_timeout a) (ap_timeout a) = (t1 - ap_time a) mod ap_timeout a" by simp
    show ?thesis using that assms(1)
      by (simp add: p play_def Let_def m e ap_read_def due_def setTimeout_def)
  qed
  ultimately show ?thesis by blast
qed


text \<open>Playing while it is already playing does not look at the clock: the time that \<open>play\<close> takes for
  elapsed since the last transition is the remainder of the origin of the clock itself, so the next
  call is due the same time from now at whatever moment of the interval it happens.\<close>

lemma replay_ignores_clock:
  assumes "\<not> ap_paused a" and "ap_timers a = [t]" and "ap_call a = Some (tm_id t)"
    and "0 < ap_timeout a" and "as_timeout se = ap_timeout a" and "0 \<le> ap_time a"
  shows "tm_due (hd (ap_timers (fst (play se now None v (a, s))))) - now = ap_timeout a - ap_time a mod ap_timeout a"
proof -
  have "ap_time a mod ap_timeout a < ap_timeout a" using assms(4) by simp
  then show ?thesis using assms by (simp add: play_def Let_def clearTimeout_def setTimeout_def smod_nonneg)
qed


end
