(* ===== verification/OwlNav.thy ===== *)
theory OwlNav
  imports OwlAutoplay "HOL-Library.AList"
begin

text \<open>
  The navigation and hash plugins of the carousel (\<open>server/html/js/owl.carousel.js\<close>): the pages,
  the buttons and dots, and the navigation by pages that replaces \<open>next\<close>, \<open>prev\<close> and \<open>to\<close> of the
  carousel; the hash of the location and the item it names. Markup of buttons and dots is not
  modelled, only which of them are there, active and disabled. Moving by pages where there are none
  raises an error: the position is None and the carousel stays as it is.
\<close>

section \<open>Pages\<close>

datatype slide = Page | By int

record nav_settings =
  ns_nav :: bool
  ns_slideBy :: slide
  ns_dots :: bool
  ns_dotsEach :: int
  ns_dotsData :: bool

definition NavDefaults :: nav_settings where
  "NavDefaults = \<lparr>ns_nav = False, ns_slideBy = By 1, ns_dots = True, ns_dotsEach = 0, ns_dotsData = False\<rparr>"

record page =
  pg_start :: int
  pg_end :: int

record controls =
  co_relativeDisabled :: bool
  co_previousDisabled :: bool
  co_nextDisabled :: bool
  co_absoluteDisabled :: bool
  co_dots :: "string list"
  co_active :: "nat option"

record navigation =
  nv_initialized :: bool
  nv_pages :: "page list"
  nv_templates :: "string list"
  nv_slideBy :: slide
  nv_controls :: controls

definition init_navigation :: "nav_settings \<Rightarrow> navigation" where
  "init_navigation ns = \<lparr>nv_initialized = False, nv_pages = [], nv_templates = [], nv_slideBy = ns_slideBy ns,
     nv_controls = \<lparr>co_relativeDisabled = True, co_previousDisabled = False, co_nextDisabled = False,
       co_absoluteDisabled = True, co_dots = [], co_active = None\<rparr>\<rparr>"

definition page_size :: "nav_settings \<Rightarrow> settings \<Rightarrow> int" where
  "page_size ns se = (if se_center se \<or> se_autoWidth se \<or> ns_dotsData ns then 1
     else if ns_dotsEach ns \<noteq> 0 then ns_dotsEach ns else se_items se)"

text \<open>
  The loop over the items: \<open>j\<close> is the sum of the merge values since the start of the page, NaN
  where an item has none.
\<close>

fun page_loop :: "(nat \<Rightarrow> rat option) \<Rightarrow> int \<Rightarrow> int \<Rightarrow> nat list \<Rightarrow> rat option \<Rightarrow> page list" where
  "page_loop m sz mx [] j = []"
| "page_loop m sz mx (i # is) j =
     (if cmp2 (\<ge>) j (Some (of_int sz)) \<or> j = Some 0 then
        \<lparr>pg_start = min mx (int i), pg_end = int i + sz - 1\<rparr> #
          (if min mx (int i) = mx then [] else page_loop m sz mx is (num2 (+) (Some 0) (m i)))
      else page_loop m sz mx is (num2 (+) j (m i)))"

definition merger_of :: "owl \<Rightarrow> nat \<Rightarrow> rat option" where
  "merger_of s i = (case relative s (half_clones s + int i) of None \<Rightarrow> None | Some r \<Rightarrow> mergers_at s r)"

definition nav_pages :: "dom \<Rightarrow> nav_settings \<Rightarrow> owl \<Rightarrow> page list" where
  "nav_pages d ns s =
     page_loop (merger_of s) (page_size ns (ow_settings s)) (maximum d s True) [0..<length (ow_items s)] (Some 0)"

text \<open>Every update follows a \<open>setup\<close>, which restores the option \<open>slideBy\<close>.\<close>

definition nav_update :: "dom \<Rightarrow> nav_settings \<Rightarrow> owl \<Rightarrow> navigation \<Rightarrow> navigation" where
  "nav_update d ns s nv =
     (let nv1 = nv\<lparr>nv_slideBy := (case ns_slideBy ns of Page \<Rightarrow> Page | By k \<Rightarrow> By (min k (se_items (ow_settings s))))\<rparr>
      in if ns_dots ns \<or> nv_slideBy nv1 = Page then nv1\<lparr>nv_pages := nav_pages d ns s\<rparr> else nv1)"

definition page_of :: "navigation \<Rightarrow> int option \<Rightarrow> page option" where
  "page_of nv cur =
     (case cur of None \<Rightarrow> None
      | Some c \<Rightarrow> (let ps = filter (\<lambda>p. pg_start p \<le> c \<and> pg_end p \<ge> c) (nv_pages nv)
                   in if ps = [] then None else Some (last ps)))"

definition nav_current :: "owl \<Rightarrow> navigation \<Rightarrow> page option" where
  "nav_current s nv = page_of nv (relative s (current_num s))"

text \<open>\<open>$.inArray\<close> compares pages by identity; the pages of one list differ in their end.\<close>

fun in_array :: "'a \<Rightarrow> 'a list \<Rightarrow> int" where
  "in_array x [] = -1"
| "in_array x (y # ys) = (if x = y then 0 else let r = in_array x ys in if r < 0 then -1 else r + 1)"

definition page_index :: "owl \<Rightarrow> navigation \<Rightarrow> int" where
  "page_index s nv = (case nav_current s nv of None \<Rightarrow> -1 | Some p \<Rightarrow> in_array p (nv_pages nv))"

section \<open>Drawing\<close>

text \<open>\<open>children().eq(i)\<close>: a negative index counts from the end.\<close>

definition eq_index :: "nat \<Rightarrow> int \<Rightarrow> nat option" where
  "eq_index n i = (let k = (if i < 0 then i + int n else i) in if 0 \<le> k \<and> k < int n then Some (nat k) else None)"

text \<open>\<open>new Array(k + 1).join(templates[0])\<close>: an undefined separator is a comma.\<close>

definition first_template :: "navigation \<Rightarrow> string" where
  "first_template nv = (case nv_templates nv of [] \<Rightarrow> '','' | t # _ \<Rightarrow> t)"

definition draw_dots :: "nav_settings \<Rightarrow> navigation \<Rightarrow> string list" where
  "draw_dots ns nv =
     (let dots = co_dots (nv_controls nv); diff = int (length (nv_pages nv)) - int (length dots)
      in if ns_dotsData ns \<and> diff \<noteq> 0 then nv_templates nv
         else if diff > 0 then dots @ replicate (nat diff) (first_template nv)
         else if diff < 0 then take (length dots - nat (- diff)) dots
         else dots)"

definition draw :: "dom \<Rightarrow> nav_settings \<Rightarrow> owl \<Rightarrow> navigation \<Rightarrow> navigation" where
  "draw d ns s nv =
     (let se = ow_settings s;
          disabled = int (length (ow_items s)) \<le> se_items se;
          index = relative s (current_num s);
          loop = se_loop se \<or> se_rewind se;
          co = nv_controls nv;
          co1 = co\<lparr>co_relativeDisabled := \<not> ns_nav ns \<or> disabled\<rparr>;
          co2 = (if ns_nav ns
                 then co1\<lparr>co_previousDisabled := \<not> loop \<and> (case index of Some i \<Rightarrow> i \<le> minimum s True | None \<Rightarrow> False),
                          co_nextDisabled := \<not> loop \<and> (case index of Some i \<Rightarrow> i \<ge> maximum d s True | None \<Rightarrow> False)\<rparr>
                 else co1);
          co3 = co2\<lparr>co_absoluteDisabled := \<not> ns_dots ns \<or> disabled\<rparr>;
          co4 = (if ns_dots ns
                 then (let dots = draw_dots ns nv
                       in co3\<lparr>co_dots := dots, co_active := eq_index (length dots) (page_index s nv)\<rparr>)
                 else co3)
      in nv\<lparr>nv_controls := co4\<rparr>)"

definition onTrigger :: "nav_settings \<Rightarrow> owl \<Rightarrow> navigation \<Rightarrow> int \<times> nat \<times> int" where
  "onTrigger ns s nv = (page_index s nv, length (nv_pages nv), page_size ns (ow_settings s))"

section \<open>Moving by pages\<close>

definition getPosition :: "bool \<Rightarrow> owl \<Rightarrow> navigation \<Rightarrow> int option" where
  "getPosition successor s nv =
     (case nv_slideBy nv of
        Page \<Rightarrow>
          (let n = int (length (nv_pages nv)); p = page_index s nv + (if successor then 1 else -1)
           in if n = 0 then None else map_option pg_start (nth_int (nv_pages nv) (wrap_mod p n)))
      | By k \<Rightarrow> map_option (\<lambda>r. if successor then r + k else r - k) (relative s (current_num s)))"

definition nav_next :: "dom \<Rightarrow> navigation \<Rightarrow> rat option \<Rightarrow> owl \<Rightarrow> owl" where
  "nav_next d nv speed s = (case getPosition True s nv of
     Some p \<Rightarrow> to_pos d p speed s | None \<Rightarrow> if nv_slideBy nv = Page then s else no_target d speed s)"

definition nav_prev :: "dom \<Rightarrow> navigation \<Rightarrow> rat option \<Rightarrow> owl \<Rightarrow> owl" where
  "nav_prev d nv speed s = (case getPosition False s nv of
     Some p \<Rightarrow> to_pos d p speed s | None \<Rightarrow> if nv_slideBy nv = Page then s else no_target d speed s)"

definition nav_to :: "dom \<Rightarrow> navigation \<Rightarrow> int \<Rightarrow> rat option \<Rightarrow> bool \<Rightarrow> owl \<Rightarrow> owl" where
  "nav_to d nv position speed standard s =
     (let n = int (length (nv_pages nv))
      in if \<not> standard \<and> nv_pages nv \<noteq> []
         then to_pos d (pg_start (nv_pages nv ! nat (wrap_mod position n))) speed s
         else to_pos d position speed s)"

section \<open>The handlers\<close>

datatype nav_event =
    Prepared "string option" | Added nat | Remove nat | PositionChanged | NavInitialized | Refreshed

text \<open>
  \<open>dot\<close> in \<open>Prepared\<close> is the markup made from the attribute \<open>data-dot\<close>. A removed last template
  (\<open>pop\<close> of none) puts undefined into the list, which joins as nothing.
\<close>

definition dot_markup :: "string option \<Rightarrow> string" where
  "dot_markup dot = (case dot of Some m \<Rightarrow> m | None \<Rightarrow> ''undefined'')"

definition default_dot :: string where
  "default_dot = ''<button role=button class=owl-dot><span></span></button>''"

definition nav_handle :: "dom \<Rightarrow> nav_settings \<Rightarrow> nav_event \<Rightarrow> navigation \<times> owl \<Rightarrow> navigation \<times> owl" where
  "nav_handle d ns ev = (\<lambda>(nv, s).
     (case ev of
        Prepared dot \<Rightarrow> if ns_dotsData ns then (nv\<lparr>nv_templates := nv_templates nv @ [dot_markup dot]\<rparr>, s) else (nv, s)
      | Added p \<Rightarrow>
          if ns_dotsData ns
          then (nv\<lparr>nv_templates := splice_in p (if nv_templates nv = [] then [] else last (nv_templates nv))
                     (butlast (nv_templates nv))\<rparr>, s)
          else (nv, s)
      | Remove p \<Rightarrow> if ns_dotsData ns then (nv\<lparr>nv_templates := splice_out p (nv_templates nv)\<rparr>, s) else (nv, s)
      | PositionChanged \<Rightarrow> (draw d ns s nv, s)
      | NavInitialized \<Rightarrow>
          if \<not> nv_initialized nv then
            let s1 = trigger ''initialize'' s;
                nv1 = (if ns_dotsData ns then nv else nv\<lparr>nv_templates := [default_dot]\<rparr>);
                nv2 = draw d ns s1 (nav_update d ns s1 nv1)
            in (nv2\<lparr>nv_initialized := True\<rparr>, trigger ''initialized'' s1)
          else (nv, s)
      | Refreshed \<Rightarrow>
          if nv_initialized nv then
            let s1 = trigger ''refresh'' s
            in (draw d ns s1 (nav_update d ns s1 nv), trigger ''refreshed'' s1)
          else (nv, s)))"

section \<open>The hash of the location\<close>

record hash_state =
  ha_hashes :: "(string \<times> nat) list"
  ha_location :: string

definition hash_prepared :: "string \<Rightarrow> nat \<Rightarrow> hash_state \<Rightarrow> hash_state" where
  "hash_prepared hash item h =
     (if hash = [] then h else h\<lparr>ha_hashes := AList.update hash item (ha_hashes h)\<rparr>)"

fun join_commas :: "string list \<Rightarrow> string" where
  "join_commas [] = []"
| "join_commas [x] = x"
| "join_commas (x # y # ys) = x @ '','' @ join_commas (y # ys)"

definition hash_changed :: "owl \<Rightarrow> hash_state \<Rightarrow> hash_state" where
  "hash_changed s h =
     (case (case relative s (current_num s) of None \<Rightarrow> None | Some r \<Rightarrow> items_at s r) of
        None \<Rightarrow> h
      | Some cur \<Rightarrow>
          (let hash = join_commas (map fst (filter (\<lambda>(k, x). x = cur) (ha_hashes h)))
           in if hash = [] \<or> ha_location h = hash then h else h\<lparr>ha_location := hash\<rparr>))"

definition onHashChange :: "dom \<Rightarrow> navigation \<Rightarrow> hash_state \<Rightarrow> owl \<Rightarrow> owl" where
  "onHashChange d nv h s =
     (case map_of (ha_hashes h) (ha_location h) of
        None \<Rightarrow> s
      | Some item \<Rightarrow>
          (let position = stage_index (ow_stage s) item
           in if Some position = ow_current s then s
              else case relative s position of
                     None \<Rightarrow> no_target d None s
                   | Some r \<Rightarrow> nav_to d nv r None True s))"

section \<open>Lemmas\<close>

lemma nav_next_calm:
  assumes "quiet k" and "k \<noteq> ''valid''"
  shows "calm k (nav_next d nv v)"
  using to_calm [OF assms, of d] no_target_calm [OF assms, of d] by (auto simp: calm_def nav_next_def split: option.splits)

interpretation page_next: advance "nav_next d nv" for d nv
  by unfold_locales (simp add: nav_next_calm)

lemma in_array_nth: "x \<in> set xs \<Longrightarrow> 0 \<le> in_array x xs \<and> in_array x xs < int (length xs) \<and> xs ! nat (in_array x xs) = x"
proof (induction xs)
  case (Cons y ys)
  show ?case
  proof (cases "x = y")
    case False
    then have "0 \<le> in_array x ys" "in_array x ys < int (length ys)" "ys ! nat (in_array x ys) = x" using Cons by auto
    moreover have "nat (in_array x ys + 1) = Suc (nat (in_array x ys))" using calculation(1) by simp
    ultimately show ?thesis using False by (simp add: Let_def)
  qed simp
qed simp

text \<open>With merge values of one, a page starts every \<open>sz\<close> items until the maximum is reached.\<close>

lemma page_loop_covers:
  assumes "1 \<le> sz" and "int p \<le> mx" and "p < n" and "\<And>i. i < n \<Longrightarrow> m i = Some 1"
  shows "i \<le> n \<Longrightarrow> i \<le> p \<Longrightarrow> a \<le> sz \<Longrightarrow> 0 \<le> a \<Longrightarrow> (0 < a \<Longrightarrow> a < sz \<Longrightarrow> int i + (sz - a) \<le> int p) \<Longrightarrow>
    \<exists>g\<in>set (page_loop m sz mx [i..<n] (Some (of_int a))). pg_start g \<le> int p \<and> int p \<le> pg_end g"
proof (induction "n - i" arbitrary: i a)
  case (Suc k)
  have i: "[i..<n] = i # [Suc i..<n]" "m i = Some 1" using Suc.prems(2) assms(3,4) by (simp_all add: upt_rec)
  let ?L = "\<lambda>b. page_loop m sz mx [Suc i..<n] (Some (of_int b))"
  show ?case
  proof (cases "a = 0 \<or> a = sz")
    case True
    let ?g = "\<lparr>pg_start = min mx (int i), pg_end = int i + sz - 1\<rparr>"
    have l: "page_loop m sz mx [i..<n] (Some (of_int a)) = ?g # (if min mx (int i) = mx then [] else ?L 1)"
      using True i by (auto simp: cmp2_def num2_def)
    show ?thesis
    proof (cases "int p \<le> int i + sz - 1")
      case True
      then show ?thesis using Suc.prems(2) by (intro bexI [of _ ?g]) (simp_all add: l)
    next
      case False
      then have "int i < mx" using assms(1,2) by linarith
      moreover have "\<exists>g\<in>set (?L 1). pg_start g \<le> int p \<and> int p \<le> pg_end g"
        using Suc.hyps(1) [of "Suc i" 1] Suc.hyps(2) Suc.prems False assms(1,3) by force
      ultimately show ?thesis by (auto simp: l)
    qed
  next
    case False
    then have b: "0 < a" "a < sz" using Suc.prems(3,4) by auto
    then have l: "page_loop m sz mx [i..<n] (Some (of_int a)) = ?L (a + 1)"
      using i by (simp add: cmp2_def num2_def)
    show ?thesis unfolding l using Suc.hyps(1) [of "Suc i" "a + 1"] Suc.hyps(2) Suc.prems b assms(3) by force
  qed
qed (use assms(3) in simp)

lemma page_loop_starts:
  "0 \<le> mx \<Longrightarrow> g \<in> set (page_loop m sz mx is j) \<Longrightarrow> 0 \<le> pg_start g \<and> pg_start g \<le> mx"
  by (induction m sz mx "is" j rule: page_loop.induct) (auto split: if_splits)

text \<open>All items have the merge value one.\<close>

definition unmerged :: "owl \<Rightarrow> bool" where
  "unmerged s \<longleftrightarrow> ow_mergers s = map (\<lambda>_. 1) (ow_items s)"

lemma merger_of_one:
  assumes "unmerged s" and "i < length (ow_items s)"
  shows "merger_of s i = Some 1"
proof -
  have "ow_items s \<noteq> []" using assms(2) by auto
  then have "relative s (half_clones s + int i) = Some (int i)" using assms(2) by (simp add: relative_mod)
  moreover have "normalize s (int i) True = Some (int i)" using assms(2) by (simp add: normalize_in)
  ultimately show ?thesis using assms by (simp add: merger_of_def mergers_at_def nth_int_def nth_opt_def unmerged_def)
qed

lemma pages_cover:
  assumes "unmerged s" and "1 \<le> page_size ns (ow_settings s)" and "0 \<le> p" and "p \<le> maximum d s True"
    and "p < int (length (ow_items s))"
  shows "\<exists>g\<in>set (nav_pages d ns s). pg_start g \<le> p \<and> p \<le> pg_end g"
  using page_loop_covers [OF assms(2), of "nat p" "maximum d s True" "length (ow_items s)" "merger_of s" 0 0]
    merger_of_one [OF assms(1)] assms(2-5) by (simp add: nav_pages_def)

lemma page_of_covering:
  assumes "\<exists>g\<in>set (nv_pages nv). pg_start g \<le> c \<and> c \<le> pg_end g"
  shows "\<exists>g\<in>set (nv_pages nv). page_of nv (Some c) = Some g \<and> pg_start g \<le> c \<and> c \<le> pg_end g"
proof -
  let ?ps = "filter (\<lambda>p. pg_start p \<le> c \<and> pg_end p \<ge> c) (nv_pages nv)"
  have "?ps \<noteq> []" using assms by (auto simp: filter_empty_conv)
  then have "page_of nv (Some c) = Some (last ?ps)" and "last ?ps \<in> set ?ps"
    using last_in_set [of ?ps] by (simp_all add: page_of_def Let_def)
  then show ?thesis unfolding set_filter mem_Collect_eq by blast
qed

lemma maximum_cong:
  assumes "ow_items s = ow_items t" and "ow_clones s = ow_clones t" and "ow_settings s = ow_settings t"
  shows "maximum d s = maximum d t"
  by (unfold fun_eq_iff maximum_def half_clones_def assms) simp

lemma draw_dots_length: "\<not> ns_dotsData ns \<Longrightarrow> length (draw_dots ns nv) = length (nv_pages nv)"
  by (auto simp: draw_dots_def Let_def)

section \<open>Properties\<close>

text \<open>After a refresh there is one dot for every page, and exactly the dot of a page that contains
  the current item is active: the pages start within the range of positions and leave no position
  up to the maximum uncovered.\<close>

lemma dots_show_position:
  assumes "nv_initialized nv" and "ns_dots ns" and "\<not> ns_dotsData ns" and "unmerged s"
    and "1 \<le> page_size ns (ow_settings s)" and "ow_items s \<noteq> []" and "relative s (current_num s) = Some r"
    and "r \<le> maximum d s True"
  defines "nv' \<equiv> fst (nav_handle d ns Refreshed (nv, s))"
  shows "length (co_dots (nv_controls nv')) = length (nv_pages nv')
    \<and> (\<forall>g\<in>set (nv_pages nv'). 0 \<le> pg_start g \<and> pg_start g \<le> maximum d s True)
    \<and> (\<exists>k < length (nv_pages nv'). co_active (nv_controls nv') = Some k
         \<and> pg_start (nv_pages nv' ! k) \<le> r \<and> r \<le> pg_end (nv_pages nv' ! k))"
proof -
  let ?t = "trigger ''refresh'' s"
  let ?u = "nav_update d ns ?t nv"
  have nv': "nv' = draw d ns ?t ?u" using assms(1) by (simp add: nv'_def nav_handle_def Let_def)
  have t: "relative ?t = relative s" "current_num ?t = current_num s" "unmerged ?t" "maximum d ?t = maximum d s"
    using assms(4) by (simp_all add: relative_cong [of ?t s] current_num_def unmerged_def maximum_cong [of ?t s])
  have pages: "nv_pages nv' = nv_pages ?u" "nv_pages ?u = nav_pages d ns ?t"
    using assms(2) by (simp_all add: nv' draw_def nav_update_def Let_def)
  have dots: "co_dots (nv_controls nv') = draw_dots ns ?u" "length (draw_dots ns ?u) = length (nv_pages ?u)"
    "co_active (nv_controls nv') = eq_index (length (nv_pages ?u)) (page_index ?t ?u)"
    using assms(2,3) by (simp_all add: nv' draw_def Let_def draw_dots_length)
  have r: "0 \<le> r" "r < int (length (ow_items s))" using assms(6,7) by (auto simp: relative_mod)
  obtain g where g: "g \<in> set (nv_pages ?u)" "nav_current ?t ?u = Some g" "pg_start g \<le> r" "r \<le> pg_end g"
    using page_of_covering [of ?u r] pages_cover [OF t(3), of ns r d] assms(5,7,8) r t pages(2)
    by (auto simp: nav_current_def)
  have ix: "0 \<le> page_index ?t ?u" "page_index ?t ?u < int (length (nv_pages ?u))" "nv_pages ?u ! nat (page_index ?t ?u) = g"
    using in_array_nth [OF g(1)] g(2) by (simp_all add: page_index_def)
  have "0 \<le> maximum d s True" by (simp add: maximum_def Let_def)
  then have "\<forall>g\<in>set (nv_pages nv'). 0 \<le> pg_start g \<and> pg_start g \<le> maximum d s True"
    using page_loop_starts t(4) unfolding pages nav_pages_def by metis
  moreover have "co_active (nv_controls nv') = Some (nat (page_index ?t ?u))" "nat (page_index ?t ?u) < length (nv_pages nv')"
    using ix by (auto simp: dots(3) eq_index_def Let_def pages(1))
  ultimately show ?thesis using dots(1,2) pages(1) ix(3) g(3,4) by metis
qed


end
