(* ===== verification/OwlPlugins.thy ===== *)
theory OwlPlugins
  imports OwlNav
begin

text \<open>
  The smaller plugins of the carousel (\<open>server/html/js/owl.carousel.js\<close>): automatic refresh when
  the element becomes visible, lazy loading, automatic height, videos and animations. Elements of
  the page are named by numbers; what the page measures is an argument.
\<close>

section \<open>Automatic refresh\<close>

record auto_refresh =
  ar_interval :: bool
  ar_visible :: "bool option"
  ar_hiddenClass :: bool

definition init_auto_refresh :: auto_refresh where
  "init_auto_refresh = \<lparr>ar_interval = False, ar_visible = None, ar_hiddenClass = False\<rparr>"

definition ar_watch :: "dom \<Rightarrow> auto_refresh \<times> owl \<Rightarrow> auto_refresh \<times> owl" where
  "ar_watch d = (\<lambda>(r, s).
     if ar_interval r then (r, s) else (r\<lparr>ar_visible := Some (isVisible d s), ar_interval := True\<rparr>, s))"

definition ar_refresh :: "dom \<Rightarrow> auto_refresh \<times> owl \<Rightarrow> auto_refresh \<times> owl" where
  "ar_refresh d = (\<lambda>(r, s).
     if Some (isVisible d s) = ar_visible r then (r, s)
     else
       let v = (case ar_visible r of Some b \<Rightarrow> \<not> b | None \<Rightarrow> True);
           r1 = r\<lparr>ar_visible := Some v, ar_hiddenClass := \<not> v\<rparr>
       in if v then (r1, refresh d (invalidate PWidth s)) else (r1, s))"

section \<open>Lazy loading\<close>

record lazy =
  lz_loaded :: "nat option list"

record lazy_settings =
  ls_lazyLoad :: bool
  ls_eager :: int

definition LazyDefaults :: lazy_settings where
  "LazyDefaults = \<lparr>ls_lazyLoad = False, ls_eager = 0\<rparr>"

text \<open>
  \<open>elems\<close>: the children of the stage; \<open>lazies\<close>: how many elements of a child wait to be loaded.
  A position that is NaN selects no child.
\<close>

definition child_at :: "nat list \<Rightarrow> int option \<Rightarrow> nat option" where
  "child_at elems position = (case position of None \<Rightarrow> None
     | Some p \<Rightarrow> (case eq_index (length elems) p of None \<Rightarrow> None | Some i \<Rightarrow> Some (elems ! i)))"

definition lazy_load :: "nat list \<Rightarrow> (nat \<Rightarrow> nat) \<Rightarrow> int option \<Rightarrow> lazy \<times> owl \<Rightarrow> lazy \<times> owl" where
  "lazy_load elems lazies position = (\<lambda>(z, s).
     let item = child_at elems position
     in if item \<in> set (lz_loaded z) then (z, s)
        else (z\<lparr>lz_loaded := lz_loaded z @ [item]\<rparr>,
              (case item of None \<Rightarrow> s | Some x \<Rightarrow> (trigger ''load'' ^^ lazies x) s)))"

text \<open>The first position and the number of positions to load.\<close>

definition lazy_range :: "lazy_settings \<Rightarrow> settings \<Rightarrow> int \<Rightarrow> int \<times> nat" where
  "lazy_range ls se position =
     (let half = (se_items se + 1) div 2;
          n = (if se_center se \<and> half \<noteq> 0 then half else se_items se);
          i = (if se_center se then - n else 0);
          p = position + i;
          eager = ls_eager ls > 0;
          n1 = (if eager then n + ls_eager ls else n);
          p1 = (if eager \<and> se_loop se then p - ls_eager ls else p);
          n2 = (if eager \<and> se_loop se then n1 + 1 else n1)
      in (p1, nat (n2 - i)))"

definition lazy_load_position :: "nat list \<Rightarrow> (nat \<Rightarrow> nat) \<Rightarrow> int \<Rightarrow> lazy \<times> owl \<Rightarrow> lazy \<times> owl" where
  "lazy_load_position elems lazies p = (\<lambda>(z, s).
     let rel = relative s p;
         (z1, s1) = lazy_load elems lazies (map_option (\<lambda>r. half_clones s + r) rel) (z, s)
     in if ow_clones s1 = [] then (z1, s1)
        else fold (\<lambda>c. lazy_load elems lazies (Some c))
               (case relative s1 p of None \<Rightarrow> clones_all s1 | Some r \<Rightarrow> clones_of s1 r) (z1, s1))"

fun lazy_loop :: "nat list \<Rightarrow> (nat \<Rightarrow> nat) \<Rightarrow> nat \<Rightarrow> int \<Rightarrow> lazy \<times> owl \<Rightarrow> lazy \<times> owl" where
  "lazy_loop elems lazies 0 p zs = zs"
| "lazy_loop elems lazies (Suc n) p zs = lazy_loop elems lazies n (p + 1) (lazy_load_position elems lazies p zs)"

text \<open>\<open>change\<close>: the new position of a change of position; None at initialisation.\<close>

definition lazy_handle ::
  "lazy_settings \<Rightarrow> nat list \<Rightarrow> (nat \<Rightarrow> nat) \<Rightarrow> int option \<Rightarrow> lazy \<times> owl \<Rightarrow> lazy \<times> owl" where
  "lazy_handle ls elems lazies change = (\<lambda>(z, s).
     if \<not> ls_lazyLoad ls then (z, s)
     else
       let position = (case change of Some p \<Rightarrow> p | None \<Rightarrow> current_num s);
           (p, n) = lazy_range ls (ow_settings s) position
       in lazy_loop elems lazies n p (z, s))"

section \<open>Automatic height\<close>

text \<open>The maximum of no heights is negative infinity, None.\<close>

record auto_height =
  ah_previous :: "rat option"
  ah_height :: "rat option"

definition max_height :: "rat list \<Rightarrow> rat option" where
  "max_height hs = (if hs = [] then None else Some (Max (set hs)))"

definition ah_update :: "bool \<Rightarrow> rat list \<Rightarrow> owl \<Rightarrow> auto_height \<Rightarrow> auto_height" where
  "ah_update lazyLoad heights s h =
     (let start = nat (current_num s);
          stop = nat (current_num s + se_items (ow_settings s));
          m = max_height (take (stop - start) (drop start heights));
          m1 = (if (case m of None \<Rightarrow> True | Some v \<Rightarrow> v \<le> 1) \<and> lazyLoad \<and> truthy (ah_previous h)
                then ah_previous h else m)
      in \<lparr>ah_previous = m1, ah_height = m1\<rparr>)"

section \<open>Videos\<close>

datatype video_type = Youtube | Vimeo | Vzaar

record video =
  vi_type :: video_type
  vi_id :: string

record videos =
  vd_videos :: "string \<rightharpoonup> video"
  vd_itemUrl :: "nat \<rightharpoonup> string"
  vd_playing :: "nat option"
  vd_frame :: "(nat \<times> string) option"

definition video_src :: "video \<Rightarrow> string" where
  "video_src v = (case vi_type v of
     Youtube \<Rightarrow> ''//www.youtube.com/embed/'' @ vi_id v @ ''?autoplay=1&rel=0&v='' @ vi_id v
   | Vimeo \<Rightarrow> ''//player.vimeo.com/video/'' @ vi_id v @ ''?autoplay=1''
   | Vzaar \<Rightarrow> ''//view.vzaar.com/'' @ vi_id v @ ''/player?autoplay=true'')"

definition video_stop :: "videos \<times> owl \<Rightarrow> videos \<times> owl" where
  "video_stop = (\<lambda>(v, s).
     (v\<lparr>vd_playing := None, vd_frame := None\<rparr>,
      trigger ''stopped'' (leave_st ''playing'' (trigger ''stop'' s))))"

text \<open>
  The icon that was clicked belongs to the child of the stage at the index \<open>i\<close>, a copy of the item
  \<open>x\<close>. None: the item has no known video and the handler raises an error.
\<close>

definition video_play :: "nat \<Rightarrow> nat \<Rightarrow> videos \<times> owl \<Rightarrow> (videos \<times> owl) option" where
  "video_play i x = (\<lambda>(v, s).
     (case (case vd_itemUrl v x of None \<Rightarrow> None | Some u \<Rightarrow> vd_videos v u) of
        None \<Rightarrow> None
      | Some vid \<Rightarrow>
          if vd_playing v \<noteq> None then Some (v, s)
          else
            let s1 = trigger ''play'' (enter_st ''playing'' s)
            in (case (case relative s1 (int i) of None \<Rightarrow> None | Some r \<Rightarrow> items_at s1 r) of
                  None \<Rightarrow> None
                | Some item \<Rightarrow>
                    Some (v\<lparr>vd_playing := Some item, vd_frame := Some (item, video_src vid)\<rparr>,
                          reset (stage_index (ow_stage s1) item) s1))))"

datatype video_event = VideoInitialized | VideoPosition | VideoClick nat nat

definition video_handle :: "video_event \<Rightarrow> videos \<times> owl \<Rightarrow> (videos \<times> owl) option" where
  "video_handle ev = (\<lambda>(v, s).
     (case ev of
        VideoInitialized \<Rightarrow> Some (v, s\<lparr>ow_states := register_state ''playing'' [''interacting''] (ow_states s)\<rparr>)
      | VideoPosition \<Rightarrow> Some (if vd_playing v \<noteq> None then video_stop (v, s) else (v, s))
      | VideoClick i x \<Rightarrow> video_play i x (v, s)))"

section \<open>Animations\<close>

record animation =
  an_swapping :: bool
  an_previous :: "int option"
  an_next :: "int option"
  an_out :: "(nat \<times> rat option) list"
  an_in :: "nat list"

definition init_animation :: animation where
  "init_animation = \<lparr>an_swapping = True, an_previous = None, an_next = None, an_out = [], an_in = []\<rparr>"

record animate_settings =
  an_animateIn :: bool
  an_animateOut :: bool
  an_supported :: bool

text \<open>The children that animate out, with their offset, and in.\<close>

definition swap :: "animate_settings \<Rightarrow> nat list \<Rightarrow> animation \<times> owl \<Rightarrow> animation \<times> owl" where
  "swap as elems = (\<lambda>(n, s).
     if se_items (ow_settings s) \<noteq> 1 \<or> \<not> an_supported as then (n, s)
     else
       let s1 = set_speed (Some 0) s;
           coord = (\<lambda>p. case p of None \<Rightarrow> None | Some q \<Rightarrow> coordinates s1 q);
           left = num2 (-) (coord (an_previous n)) (coord (an_next n));
           listed = (\<lambda>p. case child_at elems p of None \<Rightarrow> [] | Some x \<Rightarrow> [x])
       in if ow_current s1 = an_previous n then (n, s1)
          else (n\<lparr>an_out := (if an_animateOut as then an_out n @ map (\<lambda>x. (x, left)) (listed (an_previous n)) else an_out n),
                  an_in := (if an_animateIn as then an_in n @ listed (an_next n) else an_in n)\<rparr>, s1))"

definition clear :: "nat \<Rightarrow> animation \<times> owl \<Rightarrow> animation \<times> owl" where
  "clear x = (\<lambda>(n, s).
     (n\<lparr>an_out := filter (\<lambda>(y, _). y \<noteq> x) (an_out n), an_in := filter (\<lambda>y. y \<noteq> x) (an_in n)\<rparr>, onTransitionEnd s))"

datatype animate_event = PositionChange int | DragStarted | Dragged | Translated | Translate

definition animate_handle :: "animate_settings \<Rightarrow> nat list \<Rightarrow> animate_event \<Rightarrow> animation \<times> owl \<Rightarrow> animation \<times> owl" where
  "animate_handle as elems ev = (\<lambda>(n, s).
     (case ev of
        PositionChange p \<Rightarrow> (n\<lparr>an_previous := ow_current s, an_next := Some p\<rparr>, s)
      | DragStarted \<Rightarrow> (n\<lparr>an_swapping := False\<rparr>, s)
      | Dragged \<Rightarrow> (n\<lparr>an_swapping := False\<rparr>, s)
      | Translated \<Rightarrow> (n\<lparr>an_swapping := True\<rparr>, s)
      | Translate \<Rightarrow>
          if an_swapping n \<and> (an_animateOut as \<or> an_animateIn as) then swap as elems (n, s) else (n, s)))"

section \<open>What lazy loading loads\<close>

lemma trigger_many [simp]:
  "ow_items ((trigger e ^^ n) s) = ow_items s" "ow_clones ((trigger e ^^ n) s) = ow_clones s"
  by (induction n) simp_all

lemma lazy_load_sel:
  "ow_items (snd (lazy_load el lz p zs)) = ow_items (snd zs)" "ow_clones (snd (lazy_load el lz p zs)) = ow_clones (snd zs)"
  "set (lz_loaded (fst zs)) \<subseteq> set (lz_loaded (fst (lazy_load el lz p zs)))"
  "child_at el p \<in> set (lz_loaded (fst (lazy_load el lz p zs)))"
  by (cases zs; auto simp: lazy_load_def Let_def split: option.splits)+

lemma lazy_fold_sel:
  "ow_items (snd (fold (\<lambda>c. lazy_load el lz (Some c)) cs zs)) = ow_items (snd zs)
   \<and> ow_clones (snd (fold (\<lambda>c. lazy_load el lz (Some c)) cs zs)) = ow_clones (snd zs)
   \<and> set (lz_loaded (fst zs)) \<subseteq> set (lz_loaded (fst (fold (\<lambda>c. lazy_load el lz (Some c)) cs zs)))
   \<and> (\<forall>c\<in>set cs. child_at el (Some c) \<in> set (lz_loaded (fst (fold (\<lambda>c. lazy_load el lz (Some c)) cs zs))))"
proof (induction cs arbitrary: zs)
  case (Cons c cs)
  show ?case using Cons [of "lazy_load el lz (Some c) zs"] lazy_load_sel [where zs = zs and el = el and lz = lz and p = "Some c"]
    by (simp, blast)
qed simp

text \<open>One position: the item there and all its clones.\<close>

lemma lazy_position_sel:
  fixes el lz
  assumes "relative (snd zs) p = Some r"
  defines "zs' \<equiv> lazy_load_position el lz p zs"
  shows "ow_items (snd zs') = ow_items (snd zs)" and "ow_clones (snd zs') = ow_clones (snd zs)"
    and "set (lz_loaded (fst zs)) \<subseteq> set (lz_loaded (fst zs'))"
    and "child_at el (Some (half_clones (snd zs) + r)) \<in> set (lz_loaded (fst zs'))"
    and "c \<in> set (clones_of (snd zs) r) \<Longrightarrow> child_at el (Some c) \<in> set (lz_loaded (fst zs'))"
proof -
  obtain z s where zs: "zs = (z, s)" by (cases zs)
  let ?y = "lazy_load el lz (Some (half_clones s + r)) (z, s)"
  obtain z1 s1 where y: "?y = (z1, s1)" by (cases ?y)
  have s1: "ow_items s1 = ow_items s" "ow_clones s1 = ow_clones s"
    using lazy_load_sel(1,2) [of el lz "Some (half_clones s + r)" "(z, s)"] by (simp_all add: y)
  have l1: "set (lz_loaded z) \<subseteq> set (lz_loaded z1)" "child_at el (Some (half_clones s + r)) \<in> set (lz_loaded z1)"
    using lazy_load_sel(3,4) [where el = el and lz = lz and p = "Some (half_clones s + r)" and zs = "(z, s)"] by (simp_all add: y)
  have rel: "relative s1 p = Some r" using assms(1) relative_cong [OF s1] by (simp add: zs)
  have cl: "clones_of s1 = clones_of s"
    by (simp add: fun_eq_iff clones_of_def clone_position_def [abs_def] half_clones_def s1)
  have zs': "zs' = (if ow_clones s = [] then (z1, s1) else fold (\<lambda>c. lazy_load el lz (Some c)) (clones_of s r) (z1, s1))"
    using assms(1) rel y s1 by (simp add: zs'_def lazy_load_position_def zs Let_def cl)
  note f = lazy_fold_sel [of el lz "clones_of s r" "(z1, s1)"]
  show "ow_items (snd zs') = ow_items (snd zs)" "ow_clones (snd zs') = ow_clones (snd zs)"
    using f s1 by (simp_all add: zs' zs)
  show "set (lz_loaded (fst zs)) \<subseteq> set (lz_loaded (fst zs'))"
    "child_at el (Some (half_clones (snd zs) + r)) \<in> set (lz_loaded (fst zs'))"
    using f l1 by (auto simp: zs' zs)
  show "c \<in> set (clones_of (snd zs) r) \<Longrightarrow> child_at el (Some c) \<in> set (lz_loaded (fst zs'))"
    using f by (auto simp: zs' zs clones_of_def)
qed

lemma lazy_loop_loads:
  "ow_items (snd zs) \<noteq> [] \<Longrightarrow>
   set (lz_loaded (fst zs)) \<subseteq> set (lz_loaded (fst (lazy_loop el lz n p zs)))
   \<and> (\<forall>k < n. \<forall>r. relative (snd zs) (p + int k) = Some r \<longrightarrow>
        child_at el (Some (half_clones (snd zs) + r)) \<in> set (lz_loaded (fst (lazy_loop el lz n p zs)))
        \<and> (\<forall>c\<in>set (clones_of (snd zs) r). child_at el (Some c) \<in> set (lz_loaded (fst (lazy_loop el lz n p zs)))))"
proof (induction n arbitrary: p zs)
  case (Suc n)
  obtain r0 where r0: "relative (snd zs) p = Some r0" using Suc.prems by (simp add: relative_mod)
  let ?y = "lazy_load_position el lz p zs"
  note y = lazy_position_sel [where el = el and lz = lz, OF r0]
  have same: "relative (snd ?y) = relative (snd zs)" "half_clones (snd ?y) = half_clones (snd zs)" "clones_of (snd ?y) = clones_of (snd zs)"
    using y(1,2) by (simp_all add: relative_cong [OF y(1,2)] half_clones_def fun_eq_iff clones_of_def clone_position_def [abs_def])
  have ih: "set (lz_loaded (fst ?y)) \<subseteq> set (lz_loaded (fst (lazy_loop el lz (Suc n) p zs)))"
    "\<And>k r. k < n \<Longrightarrow> relative (snd zs) (p + 1 + int k) = Some r \<Longrightarrow>
        child_at el (Some (half_clones (snd zs) + r)) \<in> set (lz_loaded (fst (lazy_loop el lz (Suc n) p zs)))
        \<and> (\<forall>c\<in>set (clones_of (snd zs) r). child_at el (Some c) \<in> set (lz_loaded (fst (lazy_loop el lz (Suc n) p zs))))"
    using Suc.IH [of ?y "p + 1"] Suc.prems y(1) same by auto
  have "child_at el (Some (half_clones (snd zs) + r)) \<in> set (lz_loaded (fst (lazy_loop el lz (Suc n) p zs)))
        \<and> (\<forall>c\<in>set (clones_of (snd zs) r). child_at el (Some c) \<in> set (lz_loaded (fst (lazy_loop el lz (Suc n) p zs))))"
    if k: "k < Suc n" "relative (snd zs) (p + int k) = Some r" for k r
  proof (cases k)
    case 0
    then show ?thesis using k(2) r0 y(4,5) ih(1) by auto
  next
    case (Suc k')
    then show ?thesis using ih(2) [of k' r] k by (simp add: add.assoc)
  qed
  then show ?case using ih(1) y(3) by (meson subset_trans)
qed simp

text \<open>A change of position loads every child of the stage that shows one of the visible items.\<close>

theorem lazy_loads_visible:
  assumes "ls_lazyLoad ls" and "ls_eager ls = 0" and "\<not> se_center (ow_settings s)" and "ow_items s \<noteq> []"
    and "int k < se_items (ow_settings s)" and "relative s (p + int k) = Some r"
    and "c = half_clones s + r \<or> c \<in> set (clones_of s r)"
  shows "child_at el (Some c) \<in> set (lz_loaded (fst (lazy_handle ls el lz (Some p) (z, s))))"
proof -
  have "k < nat (se_items (ow_settings s))" using assms(5) by linarith
  then show ?thesis
    using lazy_loop_loads [of "(z, s)" el lz "nat (se_items (ow_settings s))" p] assms
    by (auto simp: lazy_handle_def lazy_range_def Let_def)
qed

section \<open>One video at a time\<close>

definition video_ok :: "videos \<times> owl \<Rightarrow> bool" where
  "video_ok = (\<lambda>(v, s). tags_ok s \<and> tags_of s ''playing'' \<in> {None, Some [''interacting'']}
     \<and> (vd_frame v = None \<longleftrightarrow> vd_playing v = None)
     \<and> (if vd_playing v = None then count_of ''playing'' s \<in> {None, Some (Num 0)} else count_of ''playing'' s = Some (Num 1)))"

lemma playing_count:
  assumes "tags_ok s" and "tags_of s ''playing'' \<in> {None, Some [''interacting'']}"
  shows "tags_ok (enter_st ''playing'' s)" "tags_ok (leave_st ''playing'' s)"
    and "count_of ''playing'' s \<in> {None, Some (Num 0)} \<Longrightarrow> count_of ''playing'' (enter_st ''playing'' s) = Some (Num 1)"
    and "count_of ''playing'' s = Some (Num 1) \<Longrightarrow> count_of ''playing'' (leave_st ''playing'' s) = Some (Num 0)"
  using assms
  by (auto simp: tags_ok_def count_of_def enter_st_def leave_st_def enter_def leave_def with_tags_def
      count_up_def count_down_def)

text \<open>Every event keeps the record of the playing video and the state playing in step.\<close>

theorem video_handle_ok:
  assumes "video_ok x" and "video_handle ev x = Some y"
  shows "video_ok y"
proof -
  obtain v s where x: "x = (v, s)" by (cases x)
  have s: "tags_ok s" "tags_of s ''playing'' \<in> {None, Some [''interacting'']}" using assms(1) by (auto simp: x video_ok_def)
  show ?thesis
  proof (cases ev)
    case VideoInitialized
    then show ?thesis using assms by (auto simp: x video_ok_def video_handle_def register_state_def tags_ok_def count_of_def)
  next
    case VideoPosition
    have "tags_ok (trigger ''stop'' s)" "tags_of (trigger ''stop'' s) ''playing'' \<in> {None, Some [''interacting'']}"
      using s by simp_all
    from playing_count [OF this] show ?thesis using assms VideoPosition
      by (auto simp: x video_ok_def video_handle_def video_stop_def split: if_splits)
  next
    case (VideoClick i j)
    have r: "tags_ok (reset q (trigger e t)) = tags_ok t" "tags_ok t \<Longrightarrow> count_of ''playing'' (reset q (trigger e t)) = count_of ''playing'' t" for q e t
      using reset_keeps [of "trigger e t" "''playing''" q] tags_ok_cong [of "reset q (trigger e t)" t] by simp_all
    show ?thesis using assms VideoClick playing_count [OF s]
      by (auto simp: x video_ok_def video_handle_def video_play_def Let_def r split: option.splits if_splits)
  qed
qed

end
