(* ===== verification/LocalStorage.thy ===== *)
theory LocalStorage
  imports JsNumber Dictionary "HOL-Library.AList"
begin

text \<open>
  The storage for browsers without one (\<open>classes/util/LocalStorage.js\<close>): items are kept in an
  object and saved as one text, each key and value preceded by its length in base 32. The record
  \<open>storage\<close> holds the object (an association list in the order of enumeration), the keys and
  the saved text. An operation that raises a TypeError is None; \<open>load\<close> of a text that was not
  written by \<open>save\<close> may also run forever, which is None, too. A text cut off inside the value of the key
  \<open>__proto__\<close>, which would take the object its prototype, is not modelled.
\<close>

section \<open>The state\<close>

text \<open>A loaded value is null where the text ends too early.\<close>

type_synonym items = "(ustring \<times> ustring option) list"

record storage =
  ls_items :: items
  ls_keys :: "ustring list"
  ls_data :: ustring

abbreviation comma :: code_unit where
  "comma \<equiv> 0x2C"

text \<open>\<open>items[k] = v\<close>: under the key \<open>__proto__\<close> a text is not stored, the assignment has no effect.\<close>

definition put_item :: "ustring \<Rightarrow> ustring option \<Rightarrow> items \<Rightarrow> items" where
  "put_item k v xs = (if k = js ''__proto__'' then xs else AList.update k v xs)"

definition updateKeys :: "storage \<Rightarrow> storage" where
  "updateKeys s = s\<lparr>ls_keys := map fst (ls_items s)\<rparr>"

section \<open>Loading\<close>

definition clamp :: "ustring \<Rightarrow> int \<Rightarrow> nat" where
  "clamp s i = nat (max 0 (min i (int (length s))))"

definition substring :: "ustring \<Rightarrow> int \<Rightarrow> int \<Rightarrow> ustring" where
  "substring s a b = (let i = min (clamp s a) (clamp s b); j = max (clamp s a) (clamp s b) in take (j - i) (drop i s))"

definition indexOf :: "code_unit \<Rightarrow> ustring \<Rightarrow> int \<Rightarrow> int" where
  "indexOf c s pos =
     (let i = clamp s pos; k = length (takeWhile (\<lambda>d. d \<noteq> c) (drop i s))
      in if i + k < length s then int (i + k) else -1)"

text \<open>\<open>next(end)\<close>: the text up to the length \<open>end\<close>, or to the next comma, and the position after it.\<close>

definition next_part :: "ustring \<Rightarrow> int option \<Rightarrow> int \<Rightarrow> ustring option \<times> int" where
  "next_part data len pos =
     (let nextPos = (case len of Some n \<Rightarrow> pos + n | None \<Rightarrow> indexOf comma data pos)
      in if nextPos = -1 \<or> nextPos > int (length data) then (None, pos)
         else (Some (substring data pos nextPos), nextPos + 1))"

definition offset_of :: "ustring \<Rightarrow> int" where
  "offset_of t = (case parse_int 32 t of Some n \<Rightarrow> n | None \<Rightarrow> 0)"

partial_function (option) load_loop :: "ustring \<Rightarrow> int \<Rightarrow> items \<Rightarrow> items option" where
  "load_loop data pos items =
     (case next_part data None pos of
        (None, _) \<Rightarrow> Some items
      | (Some off, p1) \<Rightarrow>
          (case next_part data (Some (offset_of off)) p1 of
             (None, _) \<Rightarrow> Some items
           | (Some k, p2) \<Rightarrow>
               (case next_part data None p2 of
                  (None, _) \<Rightarrow> Some items
                | (Some off2, p3) \<Rightarrow>
                    (case next_part data (Some (offset_of off2)) p3 of
                       (v, p4) \<Rightarrow> load_loop data p4 (if k \<noteq> [] then put_item k v items else items)))))"

text \<open>\<open>support\<close>: the browser can keep user data; without it nothing is loaded or saved.\<close>

definition load :: "bool \<Rightarrow> storage \<Rightarrow> storage option" where
  "load support s =
     (if \<not> support then Some (s\<lparr>ls_items := []\<rparr>)
      else case load_loop (ls_data s) 0 [] of
             None \<Rightarrow> None
           | Some xs \<Rightarrow> Some (updateKeys (s\<lparr>ls_items := xs\<rparr>)))"

section \<open>Saving\<close>

fun save_loop :: "items \<Rightarrow> ustring \<Rightarrow> ustring option" where
  "save_loop [] data = Some data"
| "save_loop ((k, None) # xs) data = None"
| "save_loop ((k, Some v) # xs) data =
     save_loop xs (data @ (if data \<noteq> [] then [comma] else []) @ show_radix 32 (length k) @ [comma] @ k @ [comma]
       @ show_radix 32 (length v) @ [comma] @ v)"

definition save :: "bool \<Rightarrow> storage \<Rightarrow> storage option" where
  "save support s =
     (if \<not> support then Some s
      else case save_loop (ls_items s) [] of
             None \<Rightarrow> None
           | Some data \<Rightarrow> Some (updateKeys (s\<lparr>ls_data := data\<rparr>)))"

section \<open>The interface\<close>

definition ls_key :: "storage \<Rightarrow> nat \<Rightarrow> ustring option" where
  "ls_key s i = nth_opt (ls_keys s) i"

text \<open>\<open>key in items\<close> also finds what the object inherits.\<close>

definition getItem :: "storage \<Rightarrow> ustring \<Rightarrow> ustring option property" where
  "getItem s k = (if has_prop (map_of (ls_items s)) k then get_prop (map_of (ls_items s)) k else Own None)"

definition setItem :: "bool \<Rightarrow> ustring \<Rightarrow> ustring \<Rightarrow> storage \<Rightarrow> storage option" where
  "setItem support k v s = save support (s\<lparr>ls_items := put_item k (Some v) (ls_items s)\<rparr>)"

definition removeItem :: "bool \<Rightarrow> ustring \<Rightarrow> storage \<Rightarrow> storage option" where
  "removeItem support k s = save support (s\<lparr>ls_items := AList.delete k (ls_items s)\<rparr>)"

definition clear_items :: "bool \<Rightarrow> storage \<Rightarrow> storage option" where
  "clear_items support s = save support (s\<lparr>ls_items := []\<rparr>)"

section \<open>Reading back what was written\<close>

lemma clamp_in: "i \<le> length s \<Longrightarrow> clamp s (int i) = i"
  by (simp add: clamp_def)

lemma clamp_end: "clamp s (int (length s) + 1) = length s"
  by (simp add: clamp_def)

lemma substring_mid: "substring (pre @ w @ suf) (int (length pre)) (int (length pre + length w)) = w"
proof -
  have "clamp (pre @ w @ suf) (int (length pre)) = length pre"
    "clamp (pre @ w @ suf) (int (length pre + length w)) = length pre + length w"
    by (rule clamp_in, simp)+
  then show ?thesis by (simp add: substring_def Let_def)
qed

lemma next_len:
  "next_part (pre @ w @ suf) (Some (int (length w))) (int (length pre)) = (Some w, int (length pre + length w) + 1)"
  using substring_mid [of pre w suf] by (simp add: next_part_def Let_def)

lemma next_comma:
  assumes "comma \<notin> set w"
  shows "next_part (pre @ w @ comma # suf) None (int (length pre)) = (Some w, int (length pre + length w) + 1)"
proof -
  let ?d = "pre @ w @ comma # suf"
  have i: "clamp ?d (int (length pre)) = length pre" by (rule clamp_in) simp
  have k: "takeWhile (\<lambda>c. c \<noteq> comma) (w @ comma # suf) = w"
    using assms by (subst takeWhile_append2) auto
  have "indexOf comma ?d (int (length pre)) = int (length pre + length w)"
    unfolding indexOf_def i Let_def append_eq_conv_conj by (simp add: k)
  then show ?thesis using substring_mid [of pre w "comma # suf"] by (simp add: next_part_def Let_def)
qed

lemma next_end: "next_part data None (int (length data) + 1) = (None, int (length data) + 1)"
  by (simp add: next_part_def indexOf_def clamp_end Let_def)

lemma next_empty: "next_part [] None 0 = (None, 0)"
  by (simp add: next_part_def indexOf_def clamp_def Let_def)

lemma offset_show [simp]: "offset_of (show_radix 32 n) = int n"
  by (simp add: offset_of_def parse_int_show)

lemma show32_no_comma: "comma \<notin> set (show_radix 32 n)"
proof
  assume "comma \<in> set (show_radix 32 n)"
  then have "is_digit 32 comma" by (rule show_radix_digits [rotated 2]) simp_all
  then show False by (simp add: is_digit_def digit_val_def)
qed

text \<open>The text of one item.\<close>

definition entry :: "ustring \<Rightarrow> ustring \<Rightarrow> ustring" where
  "entry k v = show_radix 32 (length k) @ [comma] @ k @ [comma] @ show_radix 32 (length v) @ [comma] @ v"

lemma entry_not_Nil [simp]: "entry k v \<noteq> []"
  by (simp add: entry_def)

lemma save_loop_join:
  "save_loop (map (\<lambda>(k, v). (k, Some v)) kvs) data =
     Some (if kvs = [] then data else data @ (if data \<noteq> [] then [comma] else []) @ join_with [comma] (map (\<lambda>(k, v). entry k v) kvs))"
proof (induction kvs arbitrary: data)
  case (Cons kv kvs)
  obtain k v where kv: "kv = (k, v)" by (cases kv)
  let ?d = "data @ (if data \<noteq> [] then [comma] else []) @ entry k v"
  have "save_loop (map (\<lambda>(k, v). (k, Some v)) (kv # kvs)) data = save_loop (map (\<lambda>(k, v). (k, Some v)) kvs) ?d"
    by (simp add: kv entry_def)
  then show ?case using Cons [of ?d] by (cases kvs) (simp_all add: kv)
qed simp

lemma load_entry:
  assumes "k \<noteq> []"
  shows "load_loop (pre @ entry k v @ suf) (int (length pre)) xs =
    load_loop (pre @ entry k v @ suf) (int (length pre + length (entry k v)) + 1) (put_item k (Some v) xs)"
proof -
  let ?K = "show_radix 32 (length k)" and ?V = "show_radix 32 (length v)"
  let ?d = "pre @ entry k v @ suf"
  have 1: "next_part ?d None (int (length pre)) = (Some ?K, int (length pre + length ?K) + 1)"
    using next_comma [OF show32_no_comma, of pre "length k" "k @ comma # ?V @ comma # v @ suf"] by (simp add: entry_def)
  have 2: "next_part ?d (Some (int (length k))) (int (length pre + length ?K) + 1) = (Some k, int (length pre + length ?K + 1 + length k) + 1)"
    using next_len [of "pre @ ?K @ [comma]" k "comma # ?V @ comma # v @ suf"] by (simp add: entry_def algebra_simps)
  have 3: "next_part ?d None (int (length pre + length ?K + 1 + length k) + 1) =
      (Some ?V, int (length pre + length ?K + 1 + length k + 1 + length ?V) + 1)"
    using next_comma [OF show32_no_comma, of "pre @ ?K @ comma # k @ [comma]" "length v" "v @ suf"] by (simp add: entry_def algebra_simps)
  have 4: "next_part ?d (Some (int (length v))) (int (length pre + length ?K + 1 + length k + 1 + length ?V) + 1) =
      (Some v, int (length pre + length (entry k v)) + 1)"
    using next_len [of "pre @ ?K @ comma # k @ comma # ?V @ [comma]" v suf] by (simp add: entry_def algebra_simps)
  show ?thesis
    using assms by (subst load_loop.simps) (simp only: 1 2 3 4 prod.case option.case offset_show if_True simp_thms)
qed

lemma AList_update_new: "k \<notin> fst ` set xs \<Longrightarrow> AList.update k v xs = xs @ [(k, v)]"
  by (induction xs) auto

lemma AList_update_subset: "set (AList.update k v xs) \<subseteq> insert (k, v) (set xs)"
  by (induction xs) auto

text \<open>The keys that can be stored.\<close>

definition storage_key :: "ustring \<Rightarrow> bool" where
  "storage_key k \<longleftrightarrow> k \<noteq> [] \<and> k \<noteq> js ''__proto__''"

lemma load_saved:
  "kvs \<noteq> [] \<Longrightarrow> \<forall>(k, v)\<in>set kvs. storage_key k \<Longrightarrow> distinct (map fst xs @ map fst kvs) \<Longrightarrow>
   load_loop (pre @ join_with [comma] (map (\<lambda>(k, v). entry k v) kvs)) (int (length pre)) xs =
     Some (xs @ map (\<lambda>(k, v). (k, Some v)) kvs)"
proof (induction kvs arbitrary: pre xs)
  case (Cons kv kvs)
  obtain k v where kv: "kv = (k, v)" "k \<noteq> []" "k \<noteq> js ''__proto__''" using Cons.prems(2) by (cases kv) (auto simp: storage_key_def)
  have u: "put_item k (Some v) xs = xs @ [(k, Some v)]"
    using Cons.prems(3) kv by (simp add: put_item_def AList_update_new image_iff)
  show ?case
  proof (cases "kvs = []")
    case True
    let ?d = "pre @ entry k v"
    have "load_loop ?d (int (length pre)) xs = load_loop ?d (int (length ?d) + 1) (xs @ [(k, Some v)])"
      using load_entry [OF kv(2), of pre v "[]" xs] by (simp add: u)
    also have "\<dots> = Some (xs @ [(k, Some v)])" by (subst load_loop.simps) (simp only: next_end prod.case option.case)
    finally show ?thesis using True kv by simp
  next
    case False
    let ?r = "join_with [comma] (map (\<lambda>(k, v). entry k v) kvs)"
    have j: "join_with [comma] (map (\<lambda>(k, v). entry k v) (kv # kvs)) = entry k v @ comma # ?r"
      using False kv by (cases kvs) simp_all
    have "load_loop (pre @ entry k v @ comma # ?r) (int (length pre)) xs =
        load_loop ((pre @ entry k v @ [comma]) @ ?r) (int (length (pre @ entry k v @ [comma]))) (xs @ [(k, Some v)])"
      using load_entry [OF kv(2), of pre v "comma # ?r" xs] by (simp add: u algebra_simps)
    also have "\<dots> = Some (xs @ map (\<lambda>(k, v). (k, Some v)) (kv # kvs))"
      using Cons.IH [OF False, of "xs @ [(k, Some v)]" "pre @ entry k v @ [comma]"] Cons.prems kv by auto
    finally show ?thesis by (simp only: j)
  qed
qed simp

section \<open>The storage is a dictionary that survives reloading\<close>

text \<open>Keys are distinct and can be stored, all values are texts, and the saved text is up to date.\<close>

definition storage_ok :: "storage \<Rightarrow> bool" where
  "storage_ok s \<longleftrightarrow> distinct (map fst (ls_items s)) \<and> (\<forall>(k, v)\<in>set (ls_items s). storage_key k \<and> v \<noteq> None)
     \<and> load_loop (ls_data s) 0 [] = Some (ls_items s)"

lemma save_ok:
  assumes "distinct (map fst (ls_items s))" and "\<forall>(k, v)\<in>set (ls_items s). storage_key k \<and> v \<noteq> None"
  shows "\<exists>t. save True s = Some t \<and> ls_items t = ls_items s \<and> storage_ok t"
proof -
  define kvs where "kvs = map (\<lambda>(k, v). (k, the v)) (ls_items s)"
  have items: "ls_items s = map (\<lambda>(k, v). (k, Some v)) kvs"
    using assms(2) by (auto simp: kvs_def comp_def case_prod_unfold intro!: map_idI [symmetric])
  let ?j = "join_with [comma] (map (\<lambda>(k, v). entry k v) kvs)"
  have sl: "save_loop (ls_items s) [] = Some (if kvs = [] then [] else ?j)" by (simp add: items save_loop_join)
  have "load_loop (if kvs = [] then [] else ?j) 0 [] = Some (ls_items s)"
  proof (cases "kvs = []")
    case True
    then show ?thesis by (subst load_loop.simps) (simp add: items next_empty)
  next
    case False
    have "distinct (map fst kvs)" "\<forall>(k, v)\<in>set kvs. storage_key k"
      using assms by (auto simp: kvs_def comp_def case_prod_unfold)
    then show ?thesis using load_saved [OF False, of "[]" "[]"] False by (simp add: items)
  qed
  then show ?thesis using assms sl by (simp add: save_def storage_ok_def updateKeys_def)
qed

definition stored :: "storage \<Rightarrow> ustring \<Rightarrow> ustring option" where
  "stored s k = (case map_of (ls_items s) k of Some v \<Rightarrow> v | None \<Rightarrow> None)"

text \<open>The operations on a storage that is supported, as functions.\<close>

definition store_put :: "ustring \<Rightarrow> ustring \<Rightarrow> storage \<Rightarrow> storage" where
  "store_put k v s = (case setItem True k v s of Some t \<Rightarrow> t | None \<Rightarrow> s)"

definition store_del :: "ustring \<Rightarrow> storage \<Rightarrow> storage" where
  "store_del k s = (case removeItem True k s of Some t \<Rightarrow> t | None \<Rightarrow> s)"

lemma store_put_ok:
  assumes "storage_ok s" and "storage_key k"
  shows "storage_ok (store_put k v s)" and "ls_items (store_put k v s) = AList.update k (Some v) (ls_items s)"
proof -
  let ?s = "s\<lparr>ls_items := AList.update k (Some v) (ls_items s)\<rparr>"
  have "distinct (map fst (ls_items ?s))" using assms(1) by (simp add: storage_ok_def distinct_update)
  moreover have "\<forall>(j, w)\<in>set (ls_items ?s). storage_key j \<and> w \<noteq> None"
  proof (clarify)
    fix j w
    assume "(j, w) \<in> set (ls_items ?s)"
    then have "(j, w) = (k, Some v) \<or> (j, w) \<in> set (ls_items s)" using AList_update_subset by fastforce
    then show "storage_key j \<and> w \<noteq> None" using assms by (auto simp: storage_ok_def)
  qed
  ultimately obtain t where "save True ?s = Some t" "ls_items t = ls_items ?s" "storage_ok t" using save_ok by blast
  then show "storage_ok (store_put k v s)" "ls_items (store_put k v s) = AList.update k (Some v) (ls_items s)"
    using assms(2) by (simp_all add: store_put_def setItem_def put_item_def storage_key_def)
qed

lemma store_del_ok:
  assumes "storage_ok s"
  shows "storage_ok (store_del k s)" and "ls_items (store_del k s) = AList.delete k (ls_items s)"
proof -
  let ?s = "s\<lparr>ls_items := AList.delete k (ls_items s)\<rparr>"
  have "distinct (map fst (ls_items ?s))" "\<forall>(j, w)\<in>set (ls_items ?s). storage_key j \<and> w \<noteq> None"
    using assms by (auto simp: storage_ok_def AList.delete_eq distinct_map_filter)
  then obtain t where "save True ?s = Some t" "ls_items t = ls_items ?s" "storage_ok t" using save_ok by blast
  then show "storage_ok (store_del k s)" "ls_items (store_del k s) = AList.delete k (ls_items s)"
    by (simp_all add: store_del_def removeItem_def)
qed

interpretation ls: dictionary storage_ok storage_key stored store_put store_del
  by unfold_locales (auto simp: store_put_ok store_del_ok stored_def update_conv delete_conv)

section \<open>Properties\<close>

definition empty_storage :: storage where
  "empty_storage = \<lparr>ls_items = [], ls_keys = [], ls_data = []\<rparr>"

lemma empty_storage_ok: "storage_ok empty_storage"
proof -
  have "load_loop [] 0 [] = Some []" by (subst load_loop.simps) (simp add: next_empty)
  then show ?thesis by (simp add: storage_ok_def empty_storage_def)
qed

text \<open>C9. Whatever is stored survives a reload: after any sequence of writes, in any order, with any characters in the values and under any
  keys but the empty one and \<open>__proto__\<close>, loading the saved text ends and finds under every key that was written the value
  written last. Under a key that was not written it finds null, or the inherited member when the key names one of
  \<open>Object.prototype\<close>.\<close>

theorem storage_survives_reload:
  assumes "\<forall>(k, v)\<in>set kvs. k \<noteq> [] \<and> k \<noteq> js ''__proto__''"
  defines "s \<equiv> fold (\<lambda>(k, v). store_put k v) kvs empty_storage"
  shows "\<exists>u. load True s = Some u \<and> (\<forall>k. getItem u k =
    (case map_of (rev kvs) k of Some v \<Rightarrow> Own (Some v) | None \<Rightarrow> if k \<in> set proto_keys then Inherited else Own None))"
proof -
  have keys: "\<forall>(k, v)\<in>set kvs. storage_key k" using assms(1) by (simp add: storage_key_def)
  have ok: "storage_ok s" unfolding s_def by (rule ls.put_all_inv [OF empty_storage_ok keys])
  have st: "stored s = map_of (rev kvs)"
    using ls.lookup_put_all [OF empty_storage_ok keys] by (simp add: s_def stored_def [abs_def] empty_storage_def)
  have l: "load True s = Some (updateKeys s)"
    using ok by (simp add: load_def storage_ok_def)
  have "map_of (ls_items s) k \<noteq> Some None" for k using ok by (auto simp: storage_ok_def dest: map_of_SomeD)
  then have "map_of (ls_items s) k = map_option Some (map_of (rev kvs) k)" for k
    using st [THEN fun_cong, of k] by (cases "map_of (ls_items s) k"; cases "map_of (rev kvs) k") (simp_all add: stored_def)
  then have "getItem (updateKeys s) k = (case map_of (rev kvs) k of Some v \<Rightarrow> Own (Some v) | None \<Rightarrow> if k \<in> set proto_keys then Inherited else Own None)" for k
    by (auto simp: getItem_def updateKeys_def has_prop_def get_prop_def split: option.splits)
  then show ?thesis using l by blast
qed

theorem storage_survives_reload_witness:
  "\<exists>u. load True (store_put (js ''b'') (js ''2,3'') (store_put (js ''a'') (js ''1'') empty_storage)) = Some u
     \<and> getItem u (js ''b'') = Own (Some (js ''2,3'')) \<and> getItem u (js ''valueOf'') = Inherited"
proof -
  have "js ''valueOf'' \<in> set proto_keys" by (simp add: proto_keys_def)
  then show ?thesis
    using storage_survives_reload [of "[(js ''a'', js ''1''), (js ''b'', js ''2,3'')]"] by (auto simp: js_def)
qed

end
