(* ===== verification/UriPath.thy ===== *)
theory UriPath
  imports JsBase
begin

text \<open>
  URIs (\<open>classes/util/URI.js\<close>): the record of a parsed URI, the parts it takes from its base,
  \<open>getURI\<close>, the conversions between absolute and relative paths and \<open>toRelative\<close> of a parsed URI.
  The regular expression that takes a text apart is not modelled; an undefined part is None.
\<close>

section \<open>Paths\<close>

abbreviation slash :: code_unit where
  "slash \<equiv> 0x2F"

abbreviation dot :: ustring where
  "dot \<equiv> [0x2E]"

abbreviation dotdot :: ustring where
  "dotdot \<equiv> [0x2E, 0x2E]"

definition undefined_text :: ustring where
  "undefined_text = js ''undefined''"

text \<open>\<open>s.substring(0, s.lastIndexOf('/'))\<close>\<close>

definition before_last_slash :: "ustring \<Rightarrow> ustring" where
  "before_last_slash s = (if slash \<in> set s then butlast (rev (dropWhile (\<lambda>c. c \<noteq> slash) (rev s))) else [])"

text \<open>The position after the first difference, 0 if there is none.\<close>

definition break_point :: "ustring list \<Rightarrow> ustring list \<Rightarrow> int" where
  "break_point bs xs =
     (let found = (if length bs \<ge> length xs
                   then find (\<lambda>i. i \<ge> length xs \<or> bs ! i \<noteq> xs ! i) [0..<length bs]
                   else find (\<lambda>i. i \<ge> length bs \<or> bs ! i \<noteq> xs ! i) [0..<length xs])
      in case found of Some i \<Rightarrow> int i + 1 | None \<Rightarrow> 0)"

definition item_text :: "ustring list \<Rightarrow> int \<Rightarrow> ustring" where
  "item_text xs i = (if 0 \<le> i \<and> i < int (length xs) then xs ! nat i else undefined_text)"

definition toRelPath :: "ustring \<Rightarrow> ustring \<Rightarrow> ustring" where
  "toRelPath base path =
     (let bs = split_on slash (before_last_slash base);
          xs = split_on slash path;
          bp = break_point bs xs
      in if bp = 1 then path
         else concat (replicate (nat (int (length bs) - (bp - 1))) (dotdot @ [slash]))
              @ concat (map (\<lambda>i. (if i \<noteq> bp - 1 then [slash] else []) @ item_text xs i) [bp - 1..int (length xs) - 1]))"

text \<open>The chunks of the path from the last one back: \<open>nb\<close> parents to skip, \<open>out\<close> what is kept.\<close>

fun merge_chunks :: "ustring list \<Rightarrow> nat \<Rightarrow> ustring list \<Rightarrow> nat \<times> ustring list" where
  "merge_chunks [] nb out = (nb, out)"
| "merge_chunks (p # ps) nb out =
     (if p = [] \<or> p = dot then merge_chunks ps nb out
      else if p = dotdot then merge_chunks ps (nb + 1) out
      else if nb > 0 then merge_chunks ps (nb - 1) out
      else merge_chunks ps nb (out @ [p]))"

definition toAbsPath :: "ustring \<Rightarrow> ustring \<Rightarrow> ustring" where
  "toAbsPath base path =
     (let tr = path \<noteq> [] \<and> last path = slash;
          bs = filter (\<lambda>k. k \<noteq> []) (split_on slash base);
          (nb, out) = merge_chunks (rev (split_on slash path)) 0 [];
          i = int (length bs) - int nb;
          p = (if i \<le> 0 then join_with [slash] (rev out)
               else join_with [slash] (take (nat i) bs) @ [slash] @ join_with [slash] (rev out));
          q = (if p = [] \<or> hd p \<noteq> slash then slash # p else p)
      in if tr \<and> last q \<noteq> slash then q @ [slash] else q)"

section \<open>URIs\<close>

record uri =
  ur_source :: "ustring option"
  ur_protocol :: "ustring option"
  ur_userInfo :: "ustring option"
  ur_host :: "ustring option"
  ur_port :: "ustring option"
  ur_path :: "ustring option"
  ur_query :: "ustring option"
  ur_anchor :: "ustring option"

text \<open>A part counts as missing when it is undefined or empty.\<close>

definition part :: "ustring option \<Rightarrow> ustring" where
  "part p = (case p of Some t \<Rightarrow> t | None \<Rightarrow> [])"

definition mce_host :: ustring where
  "mce_host = js ''mce_host''"

text \<open>The end of the constructor: what a URI takes from its base.\<close>

definition inherit :: "uri option \<Rightarrow> bool \<Rightarrow> uri \<Rightarrow> uri" where
  "inherit base protocolRelative u =
     (let u1 = (case base of None \<Rightarrow> u
                | Some b \<Rightarrow>
                    (let v1 = (if part (ur_protocol u) = [] then u\<lparr>ur_protocol := ur_protocol b\<rparr> else u);
                         v2 = (if part (ur_userInfo v1) = [] then v1\<lparr>ur_userInfo := ur_userInfo b\<rparr> else v1);
                         v3 = (if part (ur_port v2) = [] \<and> ur_host v2 = Some mce_host then v2\<lparr>ur_port := ur_port b\<rparr> else v2);
                         v4 = (if part (ur_host v3) = [] \<or> ur_host v3 = Some mce_host then v3\<lparr>ur_host := ur_host b\<rparr> else v3)
                     in v4\<lparr>ur_source := Some []\<rparr>))
      in if protocolRelative then u1\<lparr>ur_protocol := Some []\<rparr> else u1)"

text \<open>The result and the URI, which keeps the rebuilt text in \<open>source\<close>.\<close>

definition getURI :: "bool \<Rightarrow> uri \<Rightarrow> ustring \<times> uri" where
  "getURI noProtoHost u =
     (if part (ur_source u) = [] \<or> noProtoHost then
        let front = (if noProtoHost then []
                     else (if part (ur_protocol u) \<noteq> [] then part (ur_protocol u) @ js ''://'' else js ''//'')
                          @ (if part (ur_userInfo u) \<noteq> [] then part (ur_userInfo u) @ js ''@'' else [])
                          @ part (ur_host u)
                          @ (if part (ur_port u) \<noteq> [] then js '':'' @ part (ur_port u) else []));
            s = front @ part (ur_path u)
                @ (if part (ur_query u) \<noteq> [] then js ''?'' @ part (ur_query u) else [])
                @ (if part (ur_anchor u) \<noteq> [] then js ''#'' @ part (ur_anchor u) else [])
        in (s, u\<lparr>ur_source := Some s\<rparr>)
      else (part (ur_source u), u))"

text \<open>\<open>toRelative\<close>, of the URI \<open>u\<close> that the constructor made from the argument with the base \<open>self\<close>.\<close>

definition toRelative :: "uri \<Rightarrow> uri \<Rightarrow> ustring" where
  "toRelative self u =
     (if (ur_host u \<noteq> Some mce_host \<and> ur_host self \<noteq> ur_host u \<and> part (ur_host u) \<noteq> [])
         \<or> ur_port self \<noteq> ur_port u
         \<or> (ur_protocol self \<noteq> ur_protocol u \<and> ur_protocol u \<noteq> Some [])
      then fst (getURI False u)
      else
        let tu = fst (getURI False self); uu = fst (getURI False u)
        in if tu = uu \<or> (tu \<noteq> [] \<and> last tu = slash \<and> butlast tu = uu) then tu
           else toRelPath (part (ur_path self)) (part (ur_path u))
                @ (if part (ur_query u) \<noteq> [] then js ''?'' @ part (ur_query u) else [])
                @ (if part (ur_anchor u) \<noteq> [] then js ''#'' @ part (ur_anchor u) else []))"

definition toAbsolute :: "uri \<Rightarrow> bool \<Rightarrow> uri \<Rightarrow> ustring" where
  "toAbsolute self noHost u =
     fst (getURI (ur_host self = ur_host u \<and> ur_protocol self = ur_protocol u \<and> noHost) u)"

section \<open>Joining and splitting\<close>

lemma join_append: "xs \<noteq> [] \<Longrightarrow> ys \<noteq> [] \<Longrightarrow> join_with [d] (xs @ ys) = join_with [d] xs @ d # join_with [d] ys"
proof (induction xs)
  case (Cons x xs)
  obtain y ys' where "ys = y # ys'" using Cons.prems by (cases ys) auto
  then show ?case using Cons by (cases xs) simp_all
qed simp

lemma join_Cons: "ys \<noteq> [] \<Longrightarrow> join_with [d] (x # ys) = x @ d # join_with [d] ys"
  by (cases ys) simp_all

lemma join_concat: "join_with [d] (x # xs) = x @ concat (map ((#) d) xs)"
  by (induction xs arbitrary: x) auto

lemma upto_upt: "[int m..int n - 1] = map int [m..<n]"
proof (induction n)
  case (Suc n)
  show ?case
  proof (cases "m \<le> n")
    case True
    then have "[int m..int n] = [int m..int n - 1] @ [int n]" by (simp add: upto_rec2)
    then show ?thesis using Suc True by simp
  qed simp
qed simp

lemma map_nth_upt: "map (\<lambda>n. f (xs ! n)) [0..<length xs] = map f xs"
  by (rule nth_equalityI) simp_all

lemma before_last_slash_at: "slash \<notin> set b \<Longrightarrow> before_last_slash (a @ slash # b) = a"
proof -
  assume b: "slash \<notin> set b"
  have "dropWhile (\<lambda>c. c \<noteq> slash) (rev b @ slash # rev a) = slash # rev a"
    using b by (subst dropWhile_append2) auto
  then show ?thesis by (simp add: before_last_slash_def)
qed

section \<open>The point where two paths part\<close>

lemma find_least:
  assumes "k < n" and "P k" and "\<And>j. j < k \<Longrightarrow> \<not> P j"
  shows "find P [0..<n] = Some k"
  unfolding find_Some_iff using assms by (intro exI [of _ k]) simp

lemma break_point_common:
  assumes "ds = [] \<or> es = [] \<or> hd ds \<noteq> hd es" and "ds \<noteq> [] \<or> es \<noteq> []"
  shows "break_point (cs @ ds) (cs @ es) = int (length cs) + 1"
proof -
  let ?b = "cs @ ds" and ?x = "cs @ es" and ?k = "length cs"
  have same: "\<not> (j \<ge> length ?x \<or> ?b ! j \<noteq> ?x ! j)" "\<not> (j \<ge> length ?b \<or> ?b ! j \<noteq> ?x ! j)" if "j < ?k" for j
    using that by (auto simp: nth_append)
  have diff: "?k \<ge> length ?x \<or> ?b ! ?k \<noteq> ?x ! ?k" if "length ?b \<ge> length ?x"
    using that assms by (cases es; cases ds) auto
  have diff': "?k \<ge> length ?b \<or> ?b ! ?k \<noteq> ?x ! ?k" if "length ?b < length ?x"
    using that assms by (cases es; cases ds) auto
  show ?thesis
  proof (cases "length ?b \<ge> length ?x")
    case True
    then have "?k < length ?b" using assms by (cases ds) auto
    then have "find (\<lambda>i. i \<ge> length ?x \<or> ?b ! i \<noteq> ?x ! i) [0..<length ?b] = Some ?k"
      using diff [OF True] same(1) by (intro find_least) blast+
    then show ?thesis using True by (simp add: break_point_def)
  next
    case False
    then have "?k < length ?x" using assms by (cases es) auto
    then have "find (\<lambda>i. i \<ge> length ?b \<or> ?b ! i \<noteq> ?x ! i) [0..<length ?x] = Some ?k"
      using diff' False same(2) by (intro find_least) (blast | linarith)+
    then show ?thesis using False by (simp add: break_point_def)
  qed
qed

lemma items_join:
  "concat (map (\<lambda>i. (if i \<noteq> int b then [slash] else []) @ item_text xs i) [int b..int (length xs) - 1]) =
     join_with [slash] (drop b xs)"
proof (cases "b < length xs")
  case True
  have c: "[b..<length xs] = b # [Suc b..<length xs]" using True by (simp add: upt_conv_Cons)
  have t: "map (\<lambda>i. (if i \<noteq> int b then [slash] else []) @ item_text xs i) (map int [Suc b..<length xs]) =
      map ((#) slash) (drop (Suc b) xs)"
    by (rule nth_equalityI) (auto simp: item_text_def nat_int_add nat_add_distrib)
  show ?thesis
    unfolding upto_upt c using t True
    by (simp add: item_text_def join_concat Cons_nth_drop_Suc [OF True, symmetric] del: upt_Suc)
qed simp

text \<open>The relative path: as many parents as the base has left, then the rest of the path.\<close>

lemma toRelPath_common:
  assumes "\<forall>p\<in>set (cs @ ds @ es). slash \<notin> set p" and "ds = [] \<or> es = [] \<or> hd ds \<noteq> hd es" and "es \<noteq> []"
  shows "toRelPath (join_with [slash] ([] # cs @ ds @ [[]])) (join_with [slash] ([] # cs @ es)) =
    concat (replicate (length ds) (dotdot @ [slash])) @ join_with [slash] es"
proof -
  have b: "before_last_slash (join_with [slash] ([] # cs @ ds @ [[]])) = join_with [slash] ([] # cs @ ds)"
    using join_append [of "[] # cs @ ds" "[[]]" slash] before_last_slash_at [of "[]"] by simp
  have bs: "split_on slash (join_with [slash] ([] # cs @ ds)) = [] # cs @ ds"
    and xs: "split_on slash (join_with [slash] ([] # cs @ es)) = [] # cs @ es"
    using assms(1) by (auto intro!: split_join)
  have bp: "break_point ([] # cs @ ds) ([] # cs @ es) = int (length cs) + 2"
    using break_point_common [of ds es "[] # cs"] assms(2,3) by simp
  have i: "concat (map (\<lambda>i. (if i \<noteq> int (length cs) + 1 then [slash] else []) @ item_text ([] # cs @ es) i)
      [int (length cs) + 1..int (length ([] # cs @ es)) - 1]) = join_with [slash] es"
    using items_join [of "Suc (length cs)" "[] # cs @ es"] unfolding int_Suc add.commute [of 1] by simp
  have "int (length cs) + 2 - 1 = int (length cs) + 1" by simp
  then show ?thesis using i unfolding toRelPath_def b bs xs Let_def bp by (simp only:) simp
qed

section \<open>Resolving a relative path\<close>

text \<open>A name of a directory or file: not empty, not a dot or two, without a slash.\<close>

definition name_ok :: "ustring \<Rightarrow> bool" where
  "name_ok p \<longleftrightarrow> p \<noteq> [] \<and> p \<noteq> dot \<and> p \<noteq> dotdot \<and> slash \<notin> set p"

lemma merge_names: "\<forall>p\<in>set ps. name_ok p \<Longrightarrow> merge_chunks (ps @ qs) 0 out = merge_chunks qs 0 (out @ ps)"
  by (induction ps arbitrary: out) (auto simp: name_ok_def)

lemma merge_parents: "merge_chunks (replicate n dotdot) nb out = (nb + n, out)"
  by (induction n arbitrary: nb) auto

lemma parents_join:
  "es \<noteq> [] \<Longrightarrow> concat (replicate n (dotdot @ [slash])) @ join_with [slash] es = join_with [slash] (replicate n dotdot @ es)"
  by (induction n) (simp_all add: join_Cons)

text \<open>The chunks of an absolute path after the first slash: names, the last one possibly empty.\<close>

definition chunks_ok :: "ustring list \<Rightarrow> bool" where
  "chunks_ok xs \<longleftrightarrow> (\<exists>ns tail. xs = ns @ tail \<and> xs \<noteq> [] \<and> (\<forall>p\<in>set ns. name_ok p) \<and> (tail = [] \<or> tail = [[]]))"

lemma join_hd: "\<forall>p\<in>set ns. name_ok p \<Longrightarrow> ns \<noteq> [] \<Longrightarrow> join_with [slash] ns \<noteq> [] \<and> hd (join_with [slash] ns) \<noteq> slash
    \<and> last (join_with [slash] ns) \<noteq> slash"
proof (induction ns)
  case (Cons n ns)
  have m: "n \<noteq> []" "slash \<notin> set n" using Cons.prems(1) by (simp_all add: name_ok_def)
  then have n: "hd n \<noteq> slash" "last n \<noteq> slash" using hd_in_set [of n] last_in_set [of n] by metis+
  show ?case
  proof (cases "ns = []")
    case False
    then have "join_with [slash] ns \<noteq> []" "last (join_with [slash] ns) \<noteq> slash" using Cons by simp_all
    then show ?thesis using False m(1) n by (simp add: join_Cons)
  qed (use m(1) n in simp)
qed simp

lemma toAbsPath_parts:
  assumes "\<forall>p\<in>set (cs @ ds @ ns). name_ok p" and "tail = [] \<or> tail = [[]]" and "ns @ tail \<noteq> []"
  shows "toAbsPath (join_with [slash] ([] # cs @ ds @ [[]])) (join_with [slash] (replicate (length ds) dotdot @ ns @ tail)) =
    join_with [slash] ([] # cs @ ns @ tail)"
proof -
  let ?path = "join_with [slash] (replicate (length ds) dotdot @ ns @ tail)"
  have base: "filter (\<lambda>k. k \<noteq> []) (split_on slash (join_with [slash] ([] # cs @ ds @ [[]]))) = cs @ ds"
    using assms(1) by (subst split_join) (auto simp: name_ok_def filter_id_conv)
  have split: "split_on slash ?path = replicate (length ds) dotdot @ ns @ tail"
  proof (rule split_join)
    have "\<forall>p\<in>set ns. slash \<notin> set p" using assms(1) by (simp add: name_ok_def)
    moreover have "\<forall>p\<in>set tail. slash \<notin> set p" using assms(2) by auto
    ultimately show "\<forall>p\<in>set (replicate (length ds) dotdot @ ns @ tail). slash \<notin> set p" by auto
  qed (use assms(3) in simp)
  have merge: "merge_chunks (rev (split_on slash ?path)) 0 [] = (length ds, rev ns)"
  proof -
    have "\<forall>p\<in>set (rev ns). name_ok p" using assms(1) by simp
    from merge_names [OF this, of "replicate (length ds) dotdot" "[]"]
    have "merge_chunks (rev ns @ replicate (length ds) dotdot) 0 [] = (length ds, rev ns)"
      by (simp only: merge_parents append_Nil add_0)
    then show ?thesis using assms(2) unfolding split
      by (elim disjE) (simp_all only: rev_append rev_replicate rev.simps append_Nil append_Cons append_Nil2 append_assoc merge_chunks.simps simp_thms if_True)
  qed
  have tr: "(?path \<noteq> [] \<and> last ?path = slash) \<longleftrightarrow> tail = [[]] \<and> (ns \<noteq> [] \<or> ds \<noteq> [])"
  proof (cases "tail = [[]]")
    case True
    show ?thesis
    proof (cases "replicate (length ds) dotdot @ ns = []")
      case False
      then have "?path = join_with [slash] (replicate (length ds) dotdot @ ns) @ [slash]"
        using join_append [of "replicate (length ds) dotdot @ ns" "[[]]" slash] True by simp
      then show ?thesis using True False by auto
    qed (use True in auto)
  next
    case False
    then have ns: "tail = []" "ns \<noteq> []" using assms(2,3) by auto
    then have "last ?path = last (join_with [slash] ns)"
      using join_append [of "replicate (length ds) dotdot" ns slash] join_hd [of ns] assms(1) by (cases "ds = []") auto
    then show ?thesis using ns join_hd [of ns] assms(1) by auto
  qed
  show ?thesis
    unfolding toAbsPath_def Let_def base merge prod.case tr
    using join_hd [of cs] join_hd [of ns] assms
    by (cases "cs = []"; cases "ns = []") (auto simp: join_Cons join_append)
qed

lemma split_common:
  "\<exists>cs ds es. xs = cs @ ds \<and> ys = cs @ es \<and> (ds = [] \<or> es = [] \<or> hd ds \<noteq> hd es)"
proof (induction xs arbitrary: ys)
  case (Cons x xs)
  show ?case
  proof (cases "ys \<noteq> [] \<and> hd ys = x")
    case True
    then obtain ys' where "ys = x # ys'" by (cases ys) auto
    moreover obtain cs ds es where "xs = cs @ ds" "ys' = cs @ es" "ds = [] \<or> es = [] \<or> hd ds \<noteq> hd es" using Cons by blast
    ultimately show ?thesis by (intro exI [of _ "x # cs"] exI [of _ ds] exI [of _ es]) simp
  next
    case False
    then show ?thesis by (intro exI [of _ "[]"] exI [of _ "x # xs"] exI [of _ ys]) auto
  qed
qed simp

lemma chunks_suffix:
  assumes "cs @ es = ns @ tail" and "tail = [] \<or> tail = [[]]" and "\<forall>p\<in>set cs. name_ok p" and "es \<noteq> []"
  shows "\<exists>ms. ns = cs @ ms \<and> es = ms @ tail"
proof -
  obtain us where "cs = ns @ us \<and> us @ es = tail \<or> cs @ us = ns \<and> es = us @ tail"
    using append_eq_append_conv2 [THEN iffD1, OF assms(1)] by blast
  then show ?thesis
  proof (elim disjE conjE)
    assume us: "cs = ns @ us" "us @ es = tail"
    have "us = []"
    proof (rule ccontr)
      assume "us \<noteq> []"
      then have "us = [[]]" using us(2) assms(2,4) by (cases us) auto
      then show False using us(1) assms(3) by (simp add: name_ok_def)
    qed
    then show ?thesis using us by auto
  qed blast
qed

section \<open>Properties\<close>

text \<open>C18. Resolving the relative path of an absolute path against the directory it was made for gives the
  path back: for every base directory and every absolute path without empty, dot and double-dot
  chunks (a trailing slash is allowed) that does not just name the base or a directory above it
  without its slash.\<close>

theorem relative_path_resolves:
  assumes "\<forall>p\<in>set dirs. name_ok p" and "\<forall>p\<in>set ns. name_ok p" and "tail = [] \<or> tail = [[]]"
    and "\<And>rest. dirs \<noteq> ns @ tail @ rest"
  defines "base \<equiv> join_with [slash] ([] # dirs @ [[]])"
  defines "path \<equiv> join_with [slash] ([] # ns @ tail)"
  shows "toAbsPath base (toRelPath base path) = path"
proof -
  obtain cs ds es where c: "dirs = cs @ ds" "ns @ tail = cs @ es" "ds = [] \<or> es = [] \<or> hd ds \<noteq> hd es"
    using split_common by blast
  have es: "es \<noteq> []" using assms(4) [of ds] c(1,2) by auto
  obtain ms where ms: "ns = cs @ ms" "es = ms @ tail"
    using chunks_suffix [OF c(2) [symmetric] assms(3) _ es] assms(1) c(1) by auto
  have sl: "\<forall>p\<in>set (cs @ ds @ es). slash \<notin> set p"
  proof -
    have "\<forall>p\<in>set tail. slash \<notin> set p" using assms(3) by auto
    moreover have "\<forall>p\<in>set (cs @ ds @ ms). slash \<notin> set p" using assms(1,2) c(1) ms(1) by (auto simp: name_ok_def)
    ultimately show ?thesis using ms(2) by auto
  qed
  have "toRelPath base path = join_with [slash] (replicate (length ds) dotdot @ ms @ tail)"
    using toRelPath_common [OF sl c(3) es] parents_join [OF es] c ms by (simp add: base_def path_def)
  moreover have "\<forall>p\<in>set (cs @ ds @ ms). name_ok p" using assms(1,2) c(1) ms(1) by auto
  ultimately show ?thesis
    using toAbsPath_parts [of cs ds ms tail] assms(3) es ms c(1) by (simp add: base_def path_def)
qed

theorem relative_path_resolves_witness:
  "toAbsPath (js ''/a/b/'') (toRelPath (js ''/a/b/'') (js ''/a/c/'')) = js ''/a/c/''"
proof -
  have "js ''/a/b/'' = join_with [slash] ([] # [js ''a'', js ''b''] @ [[]])"
    "js ''/a/c/'' = join_with [slash] ([] # [js ''a'', js ''c''] @ [[]])" by (simp_all add: js_def)
  moreover have "name_ok (js ''a'')" "name_ok (js ''b'')" "name_ok (js ''c'')" by (simp_all add: name_ok_def js_def)
  ultimately show ?thesis
    using relative_path_resolves [of "[js ''a'', js ''b'']" "[js ''a'', js ''c'']" "[[]]"] by (simp add: js_def)
qed

text \<open>The relative path of the base directory itself, named without its slash, is garbage: one parent
  too many and the text undefined. \<open>toRelative\<close> is guarded against it only for a URI without query,
  so that a URI of the directory with a query comes out that way.\<close>

lemma own_directory_undefined:
  assumes "\<forall>p\<in>set dirs. name_ok p" and "part q \<noteq> []" and "part (ur_source self) = []"
    and "part (ur_query self) = []" and "part (ur_anchor self) = []"
    and "ur_path self = Some (join_with [slash] ([] # dirs @ [[]]))"
  shows "toRelative self (self\<lparr>ur_path := Some (join_with [slash] ([] # dirs)), ur_query := q\<rparr>) =
    concat (replicate (length dirs + 2) (dotdot @ [slash])) @ undefined_text @ slash # join_with [slash] ([] # dirs) @ js ''?'' @ part q"
proof -
  let ?u = "self\<lparr>ur_path := Some (join_with [slash] ([] # dirs)), ur_query := q\<rparr>"
  let ?d = "join_with [slash] ([] # dirs)"
  have base: "join_with [slash] ([] # dirs @ [[]]) = ?d @ [slash]" using join_append [of "[] # dirs" "[[]]" slash] by simp
  have sp: "split_on slash ?d = [] # dirs" using assms(1) by (intro split_join) (auto simp: name_ok_def)
  have bp: "break_point ([] # dirs) ([] # dirs) = 0"
  proof -
    have "find (\<lambda>i. i \<ge> length ([] # dirs) \<or> ([] # dirs) ! i \<noteq> ([] # dirs) ! i) [0..<length ([] # dirs)] = None"
      unfolding find_None_iff by auto
    then show ?thesis by (simp only: break_point_def Let_def order_refl if_True option.case)
  qed
  have i: "[- 1..int (length dirs)] = -1 # [0..int (length dirs)]" by (subst upto_rec1) simp_all
  have j: "map (\<lambda>i. (if i \<noteq> -1 then [slash] else []) @ item_text ([] # dirs) i) [0..int (length dirs)] = map ((#) slash) ([] # dirs)"
  proof -
    have "[0..int (length dirs)] = map int [0..<length ([] # dirs)]" using upto_upt [of 0 "length ([] # dirs)"] by simp
    moreover have "map (\<lambda>n. slash # ([] # dirs) ! n) [0..<length ([] # dirs)] = map ((#) slash) ([] # dirs)"
      by (rule map_nth_upt)
    moreover have "map ((\<lambda>i. (if i \<noteq> -1 then [slash] else []) @ item_text ([] # dirs) i) \<circ> int) [0..<length ([] # dirs)] =
        map (\<lambda>n. slash # ([] # dirs) ! n) [0..<length ([] # dirs)]" by (rule map_cong) (auto simp: item_text_def)
    ultimately show ?thesis by (simp only: map_map)
  qed
  have rel: "toRelPath (?d @ [slash]) ?d =
      concat (replicate (length dirs + 2) (dotdot @ [slash])) @ undefined_text @ slash # ?d"
  proof -
    have bl: "before_last_slash (?d @ [slash]) = ?d" using before_last_slash_at [of "[]" ?d] by simp
    have n: "nat (int (length ([] # dirs)) - (0 - 1)) = length dirs + 2" by simp
    have idx: "[0 - 1..int (length ([] # dirs)) - 1] = -1 # [0..int (length dirs)]" using i by simp
    have m: "map (\<lambda>i. (if i \<noteq> 0 - 1 then [slash] else []) @ item_text ([] # dirs) i) (-1 # [0..int (length dirs)]) =
        undefined_text # map ((#) slash) ([] # dirs)" using j by (simp add: item_text_def)
    have "concat (map ((#) slash) ([] # dirs)) = slash # ?d" by (simp add: join_concat)
    then show ?thesis unfolding toRelPath_def bl sp Let_def bp n idx m by simp
  qed
  obtain front where f: "fst (getURI False self) = front @ ?d @ [slash]" "fst (getURI False ?u) = front @ ?d @ js ''?'' @ part q"
    using assms(2-6) base by (simp add: getURI_def Let_def part_def)
  have "fst (getURI False self) \<noteq> fst (getURI False ?u)" "butlast (fst (getURI False self)) \<noteq> fst (getURI False ?u)"
    by (simp_all add: f butlast_append js_def)
  then show ?thesis using assms(2,5,6) rel base by (simp add: toRelative_def Let_def part_def)
qed


end
