(* ===== verification/Observable.thy ===== *)
theory Observable
  imports Tools
begin

text \<open>
  Events of the editor (\<open>classes/util/Observable.js\<close>): binding, unbinding and firing. The arrays of
  listeners are objects of their own with an address, because an array that is being fired may be
  changed by a listener. Listeners are numbers; what a listener does is a parameter \<open>beh\<close>, a
  function of the object it is called on, the event and the world of all observable objects, that
  gives the new event and world and whether the listener returned false. None stands for a
  TypeError. Names of events are not those of properties that every object inherits.
\<close>

section \<open>Objects and events\<close>

record observable =
  ob_bindings :: "(ustring \<times> nat) list option"
  ob_arrays :: "nat \<Rightarrow> nat option list"
  ob_fresh :: nat
  ob_hasNative :: bool
  ob_native :: "ustring list"

definition init_observable :: "bool \<Rightarrow> observable" where
  "init_observable hasNative = \<lparr>ob_bindings = None, ob_arrays = (\<lambda>_. []), ob_fresh = 0, ob_hasNative = hasNative, ob_native = []\<rparr>"

type_synonym world = "nat \<Rightarrow> observable"

record event_args =
  ea_type :: ustring
  ea_target :: nat
  ea_prevented :: bool
  ea_stopped :: bool
  ea_immediate :: bool

type_synonym behaviour = "nat \<Rightarrow> nat \<Rightarrow> event_args \<Rightarrow> world \<Rightarrow> event_args \<times> world \<times> bool"

definition nativeEvents :: "ustring \<rightharpoonup> unit" where
  "nativeEvents = makeMap_str (js (''focusin focusout click dblclick mousedown mouseup mousemove mouseover beforepaste paste cut copy selectionchange''
     @ '' mouseout mouseenter mouseleave keydown keypress keyup contextmenu dragstart dragend dragover draggesture dragdrop drop drag'')) 0x20"

section \<open>Binding\<close>

definition bind_one :: "nat \<Rightarrow> ustring \<Rightarrow> observable \<Rightarrow> observable" where
  "bind_one cb name ob =
     (let bs = (case ob_bindings ob of Some m \<Rightarrow> m | None \<Rightarrow> [])
      in case map_of bs name of
           Some a \<Rightarrow> ob\<lparr>ob_bindings := Some bs, ob_arrays := (ob_arrays ob)(a := ob_arrays ob a @ [Some cb])\<rparr>
         | None \<Rightarrow>
             ob\<lparr>ob_bindings := Some (bs @ [(name, ob_fresh ob)]), ob_fresh := Suc (ob_fresh ob),
                ob_arrays := (ob_arrays ob)(ob_fresh ob := [Some cb]),
                ob_native := (if ob_hasNative ob \<and> nativeEvents name \<noteq> None then ob_native ob @ [name] else ob_native ob)\<rparr>)"

definition on :: "ustring \<Rightarrow> nat option \<Rightarrow> observable \<Rightarrow> observable" where
  "on name callback ob =
     (case callback of None \<Rightarrow> ob
      | Some cb \<Rightarrow> fold (bind_one cb) (rev (split_on 0x20 (to_lower_case name))) ob)"

section \<open>Unbinding\<close>

definition unbind_listed :: "nat option \<Rightarrow> nat option list \<Rightarrow> nat option list" where
  "unbind_listed callback hs = (case callback of None \<Rightarrow> [] | Some cb \<Rightarrow> filter (\<lambda>h. h \<noteq> Some cb) hs)"

text \<open>The listeners of one name. The loop over the names ends early at an empty one.\<close>

fun off_names :: "nat option \<Rightarrow> ustring list \<Rightarrow> observable \<Rightarrow> observable option" where
  "off_names callback [] ob = Some ob"
| "off_names callback (name # names) ob =
     (case ob_bindings ob of
        None \<Rightarrow> Some ob
      | Some bs \<Rightarrow>
          if name = [] then
            (if bs = [] then Some ob
             else case map_of bs [] of None \<Rightarrow> None
                  | Some a \<Rightarrow> Some (ob\<lparr>ob_arrays := (ob_arrays ob)(a := [])\<rparr>))
          else
            (case map_of bs name of
               None \<Rightarrow> off_names callback names ob
             | Some a \<Rightarrow>
                 (let hs = unbind_listed callback (ob_arrays ob a);
                      ob1 = ob\<lparr>ob_arrays := (ob_arrays ob)(a := hs)\<rparr>;
                      ob2 = (if hs = [] \<and> ob_hasNative ob \<and> nativeEvents name \<noteq> None
                             then ob1\<lparr>ob_native := filter (\<lambda>n. n \<noteq> name) (ob_native ob1),
                                      ob_bindings := Some (filter (\<lambda>(n, _). n \<noteq> name) bs)\<rparr> else ob1)
                  in off_names callback names ob2)))"

text \<open>\<open>name\<close> is None (or empty) for unbinding everything.\<close>

definition off :: "ustring option \<Rightarrow> nat option \<Rightarrow> observable \<Rightarrow> observable option" where
  "off name callback ob =
     (case ob_bindings ob of
        None \<Rightarrow> Some ob
      | Some bs \<Rightarrow>
          (case name of
             Some (c # cs) \<Rightarrow> off_names callback (rev (split_on 0x20 (to_lower_case (c # cs)))) ob
           | _ \<Rightarrow> Some (ob\<lparr>ob_bindings := Some [],
                          ob_native := (if ob_hasNative ob then filter (\<lambda>n. map_of bs n = None) (ob_native ob) else ob_native ob)\<rparr>)))"

definition listeners :: "observable \<Rightarrow> ustring \<Rightarrow> nat option list" where
  "listeners ob name = (case ob_bindings ob of None \<Rightarrow> []
     | Some bs \<Rightarrow> (case map_of bs name of None \<Rightarrow> [] | Some a \<Rightarrow> ob_arrays ob a))"

definition hasEventListeners :: "ustring \<Rightarrow> observable \<Rightarrow> bool" where
  "hasEventListeners name ob \<longleftrightarrow> listeners ob (to_lower_case name) \<noteq> []"

section \<open>Firing\<close>

text \<open>
  The calls made so far, the event and the world; \<open>Broken\<close>: a listener returned false; \<open>Raised\<close>: a
  place of the array that holds no listener was called.
\<close>

type_synonym run = "(nat \<times> nat) list \<times> event_args \<times> world"

datatype outcome = Finished run | Broken run | Raised "(nat \<times> nat) list"

text \<open>\<open>handlers[i] = handlers[i]\<close> extends an array that has become shorter.\<close>

definition touch :: "nat \<Rightarrow> nat option list \<Rightarrow> nat option list" where
  "touch i hs = (if i < length hs then hs else hs @ replicate (Suc i - length hs) None)"

definition set_array :: "nat \<Rightarrow> nat \<Rightarrow> nat option list \<Rightarrow> world \<Rightarrow> world" where
  "set_array self a hs w = w(self := (w self)\<lparr>ob_arrays := (ob_arrays (w self))(a := hs)\<rparr>)"

fun fire_loop :: "behaviour \<Rightarrow> nat \<Rightarrow> nat \<Rightarrow> nat \<Rightarrow> nat \<Rightarrow> run \<Rightarrow> outcome" where
  "fire_loop beh self a i 0 r = Finished r"
| "fire_loop beh self a i (Suc n) (calls, e, w) =
     (let hs = touch i (ob_arrays (w self) a);
          w1 = set_array self a hs w
      in if ea_immediate e then Finished (calls, e, w1)
         else case hs ! i of
                None \<Rightarrow> Raised calls
              | Some cb \<Rightarrow>
                  (case beh cb self e w1 of (e', w', false) \<Rightarrow>
                     if false then Broken (calls @ [(self, cb)], e'\<lparr>ea_prevented := True\<rparr>, w')
                     else fire_loop beh self a (Suc i) n (calls @ [(self, cb)], e', w')))"

definition fire_local :: "behaviour \<Rightarrow> nat \<Rightarrow> ustring \<Rightarrow> run \<Rightarrow> outcome" where
  "fire_local beh self name = (\<lambda>(calls, e, w).
     (case (case ob_bindings (w self) of None \<Rightarrow> None | Some bs \<Rightarrow> map_of bs name) of
        None \<Rightarrow> Finished (calls, e, w)
      | Some a \<Rightarrow> fire_loop beh self a 0 (length (ob_arrays (w self) a)) (calls, e, w)))"

text \<open>Bubbling to the parents goes on although a listener of a parent returned false.\<close>

fun fire_parents :: "behaviour \<Rightarrow> nat list \<Rightarrow> ustring \<Rightarrow> run \<Rightarrow> outcome" where
  "fire_parents beh [] name r = Finished r"
| "fire_parents beh (p # ps) name (calls, e, w) =
     (if ea_stopped e then Finished (calls, e, w)
      else case fire_local beh p name (calls, e, w) of
             Raised c \<Rightarrow> Raised c
           | Finished r \<Rightarrow> fire_parents beh ps name r
           | Broken r \<Rightarrow> fire_parents beh ps name r)"

text \<open>\<open>parents\<close>: the chain of parents from the nearest on.\<close>

definition fire_event :: "behaviour \<Rightarrow> nat list \<Rightarrow> nat \<Rightarrow> ustring \<Rightarrow> bool \<Rightarrow> world \<Rightarrow> outcome" where
  "fire_event beh parents self name bubble w =
     (let nm = to_lower_case name;
          e = \<lparr>ea_type = nm, ea_target = self, ea_prevented = False, ea_stopped = False, ea_immediate = False\<rparr>
      in case fire_local beh self nm ([], e, w) of
           Finished r \<Rightarrow> if bubble then fire_parents beh parents nm r else Finished r
         | other \<Rightarrow> other)"

section \<open>Bindings\<close>

text \<open>Every name has an array of its own.\<close>

definition ob_ok :: "observable \<Rightarrow> bool" where
  "ob_ok ob \<longleftrightarrow> (case ob_bindings ob of None \<Rightarrow> True
     | Some bs \<Rightarrow> distinct (map fst bs) \<and> distinct (map snd bs) \<and> (\<forall>a\<in>snd ` set bs. a < ob_fresh ob))"

lemma map_of_snd: "map_of bs n = Some a \<Longrightarrow> a \<in> snd ` set bs"
  by (force dest: map_of_SomeD)

lemma ob_ok_separate:
  assumes "distinct (map snd bs)" and "map_of bs n = Some a" and "map_of bs m = Some a"
  shows "n = m"
  using assms by (induction bs) (auto split: if_splits dest: map_of_snd)

lemma map_of_app: "map_of (bs @ [(n, a)]) m = (case map_of bs m of Some b \<Rightarrow> Some b | None \<Rightarrow> if m = n then Some a else None)"
  by (induction bs) auto

lemma bind_one_ok: "ob_ok ob \<Longrightarrow> ob_ok (bind_one cb name ob)"
  by (force simp: ob_ok_def bind_one_def Let_def map_of_eq_None_iff split: option.splits)

lemma bind_one_listeners:
  assumes "ob_ok ob"
  shows "listeners (bind_one cb name ob) m = listeners ob m @ (if m = name then [Some cb] else [])"
proof (cases "ob_bindings ob")
  case None
  then show ?thesis by (simp add: listeners_def bind_one_def)
next
  case (Some bs)
  have ok: "distinct (map snd bs)" "\<And>n a. map_of bs n = Some a \<Longrightarrow> a < ob_fresh ob"
    using assms Some map_of_snd by (fastforce simp: ob_ok_def)+
  show ?thesis
  proof (cases "map_of bs name")
    case None
    then show ?thesis using Some ok(2) by (auto simp: listeners_def bind_one_def map_of_app split: option.splits)
  next
    case (Some a)
    then show ?thesis using \<open>ob_bindings ob = Some bs\<close> ob_ok_separate [OF ok(1)]
      by (auto simp: listeners_def bind_one_def split: option.splits)
  qed
qed

text \<open>A name as the functions use it: one word in lower case.\<close>

definition event_name :: "ustring \<Rightarrow> bool" where
  "event_name n \<longleftrightarrow> n \<noteq> [] \<and> 0x20 \<notin> set n \<and> to_lower_case n = n"

lemma off_one:
  assumes "event_name name"
  shows "off (Some name) (Some cb) ob = off_names (Some cb) [name] ob"
  using assms by (cases name; cases "ob_bindings ob") (auto simp: off_def event_name_def split_on_id)

lemma off_listeners:
  assumes "ob_ok ob" and "event_name name"
  shows "\<exists>ob'. off (Some name) (Some cb) ob = Some ob' \<and> ob_ok ob'
    \<and> (\<forall>m. listeners ob' m = (if m = name then filter (\<lambda>h. h \<noteq> Some cb) (listeners ob m) else listeners ob m))"
proof (cases "ob_bindings ob")
  case None
  then show ?thesis using assms by (simp add: off_one listeners_def)
next
  case (Some bs)
  have ok: "distinct (map fst bs)" "distinct (map snd bs)" using assms(1) Some by (simp_all add: ob_ok_def)
  have n: "name \<noteq> []" using assms(2) by (simp add: event_name_def)
  show ?thesis
  proof (cases "map_of bs name")
    case None
    then show ?thesis using Some assms n by (auto simp: off_one listeners_def)
  next
    case (Some a)
    note b = \<open>ob_bindings ob = Some bs\<close>
    let ?hs = "filter (\<lambda>h. h \<noteq> Some cb) (ob_arrays ob a)"
    let ?ob1 = "ob\<lparr>ob_arrays := (ob_arrays ob)(a := ?hs)\<rparr>"
    let ?ob2 = "if ?hs = [] \<and> ob_hasNative ob \<and> nativeEvents name \<noteq> None
      then ?ob1\<lparr>ob_native := filter (\<lambda>n. n \<noteq> name) (ob_native ?ob1), ob_bindings := Some (filter (\<lambda>(n, _). n \<noteq> name) bs)\<rparr> else ?ob1"
    have o: "off (Some name) (Some cb) ob = Some ?ob2"
      using b Some n assms(2) by (simp add: off_one unbind_listed_def Let_def)
    have "ob_ok ?ob2" using assms(1) b by (auto simp: ob_ok_def distinct_map_filter)
    moreover have "listeners ?ob2 m = (if m = name then filter (\<lambda>h. h \<noteq> Some cb) (listeners ob m) else listeners ob m)" for m
    proof -
      have f: "map_of (filter (\<lambda>(n, _). n \<noteq> name) bs) m = (if m = name then None else map_of bs m)"
        by (induction bs) auto
      show ?thesis
      proof (cases "m = name")
        case True
        have g: "map_of (filter (\<lambda>(n, _). n \<noteq> name) bs) name = None" using f True by simp
        show ?thesis unfolding True using b Some by (simp add: listeners_def g)
      next
        case False
        have "c \<noteq> a" if "map_of bs m = Some c" for c using that ob_ok_separate [OF ok(2) Some] False by blast
        then show ?thesis using b False by (cases "map_of bs m") (simp_all add: listeners_def f)
      qed
    qed
    ultimately show ?thesis using o by blast
  qed
qed

section \<open>Firing\<close>

text \<open>Listeners that change neither the bindings nor the propagation.\<close>

definition harmless :: "behaviour \<Rightarrow> bool" where
  "harmless beh \<longleftrightarrow> (\<forall>cb self e w. \<exists>e'. beh cb self e w = (e', w, False)
     \<and> ea_immediate e' = ea_immediate e \<and> ea_stopped e' = ea_stopped e)"

lemma set_array_same: "set_array self a (ob_arrays (w self) a) w = w"
  by (rule ext) (simp add: set_array_def)

lemma fire_loop_harmless:
  assumes "harmless beh" and "\<forall>h\<in>set (ob_arrays (w self) a). h \<noteq> None" and "\<not> ea_immediate e"
  shows "i + n = length (ob_arrays (w self) a) \<Longrightarrow>
    \<exists>e'. fire_loop beh self a i n (calls, e, w) =
      Finished (calls @ map (\<lambda>h. (self, the h)) (drop i (ob_arrays (w self) a)), e', w)
      \<and> \<not> ea_immediate e' \<and> ea_stopped e' = ea_stopped e"
  using assms(3)
proof (induction n arbitrary: i calls e)
  case (Suc n)
  let ?hs = "ob_arrays (w self) a"
  have i: "i < length ?hs" using Suc.prems(1) by simp
  then have t: "touch i ?hs = ?hs" by (simp add: touch_def)
  obtain cb where cb: "?hs ! i = Some cb" using assms(2) i nth_mem by blast
  obtain e' where e': "beh cb self e w = (e', w, False)" "ea_immediate e' = ea_immediate e" "ea_stopped e' = ea_stopped e"
    using assms(1) unfolding harmless_def by blast
  have f: "fire_loop beh self a i (Suc n) (calls, e, w) = fire_loop beh self a (Suc i) n (calls @ [(self, cb)], e', w)"
    using Suc.prems(2) by (simp add: t cb set_array_same e')
  have d: "drop i ?hs = Some cb # drop (Suc i) ?hs" using i cb by (metis Cons_nth_drop_Suc)
  obtain e2 where "fire_loop beh self a (Suc i) n (calls @ [(self, cb)], e', w) =
      Finished ((calls @ [(self, cb)]) @ map (\<lambda>h. (self, the h)) (drop (Suc i) ?hs), e2, w)"
      "\<not> ea_immediate e2" "ea_stopped e2 = ea_stopped e'"
    using Suc.IH [of "Suc i" e' "calls @ [(self, cb)]"] Suc.prems e' by auto
  then show ?case using f d e'(3) by simp
qed simp

lemma fire_local_harmless:
  assumes "harmless beh" and "\<forall>h\<in>set (listeners (w self) name). h \<noteq> None" and "\<not> ea_immediate e"
  shows "\<exists>e'. fire_local beh self name (calls, e, w) =
      Finished (calls @ map (\<lambda>h. (self, the h)) (listeners (w self) name), e', w)
      \<and> \<not> ea_immediate e' \<and> ea_stopped e' = ea_stopped e"
proof (cases "case ob_bindings (w self) of None \<Rightarrow> None | Some bs \<Rightarrow> map_of bs name")
  case None
  then have "listeners (w self) name = []" by (auto simp: listeners_def split: option.splits)
  then show ?thesis using None assms(3) by (simp add: fire_local_def)
next
  case (Some a)
  then have l: "listeners (w self) name = ob_arrays (w self) a" by (auto simp: listeners_def split: option.splits)
  then show ?thesis
    using fire_loop_harmless [OF assms(1), of w self a e 0 "length (ob_arrays (w self) a)" calls] Some assms(2,3)
    by (simp add: fire_local_def)
qed

lemma fire_parents_harmless:
  assumes "harmless beh" and "\<forall>p\<in>set ps. \<forall>h\<in>set (listeners (w p) name). h \<noteq> None"
  shows "\<not> ea_immediate e \<Longrightarrow> \<not> ea_stopped e \<Longrightarrow>
    \<exists>e'. fire_parents beh ps name (calls, e, w) =
      Finished (calls @ concat (map (\<lambda>p. map (\<lambda>h. (p, the h)) (listeners (w p) name)) ps), e', w)"
  using assms(2)
proof (induction ps arbitrary: calls e)
  case (Cons p ps)
  obtain e' where e': "fire_local beh p name (calls, e, w) = Finished (calls @ map (\<lambda>h. (p, the h)) (listeners (w p) name), e', w)"
    "\<not> ea_immediate e'" "ea_stopped e' = ea_stopped e"
    using fire_local_harmless [OF assms(1), of w p name e calls] Cons.prems by auto
  then show ?case using Cons.IH [of e' "calls @ map (\<lambda>h. (p, the h)) (listeners (w p) name)"] Cons.prems by simp
qed simp

section \<open>Properties\<close>

text \<open>Binding appends the listener to those of the named event and leaves all other events alone;
  unbinding it removes every occurrence of it and nothing else, so that unbinding a listener that
  was not bound before undoes its binding.\<close>

lemma on_off_listeners:
  assumes "ob_ok ob" and "event_name name"
  shows "\<exists>ob'. off (Some name) (Some cb) (on name (Some cb) ob) = Some ob' \<and> ob_ok ob'
    \<and> listeners (on name (Some cb) ob) name = listeners ob name @ [Some cb]
    \<and> hasEventListeners name (on name (Some cb) ob)
    \<and> listeners ob' name = filter (\<lambda>h. h \<noteq> Some cb) (listeners ob name)
    \<and> (\<forall>m. m \<noteq> name \<longrightarrow> listeners (on name (Some cb) ob) m = listeners ob m \<and> listeners ob' m = listeners ob m)"
proof -
  have o: "on name (Some cb) ob = bind_one cb name ob"
    using assms(2) by (simp add: on_def event_name_def split_on_id)
  have n: "to_lower_case name = name" using assms(2) by (simp add: event_name_def)
  obtain ob' where "off (Some name) (Some cb) (bind_one cb name ob) = Some ob'" "ob_ok ob'"
    "\<forall>m. listeners ob' m = (if m = name then filter (\<lambda>h. h \<noteq> Some cb) (listeners (bind_one cb name ob) m)
      else listeners (bind_one cb name ob) m)"
    using off_listeners [OF bind_one_ok [OF assms(1)] assms(2)] by blast
  then show ?thesis unfolding o
    by (intro exI [of _ ob']) (simp add: bind_one_listeners [OF assms(1)] hasEventListeners_def n)
qed


text \<open>An event is delivered to the listeners of the object in the order they were bound, then to those
  of its parents from the nearest on, each exactly once, when no listener interferes.\<close>

lemma fire_in_order:
  assumes "harmless beh" and "\<forall>p\<in>set (self # parents). \<forall>h\<in>set (listeners (w p) (to_lower_case name)). h \<noteq> None"
  shows "\<exists>e. fire_event beh parents self name True w =
    Finished (concat (map (\<lambda>p. map (\<lambda>h. (p, the h)) (listeners (w p) (to_lower_case name))) (self # parents)), e, w)"
proof -
  let ?n = "to_lower_case name"
  let ?e = "\<lparr>ea_type = ?n, ea_target = self, ea_prevented = False, ea_stopped = False, ea_immediate = False\<rparr>"
  obtain e' where e': "fire_local beh self ?n ([], ?e, w) = Finished (map (\<lambda>h. (self, the h)) (listeners (w self) ?n), e', w)"
    "\<not> ea_immediate e'" "\<not> ea_stopped e'"
    using fire_local_harmless [OF assms(1), of w self ?n ?e "[]"] assms(2) by auto
  then show ?thesis
    using fire_parents_harmless [OF assms(1), of parents w ?n e' "map (\<lambda>h. (self, the h)) (listeners (w self) ?n)"] assms(2)
    by (simp add: fire_event_def Let_def)
qed

definition sample_world :: world where
  "sample_world = (\<lambda>o'. on (js ''click'') (Some (o' + 1)) (init_observable False))"


text \<open>A listener that unbinds itself while the event is fired breaks the delivery: with two listeners
  bound, the first of which unbinds itself, the second is not called and a TypeError is raised.\<close>

lemma unbind_while_firing_raises:
  assumes "ob_ok (w self)" and "event_name name" and "listeners (w self) name = [Some c1, Some c2]" and "c1 \<noteq> c2"
    and "\<And>e v. beh c1 self e v = (e, v(self := the (off (Some name) (Some c1) (v self))), False)"
  shows "fire_event beh parents self name bubble w = Raised [(self, c1)]"
proof -
  have n: "name \<noteq> []" "to_lower_case name = name" using assms(2) by (simp_all add: event_name_def)
  obtain bs a where a: "ob_bindings (w self) = Some bs" "map_of bs name = Some a" "ob_arrays (w self) a = [Some c1, Some c2]"
    using assms(3) by (auto simp: listeners_def split: option.splits)
  have o: "off (Some name) (Some c1) (w self) = Some ((w self)\<lparr>ob_arrays := (ob_arrays (w self))(a := [Some c2])\<rparr>)"
    using a n assms(2,4) by (simp add: off_one unbind_listed_def Let_def)
  have s: "set_array self a [Some c1, Some c2] w = w" using set_array_same [of self a w] a(3) by simp
  have "fire_loop beh self a 0 2 ([], e, w) = Raised [(self, c1)]" if "\<not> ea_immediate e" for e
    unfolding numeral_2_eq_2 using that a(3) by (simp add: touch_def s assms(5) o)
  then show ?thesis using a n(2) by (simp add: fire_event_def fire_local_def Let_def numeral_2_eq_2)
qed


end
