(* ===== verification/TableGrid.thy ===== *)
theory TableGrid
  imports JsBase
begin

text \<open>
  The grid of a table (\<open>plugins/table/classes/TableGrid.js\<close>): the table in the document and the grid
  of slots that its cells cover by their spans. Cells and rows are objects: they are named by
  numbers, and the state holds a store of the cells (their attributes and children) and of the rows
  (their cells). The document holds the rows of the sections of the table; an object that was removed
  from it stays in its store. The grid is a sparse array of sparse rows. None is a TypeError.

  Assumptions on the document: a section holds only rows and a row only cells, tables are not
  nested, and the span attributes are decimal integers.
\<close>

section \<open>The table\<close>

datatype tpart = THead | TBody | TFoot

text \<open>The nodes in a cell. \<open>CBogus\<close> is the element \<open><br data-mce-bogus="1">\<close>.\<close>

datatype cnode = CText string | CBogus | CElem string "(string \<times> string) list" "cnode list"

text \<open>A cell: its name and attributes, with the spans and the class \<open>mce-item-selected\<close> apart.\<close>

record cell =
  ce_name :: string
  ce_attrs :: "(string \<times> string) list"
  ce_rowspan :: "int option"
  ce_colspan :: "int option"
  ce_selected :: bool
  ce_content :: "cnode list"

text \<open>The object the grid holds in a slot.\<close>

record gcell =
  gc_part :: tpart
  gc_real :: bool
  gc_elm :: nat
  gc_rowspan :: int
  gc_colspan :: int

type_synonym grid = "gcell option list option list"

text \<open>
  The state of the class and of the table in the document: \<open>tg_formats\<close> and \<open>tg_ie\<close> are the settings of
  the editor (\<open>cloneFormats\<close> and \<open>Env.ie\<close>), the last two fields what happens to the table and
  the caret. \<open>tg_build\<close> counts the grids that were built: \<open>selectedCell\<close> is a slot of one grid, and
  no slot of a later grid is the same object.
\<close>

record tgrid =
  tg_sections :: "(tpart \<times> nat list) list"
  tg_rows :: "nat \<Rightarrow> nat list"
  tg_cells :: "nat \<Rightarrow> cell"
  tg_fresh :: nat
  tg_formats :: "string list"
  tg_ie :: bool
  tg_grid :: grid
  tg_build :: nat
  tg_startPos :: "(nat \<times> nat) option"
  tg_endPos :: "(nat \<times> nat) option"
  tg_selectedCell :: "(nat \<times> nat \<times> nat \<times> nat) option"
  tg_removed :: bool
  tg_caret :: "nat option"

definition getSpanVal :: "int option \<Rightarrow> int" where
  "getSpanVal attr = (case attr of Some v \<Rightarrow> v | None \<Rightarrow> 1)"

definition span_attr :: "int \<Rightarrow> int option" where
  "span_attr v = (if v = 1 then None else Some v)"

definition rowspan_of :: "tgrid \<Rightarrow> nat \<Rightarrow> int" where
  "rowspan_of s td = getSpanVal (ce_rowspan (tg_cells s td))"

definition colspan_of :: "tgrid \<Rightarrow> nat \<Rightarrow> int" where
  "colspan_of s td = getSpanVal (ce_colspan (tg_cells s td))"

definition upd_cell :: "nat \<Rightarrow> (cell \<Rightarrow> cell) \<Rightarrow> tgrid \<Rightarrow> tgrid" where
  "upd_cell td f s = s\<lparr>tg_cells := (tg_cells s)(td := f (tg_cells s td))\<rparr>"

definition setRowSpan :: "nat \<Rightarrow> int \<Rightarrow> tgrid \<Rightarrow> tgrid" where
  "setRowSpan td v = upd_cell td (\<lambda>c. c\<lparr>ce_rowspan := span_attr v\<rparr>)"

definition setColSpan :: "nat \<Rightarrow> int \<Rightarrow> tgrid \<Rightarrow> tgrid" where
  "setColSpan td v = upd_cell td (\<lambda>c. c\<lparr>ce_colspan := span_attr v\<rparr>)"

text \<open>The rows of the parts in the order the grid takes them.\<close>

definition rows_of :: "tpart \<Rightarrow> (tpart \<times> nat list) list \<Rightarrow> nat list" where
  "rows_of p secs = concat (map snd (filter (\<lambda>(q, _). q = p) secs))"

definition part_rows :: "(tpart \<times> nat list) list \<Rightarrow> (tpart \<times> nat) list" where
  "part_rows secs = map (Pair THead) (rows_of THead secs) @ map (Pair TBody) (rows_of TBody secs) @ map (Pair TFoot) (rows_of TFoot secs)"

section \<open>Building the grid\<close>

text \<open>Writing at an index beyond the end leaves holes.\<close>

definition put_at :: "'a \<Rightarrow> 'a list \<Rightarrow> nat \<Rightarrow> 'a \<Rightarrow> 'a list" where
  "put_at hole xs i v = (if i < length xs then xs[i := v] else xs @ replicate (i - length xs) hole @ [v])"

definition row_at :: "grid \<Rightarrow> nat \<Rightarrow> gcell option list" where
  "row_at g y = (case nth_opt g y of Some (Some r) \<Rightarrow> r | _ \<Rightarrow> [])"

definition grid_at :: "grid \<Rightarrow> nat \<Rightarrow> nat \<Rightarrow> gcell option" where
  "grid_at g y x = (case nth_opt (row_at g y) x of Some c \<Rightarrow> c | None \<Rightarrow> None)"

definition set_slot :: "nat \<Rightarrow> nat \<Rightarrow> gcell \<Rightarrow> grid \<Rightarrow> grid" where
  "set_slot y x c g = put_at None g y (Some (put_at None (row_at g y) x (Some c)))"

text \<open>A row that is entered is an array even when nothing is written into it.\<close>

definition touch_row :: "nat \<Rightarrow> grid \<Rightarrow> grid" where
  "touch_row y g = put_at None g y (Some (row_at g y))"

definition skip_filled :: "grid \<Rightarrow> nat \<Rightarrow> nat \<Rightarrow> nat" where
  "skip_filled g y x = x + length (takeWhile (\<lambda>c. c \<noteq> None) (drop x (row_at g y)))"

definition fill_row :: "tpart \<Rightarrow> nat \<Rightarrow> int \<Rightarrow> int \<Rightarrow> nat \<Rightarrow> nat \<Rightarrow> nat \<Rightarrow> grid \<Rightarrow> grid" where
  "fill_row p td rs cs y x y2 g =
     fold (\<lambda>x2. set_slot y2 x2 \<lparr>gc_part = p, gc_real = (y2 = y \<and> x2 = x), gc_elm = td, gc_rowspan = rs, gc_colspan = cs\<rparr>)
       [x..<x + nat cs] (touch_row y2 g)"

definition place_cell :: "tgrid \<Rightarrow> tpart \<Rightarrow> nat \<Rightarrow> nat \<times> nat \<Rightarrow> grid \<Rightarrow> grid" where
  "place_cell s p y = (\<lambda>(i, td) g.
     let x = skip_filled g y i; rs = rowspan_of s td; cs = colspan_of s td
     in fold (fill_row p td rs cs y x) [y..<y + nat rs] g)"

definition place_row :: "tgrid \<Rightarrow> nat \<times> tpart \<times> nat \<Rightarrow> grid \<Rightarrow> grid" where
  "place_row s = (\<lambda>(y, p, tr) g. fold (place_cell s p y) (List.enumerate 0 (tg_rows s tr)) g)"

definition build :: "tgrid \<Rightarrow> grid" where
  "build s = fold (place_row s) (List.enumerate 0 (part_rows (tg_sections s))) []"

definition buildGrid :: "tgrid \<Rightarrow> tgrid" where
  "buildGrid s = s\<lparr>tg_grid := build s, tg_build := Suc (tg_build s)\<rparr>"

definition getCell :: "int \<Rightarrow> int \<Rightarrow> tgrid \<Rightarrow> gcell option" where
  "getCell x y s = (if 0 \<le> x \<and> 0 \<le> y then grid_at (tg_grid s) (nat y) (nat x) else None)"

section \<open>Positions and selection\<close>

text \<open>The slots in the order of \<open>each(grid, ... each(row, ...))\<close>, holes included.\<close>

definition slots :: "grid \<Rightarrow> (nat \<times> nat \<times> gcell option) list" where
  "slots g = concat (map (\<lambda>(y, r). case r of None \<Rightarrow> [] | Some cs \<Rightarrow> map (\<lambda>(x, c). (y, x, c)) (List.enumerate 0 cs))
     (List.enumerate 0 g))"

text \<open>\<open>getPos\<close> reads the element of every slot up to the target: a hole before it raises an error.
  The result is the position \<open>(x, y)\<close>, or undefined.\<close>

fun find_pos :: "nat \<Rightarrow> (nat \<times> nat \<times> gcell option) list \<Rightarrow> (nat \<times> nat) option option" where
  "find_pos td [] = Some None"
| "find_pos td ((y, x, None) # ss) = None"
| "find_pos td ((y, x, Some c) # ss) = (if gc_elm c = td then Some (Some (x, y)) else find_pos td ss)"

definition getPos :: "nat \<Rightarrow> tgrid \<Rightarrow> (nat \<times> nat) option option" where
  "getPos td s = find_pos td (slots (tg_grid s))"

definition isCellSelected :: "tgrid \<Rightarrow> nat \<times> nat \<times> gcell option \<Rightarrow> bool" where
  "isCellSelected s = (\<lambda>(y, x, c). case c of None \<Rightarrow> False
     | Some g \<Rightarrow> ce_selected (tg_cells s (gc_elm g))
         \<or> (case tg_selectedCell s of Some (b, y', x', _) \<Rightarrow> b = tg_build s \<and> y' = y \<and> x' = x | None \<Rightarrow> False))"

definition setStartCell :: "nat \<Rightarrow> tgrid \<Rightarrow> tgrid option" where
  "setStartCell td s = map_option (\<lambda>p. s\<lparr>tg_startPos := p\<rparr>) (getPos td s)"

definition end_step :: "tgrid \<Rightarrow> nat \<times> nat \<times> gcell option \<Rightarrow> nat \<times> nat \<Rightarrow> nat \<times> nat" where
  "end_step s = (\<lambda>(y, x, c) (mx, my).
     if \<not> isCellSelected s (y, x, c) then (mx, my)
     else
       let mx1 = max mx x; my1 = max my y
       in case c of
            Some g \<Rightarrow>
              if gc_real g
              then (nat (max (int mx1) (int x + (gc_colspan g - 1))), nat (max (int my1) (int y + (gc_rowspan g - 1))))
              else (mx1, my1)
          | None \<Rightarrow> (mx1, my1))"

definition findEndPos :: "tgrid \<Rightarrow> nat \<times> nat" where
  "findEndPos s = fold (end_step s) (slots (tg_grid s)) (0, 0)"

text \<open>A fold whose steps may raise an error.\<close>

fun fold_opt :: "('a \<Rightarrow> 's \<Rightarrow> 's option) \<Rightarrow> 'a list \<Rightarrow> 's \<Rightarrow> 's option" where
  "fold_opt f [] s = Some s"
| "fold_opt f (x # xs) s = (case f x s of None \<Rightarrow> None | Some t \<Rightarrow> fold_opt f xs t)"

definition expand_startX :: "tgrid \<Rightarrow> int \<Rightarrow> int \<Rightarrow> int option" where
  "expand_startX s y startX = (case getCell startX y s of None \<Rightarrow> None
     | Some c \<Rightarrow> Some (if \<not> gc_real c \<and> gc_colspan c > 1 then startX - (gc_colspan c - 1) else startX))"

definition expand_startY :: "tgrid \<Rightarrow> int \<Rightarrow> int \<Rightarrow> int option" where
  "expand_startY s x startY = (case getCell x startY s of None \<Rightarrow> None
     | Some c \<Rightarrow> Some (if \<not> gc_real c \<and> gc_rowspan c > 1 then startY - (gc_rowspan c - 1) else startY))"

definition expand_max :: "tgrid \<Rightarrow> int \<times> int \<Rightarrow> int \<times> int \<Rightarrow> (int \<times> int) option" where
  "expand_max s = (\<lambda>(y, x) (mx, my).
     (case getCell x y s of None \<Rightarrow> None
      | Some c \<Rightarrow> Some (if gc_real c then (max mx (x + (gc_colspan c - 1)), max my (y + (gc_rowspan c - 1))) else (mx, my))))"

definition rect :: "int \<Rightarrow> int \<Rightarrow> int \<Rightarrow> int \<Rightarrow> (int \<times> int) list" where
  "rect y0 y1 x0 x1 = concat (map (\<lambda>y. map (Pair y) [x0..x1]) [y0..y1])"

definition select_rect :: "int \<Rightarrow> int \<Rightarrow> int \<Rightarrow> int \<Rightarrow> tgrid \<Rightarrow> tgrid" where
  "select_rect y0 y1 x0 x1 s =
     (let clean = s\<lparr>tg_cells := (\<lambda>td. (tg_cells s td)\<lparr>ce_selected := False\<rparr>)\<rparr>
      in fold (\<lambda>(y, x) t. case getCell x y t of None \<Rightarrow> t
                 | Some c \<Rightarrow> upd_cell (gc_elm c) (\<lambda>e. e\<lparr>ce_selected := True\<rparr>) t) (rect y0 y1 x0 x1) clean)"

text \<open>
  The rectangle from the start to the end cell, grown to the spans of the cells in it. The last
  loop reads \<open>grid[y][x]\<close>, an error only where a whole row is missing.
\<close>

definition setEndCell :: "nat \<Rightarrow> tgrid \<Rightarrow> tgrid option" where
  "setEndCell td s0 =
     (case getPos td s0 of
        None \<Rightarrow> None
      | Some endPos \<Rightarrow>
          (let s = s0\<lparr>tg_endPos := endPos\<rparr>
           in case (tg_startPos s, endPos) of
                (Some (sx, sy), Some (ex, ey)) \<Rightarrow>
                  (let x0 = int (min sx ex); y0 = int (min sy ey); x1 = int (max sx ex); y1 = int (max sy ey)
                   in case fold_opt (expand_startX s) [y0..y1] x0 of
                        None \<Rightarrow> None
                      | Some startX \<Rightarrow>
                          (case fold_opt (expand_startY s) [startX..x1] y0 of
                             None \<Rightarrow> None
                           | Some startY \<Rightarrow>
                               (case fold_opt (expand_max s) (rect startY y1 startX x1) (x1, y1) of
                                  None \<Rightarrow> None
                                | Some (maxX, maxY) \<Rightarrow>
                                    if \<forall>y\<in>set [startY..maxY]. 0 \<le> y \<and> y < int (length (tg_grid s)) \<and> tg_grid s ! nat y \<noteq> None
                                    then Some (select_rect startY maxY startX maxX s) else None)))
              | _ \<Rightarrow> Some s))"

end
