(* ===== verification/TableEdit.thy ===== *)
theory TableEdit
  imports TableGrid
begin

text \<open>
  The operations of \<open>TableGrid.js\<close> that change the table: cloning of cells, splitting and merging,
  insertion and deletion of rows and columns, and the clipboard of rows.
\<close>

section \<open>The document\<close>

definition doc_rows :: "tgrid \<Rightarrow> nat list" where
  "doc_rows s = concat (map snd (tg_sections s))"

definition doc_cells :: "tgrid \<Rightarrow> nat list" where
  "doc_cells s = concat (map (tg_rows s) (doc_rows s))"

text \<open>\<open>table.rows\<close>: the rows of the head first, those of the foot last.\<close>

definition table_rows :: "tgrid \<Rightarrow> nat list" where
  "table_rows s = map snd (part_rows (tg_sections s))"

definition parent_row :: "tgrid \<Rightarrow> nat \<Rightarrow> nat option" where
  "parent_row s td = List.find (\<lambda>tr. td \<in> set (tg_rows s tr)) (doc_rows s)"

fun find_map :: "('a \<Rightarrow> 'b option) \<Rightarrow> 'a list \<Rightarrow> 'b option" where
  "find_map f [] = None"
| "find_map f (x # xs) = (case f x of Some y \<Rightarrow> Some y | None \<Rightarrow> find_map f xs)"

text \<open>\<open>dom.getNext(tr, 'tr')\<close>, the next row of the same section.\<close>

definition next_row :: "tgrid \<Rightarrow> nat \<Rightarrow> nat option" where
  "next_row s tr = find_map (after_in tr \<circ> snd) (tg_sections s)"

definition upd_row :: "nat \<Rightarrow> (nat list \<Rightarrow> nat list) \<Rightarrow> tgrid \<Rightarrow> tgrid" where
  "upd_row tr f s = s\<lparr>tg_rows := (tg_rows s)(tr := f (tg_rows s tr))\<rparr>"

text \<open>Inserting beside a cell that is in no row is a TypeError.\<close>

definition insert_cell :: "bool \<Rightarrow> nat \<Rightarrow> nat \<Rightarrow> tgrid \<Rightarrow> tgrid option" where
  "insert_cell bef new ref s =
     (case parent_row s ref of None \<Rightarrow> None
      | Some tr \<Rightarrow> Some (upd_row tr ((if bef then insert_before else insert_after) new ref) s))"

definition remove_cell :: "nat \<Rightarrow> tgrid \<Rightarrow> tgrid" where
  "remove_cell td s = (case parent_row s td of None \<Rightarrow> s | Some tr \<Rightarrow> upd_row tr (filter (\<lambda>x. x \<noteq> td)) s)"

definition map_sections :: "(nat list \<Rightarrow> nat list) \<Rightarrow> tgrid \<Rightarrow> tgrid" where
  "map_sections f s = s\<lparr>tg_sections := map (\<lambda>(p, rs). (p, f rs)) (tg_sections s)\<rparr>"

definition remove_row :: "nat \<Rightarrow> tgrid \<Rightarrow> tgrid" where
  "remove_row tr = map_sections (filter (\<lambda>x. x \<noteq> tr))"

text \<open>A row that is already in the document is moved.\<close>

definition insert_row_at :: "bool \<Rightarrow> nat \<Rightarrow> nat \<Rightarrow> tgrid \<Rightarrow> tgrid" where
  "insert_row_at bef new ref s =
     (if new = ref then s
      else map_sections ((if bef then insert_before else insert_after) new ref) (remove_row new s))"

section \<open>Cloning\<close>

text \<open>\<open>cloneNode\<close> without the children.\<close>

definition drop_id :: "(string \<times> string) list \<Rightarrow> (string \<times> string) list" where
  "drop_id attrs = filter (\<lambda>(k, _). k \<noteq> ''id'') attrs"

text \<open>
  The elements with a name in \<open>cloneFormats\<close> above the first text that has one. The walk stops
  at the first text of a list of siblings, but goes on after the element that holds them; what it
  finds once there is a \<open>formatNode\<close> stays outside the document.
\<close>

fun format_path :: "string list \<Rightarrow> (string \<times> (string \<times> string) list) list \<Rightarrow> cnode list
    \<Rightarrow> (string \<times> (string \<times> string) list) list" where
  "format_path fs path [] = []"
| "format_path fs path (CText t # ns) = filter (\<lambda>(n, _). n \<in> set fs) path"
| "format_path fs path (CBogus # ns) = format_path fs path ns"
| "format_path fs path (CElem n as ch # ns) =
     (case format_path fs (path @ [(n, drop_id as)]) ch of
        [] \<Rightarrow> format_path fs path ns
      | p # ps \<Rightarrow> p # ps)"

definition filler :: "bool \<Rightarrow> cnode" where
  "filler ie = (if ie then CText [CHR 0xA0] else CBogus)"

fun nest_formats :: "bool \<Rightarrow> (string \<times> (string \<times> string) list) list \<Rightarrow> cnode" where
  "nest_formats ie [] = filler ie"
| "nest_formats ie ((n, as) # ps) = CElem n as [nest_formats ie ps]"

definition clone_content :: "tgrid \<Rightarrow> cnode list \<Rightarrow> cnode list" where
  "clone_content s ns =
     (case format_path (tg_formats s) [] ns of
        [] \<Rightarrow> if tg_ie s then [] else [CBogus]
      | ps \<Rightarrow> [nest_formats (tg_ie s) ps])"

definition cloned_cell :: "tgrid \<Rightarrow> cell \<Rightarrow> cell" where
  "cloned_cell s c = c\<lparr>ce_attrs := drop_id (ce_attrs c), ce_rowspan := None, ce_colspan := None,
     ce_content := clone_content s (ce_content c)\<rparr>"

definition cloneCell :: "nat \<Rightarrow> tgrid \<Rightarrow> nat \<times> tgrid" where
  "cloneCell td s = (tg_fresh s, s\<lparr>tg_cells := (tg_cells s)(tg_fresh s := cloned_cell s (tg_cells s td)),
     tg_fresh := Suc (tg_fresh s)\<rparr>)"

text \<open>Inserting a clone beside the cell, \<open>n\<close> times.\<close>

definition insert_clone :: "bool \<Rightarrow> nat \<Rightarrow> tgrid \<Rightarrow> tgrid option" where
  "insert_clone bef td s = (let (new, t) = cloneCell td s in insert_cell bef new td t)"

definition insert_clones :: "nat \<Rightarrow> nat \<Rightarrow> tgrid \<Rightarrow> tgrid option" where
  "insert_clones n td s = fold_opt (\<lambda>_. insert_clone False td) [0..<n] s"

text \<open>Inserting \<open>n\<close> clones before the first cell of a row, each time of the cell that is first then.\<close>

definition insert_first :: "nat \<Rightarrow> tgrid \<Rightarrow> tgrid option" where
  "insert_first tr s =
     (case tg_rows s tr of [] \<Rightarrow> None
      | td # _ \<Rightarrow> let (new, t) = cloneCell td s in Some (upd_row tr (\<lambda>cs. new # cs) t))"

section \<open>Splitting and merging\<close>

text \<open>The loop to the left: None is the TypeError, \<open>Some None\<close> the end at \<open>x2 = -1\<close>.\<close>

fun find_left :: "tgrid \<Rightarrow> nat \<Rightarrow> nat \<Rightarrow> nat \<Rightarrow> nat option option" where
  "find_left s tr y 0 =
     (case grid_at (tg_grid s) y 0 of None \<Rightarrow> None
      | Some c \<Rightarrow> Some (if parent_row s (gc_elm c) = Some tr then Some (gc_elm c) else None))"
| "find_left s tr y (Suc x) =
     (case grid_at (tg_grid s) y (Suc x) of None \<Rightarrow> None
      | Some c \<Rightarrow> if parent_row s (gc_elm c) = Some tr then Some (Some (gc_elm c)) else find_left s tr y x)"

definition fill_step :: "nat \<Rightarrow> nat \<Rightarrow> int \<Rightarrow> nat \<Rightarrow> nat option \<times> tgrid \<Rightarrow> (nat option \<times> tgrid) option" where
  "fill_step x y cols r = (\<lambda>(tr, s).
     case Option.bind tr (next_row s) of
       None \<Rightarrow> Some (None, s)
     | Some tr' \<Rightarrow>
         (case find_left s tr' (y + r) x of
            None \<Rightarrow> None
          | Some (Some td) \<Rightarrow> map_option (Pair (Some tr')) (insert_clones (nat cols) td s)
          | Some None \<Rightarrow> map_option (Pair (Some tr')) (fold_opt (\<lambda>_. insert_first tr') [0..<nat cols] s)))"

definition fillLeftDown :: "nat \<Rightarrow> nat \<Rightarrow> int \<Rightarrow> int \<Rightarrow> tgrid \<Rightarrow> tgrid option" where
  "fillLeftDown x y rows cols s =
     (case grid_at (tg_grid s) y x of
        None \<Rightarrow> None
      | Some c \<Rightarrow> map_option snd (fold_opt (fill_step x y cols) [1..<Suc (nat rows)] (parent_row s (gc_elm c), s)))"

definition split_slot :: "nat \<times> nat \<times> gcell option \<Rightarrow> tgrid \<Rightarrow> tgrid option" where
  "split_slot = (\<lambda>(y, x, c) s.
     case c of
       None \<Rightarrow> Some s
     | Some g \<Rightarrow>
         (let td = gc_elm g; cs = colspan_of s td; rs = rowspan_of s td
          in if isCellSelected s (y, x, c) \<and> (cs > 1 \<or> rs > 1)
             then Option.bind (insert_clones (nat (cs - 1)) td (setColSpan td 1 (setRowSpan td 1 s)))
                    (fillLeftDown x y (rs - 1) cs)
             else Some s))"

definition split :: "tgrid \<Rightarrow> tgrid option" where
  "split s = fold_opt split_slot (slots (tg_grid s)) s"

text \<open>Removing the empty rows, the empty table or the empty sections, and restoring the caret.\<close>

definition drop_empty_rows :: "tgrid \<Rightarrow> tgrid" where
  "drop_empty_rows s = map_sections (filter (\<lambda>tr. tg_rows s tr \<noteq> [])) s"

definition drop_empty_parts :: "tgrid \<Rightarrow> tgrid" where
  "drop_empty_parts s = s\<lparr>tg_sections := filter (\<lambda>(_, rs). rs \<noteq> []) (tg_sections s)\<rparr>"

definition restore_caret :: "tgrid \<Rightarrow> tgrid option" where
  "restore_caret s =
     (case tg_startPos s of
        None \<Rightarrow> None
      | Some (x, y) \<Rightarrow>
          (let g = tg_grid s
           in if g = [] then Some s
              else case g ! min (length g - 1) y of
                     None \<Rightarrow> Some s
                   | Some row \<Rightarrow>
                       if row = [] then None
                       else case row ! min (length row - 1) x of
                              None \<Rightarrow> None
                            | Some c \<Rightarrow> Some (s\<lparr>tg_caret := Some (gc_elm c)\<rparr>)))"

definition cleanup :: "tgrid \<Rightarrow> tgrid option" where
  "cleanup s =
     (let t = drop_empty_rows s
      in if doc_rows t = [] then Some (t\<lparr>tg_removed := True\<rparr>)
         else restore_caret (buildGrid (drop_empty_parts t)))"

definition deleteTable :: "tgrid \<Rightarrow> tgrid" where
  "deleteTable s = s\<lparr>tg_removed := True\<rparr>"

text \<open>The first and the last selected slot.\<close>

definition selected_ends :: "tgrid \<Rightarrow> ((nat \<times> nat) \<times> (nat \<times> nat)) option" where
  "selected_ends s =
     (case filter (isCellSelected s) (slots (tg_grid s)) of
        [] \<Rightarrow> None
      | p # ps \<Rightarrow> (case (p, List.last (p # ps)) of
          ((y, x, _), (y', x', _)) \<Rightarrow> Some ((x, y), (x', y'))))"

text \<open>Bogus breaks go, but never all the children.\<close>

fun drop_bogus :: "nat \<Rightarrow> cnode list \<Rightarrow> cnode list" where
  "drop_bogus n [] = []"
| "drop_bogus n (c # cs) =
     (if c = CBogus then (case n of 0 \<Rightarrow> c # drop_bogus 0 cs | Suc m \<Rightarrow> drop_bogus m cs) else c # drop_bogus n cs)"

definition absorb :: "nat \<Rightarrow> nat \<Rightarrow> tgrid \<Rightarrow> tgrid" where
  "absorb startCell td s =
     (let children = ce_content (tg_cells s td);
          t = upd_cell td (\<lambda>c. c\<lparr>ce_content := []\<rparr>) s;
          u = upd_cell startCell (\<lambda>c. c\<lparr>ce_content := ce_content c @ children\<rparr>) t;
          v = (if children = [] then u
               else upd_cell startCell (\<lambda>c. c\<lparr>ce_content := drop_bogus (length (ce_content c) - 1) (ce_content c)\<rparr>) u)
      in remove_cell td v)"

definition merge_slot :: "nat \<Rightarrow> int \<times> int \<Rightarrow> tgrid \<Rightarrow> tgrid" where
  "merge_slot startCell = (\<lambda>(y, x) s.
     case getCell x y s of None \<Rightarrow> s
     | Some c \<Rightarrow> if gc_elm c \<noteq> startCell then absorb startCell (gc_elm c) s else s)"

definition merge_area :: "int \<Rightarrow> int \<Rightarrow> int \<Rightarrow> int \<Rightarrow> tgrid \<Rightarrow> tgrid option" where
  "merge_area startX startY endX endY s =
     (case (getCell startX startY s, getCell endX endY s) of
        (Some a, Some b) \<Rightarrow>
          if gc_part a = gc_part b
          then (case map_option buildGrid (split s) of
                  None \<Rightarrow> None
                | Some t \<Rightarrow>
                    (case getCell startX startY t of
                       None \<Rightarrow> None
                     | Some c \<Rightarrow>
                         (let startCell = gc_elm c;
                              u = setRowSpan startCell (endY - startY + 1) (setColSpan startCell (endX - startX + 1) t)
                          in cleanup (fold (merge_slot startCell) (rect startY endY startX endX) u))))
          else Some s
      | _ \<Rightarrow> Some s)"

definition merge :: "(nat \<times> int \<times> int) option \<Rightarrow> tgrid \<Rightarrow> tgrid option" where
  "merge arg s =
     (case arg of
        Some (td, cols, rows) \<Rightarrow>
          (case getPos td s of
             Some (Some (x, y)) \<Rightarrow> merge_area (int x) (int y) (int x + (cols - 1)) (int y + (rows - 1)) s
           | _ \<Rightarrow> None)
      | None \<Rightarrow>
          (case selected_ends s of
             None \<Rightarrow> None
           | Some ((x, y), (x', y')) \<Rightarrow>
               merge_area (int x) (int y) (int x') (int y') (s\<lparr>tg_startPos := Some (x, y), tg_endPos := Some (x', y')\<rparr>)))"

section \<open>Rows and columns\<close>

text \<open>The property \<open>td.colSpan\<close> of the document: the attribute within the limits of HTML.\<close>

definition colSpan_prop :: "tgrid \<Rightarrow> nat \<Rightarrow> int" where
  "colSpan_prop s td = max 1 (min 1000 (colspan_of s td))"

definition selected_in_row :: "tgrid \<Rightarrow> nat \<Rightarrow> gcell option list option \<Rightarrow> (nat \<times> gcell option) list" where
  "selected_in_row s y row =
     (case row of None \<Rightarrow> [] | Some cs \<Rightarrow> filter (\<lambda>(x, c). isCellSelected s (y, x, c)) (List.enumerate 0 cs))"

text \<open>
  The search for the first or last row with a selected cell: the row number and that cell. With
  \<open>before\<close> it ends only at a row number other than 0, for \<open>!posY\<close> is true of 0 too.
\<close>

definition pick :: "bool \<Rightarrow> 'a list \<Rightarrow> 'a option" where
  "pick bef xs = (if xs = [] then None else Some (if bef then hd xs else List.last xs))"

fun find_posY :: "tgrid \<Rightarrow> bool \<Rightarrow> (nat \<times> gcell option list option) list \<Rightarrow> (nat \<times> nat) option \<Rightarrow> (nat \<times> nat) option" where
  "find_posY s bef [] pos = pos"
| "find_posY s bef ((y, row) # rows) pos =
     (let pos' = (case pick bef (selected_in_row s y row) of Some (_, Some c) \<Rightarrow> Some (y, gc_elm c) | _ \<Rightarrow> pos)
      in if bef \<and> (case pos' of Some (p, _) \<Rightarrow> p \<noteq> 0 | None \<Rightarrow> False) then pos'
         else find_posY s bef rows pos')"

fun find_posX :: "tgrid \<Rightarrow> bool \<Rightarrow> (nat \<times> gcell option list option) list \<Rightarrow> nat option \<Rightarrow> nat option" where
  "find_posX s bef [] pos = pos"
| "find_posX s bef ((y, row) # rows) pos =
     (let pos' = (case pick bef (selected_in_row s y row) of Some (x, _) \<Rightarrow> Some x | None \<Rightarrow> pos)
      in if bef \<and> (case pos' of Some p \<Rightarrow> p \<noteq> 0 | None \<Rightarrow> False) then pos'
         else find_posX s bef rows pos')"

text \<open>A column of the new row: the last cell that was cloned, the cells of the new row, the state.\<close>

definition new_row_cell :: "nat \<Rightarrow> nat option \<times> nat list \<times> tgrid \<Rightarrow> nat option \<times> nat list \<times> tgrid" where
  "new_row_cell td = (\<lambda>(lastCell, new, s).
     let (n, t) = cloneCell td s in (Some td, new @ [n], setColSpan n (colSpan_prop s td) t))"

definition insertRow_step :: "bool \<Rightarrow> nat \<Rightarrow> nat \<Rightarrow> nat option \<times> nat list \<times> tgrid \<Rightarrow> (nat option \<times> nat list \<times> tgrid) option" where
  "insertRow_step bef posY x = (\<lambda>(lastCell, new, s).
     case grid_at (tg_grid s) posY x of
       None \<Rightarrow> Some (lastCell, new, s)
     | Some c \<Rightarrow>
         (let td = gc_elm c
          in if Some td = lastCell then Some (lastCell, new, s)
             else if \<not> bef
             then (let rs = rowspan_of s td
                   in if rs > 1 then Some (lastCell, new, setRowSpan td (rs + 1) s)
                      else Some (new_row_cell td (lastCell, new, s)))
             else if posY = 0 then Some (new_row_cell td (lastCell, new, s))
             else if nth_opt (tg_grid s) (posY - 1) = Some None then None
             else (case grid_at (tg_grid s) (posY - 1) x of
                     None \<Rightarrow> Some (new_row_cell td (lastCell, new, s))
                   | Some other \<Rightarrow>
                       (let rs = rowspan_of s (gc_elm other)
                        in if rs > 1 then Some (lastCell, new, setRowSpan (gc_elm other) (rs + 1) s)
                           else Some (new_row_cell td (lastCell, new, s))))))"

definition insertRow :: "bool \<Rightarrow> tgrid \<Rightarrow> tgrid option" where
  "insertRow bef s =
     (case find_posY s bef (List.enumerate 0 (tg_grid s)) None of
        None \<Rightarrow> None
      | Some (posY, td) \<Rightarrow>
          (case (parent_row s td, nth_opt (tg_grid s) 0) of
             (Some rowElm, Some (Some first)) \<Rightarrow>
               (case fold_opt (insertRow_step bef posY) [0..<length first] (None, [], s) of
                  None \<Rightarrow> None
                | Some (_, new, t) \<Rightarrow>
                    if new = [] then Some t
                    else Some (insert_row_at bef (tg_fresh t) rowElm
                           (t\<lparr>tg_rows := (tg_rows t)(tg_fresh t := new), tg_fresh := Suc (tg_fresh t)\<rparr>)))
           | _ \<Rightarrow> None))"

definition insertCol_step :: "bool \<Rightarrow> nat option \<Rightarrow> nat \<times> gcell option list option \<Rightarrow> nat option \<times> tgrid \<Rightarrow> (nat option \<times> tgrid) option" where
  "insertCol_step bef posX = (\<lambda>(y, row) (lastCell, s).
     case row of
       None \<Rightarrow> None
     | Some _ \<Rightarrow>
         (case Option.bind posX (grid_at (tg_grid s) y) of
            None \<Rightarrow> Some (lastCell, s)
          | Some c \<Rightarrow>
              (let td = gc_elm c; cs = colspan_of s td; rs = rowspan_of s td
               in if Some td = lastCell then Some (lastCell, s)
                  else if cs = 1
                  then map_option (Pair (Some td))
                         (Option.bind (insert_clone bef td s) (fillLeftDown (the posX) y (rs - 1) cs))
                  else Some (Some td, setColSpan td (colSpan_prop s td + 1) s))))"

definition insertCol :: "bool \<Rightarrow> tgrid \<Rightarrow> tgrid option" where
  "insertCol bef s =
     (let rows = List.enumerate 0 (tg_grid s)
      in map_option snd (fold_opt (insertCol_step bef (find_posX s bef rows None)) rows (None, s)))"

definition shrink_cell :: "nat \<Rightarrow> gcell option list option \<Rightarrow> tgrid \<Rightarrow> tgrid option" where
  "shrink_cell x row s =
     (case Option.bind (Option.bind row (\<lambda>cs. nth_opt cs x)) id of
        None \<Rightarrow> None
      | Some c \<Rightarrow>
          (let td = gc_elm c; cs = colspan_of s td
           in Some (if cs > 1 then setColSpan td (cs - 1) s else remove_cell td s)))"

definition deleteCols_step :: "nat \<times> nat \<times> gcell option \<Rightarrow> nat list \<times> tgrid \<Rightarrow> (nat list \<times> tgrid) option" where
  "deleteCols_step = (\<lambda>(y, x, c) (cols, s).
     if isCellSelected s (y, x, c) \<and> x \<notin> set cols
     then map_option (Pair (cols @ [x])) (fold_opt (shrink_cell x) (tg_grid s) s)
     else Some (cols, s))"

definition deleteCols :: "tgrid \<Rightarrow> tgrid option" where
  "deleteCols s = Option.bind (fold_opt deleteCols_step (slots (tg_grid s)) ([], s)) (cleanup \<circ> snd)"

text \<open>The rows with a selected cell; without a \<open>selectedCell\<close> a cell that is not selected is an error.\<close>

fun row_selected :: "tgrid \<Rightarrow> nat list \<Rightarrow> bool option" where
  "row_selected s [] = Some False"
| "row_selected s (td # tds) =
     (if ce_selected (tg_cells s td) then Some True
      else case tg_selectedCell s of None \<Rightarrow> None
           | Some (_, _, _, elm) \<Rightarrow> if td = elm then Some True else row_selected s tds)"

fun selected_among :: "tgrid \<Rightarrow> nat list \<Rightarrow> nat list option" where
  "selected_among s [] = Some []"
| "selected_among s (tr # trs) =
     (case row_selected s (tg_rows s tr) of None \<Rightarrow> None
      | Some b \<Rightarrow> map_option (\<lambda>rest. if b then tr # rest else rest) (selected_among s trs))"

definition getSelectedRows :: "tgrid \<Rightarrow> nat list option" where
  "getSelectedRows s = selected_among s (table_rows s)"

definition move_down :: "nat \<Rightarrow> tgrid \<Rightarrow> tgrid option" where
  "move_down td s =
     (let rs = rowspan_of s td
      in if rs > 1
         then (let t = setRowSpan td (rs - 1) s
               in case getPos td t of Some (Some (x, y)) \<Rightarrow> fillLeftDown x y 1 1 t | _ \<Rightarrow> None)
         else Some s)"

definition delete_slot :: "gcell option \<Rightarrow> nat option \<times> tgrid \<Rightarrow> (nat option \<times> tgrid) option" where
  "delete_slot c = (\<lambda>(lastCell, s).
     case c of
       None \<Rightarrow> None
     | Some g \<Rightarrow>
         (let td = gc_elm g; rs = rowspan_of s td
          in if Some td = lastCell then Some (lastCell, s)
             else Some (Some td, if rs \<le> 1 then remove_cell td s else setRowSpan td (rs - 1) s)))"

definition deleteRow :: "nat \<Rightarrow> tgrid \<Rightarrow> tgrid option" where
  "deleteRow tr s =
     (case fold_opt move_down (tg_rows s tr) s of
        None \<Rightarrow> None
      | Some t \<Rightarrow>
          (case tg_rows t tr of
             [] \<Rightarrow> None
           | td # _ \<Rightarrow>
               (case getPos td t of
                  Some (Some (x, y)) \<Rightarrow> map_option snd (fold_opt delete_slot (row_at (tg_grid t) y) (None, t))
                | _ \<Rightarrow> None)))"

definition deleteRows :: "tgrid \<Rightarrow> tgrid option" where
  "deleteRows s =
     (case getSelectedRows s of None \<Rightarrow> None
      | Some rows \<Rightarrow> Option.bind (fold_opt deleteRow (rev rows) s) cleanup)"

section \<open>The clipboard\<close>

definition cutRows :: "tgrid \<Rightarrow> (nat list \<times> tgrid) option" where
  "cutRows s =
     (case getSelectedRows s of None \<Rightarrow> None
      | Some rows \<Rightarrow> map_option (Pair rows) (cleanup (fold remove_row rows s)))"

text \<open>\<open>cloneNode(row, true)\<close>: a row of copies of the cells, which keep all their attributes.\<close>

definition copy_cell :: "nat \<Rightarrow> nat list \<times> tgrid \<Rightarrow> nat list \<times> tgrid" where
  "copy_cell td = (\<lambda>(new, s). (new @ [tg_fresh s],
     s\<lparr>tg_cells := (tg_cells s)(tg_fresh s := tg_cells s td), tg_fresh := Suc (tg_fresh s)\<rparr>))"

definition copy_row :: "nat \<Rightarrow> nat list \<times> tgrid \<Rightarrow> nat list \<times> tgrid" where
  "copy_row tr = (\<lambda>(rows, s).
     let (cs, t) = fold copy_cell (tg_rows s tr) ([], s)
     in (rows @ [tg_fresh t], t\<lparr>tg_rows := (tg_rows t)(tg_fresh t := cs), tg_fresh := Suc (tg_fresh t)\<rparr>))"

definition copyRows :: "tgrid \<Rightarrow> (nat list \<times> tgrid) option" where
  "copyRows s = map_option (\<lambda>rows. fold copy_row rows ([], s)) (getSelectedRows s)"

text \<open>The columns of the first row of the grid that shows a cell of the target row, or of the last row.\<close>

fun count_cells :: "tgrid \<Rightarrow> nat \<Rightarrow> gcell option list \<Rightarrow> (int \<times> bool) option" where
  "count_cells s tr [] = Some (0, False)"
| "count_cells s tr (None # cs) = None"
| "count_cells s tr (Some c # cs) =
     map_option (\<lambda>(n, m). ((if gc_real c then gc_colspan c else 0) + n, parent_row s (gc_elm c) = Some tr \<or> m)) (count_cells s tr cs)"

fun target_count :: "tgrid \<Rightarrow> nat \<Rightarrow> gcell option list option list \<Rightarrow> int \<Rightarrow> int option" where
  "target_count s tr [] n = Some n"
| "target_count s tr (row # rows) n =
     (case count_cells s tr (case row of None \<Rightarrow> [] | Some cs \<Rightarrow> cs) of
        None \<Rightarrow> None
      | Some (k, True) \<Rightarrow> Some k
      | Some (k, False) \<Rightarrow> target_count s tr rows k)"

text \<open>The loop over \<open>row.cells\<close>, which is shorter after every removal.\<close>

definition drop_excess :: "nat \<Rightarrow> nat \<Rightarrow> nat list \<Rightarrow> nat list" where
  "drop_excess n count cs = fold remove_at [n..<count] cs"

definition append_clone :: "nat \<Rightarrow> nat \<Rightarrow> tgrid \<Rightarrow> tgrid option" where
  "append_clone tr cellCount s =
     (if cellCount = 0 then None
      else let (new, t) = cloneCell (tg_rows s tr ! (cellCount - 1)) s in Some (upd_row tr (\<lambda>cs. cs @ [new]) t))"

definition pasteRow :: "bool \<Rightarrow> nat \<Rightarrow> nat \<Rightarrow> nat \<Rightarrow> tgrid \<Rightarrow> tgrid option" where
  "pasteRow bef target n row s =
     (let cellCount = length (tg_rows s row);
          t = fold (\<lambda>td u. setRowSpan td 1 (setColSpan td 1 u)) (tg_rows s row) s
      in map_option (\<lambda>u. insert_row_at bef row target (upd_row row (drop_excess n cellCount) u))
           (fold_opt (\<lambda>_. append_clone row cellCount) [cellCount..<n] t))"

definition deselect_all :: "tgrid \<Rightarrow> tgrid" where
  "deselect_all s = s\<lparr>tg_cells := (\<lambda>td. (tg_cells s td)\<lparr>ce_selected := False\<rparr>)\<rparr>"

text \<open>The result has the array of rows too: without \<open>before\<close> it is reversed in place.\<close>

definition pasteRows :: "nat list option \<Rightarrow> bool \<Rightarrow> tgrid \<Rightarrow> (nat list option \<times> tgrid) option" where
  "pasteRows rows bef s =
     (case getSelectedRows s of
        None \<Rightarrow> None
      | Some sel \<Rightarrow>
          (case pick bef sel of
             None \<Rightarrow> None
           | Some target \<Rightarrow>
               (case rows of
                  None \<Rightarrow> Some (None, s)
                | Some rs \<Rightarrow>
                    (case target_count s target (tg_grid s) (int (length (tg_rows s target))) of
                       None \<Rightarrow> None
                     | Some n \<Rightarrow>
                         (let order = (if bef then rs else rev rs)
                          in map_option (\<lambda>t. (Some order, deselect_all t))
                               (fold_opt (pasteRow bef target (nat n)) order s))))))"

section \<open>Construction\<close>

text \<open>The class over a table, with the cell that holds the start of the selection, if any.\<close>

definition new_TableGrid :: "nat option \<Rightarrow> tgrid \<Rightarrow> tgrid option" where
  "new_TableGrid selectedCell s0 =
     (let s = buildGrid (s0\<lparr>tg_startPos := None, tg_endPos := None, tg_selectedCell := None\<rparr>)
      in case selectedCell of
           None \<Rightarrow> Some s
         | Some td \<Rightarrow>
             (case getPos td s of
                Some (Some (x, y)) \<Rightarrow>
                  Some (s\<lparr>tg_startPos := Some (x, y), tg_endPos := Some (findEndPos s), tg_selectedCell := Some (tg_build s, y, x, td)\<rparr>)
              | _ \<Rightarrow> None))"

end
