(* ===== verification/TableLayout.thy ===== *)
theory TableLayout
  imports TableEdit
begin

text \<open>
  What the grid shows of the table: every cell has exactly one real slot, in the row of the grid
  that stands for its own row, and the real slots of a row are its cells in their order.
\<close>

section \<open>Sparse arrays\<close>

lemma put_at_nth_opt: "nth_opt (put_at h xs i v) j = (if j = i then Some v else if j < length xs then Some (xs ! j) else if j < i then Some h else None)"
  by (auto simp: put_at_def nth_opt_def nth_append nth_list_update)

lemma row_at_put: "row_at (put_at None g y r) y' = (if y' = y then (case r of Some cs \<Rightarrow> cs | None \<Rightarrow> []) else row_at g y')"
  unfolding row_at_def put_at_nth_opt nth_opt_def [of g] by (auto split: option.splits)

lemma row_at_Nil [simp]: "row_at [] y = []"
  by (simp add: row_at_def nth_opt_def)

lemma row_at_set_slot: "row_at (set_slot y x c g) y' = (if y' = y then put_at None (row_at g y) x (Some c) else row_at g y')"
  by (simp add: set_slot_def row_at_put)

lemma row_at_touch [simp]: "row_at (touch_row y g) y' = row_at g y'"
  by (auto simp: touch_row_def row_at_put)

lemma fold_put_at:
  "fold (\<lambda>i r. put_at h r i (f i)) [x..<x + Suc n] r
     = take x r @ replicate (x - length r) h @ map f [x..<x + Suc n] @ drop (x + Suc n) r"
proof (induction n)
  case 0
  show ?case
  proof (cases "x < length r")
    case True
    then show ?thesis by (simp add: put_at_def upd_conv_take_nth_drop)
  qed (simp add: put_at_def)
next
  case (Suc n)
  let ?r = "take x r @ replicate (x - length r) h @ map f [x..<x + Suc n] @ drop (x + Suc n) r"
  have len: "length (take x r @ replicate (x - length r) h @ map f [x..<x + Suc n]) = x + Suc n"
    by simp
  have "put_at h ?r (x + Suc n) (f (x + Suc n)) = take x r @ replicate (x - length r) h @ map f [x..<x + Suc (Suc n)] @ drop (x + Suc (Suc n)) r"
  proof (cases "x + Suc n < length r")
    case True
    then have "drop (x + Suc n) r = r ! (x + Suc n) # drop (x + Suc (Suc n)) r"
      by (simp add: Cons_nth_drop_Suc)
    then show ?thesis using True by (simp add: put_at_def list_update_append)
  qed (auto simp: put_at_def min_def)
  then show ?case using Suc by simp
qed

section \<open>Real slots\<close>

definition real_elms :: "gcell option list \<Rightarrow> nat list" where
  "real_elms r = concat (map (\<lambda>c. case c of Some g \<Rightarrow> if gc_real g then [gc_elm g] else [] | None \<Rightarrow> []) r)"

lemma real_elms_simps [simp]:
  "real_elms [] = []"
  "real_elms (None # r) = real_elms r"
  "real_elms (Some g # r) = (if gc_real g then gc_elm g # real_elms r else real_elms r)"
  "real_elms (r @ r') = real_elms r @ real_elms r'"
  by (simp_all add: real_elms_def)

lemma real_elms_Nil_iff: "real_elms r = [] \<longleftrightarrow> (\<forall>g. Some g \<in> set r \<longrightarrow> \<not> gc_real g)"
  by (induction r) (auto simp: real_elms_def split: option.splits)

lemma real_elms_set: "td \<in> set (real_elms r) \<longleftrightarrow> (\<exists>g. Some g \<in> set r \<and> gc_real g \<and> gc_elm g = td)"
  by (force simp: real_elms_def split: option.splits)

definition slot_of :: "tpart \<Rightarrow> nat \<Rightarrow> int \<Rightarrow> int \<Rightarrow> nat \<Rightarrow> nat \<Rightarrow> nat \<Rightarrow> nat \<Rightarrow> gcell" where
  "slot_of p td rs cs y x y2 x2 = \<lparr>gc_part = p, gc_real = (y2 = y \<and> x2 = x), gc_elm = td, gc_rowspan = rs, gc_colspan = cs\<rparr>"

lemma row_at_fill_row:
  "row_at (fill_row p td rs cs y x y2 g) y'
     = (if y' = y2 then fold (\<lambda>i r. put_at None r i (Some (slot_of p td rs cs y x y2 i))) [x..<x + nat cs] (row_at g y2) else row_at g y')"
proof -
  have "row_at (fold (\<lambda>x2. set_slot y2 x2 (slot_of p td rs cs y x y2 x2)) is h) y'
     = (if y' = y2 then fold (\<lambda>i r. put_at None r i (Some (slot_of p td rs cs y x y2 i))) is (row_at h y2) else row_at h y')" for "is" h
    by (induction "is" arbitrary: h) (auto simp: row_at_set_slot)
  then show ?thesis by (simp add: fill_row_def slot_of_def)
qed

text \<open>A row after a cell was written into it, for a cell with a column span.\<close>

definition covered :: "tpart \<Rightarrow> nat \<Rightarrow> int \<Rightarrow> int \<Rightarrow> nat \<Rightarrow> nat \<Rightarrow> nat \<Rightarrow> gcell option list \<Rightarrow> gcell option list" where
  "covered p td rs cs y x y2 r = take x r @ replicate (x - length r) None
     @ map (\<lambda>i. Some (slot_of p td rs cs y x y2 i)) [x..<x + nat cs] @ drop (x + nat cs) r"

lemma row_at_fill_rows:
  assumes "cs \<ge> 1"
  shows "row_at (fold (fill_row p td rs cs y x) [a..<b] g) y' = (if a \<le> y' \<and> y' < b then covered p td rs cs y x y' (row_at g y') else row_at g y')"
proof -
  obtain n where n: "nat cs = Suc n" using assms by (cases "nat cs") auto
  have "row_at (fill_row p td rs cs y x y2 h) z = (if z = y2 then covered p td rs cs y x y2 (row_at h y2) else row_at h z)" for y2 h z
    unfolding row_at_fill_row covered_def n by (simp only: fold_put_at)
  then show ?thesis by (induction b) (auto simp: less_Suc_eq)
qed

lemma row_at_place_cell:
  assumes "rowspan_of s td \<ge> 1" "colspan_of s td \<ge> 1"
  shows "row_at (place_cell s p y (i, td) g) y' =
    (if y \<le> y' \<and> y' < y + nat (rowspan_of s td)
     then covered p td (rowspan_of s td) (colspan_of s td) y (skip_filled g y i) y' (row_at g y') else row_at g y')"
  using assms by (simp add: place_cell_def Let_def row_at_fill_rows)

lemma grid_at_Nil [simp]: "grid_at [] y x = None"
  by (simp add: grid_at_def nth_opt_def)

lemma grid_at_in_row: "grid_at g y x = Some c \<Longrightarrow> Some c \<in> set (row_at g y)"
  by (auto simp: grid_at_def nth_opt_def in_set_conv_nth split: option.splits if_splits)

lemma in_row_grid_at: "Some c \<in> set (row_at g y) \<Longrightarrow> \<exists>x. grid_at g y x = Some c"
  by (force simp: grid_at_def nth_opt_def in_set_conv_nth)

lemma nth_opt_covered:
  "(case nth_opt (covered p td rs cs y x y2 r) i of Some c \<Rightarrow> c | None \<Rightarrow> None)
     = (if x \<le> i \<and> i < x + nat cs then Some (slot_of p td rs cs y x y2 i) else case nth_opt r i of Some c \<Rightarrow> c | None \<Rightarrow> None)"
  by (auto simp: covered_def nth_opt_def nth_append min_def)

lemma grid_at_place_cell:
  assumes "rowspan_of s td \<ge> 1" "colspan_of s td \<ge> 1" "x = skip_filled g y i"
  shows "grid_at (place_cell s p y (i, td) g) y' x' =
    (if y \<le> y' \<and> y' < y + nat (rowspan_of s td) \<and> x \<le> x' \<and> x' < x + nat (colspan_of s td)
     then Some (slot_of p td (rowspan_of s td) (colspan_of s td) y x y' x') else grid_at g y' x')"
  using assms by (simp add: grid_at_def row_at_place_cell nth_opt_covered del: option.case_eq_if)

text \<open>The row while its cells are placed: a filled beginning with the real slots so far, none after it.\<close>

definition row_inv :: "nat list \<Rightarrow> nat \<Rightarrow> gcell option list \<Rightarrow> bool" where
  "row_inv cells k r \<longleftrightarrow> (\<exists>m\<ge>k. m \<le> length r \<and> None \<notin> set (take m r) \<and> real_elms (take m r) = take k cells \<and> real_elms (drop m r) = [])"

lemma row_inv_init: "real_elms r = [] \<Longrightarrow> row_inv cells 0 r"
  by (auto simp: row_inv_def intro: exI [of _ 0])

lemma row_inv_real: "row_inv cells k r \<Longrightarrow> real_elms r = take k cells"
  by (metis append_Nil2 append_take_drop_id real_elms_simps(4) row_inv_def)

lemma real_elms_drop: "real_elms (drop m r) = [] \<Longrightarrow> m \<le> n \<Longrightarrow> real_elms (drop n r) = []"
  by (meson real_elms_Nil_iff set_drop_subset_set_drop subsetD)

text \<open>The place of the next cell: everything before it is filled, no real slot is at it or after it.\<close>

lemma skip_filled_row_inv:
  assumes inv: "row_inv cells k (row_at g y)" and x: "x = skip_filled g y k"
  shows "k \<le> x" "x \<le> length (row_at g y)" "None \<notin> set (take x (row_at g y))"
    "real_elms (take x (row_at g y)) = take k cells" "real_elms (drop x (row_at g y)) = []"
proof -
  define r where "r = row_at g y"
  obtain m where m: "k \<le> m" "m \<le> length r" "None \<notin> set (take m r)" "real_elms (take m r) = take k cells" "real_elms (drop m r) = []"
    using inv by (auto simp: row_inv_def r_def)
  define w where "w = takeWhile (\<lambda>c. c \<noteq> None) (drop k r)"
  have xw: "x = k + length w" by (simp add: x skip_filled_def w_def r_def)
  have lw: "length w \<le> length (drop k r)" unfolding w_def by (rule length_takeWhile_le)
  have wt: "take (length w) (drop k r) = w" unfolding w_def by (metis takeWhile_eq_take)
  have tx: "take x r = take k r @ w" using wt by (simp add: xw take_add)
  have "None \<notin> set w" by (auto simp: w_def dest: set_takeWhileD)
  moreover have "None \<notin> set (take k r)"
    using m(1,3) by (meson set_take_subset_set_take subsetD)
  ultimately show f: "None \<notin> set (take x (row_at g y))" using tx by (simp add: r_def)
  have mx: "m \<le> x"
  proof (rule ccontr)
    assume "\<not> m \<le> x"
    then have "length w < length (drop k r)" "x < m" using m(1,2) by (auto simp: xw)
    then have "r ! x = None"
      using nth_length_takeWhile [of "\<lambda>c. c \<noteq> None" "drop k r", folded w_def] m(1,2) by (simp add: xw)
    then show False using m(2,3) \<open>x < m\<close> by (metis in_set_conv_nth length_take min.absorb2 nth_take)
  qed
  show "k \<le> x" by (simp add: xw)
  show xl: "x \<le> length (row_at g y)" using lw m(1,2) by (simp add: xw r_def)
  show "real_elms (drop x (row_at g y)) = []" using m(5) mx by (auto simp: r_def intro: real_elms_drop)
  have "take x r = take m r @ take (x - m) (drop m r)" using mx by (metis le_add_diff_inverse take_add)
  moreover have "real_elms (take (x - m) (drop m r)) = []"
    using m(5) by (meson in_set_takeD real_elms_Nil_iff)
  ultimately show "real_elms (take x (row_at g y)) = take k cells" using m(4) by (simp add: r_def)
qed

lemma real_elms_slots: "x < i \<or> y2 \<noteq> y \<Longrightarrow> real_elms (map (\<lambda>j. Some (slot_of p td rs cs y x y2 j)) [i..<n]) = []"
  by (auto simp: real_elms_Nil_iff slot_of_def)

lemma row_inv_covered:
  assumes "row_inv cells k (row_at g y)" "x = skip_filled g y k" "cs \<ge> 1" "k < length cells" "td = cells ! k"
  shows "row_inv cells (Suc k) (covered p td rs cs y x y (row_at g y))"
proof -
  note sk = skip_filled_row_inv [OF assms(1,2)]
  let ?r = "row_at g y"
  have up: "[x..<x + nat cs] = x # [Suc x..<x + nat cs]" using assms(3) by (simp add: upt_conv_Cons)
  let ?tl = "map (\<lambda>j. Some (slot_of p td rs cs y x y j)) [Suc x..<x + nat cs] @ drop (x + nat cs) ?r"
  have c: "covered p td rs cs y x y ?r = (take x ?r @ [Some (slot_of p td rs cs y x y x)]) @ ?tl"
    using sk(2) by (simp add: covered_def up)
  have len: "length (take x ?r @ [Some (slot_of p td rs cs y x y x)]) = Suc x" using sk(2) by simp
  have "real_elms ?tl = []" using real_elms_drop [OF sk(5), of "x + nat cs"] sk(5)
    by (simp add: real_elms_slots real_elms_drop)
  then have "Suc k \<le> Suc x \<and> Suc x \<le> length (covered p td rs cs y x y ?r) \<and> None \<notin> set (take (Suc x) (covered p td rs cs y x y ?r))
     \<and> real_elms (take (Suc x) (covered p td rs cs y x y ?r)) = take (Suc k) cells \<and> real_elms (drop (Suc x) (covered p td rs cs y x y ?r)) = []"
    unfolding c using sk len assms(4,5) by (simp add: slot_of_def take_Suc_conv_app_nth)
  then show ?thesis unfolding row_inv_def by blast
qed

lemma real_elms_covered_below:
  "y2 \<noteq> y \<Longrightarrow> real_elms r = [] \<Longrightarrow> real_elms (covered p td rs cs y x y2 r) = []"
  by (auto simp: covered_def real_elms_slots real_elms_Nil_iff dest: in_set_takeD in_set_dropD)

text \<open>Every slot has a real slot of the same cell at or before it.\<close>

definition owned :: "grid \<Rightarrow> bool" where
  "owned g \<longleftrightarrow> (\<forall>y x c. grid_at g y x = Some c \<longrightarrow>
     (\<exists>y0 x0 c0. grid_at g y0 x0 = Some c0 \<and> gc_real c0 \<and> gc_elm c0 = gc_elm c \<and> (y0 < y \<or> y0 = y \<and> x0 \<le> x)))"

definition layout :: "nat list list \<Rightarrow> nat \<Rightarrow> nat \<Rightarrow> grid \<Rightarrow> bool" where
  "layout rows y k g \<longleftrightarrow> (\<forall>y'<y. real_elms (row_at g y') = rows ! y') \<and> row_inv (rows ! y) k (row_at g y)
     \<and> (\<forall>y'>y. real_elms (row_at g y') = []) \<and> owned g"

lemma layout_no_real:
  assumes "layout rows y k g" "x = skip_filled g y k" "grid_at g y' x' = Some c" "y < y' \<or> y' = y \<and> x \<le> x'"
  shows "\<not> gc_real c"
proof (cases "y' = y")
  case True
  have "x' < length (row_at g y)" "row_at g y ! x' = Some c"
    using assms(3) True by (auto simp: grid_at_def nth_opt_def split: option.splits if_splits)
  then have "Some c \<in> set (drop x (row_at g y))"
    using assms(4) True by (auto simp: in_set_conv_nth intro!: exI [of _ "x' - x"])
  moreover have "real_elms (drop x (row_at g y)) = []"
    using assms(1,2) by (intro skip_filled_row_inv) (auto simp: layout_def)
  ultimately show ?thesis by (simp add: real_elms_Nil_iff)
next
  case False
  then have "real_elms (row_at g y') = []" using assms(1,4) by (simp add: layout_def)
  then show ?thesis using grid_at_in_row [OF assms(3)] by (simp add: real_elms_Nil_iff)
qed

lemma owned_place_cell:
  assumes lay: "layout rows y k g" and sp: "rowspan_of s td \<ge> 1" "colspan_of s td \<ge> 1"
  shows "owned (place_cell s p y (k, td) g)" (is "owned ?h")
  unfolding owned_def
proof (intro allI impI)
  fix y' x' c assume c: "grid_at ?h y' x' = Some c"
  define x where "x = skip_filled g y k"
  note at = grid_at_place_cell [OF sp x_def]
  show "\<exists>y0 x0 c0. grid_at ?h y0 x0 = Some c0 \<and> gc_real c0 \<and> gc_elm c0 = gc_elm c \<and> (y0 < y' \<or> y0 = y' \<and> x0 \<le> x')"
  proof (cases "y \<le> y' \<and> y' < y + nat (rowspan_of s td) \<and> x \<le> x' \<and> x' < x + nat (colspan_of s td)")
    case True
    then have "gc_elm c = td" using c by (auto simp: at slot_of_def)
    moreover have "grid_at ?h y x = Some (slot_of p td (rowspan_of s td) (colspan_of s td) y x y x)" using sp by (simp add: at)
    ultimately show ?thesis using True by (intro exI [of _ y] exI [of _ x]) (auto simp: slot_of_def)
  next
    case False
    then have "grid_at g y' x' = Some c" using c by (simp add: at split: if_splits)
    then obtain y0 x0 c0 where o: "grid_at g y0 x0 = Some c0" "gc_real c0" "gc_elm c0 = gc_elm c" "y0 < y' \<or> y0 = y' \<and> x0 \<le> x'"
      using lay by (auto simp: layout_def owned_def; blast)
    have "\<not> (y < y0 \<or> y0 = y \<and> x \<le> x0)" using layout_no_real [OF lay x_def o(1)] o(2) by blast
    then have "grid_at ?h y0 x0 = Some c0" unfolding at using o(1) by auto
    then show ?thesis using o by blast
  qed
qed

lemma layout_place_cell:
  assumes lay: "layout rows y k g" and sp: "rowspan_of s td \<ge> 1" "colspan_of s td \<ge> 1"
    and k: "k < length (rows ! y)" "td = rows ! y ! k"
  shows "layout rows y (Suc k) (place_cell s p y (k, td) g)" (is "layout _ _ _ ?h")
proof -
  have "row_inv (rows ! y) (Suc k) (row_at ?h y)"
    using row_inv_covered [OF _ refl sp(2) k] lay sp by (simp add: row_at_place_cell layout_def)
  moreover have "real_elms (row_at ?h y') = []" if "y < y'" for y'
    using that lay sp by (simp add: row_at_place_cell layout_def real_elms_covered_below)
  moreover have "row_at ?h y' = row_at g y'" if "y' < y" for y' using that sp by (simp add: row_at_place_cell)
  ultimately show ?thesis using lay owned_place_cell [OF lay sp] by (simp add: layout_def)
qed

definition spans_ok :: "tgrid \<Rightarrow> bool" where
  "spans_ok s \<longleftrightarrow> (\<forall>td\<in>set (doc_cells s). rowspan_of s td \<ge> 1 \<and> colspan_of s td \<ge> 1)"

definition cells_by_row :: "tgrid \<Rightarrow> nat list list" where
  "cells_by_row s = map (tg_rows s) (table_rows s)"

lemma ex_tpart: "(\<exists>p. P p) \<longleftrightarrow> P THead \<or> P TBody \<or> P TFoot"
  by (metis tpart.exhaust)

lemma set_table_rows: "set (table_rows s) = set (doc_rows s)"
proof -
  have "tr \<in> set (table_rows s) \<longleftrightarrow> (\<exists>p. tr \<in> set (rows_of p (tg_sections s)))" for tr
    unfolding ex_tpart by (auto simp: table_rows_def part_rows_def image_Un image_image)
  moreover have "(\<exists>p. tr \<in> set (rows_of p secs)) \<longleftrightarrow> tr \<in> set (concat (map snd secs))" for tr secs
    by (auto simp: rows_of_def) (force+)
  ultimately show ?thesis by (auto simp: doc_rows_def)
qed

lemma place_cells_layout:
  assumes "layout rows y k g" "drop k (rows ! y) = cs" "\<forall>td\<in>set (rows ! y). rowspan_of s td \<ge> 1 \<and> colspan_of s td \<ge> 1" "k \<le> length (rows ! y)"
  shows "layout rows y (length (rows ! y)) (fold (place_cell s p y) (List.enumerate k cs) g)"
  using assms
proof (induction cs arbitrary: k g)
  case (Cons td cs)
  then have k: "k < length (rows ! y)" by (metis drop_all leI list.distinct(1))
  then have td: "td = rows ! y ! k" and cs: "drop (Suc k) (rows ! y) = cs"
    using Cons.prems(2) by (simp_all add: Cons_nth_drop_Suc [symmetric])
  then have "layout rows y (Suc k) (place_cell s p y (k, td) g)"
    using Cons.prems(1,3) k by (intro layout_place_cell) simp_all
  then show ?case using Cons.IH [of "Suc k"] cs Cons.prems(3) k by simp
qed simp

lemma layout_next:
  assumes "layout rows y (length (rows ! y)) g"
  shows "layout rows (Suc y) 0 g"
proof -
  have "real_elms (row_at g y) = rows ! y" using assms row_inv_real by (fastforce simp: layout_def)
  then show ?thesis using assms by (auto simp: layout_def less_Suc_eq intro: row_inv_init)
qed

lemma place_rows_layout:
  assumes "layout (map (tg_rows s) (map snd (done @ prs))) (length done) 0 g"
    "\<forall>tr\<in>snd ` set prs. \<forall>td\<in>set (tg_rows s tr). rowspan_of s td \<ge> 1 \<and> colspan_of s td \<ge> 1"
  shows "layout (map (tg_rows s) (map snd (done @ prs))) (length (done @ prs)) 0 (fold (place_row s) (List.enumerate (length done) prs) g)"
  using assms
proof (induction prs arbitrary: "done" g)
  case (Cons pr prs)
  obtain p tr where pr: "pr = (p, tr)" by fastforce
  let ?rows = "map (tg_rows s) (map snd (done @ pr # prs))"
  have row: "?rows ! length done = tg_rows s tr" by (simp add: nth_append pr)
  have "layout ?rows (length done) (length (?rows ! length done)) (place_row s (length done, pr) g)"
    unfolding place_row_def pr prod.case row [symmetric, unfolded pr]
    using Cons.prems place_cells_layout [of ?rows "length done" 0 g "tg_rows s tr" s p] by (auto simp: row nth_append pr)
  then show ?case using Cons.IH [of "done @ [pr]" "place_row s (length done, pr) g"] Cons.prems(2) layout_next
    by fastforce
qed simp

lemma build_layout:
  assumes "spans_ok s"
  shows "layout (cells_by_row s) (length (cells_by_row s)) 0 (build s)"
proof -
  have "row_inv c 0 []" for c by (simp add: row_inv_init)
  then have "layout (cells_by_row s) 0 0 []" by (simp add: layout_def owned_def)
  moreover have "\<forall>tr\<in>snd ` set (part_rows (tg_sections s)). \<forall>td\<in>set (tg_rows s tr). rowspan_of s td \<ge> 1 \<and> colspan_of s td \<ge> 1"
    using assms set_table_rows [of s] by (auto simp: spans_ok_def doc_cells_def table_rows_def)
  ultimately show ?thesis using place_rows_layout [of s "[]" "part_rows (tg_sections s)" "[]"]
    by (simp add: cells_by_row_def table_rows_def build_def)
qed

section \<open>Finding a cell\<close>

definition no_holes :: "grid \<Rightarrow> bool" where
  "no_holes g \<longleftrightarrow> list_all (\<lambda>r. case r of None \<Rightarrow> True | Some cs \<Rightarrow> None \<notin> set cs) g"

abbreviation slot_less :: "nat \<times> nat \<times> gcell option \<Rightarrow> nat \<times> nat \<times> gcell option \<Rightarrow> bool" where
  "slot_less \<equiv> \<lambda>(y, x, _) (y', x', _). y < y' \<or> y = y' \<and> x < x'"

lemma slots_in: "(y, x, c) \<in> set (slots g) \<longleftrightarrow> (\<exists>cs. nth_opt g y = Some (Some cs) \<and> nth_opt cs x = Some c)"
  by (force simp: slots_def in_set_enumerate_eq nth_opt_def split: option.splits)

lemma slots_in_Some: "(y, x, Some c) \<in> set (slots g) \<longleftrightarrow> grid_at g y x = Some c"
  by (auto simp: slots_in grid_at_def row_at_def split: option.splits) (auto simp: nth_opt_def)

lemma no_holes_slots: "no_holes g \<Longrightarrow> (y, x, None) \<notin> set (slots g)"
proof
  assume "no_holes g" "(y, x, None) \<in> set (slots g)"
  then obtain cs where "Some cs \<in> set g" "None \<in> set cs"
    by (auto simp: slots_in nth_opt_def split: if_splits) (metis nth_mem)
  then show False using \<open>no_holes g\<close> by (auto simp: no_holes_def list_all_iff)
qed

lemma row_slots_sorted: "sorted_wrt slot_less (map (Pair y) (List.enumerate n cs))"
  by (induction cs arbitrary: n) (auto simp: in_set_enumerate_eq)

lemma slots_sorted: "sorted_wrt slot_less (slots g)"
proof -
  let ?row = "\<lambda>(y, r). case r of None \<Rightarrow> [] | Some cs \<Rightarrow> map (\<lambda>(x, c). (y, x, c)) (List.enumerate 0 cs)"
  have ge: "n \<le> y" if "(y, x, c) \<in> set (concat (map ?row (List.enumerate n rs)))" for n y x c and rs :: grid
    using that by (auto simp: in_set_enumerate_eq split: option.splits)
  have "sorted_wrt slot_less (concat (map ?row (List.enumerate n rs)))" for n and rs :: grid
  proof (induction rs arbitrary: n)
    case (Cons r rs)
    have "sorted_wrt slot_less (?row (n, r))" by (cases r) (simp_all add: row_slots_sorted)
    moreover have "slot_less a b" if "a \<in> set (?row (n, r))" "b \<in> set (concat (map ?row (List.enumerate (Suc n) rs)))" for a b
    proof -
      obtain y x c where b: "b = (y, x, c)" by (cases b)
      then have "Suc n \<le> y" using that(2) ge by blast
      then show ?thesis using that(1) b by (auto split: option.splits)
    qed
    ultimately show ?case using Cons [of "Suc n"] by (simp only: enumerate_simps list.map concat.simps sorted_wrt_append) blast
  qed simp
  then show ?thesis by (simp add: slots_def)
qed

lemma find_pos_first:
  assumes "\<exists>y x c. (y, x, Some c) \<in> set ss \<and> gc_elm c = td" "\<And>y x. (y, x, None) \<notin> set ss"
  shows "\<exists>pre y x c post. ss = pre @ (y, x, Some c) # post \<and> gc_elm c = td \<and> find_pos td ss = Some (Some (x, y))
    \<and> (\<forall>y' x' c'. (y', x', Some c') \<in> set pre \<longrightarrow> gc_elm c' \<noteq> td)"
  using assms
proof (induction ss)
  case (Cons a ss)
  obtain y x c where a: "a = (y, x, Some c)" using Cons.prems(2) by (metis list.set_intros(1) not_Some_eq prod_cases3)
  show ?case
  proof (cases "gc_elm c = td")
    case True
    then show ?thesis by (intro exI [of _ "[]"]) (simp add: a)
  next
    case False
    then obtain pre y' x' c' post where "ss = pre @ (y', x', Some c') # post" "gc_elm c' = td" "find_pos td ss = Some (Some (x', y'))"
      "\<forall>y' x' c'. (y', x', Some c') \<in> set pre \<longrightarrow> gc_elm c' \<noteq> td"
      using Cons.IH Cons.prems a by (metis list.set_intros(2) option.inject prod.inject set_ConsD)
    then show ?thesis using False a by (intro exI [of _ "a # pre"]) auto
  qed
qed simp

lemma getPos_real:
  assumes "owned (tg_grid s)" "no_holes (tg_grid s)" "grid_at (tg_grid s) y0 x0 = Some c0" "gc_elm c0 = td"
  shows "\<exists>x y c. getPos td s = Some (Some (x, y)) \<and> grid_at (tg_grid s) y x = Some c \<and> gc_elm c = td \<and> gc_real c"
proof -
  let ?ss = "slots (tg_grid s)"
  have "\<exists>y x c. (y, x, Some c) \<in> set ?ss \<and> gc_elm c = td" using assms(3,4) slots_in_Some by blast
  from find_pos_first [OF this no_holes_slots [OF assms(2)]] obtain pre y x c post
    where f: "?ss = pre @ (y, x, Some c) # post" "gc_elm c = td" "find_pos td ?ss = Some (Some (x, y))"
      "\<forall>y' x' c'. (y', x', Some c') \<in> set pre \<longrightarrow> gc_elm c' \<noteq> td" by blast
  have at: "grid_at (tg_grid s) y x = Some c" using f(1) slots_in_Some by (metis in_set_conv_decomp)
  then obtain y1 x1 c1 where o: "grid_at (tg_grid s) y1 x1 = Some c1" "gc_real c1" "gc_elm c1 = td" "y1 < y \<or> y1 = y \<and> x1 \<le> x"
    using assms(1) f(2) by (metis owned_def)
  have "(y1, x1, Some c1) \<in> set ?ss" using o(1) slots_in_Some by blast
  then consider "(y1, x1, Some c1) \<in> set pre" | "(y1, x1, Some c1) = (y, x, Some c)" | "(y1, x1, Some c1) \<in> set post"
    by (auto simp: f(1))
  then have "c1 = c"
  proof cases
    case 3
    then have "y < y1 \<or> y = y1 \<and> x < x1" using slots_sorted [of "tg_grid s"] by (fastforce simp: f(1) sorted_wrt_append)
    then show ?thesis using o(4) by auto
  qed (use f(4) o(3) in auto)
  then show ?thesis using f at o(2) by (auto simp: getPos_def)
qed

lemma real_slots_of_row:
  assumes "spans_ok s"
  shows "real_elms (row_at (build s) y) = (if y < length (cells_by_row s) then cells_by_row s ! y else [])"
proof -
  have "real_elms (row_at (build s) y) = []" if "y = length (cells_by_row s)"
    using build_layout [OF assms] row_inv_real [of _ 0] that by (fastforce simp: layout_def)
  then show ?thesis using build_layout [OF assms] by (cases y "length (cells_by_row s)" rule: linorder_cases) (auto simp: layout_def)
qed

lemma spans_ok_build [simp]: "spans_ok (buildGrid s) = spans_ok s" "cells_by_row (buildGrid s) = cells_by_row s" "build (buildGrid s) = build s"
proof -
  have "place_cell (buildGrid s) = place_cell s" by (intro ext) (simp add: place_cell_def rowspan_of_def colspan_of_def buildGrid_def)
  then have "place_row (buildGrid s) = place_row s" by (intro ext) (simp add: place_row_def buildGrid_def)
  then show "build (buildGrid s) = build s" by (simp add: build_def) (simp add: buildGrid_def)
qed (simp_all add: spans_ok_def cells_by_row_def table_rows_def doc_cells_def doc_rows_def rowspan_of_def colspan_of_def buildGrid_def)

lemma distinct_concat_row: "distinct (concat xss) \<Longrightarrow> i < length xss \<Longrightarrow> j < length xss \<Longrightarrow> a \<in> set (xss ! i) \<Longrightarrow> a \<in> set (xss ! j) \<Longrightarrow> i = j"
proof (induction xss arbitrary: i j)
  case (Cons xs xss)
  have "a \<notin> set xs" if "a \<in> set (xss ! k)" "k < length xss" for k
    using Cons.prems(1) that by (auto dest: nth_mem)
  then show ?case using Cons by (auto simp: nth_Cons split: nat.splits)
qed simp

section \<open>Tables for examples\<close>

definition sample_cell :: "string \<Rightarrow> int \<Rightarrow> int \<Rightarrow> bool \<Rightarrow> cell" where
  "sample_cell t rs cs sel = \<lparr>ce_name = ''TD'', ce_attrs = [], ce_rowspan = span_attr rs, ce_colspan = span_attr cs,
     ce_selected = sel, ce_content = [CText t]\<rparr>"

text \<open>A table with one body, its rows named from 50 on, and the cells that are not plain.\<close>

definition sample_table :: "nat list list \<Rightarrow> (nat \<times> cell) list \<Rightarrow> tgrid" where
  "sample_table rows cells = \<lparr>tg_sections = [(TBody, [50..<50 + length rows])],
     tg_rows = (\<lambda>r. if 50 \<le> r \<and> r < 50 + length rows then rows ! (r - 50) else []),
     tg_cells = (\<lambda>c. case map_of cells c of Some e \<Rightarrow> e | None \<Rightarrow> sample_cell ''x'' 1 1 False),
     tg_fresh = 100, tg_formats = [''STRONG''], tg_ie = False, tg_grid = [], tg_build = 0, tg_startPos = None, tg_endPos = None,
     tg_selectedCell = None, tg_removed = False, tg_caret = None\<rparr>"

text \<open>A cell over two rows and two columns, with cells beside and below it.\<close>

definition wide_table :: tgrid where
  "wide_table = sample_table [[1, 2], [3], [4, 5, 6]] [(1, sample_cell ''A'' 2 2 False)]"

text \<open>C16. When every span is positive, the real slots of a row of the grid are exactly the cells of the
  row of the table that it stands for, from left to right; rows of the grid beyond the table have
  none; and every slot belongs to a cell with a real slot at or before it in reading order.\<close>

theorem grid_shows_rows:
  assumes "spans_ok s"
  shows "real_elms (row_at (build s) y) = (if y < length (table_rows s) then tg_rows s (table_rows s ! y) else [])
    \<and> (grid_at (build s) y x = Some c \<longrightarrow>
      (\<exists>y0 x0 c0. grid_at (build s) y0 x0 = Some c0 \<and> gc_real c0 \<and> gc_elm c0 = gc_elm c \<and> (y0 < y \<or> y0 = y \<and> x0 \<le> x)))"
  using real_slots_of_row [OF assms, of y] build_layout [OF assms] by (simp add: cells_by_row_def layout_def owned_def)

theorem grid_shows_rows_witness:
  "real_elms (row_at (build wide_table) 1) = [3]
   \<and> (\<exists>y0 x0 c0. grid_at (build wide_table) y0 x0 = Some c0 \<and> gc_real c0 \<and> gc_elm c0 = 1 \<and> (y0 < 1 \<or> y0 = 1 \<and> x0 \<le> 1))"
proof -
  have ok: "spans_ok wide_table" by code_simp
  have "map_option gc_elm (grid_at (build wide_table) 1 1) = Some 1" by code_simp
  then obtain c where c: "grid_at (build wide_table) 1 1 = Some c" "gc_elm c = 1" by auto
  have rows: "table_rows wide_table = [50, 51, 52]" "tg_rows wide_table 51 = [3]" by code_simp+
  show ?thesis using grid_shows_rows [OF ok, of 1 1 c] c by (simp add: rows)
qed

text \<open>In a table with positive spans whose grid has no holes, \<open>getPos\<close> returns for every cell
  the position of its real slot, which is in the row of the cell.\<close>

lemma getPos_finds_cell:
  assumes "spans_ok s" "no_holes (build s)" "distinct (concat (map (tg_rows s) (table_rows s)))"
    and "y < length (table_rows s)" "td \<in> set (tg_rows s (table_rows s ! y))"
  shows "\<exists>x c. getPos td (buildGrid s) = Some (Some (x, y)) \<and> grid_at (build s) y x = Some c \<and> gc_elm c = td \<and> gc_real c"
proof -
  have g: "tg_grid (buildGrid s) = build s" by (simp add: buildGrid_def)
  have own: "owned (build s)" using build_layout [OF assms(1)] by (simp add: layout_def)
  have "td \<in> set (real_elms (row_at (build s) y))"
    using real_slots_of_row [OF assms(1), of y] assms(4,5) by (simp add: cells_by_row_def)
  then obtain x0 c0 where "grid_at (build s) y x0 = Some c0" "gc_elm c0 = td"
    using real_elms_set in_row_grid_at by metis
  then obtain x y' c where p: "getPos td (buildGrid s) = Some (Some (x, y'))" "grid_at (build s) y' x = Some c" "gc_elm c = td" "gc_real c"
    using getPos_real [of "buildGrid s"] own assms(2) g by metis
  then have "td \<in> set (real_elms (row_at (build s) y'))" using grid_at_in_row real_elms_set by blast
  then have "y' < length (cells_by_row s)" "td \<in> set (cells_by_row s ! y')"
    using real_slots_of_row [OF assms(1), of y'] by (auto split: if_splits)
  then have "y' = y" using assms(3-5) by (intro distinct_concat_row [of "cells_by_row s"]) (auto simp: cells_by_row_def)
  then show ?thesis using p by blast
qed


end
