(* ===== verification/TableText.thy ===== *)
theory TableText
  imports TableLayout "HOL-Library.Multiset"
begin

text \<open>
  The text of a table under the operations: splitting and inserting keep the texts in their
  order, merging keeps all of them.
\<close>

section \<open>The texts\<close>

fun node_texts :: "cnode \<Rightarrow> string list" where
  "node_texts (CText t) = [t]"
| "node_texts CBogus = []"
| "node_texts (CElem n as ch) = concat (map node_texts ch)"

definition texts :: "cnode list \<Rightarrow> string list" where
  "texts ns = concat (map node_texts ns)"

definition cell_texts :: "tgrid \<Rightarrow> nat \<Rightarrow> string list" where
  "cell_texts s td = texts (ce_content (tg_cells s td))"

definition table_texts :: "tgrid \<Rightarrow> string list" where
  "table_texts s = concat (map (cell_texts s) (doc_cells s))"

text \<open>No row and no cell is in the document twice, and their names are taken.\<close>

definition doc_ok :: "tgrid \<Rightarrow> bool" where
  "doc_ok s \<longleftrightarrow> distinct (doc_rows s) \<and> distinct (doc_cells s) \<and> list_all (\<lambda>tr. tr < tg_fresh s) (doc_rows s)
     \<and> list_all (\<lambda>td. td < tg_fresh s) (doc_cells s)"

definition same_text :: "tgrid \<Rightarrow> tgrid \<Rightarrow> bool" where
  "same_text s0 s \<longleftrightarrow> doc_ok s \<and> \<not> tg_ie s \<and> table_texts s = table_texts s0"

lemma fold_opt_inv:
  assumes "\<And>x s t. P s \<Longrightarrow> f x s = Some t \<Longrightarrow> P t" "P s" "fold_opt f xs s = Some t"
  shows "P t"
  using assms(2,3) by (induction xs arbitrary: s) (auto split: option.splits intro: assms(1))

lemma node_texts_nest [simp]: "node_texts (nest_formats False ps) = []"
  by (induction ps rule: nest_formats.induct [where ?P = "\<lambda>_ ps. node_texts (nest_formats False ps) = []"])
    (auto simp: filler_def)

lemma texts_clone: "\<not> tg_ie s \<Longrightarrow> texts (clone_content s ns) = []"
  by (auto simp: clone_content_def texts_def simp del: nest_formats.simps split: list.splits)

section \<open>Inserting cells\<close>

text \<open>A function that puts one new element into a list, or nothing.\<close>

definition adds :: "nat \<Rightarrow> (nat list \<Rightarrow> nat list) \<Rightarrow> bool" where
  "adds new f \<longleftrightarrow> (\<forall>xs. (f xs = xs \<or> mset (f xs) = add_mset new (mset xs))
     \<and> (\<forall>ct :: nat \<Rightarrow> string list. ct new = [] \<longrightarrow> concat (map ct (f xs)) = concat (map ct xs)))"

lemma adds_insert [simp]: "adds new (insert_before new ref)" "adds new (insert_after new ref)"
proof -
  have "insert_before new ref xs = xs \<or> mset (insert_before new ref xs) = add_mset new (mset xs)" for xs
    by (induction xs) auto
  moreover have "ct new = [] \<Longrightarrow> concat (map ct (insert_before new ref xs)) = concat (map ct xs)" for xs and ct :: "nat \<Rightarrow> string list"
    by (induction xs) auto
  moreover have "insert_after new ref xs = xs \<or> mset (insert_after new ref xs) = add_mset new (mset xs)" for xs
    by (induction xs) auto
  moreover have "ct new = [] \<Longrightarrow> concat (map ct (insert_after new ref xs)) = concat (map ct xs)" for xs and ct :: "nat \<Rightarrow> string list"
    by (induction xs) auto
  ultimately show "adds new (insert_before new ref)" "adds new (insert_after new ref)"
    by (auto simp: adds_def)
qed

lemma adds_Cons [simp]: "adds new (\<lambda>cs. new # cs)"
  by (simp add: adds_def)

lemma adds_either: "adds new ((if b then insert_before else insert_after) new ref)"
  by simp

lemma doc_cells_upd_row:
  assumes "distinct (doc_rows s)" "adds new f"
  shows "doc_cells (upd_row tr f s) = doc_cells s \<or> mset (doc_cells (upd_row tr f s)) = add_mset new (mset (doc_cells s))"
proof -
  let ?R = "tg_rows s"
  let ?R' = "?R(tr := f (?R tr))"
  have "concat (map ?R' rs) = concat (map ?R rs)" if "tr \<notin> set rs" for rs
    using that by (induction rs) auto
  then have "concat (map ?R' rs) = concat (map ?R rs) \<or> mset (concat (map ?R' rs)) = add_mset new (mset (concat (map ?R rs)))"
    if "distinct rs" for rs
    using that assms(2) by (induction rs) (auto simp: adds_def)
  then show ?thesis using assms(1) by (simp add: doc_cells_def upd_row_def doc_rows_def)
qed

lemma texts_upd_row:
  assumes "adds new f" "cell_texts s new = []"
  shows "table_texts (upd_row tr f s) = table_texts s"
proof -
  have "concat (map (cell_texts s) (concat (map ((tg_rows s)(tr := f (tg_rows s tr))) rs))) = concat (map (cell_texts s) (concat (map (tg_rows s) rs)))" for rs
    using assms by (induction rs) (auto simp: adds_def)
  moreover have "cell_texts (upd_row tr f s) = cell_texts s" by (intro ext) (simp add: cell_texts_def upd_row_def)
  ultimately show ?thesis by (simp add: table_texts_def doc_cells_def upd_row_def doc_rows_def)
qed

lemma doc_ok_new:
  assumes "doc_ok s" "doc_rows t = doc_rows s" "tg_fresh t = Suc (tg_fresh s)"
    and "doc_cells t = doc_cells s \<or> mset (doc_cells t) = add_mset (tg_fresh s) (mset (doc_cells s))"
  shows "doc_ok t"
proof -
  have less: "set (doc_cells s) \<subseteq> {..<tg_fresh s}" "set (doc_rows s) \<subseteq> {..<tg_fresh s}"
    using assms(1) by (auto simp: doc_ok_def list_all_iff)
  have "distinct (doc_cells t) \<and> set (doc_cells t) \<subseteq> {..<Suc (tg_fresh s)}"
  proof (cases "doc_cells t = doc_cells s")
    case False
    then have m: "mset (doc_cells t) = mset (tg_fresh s # doc_cells s)" using assms(4) by simp
    then have "distinct (doc_cells t)" using assms(1) less by (subst mset_eq_imp_distinct_iff [OF m]) (auto simp: doc_ok_def)
    moreover have "set (doc_cells t) = insert (tg_fresh s) (set (doc_cells s))" using mset_eq_setD [OF m] by simp
    ultimately show ?thesis using less by auto
  qed (use assms(1) less in \<open>auto simp: doc_ok_def\<close>)
  then show ?thesis using assms(1-3) less by (auto simp: doc_ok_def list_all_iff)
qed

lemma doc_ok_clone_into:
  assumes s: "doc_ok s" and c: "cloneCell td s = (new, t)" and f: "adds new f"
  shows "doc_ok (upd_row tr f t)"
proof -
  have new: "new = tg_fresh s" and t: "tg_sections t = tg_sections s" "tg_rows t = tg_rows s" "tg_fresh t = Suc (tg_fresh s)"
    using c by (auto simp: cloneCell_def)
  have dt: "doc_rows t = doc_rows s" "doc_cells t = doc_cells s" by (simp_all add: t doc_rows_def doc_cells_def)
  have "distinct (doc_rows t)" using s by (simp add: dt doc_ok_def)
  from doc_cells_upd_row [OF this f, of tr]
  have cells: "doc_cells (upd_row tr f t) = doc_cells s \<or> mset (doc_cells (upd_row tr f t)) = add_mset (tg_fresh s) (mset (doc_cells s))"
    by (simp only: dt new)
  have "doc_rows (upd_row tr f t) = doc_rows s" "tg_fresh (upd_row tr f t) = Suc (tg_fresh s)"
    by (simp_all add: upd_row_def doc_rows_def t)
  then show ?thesis by (rule doc_ok_new [OF s _ _ cells])
qed

lemma same_text_clone_into:
  assumes s: "same_text s0 s" and c: "cloneCell td s = (new, t)" and f: "adds new f"
  shows "same_text s0 (upd_row tr f t)"
proof -
  have new: "new = tg_fresh s" and t: "t = s\<lparr>tg_cells := (tg_cells s)(tg_fresh s := cloned_cell s (tg_cells s td)), tg_fresh := Suc (tg_fresh s)\<rparr>"
    using c by (auto simp: cloneCell_def)
  have ok: "doc_ok s" "\<not> tg_ie s" "table_texts s = table_texts s0" using s by (auto simp: same_text_def)
  have dt: "doc_rows t = doc_rows s" "doc_cells t = doc_cells s" by (simp_all add: t doc_rows_def doc_cells_def)
  have "cell_texts t new = []" using ok(2) by (simp add: cell_texts_def t new cloned_cell_def texts_clone)
  then have "table_texts (upd_row tr f t) = table_texts t" using f texts_upd_row by blast
  also have "table_texts t = table_texts s"
  proof -
    have "cell_texts t td' = cell_texts s td'" if "td' \<in> set (doc_cells s)" for td'
      using that ok(1) by (auto simp: cell_texts_def t doc_ok_def list_all_iff)
    then show ?thesis by (simp add: table_texts_def dt cong: map_cong)
  qed
  finally have tx: "table_texts (upd_row tr f t) = table_texts s" .
  have "tg_ie (upd_row tr f t) = tg_ie s" by (simp add: upd_row_def t)
  then show ?thesis using ok tx doc_ok_clone_into [OF ok(1) c f] by (simp add: same_text_def)
qed

lemma same_text_upd_cell:
  assumes "same_text s0 s" "\<And>c. ce_content (f c) = ce_content c"
  shows "same_text s0 (upd_cell td f s)"
proof -
  have "cell_texts (upd_cell td f s) = cell_texts s" by (intro ext) (simp add: cell_texts_def upd_cell_def assms(2))
  then show ?thesis using assms(1) by (simp add: same_text_def table_texts_def doc_ok_def) (simp add: upd_cell_def doc_cells_def doc_rows_def)
qed

lemma same_text_spans [intro]: "same_text s0 s \<Longrightarrow> same_text s0 (setRowSpan td v s)" "same_text s0 s \<Longrightarrow> same_text s0 (setColSpan td v s)"
  by (auto simp: setRowSpan_def setColSpan_def intro: same_text_upd_cell)

lemma same_text_insert_clone: "same_text s0 s \<Longrightarrow> insert_clone b td s = Some t \<Longrightarrow> same_text s0 t"
  by (auto simp: insert_clone_def insert_cell_def split: prod.splits option.splits intro!: same_text_clone_into adds_either)

lemma same_text_insert_clones: "same_text s0 s \<Longrightarrow> insert_clones n td s = Some t \<Longrightarrow> same_text s0 t"
  unfolding insert_clones_def by (rule fold_opt_inv) (auto intro: same_text_insert_clone)

lemma same_text_insert_first: "same_text s0 s \<Longrightarrow> insert_first tr s = Some t \<Longrightarrow> same_text s0 t"
  by (auto simp: insert_first_def split: prod.splits list.splits intro!: same_text_clone_into)

lemma same_text_fill_step: "same_text s0 (snd p) \<Longrightarrow> fill_step x y cols r p = Some q \<Longrightarrow> same_text s0 (snd q)"
  by (auto simp: fill_step_def split: prod.splits option.splits
      intro: same_text_insert_clones fold_opt_inv [where P = "same_text s0" and f = "\<lambda>_. insert_first _", OF same_text_insert_first])

lemma same_text_fold_pair:
  assumes "fold_opt f xs (a, s) = Some (b, t)" "same_text s0 s"
    and "\<And>x p q. same_text s0 (snd p) \<Longrightarrow> f x p = Some q \<Longrightarrow> same_text s0 (snd q)"
  shows "same_text s0 t"
  using fold_opt_inv [of "\<lambda>p. same_text s0 (snd p)" f, OF assms(3) _ assms(1)] assms(2) by simp

lemma same_text_fillLeftDown: "same_text s0 s \<Longrightarrow> fillLeftDown x y rows cols s = Some t \<Longrightarrow> same_text s0 t"
  by (auto simp: fillLeftDown_def simp del: upt_Suc split: option.splits elim: same_text_fold_pair intro: same_text_fill_step)

lemma same_text_split_slot:
  assumes "same_text s0 s" "split_slot slot s = Some t"
  shows "same_text s0 t"
proof -
  have "same_text s0 t" if "insert_clones n td (setColSpan td 1 (setRowSpan td 1 s)) = Some u" "fillLeftDown x y rs cs u = Some t" for n td u x y rs cs
    using assms(1) that by (meson same_text_fillLeftDown same_text_insert_clones same_text_spans)
  then show ?thesis using assms
    by (auto simp: split_slot_def Let_def bind_eq_Some_conv split: prod.splits option.splits if_splits)
qed

lemma same_text_split: "same_text s0 s \<Longrightarrow> split s = Some t \<Longrightarrow> same_text s0 t"
  unfolding split_def by (rule fold_opt_inv) (auto intro: same_text_split_slot)

lemma same_text_insertCol_step: "same_text s0 (snd p) \<Longrightarrow> insertCol_step b pos row p = Some q \<Longrightarrow> same_text s0 (snd q)"
  by (auto simp: insertCol_step_def Let_def bind_eq_Some_conv split: prod.splits option.splits if_splits
      intro: same_text_fillLeftDown same_text_insert_clone)

lemma same_text_insertCol: "same_text s0 s \<Longrightarrow> insertCol b s = Some t \<Longrightarrow> same_text s0 t"
  by (auto simp: insertCol_def Let_def elim: same_text_fold_pair intro: same_text_insertCol_step)

section \<open>Inserting rows\<close>

lemma adds_same [simp]: "adds new (\<lambda>xs. xs)"
  by (simp add: adds_def)

lemma same_text_cloneCell: "same_text s0 s \<Longrightarrow> cloneCell td s = (new, t) \<Longrightarrow> same_text s0 t"
  using same_text_clone_into [of s0 s td new t "\<lambda>xs. xs"] by (simp add: upd_row_def)

text \<open>The cells of a row that is not in the document yet.\<close>

definition pending :: "nat list \<Rightarrow> tgrid \<Rightarrow> bool" where
  "pending new s \<longleftrightarrow> distinct new \<and> set new \<inter> set (doc_cells s) = {} \<and> (\<forall>n\<in>set new. n < tg_fresh s \<and> cell_texts s n = [])"

abbreviation row_state :: "tgrid \<Rightarrow> nat option \<times> nat list \<times> tgrid \<Rightarrow> bool" where
  "row_state s0 \<equiv> \<lambda>(_, new, s). same_text s0 s \<and> pending new s"

lemma pending_upd_cell:
  assumes "pending new s" "\<And>c. ce_content (f c) = ce_content c"
  shows "pending new (upd_cell td f s)"
  using assms by (auto simp: pending_def cell_texts_def upd_cell_def doc_cells_def doc_rows_def)

lemma pending_cloneCell:
  assumes "pending new s" "same_text s0 s" "cloneCell td s = (n, t)"
  shows "pending (new @ [n]) t"
proof -
  have n: "n = tg_fresh s" and t: "t = s\<lparr>tg_cells := (tg_cells s)(tg_fresh s := cloned_cell s (tg_cells s td)), tg_fresh := Suc (tg_fresh s)\<rparr>"
    using assms(3) by (auto simp: cloneCell_def)
  have dc: "doc_cells t = doc_cells s" by (simp add: t doc_cells_def doc_rows_def)
  have "cell_texts t n = []" using assms(2) by (simp add: cell_texts_def t n cloned_cell_def texts_clone same_text_def)
  moreover have "cell_texts t m = cell_texts s m" if "m \<in> set new" for m
    using that assms(1) by (auto simp: pending_def cell_texts_def t)
  moreover have "n \<notin> set new" "n \<notin> set (doc_cells s)"
    using assms(1,2) by (auto simp: pending_def n same_text_def doc_ok_def list_all_iff)
  moreover have "tg_fresh t = Suc n" by (simp add: t n)
  ultimately show ?thesis using assms(1) by (auto simp: pending_def dc n intro: less_SucI)
qed

lemma row_state_new_cell: "row_state s0 p \<Longrightarrow> row_state s0 (new_row_cell td p)"
  by (auto simp: new_row_cell_def setColSpan_def split: prod.splits
      intro!: same_text_upd_cell pending_upd_cell intro: same_text_cloneCell pending_cloneCell)

lemma row_state_span: "row_state s0 (l, new, s) \<Longrightarrow> row_state s0 (l, new, setRowSpan td v s)"
  by (auto simp: setRowSpan_def intro: same_text_upd_cell pending_upd_cell)

lemma row_state_step:
  assumes "row_state s0 p" "insertRow_step b posY x p = Some q"
  shows "row_state s0 q"
proof -
  obtain l new s where p: "p = (l, new, s)" by (cases p)
  have "q = p \<or> (\<exists>td. q = new_row_cell td p) \<or> (\<exists>td v. q = (l, new, setRowSpan td v s))"
    using assms(2) by (auto simp: insertRow_step_def Let_def p split: option.splits if_splits)
  then show ?thesis
  proof (elim disjE exE)
    fix td assume "q = new_row_cell td p"
    then show ?thesis using row_state_new_cell [OF assms(1)] by simp
  next
    fix td v assume "q = (l, new, setRowSpan td v s)"
    then show ?thesis using row_state_span [OF assms(1) [unfolded p]] by simp
  qed (use assms(1) in simp)
qed

lemma remove_row_absent: "tr \<notin> set (doc_rows s) \<Longrightarrow> remove_row tr s = s"
proof -
  assume "tr \<notin> set (doc_rows s)"
  then have "map (\<lambda>(p, rs). (p, filter (\<lambda>x. x \<noteq> tr) rs)) (tg_sections s) = tg_sections s"
    by (intro map_idI) (auto simp: doc_rows_def filter_id_conv)
  then show ?thesis by (simp add: remove_row_def map_sections_def)
qed

lemma doc_rows_map_sections:
  fixes ct :: "nat \<Rightarrow> string list"
  assumes "distinct (doc_rows s)" "f = insert_before new ref \<or> f = insert_after new ref"
  shows "doc_rows (map_sections f s) = doc_rows s \<or> mset (doc_rows (map_sections f s)) = add_mset new (mset (doc_rows s))"
    and "ct new = [] \<Longrightarrow> concat (map ct (doc_rows (map_sections f s))) = concat (map ct (doc_rows s))"
proof -
  have ad: "adds new f" and ab: "\<And>xs. ref \<notin> set xs \<Longrightarrow> f xs = xs" using assms(2) insert_absent by auto
  have dr: "doc_rows (map_sections f s) = concat (map f (map snd (tg_sections s)))"
    by (simp add: doc_rows_def map_sections_def case_prod_beta comp_def)
  have no: "concat (map f xss) = concat xss" if "ref \<notin> set (concat xss)" for xss using that ab by (induction xss) auto
  have "concat (map f xss) = concat xss \<or> mset (concat (map f xss)) = add_mset new (mset (concat xss))" if "distinct (concat xss)" for xss
    using that
  proof (induction xss)
    case (Cons xs xss)
    consider "ref \<in> set xs" "ref \<notin> set (concat xss)" | "ref \<notin> set xs" using Cons.prems by auto
    then show ?case
    proof cases
      case 1
      then show ?thesis using ad no [of xss] by (auto simp: adds_def)
    next
      case 2
      then show ?thesis using Cons ab by auto
    qed
  qed simp
  then show "doc_rows (map_sections f s) = doc_rows s \<or> mset (doc_rows (map_sections f s)) = add_mset new (mset (doc_rows s))"
    using assms(1) unfolding dr doc_rows_def [of s] by blast
  have "ct new = [] \<Longrightarrow> concat (map ct (concat (map f xss))) = concat (map ct (concat xss))" for xss
    using ad by (induction xss) (auto simp: adds_def)
  from this [of "map snd (tg_sections s)"]
  show "ct new = [] \<Longrightarrow> concat (map ct (doc_rows (map_sections f s))) = concat (map ct (doc_rows s))"
    unfolding dr doc_rows_def [of s] .
qed

lemma concat_map_concat: "concat (map ct (concat (map R xs))) = concat (map (\<lambda>x. concat (map ct (R x))) xs)"
  by (induction xs) auto

lemma mset_concat_map_cong:
  assumes "mset xs = mset ys"
  shows "mset (concat (map R xs)) = mset (concat (map R ys))"
proof -
  have "mset (concat (map R zs)) = sum_mset (image_mset (\<lambda>z. mset (R z)) (mset zs))" for zs
    by (induction zs) auto
  then show ?thesis using assms by simp
qed

lemma texts_insert_row:
  assumes ok: "same_text s0 s" and p: "pending new s"
    and t: "t = s\<lparr>tg_rows := (tg_rows s)(tg_fresh s := new), tg_fresh := Suc (tg_fresh s)\<rparr>"
  shows "same_text s0 (insert_row_at b (tg_fresh s) ref t)"
proof -
  let ?n = "tg_fresh s"
  define f where "f = (if b then insert_before else insert_after) ?n ref"
  have f: "f = insert_before ?n ref \<or> f = insert_after ?n ref" by (simp add: f_def)
  have s: "doc_ok s" "table_texts s = table_texts s0" "\<not> tg_ie s" using ok by (auto simp: same_text_def)
  have less: "set (doc_rows s) \<subseteq> {..<?n}" "set (doc_cells s) \<subseteq> {..<?n}" using s(1) by (auto simp: doc_ok_def list_all_iff)
  have rt: "doc_rows t = doc_rows s" and ct: "cell_texts t = cell_texts s" and ft: "tg_fresh t = Suc ?n" "tg_ie t = tg_ie s"
    by (auto simp: t doc_rows_def cell_texts_def)
  have "map (tg_rows t) (doc_rows s) = map (tg_rows s) (doc_rows s)" using less by (auto simp: t)
  then have cd: "concat (map (tg_rows t) (doc_rows s)) = concat (map (tg_rows s) (doc_rows s))" by (rule arg_cong)
  then have dt: "doc_cells t = doc_cells s" by (simp only: doc_cells_def rt)
  have st: "same_text s0 t"
    using s less by (auto simp: same_text_def doc_ok_def rt dt ft table_texts_def ct list_all_iff)
  define u where "u = map_sections f t"
  have u: "tg_rows u = tg_rows t" "cell_texts u = cell_texts s" "tg_fresh u = Suc ?n" "tg_ie u = tg_ie s"
    by (auto simp: u_def map_sections_def ft ct [symmetric] cell_texts_def fun_eq_iff)
  have dr: "distinct (doc_rows t)" using s(1) by (simp add: rt doc_ok_def)
  have "concat (map (\<lambda>x. concat (map (cell_texts s) (tg_rows t x))) (doc_rows u)) = concat (map (\<lambda>x. concat (map (cell_texts s) (tg_rows t x))) (doc_rows t))"
    unfolding u_def using p by (intro doc_rows_map_sections(2) [OF dr f]) (auto simp: t pending_def)
  then have tx: "table_texts u = table_texts s"
    by (simp add: table_texts_def doc_cells_def u concat_map_concat dt [symmetric, unfolded doc_cells_def] rt)
  have "doc_ok u"
  proof (cases "doc_rows u = doc_rows t")
    case True
    then show ?thesis using st by (simp add: same_text_def doc_ok_def doc_cells_def u ft)
  next
    case False
    then have m: "mset (doc_rows u) = mset (?n # doc_rows s)" using doc_rows_map_sections(1) [OF dr f] by (simp add: u_def rt)
    have "tg_rows t ?n = new" by (simp add: t)
    then have mc: "mset (doc_cells u) = mset (new @ doc_cells s)"
      using mset_concat_map_cong [OF m, of "tg_rows t"] by (simp add: doc_cells_def u cd)
    have "distinct (doc_rows u)" using mset_eq_imp_distinct_iff [OF m] s(1) less(1) by (auto simp: doc_ok_def)
    moreover have "distinct (doc_cells u)" using mset_eq_imp_distinct_iff [OF mc] s(1) p by (auto simp: doc_ok_def pending_def)
    ultimately show ?thesis using mset_eq_setD [OF m] mset_eq_setD [OF mc] less p
      by (auto simp: doc_ok_def list_all_iff u pending_def intro: less_SucI)
  qed
  then have su: "same_text s0 u" using s tx by (simp add: same_text_def u)
  have "remove_row ?n t = t" using less(1) by (intro remove_row_absent) (auto simp: rt)
  then have "insert_row_at b ?n ref t = (if ?n = ref then t else u)" by (simp add: insert_row_at_def u_def f_def)
  then show ?thesis using st su by simp
qed

lemma same_text_insertRow:
  assumes "same_text s s" "insertRow b s = Some t"
  shows "same_text s t"
proof -
  have "row_state s (l, new, u)" if "fold_opt (insertRow_step b posY) xs (None, [], s) = Some (l, new, u)" for posY xs l new u
    using that by (rule fold_opt_inv [rotated 2]) (rule row_state_step, auto simp: pending_def assms(1))
  then show ?thesis using assms(2) texts_insert_row [OF _ _ refl]
    by (auto simp: insertRow_def split: option.splits if_splits prod.splits)
qed

section \<open>Merging\<close>

text \<open>The grid of a table shows only its cells.\<close>

definition shows_only :: "nat set \<Rightarrow> grid \<Rightarrow> bool" where
  "shows_only A g \<longleftrightarrow> (\<forall>y x c. grid_at g y x = Some c \<longrightarrow> gc_elm c \<in> A)"

lemma grid_at_set_slot: "grid_at (set_slot y x c g) y' x' = (if y' = y \<and> x' = x then Some c else grid_at g y' x')"
proof (cases "y' = y")
  case True
  then show ?thesis by (simp add: grid_at_def row_at_set_slot put_at_nth_opt) (simp add: nth_opt_def)
qed (simp add: grid_at_def row_at_set_slot)

lemma shows_only_set_slot: "shows_only A g \<Longrightarrow> gc_elm c \<in> A \<Longrightarrow> shows_only A (set_slot y x c g)"
  by (auto simp: shows_only_def grid_at_set_slot)

lemma shows_only_place_cell:
  assumes "shows_only A g" "td \<in> A"
  shows "shows_only A (place_cell s p y (i, td) g)"
proof -
  have "shows_only A (fill_row p td rs cs y x y2 h)" if "shows_only A h" for rs cs x y2 h
  proof -
    have "shows_only A (touch_row y2 h)" using that by (simp add: shows_only_def grid_at_def)
    then show ?thesis unfolding fill_row_def using assms(2)
      by (intro fold_invariant [where P = "shows_only A" and Q = "\<lambda>_. True"]) (auto intro: shows_only_set_slot)
  qed
  then show ?thesis unfolding place_cell_def Let_def prod.case using assms(1)
    by (intro fold_invariant [where P = "shows_only A" and Q = "\<lambda>_. True"]) auto
qed

lemma shows_only_build: "shows_only (set (doc_cells s)) (build s)"
  unfolding build_def
proof (rule fold_invariant [where Q = "\<lambda>(y, p, tr). tr \<in> set (doc_rows s)"])
  show "shows_only (set (doc_cells s)) []" by (simp add: shows_only_def)
  show "case e of (y, p, tr) \<Rightarrow> tr \<in> set (doc_rows s)" if "e \<in> set (List.enumerate 0 (part_rows (tg_sections s)))" for e
  proof -
    obtain y p tr where e: "e = (y, p, tr)" by (cases e)
    then have "(p, tr) \<in> set (part_rows (tg_sections s))" using that by (auto simp: in_set_conv_nth nth_enumerate_eq)
    then have "tr \<in> set (table_rows s)" by (force simp: table_rows_def)
    then show ?thesis by (simp add: e set_table_rows)
  qed
  show "shows_only (set (doc_cells s)) (place_row s e g)"
    if q: "case e of (y, p, tr) \<Rightarrow> tr \<in> set (doc_rows s)" and g: "shows_only (set (doc_cells s)) g" for e g
  proof -
    obtain y p tr where e: "e = (y, p, tr)" by (cases e)
    have "td \<in> set (doc_cells s)" if "(i, td) \<in> set (List.enumerate 0 (tg_rows s tr))" for i td
      using that q by (auto simp: e doc_cells_def in_set_enumerate_eq intro!: bexI [of _ tr])
    then show ?thesis using g unfolding e place_row_def prod.case
      by (intro fold_invariant [where P = "shows_only _" and Q = "\<lambda>(i, td). td \<in> set (doc_cells s)"]) (auto intro: shows_only_place_cell)
  qed
qed

lemma distinct_concat_map:
  "distinct (concat (map R rs)) \<Longrightarrow> distinct rs \<Longrightarrow> a \<in> set rs \<Longrightarrow> b \<in> set rs \<Longrightarrow> td \<in> set (R a) \<Longrightarrow> td \<in> set (R b) \<Longrightarrow> a = b"
  by (induction rs) auto

lemma parent_row_Some: "parent_row s td = Some tr \<Longrightarrow> tr \<in> set (doc_rows s) \<and> td \<in> set (tg_rows s tr)"
  by (auto simp: parent_row_def find_Some_iff)

lemma parent_row_None: "parent_row s td = None \<longleftrightarrow> td \<notin> set (doc_cells s)"
  by (auto simp: parent_row_def find_None_iff doc_cells_def)

lemma doc_cells_remove:
  assumes "distinct (doc_cells s)" "distinct (doc_rows s)"
  shows "doc_cells (remove_cell td s) = filter (\<lambda>x. x \<noteq> td) (doc_cells s)"
proof (cases "parent_row s td")
  case None
  then have "td \<notin> set (doc_cells s)" by (simp add: parent_row_None)
  then have "filter (\<lambda>x. x \<noteq> td) (doc_cells s) = doc_cells s" by (auto simp: filter_id_conv)
  then show ?thesis using None by (simp add: remove_cell_def)
next
  case (Some tr)
  then have tr: "tr \<in> set (doc_rows s)" "td \<in> set (tg_rows s tr)" by (auto dest: parent_row_Some)
  let ?P = "\<lambda>x. x \<noteq> td" and ?R = "(tg_rows s)(tr := filter (\<lambda>x. x \<noteq> td) (tg_rows s tr))"
  have "?R r = filter ?P (tg_rows s r)" if "r \<in> set (doc_rows s)" for r
  proof (cases "r = tr")
    case False
    then have "td \<notin> set (tg_rows s r)" using distinct_concat_map [of "tg_rows s" "doc_rows s" r tr td] assms tr that by (auto simp: doc_cells_def)
    then have "filter ?P (tg_rows s r) = tg_rows s r" by (auto simp: filter_id_conv)
    then show ?thesis using False by simp
  qed simp
  then have "map ?R (doc_rows s) = map (\<lambda>r. filter ?P (tg_rows s r)) (doc_rows s)" by (rule map_cong [OF refl])
  moreover have "doc_cells (remove_cell td s) = concat (map ?R (doc_rows s))"
    using Some by (simp add: remove_cell_def doc_cells_def upd_row_def doc_rows_def)
  ultimately show ?thesis by (simp only: doc_cells_def filter_concat map_map comp_def)
qed

lemma texts_append: "texts (xs @ ys) = texts xs @ texts ys" and texts_Nil [simp]: "texts [] = []"
  by (simp_all add: texts_def)

lemma texts_drop_bogus [simp]: "texts (drop_bogus n ns) = texts ns"
  by (induction n ns rule: drop_bogus.induct) (auto simp: texts_def split: nat.splits)

lemma mset_table_texts:
  assumes "distinct (doc_cells s)"
  shows "mset (table_texts s) = (\<Sum>td\<in>set (doc_cells s). mset (cell_texts s td))"
proof -
  have "mset (concat (map (cell_texts s) xs)) = (\<Sum>td\<leftarrow>xs. mset (cell_texts s td))" for xs by (induction xs) auto
  then show ?thesis using assms by (simp add: table_texts_def sum_list_distinct_conv_sum_set)
qed

text \<open>While cells are merged into \<open>startCell\<close>: a cell of the grid that left the document is empty.\<close>

definition merging :: "tgrid \<Rightarrow> nat \<Rightarrow> grid \<Rightarrow> tgrid \<Rightarrow> bool" where
  "merging s0 startCell g s \<longleftrightarrow> tg_grid s = g \<and> doc_ok s \<and> \<not> tg_ie s \<and> startCell \<in> set (doc_cells s)
     \<and> mset (table_texts s) = mset (table_texts s0)
     \<and> (\<forall>y x c. grid_at g y x = Some c \<longrightarrow> gc_elm c \<in> set (doc_cells s) \<or> ce_content (tg_cells s (gc_elm c)) = [])"

lemma absorb_fields:
  "doc_rows (absorb b td s) = doc_rows s" "tg_grid (absorb b td s) = tg_grid s" "tg_ie (absorb b td s) = tg_ie s" "tg_fresh (absorb b td s) = tg_fresh s"
  "b \<noteq> td \<Longrightarrow> ce_content (tg_cells (absorb b td s) td) = []"
  "b \<noteq> td \<Longrightarrow> cell_texts (absorb b td s) b = cell_texts s b @ cell_texts s td"
  "e \<noteq> b \<Longrightarrow> e \<noteq> td \<Longrightarrow> ce_content (tg_cells (absorb b td s) e) = ce_content (tg_cells s e)"
  by (auto simp: absorb_def Let_def remove_cell_def upd_row_def upd_cell_def doc_rows_def cell_texts_def texts_append split: option.splits)

lemma doc_cells_absorb:
  assumes "distinct (doc_cells s)" "distinct (doc_rows s)"
  shows "doc_cells (absorb b td s) = filter (\<lambda>x. x \<noteq> td) (doc_cells s)"
proof -
  have "doc_cells (upd_cell e f t) = doc_cells t" "doc_rows (upd_cell e f t) = doc_rows t" for e f t
    by (simp_all add: upd_cell_def doc_cells_def doc_rows_def)
  then show ?thesis using assms by (simp add: absorb_def Let_def doc_cells_remove)
qed

lemma merging_absorb:
  assumes m: "merging s0 b g s" and c: "grid_at g y x = Some c" "gc_elm c = td" and ne: "b \<noteq> td"
  shows "merging s0 b g (absorb b td s)"
proof -
  let ?t = "absorb b td s"
  have d: "distinct (doc_cells s)" "distinct (doc_rows s)" "b \<in> set (doc_cells s)" using m by (auto simp: merging_def doc_ok_def)
  have dc: "doc_cells ?t = filter (\<lambda>x. x \<noteq> td) (doc_cells s)" by (rule doc_cells_absorb [OF d(1,2)])
  define A where "A = set (doc_cells s) - {b, td}"
  have same: "cell_texts ?t e = cell_texts s e" if "e \<in> A" for e using that by (simp add: A_def cell_texts_def absorb_fields)
  have bt: "mset (cell_texts ?t b) = mset (cell_texts s b) + mset (cell_texts s td)" using ne by (simp add: absorb_fields)
  have sum: "(\<Sum>e\<in>A. mset (cell_texts ?t e)) = (\<Sum>e\<in>A. mset (cell_texts s e))" by (rule sum.cong) (simp_all add: same)
  have fin: "finite A" "b \<notin> A" "td \<notin> A" by (simp_all add: A_def)
  have "set (doc_cells ?t) = insert b A" using d(3) ne by (auto simp: dc A_def)
  then have "mset (table_texts ?t) = (\<Sum>e\<in>insert b A. mset (cell_texts ?t e))" using d(1) by (simp add: mset_table_texts dc)
  also have "\<dots> = mset (cell_texts s b) + mset (cell_texts s td) + (\<Sum>e\<in>A. mset (cell_texts s e))"
    by (simp only: sum.insert [OF fin(1,2)] bt sum)
  also have "\<dots> = mset (table_texts s)"
  proof (cases "td \<in> set (doc_cells s)")
    case True
    then have "set (doc_cells s) = insert b (insert td A)" using d(3) by (auto simp: A_def)
    then show ?thesis using ne fin by (simp add: mset_table_texts [OF d(1)])
  next
    case False
    then have "set (doc_cells s) = insert b A" using d(3) by (auto simp: A_def)
    moreover have "ce_content (tg_cells s td) = []" using False m c unfolding merging_def by blast
    then have "cell_texts s td = []" by (simp add: cell_texts_def)
    ultimately show ?thesis using fin by (simp add: mset_table_texts [OF d(1)])
  qed
  finally have tx: "mset (table_texts ?t) = mset (table_texts s0)" using m by (simp add: merging_def)
  have "gc_elm c' \<in> set (doc_cells ?t) \<or> ce_content (tg_cells ?t (gc_elm c')) = []" if "grid_at g y' x' = Some c'" for y' x' c'
  proof -
    consider "gc_elm c' = b" | "gc_elm c' = td" | "gc_elm c' \<noteq> b" "gc_elm c' \<noteq> td" by blast
    then show ?thesis using m that d(3) ne by cases (auto simp: dc absorb_fields merging_def)
  qed
  moreover have "doc_ok ?t" using m by (auto simp: merging_def doc_ok_def dc absorb_fields list_all_iff)
  ultimately show ?thesis using tx d ne m by (auto simp: merging_def dc absorb_fields)
qed

lemma merging_slots:
  assumes "merging s0 b g s"
  shows "merging s0 b g (fold (merge_slot b) ps s)"
proof (rule fold_invariant [where Q = "\<lambda>_. True"])
  show "merging s0 b g (merge_slot b p t)" if t: "merging s0 b g t" for p t
  proof -
    obtain y x where p: "p = (y, x)" by (cases p)
    have "tg_grid t = g" using t by (simp add: merging_def)
    then show ?thesis using t merging_absorb [OF t]
      by (auto simp: merge_slot_def p getCell_def split: option.splits)
  qed
qed (use assms in auto)

lemma table_texts_cong: "doc_cells t = doc_cells s \<Longrightarrow> tg_cells t = tg_cells s \<Longrightarrow> table_texts t = table_texts s"
  by (simp add: table_texts_def cell_texts_def cong: map_cong)

lemma doc_rows_drop_rows: "doc_rows (drop_empty_rows s) = filter (\<lambda>tr. tg_rows s tr \<noteq> []) (doc_rows s)"
  by (simp add: drop_empty_rows_def map_sections_def doc_rows_def filter_concat case_prod_beta comp_def)

lemma doc_rows_drop_parts: "doc_rows (drop_empty_parts s) = doc_rows s"
proof -
  have "concat (map snd (filter (\<lambda>(_, rs). rs \<noteq> []) secs)) = concat (map snd secs)" for secs :: "(tpart \<times> nat list) list"
    by (induction secs) auto
  then show ?thesis by (simp add: drop_empty_parts_def doc_rows_def)
qed

lemma doc_cells_drop_rows: "doc_cells (drop_empty_rows s) = doc_cells s"
proof -
  have "concat (map R (filter (\<lambda>tr. R tr \<noteq> []) rs)) = concat (map R rs)" for R :: "nat \<Rightarrow> nat list" and rs by (induction rs) auto
  moreover have "tg_rows (drop_empty_rows s) = tg_rows s" by (simp add: drop_empty_rows_def map_sections_def)
  ultimately show ?thesis by (simp add: doc_cells_def doc_rows_drop_rows)
qed

lemma doc_cells_drop_parts: "doc_cells (drop_empty_parts s) = doc_cells s"
proof -
  have "tg_rows (drop_empty_parts s) = tg_rows s" by (simp add: drop_empty_parts_def)
  then show ?thesis by (simp add: doc_cells_def doc_rows_drop_parts)
qed

text \<open>Two states with the same document.\<close>

definition same_doc :: "tgrid \<Rightarrow> tgrid \<Rightarrow> bool" where
  "same_doc s t \<longleftrightarrow> doc_cells t = doc_cells s \<and> tg_cells t = tg_cells s \<and> tg_ie t = tg_ie s \<and> tg_fresh t = tg_fresh s
     \<and> (distinct (doc_rows s) \<longrightarrow> distinct (doc_rows t)) \<and> set (doc_rows t) \<subseteq> set (doc_rows s)"

lemma same_doc_text: "same_doc s t \<Longrightarrow> same_text s0 s \<Longrightarrow> same_text s0 t"
  using table_texts_cong [of t s] by (auto simp: same_doc_def same_text_def doc_ok_def list_all_iff)

lemma same_doc_trans: "same_doc s t \<Longrightarrow> same_doc t u \<Longrightarrow> same_doc s u"
  by (auto simp: same_doc_def)

lemma same_doc_eqI: "tg_sections t = tg_sections s \<Longrightarrow> tg_rows t = tg_rows s \<Longrightarrow> tg_cells t = tg_cells s \<Longrightarrow> tg_ie t = tg_ie s
    \<Longrightarrow> tg_fresh t = tg_fresh s \<Longrightarrow> same_doc s t"
  by (simp add: same_doc_def doc_cells_def doc_rows_def)

lemma same_doc_cleanup:
  assumes "cleanup s = Some t"
  shows "same_doc s t"
proof -
  have r: "same_doc u (drop_empty_rows u)" for u
    unfolding same_doc_def doc_cells_drop_rows doc_rows_drop_rows by (simp add: drop_empty_rows_def map_sections_def)
  have p: "same_doc u (drop_empty_parts u)" for u
    unfolding same_doc_def doc_cells_drop_parts doc_rows_drop_parts by (simp add: drop_empty_parts_def)
  have b: "same_doc u (buildGrid u)" for u by (rule same_doc_eqI) (simp_all add: buildGrid_def)
  have d: "same_doc u (u\<lparr>tg_removed := True\<rparr>)" for u by (rule same_doc_eqI) simp_all
  have c: "same_doc u v" if "restore_caret u = Some v" for u v
    using that by (auto simp: restore_caret_def Let_def split: option.splits if_splits prod.splits intro!: same_doc_eqI)
  show ?thesis using assms r [of s] p b d c unfolding cleanup_def Let_def
    by (auto split: if_splits) (meson same_doc_trans)+
qed

lemma merge_area_texts:
  assumes ok: "doc_ok s" "\<not> tg_ie s" and m: "merge_area x0 y0 x1 y1 s = Some t"
  shows "doc_ok t \<and> \<not> tg_ie t \<and> mset (table_texts t) = mset (table_texts s)"
proof (cases "t = s")
  case False
  then obtain u c where u: "split s = Some u" and c: "getCell x0 y0 (buildGrid u) = Some c"
    and t: "cleanup (fold (merge_slot (gc_elm c)) (rect y0 y1 x0 x1)
      (setRowSpan (gc_elm c) (y1 - y0 + 1) (setColSpan (gc_elm c) (x1 - x0 + 1) (buildGrid u)))) = Some t"
    using m by (auto simp: merge_area_def Let_def split: option.splits if_splits)
  let ?v = "setRowSpan (gc_elm c) (y1 - y0 + 1) (setColSpan (gc_elm c) (x1 - x0 + 1) (buildGrid u))"
  have "same_text s s" using ok by (simp add: same_text_def)
  then have su: "same_text s u" using u same_text_split by blast
  have bg: "doc_rows (buildGrid u) = doc_rows u" "doc_cells (buildGrid u) = doc_cells u" "tg_grid (buildGrid u) = build u"
    "tg_fresh (buildGrid u) = tg_fresh u" "tg_ie (buildGrid u) = tg_ie u" "tg_cells (buildGrid u) = tg_cells u"
    by (simp_all add: buildGrid_def doc_cells_def doc_rows_def)
  have "same_text s (buildGrid u)" using su table_texts_cong [OF bg(2,6)] by (simp add: same_text_def doc_ok_def bg)
  then have sv: "same_text s ?v" by (intro same_text_spans)
  have dv: "doc_cells ?v = doc_cells u" "tg_grid ?v = build u"
    by (simp_all add: setRowSpan_def setColSpan_def upd_cell_def buildGrid_def doc_cells_def doc_rows_def)
  have so: "shows_only (set (doc_cells u)) (build u)" by (rule shows_only_build)
  then have "gc_elm c \<in> set (doc_cells u)" using c by (auto simp: getCell_def bg shows_only_def split: if_splits)
  then have "merging s (gc_elm c) (build u) ?v"
    using sv so unfolding merging_def dv by (auto simp: same_text_def shows_only_def)
  then have "merging s (gc_elm c) (build u) (fold (merge_slot (gc_elm c)) (rect y0 y1 x0 x1) ?v)" by (rule merging_slots)
  then have "same_text (fold (merge_slot (gc_elm c)) (rect y0 y1 x0 x1) ?v) (fold (merge_slot (gc_elm c)) (rect y0 y1 x0 x1) ?v)"
    "mset (table_texts (fold (merge_slot (gc_elm c)) (rect y0 y1 x0 x1) ?v)) = mset (table_texts s)" by (simp_all add: merging_def same_text_def)
  then show ?thesis using same_doc_text [OF same_doc_cleanup [OF t]] by (simp add: same_text_def)
qed (use ok in simp)

section \<open>Properties\<close>

text \<open>Four selected cells, beside two that are not.\<close>

definition merge_table :: tgrid where
  "merge_table = sample_table [[1, 2, 3], [4, 5, 6]]
     [(1, sample_cell ''A'' 1 1 True), (2, sample_cell ''B'' 1 1 True), (4, sample_cell ''C'' 1 1 True), (5, sample_cell ''D'' 1 1 True)]"

text \<open>A selected cell over two rows and two columns.\<close>

definition span_table :: tgrid where
  "span_table = sample_table [[1, 2], [3], [4, 5, 6]] [(1, sample_cell ''A'' 2 2 True)]"

text \<open>C30. Splitting cells and inserting a row or a column keep all the texts of the table in their
  order: the cells that are added hold no text (outside Internet Explorer, where the filler is a
  space), and no cell that was there is lost or moved past another.\<close>

theorem edits_keep_text:
  assumes "doc_ok s" "\<not> tg_ie s" "split s = Some t \<or> insertRow b s = Some t \<or> insertCol b s = Some t"
  shows "table_texts t = table_texts s \<and> doc_ok t"
proof -
  have "same_text s s" using assms(1,2) by (simp add: same_text_def)
  then have "same_text s t" using assms(3) same_text_split same_text_insertRow same_text_insertCol by blast
  then show ?thesis by (simp add: same_text_def)
qed

theorem edits_keep_text_witness:
  "\<exists>t. split (buildGrid span_table) = Some t \<and> table_texts t = table_texts (buildGrid span_table) \<and> doc_ok t"
proof -
  have "split (buildGrid span_table) \<noteq> None" by code_simp
  then obtain t where t: "split (buildGrid span_table) = Some t" by blast
  moreover have "doc_ok (buildGrid span_table)" "\<not> tg_ie (buildGrid span_table)" by code_simp+
  ultimately show ?thesis using edits_keep_text [of "buildGrid span_table" t] by blast
qed

end
