(* ===== verification/TablePlain.thy ===== *)
theory TablePlain
  imports TableText
begin

text \<open>
  Tables without spans: the grid is the table itself, and inserting a column adds one cell to every
  row. What deleting columns does to the spans of the cells, for every table; and tables with spans on which the operations go
  wrong.
\<close>

section \<open>The grid of a plain table\<close>

definition plain :: "tgrid \<Rightarrow> bool" where
  "plain s \<longleftrightarrow> list_all (\<lambda>tr. tg_rows s tr \<noteq> []) (doc_rows s) \<and> list_all (\<lambda>td. rowspan_of s td = 1 \<and> colspan_of s td = 1) (doc_cells s)"

definition plain_slot :: "tpart \<Rightarrow> nat \<Rightarrow> gcell" where
  "plain_slot p td = \<lparr>gc_part = p, gc_real = True, gc_elm = td, gc_rowspan = 1, gc_colspan = 1\<rparr>"

definition plain_row :: "tgrid \<Rightarrow> tpart \<times> nat \<Rightarrow> gcell option list" where
  "plain_row s = (\<lambda>(p, tr). map (Some \<circ> plain_slot p) (tg_rows s tr))"

lemma row_at_append [simp]: "row_at (g @ [Some r]) (length g) = r" "row_at g (length g) = []"
  by (simp_all add: row_at_def nth_opt_def)

lemma place_plain:
  assumes "rowspan_of s td = 1" "colspan_of s td = 1" "length r = k" "g = (if k = 0 then d else d @ [Some r])"
  shows "place_cell s p (length d) (k, td) g = d @ [Some (r @ [Some (plain_slot p td)])]"
proof -
  have row: "row_at g (length d) = r" using assms(3,4) by auto
  have "skip_filled g (length d) k = k" using assms(3) by (simp add: skip_filled_def row)
  moreover have "touch_row (length d) g = d @ [Some r]"
    using assms(3,4) by (auto simp: touch_row_def row put_at_def)
  moreover have "set_slot (length d) k c (d @ [Some r]) = d @ [Some (r @ [Some c])]" for c
    using assms(3) by (simp add: set_slot_def put_at_def)
  ultimately show ?thesis using assms(1,2) by (simp add: place_cell_def fill_row_def plain_slot_def)
qed

lemma place_plain_cells:
  assumes "\<forall>td\<in>set tds. rowspan_of s td = 1 \<and> colspan_of s td = 1" "length r = k" "g = (if k = 0 then d else d @ [Some r])"
  shows "fold (place_cell s p (length d)) (List.enumerate k tds) g
    = (if k + length tds = 0 then d else d @ [Some (r @ map (Some \<circ> plain_slot p) tds)])"
  using assms
proof (induction tds arbitrary: k r g)
  case (Cons td tds)
  then have "place_cell s p (length d) (k, td) g = d @ [Some (r @ [Some (plain_slot p td)])]" by (intro place_plain) auto
  then show ?case using Cons.IH [of "r @ [Some (plain_slot p td)]" "Suc k" "d @ [Some (r @ [Some (plain_slot p td)])]"] Cons.prems by simp
qed simp

lemma build_plain:
  assumes "plain s"
  shows "build s = map (Some \<circ> plain_row s) (part_rows (tg_sections s))"
proof -
  have "fold (place_row s) (List.enumerate (length d) prs) d = d @ map (Some \<circ> plain_row s) prs"
    if "\<forall>pr\<in>set prs. snd pr \<in> set (doc_rows s)" for d prs
    using that
  proof (induction prs arbitrary: d)
    case (Cons pr prs)
    obtain p tr where pr: "pr = (p, tr)" by (cases pr)
    have "tr \<in> set (doc_rows s)" using Cons.prems by (simp add: pr)
    then have "tg_rows s tr \<noteq> []" "\<forall>td\<in>set (tg_rows s tr). rowspan_of s td = 1 \<and> colspan_of s td = 1"
      using assms by (auto simp: plain_def list_all_iff doc_cells_def)
    then have "place_row s (length d, pr) d = d @ [Some (plain_row s pr)]"
      using place_plain_cells [of "tg_rows s tr" s "[]" 0 d d p] by (simp add: place_row_def pr plain_row_def)
    then show ?case using Cons.IH [of "d @ [Some (plain_row s pr)]"] Cons.prems by simp
  qed simp
  from this [of "part_rows (tg_sections s)" "[]"] show ?thesis
    using set_table_rows [of s] by (auto simp: build_def table_rows_def)
qed

lemma length_build_plain: "plain s \<Longrightarrow> length (build s) = length (table_rows s)"
  by (simp add: build_plain table_rows_def)

lemma grid_at_plain:
  assumes "plain s" "y < length (table_rows s)"
  shows "map_option gc_elm (grid_at (build s) y x) = nth_opt (tg_rows s (table_rows s ! y)) x"
proof -
  obtain p tr where "part_rows (tg_sections s) ! y = (p, tr)" by fastforce
  then show ?thesis using assms by (auto simp: build_plain grid_at_def row_at_def table_rows_def nth_opt_def plain_row_def plain_slot_def)
qed

section \<open>Inserting a column\<close>

lemma mset_table_rows: "mset (table_rows s) = mset (doc_rows s)"
proof -
  have "mset (rows_of THead secs @ rows_of TBody secs @ rows_of TFoot secs) = mset (concat (map snd secs))" for secs
  proof (induction secs)
    case (Cons sec secs)
    then show ?case by (cases sec; cases "fst sec") (auto simp: rows_of_def)
  qed (simp add: rows_of_def)
  moreover have "table_rows s = rows_of THead (tg_sections s) @ rows_of TBody (tg_sections s) @ rows_of TFoot (tg_sections s)"
    by (simp add: table_rows_def part_rows_def comp_def)
  ultimately show ?thesis by (simp only: doc_rows_def)
qed

lemma distinct_table_rows: "distinct (table_rows s) = distinct (doc_rows s)"
  by (rule mset_eq_imp_distinct_iff [OF mset_table_rows])

lemma distinct_row: "doc_ok s \<Longrightarrow> tr \<in> set (doc_rows s) \<Longrightarrow> distinct (tg_rows s tr)"
  by (auto simp: doc_ok_def doc_cells_def distinct_concat_iff)

lemma parent_row_unique:
  assumes "doc_ok s" "tr \<in> set (doc_rows s)" "td \<in> set (tg_rows s tr)"
  shows "parent_row s td = Some tr"
proof (cases "parent_row s td")
  case None
  then show ?thesis using assms(2,3) by (auto simp: parent_row_None doc_cells_def)
next
  case (Some tr')
  then show ?thesis using parent_row_Some [OF Some] assms distinct_concat_map [of "tg_rows s" "doc_rows s" tr tr' td]
    by (auto simp: doc_ok_def doc_cells_def)
qed

definition col_row :: "bool \<Rightarrow> nat \<Rightarrow> tgrid \<Rightarrow> tgrid \<Rightarrow> nat \<Rightarrow> bool" where
  "col_row b x s u tr \<longleftrightarrow>
     (if x < length (tg_rows s tr)
      then \<exists>new. new \<notin> set (doc_cells s) \<and> new < tg_fresh u
        \<and> tg_rows u tr = take (if b then x else Suc x) (tg_rows s tr) @ new # drop (if b then x else Suc x) (tg_rows s tr)
        \<and> tg_cells u new = cloned_cell s (tg_cells s (tg_rows s tr ! x))
      else tg_rows u tr = tg_rows s tr)"

definition col_inv :: "bool \<Rightarrow> nat \<Rightarrow> tgrid \<Rightarrow> nat \<Rightarrow> nat option \<times> tgrid \<Rightarrow> bool" where
  "col_inv b x s j = (\<lambda>(l, u). doc_ok u \<and> tg_sections u = tg_sections s \<and> tg_grid u = build s \<and> tg_formats u = tg_formats s \<and> tg_ie u = tg_ie s
     \<and> tg_fresh s \<le> tg_fresh u \<and> (\<forall>td<tg_fresh s. tg_cells u td = tg_cells s td)
     \<and> (\<forall>i<j. col_row b x s u (table_rows s ! i)) \<and> (\<forall>i<length (table_rows s). j \<le> i \<longrightarrow> tg_rows u (table_rows s ! i) = tg_rows s (table_rows s ! i))
     \<and> (\<forall>td. l = Some td \<longrightarrow> (\<exists>i<j. td \<in> set (tg_rows s (table_rows s ! i)))))"

lemma fillLeftDown_0: "grid_at (tg_grid s) y x \<noteq> None \<Longrightarrow> fillLeftDown x y 0 n s = Some s"
  by (auto simp: fillLeftDown_def)

lemma col_inv_step:
  assumes pl: "plain s" and ok: "doc_ok s" and inv: "col_inv b x s j (l, u)" and j: "j < length (table_rows s)"
  shows "\<exists>q. insertCol_step b (Some x) (j, Some row) (l, u) = Some q \<and> col_inv b x s (Suc j) q"
proof -
  let ?tr = "table_rows s ! j"
  have tr: "?tr \<in> set (doc_rows s)" using j set_table_rows [of s] by (metis nth_mem)
  have u: "doc_ok u" "tg_sections u = tg_sections s" "tg_grid u = build s" "tg_formats u = tg_formats s" "tg_ie u = tg_ie s"
    "tg_fresh s \<le> tg_fresh u" "\<And>td. td < tg_fresh s \<Longrightarrow> tg_cells u td = tg_cells s td"
    "\<And>i. i < j \<Longrightarrow> col_row b x s u (table_rows s ! i)" "\<And>i. i < length (table_rows s) \<Longrightarrow> j \<le> i \<Longrightarrow> tg_rows u (table_rows s ! i) = tg_rows s (table_rows s ! i)"
    "\<And>td. l = Some td \<Longrightarrow> \<exists>i<j. td \<in> set (tg_rows s (table_rows s ! i))"
    using inv by (auto simp: col_inv_def)
  have at: "map_option gc_elm (grid_at (build s) j x) = nth_opt (tg_rows s ?tr) x" by (rule grid_at_plain [OF pl j])
  show ?thesis
  proof (cases "x < length (tg_rows s ?tr)")
    case False
    then have "grid_at (build s) j x = None" using at by (simp add: nth_opt_def)
    then have "insertCol_step b (Some x) (j, Some row) (l, u) = Some (l, u)" by (simp add: insertCol_step_def u(3))
    moreover have "col_row b x s u ?tr" using False u(9) [OF j] by (simp add: col_row_def)
    ultimately show ?thesis using inv by (auto simp: col_inv_def less_Suc_eq)
  next
    case True
    define td where "td = tg_rows s ?tr ! x"
    obtain c where c: "grid_at (build s) j x = Some c" "gc_elm c = td" using at True by (auto simp: nth_opt_def td_def)
    have td: "td \<in> set (tg_rows s ?tr)" using True by (simp add: td_def)
    then have tdc: "td \<in> set (doc_cells s)" using tr by (auto simp: doc_cells_def)
    then have tdf: "td < tg_fresh s" using ok by (auto simp: doc_ok_def list_all_iff)
    have sp: "rowspan_of u td = 1" "colspan_of u td = 1"
      using pl tdc u(7) [OF tdf] by (auto simp: plain_def list_all_iff rowspan_of_def colspan_of_def)
    have nl: "Some td \<noteq> l"
    proof
      assume "Some td = l"
      then obtain i where "i < j" "td \<in> set (tg_rows s (table_rows s ! i))" using u(10) by metis
      moreover have "distinct (concat (map (tg_rows s) (table_rows s)))"
        using mset_eq_imp_distinct_iff [OF mset_concat_map_cong [OF mset_table_rows, of "tg_rows s" s]] ok
        by (simp add: doc_ok_def doc_cells_def)
      ultimately show False using distinct_concat_row [of "map (tg_rows s) (table_rows s)" i j td] j td by simp
    qed
    obtain new t where cl: "cloneCell td u = (new, t)" by fastforce
    then have new: "new = tg_fresh u" and t: "t = u\<lparr>tg_cells := (tg_cells u)(new := cloned_cell u (tg_cells u td)), tg_fresh := Suc new\<rparr>"
      by (auto simp: cloneCell_def)
    define f where "f = (if b then insert_before else insert_after) new td"
    let ?v = "upd_row ?tr f t"
    have ru: "tg_rows u ?tr = tg_rows s ?tr" using u(9) [OF j] by simp
    have "parent_row u td = Some ?tr"
      using u(1,2) tr td ru by (intro parent_row_unique) (simp_all add: doc_rows_def)
    then have "parent_row t td = Some ?tr" by (simp add: t parent_row_def doc_rows_def)
    then have ins: "insert_clone b td u = Some ?v" by (simp add: insert_clone_def cl insert_cell_def f_def)
    have "fillLeftDown x j 0 1 ?v = Some ?v" using c(1) u(3) by (intro fillLeftDown_0) (simp add: upd_row_def t)
    then have step: "insertCol_step b (Some x) (j, Some row) (l, u) = Some (Some td, ?v)"
      using c nl sp ins by (simp add: insertCol_step_def u(3) Let_def)
    have okv: "doc_ok ?v" by (rule doc_ok_clone_into [OF u(1) cl]) (simp add: f_def)
    have "distinct (tg_rows s ?tr)" using distinct_row [OF ok tr] .
    then have fr: "f (tg_rows s ?tr) = take (if b then x else Suc x) (tg_rows s ?tr) @ new # drop (if b then x else Suc x) (tg_rows s ?tr)"
      using True by (simp add: f_def td_def insert_at_nth)
    have nf: "tg_fresh s \<le> new" using u(6) by (simp add: new)
    have cc: "cloned_cell u = cloned_cell s" by (intro ext) (simp only: cloned_cell_def clone_content_def u(4,5))
    have "new \<notin> set (doc_cells s)" using nf ok by (auto simp: doc_ok_def list_all_iff)
    then have this_row: "col_row b x s ?v ?tr"
      using True fr ru u(7) [OF tdf] by (simp add: col_row_def upd_row_def t td_def cc)
    have other: "table_rows s ! i \<noteq> ?tr" if "i \<noteq> j" "i < length (table_rows s)" for i
      using that j ok by (simp add: nth_eq_iff_index_eq distinct_table_rows doc_ok_def)
    have keep: "col_row b x s ?v r" if r: "col_row b x s u r" "r \<noteq> ?tr" for r
    proof (cases "x < length (tg_rows s r)")
      case True
      then obtain n where "n \<notin> set (doc_cells s)" "n < new" "tg_cells u n = cloned_cell s (tg_cells s (tg_rows s r ! x))"
        "tg_rows u r = take (if b then x else Suc x) (tg_rows s r) @ n # drop (if b then x else Suc x) (tg_rows s r)"
        using r(1) by (auto simp: col_row_def new)
      then show ?thesis using True r(2) by (simp add: col_row_def upd_row_def t)
    qed (use r in \<open>simp add: col_row_def upd_row_def t\<close>)
    have "col_row b x s ?v (table_rows s ! i)" if "i < j" for i
      using keep [OF u(8) [OF that] other] that j by simp
    then have rows: "\<forall>i<Suc j. col_row b x s ?v (table_rows s ! i)" using this_row by (auto simp: less_Suc_eq)
    have "tg_rows ?v (table_rows s ! i) = tg_rows s (table_rows s ! i)" if "i < length (table_rows s)" "Suc j \<le> i" for i
      using u(9) [of i] other [of i] that by (simp add: upd_row_def t)
    then have "col_inv b x s (Suc j) (Some td, ?v)"
      using okv u(2-7) nf rows td by (auto simp: col_inv_def upd_row_def t)
    then show ?thesis using step by blast
  qed
qed

lemma col_inv_rows:
  assumes "plain s" "doc_ok s" "col_inv b x s j p" "drop j (build s) = gs" "j \<le> length (table_rows s)"
  shows "\<exists>q. fold_opt (insertCol_step b (Some x)) (List.enumerate j gs) p = Some q \<and> col_inv b x s (length (table_rows s)) q"
  using assms(3-5)
proof (induction gs arbitrary: j p)
  case Nil
  then have "j = length (table_rows s)" using length_build_plain [OF assms(1)] by simp
  then show ?case using Nil by simp
next
  case (Cons g gs)
  have j: "j < length (build s)" using Cons.prems(2) by (metis drop_all leI list.distinct(1))
  then have gs: "drop (Suc j) (build s) = gs" "g = build s ! j" using Cons.prems(2) by (simp_all add: Cons_nth_drop_Suc [symmetric])
  then obtain row where row: "g = Some row" using j by (simp add: build_plain [OF assms(1)])
  have j': "j < length (table_rows s)" using j length_build_plain [OF assms(1)] by simp
  obtain l u where p: "p = (l, u)" by (cases p)
  obtain q where q: "insertCol_step b (Some x) (j, Some row) p = Some q" "col_inv b x s (Suc j) q"
    using col_inv_step [OF assms(1,2) Cons.prems(1) [unfolded p] j'] p by blast
  then show ?case using Cons.IH [OF q(2) gs(1)] j' row by simp
qed

abbreviation selected_slot :: "tgrid \<Rightarrow> nat \<Rightarrow> nat \<Rightarrow> bool" where
  "selected_slot s y x \<equiv> isCellSelected s (y, x, grid_at (tg_grid s) y x)"

lemma selected_in_rowD:
  assumes "(x, c) \<in> set (selected_in_row s y row)" "nth_opt (tg_grid s) y = Some row"
  shows "selected_slot s y x"
  using assms by (auto simp: selected_in_row_def in_set_enumerate_eq grid_at_def row_at_def nth_opt_def split: option.splits)

lemma find_posX_column:
  assumes "\<And>y row. (y, row) \<in> set rows \<Longrightarrow> nth_opt (tg_grid s) y = Some row"
    and "\<forall>x. pos = Some x \<longrightarrow> (\<exists>y. selected_slot s y x)"
  shows "(\<forall>x. find_posX s b rows pos = Some x \<longrightarrow> (\<exists>y. selected_slot s y x))
    \<and> (pos \<noteq> None \<or> (\<exists>(y, row)\<in>set rows. selected_in_row s y row \<noteq> []) \<longrightarrow> find_posX s b rows pos \<noteq> None)"
  using assms
proof (induction rows arbitrary: pos)
  case (Cons r rows)
  obtain y row where r: "r = (y, row)" by (cases r)
  define pos' where "pos' = (case pick b (selected_in_row s y row) of Some (x, _) \<Rightarrow> Some x | None \<Rightarrow> pos)"
  have "\<exists>c. (x, c) \<in> set (selected_in_row s y row)" if "pick b (selected_in_row s y row) = Some (x, c)" for x c
    using that by (auto simp: pick_def split: if_splits) (metis hd_in_set, metis last_in_set)
  then have sel: "\<forall>x. pos' = Some x \<longrightarrow> (\<exists>y. selected_slot s y x)"
    using Cons.prems selected_in_rowD [of _ _ s y row] by (auto simp: pos'_def r split: option.splits; blast)
  have some: "pos' \<noteq> None" if "pos \<noteq> None \<or> selected_in_row s y row \<noteq> []"
    using that by (auto simp: pos'_def pick_def split: option.splits if_splits prod.splits)
  have "find_posX s b (r # rows) pos = (if b \<and> (case pos' of Some p \<Rightarrow> p \<noteq> 0 | None \<Rightarrow> False) then pos' else find_posX s b rows pos')"
    unfolding r find_posX.simps Let_def pos'_def [symmetric] by (rule refl)
  then show ?case using Cons.IH [of pos'] Cons.prems(1) sel some by (auto simp: r split: option.splits if_splits)
qed auto

lemma selected_row_found:
  assumes "selected_slot s y x"
  shows "\<exists>(y, row)\<in>set (List.enumerate 0 (tg_grid s)). selected_in_row s y row \<noteq> []"
proof -
  obtain c where c: "grid_at (tg_grid s) y x = Some c" using assms by (auto simp: isCellSelected_def split: option.splits)
  then obtain cs where cs: "nth_opt (tg_grid s) y = Some (Some cs)" "nth_opt cs x = Some (Some c)"
    using slots_in_Some slots_in by metis
  then have "(x, Some c) \<in> set (selected_in_row s y (Some cs))"
    using assms c by (auto simp: selected_in_row_def in_set_enumerate_eq nth_opt_def split: if_splits)
  moreover have "(y, Some cs) \<in> set (List.enumerate 0 (tg_grid s))"
    using cs(1) by (auto simp: in_set_enumerate_eq nth_opt_def split: if_splits)
  ultimately show ?thesis by force
qed

lemma insertCol_plain:
  assumes "plain s" "doc_ok s" "tg_grid s = build s" "selected_slot s y0 x0"
  shows "\<exists>x y t. selected_slot s y x \<and> insertCol b s = Some t \<and> tg_sections t = tg_sections s \<and> (\<forall>tr\<in>set (doc_rows s). col_row b x s t tr)"
proof -
  let ?rows = "List.enumerate 0 (tg_grid s)"
  have "nth_opt (tg_grid s) y = Some row" if "(y, row) \<in> set ?rows" for y row
    using that by (auto simp: in_set_enumerate_eq nth_opt_def)
  from find_posX_column [of ?rows s None b, OF this] selected_row_found [OF assms(4)]
  obtain x y where x: "find_posX s b ?rows None = Some x" "selected_slot s y x" by auto
  have "col_inv b x s 0 (None, s)" using assms(2,3) by (auto simp: col_inv_def)
  from col_inv_rows [OF assms(1,2) this, of "build s"]
  obtain l t where t: "fold_opt (insertCol_step b (Some x)) ?rows (None, s) = Some (l, t)" "col_inv b x s (length (table_rows s)) (l, t)"
    using assms(3) by auto
  then have "insertCol b s = Some t" by (simp add: insertCol_def x(1))
  moreover have "col_row b x s t tr" if "tr \<in> set (doc_rows s)" for tr
  proof -
    have "tr \<in> set (table_rows s)" using that by (simp add: set_table_rows)
    then obtain i where "i < length (table_rows s)" "tr = table_rows s ! i" by (auto simp: in_set_conv_nth)
    then show ?thesis using t(2) by (simp add: col_inv_def)
  qed
  ultimately show ?thesis using x(2) t(2) by (auto simp: col_inv_def)
qed

text \<open>In a table without spans and without empty rows, with at least one selected cell,
  \<open>insertCol\<close> returns, and every row that reaches a selected column gets one new cell right before
  or after it: a clone of the cell there, under a new name. Shorter rows stay as they are.\<close>

lemma insertCol_adds_column:
  assumes "plain s" "doc_ok s" "tg_grid s = build s" "isCellSelected s (y0, x0, grid_at (tg_grid s) y0 x0)"
  shows "\<exists>x y t. isCellSelected s (y, x, grid_at (tg_grid s) y x) \<and> insertCol b s = Some t \<and> tg_sections t = tg_sections s
    \<and> (\<forall>tr. tr \<in> set (doc_rows s) \<longrightarrow>
         (if x < length (tg_rows s tr)
          then \<exists>new. new \<notin> set (doc_cells s) \<and> tg_cells t new = cloned_cell s (tg_cells s (tg_rows s tr ! x))
            \<and> tg_rows t tr = take (if b then x else Suc x) (tg_rows s tr) @ new # drop (if b then x else Suc x) (tg_rows s tr)
          else tg_rows t tr = tg_rows s tr))"
proof -
  have "col_row b x s t tr \<Longrightarrow> if x < length (tg_rows s tr)
          then \<exists>new. new \<notin> set (doc_cells s) \<and> tg_cells t new = cloned_cell s (tg_cells s (tg_rows s tr ! x))
            \<and> tg_rows t tr = take (if b then x else Suc x) (tg_rows s tr) @ new # drop (if b then x else Suc x) (tg_rows s tr)
          else tg_rows t tr = tg_rows s tr" for x t tr
    unfolding col_row_def by (cases "x < length (tg_rows s tr)") auto
  then show ?thesis using insertCol_plain [OF assms] by blast
qed


section \<open>Spans and the clipboard\<close>

text \<open>A cell over two rows and columns above a selected cell, and a selection above and below a
  cell over three columns.\<close>

definition column_table :: tgrid where
  "column_table = sample_table [[1, 2], [3], [4, 5, 6]] [(1, sample_cell ''A'' 2 2 False), (4, sample_cell ''D'' 1 1 True)]"

definition band_table :: tgrid where
  "band_table = sample_table [[1, 2, 3], [4], [5, 6, 7]] [(4, sample_cell ''B'' 1 3 False)]"

section \<open>Deleting columns\<close>

text \<open>The columns with a selected slot, the rows in which a cell covers a column, and what \<open>deleteCols\<close> takes from the column span of a cell: once for every slot
  of the deleted columns that it covers.\<close>

definition slot_elm :: "nat \<Rightarrow> gcell option list option \<Rightarrow> nat option" where
  "slot_elm x row = map_option gc_elm (Option.bind (Option.bind row (\<lambda>cs. nth_opt cs x)) id)"

definition covers :: "grid \<Rightarrow> nat \<Rightarrow> nat \<Rightarrow> nat" where
  "covers g x td = length (filter (\<lambda>row. slot_elm x row = Some td) g)"

definition selected_cols :: "tgrid \<Rightarrow> nat set" where
  "selected_cols s = set (map (\<lambda>(y, x, c). x) (filter (isCellSelected s) (slots (tg_grid s))))"

definition lost_span :: "tgrid \<Rightarrow> nat \<Rightarrow> nat" where
  "lost_span s td = (\<Sum>x\<in>selected_cols s. covers (tg_grid s) x td)"

definition stays :: "tgrid \<Rightarrow> (nat \<Rightarrow> nat) \<Rightarrow> nat \<Rightarrow> bool" where
  "stays s K td \<longleftrightarrow> K td = 0 \<or> int (K td) < colspan_of s td"

text \<open>The state in which the cells of \<open>s0\<close> have lost the amounts \<open>K\<close>.\<close>

definition shrunk :: "tgrid \<Rightarrow> (nat \<Rightarrow> nat) \<Rightarrow> tgrid \<Rightarrow> bool" where
  "shrunk s0 K s \<longleftrightarrow> doc_cells s = filter (stays s0 K) (doc_cells s0) \<and> doc_rows s = doc_rows s0
     \<and> (\<forall>td. if stays s0 K td then colspan_of s td = colspan_of s0 td - int (K td) else colspan_of s td \<le> 1)
     \<and> (\<forall>td. ce_selected (tg_cells s td) = ce_selected (tg_cells s0 td) \<and> ce_content (tg_cells s td) = ce_content (tg_cells s0 td))
     \<and> tg_grid s = tg_grid s0 \<and> tg_selectedCell s = tg_selectedCell s0 \<and> tg_build s = tg_build s0"

lemma shrunkD:
  assumes "shrunk s0 K s"
  shows "doc_cells s = filter (stays s0 K) (doc_cells s0)" "doc_rows s = doc_rows s0"
    "stays s0 K td \<Longrightarrow> colspan_of s td = colspan_of s0 td - int (K td)" "\<not> stays s0 K td \<Longrightarrow> colspan_of s td \<le> 1"
    "ce_selected (tg_cells s td) = ce_selected (tg_cells s0 td)" "ce_content (tg_cells s td) = ce_content (tg_cells s0 td)"
    "tg_grid s = tg_grid s0" "tg_selectedCell s = tg_selectedCell s0" "tg_build s = tg_build s0"
  using assms unfolding shrunk_def by (auto split: if_splits)

lemma shrunk_selected: "shrunk s0 K s \<Longrightarrow> isCellSelected s = isCellSelected s0"
  using shrunkD(5,8,9) [of s0 K s] by (auto simp: isCellSelected_def fun_eq_iff split: option.splits)

lemma colspan_setColSpan: "colspan_of (setColSpan td v s) td' = (if td' = td then v else colspan_of s td')"
  by (simp add: colspan_of_def setColSpan_def upd_cell_def getSpanVal_def span_attr_def)

lemma shrunk_one:
  assumes "shrunk s0 K s" "distinct (doc_cells s0)" "distinct (doc_rows s0)"
  shows "shrunk s0 (K(td := Suc (K td))) (if colspan_of s td > 1 then setColSpan td (colspan_of s td - 1) s else remove_cell td s)"
proof -
  let ?K = "K(td := Suc (K td))" and ?c = "colspan_of s0 td"
  note d = shrunkD [OF assms(1)]
  have other: "stays s0 ?K x = stays s0 K x" if "x \<noteq> td" for x using that by (simp add: stays_def)
  show ?thesis
  proof (cases "colspan_of s td > 1")
    case True
    have td: "stays s0 K td" using d(4) [of td] True by linarith
    then have "?c - int (K td) > 1" using d(3) True by simp
    then have td': "stays s0 ?K td" by (simp add: stays_def)
    have "stays s0 ?K x = stays s0 K x" for x using other [of x] td td' by (cases "x = td") simp_all
    then have same: "stays s0 ?K = stays s0 K" by (rule ext)
    let ?t = "setColSpan td (colspan_of s td - 1) s"
    have f: "doc_cells ?t = doc_cells s" "doc_rows ?t = doc_rows s" "tg_grid ?t = tg_grid s" "tg_selectedCell ?t = tg_selectedCell s" "tg_build ?t = tg_build s"
      "ce_selected (tg_cells ?t x) = ce_selected (tg_cells s x)" "ce_content (tg_cells ?t x) = ce_content (tg_cells s x)" for x
      by (simp_all add: setColSpan_def upd_cell_def doc_cells_def doc_rows_def)
    have "if stays s0 ?K x then colspan_of ?t x = colspan_of s0 x - int (?K x) else colspan_of ?t x \<le> 1" for x
      using d(3) [of x] d(4) [of x] d(3) [OF td] td unfolding same by (simp add: colspan_setColSpan)
    then have "shrunk s0 ?K ?t" using d f same unfolding shrunk_def by simp
    then show ?thesis using True by simp
  next
    case False
    have td': "\<not> stays s0 ?K td" using d(3) [of td] False by (auto simp: stays_def)
    let ?t = "remove_cell td s"
    have f: "tg_cells ?t = tg_cells s" "tg_grid ?t = tg_grid s" "tg_selectedCell ?t = tg_selectedCell s" "tg_build ?t = tg_build s" "doc_rows ?t = doc_rows s"
      by (simp_all add: remove_cell_def upd_row_def doc_rows_def split: option.split)
    have "doc_cells ?t = filter (\<lambda>x. x \<noteq> td) (filter (stays s0 K) (doc_cells s0))" using doc_cells_remove [of s td] assms(2,3) d(1,2) by simp
    also have "\<dots> = filter (stays s0 ?K) (doc_cells s0)" unfolding filter_filter using other td' by (intro filter_cong) metis+
    finally have "doc_cells ?t = filter (stays s0 ?K) (doc_cells s0)" .
    moreover have "if stays s0 ?K x then colspan_of ?t x = colspan_of s0 x - int (?K x) else colspan_of ?t x \<le> 1" for x
      using d(3) [of x] d(4) [of x] False td' other [of x] f(1) by (cases "x = td") (simp_all add: colspan_of_def)
    ultimately have "shrunk s0 ?K ?t" using d f unfolding shrunk_def by simp
    then show ?thesis using False by simp
  qed
qed

lemma shrunk_column:
  assumes "distinct (doc_cells s0)" "distinct (doc_rows s0)"
  shows "shrunk s0 K s \<Longrightarrow> fold_opt (shrink_cell x) g s = Some t \<Longrightarrow> shrunk s0 (\<lambda>td. K td + covers g x td) t"
proof (induction g arbitrary: K s)
  case Nil
  then show ?case by (simp add: covers_def)
next
  case (Cons row g)
  obtain u where u: "shrink_cell x row s = Some u" "fold_opt (shrink_cell x) g u = Some t" using Cons.prems(2) by (auto split: option.splits)
  then obtain td where td: "slot_elm x row = Some td" "u = (if colspan_of s td > 1 then setColSpan td (colspan_of s td - 1) s else remove_cell td s)"
    by (auto simp: shrink_cell_def slot_elm_def Let_def split: option.splits)
  have "shrunk s0 (K(td := Suc (K td))) u" unfolding td(2) by (rule shrunk_one [OF Cons.prems(1) assms])
  from Cons.IH [OF this u(2)] have "shrunk s0 (\<lambda>e. (K(td := Suc (K td))) e + covers g x e) t" .
  moreover have "(\<lambda>e. (K(td := Suc (K td))) e + covers g x e) = (\<lambda>e. K e + covers (row # g) x e)" using td(1) by (auto simp: covers_def fun_eq_iff)
  ultimately show ?case by simp
qed

lemma shrunk_columns:
  assumes "distinct (doc_cells s0)" "distinct (doc_rows s0)"
  shows "shrunk s0 (\<lambda>td. \<Sum>x\<in>set cols. covers (tg_grid s0) x td) s \<Longrightarrow> fold_opt deleteCols_step ps (cols, s) = Some (cols', t)
    \<Longrightarrow> set cols' = set cols \<union> set (map (\<lambda>(y, x, c). x) (filter (isCellSelected s0) ps))
      \<and> shrunk s0 (\<lambda>td. \<Sum>x\<in>set cols'. covers (tg_grid s0) x td) t"
proof (induction ps arbitrary: cols s)
  case (Cons p ps)
  obtain y x c where p: "p = (y, x, c)" by (cases p)
  note sel = shrunk_selected [OF Cons.prems(1)]
  show ?case
  proof (cases "isCellSelected s0 p \<and> x \<notin> set cols")
    case False
    then have "deleteCols_step p (cols, s) = Some (cols, s)" using sel by (auto simp: deleteCols_step_def p)
    then show ?thesis using Cons.IH [OF Cons.prems(1)] Cons.prems(2) False by (auto simp: p)
  next
    case True
    then obtain u where u: "fold_opt (shrink_cell x) (tg_grid s) s = Some u" "fold_opt deleteCols_step ps (cols @ [x], u) = Some (cols', t)"
      using Cons.prems(2) sel by (auto simp: deleteCols_step_def p split: option.splits)
    have "shrunk s0 (\<lambda>td. (\<Sum>x\<in>set cols. covers (tg_grid s0) x td) + covers (tg_grid s0) x td) u"
      using shrunk_column [OF assms Cons.prems(1) u(1)] shrunkD(7) [OF Cons.prems(1)] by simp
    moreover have "(\<lambda>td. (\<Sum>x\<in>set cols. covers (tg_grid s0) x td) + covers (tg_grid s0) x td) = (\<lambda>td. \<Sum>x\<in>set (cols @ [x]). covers (tg_grid s0) x td)"
      using True by (simp add: fun_eq_iff)
    ultimately have "shrunk s0 (\<lambda>td. \<Sum>x\<in>set (cols @ [x]). covers (tg_grid s0) x td) u" by simp
    from Cons.IH [OF this u(2)] show ?thesis using True by (auto simp: p)
  qed
qed simp

text \<open>C34. Deleting the columns with a selected cell takes from the column span of every cell one for each slot of those columns that the cell covers, once
  for every row of the cell and not once for every column. A cell stays exactly when that leaves at least one column (or takes none), and the cells that
  stay keep their order and contents. So a cell over as many rows as columns, or more, is removed with its contents when one of its columns is deleted, also when
  it reaches beyond it.\<close>

theorem deleteCols_counts_slots:
  assumes "distinct (doc_cells s)" and "distinct (doc_rows s)" and "deleteCols s = Some t"
  shows "doc_cells t = filter (stays s (lost_span s)) (doc_cells s)
    \<and> list_all (\<lambda>td. colspan_of t td = colspan_of s td - int (lost_span s td) \<and> ce_content (tg_cells t td) = ce_content (tg_cells s td)) (doc_cells t)
    \<and> table_texts t = concat (map (cell_texts s) (filter (stays s (lost_span s)) (doc_cells s)))"
proof -
  obtain cols u where u: "fold_opt deleteCols_step (slots (tg_grid s)) ([], s) = Some (cols, u)" "cleanup u = Some t"
    using assms(3) by (auto simp: deleteCols_def bind_eq_Some_conv)
  have "shrunk s (\<lambda>td. \<Sum>x\<in>set []. covers (tg_grid s) x td) s" by (simp add: shrunk_def stays_def)
  note r = shrunk_columns [OF assms(1,2) this u(1)]
  have "set cols = selected_cols s" using conjunct1 [OF r] by (simp add: selected_cols_def)
  with conjunct2 [OF r] have sh: "shrunk s (lost_span s) u" by (simp add: lost_span_def [abs_def])
  have same: "doc_cells t = doc_cells u" "tg_cells t = tg_cells u" using same_doc_cleanup [OF u(2)] by (simp_all add: same_doc_def)
  have cells: "doc_cells t = filter (stays s (lost_span s)) (doc_cells s)" using shrunkD(1) [OF sh] same(1) by simp
  moreover have "colspan_of t td = colspan_of s td - int (lost_span s td) \<and> ce_content (tg_cells t td) = ce_content (tg_cells s td)" if "td \<in> set (doc_cells t)" for td
    using shrunkD(3,6) [OF sh] that cells same(2) by (simp add: colspan_of_def)
  moreover have "table_texts t = concat (map (cell_texts s) (doc_cells t))"
    unfolding table_texts_def using calculation(2) by (auto simp: cell_texts_def intro!: arg_cong [of _ _ concat] map_cong)
  ultimately show ?thesis by (simp add: list_all_iff)
qed

text \<open>The upper left cell of \<open>column_table\<close> spans two rows and two columns; the first column is deleted.\<close>

theorem deleteCols_counts_slots_witness:
  "map_option doc_cells (Option.bind (new_TableGrid (Some 4) column_table) deleteCols) = Some [2, 3, 5, 6]"
proof -
  have "map_option (\<lambda>s. (distinct (doc_cells s), distinct (doc_rows s), deleteCols s = None, filter (stays s (lost_span s)) (doc_cells s)))
      (new_TableGrid (Some 4) column_table) = Some (True, True, False, [2, 3, 5, 6])" by code_simp
  then obtain s where s: "new_TableGrid (Some 4) column_table = Some s" "distinct (doc_cells s)" "distinct (doc_rows s)" "deleteCols s \<noteq> None"
      "filter (stays s (lost_span s)) (doc_cells s) = [2, 3, 5, 6]" by auto
  then obtain t where t: "deleteCols s = Some t" by blast
  show ?thesis using deleteCols_counts_slots [OF s(2,3) t] s(1,5) t by simp
qed

section \<open>Operations that go wrong\<close>

text \<open>Selecting from the middle of one row to the middle of another across a cell over three columns
  raises a TypeError: the start moves left by the whole span of that cell, out of the table.\<close>

lemma selection_across_span_raises:
  "Option.bind (new_TableGrid (Some 2) band_table) (setStartCell 2) \<noteq> None"
  "Option.bind (Option.bind (new_TableGrid (Some 2) band_table) (setStartCell 2)) (setEndCell 6) = None"
  by code_simp+

text \<open>Deleting the first row of a table with a cell over three rows leaves that cell in the row: its
  row span is reduced twice, and it is removed only when the span has come to 1.\<close>

lemma deleteRows_keeps_tall_cell:
  "map_option (\<lambda>t. map (tg_rows t) (doc_rows t))
     (Option.bind (new_TableGrid (Some 1) (sample_table [[1, 2], [3], [4]] [(1, sample_cell ''A'' 3 1 False)])) deleteRows)
   = Some [[1], [100, 3], [4]]"
  by code_simp

text \<open>A row inserted below a cell over two rows and two columns extends that cell by two rows.\<close>

lemma insertRow_extends_twice:
  "map_option (\<lambda>t. rowspan_of t 1) (Option.bind (new_TableGrid (Some 2) wide_table) (insertRow False)) = Some 4"
  by code_simp

text \<open>With cells of the first two rows selected, a row inserted before the selection is put before
  the second of them.\<close>

lemma insertRow_before_second:
  "map_option (\<lambda>s. find_posY s True (List.enumerate 0 (tg_grid s)) None) (new_TableGrid (Some 1) merge_table) = Some (Some (1, 4))"
  by code_simp

text \<open>The cells of a row of the clipboard.\<close>

lemma remove_at_beyond: "length cs \<le> i \<Longrightarrow> remove_at i cs = cs"
  by (simp add: remove_at_def)

lemma fold_remove_at:
  fixes cs :: "nat list"
  shows "length cs \<le> m \<Longrightarrow> i \<le> length cs \<Longrightarrow> length (fold remove_at [i..<m] cs) = i + (length cs - i) div 2"
proof (induction "length cs - i" arbitrary: i cs rule: less_induct)
  case less
  have beyond: "fold remove_at [k..<m] ds = ds" if "length ds \<le> k" for k and ds :: "nat list"
    using that by (induction "m - k" arbitrary: k) (auto simp: upt_rec remove_at_beyond)
  consider "i = length cs" | "Suc i = length cs" | "Suc (Suc i) \<le> length cs" using less.prems(2) by linarith
  then show ?case
  proof cases
    case 1
    then show ?thesis by (simp add: beyond)
  next
    case 2
    then have up: "[i..<m] = i # [Suc i..<m]" using less.prems(1) by (simp add: upt_rec)
    have "length (remove_at i cs) = i" using 2 by (simp add: remove_at_def)
    then show ?thesis unfolding up using 2 beyond [of "remove_at i cs" "Suc i"] by simp
  next
    case 3
    then have up: "[i..<m] = i # [Suc i..<m]" using less.prems(1) by (simp add: upt_rec)
    have len: "length (remove_at i cs) = length cs - 1" using 3 by (intro length_remove_at) simp
    have "length (fold remove_at [Suc i..<m] (remove_at i cs)) = Suc i + (length (remove_at i cs) - Suc i) div 2"
      using 3 less.prems(1) by (intro less.hyps) (unfold len, arith+)
    then show ?thesis unfolding up len using 3 by simp
  qed
qed

lemma append_clones:
  assumes "0 < k" "length (tg_rows s tr) \<ge> k" "fold_opt (\<lambda>_. append_clone tr k) xs s = t"
  shows "\<exists>u. t = Some u \<and> length (tg_rows u tr) = length (tg_rows s tr) + length xs"
  using assms(2,3)
proof (induction xs arbitrary: s)
  case (Cons x xs)
  define c where "c = cloneCell (tg_rows s tr ! (k - 1)) s"
  define u where "u = upd_row tr (\<lambda>cs. cs @ [fst c]) (snd c)"
  have "append_clone tr k s = Some u" using assms(1) by (simp add: append_clone_def u_def c_def case_prod_beta)
  moreover have "length (tg_rows u tr) = Suc (length (tg_rows s tr))" by (simp add: u_def c_def upd_row_def cloneCell_def)
  ultimately show ?case using Cons.IH [of u] Cons.prems by simp
qed auto

lemma tg_rows_insert_row_at [simp]: "tg_rows (insert_row_at b new ref s) = tg_rows s"
  by (simp add: insert_row_at_def map_sections_def remove_row_def)

lemma tg_rows_spans: "tg_rows (fold (\<lambda>td u. setRowSpan td 1 (setColSpan td 1 u)) tds s) = tg_rows s"
  by (induction tds arbitrary: s) (simp_all add: setRowSpan_def setColSpan_def upd_cell_def)

text \<open>Pasting a row: a row with too few cells gets exactly as many as the target row has
  columns, but of a row with too many only every second excess cell is removed, because the loop
  counts through the list of cells that shrinks under it.\<close>

lemma paste_row_width:
  assumes "tg_rows s row \<noteq> []"
  shows "\<exists>t. pasteRow b target n row s = Some t
    \<and> length (tg_rows t row) = (let c = length (tg_rows s row) in if c \<le> n then n else n + (c - n) div 2)"
proof -
  let ?c = "length (tg_rows s row)" and ?s = "fold (\<lambda>td u. setRowSpan td 1 (setColSpan td 1 u)) (tg_rows s row) s"
  obtain u where u: "fold_opt (\<lambda>_. append_clone row ?c) [?c..<n] ?s = Some u" "length (tg_rows u row) = ?c + (n - ?c)"
    using append_clones [of ?c ?s row "[?c..<n]"] assms by (auto simp: tg_rows_spans)
  have "length (drop_excess n ?c (tg_rows u row)) = (if ?c \<le> n then n else n + (?c - n) div 2)"
    using fold_remove_at [of "tg_rows u row" ?c n] u(2) by (simp add: drop_excess_def)
  then show ?thesis using u(1) by (simp add: pasteRow_def Let_def upd_row_def)
qed


end
