(* ===== verification/TableCommands.thy ===== *)
theory TableCommands
  imports TablePlain
begin

text \<open>
  The commands of the table plugin (\<open>plugins/table/classes/Plugin.js\<close>): every command builds a
  grid over the table of the selection, runs one operation of it and clears the selection of cells.
  The state of the plugin is the table, the clipboard of rows and whether cells were selected.
  The dialog of the merge command is submitted at once or cancelled.
\<close>

section \<open>The commands\<close>

datatype command =
    SplitCells
  | MergeCells "(int \<times> int) option"
  | InsertRow bool
  | InsertCol bool
  | DeleteCol
  | DeleteRow
  | CutRow
  | CopyRow
  | PasteRow bool
  | DeleteTable

record plugin =
  pl_table :: tgrid
  pl_clipboardRows :: "nat list option"
  pl_hasCellSelection :: bool

definition any_selected :: "tgrid \<Rightarrow> bool" where
  "any_selected s = list_ex (\<lambda>td. ce_selected (tg_cells s td)) (doc_cells s)"

definition mergeCommand :: "nat option \<Rightarrow> (int \<times> int) option \<Rightarrow> tgrid \<Rightarrow> tgrid option" where
  "mergeCommand td dialog s =
     (if any_selected s then merge None s
      else case dialog of None \<Rightarrow> Some s | Some (cols, rows) \<Rightarrow> merge (map_option (\<lambda>c. (c, cols, rows)) td) s)"

text \<open>The clipboard and the table after a command, with the cell that holds the selection.\<close>

fun action :: "command \<Rightarrow> nat option \<Rightarrow> nat list option \<Rightarrow> tgrid \<Rightarrow> (nat list option \<times> tgrid) option" where
  "action SplitCells td clip s = map_option (Pair clip) (split s)"
| "action (MergeCells dialog) td clip s = map_option (Pair clip) (mergeCommand td dialog s)"
| "action (InsertRow bef) td clip s = map_option (Pair clip) (insertRow bef s)"
| "action (InsertCol bef) td clip s = map_option (Pair clip) (insertCol bef s)"
| "action DeleteCol td clip s = map_option (Pair clip) (deleteCols s)"
| "action DeleteRow td clip s = map_option (Pair clip) (deleteRows s)"
| "action CutRow td clip s = map_option (\<lambda>(rows, t). (Some rows, t)) (cutRows s)"
| "action CopyRow td clip s = map_option (\<lambda>(rows, t). (Some rows, t)) (copyRows s)"
| "action (PasteRow bef) td clip s = pasteRows clip bef s"
| "action DeleteTable td clip s = Some (clip, deleteTable s)"

definition clear_selection :: "plugin \<Rightarrow> plugin" where
  "clear_selection p =
     (if pl_hasCellSelection p then p\<lparr>pl_table := deselect_all (pl_table p), pl_hasCellSelection := False\<rparr> else p)"

definition exec :: "command \<times> nat option \<Rightarrow> plugin \<Rightarrow> plugin option" where
  "exec = (\<lambda>(cmd, td) p.
     case new_TableGrid td (pl_table p) of
       None \<Rightarrow> None
     | Some g \<Rightarrow>
         (case action cmd td (pl_clipboardRows p) g of
            None \<Rightarrow> None
          | Some (clip, t) \<Rightarrow> Some (clear_selection (p\<lparr>pl_table := t, pl_clipboardRows := clip\<rparr>))))"

section \<open>Operations that lose no text\<close>

text \<open>The contract of an operation that keeps the texts: they may move, and the table stays well-formed.\<close>

locale text_edit =
  fixes edit :: "tgrid \<Rightarrow> tgrid option"
  assumes keeps: "doc_ok s \<Longrightarrow> \<not> tg_ie s \<Longrightarrow> edit s = Some t \<Longrightarrow> doc_ok t \<and> \<not> tg_ie t \<and> mset (table_texts t) = mset (table_texts s)"
begin

text \<open>The operation on a grid that was built for it, and with the selection cleared afterwards.\<close>

lemma on_new_grid:
  assumes "doc_ok s" "\<not> tg_ie s" "new_TableGrid td s = Some g" "edit g = Some t"
  shows "doc_ok t \<and> \<not> tg_ie t \<and> mset (table_texts t) = mset (table_texts s)"
proof -
  have "same_doc s g"
    using assms(3) by (auto simp: new_TableGrid_def Let_def buildGrid_def split: option.splits prod.splits intro!: same_doc_eqI)
  then have "same_text s g" by (rule same_doc_text) (simp add: same_text_def assms(1,2))
  then show ?thesis using keeps [OF _ _ assms(4)] by (auto simp: same_text_def)
qed

end

lemma same_text_keeps:
  assumes "\<And>s t. same_text s s \<Longrightarrow> edit s = Some t \<Longrightarrow> same_text s t"
  shows "text_edit edit"
proof
  show "doc_ok t \<and> \<not> tg_ie t \<and> mset (table_texts t) = mset (table_texts s)" if "doc_ok s" "\<not> tg_ie s" "edit s = Some t" for s t
    using assms [of s t] that by (auto simp: same_text_def)
qed

interpretation split_edit: text_edit split
  by (rule same_text_keeps) (rule same_text_split)

interpretation insertRow_edit: text_edit "insertRow bef" for bef
  by (rule same_text_keeps) (rule same_text_insertRow)

interpretation insertCol_edit: text_edit "insertCol bef" for bef
  by (rule same_text_keeps) (rule same_text_insertCol)

lemma merge_texts:
  assumes "doc_ok s" "\<not> tg_ie s" "merge arg s = Some t"
  shows "doc_ok t \<and> \<not> tg_ie t \<and> mset (table_texts t) = mset (table_texts s)"
proof -
  have "same_doc s (s\<lparr>tg_startPos := p, tg_endPos := q\<rparr>)" for p q by (rule same_doc_eqI) simp_all
  then have "same_text s (s\<lparr>tg_startPos := p, tg_endPos := q\<rparr>)" for p q
    by (rule same_doc_text) (simp add: same_text_def assms(1,2))
  then have p: "doc_ok (s\<lparr>tg_startPos := p, tg_endPos := q\<rparr>)" "table_texts (s\<lparr>tg_startPos := p, tg_endPos := q\<rparr>) = table_texts s" for p q
    by (simp_all add: same_text_def)
  have "doc_ok t \<and> \<not> tg_ie t \<and> mset (table_texts t) = mset (table_texts s)"
    if "merge_area x0 y0 x1 y1 (s\<lparr>tg_startPos := p, tg_endPos := q\<rparr>) = Some t" for x0 y0 x1 y1 p q
    using merge_area_texts [OF p(1) _ that] assms(2) by (simp add: p)
  then show ?thesis using assms(3) merge_area_texts [OF assms(1,2)]
    by (auto simp: merge_def split: option.splits prod.splits)
qed

interpretation merge_edit: text_edit "mergeCommand td dialog" for td dialog
proof
  show "doc_ok t \<and> \<not> tg_ie t \<and> mset (table_texts t) = mset (table_texts s)"
    if "doc_ok s" "\<not> tg_ie s" "mergeCommand td dialog s = Some t" for s t
    using that merge_texts [OF that(1,2)] by (auto simp: mergeCommand_def split: if_splits option.splits prod.splits)
qed

text \<open>New objects leave the document alone.\<close>

definition only_new :: "tgrid \<Rightarrow> tgrid \<Rightarrow> bool" where
  "only_new s t \<longleftrightarrow> tg_sections t = tg_sections s \<and> tg_ie t = tg_ie s \<and> tg_fresh s \<le> tg_fresh t
     \<and> (\<forall>n<tg_fresh s. tg_rows t n = tg_rows s n \<and> tg_cells t n = tg_cells s n)"

lemma only_new_refl [simp]: "only_new s s"
  by (simp add: only_new_def)

lemma only_new_trans: "only_new s t \<Longrightarrow> only_new t u \<Longrightarrow> only_new s u"
  by (auto simp: only_new_def)

lemma only_new_text:
  assumes "only_new s t" "same_text s0 s"
  shows "same_text s0 t"
proof -
  have d: "doc_rows t = doc_rows s" using assms(1) by (simp add: only_new_def doc_rows_def)
  have ok: "doc_ok s" using assms(2) by (simp add: same_text_def)
  have "map (tg_rows t) (doc_rows s) = map (tg_rows s) (doc_rows s)"
    using assms(1) ok by (auto simp: only_new_def doc_ok_def list_all_iff)
  then have c: "doc_cells t = doc_cells s" by (simp only: doc_cells_def d)
  have "map (cell_texts t) (doc_cells s) = map (cell_texts s) (doc_cells s)"
    using assms(1) ok by (auto simp: only_new_def doc_ok_def list_all_iff cell_texts_def)
  then have "table_texts t = table_texts s" by (simp only: table_texts_def c)
  moreover have "doc_ok t" using assms(1) ok by (auto simp: only_new_def doc_ok_def list_all_iff d c intro: less_le_trans)
  ultimately show ?thesis using assms by (simp add: same_text_def only_new_def)
qed

lemma only_new_copy_row: "only_new (snd p) (snd (copy_row tr p))"
proof -
  have cells: "only_new (snd q) (snd (fold copy_cell tds q))" for tds q
  proof (induction tds arbitrary: q)
    case (Cons td tds)
    have "only_new (snd q) (snd (copy_cell td q))" by (auto simp: only_new_def copy_cell_def split: prod.splits)
    then show ?case using Cons [of "copy_cell td q"] only_new_trans by auto
  qed simp
  obtain rows s where p: "p = (rows, s)" by (cases p)
  obtain cs t where f: "fold copy_cell (tg_rows s tr) ([], s) = (cs, t)" by fastforce
  have "only_new s t" using cells [of "([], s)" "tg_rows s tr"] by (simp add: f)
  moreover have "only_new t (t\<lparr>tg_rows := (tg_rows t)(tg_fresh t := cs), tg_fresh := Suc (tg_fresh t)\<rparr>)" by (auto simp: only_new_def)
  ultimately show ?thesis using only_new_trans by (simp add: p copy_row_def f)
qed

interpretation copy_edit: text_edit "\<lambda>s. map_option snd (copyRows s)"
proof (rule same_text_keeps)
  show "same_text s t" if "same_text s s" "map_option snd (copyRows s) = Some t" for s t
  proof -
    have "only_new (snd p) (snd (fold copy_row rows p))" for rows p
    proof (induction rows arbitrary: p)
      case (Cons tr rows)
      show ?case using only_new_trans [OF only_new_copy_row Cons] by simp
    qed simp
    then have "only_new s t" using that(2) by (auto simp: copyRows_def) (metis snd_conv)
    then show ?thesis using that(1) only_new_text by blast
  qed
qed

section \<open>Sequences of commands\<close>

definition keeps_text :: "command \<Rightarrow> bool" where
  "keeps_text cmd = (case cmd of SplitCells \<Rightarrow> True | MergeCells _ \<Rightarrow> True | InsertRow _ \<Rightarrow> True | InsertCol _ \<Rightarrow> True | CopyRow \<Rightarrow> True | _ \<Rightarrow> False)"

lemma action_keeps_text:
  assumes "keeps_text cmd" "doc_ok s" "\<not> tg_ie s" "new_TableGrid td s = Some g" "action cmd td clip g = Some (clip', t)"
  shows "doc_ok t \<and> \<not> tg_ie t \<and> mset (table_texts t) = mset (table_texts s)"
proof (cases cmd)
  case CopyRow
  then have "map_option snd (copyRows g) = Some t" using assms(5) by auto
  then show ?thesis by (rule copy_edit.on_new_grid [OF assms(2-4)])
qed (use assms split_edit.on_new_grid [OF assms(2-4)] merge_edit.on_new_grid [OF assms(2-4)]
      insertRow_edit.on_new_grid [OF assms(2-4)] insertCol_edit.on_new_grid [OF assms(2-4)] in \<open>auto simp: keeps_text_def\<close>)

lemma deselect_texts: "same_text s0 s \<Longrightarrow> same_text s0 (deselect_all s)"
proof -
  assume s: "same_text s0 s"
  have "cell_texts (deselect_all s) = cell_texts s" by (intro ext) (simp add: cell_texts_def deselect_all_def)
  then have "table_texts (deselect_all s) = table_texts s" by (simp add: table_texts_def) (simp add: deselect_all_def doc_cells_def doc_rows_def)
  then show ?thesis using s by (simp add: same_text_def doc_ok_def) (simp add: deselect_all_def doc_cells_def doc_rows_def)
qed

lemma exec_keeps_text:
  assumes "keeps_text (fst c)" "doc_ok (pl_table p)" "\<not> tg_ie (pl_table p)" "exec c p = Some q"
  shows "doc_ok (pl_table q) \<and> \<not> tg_ie (pl_table q) \<and> mset (table_texts (pl_table q)) = mset (table_texts (pl_table p))"
proof -
  obtain cmd td where c: "c = (cmd, td)" by (cases c)
  obtain g clip t where g: "new_TableGrid td (pl_table p) = Some g" "action cmd td (pl_clipboardRows p) g = Some (clip, t)"
    and q: "q = clear_selection (p\<lparr>pl_table := t, pl_clipboardRows := clip\<rparr>)"
    using assms(4) by (auto simp: exec_def c split: option.splits)
  have t: "doc_ok t" "\<not> tg_ie t" "mset (table_texts t) = mset (table_texts (pl_table p))"
    using action_keeps_text [OF _ assms(2,3) g] assms(1) by (auto simp: c)
  have "same_text t (deselect_all t)" by (rule deselect_texts) (simp add: same_text_def t)
  then show ?thesis using t by (auto simp: q clear_selection_def same_text_def)
qed

text \<open>C12. No sequence of the commands that split and merge cells, insert rows or columns and copy
  rows loses or doubles a text of the table: when none of them raises an error, the table holds the
  same texts at the end, and no row or cell is in it twice. Each command works on a grid of its own.\<close>

theorem commands_keep_text:
  assumes "doc_ok (pl_table p)" "\<not> tg_ie (pl_table p)" "list_all (keeps_text \<circ> fst) cmds" "fold_opt exec cmds p = Some q"
  shows "mset (table_texts (pl_table q)) = mset (table_texts (pl_table p)) \<and> doc_ok (pl_table q)"
  using assms
proof (induction cmds arbitrary: p)
  case (Cons c cmds)
  obtain r where r: "exec c p = Some r" "fold_opt exec cmds r = Some q" using Cons.prems(4) by (auto split: option.splits)
  have k: "keeps_text (fst c)" using Cons.prems(3) by simp
  then show ?case using Cons.IH [of r] exec_keeps_text [OF k Cons.prems(1,2) r(1)] Cons.prems(3) r(2) by simp
qed simp

theorem commands_keep_text_witness:
  "\<exists>q. fold_opt exec [(MergeCells None, Some 1), (InsertRow True, Some 3)]
       \<lparr>pl_table = merge_table, pl_clipboardRows = None, pl_hasCellSelection = True\<rparr> = Some q
     \<and> mset (table_texts (pl_table q)) = mset (table_texts merge_table) \<and> doc_ok (pl_table q)"
proof -
  let ?p = "\<lparr>pl_table = merge_table, pl_clipboardRows = None, pl_hasCellSelection = True\<rparr>"
  let ?c = "[(MergeCells None, Some 1), (InsertRow True, Some 3)]"
  have "fold_opt exec ?c ?p \<noteq> None" by code_simp
  then obtain q where q: "fold_opt exec ?c ?p = Some q" by blast
  have "list_all (keeps_text \<circ> fst) ?c" by code_simp
  moreover have "doc_ok (pl_table ?p)" "\<not> tg_ie (pl_table ?p)" by code_simp+
  ultimately show ?thesis using commands_keep_text [of ?p ?c q] q by auto
qed

end
