(* ===== verification/DomTree.thy ===== *)
theory DomTree
  imports JsBase
begin

text \<open>
  The document of the browser as the classes under \<open>classes/dom\<close> use it: nodes are numbers, the state holds
  for every node its kind with its value, its parent and its children. The operations are those of
  the DOM standard; None is an exception. The second part models the helpers of
  \<open>classes/dom/DOMUtils.js\<close> for positions in a tree, the third relates nodes to their paths from the root.
\<close>

section \<open>Nodes\<close>

datatype nkind = KDoc | KFrag | KElem string "(string \<times> string) list" | KText ustring | KOther nat ustring

record dom =
  dm_kind :: "nat \<Rightarrow> nkind"
  dm_parent :: "nat \<Rightarrow> nat option"
  dm_children :: "nat \<Rightarrow> nat list"
  dm_fresh :: nat
  dm_documentElement :: nat

definition is_text :: "dom \<Rightarrow> nat \<Rightarrow> bool" where
  "is_text d n = (case dm_kind d n of KText _ \<Rightarrow> True | _ \<Rightarrow> False)"

definition is_element :: "dom \<Rightarrow> nat \<Rightarrow> bool" where
  "is_element d n = (case dm_kind d n of KElem _ _ \<Rightarrow> True | _ \<Rightarrow> False)"

text \<open>\<open>nodeValue\<close> is null for elements, documents and fragments.\<close>

definition nodeValue :: "dom \<Rightarrow> nat \<Rightarrow> ustring option" where
  "nodeValue d n = (case dm_kind d n of KText v \<Rightarrow> Some v | KOther _ v \<Rightarrow> Some v | _ \<Rightarrow> None)"

definition setNodeValue :: "nat \<Rightarrow> ustring \<Rightarrow> dom \<Rightarrow> dom" where
  "setNodeValue n v d = (case dm_kind d n of
       KText _ \<Rightarrow> d\<lparr>dm_kind := (dm_kind d)(n := KText v)\<rparr>
     | KOther k _ \<Rightarrow> d\<lparr>dm_kind := (dm_kind d)(n := KOther k v)\<rparr>
     | _ \<Rightarrow> d)"

definition firstChild :: "dom \<Rightarrow> nat \<Rightarrow> nat option" where
  "firstChild d n = hd_opt (dm_children d n)"

definition lastChild :: "dom \<Rightarrow> nat \<Rightarrow> nat option" where
  "lastChild d n = last_opt (dm_children d n)"

definition nextSibling :: "dom \<Rightarrow> nat \<Rightarrow> nat option" where
  "nextSibling d n = (case dm_parent d n of None \<Rightarrow> None | Some p \<Rightarrow> after_in n (dm_children d p))"

definition previousSibling :: "dom \<Rightarrow> nat \<Rightarrow> nat option" where
  "previousSibling d n = (case dm_parent d n of None \<Rightarrow> None | Some p \<Rightarrow> before_in n (dm_children d p))"

section \<open>Changing the tree\<close>

definition detach :: "nat \<Rightarrow> dom \<Rightarrow> dom" where
  "detach n d = (case dm_parent d n of None \<Rightarrow> d
     | Some p \<Rightarrow> d\<lparr>dm_parent := (dm_parent d)(n := None), dm_children := (dm_children d)(p := remove1 n (dm_children d p))\<rparr>)"

definition removeChild :: "nat \<Rightarrow> nat \<Rightarrow> dom \<Rightarrow> dom option" where
  "removeChild p n d = (if dm_parent d n = Some p then Some (detach n d) else None)"

definition put_child :: "nat \<Rightarrow> (nat list \<Rightarrow> nat list) \<Rightarrow> nat \<Rightarrow> dom \<Rightarrow> dom" where
  "put_child p f n d = (let e = detach n d
     in e\<lparr>dm_parent := (dm_parent e)(n := Some p), dm_children := (dm_children e)(p := f (dm_children e p))\<rparr>)"

text \<open>The nodes that come in for a node: the children of a fragment.\<close>

definition parts :: "dom \<Rightarrow> nat \<Rightarrow> nat list" where
  "parts d n = (if dm_kind d n = KFrag then dm_children d n else [n])"

definition appendChild :: "nat \<Rightarrow> nat \<Rightarrow> dom \<Rightarrow> dom" where
  "appendChild p n d = fold (\<lambda>c. put_child p (\<lambda>cs. cs @ [c]) c) (parts d n) d"

definition insertBefore :: "nat \<Rightarrow> nat \<Rightarrow> nat option \<Rightarrow> dom \<Rightarrow> dom option" where
  "insertBefore p n ref d = (case ref of None \<Rightarrow> Some (appendChild p n d)
     | Some r \<Rightarrow>
         if r = n then Some d
         else if dm_parent d r = Some p then Some (fold (\<lambda>c. put_child p (insert_before c r) c) (parts d n) d) else None)"

definition alloc :: "nkind \<Rightarrow> dom \<Rightarrow> nat \<times> dom" where
  "alloc k d = (dm_fresh d, d\<lparr>dm_kind := (dm_kind d)(dm_fresh d := k), dm_parent := (dm_parent d)(dm_fresh d := None),
     dm_children := (dm_children d)(dm_fresh d := []), dm_fresh := Suc (dm_fresh d)\<rparr>)"

text \<open>\<open>cloneNode\<close>: the fuel bounds the depth of the tree.\<close>

fun clone_deep :: "nat \<Rightarrow> nat \<Rightarrow> dom \<Rightarrow> (nat \<times> dom) option"
and clone_children :: "nat \<Rightarrow> nat \<Rightarrow> nat list \<Rightarrow> dom \<Rightarrow> dom option" where
  "clone_deep 0 n d = None"
| "clone_deep (Suc k) n d = (let (m, e) = alloc (dm_kind d n) d
     in map_option (Pair m) (clone_children k m (dm_children d n) e))"
| "clone_children k m [] d = Some d"
| "clone_children k m (c # cs) d =
     (case clone_deep k c d of None \<Rightarrow> None | Some (c', e) \<Rightarrow> clone_children k m cs (appendChild m c' e))"

text \<open>\<open>clone\<close> of \<open>DOMUtils.js\<close> in browsers other than Internet Explorer, where it is \<open>cloneNode\<close>. Left out is the rest of the function (from line 144), by which
  Internet Explorer makes the shallow copy of an element with \<open>createElement\<close> and copies its attributes one by one.\<close>

definition clone :: "nat \<Rightarrow> bool \<Rightarrow> dom \<Rightarrow> (nat \<times> dom) option" where
  "clone n deep d = (if deep then clone_deep (dm_fresh d) n d else Some (alloc (dm_kind d n) d))"

text \<open>\<open>splitText\<close>: the new text node comes right after the old one.\<close>

definition splitText :: "nat \<Rightarrow> nat \<Rightarrow> dom \<Rightarrow> (nat \<times> dom) option" where
  "splitText n i d = (case nodeValue d n of None \<Rightarrow> None
     | Some v \<Rightarrow>
         if length v < i then None
         else (let (m, e) = alloc (KText (drop i v)) d; f = setNodeValue n (take i v) e
               in Some (m, case dm_parent f n of None \<Rightarrow> f | Some p \<Rightarrow> put_child p (insert_after m n) m f)))"

definition deleteData :: "nat \<Rightarrow> nat \<Rightarrow> nat \<Rightarrow> dom \<Rightarrow> dom option" where
  "deleteData n i len d = (case nodeValue d n of None \<Rightarrow> None
     | Some v \<Rightarrow> if length v < i then None else Some (setNodeValue n (take i v @ drop (i + len) v) d))"

section \<open>Helpers\<close>

text \<open>A loop \<open>while (c && !stop) c = c.parentNode\<close>.\<close>

partial_function (option) climb :: "dom \<Rightarrow> (nat \<Rightarrow> bool) \<Rightarrow> nat option \<Rightarrow> nat option option" where
  "climb d stop c = (case c of None \<Rightarrow> Some None | Some n \<Rightarrow> if stop n then Some (Some n) else climb d stop (dm_parent d n))"

declare climb.simps [code]

text \<open>\<open>nodeIndex\<close> counts the siblings before the node; text nodes that follow one another count once when normalized.\<close>

definition nodeType :: "dom \<Rightarrow> nat \<Rightarrow> nat" where
  "nodeType d n = (case dm_kind d n of KText _ \<Rightarrow> 3 | KElem _ _ \<Rightarrow> 1 | KDoc \<Rightarrow> 9 | KFrag \<Rightarrow> 11 | KOther k _ \<Rightarrow> k)"

fun count_back :: "dom \<Rightarrow> bool \<Rightarrow> nat \<Rightarrow> nat list \<Rightarrow> nat" where
  "count_back d normalized lastType [] = 0"
| "count_back d normalized lastType (n # ns) =
     (let ty = nodeType d n
      in if normalized \<and> ty = 3 \<and> (ty = lastType \<or> nodeValue d n = Some []) then count_back d normalized lastType ns
         else Suc (count_back d normalized ty ns))"

definition nodeIndex :: "dom \<Rightarrow> nat \<Rightarrow> bool \<Rightarrow> nat" where
  "nodeIndex d n normalized = (case dm_parent d n of None \<Rightarrow> 0
     | Some p \<Rightarrow> count_back d normalized (nodeType d n) (rev (takeWhile (\<lambda>c. c \<noteq> n) (dm_children d p))))"

text \<open>\<open>findCommonAncestor\<close>: the outer loop climbs from \<open>a\<close>, the inner one from \<open>b\<close>.\<close>

partial_function (option) common :: "dom \<Rightarrow> nat option \<Rightarrow> nat \<Rightarrow> nat option option" where
  "common d ps b = (case ps of None \<Rightarrow> Some None
     | Some a \<Rightarrow> (case climb d (\<lambda>pe. pe = a) (Some b) of
         None \<Rightarrow> None
       | Some pe \<Rightarrow> if pe = Some a then Some (Some a) else common d (dm_parent d a) b))"

declare common.simps [code]

definition findCommonAncestor :: "dom \<Rightarrow> nat \<Rightarrow> nat \<Rightarrow> nat option option" where
  "findCommonAncestor d a b =
     map_option (\<lambda>ps. if ps = None \<and> dm_kind d a \<noteq> KDoc then Some (dm_documentElement d) else ps) (common d (Some a) b)"

section \<open>Paths\<close>

fun node_at :: "dom \<Rightarrow> nat \<Rightarrow> nat list \<Rightarrow> nat option" where
  "node_at d r [] = Some r"
| "node_at d r (i # p) = (case nth_opt (dm_children d r) i of None \<Rightarrow> None | Some c \<Rightarrow> node_at d c p)"

text \<open>Children and parents agree, no child is listed twice.\<close>

definition wf_dom :: "dom \<Rightarrow> bool" where
  "wf_dom d \<longleftrightarrow> (\<forall>p c. c \<in> set (dm_children d p) \<longleftrightarrow> dm_parent d c = Some p) \<and> (\<forall>p. distinct (dm_children d p))"

lemma wf_dom_child: "wf_dom d \<Longrightarrow> nth_opt (dm_children d p) i = Some c \<Longrightarrow> dm_parent d c = Some p"
  by (auto simp: wf_dom_def nth_opt_def split: if_splits dest: nth_mem)

lemma node_at_append: "node_at d r (p @ q) = (case node_at d r p of None \<Rightarrow> None | Some n \<Rightarrow> node_at d n q)"
  by (induction p arbitrary: r) (auto split: option.splits)

lemma node_at_snoc: "node_at d r (p @ [i]) = Some n \<longleftrightarrow> (\<exists>m. node_at d r p = Some m \<and> nth_opt (dm_children d m) i = Some n)"
  by (auto simp: node_at_append split: option.splits)

lemma node_at_parent:
  assumes "wf_dom d" "node_at d r (p @ [i]) = Some n"
  shows "dm_parent d n = node_at d r p"
  using assms wf_dom_child by (auto simp: node_at_snoc)

lemma node_at_prefix: "node_at d r (p @ q) = Some n \<Longrightarrow> \<exists>m. node_at d r p = Some m \<and> node_at d m q = Some n"
  by (auto simp: node_at_append split: option.splits)

lemma nth_opt_inj: "distinct xs \<Longrightarrow> nth_opt xs i = Some x \<Longrightarrow> nth_opt xs j = Some x \<Longrightarrow> i = j"
  by (auto simp: nth_opt_def nth_eq_iff_index_eq split: if_splits)

text \<open>A node below a root has one path.\<close>

lemma node_at_inj:
  assumes "wf_dom d" "dm_parent d r = None" "node_at d r p = Some n" "node_at d r q = Some n"
  shows "p = q"
  using assms(3,4)
proof (induction p arbitrary: q n rule: rev_induct)
  case Nil
  then show ?case using node_at_parent [OF assms(1)] assms(2) by (cases q rule: rev_cases) (auto simp: node_at_snoc)
next
  case (snoc i p)
  show ?case
  proof (cases q rule: rev_cases)
    case Nil
    then show ?thesis using snoc.prems assms(1,2) node_at_parent [OF assms(1) snoc.prems(1)] by (auto simp: node_at_snoc)
  next
    case (snoc q' j)
    obtain m where m: "node_at d r p = Some m" "nth_opt (dm_children d m) i = Some n"
      using \<open>node_at d r (p @ [i]) = Some n\<close> by (auto simp: node_at_snoc)
    obtain m' where m': "node_at d r q' = Some m'" "nth_opt (dm_children d m') j = Some n"
      using \<open>node_at d r q = Some n\<close> snoc by (auto simp: node_at_snoc)
    have eq: "m' = m" using wf_dom_child [OF assms(1) m(2)] wf_dom_child [OF assms(1) m'(2)] by simp
    then have "p = q'" using \<open>\<And>q n. node_at d r p = Some n \<Longrightarrow> node_at d r q = Some n \<Longrightarrow> p = q\<close> m(1) m'(1) by blast
    moreover have "i = j" using nth_opt_inj [OF _ m(2), of j] m'(2) assms(1) eq by (simp add: wf_dom_def)
    ultimately show ?thesis using snoc by simp
  qed
qed

end
