(* ===== verification/DomRange.thy ===== *)
theory DomRange
  imports DomTree
begin

text \<open>
  The ranges of \<open>classes/dom/Range.js\<close>: a range of the document is given by two boundary points, each a container
  and an offset. One definition per function of the class; the state is the document and the range. A
  loop over siblings that changes nothing is a recursion over the list of children. None is a TypeError
  or an endless loop, undefined is an inner None.
\<close>

section \<open>Boundary points\<close>

record range =
  rg_startContainer :: nat
  rg_startOffset :: nat
  rg_endContainer :: nat
  rg_endOffset :: nat
  rg_collapsed :: bool
  rg_commonAncestorContainer :: "nat option"

definition new_Range :: "nat \<Rightarrow> range" where
  "new_Range doc = \<lparr>rg_startContainer = doc, rg_startOffset = 0, rg_endContainer = doc, rg_endOffset = 0, rg_collapsed = True,
     rg_commonAncestorContainer = Some doc\<rparr>"

text \<open>\<open>while (n != c && offsetC < offset) { offsetC++; n = n.nextSibling; }\<close>\<close>

fun count_to :: "nat \<Rightarrow> nat \<Rightarrow> nat \<Rightarrow> nat list \<Rightarrow> nat option" where
  "count_to c limit k [] = (if k < limit then None else Some k)"
| "count_to c limit k (n # ns) = (if n \<noteq> c \<and> k < limit then count_to c limit (Suc k) ns else Some k)"

fun first_of :: "nat \<Rightarrow> nat \<Rightarrow> nat list \<Rightarrow> int option" where
  "first_of a b [] = None"
| "first_of a b (n # ns) = (if n = a then Some (-1) else if n = b then Some 1 else first_of a b ns)"

text \<open>The ancestor of a node, or the node itself, that is a child of another one.\<close>

definition child_below :: "dom \<Rightarrow> nat \<Rightarrow> nat \<Rightarrow> nat option option" where
  "child_below d container n = climb d (\<lambda>c. dm_parent d c = Some container) (Some n)"

definition fourth_case :: "dom \<Rightarrow> nat \<Rightarrow> nat \<Rightarrow> int option option" where
  "fourth_case d containerA containerB =
     do { root \<leftarrow> findCommonAncestor d containerA containerB;
          cmnRoot \<leftarrow> root;
          a \<leftarrow> child_below d cmnRoot containerA;
          b \<leftarrow> child_below d cmnRoot containerB;
          let childA = (case a of None \<Rightarrow> cmnRoot | Some n \<Rightarrow> n);
          let childB = (case b of None \<Rightarrow> cmnRoot | Some n \<Rightarrow> n);
          if childA = childB then Some (Some 0) else Some (first_of childA childB (dm_children d cmnRoot)) }"

definition compare_points :: "dom \<Rightarrow> nat \<Rightarrow> nat \<Rightarrow> nat \<Rightarrow> nat \<Rightarrow> int option option" where
  "compare_points d containerA offsetA containerB offsetB =
     (if containerA = containerB
      then Some (Some (if offsetA = offsetB then 0 else if offsetA < offsetB then -1 else 1))
      else do {
        c \<leftarrow> child_below d containerA containerB;
        (case c of
           Some n \<Rightarrow> do { offsetC \<leftarrow> count_to n offsetA 0 (dm_children d containerA); Some (Some (if offsetA \<le> offsetC then -1 else 1)) }
         | None \<Rightarrow> do {
             c' \<leftarrow> child_below d containerB containerA;
             (case c' of
                Some n \<Rightarrow> do { offsetC \<leftarrow> count_to n offsetB 0 (dm_children d containerB); Some (Some (if offsetC < offsetB then -1 else 1)) }
              | None \<Rightarrow> fourth_case d containerA containerB) }) })"

text \<open>\<open>compareBoundaryPoints(how, range)\<close>; another \<open>how\<close> gives undefined.\<close>

definition compareBoundaryPoints :: "dom \<Rightarrow> nat \<Rightarrow> range \<Rightarrow> range \<Rightarrow> int option option" where
  "compareBoundaryPoints d how r t =
     (if how = 0 then compare_points d (rg_startContainer t) (rg_startOffset t) (rg_startContainer r) (rg_startOffset r)
      else if how = 1 then compare_points d (rg_endContainer t) (rg_endOffset t) (rg_startContainer r) (rg_startOffset r)
      else if how = 2 then compare_points d (rg_endContainer t) (rg_endOffset t) (rg_endContainer r) (rg_endOffset r)
      else if how = 3 then compare_points d (rg_startContainer t) (rg_startOffset t) (rg_endContainer r) (rg_endOffset r)
      else Some None)"

section \<open>Setting the boundary points\<close>

definition collapse :: "bool \<Rightarrow> range \<Rightarrow> range" where
  "collapse ts t = (if ts then t\<lparr>rg_endContainer := rg_startContainer t, rg_endOffset := rg_startOffset t\<rparr>
     else t\<lparr>rg_startContainer := rg_endContainer t, rg_startOffset := rg_endOffset t\<rparr>)\<lparr>rg_collapsed := True\<rparr>"

definition isCollapsed :: "range \<Rightarrow> bool" where
  "isCollapsed t \<longleftrightarrow> rg_startContainer t = rg_endContainer t \<and> rg_startOffset t = rg_endOffset t"

definition root_of :: "dom \<Rightarrow> nat \<Rightarrow> nat option option" where
  "root_of d n = climb d (\<lambda>c. dm_parent d c = None) (Some n)"

definition setEndPoint :: "dom \<Rightarrow> bool \<Rightarrow> nat \<Rightarrow> nat \<Rightarrow> range \<Rightarrow> range option" where
  "setEndPoint d st n i t0 =
     do { let t = (if st then t0\<lparr>rg_startContainer := n, rg_startOffset := i\<rparr> else t0\<lparr>rg_endContainer := n, rg_endOffset := i\<rparr>);
          ec \<leftarrow> root_of d (rg_endContainer t);
          sc \<leftarrow> root_of d (rg_startContainer t);
          t1 \<leftarrow> (if sc = ec
                 then do { c \<leftarrow> compare_points d (rg_startContainer t) (rg_startOffset t) (rg_endContainer t) (rg_endOffset t);
                           Some (case c of Some k \<Rightarrow> if k > 0 then collapse st t else t | None \<Rightarrow> t) }
                 else Some (collapse st t));
          ca \<leftarrow> findCommonAncestor d (rg_startContainer t1) (rg_endContainer t1);
          Some (t1\<lparr>rg_collapsed := isCollapsed t1, rg_commonAncestorContainer := ca\<rparr>) }"

definition setStart :: "dom \<Rightarrow> nat \<Rightarrow> nat \<Rightarrow> range \<Rightarrow> range option" where
  "setStart d n i = setEndPoint d True n i"

definition setEnd :: "dom \<Rightarrow> nat \<Rightarrow> nat \<Rightarrow> range \<Rightarrow> range option" where
  "setEnd d n i = setEndPoint d False n i"

text \<open>Beside a node: without a parent the container would be null, which is an error.\<close>

definition setStartBefore :: "dom \<Rightarrow> nat \<Rightarrow> range \<Rightarrow> range option" where
  "setStartBefore d n t = (case dm_parent d n of None \<Rightarrow> None | Some p \<Rightarrow> setStart d p (nodeIndex d n False) t)"

definition setStartAfter :: "dom \<Rightarrow> nat \<Rightarrow> range \<Rightarrow> range option" where
  "setStartAfter d n t = (case dm_parent d n of None \<Rightarrow> None | Some p \<Rightarrow> setStart d p (nodeIndex d n False + 1) t)"

definition setEndBefore :: "dom \<Rightarrow> nat \<Rightarrow> range \<Rightarrow> range option" where
  "setEndBefore d n t = (case dm_parent d n of None \<Rightarrow> None | Some p \<Rightarrow> setEnd d p (nodeIndex d n False) t)"

definition setEndAfter :: "dom \<Rightarrow> nat \<Rightarrow> range \<Rightarrow> range option" where
  "setEndAfter d n t = (case dm_parent d n of None \<Rightarrow> None | Some p \<Rightarrow> setEnd d p (nodeIndex d n False + 1) t)"

definition selectNode :: "dom \<Rightarrow> nat \<Rightarrow> range \<Rightarrow> range option" where
  "selectNode d n t = do { u \<leftarrow> setStartBefore d n t; setEndAfter d n u }"

definition selectNodeContents :: "dom \<Rightarrow> nat \<Rightarrow> range \<Rightarrow> range option" where
  "selectNodeContents d n t =
     do { u \<leftarrow> setStart d n 0 t;
          len \<leftarrow> (if is_element d n then Some (length (dm_children d n)) else map_option length (nodeValue d n));
          setEnd d n len u }"

definition cloneRange :: "range \<Rightarrow> range" where
  "cloneRange t = \<lparr>rg_startContainer = rg_startContainer t, rg_startOffset = rg_startOffset t, rg_endContainer = rg_endContainer t,
     rg_endOffset = rg_endOffset t, rg_collapsed = rg_collapsed t, rg_commonAncestorContainer = rg_commonAncestorContainer t\<rparr>"

section \<open>The contents\<close>

datatype how = EXTRACT | CLONE | DELETE

definition getSelectedNode :: "dom \<Rightarrow> nat \<Rightarrow> int \<Rightarrow> nat" where
  "getSelectedNode d container offset =
     (if is_text d container \<or> offset < 0 then container
      else case nth_opt (dm_children d container) (nat offset) of Some child \<Rightarrow> child | None \<Rightarrow> container)"

definition traverseFullySelected :: "nat \<Rightarrow> how \<Rightarrow> dom \<Rightarrow> (nat option \<times> dom) option" where
  "traverseFullySelected n how d =
     (case how of
        EXTRACT \<Rightarrow> Some (Some n, d)
      | CLONE \<Rightarrow> map_option (apfst Some) (clone n True d)
      | DELETE \<Rightarrow> (case dm_parent d n of None \<Rightarrow> None | Some p \<Rightarrow> map_option (Pair None) (removeChild p n d)))"

definition traverseNode :: "range \<Rightarrow> nat \<Rightarrow> bool \<Rightarrow> bool \<Rightarrow> how \<Rightarrow> dom \<Rightarrow> (nat option \<times> dom) option" where
  "traverseNode t n isFullySelected isLeft how d =
     (if isFullySelected then traverseFullySelected n how d
      else case dm_kind d n of
        KText v \<Rightarrow>
          (let offset = (if isLeft then rg_startOffset t else rg_endOffset t);
               newValue = (if isLeft then drop offset v else take offset v);
               oldValue = (if isLeft then take offset v else drop offset v);
               e = (if how \<noteq> CLONE then setNodeValue n oldValue d else d)
           in if how = DELETE then Some (None, e)
              else do { (m, f) \<leftarrow> clone n False e; Some (Some m, setNodeValue m newValue f) })
      | _ \<Rightarrow> if how = DELETE then Some (None, d) else map_option (apfst Some) (clone n False d))"

text \<open>Adding to the fragment or to a cloned parent, when there is one.\<close>

definition add_last :: "nat option \<Rightarrow> nat option \<Rightarrow> dom \<Rightarrow> dom option" where
  "add_last p n d = (case p of None \<Rightarrow> Some d | Some q \<Rightarrow> (case n of None \<Rightarrow> None | Some m \<Rightarrow> Some (appendChild q m d)))"

definition add_first :: "nat option \<Rightarrow> nat option \<Rightarrow> dom \<Rightarrow> dom option" where
  "add_first p n d = (case p of None \<Rightarrow> Some d | Some q \<Rightarrow> (case n of None \<Rightarrow> None | Some m \<Rightarrow> insertBefore q m (firstChild d q) d))"

partial_function (option) right_inner :: "range \<Rightarrow> how \<Rightarrow> nat option \<Rightarrow> nat option \<Rightarrow> bool \<Rightarrow> dom \<Rightarrow> (bool \<times> dom) option" where
  "right_inner t how clonedParent nxt full d =
     (case nxt of
        None \<Rightarrow> Some (full, d)
      | Some n \<Rightarrow>
          Option.bind (traverseNode t n full False how d) (\<lambda>(child, e).
          Option.bind (if how = DELETE then Some e else add_first clonedParent child e) (\<lambda>f.
          right_inner t how clonedParent (previousSibling d n) True f)))"

partial_function (option) right_outer :: "range \<Rightarrow> nat \<Rightarrow> how \<Rightarrow> nat \<Rightarrow> nat option \<Rightarrow> nat option \<Rightarrow> bool \<Rightarrow> dom \<Rightarrow> (nat option \<times> dom) option" where
  "right_outer t root how parent clonedParent nxt full d =
     Option.bind (right_inner t how clonedParent nxt full d) (\<lambda>(full', e).
       if parent = root then Some (clonedParent, e)
       else Option.bind (dm_parent e parent) (\<lambda>grand.
         Option.bind (traverseNode t grand False False how e) (\<lambda>(clonedGrand, f).
         Option.bind (if how = DELETE then Some f else add_last clonedGrand clonedParent f) (\<lambda>g.
         right_outer t root how grand clonedGrand (previousSibling e parent) full' g))))"

definition traverseRightBoundary :: "range \<Rightarrow> nat \<Rightarrow> how \<Rightarrow> dom \<Rightarrow> (nat option \<times> dom) option" where
  "traverseRightBoundary t root how d =
     (let nxt = getSelectedNode d (rg_endContainer t) (int (rg_endOffset t) - 1);
          full = (nxt \<noteq> rg_endContainer t)
      in if nxt = root then traverseNode t nxt full False how d
         else do { parent \<leftarrow> dm_parent d nxt;
                   (cp, e) \<leftarrow> traverseNode t parent False False how d;
                   right_outer t root how parent cp (Some nxt) full e })"

partial_function (option) left_inner :: "range \<Rightarrow> how \<Rightarrow> nat option \<Rightarrow> nat option \<Rightarrow> bool \<Rightarrow> dom \<Rightarrow> (bool \<times> dom) option" where
  "left_inner t how clonedParent nxt full d =
     (case nxt of
        None \<Rightarrow> Some (full, d)
      | Some n \<Rightarrow>
          Option.bind (traverseNode t n full True how d) (\<lambda>(child, e).
          Option.bind (if how = DELETE then Some e else add_last clonedParent child e) (\<lambda>f.
          left_inner t how clonedParent (nextSibling d n) True f)))"

partial_function (option) left_outer :: "range \<Rightarrow> nat \<Rightarrow> how \<Rightarrow> nat \<Rightarrow> nat option \<Rightarrow> nat option \<Rightarrow> bool \<Rightarrow> dom \<Rightarrow> (nat option \<times> dom) option" where
  "left_outer t root how parent clonedParent nxt full d =
     Option.bind (left_inner t how clonedParent nxt full d) (\<lambda>(full', e).
       if parent = root then Some (clonedParent, e)
       else Option.bind (dm_parent e parent) (\<lambda>grand.
         Option.bind (traverseNode t grand False True how e) (\<lambda>(clonedGrand, f).
         Option.bind (if how = DELETE then Some f else add_last clonedGrand clonedParent f) (\<lambda>g.
         left_outer t root how grand clonedGrand (nextSibling e parent) full' g))))"

definition traverseLeftBoundary :: "range \<Rightarrow> nat \<Rightarrow> how \<Rightarrow> dom \<Rightarrow> (nat option \<times> dom) option" where
  "traverseLeftBoundary t root how d =
     (let nxt = getSelectedNode d (rg_startContainer t) (int (rg_startOffset t));
          full = (nxt \<noteq> rg_startContainer t)
      in if nxt = root then traverseNode t nxt full True how d
         else do { parent \<leftarrow> dm_parent d nxt;
                   (cp, e) \<leftarrow> traverseNode t parent False True how d;
                   left_outer t root how parent cp (Some nxt) full e })"

declare right_inner.simps [code] right_outer.simps [code] left_inner.simps [code] left_outer.simps [code]

text \<open>The fragment for the contents; there is none when they are deleted.\<close>

definition new_frag :: "how \<Rightarrow> dom \<Rightarrow> nat option \<times> dom" where
  "new_frag how d = (if how = DELETE then (None, d) else apfst Some (alloc KFrag d))"

text \<open>The loops over \<open>cnt\<close> fully selected siblings, forward and backward. A missing sibling ends the loop,
  or is an error where the source does not test for it.\<close>

fun take_next :: "bool \<Rightarrow> how \<Rightarrow> nat option \<Rightarrow> nat \<Rightarrow> nat option \<Rightarrow> dom \<Rightarrow> dom option" where
  "take_next strict how frag 0 n d = Some d"
| "take_next strict how frag (Suc cnt) None d = (if strict then None else Some d)"
| "take_next strict how frag (Suc cnt) (Some n) d =
     do { (x, e) \<leftarrow> traverseFullySelected n how d;
          f \<leftarrow> add_last frag x e;
          take_next strict how frag cnt (nextSibling d n) f }"

fun take_prev :: "how \<Rightarrow> nat option \<Rightarrow> nat \<Rightarrow> nat option \<Rightarrow> dom \<Rightarrow> dom option" where
  "take_prev how frag 0 n d = Some d"
| "take_prev how frag (Suc cnt) None d = None"
| "take_prev how frag (Suc cnt) (Some n) d =
     do { (x, e) \<leftarrow> traverseFullySelected n how d;
          f \<leftarrow> add_first frag x e;
          take_prev how frag cnt (previousSibling d n) f }"

text \<open>Both boundary points in one text node. \<open>substring\<close> swaps its arguments when they are in the wrong order; the count of \<open>deleteData\<close> is an
  unsigned number of 32 bits. The node itself is removed when at most its last unit would remain.\<close>

definition substring :: "ustring \<Rightarrow> nat \<Rightarrow> nat \<Rightarrow> ustring" where
  "substring v a b = take (max a b - min a b) (drop (min a b) v)"

definition cut_text :: "nat \<Rightarrow> ustring \<Rightarrow> range \<Rightarrow> dom \<Rightarrow> dom option" where
  "cut_text n v t d =
     (let start = rg_startOffset t; len = int (rg_endOffset t) - int start
      in if start = 0 \<and> len \<ge> int (length v) - 1
         then (case dm_parent d n of None \<Rightarrow> None | Some p \<Rightarrow> removeChild p n d)
         else deleteData n start (nat (len mod 2 ^ 32)) d)"

definition traverse_text :: "nat \<Rightarrow> ustring \<Rightarrow> how \<Rightarrow> range \<Rightarrow> nat option \<Rightarrow> dom \<Rightarrow> (nat option \<times> range \<times> dom) option" where
  "traverse_text n v how t frag d =
     (let sub = substring v (rg_startOffset t) (rg_endOffset t)
      in do { e \<leftarrow> (if how = CLONE then Some d else cut_text n v t d);
              let u = (if how = CLONE then t else collapse True t);
              (case frag of
                 None \<Rightarrow> Some (None, u, e)
               | Some f \<Rightarrow> if sub = [] then Some (frag, u, e)
                          else (let (m, g) = alloc (KText sub) e in Some (frag, u, appendChild f m g))) })"

definition traverseSameContainer :: "how \<Rightarrow> range \<Rightarrow> dom \<Rightarrow> (nat option \<times> range \<times> dom) option" where
  "traverseSameContainer how t d0 =
     (let (frag, d) = new_frag how d0; sc = rg_startContainer t
      in if rg_startOffset t = rg_endOffset t then Some (frag, t, d)
         else case dm_kind d sc of
           KText v \<Rightarrow> traverse_text sc v how t frag d
         | _ \<Rightarrow>
             do { e \<leftarrow> take_next False how frag (rg_endOffset t - rg_startOffset t)
                        (Some (getSelectedNode d sc (int (rg_startOffset t)))) d;
                  Some (frag, if how = CLONE then t else collapse True t, e) })"

definition traverseCommonStartContainer :: "nat \<Rightarrow> how \<Rightarrow> range \<Rightarrow> dom \<Rightarrow> (nat option \<times> range \<times> dom) option" where
  "traverseCommonStartContainer endAncestor how t d0 =
     (let (frag, d) = new_frag how d0
      in do { (n, e) \<leftarrow> traverseRightBoundary t endAncestor how d;
              f \<leftarrow> add_last frag n e;
              g \<leftarrow> take_prev how frag (nodeIndex f endAncestor False - rg_startOffset t) (previousSibling f endAncestor) f;
              u \<leftarrow> (if how = CLONE then Some t else map_option (collapse False) (setEndBefore g endAncestor t));
              Some (frag, u, g) })"

definition traverseCommonEndContainer :: "nat \<Rightarrow> how \<Rightarrow> range \<Rightarrow> dom \<Rightarrow> (nat option \<times> range \<times> dom) option" where
  "traverseCommonEndContainer startAncestor how t d0 =
     (let (frag, d) = new_frag how d0
      in do { (n, e) \<leftarrow> traverseLeftBoundary t startAncestor how d;
              f \<leftarrow> add_last frag n e;
              g \<leftarrow> take_next False how frag (rg_endOffset t - (nodeIndex f startAncestor False + 1)) (nextSibling f startAncestor) f;
              u \<leftarrow> (if how = CLONE then Some t else map_option (collapse True) (setStartAfter g startAncestor t));
              Some (frag, u, g) })"

definition traverseCommonAncestors :: "nat \<Rightarrow> nat \<Rightarrow> how \<Rightarrow> range \<Rightarrow> dom \<Rightarrow> (nat option \<times> range \<times> dom) option" where
  "traverseCommonAncestors startAncestor endAncestor how t d0 =
     (let (frag, d) = new_frag how d0
      in do { (n, e) \<leftarrow> traverseLeftBoundary t startAncestor how d;
              f \<leftarrow> add_last frag n e;
              g \<leftarrow> take_next True how frag (nodeIndex f endAncestor False - (nodeIndex f startAncestor False + 1)) (nextSibling f startAncestor) f;
              (m, h) \<leftarrow> traverseRightBoundary t endAncestor how g;
              i \<leftarrow> add_last frag m h;
              u \<leftarrow> (if how = CLONE then Some t else map_option (collapse True) (setStartAfter i startAncestor t));
              Some (frag, u, i) })"

text \<open>The loop up to a container: its child on the way, or the depth of the node.\<close>

partial_function (option) climb_count :: "dom \<Rightarrow> nat \<Rightarrow> nat \<Rightarrow> nat \<Rightarrow> (nat + nat) option" where
  "climb_count d target c depth = (case dm_parent d c of None \<Rightarrow> Some (Inr depth)
     | Some p \<Rightarrow> if p = target then Some (Inl c) else climb_count d target p (Suc depth))"

fun climb_by :: "dom \<Rightarrow> nat \<Rightarrow> nat \<Rightarrow> nat option" where
  "climb_by d 0 n = Some n"
| "climb_by d (Suc k) n = Option.bind (dm_parent d n) (climb_by d k)"

text \<open>Both nodes go up until they have the same parent.\<close>

partial_function (option) climb_both :: "dom \<Rightarrow> nat \<Rightarrow> nat \<Rightarrow> (nat \<times> nat) option" where
  "climb_both d a b =
     (if dm_parent d a = dm_parent d b then Some (a, b)
      else Option.bind (dm_parent d a) (\<lambda>sp. Option.bind (dm_parent d b) (\<lambda>ep. climb_both d sp ep)))"

declare climb_count.simps [code] climb_both.simps [code]

definition traverse :: "how \<Rightarrow> range \<Rightarrow> dom \<Rightarrow> (nat option \<times> range \<times> dom) option" where
  "traverse how t d =
     (if rg_startContainer t = rg_endContainer t then traverseSameContainer how t d
      else do {
        a \<leftarrow> climb_count d (rg_startContainer t) (rg_endContainer t) 0;
        (case a of
           Inl c \<Rightarrow> traverseCommonStartContainer c how t d
         | Inr endDepth \<Rightarrow> do {
             b \<leftarrow> climb_count d (rg_endContainer t) (rg_startContainer t) 0;
             (case b of
                Inl c \<Rightarrow> traverseCommonEndContainer c how t d
              | Inr startDepth \<Rightarrow> do {
                  startNode \<leftarrow> climb_by d (startDepth - endDepth) (rg_startContainer t);
                  endNode \<leftarrow> climb_by d (endDepth - startDepth) (rg_endContainer t);
                  (x, y) \<leftarrow> climb_both d startNode endNode;
                  traverseCommonAncestors x y how t d }) }) })"

definition deleteContents :: "range \<Rightarrow> dom \<Rightarrow> (range \<times> dom) option" where
  "deleteContents t d = map_option snd (traverse DELETE t d)"

definition extractContents :: "range \<Rightarrow> dom \<Rightarrow> (nat \<times> range \<times> dom) option" where
  "extractContents t d = do { (f, r) \<leftarrow> traverse EXTRACT t d; map_option (\<lambda>x. (x, r)) f }"

definition cloneContents :: "range \<Rightarrow> dom \<Rightarrow> (nat \<times> range \<times> dom) option" where
  "cloneContents t d = do { (f, r) \<leftarrow> traverse CLONE t d; map_option (\<lambda>x. (x, r)) f }"

section \<open>Inserting\<close>

text \<open>\<open>dom.insertAfter\<close>\<close>

definition dom_insertAfter :: "nat \<Rightarrow> nat \<Rightarrow> dom \<Rightarrow> dom option" where
  "dom_insertAfter n ref d = do { p \<leftarrow> dm_parent d ref; insertBefore p n (nextSibling d ref) d }"

definition insertNode :: "nat \<Rightarrow> range \<Rightarrow> dom \<Rightarrow> dom option" where
  "insertNode n t d =
     (let sc = rg_startContainer t; so = rg_startOffset t; ty = nodeType d sc
      in case (if ty = 3 \<or> ty = 4 then nodeValue d sc else None) of
           Some (u # v) \<Rightarrow>
             if so = 0 then do { p \<leftarrow> dm_parent d sc; insertBefore p n (Some sc) d }
             else if so \<ge> length (u # v) then dom_insertAfter n sc d
             else do { (nn, e) \<leftarrow> splitText sc so d; p \<leftarrow> dm_parent e sc; insertBefore p n (Some nn) e }
         | _ \<Rightarrow>
             (case nth_opt (dm_children d sc) so of
                Some c \<Rightarrow> insertBefore sc n (Some c) d
              | None \<Rightarrow> if ty = 3 then dom_insertAfter n sc d else Some (appendChild sc n d)))"

definition surroundContents :: "nat \<Rightarrow> range \<Rightarrow> dom \<Rightarrow> (range \<times> dom) option" where
  "surroundContents n t d =
     do { (f, u, e) \<leftarrow> extractContents t d;
          g \<leftarrow> insertNode n u e;
          let h = appendChild n f g;
          v \<leftarrow> selectNode h n u;
          Some (v, h) }"

end
