(* ===== verification/RangeOrder.thy ===== *)
theory RangeOrder
  imports DomRange "HOL-Library.List_Lexorder"
begin

text \<open>
  The order of boundary points: comparing two points of one tree is comparing their keys, the lists of
  numbers that lead to them. And what setting a boundary point makes of a range.
\<close>

section \<open>Climbing a path\<close>

lemma climb_None [simp]: "climb d stop None = Some None"
  by (simp add: climb.simps)

lemma climb_Some: "climb d stop (Some n) = (if stop n then Some (Some n) else climb d stop (dm_parent d n))"
  by (subst climb.simps) simp

text \<open>The first node that stops the loop is the one on the longest prefix of the path.\<close>

lemma climb_up:
  assumes "wf_dom d" "node_at d r (p @ q) = Some n"
    and "\<And>k m. k < length q \<Longrightarrow> node_at d r (p @ take (Suc k) q) = Some m \<Longrightarrow> \<not> stop m"
  shows "climb d stop (Some n) = climb d stop (node_at d r p)"
  using assms(2,3)
proof (induction q arbitrary: n rule: rev_induct)
  case (snoc i q)
  have "\<not> stop n" using snoc.prems(1) snoc.prems(2) [of "length q" n] by simp
  moreover have parent: "dm_parent d n = node_at d r (p @ q)" using node_at_parent [OF assms(1)] snoc.prems(1) by (metis append.assoc)
  moreover obtain m where m: "node_at d r (p @ q) = Some m" using snoc.prems(1) by (metis append.assoc node_at_snoc)
  moreover have "climb d stop (Some m) = climb d stop (node_at d r p)"
  proof (rule snoc.IH [OF m])
    show "\<not> stop x" if "k < length q" "node_at d r (p @ take (Suc k) q) = Some x" for k x
      using snoc.prems(2) [of k x] that by simp
  qed
  ultimately show ?case by (simp add: climb_Some)
qed simp

lemma climb_never:
  assumes "wf_dom d" "dm_parent d r = None" "node_at d r q = Some n"
    and "\<And>k m. k \<le> length q \<Longrightarrow> node_at d r (take k q) = Some m \<Longrightarrow> \<not> stop m"
  shows "climb d stop (Some n) = Some None"
proof -
  have "climb d stop (Some n) = climb d stop (node_at d r [])"
  proof (rule climb_up [OF assms(1), where q = q])
    show "\<not> stop m" if "k < length q" "node_at d r ([] @ take (Suc k) q) = Some m" for k m
      using assms(4) [of "Suc k" m] that by simp
  qed (use assms(3) in simp)
  also have "\<dots> = Some None" using assms(2) assms(4) [of 0 r] by (simp add: climb_Some)
  finally show ?thesis .
qed

section \<open>Paths and ancestors\<close>

lemma node_at_take: "node_at d r p = Some n \<Longrightarrow> \<exists>m. node_at d r (take k p) = Some m"
  by (metis append_take_drop_id node_at_prefix)

lemma parent_is:
  assumes wf: "wf_dom d" "dm_parent d r = None" and c: "node_at d r p = Some c" and n: "node_at d r q = Some n"
  shows "dm_parent d n = Some c \<longleftrightarrow> (\<exists>i. q = p @ [i])"
proof
  assume "dm_parent d n = Some c"
  then obtain q' i where q: "q = q' @ [i]" using n wf(2) by (cases q rule: rev_cases) auto
  then have "node_at d r q' = Some c" using node_at_parent [OF wf(1)] n \<open>dm_parent d n = Some c\<close> by metis
  then show "\<exists>i. q = p @ [i]" using node_at_inj [OF wf c] q by auto
next
  assume "\<exists>i. q = p @ [i]"
  then show "dm_parent d n = Some c" using node_at_parent [OF wf(1)] n c by auto
qed

lemma child_below_in:
  assumes wf: "wf_dom d" "dm_parent d r = None" and c: "node_at d r p = Some c" and n: "node_at d r (p @ i # q) = Some n"
  shows "child_below d c n = Some (node_at d r (p @ [i]))"
proof -
  obtain m where m: "node_at d r (p @ [i]) = Some m" using node_at_take [OF n, of "Suc (length p)"] by auto
  have "climb d (\<lambda>x. dm_parent d x = Some c) (Some n) = climb d (\<lambda>x. dm_parent d x = Some c) (node_at d r (p @ [i]))"
    using wf(1) n parent_is [OF wf c] by (intro climb_up [where q = q]) auto
  also have "\<dots> = Some (Some m)" using m parent_is [OF wf c m] by (simp add: climb_Some)
  finally show ?thesis by (simp add: child_below_def m)
qed

lemma child_below_out:
  assumes wf: "wf_dom d" "dm_parent d r = None" and c: "node_at d r p = Some c" and n: "node_at d r q = Some n"
    and not: "\<not> (\<exists>i q'. q = p @ i # q')"
  shows "child_below d c n = Some None"
  unfolding child_below_def
proof (rule climb_never [OF wf n])
  show "\<not> dm_parent d m = Some c" if "k \<le> length q" and m: "node_at d r (take k q) = Some m" for k m
  proof
    assume "dm_parent d m = Some c"
    then obtain i where "take k q = p @ [i]" using parent_is [OF wf c m] by blast
    then have "q = p @ i # drop k q" by (metis append.assoc append_Cons append_Nil append_take_drop_id)
    then show False using not by blast
  qed
qed

lemma ancestor_or_self:
  assumes wf: "wf_dom d" "dm_parent d r = None" and a: "node_at d r p = Some a" and b: "node_at d r q = Some b"
  shows "climb d (\<lambda>pe. pe = a) (Some b) = Some (if take (length p) q = p then Some a else None)"
proof (cases "take (length p) q = p")
  case True
  then have q: "q = p @ drop (length p) q" by (metis append_take_drop_id)
  have "\<not> m = a" if "k < length (drop (length p) q)" "node_at d r (p @ take (Suc k) (drop (length p) q)) = Some m" for k m
    using that node_at_inj [OF wf a, of "p @ take (Suc k) (drop (length p) q)"] by (auto simp: take_Suc)
  then have "climb d (\<lambda>pe. pe = a) (Some b) = climb d (\<lambda>pe. pe = a) (node_at d r p)"
    using wf(1) b q by (intro climb_up [where q = "drop (length p) q"]) auto
  then show ?thesis using True a by (simp add: climb_Some)
next
  case False
  have "\<not> m = a" if "node_at d r (take k q) = Some m" for k m
  proof
    assume "m = a"
    then have "p = take k q" using node_at_inj [OF wf a] that by blast
    then show False using False by (metis append_eq_conv_conj append_take_drop_id length_take take_take min.idem)
  qed
  then show ?thesis using False climb_never [OF wf b] by simp
qed

text \<open>The longest common prefix of two paths.\<close>

fun lcp :: "nat list \<Rightarrow> nat list \<Rightarrow> nat list" where
  "lcp (x # xs) (y # ys) = (if x = y then x # lcp xs ys else [])"
| "lcp _ _ = []"

lemma lcp_fork: "i \<noteq> j \<Longrightarrow> lcp (u @ i # p) (u @ j # q) = u"
  by (induction u) auto

lemma lcp_cases:
  fixes p q :: "nat list"
  obtains (eq) "p = q" | (left) i q' where "q = p @ i # q'" | (right) i p' where "p = q @ i # p'"
    | (fork) u i p' j q' where "p = u @ i # p'" "q = u @ j # q'" "i \<noteq> j"
proof -
  have "p = q \<or> (\<exists>i q'. q = p @ i # q') \<or> (\<exists>i p'. p = q @ i # p') \<or> (\<exists>u i p' j q'. p = u @ i # p' \<and> q = u @ j # q' \<and> i \<noteq> j)"
  proof (induction p q rule: lcp.induct)
    case (1 x xs y ys)
    show ?case
    proof (cases "x = y")
      case True
      have fork: "\<exists>u' i p' j q'. x # xs = u' @ i # p' \<and> y # ys = u' @ j # q' \<and> i \<noteq> j"
        if "xs = u @ i # p'" "ys = u @ j # q'" "i \<noteq> j" for u i p' j q'
        using that True by (intro exI [of _ "x # u"]) auto
      show ?thesis using 1 [OF True] True
      proof (elim disjE exE conjE)
        fix u i p' j q' assume "xs = u @ i # p'" "ys = u @ j # q'" "i \<noteq> j"
        then show ?thesis using fork by blast
      qed auto
    next
      case False
      then have "x # xs = [] @ x # xs \<and> y # ys = [] @ y # ys \<and> x \<noteq> y" by simp
      then show ?thesis by blast
    qed
  qed (auto simp: neq_Nil_conv, (metis neq_Nil_conv)+)
  then show thesis using eq left right fork by blast
qed

lemma lcp_prefix: "take (length p) q = p \<Longrightarrow> lcp p q = p"
  by (induction p q rule: lcp.induct) auto

lemma lcp_snoc: "take (Suc (length p)) q \<noteq> p @ [i] \<Longrightarrow> lcp (p @ [i]) q = lcp p q"
proof (induction p arbitrary: q)
  case Nil
  then show ?case by (cases q) auto
next
  case (Cons x p)
  then show ?case by (cases q) auto
qed

lemma lcp_take: "take (length (lcp p q)) p = lcp p q \<and> take (length (lcp p q)) q = lcp p q"
  by (induction p q rule: lcp.induct) auto

lemma common_path:
  assumes wf: "wf_dom d" "dm_parent d r = None" and a: "node_at d r p = Some a" and b: "node_at d r q = Some b"
  shows "common d (Some a) b = Some (node_at d r (lcp p q))"
  using a
proof (induction p arbitrary: a rule: rev_induct)
  case Nil
  then show ?case using ancestor_or_self [OF wf _ b, of "[]"] by (subst common.simps) auto
next
  case (snoc i p)
  show ?case
  proof (cases "take (Suc (length p)) q = p @ [i]")
    case True
    then show ?thesis using ancestor_or_self [OF wf snoc.prems b] snoc.prems lcp_prefix [of "p @ [i]" q]
      by (subst common.simps) simp
  next
    case False
    obtain m where m: "node_at d r p = Some m" using snoc.prems by (auto simp: node_at_snoc)
    have "dm_parent d a = Some m" using node_at_parent [OF wf(1) snoc.prems] m by simp
    then show ?thesis using ancestor_or_self [OF wf snoc.prems b] False snoc.IH [OF m] lcp_snoc [OF False]
      by (subst common.simps) simp
  qed
qed

lemma findCommonAncestor_path:
  assumes "wf_dom d" "dm_parent d r = None" "node_at d r p = Some a" "node_at d r q = Some b"
  shows "findCommonAncestor d a b = Some (node_at d r (lcp p q))"
proof -
  have "node_at d r (lcp p q) \<noteq> None" using node_at_take [OF assms(3), of "length (lcp p q)"] by (auto simp: lcp_take)
  then show ?thesis using common_path [OF assms] by (auto simp: findCommonAncestor_def)
qed

section \<open>The order of boundary points\<close>

text \<open>Between the offsets \<open>i\<close> and \<open>i + 1\<close> of a container lies its child with the index \<open>i\<close>.\<close>

definition point_key :: "nat list \<Rightarrow> nat \<Rightarrow> nat list" where
  "point_key p i = map (\<lambda>k. 2 * k + 1) p @ [2 * i]"

definition order_sign :: "nat list \<Rightarrow> nat list \<Rightarrow> int" where
  "order_sign a b = (if a = b then 0 else if a < b then -1 else 1)"

lemma less_append [simp]: "u @ a < u @ b \<longleftrightarrow> a < b" for u a b :: "nat list"
  by (induction u) auto

lemma order_sign_append [simp]: "order_sign (u @ a) (u @ b) = order_sign a b"
  by (simp add: order_sign_def)

lemma count_to_nth:
  assumes "distinct ns" "i < length ns"
  shows "count_to (ns ! i) limit k ns = Some (min (k + i) (max k limit))"
  using assms
proof (induction ns arbitrary: i k)
  case (Cons n ns)
  show ?case
  proof (cases i)
    case (Suc j)
    then have "n \<noteq> (n # ns) ! i" using Cons.prems by auto
    then show ?thesis using Cons Suc by auto
  qed simp
qed simp

lemma first_of_nth:
  assumes "distinct ns" "i < length ns" "j < length ns" "i \<noteq> j"
  shows "first_of (ns ! i) (ns ! j) ns = Some (if i < j then -1 else 1)"
  using assms
proof (induction ns arbitrary: i j)
  case (Cons n ns)
  then show ?case by (cases i; cases j) (auto simp: nth_eq_iff_index_eq)
qed simp

lemma node_at_child: "node_at d r (u @ i # p) = Some n \<Longrightarrow> node_at d r u = Some c \<Longrightarrow> i < length (dm_children d c) \<and> node_at d r (u @ [i]) = Some (dm_children d c ! i)"
  by (auto simp: node_at_append nth_opt_def split: option.splits if_splits)

lemma compare_below:
  assumes wf: "wf_dom d" "dm_parent d r = None" and c: "node_at d r p = Some c" and n: "node_at d r (p @ k # q) = Some n"
  shows "child_below d c n = Some (Some (dm_children d c ! k))"
    and "count_to (dm_children d c ! k) i 0 (dm_children d c) = Some (min k i)"
  using child_below_in [OF wf c n] node_at_child [OF n c] wf(1) by (auto simp: wf_dom_def count_to_nth)

lemma below_ne:
  assumes wf: "wf_dom d" "dm_parent d r = None" "node_at d r p = Some a" "node_at d r q = Some b" "p \<noteq> q"
  shows "a \<noteq> b"
  using node_at_inj [OF wf(1-3)] wf(4,5) by blast

lemma compare_points_key:
  assumes wf: "wf_dom d" "dm_parent d r = None" and a: "node_at d r p = Some a" and b: "node_at d r q = Some b"
  shows "compare_points d a i b j = Some (Some (order_sign (point_key p i) (point_key q j)))"
proof (cases p q rule: lcp_cases)
  case eq
  then show ?thesis using a b by (auto simp: compare_points_def order_sign_def point_key_def)
next
  case (left k q')
  then have ab: "a \<noteq> b" using below_ne [OF wf a b] by simp
  note c = compare_below [OF wf a, of k q' b]
  show ?thesis using ab c b left
    by (auto simp: compare_points_def point_key_def order_sign_def)
next
  case (right k p')
  then have ab: "a \<noteq> b" using below_ne [OF wf a b] by simp
  note c = compare_below [OF wf b, of k p' a]
  have "child_below d a b = Some None" using right by (intro child_below_out [OF wf a b]) auto
  then show ?thesis using ab c a right
    by (auto simp: compare_points_def point_key_def order_sign_def)
next
  case (fork u k p' l q')
  then have ab: "a \<noteq> b" using below_ne [OF wf a b] by auto
  obtain c where c: "node_at d r u = Some c" using a fork(1) node_at_prefix by metis
  have below: "child_below d c a = Some (Some (dm_children d c ! k))" "child_below d c b = Some (Some (dm_children d c ! l))"
    using compare_below(1) [OF wf c] a b fork by auto
  have len: "k < length (dm_children d c)" "l < length (dm_children d c)"
    using node_at_child [OF _ c] a b fork by metis+
  have dist: "distinct (dm_children d c)" using wf(1) by (simp add: wf_dom_def)
  have "fourth_case d a b = Some (Some (if k < l then -1 else 1))"
    using findCommonAncestor_path [OF wf a b] below len dist fork c first_of_nth [OF dist len fork(3)]
    by (simp add: fourth_case_def lcp_fork nth_eq_iff_index_eq)
  moreover have "child_below d a b = Some None" using fork by (intro child_below_out [OF wf a b]) auto
  moreover have "child_below d b a = Some None" using fork by (intro child_below_out [OF wf b a]) auto
  ultimately show ?thesis using ab fork by (auto simp: compare_points_def point_key_def order_sign_def)
qed

lemma root_of_path: "wf_dom d \<Longrightarrow> dm_parent d r = None \<Longrightarrow> node_at d r p = Some n \<Longrightarrow> root_of d n = Some (Some r)"
proof -
  assume a: "wf_dom d" "dm_parent d r = None" "node_at d r p = Some n"
  have "climb d (\<lambda>c. dm_parent d c = None) (Some n) = climb d (\<lambda>c. dm_parent d c = None) (node_at d r [])"
  proof (rule climb_up [OF a(1), where q = p])
    show "\<not> dm_parent d m = None" if "k < length p" "node_at d r ([] @ take (Suc k) p) = Some m" for k m
      using that node_at_parent [OF a(1), of r "take k p" "p ! k" m] node_at_take [OF a(3), of k] by (auto simp: take_Suc_conv_app_nth)
  qed (use a(3) in simp)
  then show ?thesis using a(2) by (simp add: root_of_def climb_Some)
qed

section \<open>Ranges\<close>

definition in_tree :: "dom \<Rightarrow> nat \<Rightarrow> nat list \<Rightarrow> nat \<Rightarrow> bool" where
  "in_tree d r p n \<longleftrightarrow> dm_parent d r = None \<and> node_at d r p = Some n"

text \<open>Both points are in one tree, the start is not after the end, and the derived fields are right.\<close>

definition range_ok :: "dom \<Rightarrow> range \<Rightarrow> bool" where
  "range_ok d t \<longleftrightarrow> (\<exists>r p q. in_tree d r p (rg_startContainer t) \<and> in_tree d r q (rg_endContainer t)
     \<and> point_key p (rg_startOffset t) \<le> point_key q (rg_endOffset t)
     \<and> rg_collapsed t = isCollapsed t \<and> rg_commonAncestorContainer t = node_at d r (lcp p q))"

lemma lcp_same [simp]: "lcp p p = p"
  by (induction p) auto

lemma in_tree_root: "wf_dom d \<Longrightarrow> in_tree d r p n \<Longrightarrow> root_of d n = Some (Some r)"
  by (auto simp: in_tree_def intro: root_of_path)

lemma order_sign_pos: "order_sign a b > 0 \<longleftrightarrow> b < a"
  by (auto simp: order_sign_def)

lemma finish_range:
  assumes "wf_dom d" "in_tree d r p (rg_startContainer t)" "in_tree d r q (rg_endContainer t)"
    "point_key p (rg_startOffset t) \<le> point_key q (rg_endOffset t)"
  shows "\<exists>t'. Option.bind (findCommonAncestor d (rg_startContainer t) (rg_endContainer t))
      (\<lambda>ca. Some (t\<lparr>rg_collapsed := isCollapsed t, rg_commonAncestorContainer := ca\<rparr>)) = Some t' \<and> range_ok d t'
    \<and> rg_startContainer t' = rg_startContainer t \<and> rg_startOffset t' = rg_startOffset t
    \<and> rg_endContainer t' = rg_endContainer t \<and> rg_endOffset t' = rg_endOffset t"
proof -
  have "findCommonAncestor d (rg_startContainer t) (rg_endContainer t) = Some (node_at d r (lcp p q))"
    using assms(1-3) by (intro findCommonAncestor_path) (auto simp: in_tree_def)
  moreover have "range_ok d (t\<lparr>rg_collapsed := isCollapsed t, rg_commonAncestorContainer := node_at d r (lcp p q)\<rparr>)"
    unfolding range_ok_def using assms(2-4) by (intro exI [of _ r] exI [of _ p] exI [of _ q]) (simp add: isCollapsed_def)
  ultimately show ?thesis by simp
qed

lemma setEndPoint_spec:
  assumes wf: "wf_dom d" and n: "in_tree d r p n"
    and m: "m = (if st then rg_endContainer t else rg_startContainer t)" "k = (if st then rg_endOffset t else rg_startOffset t)"
    and q: "in_tree d r' q m"
    and keep: "keep \<longleftrightarrow> r = r' \<and> (if st then point_key p i \<le> point_key q k else point_key q k \<le> point_key p i)"
  shows "\<exists>t'. setEndPoint d st n i t = Some t' \<and> range_ok d t'
    \<and> (rg_startContainer t', rg_startOffset t') = (if st \<or> \<not> keep then (n, i) else (m, k))
    \<and> (rg_endContainer t', rg_endOffset t') = (if \<not> st \<or> \<not> keep then (n, i) else (m, k))"
proof -
  define u where "u = (if st then t\<lparr>rg_startContainer := n, rg_startOffset := i\<rparr> else t\<lparr>rg_endContainer := n, rg_endOffset := i\<rparr>)"
  define v where "v = (if keep then u else collapse st u)"
  have root: "root_of d (rg_startContainer u) = Some (Some (if st then r else r'))" "root_of d (rg_endContainer u) = Some (Some (if st then r' else r))"
    using in_tree_root [OF wf n] in_tree_root [OF wf q] m by (auto simp: u_def)
  have cmp: "compare_points d (rg_startContainer u) (rg_startOffset u) (rg_endContainer u) (rg_endOffset u)
      = Some (Some (if st then order_sign (point_key p i) (point_key q k) else order_sign (point_key q k) (point_key p i)))" if "r = r'"
    using compare_points_key [OF wf, of r p n q m i k] compare_points_key [OF wf, of r q m p n k i] n q m that
    by (cases st) (simp_all add: u_def in_tree_def)
  have "setEndPoint d st n i t = Option.bind (findCommonAncestor d (rg_startContainer v) (rg_endContainer v))
      (\<lambda>ca. Some (v\<lparr>rg_collapsed := isCollapsed v, rg_commonAncestorContainer := ca\<rparr>))"
  proof (cases "r = r'")
    case True
    then show ?thesis unfolding setEndPoint_def Let_def u_def [symmetric] using root cmp [OF True] keep
      by (auto simp: v_def order_sign_pos not_le)
  next
    case False
    then show ?thesis unfolding setEndPoint_def Let_def u_def [symmetric] using root keep by (auto simp: v_def)
  qed
  moreover have "\<exists>r p q. in_tree d r p (rg_startContainer v) \<and> in_tree d r q (rg_endContainer v) \<and> point_key p (rg_startOffset v) \<le> point_key q (rg_endOffset v)"
  proof (cases keep)
    case True
    then show ?thesis using n q m keep by (cases st) (auto simp: v_def u_def)
  next
    case False
    then show ?thesis using n by (cases st) (auto simp: v_def u_def collapse_def)
  qed
  moreover have "(rg_startContainer v, rg_startOffset v) = (if st \<or> \<not> keep then (n, i) else (m, k))"
    "(rg_endContainer v, rg_endOffset v) = (if \<not> st \<or> \<not> keep then (n, i) else (m, k))"
    using m by (auto simp: v_def u_def collapse_def)
  ultimately show ?thesis using finish_range [OF wf, of _ _ v] by fastforce
qed

section \<open>Documents for examples\<close>

definition mk_dom :: "(nat \<times> nkind \<times> nat list) list \<Rightarrow> dom" where
  "mk_dom xs = \<lparr>dm_kind = (\<lambda>n. case map_of xs n of Some (k, _) \<Rightarrow> k | None \<Rightarrow> KDoc),
     dm_parent = (\<lambda>n. map_option fst (List.find (\<lambda>y. n \<in> set (snd (snd y))) xs)),
     dm_children = (\<lambda>n. case map_of xs n of Some (_, cs) \<Rightarrow> cs | None \<Rightarrow> []), dm_fresh = 50, dm_documentElement = 0\<rparr>"

lemma find_unique:
  assumes "distinct (concat (map f xs))" "x \<in> set xs" "c \<in> set (f x)" 
  shows "List.find (\<lambda>y. c \<in> set (f y)) xs = Some x"
  using assms by (induction xs) auto

lemma wf_mk_dom:
  assumes "distinct (map fst xs)" "distinct (concat (map (snd \<circ> snd) xs))"
  shows "wf_dom (mk_dom xs)"
proof -
  have ch: "dm_children (mk_dom xs) p = (case map_of xs p of Some (_, cs) \<Rightarrow> cs | None \<Rightarrow> [])" for p by (simp add: mk_dom_def)
  have pa: "dm_parent (mk_dom xs) c = map_option fst (List.find (\<lambda>y. c \<in> set ((snd \<circ> snd) y)) xs)" for c
    by (simp add: mk_dom_def)
  have "c \<in> set (dm_children (mk_dom xs) p) \<longleftrightarrow> dm_parent (mk_dom xs) c = Some p" for p c
  proof
    assume "c \<in> set (dm_children (mk_dom xs) p)"
    then obtain k cs where "map_of xs p = Some (k, cs)" "c \<in> set cs" by (cases "map_of xs p") (auto simp: ch)
    then have "(p, k, cs) \<in> set xs" by (auto dest: map_of_SomeD)
    then show "dm_parent (mk_dom xs) c = Some p" using find_unique [OF assms(2), of "(p, k, cs)" c] \<open>c \<in> set cs\<close> by (simp add: pa)
  next
    assume "dm_parent (mk_dom xs) c = Some p"
    then obtain y where y: "List.find (\<lambda>y. c \<in> set ((snd \<circ> snd) y)) xs = Some y" "fst y = p" by (auto simp: pa)
    then have "(p, snd y) \<in> set xs" "c \<in> set (snd (snd y))" by (auto simp: find_Some_iff in_set_conv_nth)
    then show "c \<in> set (dm_children (mk_dom xs) p)" using assms(1) by (cases "snd y") (simp add: ch)
  qed
  moreover have "distinct (dm_children (mk_dom xs) p)" for p
    using assms(2) by (auto simp: ch distinct_concat_iff split: option.splits dest!: map_of_SomeD)
  ultimately show ?thesis by (simp add: wf_dom_def)
qed

text \<open>\<open><body><p>abc<b>def</b></p><p>ghi</p><hr></body>\<close>, and a detached paragraph.\<close>

definition sample_dom :: dom where
  "sample_dom = mk_dom [(0, KElem ''BODY'' [], [1, 5, 7]), (1, KElem ''P'' [], [2, 3]), (2, KText (js ''abc''), []), (3, KElem ''B'' [], [4]),
     (4, KText (js ''def''), []), (5, KElem ''P'' [], [6]), (6, KText (js ''ghi''), []), (7, KElem ''HR'' [], []), (8, KElem ''P'' [], [])]"

lemma wf_sample_dom: "wf_dom sample_dom"
  unfolding sample_dom_def by (rule wf_mk_dom) simp_all

section \<open>Properties\<close>

text \<open>C10. Comparing two boundary points of one tree returns a sign, and it is the sign of the document
  order: a point is given by the path to its container and its offset, a child with index k lies
  between the offsets k and k + 1, and points are ordered from left to right. In particular the
  comparison is a total order, and the four cases of the standard never disagree.\<close>

theorem compare_points_order:
  assumes "wf_dom d" "in_tree d r p a" "in_tree d r q b"
  shows "compare_points d a i b j =
    Some (Some (if point_key p i = point_key q j then 0 else if point_key p i < point_key q j then -1 else 1))"
  using compare_points_key [OF assms(1), of r p a q b i j] assms(2,3) by (simp add: in_tree_def order_sign_def)

theorem compare_points_order_witness:
  "compare_points sample_dom 2 1 6 2 = Some (Some (-1))"
  using compare_points_order [OF wf_sample_dom, of 0 "[0, 0]" 2 "[1, 0]" 6 1 2]
  by (simp add: in_tree_def point_key_def) (simp add: sample_dom_def mk_dom_def nth_opt_def)

text \<open>C24. Setting the start or the end of a range to a point of the document returns a range whose start
  is not after its end, in one tree, with the right \<open>collapsed\<close> flag and common ancestor. The other
  point stays when it is in the same tree and on the right side, and otherwise the range collapses to
  the new point.\<close>

theorem setEndPoint_keeps_order:
  assumes "wf_dom d" "in_tree d r p n" "in_tree d r' q (if st then rg_endContainer t else rg_startContainer t)"
  shows "\<exists>t'. setEndPoint d st n i t = Some t' \<and> range_ok d t'
    \<and> (let m = (if st then rg_endContainer t else rg_startContainer t);
           k = (if st then rg_endOffset t else rg_startOffset t);
           keep = (r = r' \<and> (if st then point_key p i \<le> point_key q k else point_key q k \<le> point_key p i))
       in (rg_startContainer t', rg_startOffset t') = (if st \<or> \<not> keep then (n, i) else (m, k))
          \<and> (rg_endContainer t', rg_endOffset t') = (if \<not> st \<or> \<not> keep then (n, i) else (m, k)))"
  unfolding Let_def by (rule setEndPoint_spec [OF assms(1,2) refl refl assms(3) refl])

lemma range_ok_new: "dm_parent d r = None \<Longrightarrow> range_ok d (new_Range r)"
  unfolding range_ok_def by (intro exI [of _ r] exI [of _ "[]"]) (simp add: new_Range_def in_tree_def isCollapsed_def)

theorem setEndPoint_keeps_order_witness:
  "\<exists>t. setEndPoint sample_dom True 4 1 (new_Range 0) = Some t \<and> range_ok sample_dom t \<and> rg_startContainer t = 4 \<and> rg_endContainer t = 4"
proof -
  have "in_tree sample_dom 0 [] (rg_endContainer (new_Range 0))" by (simp add: in_tree_def sample_dom_def mk_dom_def new_Range_def)
  moreover have "in_tree sample_dom 0 [0, 1, 0] 4" by (simp add: in_tree_def sample_dom_def mk_dom_def nth_opt_def)
  ultimately show ?thesis using setEndPoint_keeps_order [OF wf_sample_dom, of 0 "[0, 1, 0]" 4 0 "[]" True "new_Range 0" 1]
    by (auto simp: Let_def point_key_def new_Range_def)
qed

end
