(* ===== verification/TreeWalker.thy ===== *)
theory TreeWalker
  imports RangeOrder
begin

text \<open>
  \<open>classes/dom/TreeWalker.js\<close>: a walker holds a node and moves through the tree below a root, forward with
  \<open>next\<close> and backward with \<open>prev\<close>. Both use one search with the names of two properties; the locale
  \<open>walk_dir\<close> has what the search relies on, and is interpreted for both directions.
\<close>

section \<open>The walker\<close>

record walker =
  wk_node :: "nat option"
  wk_root_node :: "nat option"

definition new_TreeWalker :: "nat \<Rightarrow> nat option \<Rightarrow> walker" where
  "new_TreeWalker start_node root_node = \<lparr>wk_node = Some start_node, wk_root_node = root_node\<rparr>"

text \<open>The loop over the parents. It would not end on a cyclic structure: then the value is None.\<close>

partial_function (option) find_up :: "dom \<Rightarrow> nat option \<Rightarrow> (nat \<Rightarrow> nat option) \<Rightarrow> nat option \<Rightarrow> nat option option" where
  "find_up d root_node sibling_name parent =
     (case parent of
        None \<Rightarrow> Some None
      | Some p \<Rightarrow>
          if parent = root_node then Some None
          else case sibling_name p of Some s \<Rightarrow> Some (Some s) | None \<Rightarrow> find_up d root_node sibling_name (dm_parent d p))"

declare find_up.simps [code]

definition findSibling ::
  "dom \<Rightarrow> nat option \<Rightarrow> nat option \<Rightarrow> (nat \<Rightarrow> nat option) \<Rightarrow> (nat \<Rightarrow> nat option) \<Rightarrow> bool \<Rightarrow> nat option option" where
  "findSibling d root_node node start_name sibling_name shallow =
     (case node of
        None \<Rightarrow> Some None
      | Some n \<Rightarrow>
          if \<not> shallow \<and> start_name n \<noteq> None then Some (start_name n)
          else if node \<noteq> root_node
          then (case sibling_name n of Some s \<Rightarrow> Some (Some s) | None \<Rightarrow> find_up d root_node sibling_name (dm_parent d n))
          else Some None)"

definition walk_current :: "walker \<Rightarrow> nat option" where
  "walk_current = wk_node"

definition walk_next :: "dom \<Rightarrow> bool \<Rightarrow> walker \<Rightarrow> walker option" where
  "walk_next d shallow w =
     map_option (\<lambda>n. w\<lparr>wk_node := n\<rparr>) (findSibling d (wk_root_node w) (wk_node w) (firstChild d) (nextSibling d) shallow)"

definition walk_prev :: "dom \<Rightarrow> bool \<Rightarrow> walker \<Rightarrow> walker option" where
  "walk_prev d shallow w =
     map_option (\<lambda>n. w\<lparr>wk_node := n\<rparr>) (findSibling d (wk_root_node w) (wk_node w) (lastChild d) (previousSibling d) shallow)"

text \<open>The loop of the callers, \<open>while ((node = walker.next()))\<close>: the nodes it sees.\<close>

partial_function (option) walk_all :: "(walker \<Rightarrow> walker option) \<Rightarrow> walker \<Rightarrow> nat list option" where
  "walk_all move w =
     Option.bind (move w) (\<lambda>v. case walk_current v of None \<Rightarrow> Some [] | Some n \<Rightarrow> Option.bind (walk_all move v) (\<lambda>ns. Some (n # ns)))"

declare walk_all.simps [code]

section \<open>Finite trees\<close>

datatype ntree = NT (label: nat) (sub: "ntree list")

primrec pre :: "ntree \<Rightarrow> nat list" where
  "pre (NT n ts) = n # concat (map pre ts)"

primrec post :: "ntree \<Rightarrow> nat list" where
  "post (NT n ts) = concat (map post ts) @ [n]"

primrec mirror :: "ntree \<Rightarrow> ntree" where
  "mirror (NT n ts) = NT n (rev (map mirror ts))"

fun rep :: "(nat \<Rightarrow> nat list) \<Rightarrow> ntree \<Rightarrow> bool" where
  "rep kids (NT n ts) = (kids n = map label ts \<and> (\<forall>t \<in> set ts. rep kids t))"

lemma label_mirror [simp]: "label (mirror t) = label t"
  by (cases t) simp

lemma pre_mirror: "pre (mirror t) = rev (post t)"
proof (induction t)
  case (NT n ts)
  then have eq: "map (pre \<circ> mirror) ts = map (rev \<circ> post) ts" by simp
  have "pre (mirror (NT n ts)) = n # concat (rev (map (pre \<circ> mirror) ts))" by (simp add: rev_map)
  also have "\<dots> = rev (post (NT n ts))" by (simp only: eq) (simp add: rev_concat rev_map o_def)
  finally show ?case .
qed

lemma rep_mirror: "rep kids t \<Longrightarrow> rep (rev \<circ> kids) (mirror t)"
  by (induction t) (auto simp: rev_map o_def)

lemma hd_pre: "\<exists>xs. pre t = label t # xs"
  by (cases t) simp

lemma rep_unique: "rep kids t \<Longrightarrow> rep kids u \<Longrightarrow> label t = label u \<Longrightarrow> t = u"
proof (induction t arbitrary: u)
  case (NT n ts)
  obtain us where u: "u = NT n us" using NT.prems(3) by (cases u) auto
  have "map label ts = map label us" using NT.prems(1,2) u by simp
  moreover have "t \<in> set ts \<Longrightarrow> v \<in> set us \<Longrightarrow> label t = label v \<Longrightarrow> t = v" for t v using NT u by auto
  ultimately have "ts = us" by (auto simp: list_eq_iff_nth_eq map_equality_iff)
  then show ?case using u by simp
qed

text \<open>A list that a partial step goes through in order, with what comes after its last element.\<close>

fun chain :: "('a \<Rightarrow> 'a option option) \<Rightarrow> 'a list \<Rightarrow> 'a option \<Rightarrow> bool" where
  "chain step [] k = True"
| "chain step (x # xs) k = (step x = Some (if xs = [] then k else Some (hd xs)) \<and> chain step xs k)"

lemma chain_append: "chain step xs (Some y) \<Longrightarrow> chain step (y # ys) k \<Longrightarrow> chain step (xs @ y # ys) k"
  by (induction xs) auto

lemma chain_drop: "chain step xs k \<Longrightarrow> chain step (drop i xs) k"
  by (induction xs arbitrary: i) (auto simp: drop_Cons split: nat.splits)

lemma chain_determined: "chain step (x # xs) None \<Longrightarrow> chain step (x # ys) None \<Longrightarrow> xs = ys"
proof (induction xs arbitrary: x ys)
  case Nil
  then show ?case by (auto split: if_splits)
next
  case (Cons z xs)
  then show ?case by (cases ys) auto
qed

lemma chain_distinct: "chain step xs None \<Longrightarrow> distinct xs"
proof (induction xs)
  case (Cons x xs)
  have False if twice: "x \<in> set xs"
  proof -
    from split_list [OF twice] obtain us vs where parts: "us @ x # vs = xs" by blast
    then have "chain step (x # vs) None" using chain_drop [of step xs None "length us"] Cons.prems by auto
    with Cons.prems have "vs = xs" by (metis chain_determined)
    with parts have "length xs = length us + Suc (length xs)" by (metis length_append length_Cons)
    then show False by simp
  qed
  then show ?case using Cons by auto
qed simp

section \<open>One search, two directions\<close>

locale walk_dir =
  fixes kids :: "dom \<Rightarrow> nat \<Rightarrow> nat list" and start sibling :: "dom \<Rightarrow> nat \<Rightarrow> nat option"
  assumes start: "start d n = hd_opt (kids d n)"
    and sibling: "wf_dom d \<Longrightarrow> kids d p = xs @ n # ys \<Longrightarrow> sibling d n = hd_opt ys"
    and parent: "wf_dom d \<Longrightarrow> n \<in> set (kids d p) \<Longrightarrow> dm_parent d n = Some p"
begin

abbreviation "stepping d r n \<equiv> findSibling d (Some r) (Some n) (start d) (sibling d) False"

lemma stepping_down: "start d n \<noteq> None \<Longrightarrow> stepping d r n = Some (start d n)"
  by (simp add: findSibling_def)

lemma stepping_over: "start d n = None \<Longrightarrow> stepping d r n = find_up d (Some r) (sibling d) (Some n)"
  by (simp add: findSibling_def find_up.simps [of d "Some r" "sibling d" "Some n"])

lemma forest_chain:
  assumes wf: "wf_dom d" and "kids d n = xs @ map label ts" "ts \<noteq> []" "find_up d (Some r) (sibling d) (Some n) = Some k"
    and tree: "\<And>t k'. t \<in> set ts \<Longrightarrow> find_up d (Some r) (sibling d) (Some (label t)) = Some k' \<Longrightarrow> chain (stepping d r) (pre t) k'"
    and "r \<notin> label ` set ts"
  shows "chain (stepping d r) (concat (map pre ts)) k"
  using assms(2,3,5,6)
proof (induction ts arbitrary: xs)
  case (Cons t ts)
  have sib: "sibling d (label t) = hd_opt (map label ts)" using sibling [OF wf] Cons.prems(1) by simp
  have par: "dm_parent d (label t) = Some n" using parent [OF wf] Cons.prems(1) by simp
  have up: "find_up d (Some r) (sibling d) (Some (label t)) = (case sibling d (label t) of Some s \<Rightarrow> Some (Some s) | None \<Rightarrow> Some k)"
    using Cons.prems(4) assms(4) par by (subst find_up.simps) (auto split: option.splits)
  note first = Cons.prems(3) [OF list.set_intros(1)]
  have rest: "ts \<noteq> [] \<Longrightarrow> chain (stepping d r) (concat (map pre ts)) k" using Cons.IH [of "xs @ [label t]"] Cons.prems by simp
  show ?case
  proof (cases ts)
    case Nil
    then show ?thesis using first [of k] up sib by simp
  next
    case (Cons u us)
    obtain ys where u: "pre u = label u # ys" using hd_pre by blast
    have "chain (stepping d r) (pre t) (Some (label u))" using first [of "Some (label u)"] up sib Cons by simp
    then show ?thesis using u rest Cons by (simp add: chain_append)
  qed
qed simp

lemma tree_chain:
  assumes wf: "wf_dom d" and "rep (kids d) t" "find_up d (Some r) (sibling d) (Some (label t)) = Some k" "r \<notin> set (tl (pre t))"
  shows "chain (stepping d r) (pre t) k"
  using assms(2-4)
proof (induction t arbitrary: k)
  case (NT n ts)
  show ?case
  proof (cases "ts = []")
    case True
    then show ?thesis using NT.prems start [of d n] stepping_over [of d n r] by simp
  next
    case False
    have inner: "r \<notin> set (pre t)" if "t \<in> set ts" for t using NT.prems(3) that by auto
    have "chain (stepping d r) (concat (map pre ts)) k"
    proof (rule forest_chain [OF wf, of n "[]"])
      show "r \<notin> label ` set ts" using inner hd_pre by (metis image_iff list.set_intros(1))
      show "chain (stepping d r) (pre t) k'" if "t \<in> set ts" "find_up d (Some r) (sibling d) (Some (label t)) = Some k'" for t k'
      proof (rule NT.IH [OF that(1) _ that(2)])
        show "rep (kids d) t" using that(1) NT.prems(1) by simp
        show "r \<notin> set (tl (pre t))" using inner [OF that(1)] by (cases t) simp
      qed
    qed (use NT.prems False in simp_all)
    moreover have "start d n = Some (label (hd ts))" using start [of d n] NT.prems(1) False by (cases ts) auto
    moreover have "hd (concat (map pre ts)) = label (hd ts) \<and> concat (map pre ts) \<noteq> []"
      using hd_pre [of "hd ts"] False by (cases ts) auto
    ultimately show ?thesis using stepping_down [of d n r] by auto
  qed
qed

lemma root_not_below:
  assumes "rep (kids d) t" shows "label t \<notin> set (tl (pre t))"
proof -
  have "\<exists>v. rep (kids d) v \<and> label v = m \<and> size v \<le> size u" if "rep (kids d) u" "m \<in> set (pre u)" for u m
    using that
  proof (induction u)
    case (NT n ts)
    then consider "m = n" | u where "u \<in> set ts" "m \<in> set (pre u)" by auto
    then show ?case
    proof cases
      case 1
      then show ?thesis using NT.prems(1) by (intro exI [of _ "NT n ts"]) simp
    next
      case 2
      then obtain v where "rep (kids d) v" "label v = m" "size v \<le> size u" using NT by auto
      moreover have "size u \<le> size_list size ts" using 2(1) by (simp add: size_list_estimation')
      ultimately show ?thesis by (intro exI [of _ v]) auto
    qed
  qed note below = this
  obtain n ts where t: "t = NT n ts" by (cases t)
  show ?thesis
  proof
    assume "label t \<in> set (tl (pre t))"
    then obtain u where u: "u \<in> set ts" "n \<in> set (pre u)" using t by auto
    then obtain v where "rep (kids d) v" "label v = n" "size v \<le> size u" using below assms t by auto
    moreover have "size u < size t" using t size_list_estimation' [OF u(1), of "size u" size] by simp
    moreover have "t = v" using rep_unique [OF assms, of v] t \<open>label v = n\<close> \<open>rep (kids d) v\<close> by simp
    ultimately show False by simp
  qed
qed

lemma walk_chain:
  assumes "wf_dom d" "rep (kids d) t" shows "chain (stepping d (label t)) (pre t) None"
  using tree_chain [OF assms _ root_not_below [OF assms(2)], of None] by (simp add: find_up.simps)

end

lemma wf_dom_split:
  assumes "wf_dom d" "dm_children d p = xs @ n # ys"
  shows "nextSibling d n = hd_opt ys" "previousSibling d n = last_opt xs"
proof -
  have "distinct (xs @ n # ys)" using assms by (metis wf_dom_def)
  have "n \<in> set (dm_children d p)" using assms(2) by simp
  then have "dm_parent d n = Some p" using assms(1) by (simp add: wf_dom_def)
  then show "nextSibling d n = hd_opt ys" "previousSibling d n = last_opt xs"
    using assms(2) \<open>distinct (xs @ n # ys)\<close> by (simp_all add: nextSibling_def previousSibling_def after_in_append before_in_append)
qed

lemma last_opt_rev: "last_opt (rev xs) = hd_opt xs"
  by (cases xs) simp_all

lemma hd_opt_rev: "hd_opt (rev xs) = last_opt xs"
  using last_opt_rev [of "rev xs"] by simp

text \<open>Forward, and backward over the mirrored tree.\<close>

interpretation forward: walk_dir dm_children firstChild nextSibling
  by unfold_locales (auto simp: firstChild_def wf_dom_split wf_dom_def)

interpretation backward: walk_dir "\<lambda>d. rev \<circ> dm_children d" lastChild previousSibling
proof
  show "previousSibling d n = hd_opt ys" if "wf_dom d" "(rev \<circ> dm_children d) p = xs @ n # ys" for d n p xs ys
  proof -
    have "dm_children d p = rev ys @ n # rev xs" using that(2) by (simp add: rev_swap)
    then show ?thesis using wf_dom_split(2) [OF that(1)] by (simp add: hd_opt_rev [symmetric])
  qed
qed (auto simp: lastChild_def hd_opt_rev wf_dom_def)

section \<open>Walks\<close>

lemma chain_walk:
  assumes "chain step xs None" "i < length xs"
    and "\<And>n. move \<lparr>wk_node = Some n, wk_root_node = r\<rparr> = map_option (\<lambda>m. \<lparr>wk_node = m, wk_root_node = r\<rparr>) (step n)"
  shows "walk_all move \<lparr>wk_node = Some (xs ! i), wk_root_node = r\<rparr> = Some (drop (Suc i) xs)"
  using assms(1,2)
proof (induction "length xs - i" arbitrary: i)
  case (Suc k)
  then have "chain step (xs ! i # drop (Suc i) xs) None" using chain_drop [of step xs None i] by (simp add: Cons_nth_drop_Suc)
  then have st: "step (xs ! i) = Some (nth_opt xs (Suc i))"
    by (auto simp: hd_drop_conv_nth nth_opt_def split: if_splits)
  show ?case
  proof (cases "Suc i < length xs")
    case True
    then have "walk_all move \<lparr>wk_node = Some (xs ! Suc i), wk_root_node = r\<rparr> = Some (drop (Suc (Suc i)) xs)" using Suc by simp
    then show ?thesis using True st assms(3)
      by (subst walk_all.simps) (simp add: walk_current_def nth_opt_def Cons_nth_drop_Suc)
  next
    case False
    then show ?thesis using st assms(3) by (subst walk_all.simps) (simp add: walk_current_def nth_opt_def)
  qed
qed simp

text \<open>C15. A caller that moves a walker with \<open>next\<close> until there is no node terminates: started at any node of
  a finite tree it sees, in document order (preorder), exactly the nodes after it below the root, each one once.\<close>

theorem walk_next_preorder:
  assumes "wf_dom d" "rep (dm_children d) t" "i < length (pre t)"
  shows "walk_all (walk_next d False) (new_TreeWalker (pre t ! i) (Some (label t))) = Some (drop (Suc i) (pre t)) \<and> distinct (pre t)"
  using forward.walk_chain [OF assms(1,2)] assms(3)
  by (auto simp: new_TreeWalker_def walk_next_def intro: chain_distinct chain_walk)

abbreviation "sample_tree \<equiv> NT 0 [NT 1 [NT 2 [], NT 3 [NT 4 []]], NT 5 [NT 6 []], NT 7 []]"

lemma sample_tree_rep: "rep (dm_children sample_dom) sample_tree"
  by (simp add: sample_dom_def mk_dom_def)

theorem walk_next_preorder_witness:
  "walk_all (walk_next sample_dom False) (new_TreeWalker 2 (Some 0)) = Some [3, 4, 5, 6, 7]"
  using walk_next_preorder [OF wf_sample_dom sample_tree_rep, of 2] by simp

text \<open>The same for \<open>prev\<close>, which goes into the last child first: from any node it sees the nodes that
  come before it in postorder, from the back, and ends.\<close>

lemma walk_prev_postorder:
  assumes "wf_dom d" "rep (dm_children d) t" "i < length (post t)"
  shows "walk_all (walk_prev d False) (new_TreeWalker (post t ! i) (Some (label t))) = Some (rev (take i (post t)))"
proof -
  let ?xs = "rev (post t)" and ?j = "length (post t) - Suc i"
  have "chain (\<lambda>n. findSibling d (Some (label t)) (Some n) (lastChild d) (previousSibling d) False) ?xs None"
    using backward.walk_chain [OF assms(1) rep_mirror [OF assms(2)]] by (simp add: pre_mirror)
  from chain_walk [OF this, of ?j] assms(3)
  have "walk_all (walk_prev d False) (new_TreeWalker (?xs ! ?j) (Some (label t))) = Some (drop (Suc ?j) ?xs)"
    by (simp add: new_TreeWalker_def walk_prev_def)
  then show ?thesis using assms(3) by (simp add: rev_nth Suc_diff_Suc drop_rev)
qed


end
