(* ===== verification/RangeContents.thy ===== *)
theory RangeContents
  imports RangeOrder
begin

text \<open>
  What \<open>extractContents\<close>, \<open>insertNode\<close>, \<open>surroundContents\<close> and \<open>deleteContents\<close> of \<open>classes/dom/Range.js\<close> do to a document
  when both boundary points are in one container. Moving a run of siblings to another parent is one
  equation on documents, \<open>moved\<close>; the loops and the fragment rules of the DOM are shown to compute it.
\<close>

section \<open>Documents with fresh nodes\<close>

text \<open>Nodes not allocated yet are not linked, fragments have no parent.\<close>

definition wf_heap :: "dom \<Rightarrow> bool" where
  "wf_heap d \<longleftrightarrow> wf_dom d \<and> dm_parent d (dm_fresh d) = None \<and> dm_children d (dm_fresh d) = []
     \<and> (\<forall>n. dm_kind d n = KFrag \<longrightarrow> dm_parent d n = None)"

lemma wf_child_parent: "wf_dom d \<Longrightarrow> c \<in> set (dm_children d p) \<Longrightarrow> dm_parent d c = Some p"
  by (simp add: wf_dom_def)

section \<open>Moving a run of siblings\<close>

text \<open>The nodes \<open>xs\<close> go from \<open>q\<close>, which keeps \<open>ds\<close>, to \<open>p\<close>, which then has \<open>cs\<close>.\<close>

definition moved :: "nat list \<Rightarrow> nat \<Rightarrow> nat list \<Rightarrow> nat \<Rightarrow> nat list \<Rightarrow> dom \<Rightarrow> dom" where
  "moved xs q ds p cs d = d\<lparr>dm_parent := (\<lambda>n. if n \<in> set xs then Some p else dm_parent d n),
     dm_children := (dm_children d)(q := ds, p := cs)\<rparr>"

lemma put_child_moved:
  assumes "dm_parent d x = Some q" "dm_children d q = B @ x # D" "x \<notin> set B" "dm_children d p = as" "q \<noteq> p"
  shows "put_child p f x d = moved [x] q (B @ D) p (f as) d"
  using assms by (auto simp: put_child_def detach_def moved_def Let_def remove1_append fun_eq_iff)

lemma moved_moved:
  "moved xs q ds' p cs' (moved ys q ds p cs d) = moved (ys @ xs) q ds' p cs' d"
  by (auto simp: moved_def fun_eq_iff)

lemma moved_simps [simp]:
  "dm_kind (moved xs q ds p cs d) = dm_kind d" "dm_fresh (moved xs q ds p cs d) = dm_fresh d"
  "dm_documentElement (moved xs q ds p cs d) = dm_documentElement d" "dom.more (moved xs q ds p cs d) = dom.more d"
  "dm_children (moved xs q ds p cs d) n = (if n = p then cs else if n = q then ds else dm_children d n)"
  "dm_parent (moved xs q ds p cs d) n = (if n \<in> set xs then Some p else dm_parent d n)"
  by (auto simp: moved_def)

lemma fold_put_child:
  assumes "\<forall>x \<in> set xs. dm_parent d x = Some q" "dm_children d q = B @ xs @ D" "distinct (B @ xs)"
    and "dm_children d p = A @ C" "q \<noteq> p" "xs \<noteq> []"
    and "\<And>x ys. x \<in> set xs \<Longrightarrow> set ys \<subseteq> set xs \<Longrightarrow> g x (A @ ys @ C) = A @ ys @ x # C"
  shows "fold (\<lambda>x. put_child p (g x) x) xs d = moved xs q (B @ D) p (A @ xs @ C) d"
  using assms
proof (induction xs arbitrary: d A)
  case (Cons x xs)
  let ?e = "moved [x] q (B @ xs @ D) p (A @ x # C) d"
  have "put_child p (g x) x d = ?e"
    using put_child_moved [of d x q B "xs @ D" p "A @ C" "g x"] Cons.prems(1-5) Cons.prems(7) [of x "[]"] by simp
  moreover have "fold (\<lambda>x. put_child p (g x) x) xs ?e = moved xs q (B @ D) p ((A @ [x]) @ xs @ C) ?e" if "xs \<noteq> []"
  proof (rule Cons.IH)
    show "g y ((A @ [x]) @ ys @ C) = (A @ [x]) @ ys @ y # C" if "y \<in> set xs" "set ys \<subseteq> set xs" for y ys
      using Cons.prems(7) [of y "x # ys"] that by auto
  qed (use Cons.prems that in auto)
  ultimately show ?case by (cases "xs = []") (simp_all add: moved_moved)
qed simp

lemma insert_before_append: "r \<notin> set as \<Longrightarrow> insert_before x r (as @ r # bs) = as @ x # r # bs"
  by (induction as) auto

text \<open>A fragment that comes in brings its children and stays empty.\<close>

lemma insert_fragment:
  assumes "dm_kind d f = KFrag" "dm_children d f = xs" "xs \<noteq> []" "\<forall>x \<in> set xs. dm_parent d x = Some f" "distinct xs"
    and "dm_children d p = A @ C" "f \<noteq> p" "distinct (A @ C)" "\<forall>c \<in> set C. dm_parent d c = Some p" "f \<notin> set C" "set xs \<inter> set (A @ C) = {}"
  shows "insertBefore p f (hd_opt C) d = Some (moved xs f [] p (A @ xs @ C) d)"
proof (cases C)
  case Nil
  then show ?thesis
    using fold_put_child [of xs d f "[]" "[]" p A "[]" "\<lambda>c cs. cs @ [c]"] assms by (simp add: insertBefore_def appendChild_def parts_def)
next
  case (Cons r C')
  have "insert_before x r (A @ ys @ C) = A @ ys @ x # C" if "set ys \<subseteq> set xs" for x ys
    using insert_before_append [of r "A @ ys" x C'] that Cons assms(8,11) by auto
  then show ?thesis
    using fold_put_child [of xs d f "[]" "[]" p A C "\<lambda>c. insert_before c r"] assms Cons by (simp add: insertBefore_def parts_def)
qed

section \<open>Taking contents out\<close>

lemma take_next_extract:
  assumes "\<forall>x \<in> set xs. dm_parent d x = Some q \<and> dm_kind d x \<noteq> KFrag" "dm_children d q = B @ xs @ D" "distinct (B @ xs @ D)"
    and "dm_children d f = A" "q \<noteq> f" "n = hd_opt (xs @ D)" "xs \<noteq> []"
  shows "take_next strict EXTRACT (Some f) (length xs) n d = Some (moved xs q (B @ D) f (A @ xs) d)"
  using assms
proof (induction xs arbitrary: d A n)
  case (Cons x xs)
  let ?e = "moved [x] q (B @ xs @ D) f (A @ [x]) d"
  have e: "appendChild f x d = ?e"
    using put_child_moved [of d x q B "xs @ D" f A "\<lambda>cs. cs @ [x]"] Cons.prems by (simp add: appendChild_def parts_def)
  have nx: "nextSibling d x = hd_opt (xs @ D)"
    using Cons.prems after_in_append [of x B "xs @ D"] by (simp add: nextSibling_def)
  have n: "n = Some x" using Cons.prems(6) by simp
  show ?case
  proof (cases "xs = []")
    case True
    then show ?thesis using e n by (simp add: traverseFullySelected_def add_last_def)
  next
    case False
    then have "take_next strict EXTRACT (Some f) (length xs) (hd_opt (xs @ D)) ?e = Some (moved xs q (B @ D) f ((A @ [x]) @ xs) ?e)"
      using Cons.prems by (intro Cons.IH) auto
    then show ?thesis using e n nx by (simp add: traverseFullySelected_def add_last_def moved_moved)
  qed
qed simp

text \<open>The document after the extraction of the children from \<open>i\<close> to \<open>j\<close>, with a new fragment that holds them.\<close>

definition extracted :: "nat \<Rightarrow> nat \<Rightarrow> nat \<Rightarrow> dom \<Rightarrow> dom" where
  "extracted p i j d = (let cs = dm_children d p in
     moved (take (j - i) (drop i cs)) p (take i cs @ drop j cs) (dm_fresh d) (take (j - i) (drop i cs)) (snd (alloc KFrag d)))"

lemma alloc_simps [simp]:
  "fst (alloc k d) = dm_fresh d" "dm_kind (snd (alloc k d)) n = (if n = dm_fresh d then k else dm_kind d n)"
  "dm_parent (snd (alloc k d)) n = (if n = dm_fresh d then None else dm_parent d n)"
  "dm_children (snd (alloc k d)) n = (if n = dm_fresh d then [] else dm_children d n)"
  by (simp_all add: alloc_def)

lemma hd_opt_take: "0 < k \<Longrightarrow> hd_opt (take k xs) = hd_opt xs"
  by (cases k; cases xs) simp_all

lemma slice_append:
  assumes "i \<le> j" shows "xs = take i xs @ take (j - i) (drop i xs) @ drop j xs"
  using assms append_take_drop_id [of i xs] append_take_drop_id [of "j - i" "drop i xs"] by (simp add: add.commute)

lemma extractContents_element:
  assumes "wf_heap d" "is_element d p" "rg_startContainer t = p" "rg_endContainer t = p"
    and "rg_startOffset t < rg_endOffset t" "rg_endOffset t \<le> length (dm_children d p)"
  shows "extractContents t d = Some (dm_fresh d, collapse True t, extracted p (rg_startOffset t) (rg_endOffset t) d)"
proof -
  let ?i = "rg_startOffset t" and ?j = "rg_endOffset t" and ?e = "snd (alloc KFrag d)" and ?f = "dm_fresh d"
  define xs where "xs = take (?j - ?i) (drop ?i (dm_children d p))"
  have cs: "dm_children d p = take ?i (dm_children d p) @ xs @ drop ?j (dm_children d p)"
    unfolding xs_def using assms(5) by (intro slice_append) simp
  have xs: "xs \<noteq> []" "length xs = ?j - ?i" "hd_opt xs = Some (dm_children d p ! ?i)"
    using assms(5,6) by (simp_all add: xs_def hd_opt_take hd_opt_drop nth_opt_def)
  have pf: "p \<noteq> ?f" using assms(1,5,6) by (auto simp: wf_heap_def)
  have "set xs \<subseteq> set (dm_children d p)" using cs by (metis Un_iff set_append subsetI)
  then have par: "\<forall>x \<in> set xs. dm_parent d x = Some p" using assms(1) by (auto simp: wf_heap_def wf_child_parent)
  then have par': "\<forall>x \<in> set xs. dm_parent ?e x = Some p \<and> dm_kind ?e x \<noteq> KFrag" using assms(1) by (auto simp: wf_heap_def)
  have "take_next False EXTRACT (Some ?f) (length xs) (hd_opt (xs @ drop ?j (dm_children d p))) ?e = Some (extracted p ?i ?j d)"
    unfolding extracted_def Let_def xs_def [symmetric]
  proof (subst take_next_extract [where q = p and B = "take ?i (dm_children d p)" and D = "drop ?j (dm_children d p)" and A = "[]"])
    show "distinct (take ?i (dm_children d p) @ xs @ drop ?j (dm_children d p))"
      using assms(1) cs by (metis wf_heap_def wf_dom_def)
  qed (use par' cs pf xs in simp_all)
  moreover have "getSelectedNode ?e p (int ?i) = dm_children d p ! ?i"
    using assms(2,5,6) pf by (auto simp: getSelectedNode_def nth_opt_def is_text_def is_element_def split: nkind.splits)
  moreover have "dm_kind ?e p = dm_kind d p" using pf by simp
  moreover have "new_frag EXTRACT d = (Some ?f, ?e)" by (simp add: new_frag_def alloc_def)
  ultimately show ?thesis using assms(2-6) xs(2,3) \<open>xs \<noteq> []\<close>
    by (simp add: extractContents_def traverse_def traverseSameContainer_def is_element_def hd_opt_append split: nkind.splits)
qed

lemma extracted_slices:
  assumes "wf_heap d" "i < j" "j \<le> length (dm_children d p)"
    and "A = take i (dm_children d p)" "xs = take (j - i) (drop i (dm_children d p))" "C = drop j (dm_children d p)"
  shows "dm_children d p = A @ xs @ C" "distinct (A @ xs @ C)" "length A = i" "xs \<noteq> []" "p \<noteq> dm_fresh d"
    "x \<in> set (A @ xs @ C) \<Longrightarrow> dm_parent d x = Some p \<and> x \<noteq> dm_fresh d"
    "extracted p i j d = moved xs p (A @ C) (dm_fresh d) xs (snd (alloc KFrag d))"
proof -
  show cs: "dm_children d p = A @ xs @ C" unfolding assms(4-6) using assms(2) by (intro slice_append) simp
  have wf: "wf_dom d" using assms(1) by (simp add: wf_heap_def)
  then show "distinct (A @ xs @ C)" using cs by (metis wf_dom_def)
  show "p \<noteq> dm_fresh d" using assms(1-3) by (auto simp: wf_heap_def)
  show "x \<in> set (A @ xs @ C) \<Longrightarrow> dm_parent d x = Some p \<and> x \<noteq> dm_fresh d"
    using wf_child_parent [OF wf, of x p] cs assms(1) by (metis wf_heap_def option.simps(3))
qed (use assms in \<open>simp_all add: extracted_def Let_def\<close>)

section \<open>Putting contents back\<close>

lemma insertNode_element:
  assumes "is_element d (rg_startContainer t)" 
  shows "insertNode n t d = insertBefore (rg_startContainer t) n (nth_opt (dm_children d (rg_startContainer t)) (rg_startOffset t)) d"
  using assms by (auto simp: insertNode_def Let_def is_element_def nodeType_def insertBefore_def split: nkind.splits option.splits)

text \<open>C11. Taking the children of an element between two offsets out of a document and inserting the fragment
  where the range has collapsed gives the document back: extractContents returns a fragment with exactly
  the selected nodes, in order, and insertNode of that fragment leaves every node as it was, and the fragment empty.\<close>

theorem extract_insert_roundtrip:
  assumes "wf_heap d" "is_element d p" "rg_startContainer t = p" "rg_endContainer t = p"
    and "rg_startOffset t < rg_endOffset t" "rg_endOffset t \<le> length (dm_children d p)"
  shows "\<exists>f u e. extractContents t d = Some (f, u, e) \<and> f = dm_fresh d \<and> dm_kind e f = KFrag
    \<and> dm_children e f = take (rg_endOffset t - rg_startOffset t) (drop (rg_startOffset t) (dm_children d p))
    \<and> dm_children e p = take (rg_startOffset t) (dm_children d p) @ drop (rg_endOffset t) (dm_children d p)
    \<and> insertNode f u e = Some (snd (alloc KFrag d))"
proof -
  let ?i = "rg_startOffset t" and ?j = "rg_endOffset t" and ?f = "dm_fresh d" and ?e = "extracted p (rg_startOffset t) (rg_endOffset t) d"
  define A xs C where def: "A = take ?i (dm_children d p)" "xs = take (?j - ?i) (drop ?i (dm_children d p))" "C = drop ?j (dm_children d p)"
  note sl = extracted_slices [OF assms(1,5,6) def]
  have xk: "x \<in> set xs \<Longrightarrow> dm_parent d x = Some p" "?f \<notin> set xs" for x using sl(6) [of x] sl(6) [of ?f] by auto
  have e: "dm_kind ?e ?f = KFrag" "dm_children ?e ?f = xs" "dm_children ?e p = A @ C" "is_element ?e p"
    using assms(2) sl(5) by (simp_all add: sl(7) is_element_def)
  have "insertBefore p ?f (hd_opt C) ?e = Some (moved xs ?f [] p (A @ xs @ C) ?e)"
  proof (rule insert_fragment [OF e(1,2) sl(4)])
    show "\<forall>c \<in> set C. dm_parent ?e c = Some p" using sl(2,6) by (auto simp: sl(7))
    show "?f \<notin> set C" using sl(6) [of ?f] by auto
  qed (use sl(2,5) e in \<open>auto simp: sl(7)\<close>)
  moreover have "moved xs ?f [] p (A @ xs @ C) ?e = snd (alloc KFrag d)"
    using xk sl(1,5) by (intro dom.equality) (auto simp: sl(7) fun_eq_iff)
  moreover have "nth_opt (dm_children ?e p) ?i = hd_opt C" using sl(3) e(3) by (simp add: hd_opt_drop [symmetric])
  ultimately have "insertNode ?f (collapse True t) ?e = Some (snd (alloc KFrag d))"
    using insertNode_element [of ?e "collapse True t" ?f] e(4) assms(3) by (simp add: collapse_def)
  then show ?thesis using extractContents_element [OF assms] e def by blast
qed

lemma wf_heap_sample: "wf_heap sample_dom"
proof -
  have "dm_kind sample_dom n = KFrag \<Longrightarrow> False" for n by (simp add: sample_dom_def mk_dom_def split: if_splits)
  then show ?thesis using wf_sample_dom by (auto simp: wf_heap_def) (simp_all add: sample_dom_def mk_dom_def)
qed

definition sample_range :: range where
  "sample_range = \<lparr>rg_startContainer = 0, rg_startOffset = 1, rg_endContainer = 0, rg_endOffset = 3, rg_collapsed = False,
     rg_commonAncestorContainer = Some 0\<rparr>"

lemma sample_range_body: "is_element sample_dom 0" "dm_children sample_dom 0 = [1, 5, 7]"
  by (simp_all add: sample_dom_def mk_dom_def is_element_def)

theorem extract_insert_roundtrip_witness:
  "\<exists>f u e. extractContents sample_range sample_dom = Some (f, u, e) \<and> dm_children e f = [5, 7] \<and> dm_children e 0 = [1]
     \<and> insertNode f u e = Some (snd (alloc KFrag sample_dom))"
  using extract_insert_roundtrip [OF wf_heap_sample sample_range_body(1), of sample_range]
  by (auto simp: sample_range_def sample_range_body)

section \<open>Surrounding contents\<close>

lemma nodeIndex_append:
  assumes "dm_parent d n = Some p" "dm_children d p = A @ n # C" "n \<notin> set A"
  shows "nodeIndex d n False = length A"
proof -
  have "count_back d False ty xs = length xs" for ty xs by (induction xs arbitrary: ty) (simp_all add: Let_def)
  moreover have "takeWhile (\<lambda>c. c \<noteq> n) (A @ n # C) = A" using assms(3) by (induction A) auto
  ultimately show ?thesis using assms(1,2) by (simp add: nodeIndex_def)
qed

lemma selectNode_ok:
  assumes "wf_dom d" "in_tree d r path p" "dm_children d p = A @ n # C" "rg_endContainer t = p" "length A \<le> rg_endOffset t"
  shows "\<exists>u. selectNode d n t = Some u \<and> range_ok d u \<and> rg_startContainer u = p \<and> rg_startOffset u = length A
    \<and> rg_endContainer u = p \<and> rg_endOffset u = Suc (length A)"
proof -
  have "n \<in> set (dm_children d p)" "distinct (A @ n # C)" using assms(1,3) by (simp, metis wf_dom_def)
  then have par: "dm_parent d n = Some p" and idx: "nodeIndex d n False = length A"
    using assms(1,3) wf_child_parent nodeIndex_append [of d n p A C] by auto
  have key: "point_key path i \<le> point_key path j \<longleftrightarrow> i \<le> j" for i j by (auto simp: point_key_def le_less)
  obtain v where v: "setEndPoint d True p (length A) t = Some v" "rg_startContainer v = p" "rg_startOffset v = length A"
    using setEndPoint_spec [OF assms(1,2), of "rg_endContainer t" True t "rg_endOffset t" r path] assms(2,4,5) by (auto simp: key)
  obtain u where "setEndPoint d False p (Suc (length A)) v = Some u" "range_ok d u" "rg_startContainer u = p" "rg_startOffset u = length A"
    "rg_endContainer u = p" "rg_endOffset u = Suc (length A)"
    using setEndPoint_spec [OF assms(1,2), of p False v "length A" r path True "Suc (length A)"] assms(2) v by (auto simp: key)
  then show ?thesis using par idx v by (simp add: selectNode_def setStartBefore_def setEndAfter_def setStart_def setEnd_def)
qed

text \<open>A path stays when only nodes off the path, and its last one, get other children.\<close>

lemma node_at_change:
  assumes "node_at d r path = Some p" "\<And>k m. k < length path \<Longrightarrow> node_at d r (take k path) = Some m \<Longrightarrow> dm_children e m = dm_children d m"
  shows "node_at e r path = Some p"
  using assms
proof (induction path arbitrary: r)
  case (Cons i path)
  have "dm_children e r = dm_children d r" using Cons.prems(2) [of 0 r] by simp
  moreover obtain c where c: "nth_opt (dm_children d r) i = Some c" "node_at d c path = Some p" using Cons.prems(1) by (auto split: option.splits)
  moreover have "node_at e c path = Some p"
  proof (rule Cons.IH [OF c(2)])
    show "dm_children e m = dm_children d m" if "k < length path" "node_at d c (take k path) = Some m" for k m
      using Cons.prems(2) [of "Suc k" m] that c(1) by simp
  qed
  ultimately show ?case by simp
qed simp

text \<open>The document after a node \<open>n\<close> has come around the children from \<open>i\<close> to \<open>j\<close>.\<close>

definition surrounded :: "nat \<Rightarrow> nat \<Rightarrow> nat \<Rightarrow> nat \<Rightarrow> dom \<Rightarrow> dom" where
  "surrounded n p i j d = (let cs = dm_children d p; xs = take (j - i) (drop i cs); e = snd (alloc KFrag d)
     in e\<lparr>dm_parent := (\<lambda>c. if c \<in> set xs then Some n else if c = n then Some p else dm_parent e c),
          dm_children := (dm_children e)(p := take i cs @ n # drop j cs, n := dm_children d n @ xs)\<rparr>)"

lemma surrounded_wf:
  assumes "wf_heap d" "dm_parent d n = None" "n \<noteq> p" "n \<noteq> dm_fresh d" "i < j" "j \<le> length (dm_children d p)"
  shows "wf_dom (surrounded n p i j d)"
proof -
  define A xs C where def: "A = take i (dm_children d p)" "xs = take (j - i) (drop i (dm_children d p))" "C = drop j (dm_children d p)"
  note sl = extracted_slices [OF assms(1,5,6) def]
  have link: "c \<in> set (dm_children d m) \<longleftrightarrow> dm_parent d c = Some m" and dis: "distinct (dm_children d m)" for c m
    using assms(1) by (auto simp: wf_heap_def wf_dom_def)
  have par: "x \<in> set A \<union> set xs \<union> set C \<longleftrightarrow> dm_parent d x = Some p" for x using link [of x p] sl(1) by auto
  have kids: "dm_parent d x = Some p" if "x \<in> set A \<or> x \<in> set xs \<or> x \<in> set C" for x using par [of x] that by auto
  have kids_conv: "x \<in> set A \<or> x \<in> set xs \<or> x \<in> set C" if "dm_parent d x = Some p" for x using par [of x] that by auto
  have fr: "dm_parent d (dm_fresh d) = None" "dm_children d (dm_fresh d) = []" using assms(1) by (auto simp: wf_heap_def)
  have "dm_parent d c \<noteq> Some (dm_fresh d)" for c using link [of c "dm_fresh d"] fr(2) by simp
  moreover have "c \<notin> set (dm_children d n)" if "c \<in> set xs" for c using link [of c n] par [of c] assms(3) that by auto
  moreover have "n \<notin> set A \<union> set xs \<union> set C" using par [of n] assms(2) by simp
  ultimately show ?thesis
    unfolding wf_dom_def surrounded_def Let_def def [symmetric]
    using link dis fr assms(2-4) sl(2,5) by (auto simp: kids dest: kids_conv)
qed

lemma insert_single:
  assumes "dm_parent d n = None" "dm_kind d n \<noteq> KFrag" "dm_children d p = A @ C" "distinct (A @ C)" "n \<notin> set C"
    "\<forall>c \<in> set C. dm_parent d c = Some p"
  shows "insertBefore p n (hd_opt C) d = Some (d\<lparr>dm_parent := (dm_parent d)(n := Some p), dm_children := (dm_children d)(p := A @ n # C)\<rparr>)"
proof (cases C)
  case Nil
  then show ?thesis using assms by (simp add: insertBefore_def appendChild_def parts_def put_child_def detach_def)
next
  case (Cons r C')
  then show ?thesis using assms insert_before_append [of r A n C']
    by (auto simp: insertBefore_def parts_def put_child_def detach_def)
qed

lemma surroundContents_document:
  assumes "wf_heap d" "is_element d p" "rg_startContainer t = p" "rg_startOffset t = i" "rg_endContainer t = p" "rg_endOffset t = j"
    and "i < j" "j \<le> length (dm_children d p)" "dm_parent d n = None" "dm_kind d n \<noteq> KFrag" "n \<noteq> p" "n \<noteq> dm_fresh d"
  shows "surroundContents n t d
    = Option.bind (selectNode (surrounded n p i j d) n (collapse True t)) (\<lambda>v. Some (v, surrounded n p i j d))"
proof -
  define A xs C where def: "A = take i (dm_children d p)" "xs = take (j - i) (drop i (dm_children d p))" "C = drop j (dm_children d p)"
  note sl = extracted_slices [OF assms(1,7,8) def]
  let ?f = "dm_fresh d" and ?e = "extracted p i j d"
  let ?g = "?e\<lparr>dm_parent := (dm_parent ?e)(n := Some p), dm_children := (dm_children ?e)(p := A @ n # C)\<rparr>"
  have n: "n \<notin> set (A @ xs @ C)" using sl(6) [of n] assms(9) by auto
  have e: "dm_children ?e p = A @ C" "is_element ?e p" "dm_parent ?e n = None" "dm_kind ?e n \<noteq> KFrag"
    using sl(5) n assms(2,9,10,12) by (simp_all add: sl(7) is_element_def)
  have "nth_opt (dm_children ?e p) i = hd_opt C" using sl(3) e(1) by (simp add: hd_opt_drop [symmetric])
  moreover have "insertBefore p n (hd_opt C) ?e = Some ?g"
    using sl(2,6) n e sl(5) by (intro insert_single) (auto simp: sl(7))
  ultimately have ins: "insertNode n (collapse True t) ?e = Some ?g"
    using insertNode_element [of ?e "collapse True t" n] e(2) assms(3,4) by (simp add: collapse_def)
  have "fold (\<lambda>c. put_child n (\<lambda>cs. cs @ [c]) c) xs ?g = moved xs ?f ([] @ []) n (dm_children d n @ xs @ []) ?g"
    using n sl(2,4,5) assms(11,12) by (intro fold_put_child) (auto simp: sl(7))
  then have "appendChild n ?f ?g = moved xs ?f [] n (dm_children d n @ xs) ?g"
    using sl(5) assms(11,12) by (simp add: appendChild_def parts_def sl(7))
  also have "\<dots> = surrounded n p i j d"
    using n sl(5,6) assms(11,12) by (intro dom.equality) (auto simp: surrounded_def Let_def def [symmetric] sl(7) fun_eq_iff)
  finally show ?thesis
    using extractContents_element [OF assms(1-3,5)] assms(4,6-8) ins by (simp add: surroundContents_def Let_def)
qed

text \<open>C33. Surrounding the children of an element between two offsets with a new node: the node stands at
  their place, holds them after its own children, everything else is as before, and the
  range selects exactly the node.\<close>

theorem surroundContents_wraps:
  assumes "wf_heap d" "is_element d p" "in_tree d r path p" "rg_startContainer t = p" "rg_startOffset t = i" "rg_endContainer t = p" "rg_endOffset t = j"
    and "i < j" "j \<le> length (dm_children d p)" "dm_parent d n = None" "dm_kind d n \<noteq> KFrag" "n \<noteq> p" "n \<noteq> dm_fresh d" "n \<noteq> r"
  shows "\<exists>u e. surroundContents n t d = Some (u, e) \<and> wf_dom e
    \<and> dm_children e p = take i (dm_children d p) @ n # drop j (dm_children d p)
    \<and> dm_children e n = dm_children d n @ take (j - i) (drop i (dm_children d p))
    \<and> (\<forall>m. m \<noteq> p \<and> m \<noteq> n \<longrightarrow> dm_children e m = dm_children d m) \<and> (\<forall>m. m \<noteq> dm_fresh d \<longrightarrow> dm_kind e m = dm_kind d m)
    \<and> range_ok e u \<and> rg_startContainer u = p \<and> rg_startOffset u = i \<and> rg_endContainer u = p \<and> rg_endOffset u = Suc i"
proof -
  let ?e = "surrounded n p i j d"
  have p: "p \<noteq> dm_fresh d" and fr: "dm_children d (dm_fresh d) = []" using assms(1,8,9) by (auto simp: wf_heap_def)
  have wf: "wf_dom ?e" by (rule surrounded_wf) (use assms in auto)
  have ch: "dm_children ?e m = (if m = n then dm_children d n @ take (j - i) (drop i (dm_children d p))
      else if m = p then take i (dm_children d p) @ n # drop j (dm_children d p) else dm_children d m)" for m
    using p fr by (simp add: surrounded_def Let_def)
  have d: "wf_dom d" "dm_parent d r = None" "node_at d r path = Some p" using assms(1,3) by (auto simp: wf_heap_def in_tree_def)
  have "node_at ?e r path = Some p"
  proof (rule node_at_change [OF d(3)])
    fix k m assume k: "k < length path" "node_at d r (take k path) = Some m"
    have "m \<noteq> p" using node_at_inj [OF d(1,2) k(2), of path] d(3) k(1) by auto
    moreover have "m \<noteq> n"
      using k(2) assms(10,14) by (cases "take k path" rule: rev_cases) (auto simp: node_at_snoc dest: wf_dom_child [OF d(1)])
    ultimately show "dm_children ?e m = dm_children d m" by (simp add: ch)
  qed
  moreover have "dm_parent ?e r = None"
  proof -
    have "r \<notin> set (dm_children d p)" using d(1,2) by (simp add: wf_dom_def)
    then have "r \<notin> set (take (j - i) (drop i (dm_children d p)))" by (meson in_set_dropD in_set_takeD)
    then show ?thesis using d(2) assms(14) by (simp add: surrounded_def Let_def)
  qed
  ultimately have "in_tree ?e r path p" by (simp add: in_tree_def)
  from selectNode_ok [OF wf this, of "take i (dm_children d p)" n "drop j (dm_children d p)" "collapse True t"]
  obtain u where "selectNode ?e n (collapse True t) = Some u" "range_ok ?e u" "rg_startContainer u = p" "rg_startOffset u = i"
    "rg_endContainer u = p" "rg_endOffset u = Suc i"
    using assms(4,5,8,9,12) ch [of p] by (auto simp: collapse_def)
  moreover have "\<forall>m. m \<noteq> dm_fresh d \<longrightarrow> dm_kind ?e m = dm_kind d m" by (simp add: surrounded_def Let_def)
  ultimately show ?thesis using surroundContents_document [of d p t i j n] assms wf ch by (intro exI [of _ u] exI [of _ ?e]) auto
qed

theorem surroundContents_wraps_witness:
  "\<exists>u e. surroundContents 8 sample_range sample_dom = Some (u, e) \<and> dm_children e 0 = [1, 8] \<and> dm_children e 8 = [5, 7] \<and> rg_endOffset u = 2"
proof -
  have "dm_parent sample_dom 8 = None" "dm_kind sample_dom 8 \<noteq> KFrag" "dm_fresh sample_dom \<noteq> 8" "dm_children sample_dom 8 = []"
    "in_tree sample_dom 0 [] 0" by (simp_all add: sample_dom_def mk_dom_def in_tree_def)
  then show ?thesis
    using surroundContents_wraps [OF wf_heap_sample sample_range_body(1), of 0 "[]" sample_range 1 3 8]
    by (auto simp: sample_range_def sample_range_body)
qed

section \<open>Text\<close>

text \<open>Deleting a part of one text node. Usually exactly the selected units go. But when the
  selection starts at 0 and leaves at most one unit, the whole node is taken out of its parent: with \<open>j = length v - 1\<close>
  the last unit, which is not selected, is lost with it, and the range stays in the node that is no longer in the document.\<close>

lemma deleteContents_text:
  assumes "dm_kind d n = KText v" "dm_parent d n = Some p" "rg_startContainer t = n" "rg_endContainer t = n"
    and "rg_startOffset t < rg_endOffset t" "rg_endOffset t \<le> length v" "length v < 2 ^ 32"
  shows "\<exists>e. deleteContents t d = Some (collapse True t, e)
    \<and> (if rg_startOffset t = 0 \<and> rg_endOffset t \<ge> length v - 1
       then dm_kind e = dm_kind d \<and> dm_parent e n = None \<and> dm_children e p = remove1 n (dm_children d p)
       else dm_kind e = (dm_kind d)(n := KText (take (rg_startOffset t) v @ drop (rg_endOffset t) v))
         \<and> dm_parent e = dm_parent d \<and> dm_children e = dm_children d)"
proof -
  have "deleteContents t d = map_option (\<lambda>e. (collapse True t, e)) (cut_text n v t d)"
    using assms by (auto simp: deleteContents_def traverse_def traverseSameContainer_def new_frag_def traverse_text_def
        split: option.splits bind_splits)
  moreover have "nat ((int (rg_endOffset t) - int (rg_startOffset t)) mod 2 ^ 32) = rg_endOffset t - rg_startOffset t"
    using assms(5-7) by (subst mod_pos_pos_trivial) simp_all
  then have "cut_text n v t d = (if rg_startOffset t = 0 \<and> rg_endOffset t \<ge> length v - 1 then Some (detach n d)
      else Some (setNodeValue n (take (rg_startOffset t) v @ drop (rg_endOffset t) v) d))"
    using assms by (auto simp: cut_text_def Let_def removeChild_def deleteData_def nodeValue_def)
  ultimately show ?thesis using assms(1,2) by (auto simp: detach_def setNodeValue_def)
qed


end
