(* ===== verification/RangeClone.thy ===== *)
theory RangeClone
  imports RangeContents
begin

text \<open>
  \<open>cloneContents\<close> of \<open>classes/dom/Range.js\<close> only builds new nodes: whatever the range, the nodes that exist before
  the call keep their values, parents and children. All the functions of the traversal keep one frame
  condition on the document, the loops by induction on their runs.
\<close>

section \<open>The frame\<close>

text \<open>The nodes below \<open>k\<close> are those of \<open>d\<close>, and the nodes from \<open>k\<close> on are linked only to each other.\<close>

definition node_framed :: "nat \<Rightarrow> dom \<Rightarrow> nat \<Rightarrow> nkind \<Rightarrow> nat option \<Rightarrow> nat list \<Rightarrow> bool" where
  "node_framed k d n kind parent kids \<longleftrightarrow>
     (if n < k then kind = dm_kind d n \<and> parent = dm_parent d n \<and> kids = dm_children d n
      else pred_option ((\<le>) k) parent \<and> set kids \<subseteq> {k..})"

definition framed :: "nat \<Rightarrow> dom \<Rightarrow> dom \<Rightarrow> bool" where
  "framed k d e \<longleftrightarrow> k \<le> dm_fresh e \<and> (\<forall>n. node_framed k d n (dm_kind e n) (dm_parent e n) (dm_children e n))"

named_theorems frame

lemma framed_fresh: "framed k d e \<Longrightarrow> k \<le> dm_fresh e"
  by (simp add: framed_def)

lemma framed_node_at: "framed k d e \<Longrightarrow> node_framed k d n (dm_kind e n) (dm_parent e n) (dm_children e n)"
  by (simp add: framed_def)

lemma framed_new:
  assumes "framed k d e" "k \<le> n"
  shows "pred_option ((\<le>) k) (dm_parent e n)" "set (dm_children e n) \<subseteq> {k..}"
  using framed_node_at [OF assms(1), of n] assms(2) by (simp_all add: node_framed_def)

text \<open>Changes of new nodes that link only new nodes.\<close>

lemma framed_update:
  assumes "framed k d e" "k \<le> dm_fresh e'"
    and "\<And>n. n < k \<Longrightarrow> dm_kind e' n = dm_kind e n \<and> dm_parent e' n = dm_parent e n \<and> dm_children e' n = dm_children e n"
    and "\<And>n. k \<le> n \<Longrightarrow> pred_option ((\<le>) k) (dm_parent e' n) \<and> set (dm_children e' n) \<subseteq> {k..}"
  shows "framed k d e'"
  unfolding framed_def
proof (intro conjI allI)
  show "node_framed k d n (dm_kind e' n) (dm_parent e' n) (dm_children e' n)" for n
    using framed_node_at [OF assms(1), of n] assms(3,4) [of n] by (cases "n < k") (simp_all add: node_framed_def)
qed (rule assms(2))

lemma framed_detach: "framed k d e \<Longrightarrow> k \<le> n \<Longrightarrow> framed k d (detach n e)"
proof -
  assume a: "framed k d e" "k \<le> n"
  show ?thesis
  proof (cases "dm_parent e n")
    case (Some p)
    then have "k \<le> p" using framed_new(1) [OF a] by simp
    then show ?thesis using a(2) framed_new [OF a(1)] set_remove1_subset [of n "dm_children e p"]
      by (intro framed_update [OF a(1)]) (auto simp: detach_def Some framed_fresh [OF a(1)])
  qed (use a in \<open>simp add: detach_def\<close>)
qed

lemma framed_put_child [frame]:
  assumes "framed k d e" "k \<le> p" "k \<le> n" "\<And>xs. set (g xs) \<subseteq> insert n (set xs)"
  shows "framed k d (put_child p g n e)"
proof -
  note e = framed_detach [OF assms(1,3)]
  have "set (g (dm_children (detach n e) p)) \<subseteq> {k..}" using assms(3,4) framed_new(2) [OF e assms(2)] by blast
  then show ?thesis using assms(2,3) framed_new [OF e]
    by (intro framed_update [OF e]) (auto simp: put_child_def Let_def framed_fresh [OF e])
qed

lemma framed_fold:
  assumes "framed k d e" "\<And>x e. x \<in> set xs \<Longrightarrow> framed k d e \<Longrightarrow> framed k d (h x e)"
  shows "framed k d (fold h xs e)"
  using assms by (induction xs arbitrary: e) simp_all

lemma framed_parts: "framed k d e \<Longrightarrow> k \<le> n \<Longrightarrow> x \<in> set (parts e n) \<Longrightarrow> k \<le> x"
  using framed_new(2) [of k d e n] by (auto simp: parts_def split: if_splits)

lemma set_insert_before: "set (insert_before x r xs) \<subseteq> insert x (set xs)"
  by (induction xs) auto

lemma framed_append [frame]: "framed k d e \<Longrightarrow> k \<le> p \<Longrightarrow> k \<le> n \<Longrightarrow> framed k d (appendChild p n e)"
  unfolding appendChild_def by (rule framed_fold) (auto intro!: framed_put_child dest: framed_parts)

lemma framed_insert: "insertBefore p n r e = Some e' \<Longrightarrow> framed k d e \<Longrightarrow> k \<le> p \<Longrightarrow> k \<le> n \<Longrightarrow> framed k d e'"
  unfolding insertBefore_def
  by (auto split: option.splits if_splits intro!: framed_append framed_fold framed_put_child set_insert_before dest: framed_parts)

lemma framed_alloc [frame]: "framed k d e \<Longrightarrow> framed k d (snd (alloc K e))"
  by (rule framed_update, assumption) (auto simp: alloc_def dest: framed_fresh framed_new)

lemma framed_value [frame]: "framed k d e \<Longrightarrow> k \<le> n \<Longrightarrow> framed k d (setNodeValue n v e)"
  by (rule framed_update, assumption) (auto simp: setNodeValue_def split: nkind.splits dest: framed_fresh framed_new)

section \<open>Cloning\<close>

lemma framed_clone_deep:
  "clone_deep j n e = Some (m, e') \<Longrightarrow> framed k d e \<Longrightarrow> framed k d e' \<and> k \<le> m"
  "clone_children j m cs e = Some e' \<Longrightarrow> framed k d e \<Longrightarrow> k \<le> m \<Longrightarrow> framed k d e'"
proof (induction j n e and j m cs e arbitrary: m e' and e' rule: clone_deep_clone_children.induct)
  case (2 j n e)
  then show ?case using framed_alloc [of k d e "dm_kind e n"] framed_fresh [of k d e] by (auto simp: alloc_def)
next
  case (4 j m c cs e)
  obtain c' f where c: "clone_deep j c e = Some (c', f)" "clone_children j m cs (appendChild m c' f) = Some e'"
    using 4(3) by (auto split: option.splits)
  then have "framed k d f \<and> k \<le> c'" using 4(1,4) by blast
  then show ?case using 4(2) [OF c(1) refl c(2)] 4(5) by (simp add: framed_append)
qed simp_all

lemma framed_clone: "clone n deep e = Some (m, e') \<Longrightarrow> framed k d e \<Longrightarrow> framed k d e' \<and> k \<le> m"
  using framed_clone_deep(1) framed_alloc [of k d e "dm_kind e n"] framed_fresh [of k d e]
  by (auto simp: clone_def alloc_def split: if_splits)

text \<open>What a part of the traversal returns: a new node, in a framed document.\<close>

definition new_node :: "nat \<Rightarrow> nat option \<Rightarrow> bool" where
  "new_node k m \<longleftrightarrow> (\<exists>x \<ge> k. m = Some x)"

lemma framed_fully: "traverseFullySelected n CLONE e = Some (m, e') \<Longrightarrow> framed k d e \<Longrightarrow> framed k d e' \<and> new_node k m"
  by (auto simp: traverseFullySelected_def new_node_def dest!: framed_clone)

lemma framed_node: "traverseNode t n full left CLONE e = Some (m, e') \<Longrightarrow> framed k d e \<Longrightarrow> framed k d e' \<and> new_node k m"
  by (auto simp: traverseNode_def Let_def new_node_def split: if_splits nkind.splits bind_splits
      dest!: framed_fully [unfolded new_node_def] framed_clone intro: frame)

lemma framed_add:
  "add_last p n e = Some e' \<Longrightarrow> framed k d e \<Longrightarrow> new_node k p \<Longrightarrow> new_node k n \<Longrightarrow> framed k d e'"
  "add_first p n e = Some e' \<Longrightarrow> framed k d e \<Longrightarrow> new_node k p \<Longrightarrow> new_node k n \<Longrightarrow> framed k d e'"
  by (auto simp: new_node_def add_last_def add_first_def intro: frame framed_insert)

section \<open>The loops\<close>

lemma framed_right_inner:
  assumes run: "right_inner t hw cp nxt full e = Some y"
  shows "hw = CLONE \<longrightarrow> framed k d e \<longrightarrow> new_node k cp \<longrightarrow> framed k d (snd y)"
proof (rule right_inner.raw_induct [OF _ run, where P = "\<lambda>t hw cp nxt full e y.
      hw = CLONE \<longrightarrow> framed k d e \<longrightarrow> new_node k cp \<longrightarrow> framed k d (snd y)"], goal_cases)
  case (1 f t hw cp nxt full e y)
  show ?case
  proof (intro impI, cases nxt)
    fix n assume a: "hw = CLONE" "framed k d e" "new_node k cp" "nxt = Some n"
    then obtain m e1 e2 where st: "traverseNode t n full False CLONE e = Some (m, e1)" "add_first cp m e1 = Some e2"
      "f t CLONE cp (previousSibling e n) True e2 = Some y" using 1(2) by (auto split: bind_splits)
    show "framed k d (snd y)" using 1(1) [OF st(3)] framed_add(2) [OF st(2)] framed_node [OF st(1) a(2)] a(3) by blast
  qed (use 1(2) in auto)
qed

lemma framed_left_inner:
  assumes run: "left_inner t hw cp nxt full e = Some y"
  shows "hw = CLONE \<longrightarrow> framed k d e \<longrightarrow> new_node k cp \<longrightarrow> framed k d (snd y)"
proof (rule left_inner.raw_induct [OF _ run, where P = "\<lambda>t hw cp nxt full e y.
      hw = CLONE \<longrightarrow> framed k d e \<longrightarrow> new_node k cp \<longrightarrow> framed k d (snd y)"], goal_cases)
  case (1 f t hw cp nxt full e y)
  show ?case
  proof (intro impI, cases nxt)
    fix n assume a: "hw = CLONE" "framed k d e" "new_node k cp" "nxt = Some n"
    then obtain m e1 e2 where st: "traverseNode t n full True CLONE e = Some (m, e1)" "add_last cp m e1 = Some e2"
      "f t CLONE cp (nextSibling e n) True e2 = Some y" using 1(2) by (auto split: bind_splits)
    show "framed k d (snd y)" using 1(1) [OF st(3)] framed_add(1) [OF st(2)] framed_node [OF st(1) a(2)] a(3) by blast
  qed (use 1(2) in auto)
qed

lemma framed_right_outer:
  assumes run: "right_outer t root hw parent cp nxt full e = Some y"
  shows "hw = CLONE \<longrightarrow> framed k d e \<longrightarrow> new_node k cp \<longrightarrow> framed k d (snd y) \<and> new_node k (fst y)"
proof (rule right_outer.raw_induct [OF _ run, where P = "\<lambda>t root hw parent cp nxt full e y.
      hw = CLONE \<longrightarrow> framed k d e \<longrightarrow> new_node k cp \<longrightarrow> framed k d (snd y) \<and> new_node k (fst y)"], goal_cases)
  case (1 f t root hw parent cp nxt full e y)
  show ?case
  proof (intro impI)
    assume a: "hw = CLONE" "framed k d e" "new_node k cp"
    obtain b e1 where st: "right_inner t CLONE cp nxt full e = Some (b, e1)" using 1(2) a(1) by (auto split: bind_splits)
    have e1: "framed k d e1" using framed_right_inner [OF st] a by simp
    show "framed k d (snd y) \<and> new_node k (fst y)"
    proof (cases "parent = root")
      case False
      then obtain g m e2 e3 where up: "traverseNode t g False False CLONE e1 = Some (m, e2)" "add_last m cp e2 = Some e3"
        "f t root CLONE g m (previousSibling e1 parent) b e3 = Some y" using 1(2) a(1) st by (auto split: bind_splits)
      show ?thesis using 1(1) [OF up(3)] framed_add(1) [OF up(2)] framed_node [OF up(1) e1] a(3) by blast
    qed (use 1(2) a st e1 in auto)
  qed
qed

lemma framed_left_outer:
  assumes run: "left_outer t root hw parent cp nxt full e = Some y"
  shows "hw = CLONE \<longrightarrow> framed k d e \<longrightarrow> new_node k cp \<longrightarrow> framed k d (snd y) \<and> new_node k (fst y)"
proof (rule left_outer.raw_induct [OF _ run, where P = "\<lambda>t root hw parent cp nxt full e y.
      hw = CLONE \<longrightarrow> framed k d e \<longrightarrow> new_node k cp \<longrightarrow> framed k d (snd y) \<and> new_node k (fst y)"], goal_cases)
  case (1 f t root hw parent cp nxt full e y)
  show ?case
  proof (intro impI)
    assume a: "hw = CLONE" "framed k d e" "new_node k cp"
    obtain b e1 where st: "left_inner t CLONE cp nxt full e = Some (b, e1)" using 1(2) a(1) by (auto split: bind_splits)
    have e1: "framed k d e1" using framed_left_inner [OF st] a by simp
    show "framed k d (snd y) \<and> new_node k (fst y)"
    proof (cases "parent = root")
      case False
      then obtain g m e2 e3 where up: "traverseNode t g False True CLONE e1 = Some (m, e2)" "add_last m cp e2 = Some e3"
        "f t root CLONE g m (nextSibling e1 parent) b e3 = Some y" using 1(2) a(1) st by (auto split: bind_splits)
      show ?thesis using 1(1) [OF up(3)] framed_add(1) [OF up(2)] framed_node [OF up(1) e1] a(3) by blast
    qed (use 1(2) a st e1 in auto)
  qed
qed

lemma framed_right:
  assumes "traverseRightBoundary t root CLONE e = Some (m, e')" "framed k d e"
  shows "framed k d e' \<and> new_node k m"
  using assms framed_right_outer [of t root CLONE _ _ _ _ _ "(m, e')" k d] framed_node [of t _ _ False e]
  by (fastforce simp: traverseRightBoundary_def Let_def split: if_splits bind_splits)

lemma framed_left:
  assumes "traverseLeftBoundary t root CLONE e = Some (m, e')" "framed k d e"
  shows "framed k d e' \<and> new_node k m"
  using assms framed_left_outer [of t root CLONE _ _ _ _ _ "(m, e')" k d] framed_node [of t _ _ True e]
  by (fastforce simp: traverseLeftBoundary_def Let_def split: if_splits bind_splits)

lemma framed_take_next:
  "take_next strict CLONE frag cnt n e = Some e' \<Longrightarrow> framed k d e \<Longrightarrow> new_node k frag \<Longrightarrow> framed k d e'"
proof (induction cnt arbitrary: n e)
  case (Suc cnt)
  show ?case
  proof (cases n)
    case (Some x)
    then obtain m e1 e2 where "traverseFullySelected x CLONE e = Some (m, e1)" "add_last frag m e1 = Some e2"
      "take_next strict CLONE frag cnt (nextSibling e x) e2 = Some e'" using Suc.prems(1) by (auto split: bind_splits)
    then show ?thesis using Suc.IH framed_fully framed_add(1) Suc.prems(2,3) by blast
  qed (use Suc.prems in \<open>auto split: if_splits\<close>)
qed simp

lemma framed_take_prev:
  "take_prev CLONE frag cnt n e = Some e' \<Longrightarrow> framed k d e \<Longrightarrow> new_node k frag \<Longrightarrow> framed k d e'"
proof (induction cnt arbitrary: n e)
  case (Suc cnt)
  show ?case
  proof (cases n)
    case (Some x)
    then obtain m e1 e2 where "traverseFullySelected x CLONE e = Some (m, e1)" "add_first frag m e1 = Some e2"
      "take_prev CLONE frag cnt (previousSibling e x) e2 = Some e'" using Suc.prems(1) by (auto split: bind_splits)
    then show ?thesis using Suc.IH framed_fully framed_add(2) Suc.prems(2,3) by blast
  qed (use Suc.prems in auto)
qed simp

section \<open>The traversal\<close>

lemma framed_new_frag: "new_frag CLONE e = (frag, e') \<Longrightarrow> framed k d e \<Longrightarrow> framed k d e' \<and> new_node k frag"
  using framed_alloc [of k d e KFrag] framed_fresh [of k d e] by (auto simp: new_frag_def alloc_def new_node_def)

lemma framed_same:
  assumes "traverseSameContainer CLONE t e = Some (f, u, e')" "framed k d e"
  shows "framed k d e' \<and> new_node k f \<and> u = t"
proof -
  obtain frag e1 where fr: "new_frag CLONE e = (frag, e1)" by fastforce
  have e1: "framed k d e1" "new_node k frag" using framed_new_frag [OF fr assms(2)] by auto
  have in_text: "framed k d e' \<and> f = frag \<and> u = t" if "traverse_text n v CLONE t frag e1 = Some (f, u, e')" for n v
    using that e1 framed_alloc [OF e1(1)] framed_fresh [OF e1(1)]
    by (auto simp: traverse_text_def Let_def new_node_def alloc_def split: if_splits bind_splits intro!: framed_append)
  show ?thesis using assms(1) fr e1 in_text framed_take_next [of False frag _ _ e1 _ k d]
    by (auto simp: traverseSameContainer_def Let_def split: if_splits nkind.splits bind_splits)
qed

lemma framed_common_start:
  assumes "traverseCommonStartContainer c CLONE t e = Some (f, u, e')" "framed k d e"
  shows "framed k d e' \<and> new_node k f \<and> u = t"
proof -
  obtain frag e1 where fr: "new_frag CLONE e = (frag, e1)" by fastforce
  have e1: "framed k d e1" "new_node k frag" using framed_new_frag [OF fr assms(2)] by auto
  obtain n e2 e3 cnt x where st: "traverseRightBoundary t c CLONE e1 = Some (n, e2)" "add_last frag n e2 = Some e3"
    "take_prev CLONE frag cnt x e3 = Some e'" "f = frag" "u = t"
    using assms(1) fr by (clarsimp simp: traverseCommonStartContainer_def bind_eq_Some_conv)
  show ?thesis using framed_take_prev [OF st(3)] framed_add(1) [OF st(2)] framed_right [OF st(1) e1(1)] e1(2) st(4,5) by blast
qed

lemma framed_common_end:
  assumes "traverseCommonEndContainer c CLONE t e = Some (f, u, e')" "framed k d e"
  shows "framed k d e' \<and> new_node k f \<and> u = t"
proof -
  obtain frag e1 where fr: "new_frag CLONE e = (frag, e1)" by fastforce
  have e1: "framed k d e1" "new_node k frag" using framed_new_frag [OF fr assms(2)] by auto
  obtain n e2 e3 cnt x where st: "traverseLeftBoundary t c CLONE e1 = Some (n, e2)" "add_last frag n e2 = Some e3"
    "take_next False CLONE frag cnt x e3 = Some e'" "f = frag" "u = t"
    using assms(1) fr by (clarsimp simp: traverseCommonEndContainer_def bind_eq_Some_conv)
  show ?thesis using framed_take_next [OF st(3)] framed_add(1) [OF st(2)] framed_left [OF st(1) e1(1)] e1(2) st(4,5) by blast
qed

lemma framed_common_ancestors:
  assumes "traverseCommonAncestors a b CLONE t e = Some (f, u, e')" "framed k d e"
  shows "framed k d e' \<and> new_node k f \<and> u = t"
proof -
  obtain frag e1 where fr: "new_frag CLONE e = (frag, e1)" by fastforce
  have e1: "framed k d e1" "new_node k frag" using framed_new_frag [OF fr assms(2)] by auto
  obtain n e2 e3 cnt x e4 m e5 where st: "traverseLeftBoundary t a CLONE e1 = Some (n, e2)" "add_last frag n e2 = Some e3"
    "take_next True CLONE frag cnt x e3 = Some e4" "traverseRightBoundary t b CLONE e4 = Some (m, e5)" "add_last frag m e5 = Some e'"
    "f = frag" "u = t"
    using assms(1) fr by (clarsimp simp: traverseCommonAncestors_def bind_eq_Some_conv)
  have "framed k d e4" using framed_take_next [OF st(3)] framed_add(1) [OF st(2)] framed_left [OF st(1) e1(1)] e1(2) by blast
  then show ?thesis using framed_add(1) [OF st(5)] framed_right [OF st(4)] e1(2) st(6,7) by blast
qed

lemma framed_traverse: "traverse CLONE t e = Some (f, u, e') \<Longrightarrow> framed k d e \<Longrightarrow> framed k d e' \<and> new_node k f \<and> u = t"
  unfolding traverse_def
  by (auto split: if_splits bind_splits sum.splits dest: framed_same framed_common_start framed_common_end framed_common_ancestors)

text \<open>C25. Cloning the contents of a range, whatever its boundary points, never changes the document: every node that
  existed keeps its value, its parent and its children, the range itself stays, and the fragment that is
  returned is a new node, with only new nodes below it.\<close>

theorem cloneContents_keeps_document:
  assumes "cloneContents t d = Some (f, u, e)"
    and "\<And>n. dm_fresh d \<le> n \<Longrightarrow> dm_parent d n = None \<and> dm_children d n = []"
  shows "u = t \<and> dm_fresh d \<le> f \<and> (\<forall>n. if n < dm_fresh d
      then dm_kind e n = dm_kind d n \<and> dm_parent e n = dm_parent d n \<and> dm_children e n = dm_children d n
      else (\<forall>c \<in> set (dm_children e n). dm_fresh d \<le> c))"
proof -
  have "framed (dm_fresh d) d d" using assms(2) by (auto simp: framed_def node_framed_def)
  moreover obtain m where "traverse CLONE t d = Some (m, u, e)" "m = Some f"
    using assms(1) by (auto simp: cloneContents_def split: bind_splits)
  ultimately have "framed (dm_fresh d) d e" "new_node (dm_fresh d) (Some f)" "u = t" using framed_traverse by blast+
  then show ?thesis by (auto simp: new_node_def node_framed_def framed_def subset_iff split: if_splits)
qed

theorem cloneContents_keeps_document_witness:
  "\<exists>f e. cloneContents (sample_range\<lparr>rg_startContainer := 4, rg_endContainer := 6, rg_endOffset := 2\<rparr>) sample_dom
      = Some (f, sample_range\<lparr>rg_startContainer := 4, rg_endContainer := 6, rg_endOffset := 2\<rparr>, e) \<and> dm_children e 3 = [4]"
proof -
  have "cloneContents (sample_range\<lparr>rg_startContainer := 4, rg_endContainer := 6, rg_endOffset := 2\<rparr>) sample_dom \<noteq> None" by code_simp
  then obtain f u e where r: "cloneContents (sample_range\<lparr>rg_startContainer := 4, rg_endContainer := 6, rg_endOffset := 2\<rparr>) sample_dom = Some (f, u, e)"
    by auto
  have fr: "dm_fresh sample_dom = 50" "dm_children sample_dom 3 = [4]" by (simp_all add: sample_dom_def mk_dom_def)
  have "dm_parent sample_dom n = None \<and> dm_children sample_dom n = []" if "dm_fresh sample_dom \<le> n" for n
    using that by (auto simp: sample_dom_def mk_dom_def)
  from cloneContents_keeps_document [OF r this] have "u = sample_range\<lparr>rg_startContainer := 4, rg_endContainer := 6, rg_endOffset := 2\<rparr>"
    "dm_children e 3 = [4]" using fr by (auto dest: spec [of _ 3])
  then show ?thesis using r by blast
qed

end
