(* ===== verification/ScriptLoader.thy ===== *)
theory ScriptLoader
  imports JsBase "HOL-Library.Multiset"
begin

text \<open>
  \<open>classes/dom/ScriptLoader.js\<close>: a queue of scripts, their states, and callbacks for single scripts and for the whole queue.
  The code is re-entrant, a callback may call the loader again, so the calls that are still to be
  made are an explicit stack of tasks, one for each piece of code that runs after a call of a
  callback. Callbacks are code of the page: a function \<open>call\<close> gives the operations a callback
  performs and its own effects, from the state of the loader and of the page. A task without a result has
  thrown an exception, which unwinds the stack.
\<close>

section \<open>State\<close>

datatype script_state = QUEUED | LOADING | LOADED

text \<open>\<open>sl_arrays 0\<close> is the queue, the other arrays are those of the callers of \<open>loadScripts\<close>. \<open>sl_elements\<close> are the script elements in the
  document, with the array whose closure waits for them. The last three fields record what can be observed.\<close>

record 'c loader =
  sl_states :: "string \<Rightarrow> script_state option"
  sl_arrays :: "nat \<Rightarrow> string list"
  sl_scriptLoadedCallbacks :: "string \<Rightarrow> 'c list option"
  sl_queueLoadedCallbacks :: "'c option list"
  sl_loading :: nat
  sl_elements :: "(string \<times> nat) list"
  sl_requested :: "string list"
  sl_ran :: "'c list"
  sl_errors :: nat

text \<open>What a callback, or the page, can do with the loader.\<close>

datatype 'c op =
    Add string "'c option"
  | MarkDone string
  | LoadScripts nat "'c option"
  | Push nat string
  | Invoke 'c
  | Throw

datatype 'c task =
    TOp "'c op"
  | TCall "'c option"
  | TLoad nat
  | TUrl nat string
  | TForget string
  | TCheck
  | TQueue nat nat
  | TClear

definition new_ScriptLoader :: "'c loader" where
  "new_ScriptLoader = \<lparr>sl_states = Map.empty, sl_arrays = (\<lambda>_. []), sl_scriptLoadedCallbacks = Map.empty, sl_queueLoadedCallbacks = [],
     sl_loading = 0, sl_elements = [], sl_requested = [], sl_ran = [], sl_errors = 0\<rparr>"

section \<open>Operations\<close>

definition loadScript :: "string \<Rightarrow> nat \<Rightarrow> ('c, 'z) loader_scheme \<Rightarrow> ('c, 'z) loader_scheme" where
  "loadScript url arr s = s\<lparr>sl_elements := sl_elements s @ [(url, arr)], sl_requested := sl_requested s @ [url]\<rparr>"

definition isDone :: "string \<Rightarrow> ('c, 'z) loader_scheme \<Rightarrow> bool" where
  "isDone url s \<longleftrightarrow> sl_states s url = Some LOADED"

definition markDone :: "string \<Rightarrow> ('c, 'z) loader_scheme \<Rightarrow> ('c, 'z) loader_scheme" where
  "markDone url s = s\<lparr>sl_states := (sl_states s)(url \<mapsto> LOADED)\<rparr>"

definition callbacks_of :: "string \<Rightarrow> ('c, 'z) loader_scheme \<Rightarrow> 'c list" where
  "callbacks_of url s = (case sl_scriptLoadedCallbacks s url of None \<Rightarrow> [] | Some cs \<Rightarrow> cs)"

definition sl_add :: "string \<Rightarrow> 'c option \<Rightarrow> ('c, 'z) loader_scheme \<Rightarrow> ('c, 'z) loader_scheme" where
  "sl_add url callback s0 =
     (let s = (if sl_states s0 url = None
               then s0\<lparr>sl_arrays := (sl_arrays s0)(0 := sl_arrays s0 0 @ [url]), sl_states := (sl_states s0)(url \<mapsto> QUEUED)\<rparr> else s0)
      in case callback of None \<Rightarrow> s
         | Some c \<Rightarrow> s\<lparr>sl_scriptLoadedCallbacks := (sl_scriptLoadedCallbacks s)(url \<mapsto> callbacks_of url s @ [c])\<rparr>)"

text \<open>\<open>loadScripts(scripts, callback)\<close> stores the callback and runs the inner function \<open>loadScripts\<close>.\<close>

definition sl_loadScripts :: "nat \<Rightarrow> 'c option \<Rightarrow> ('c, 'z) loader_scheme \<Rightarrow> 'c task list \<times> ('c, 'z) loader_scheme" where
  "sl_loadScripts arr callback s = ([TLoad arr], s\<lparr>sl_queueLoadedCallbacks := sl_queueLoadedCallbacks s @ [callback]\<rparr>)"

definition loadQueue :: "'c option \<Rightarrow> ('c, 'z) loader_scheme \<Rightarrow> 'c task list \<times> ('c, 'z) loader_scheme" where
  "loadQueue callback = sl_loadScripts 0 callback"

definition execScriptLoadedCallbacks :: "string \<Rightarrow> ('c, 'z) loader_scheme \<Rightarrow> 'c task list" where
  "execScriptLoadedCallbacks url s = map (TCall \<circ> Some) (callbacks_of url s) @ [TForget url]"

text \<open>The inner function \<open>loadScripts\<close>, the body of its loop, and its end.\<close>

definition load_all :: "nat \<Rightarrow> ('c, 'z) loader_scheme \<Rightarrow> 'c task list \<times> ('c, 'z) loader_scheme" where
  "load_all arr s = (map (TUrl arr) (sl_arrays s arr) @ [TCheck], s\<lparr>sl_arrays := (sl_arrays s)(arr := [])\<rparr>)"

definition load_url :: "nat \<Rightarrow> string \<Rightarrow> ('c, 'z) loader_scheme \<Rightarrow> 'c task list \<times> ('c, 'z) loader_scheme" where
  "load_url arr url s =
     (if sl_states s url = Some LOADED then (execScriptLoadedCallbacks url s, s)
      else if sl_states s url \<noteq> Some LOADING
      then ([], loadScript url arr (s\<lparr>sl_states := (sl_states s)(url \<mapsto> LOADING), sl_loading := sl_loading s + 1\<rparr>))
      else ([], s))"

definition check_done :: "('c, 'z) loader_scheme \<Rightarrow> 'c task list" where
  "check_done s = (if sl_loading s = 0 then [TQueue 0 (length (sl_queueLoadedCallbacks s)), TClear] else [])"

text \<open>The function given to \<open>loadScript\<close>, which runs when the script element has loaded; the element is removed first.\<close>

definition script_loaded :: "string \<Rightarrow> nat \<Rightarrow> ('c, 'z) loader_scheme \<Rightarrow> 'c task list \<times> ('c, 'z) loader_scheme" where
  "script_loaded url arr s =
     (let t = s\<lparr>sl_elements := remove1 (url, arr) (sl_elements s), sl_states := (sl_states s)(url \<mapsto> LOADED), sl_loading := sl_loading s - 1\<rparr>
      in (execScriptLoadedCallbacks url t @ [TLoad arr], t))"

section \<open>Running\<close>

type_synonym ('c, 'z) callee = "'c \<Rightarrow> ('c, 'z) loader_scheme \<Rightarrow> 'c op list \<times> 'z"

definition do_call :: "('c, 'z) callee \<Rightarrow> 'c \<Rightarrow> ('c, 'z) loader_scheme \<Rightarrow> 'c task list \<times> ('c, 'z) loader_scheme" where
  "do_call call c s0 = (let s = s0\<lparr>sl_ran := sl_ran s0 @ [c]\<rparr>; (ops, z) = call c s in (map TOp ops, loader.more_update (\<lambda>_. z) s))"

fun do_op :: "'c op \<Rightarrow> ('c, 'z) loader_scheme \<Rightarrow> ('c task list \<times> ('c, 'z) loader_scheme) option" where
  "do_op (Add url callback) s = Some ([], sl_add url callback s)"
| "do_op (MarkDone url) s = Some ([], markDone url s)"
| "do_op (LoadScripts arr callback) s = Some (if arr = 0 then loadQueue callback s else sl_loadScripts arr callback s)"
| "do_op (Push arr url) s = Some ([], if arr = 0 then s else s\<lparr>sl_arrays := (sl_arrays s)(arr := sl_arrays s arr @ [url])\<rparr>)"
| "do_op (Invoke c) s = Some ([TCall (Some c)], s)"
| "do_op Throw s = None"

fun do_task :: "('c, 'z) callee \<Rightarrow> 'c task \<Rightarrow> ('c, 'z) loader_scheme \<Rightarrow> ('c task list \<times> ('c, 'z) loader_scheme) option" where
  "do_task call (TOp p) s = do_op p s"
| "do_task call (TCall None) s = None"
| "do_task call (TCall (Some c)) s = Some (do_call call c s)"
| "do_task call (TLoad arr) s = Some (load_all arr s)"
| "do_task call (TUrl arr url) s = Some (load_url arr url s)"
| "do_task call (TForget url) s = Some ([], s\<lparr>sl_scriptLoadedCallbacks := (sl_scriptLoadedCallbacks s)(url := None)\<rparr>)"
| "do_task call TCheck s = Some (check_done s, s)"
| "do_task call (TQueue n l) s =
     (if n < l
      then (case nth_opt (sl_queueLoadedCallbacks s) n of None \<Rightarrow> None | Some cb \<Rightarrow> Some ([TCall cb, TQueue (Suc n) l], s))
      else Some ([], s))"
| "do_task call TClear s = Some ([], s\<lparr>sl_queueLoadedCallbacks := []\<rparr>)"

definition run_task :: "('c, 'z) callee \<Rightarrow> 'c task \<Rightarrow> 'c task list \<times> ('c, 'z) loader_scheme \<Rightarrow> 'c task list \<times> ('c, 'z) loader_scheme" where
  "run_task call t = (\<lambda>(ts, s). case do_task call t s of
       Some (us, s') \<Rightarrow> (us @ ts, s')
     | None \<Rightarrow> ([], s\<lparr>sl_errors := sl_errors s + 1\<rparr>))"

text \<open>Until the stack is empty; None when the calls never return.\<close>

partial_function (option) settle :: "('c, 'z) callee \<Rightarrow> 'c task list \<times> ('c, 'z) loader_scheme \<Rightarrow> ('c, 'z) loader_scheme option" where
  "settle call cfg = (case fst cfg of [] \<Rightarrow> Some (snd cfg) | t # ts \<Rightarrow> settle call (run_task call t (ts, snd cfg)))"

declare settle.simps [code]

text \<open>Everything that can happen: a step of the running code or, when no code runs, the page uses the loader, a
  script element has loaded, or one has failed, which only logs a message.\<close>

inductive sl_step :: "('c, 'z) callee \<Rightarrow> 'c task list \<times> ('c, 'z) loader_scheme \<Rightarrow> 'c task list \<times> ('c, 'z) loader_scheme \<Rightarrow> bool"
  for call where
  code: "sl_step call (t # ts, s) (run_task call t (ts, s))"
| page: "sl_step call ([], s) ([TOp p], s)"
| onload: "(url, arr) \<in> set (sl_elements s) \<Longrightarrow> sl_step call ([], s) (script_loaded url arr s)"
| onerror: "(url, arr) \<in> set (sl_elements s) \<Longrightarrow> sl_step call ([], s) ([], s)"

inductive sl_reach :: "('c, 'z) callee \<Rightarrow> 'c task list \<times> ('c, 'z) loader_scheme \<Rightarrow> bool"
  for call where
  start: "sl_reach call ([], loader.extend new_ScriptLoader z)"
| step: "sl_reach call x \<Longrightarrow> sl_step call x y \<Longrightarrow> sl_reach call y"

inductive_cases sl_stepE: "sl_step call x y"

section \<open>Invariants\<close>

text \<open>The counter counts the script elements, a script has at most one, and a script that is loading has one.\<close>

definition sl_inv :: "('c, 'z) loader_scheme \<Rightarrow> bool" where
  "sl_inv s \<longleftrightarrow> sl_loading s = length (sl_elements s) \<and> distinct (map fst (sl_elements s)) \<and> distinct (sl_requested s)
     \<and> (\<forall>u a. (u, a) \<in> set (sl_elements s) \<longrightarrow> u \<in> set (sl_requested s))
     \<and> (\<forall>u \<in> set (sl_requested s). sl_states s u = Some LOADING \<or> sl_states s u = Some LOADED)
     \<and> (\<forall>u. sl_states s u = Some LOADING \<longrightarrow> (\<exists>a. (u, a) \<in> set (sl_elements s)))"

text \<open>As long as nothing was thrown: a script that is queued waits in the queue or in the running loop, and when no
  script is loading, the callbacks for the queue wait for a task that calls them.\<close>

definition ends_queue :: "'c task \<Rightarrow> bool" where
  "ends_queue t = (case t of TLoad _ \<Rightarrow> True | TCheck \<Rightarrow> True | TClear \<Rightarrow> True | _ \<Rightarrow> False)"

definition waiting :: "'c task list \<Rightarrow> string set" where
  "waiting ts = {u. \<exists>arr. TUrl arr u \<in> set ts}"

definition work_inv :: "'c task list \<times> ('c, 'z) loader_scheme \<Rightarrow> bool" where
  "work_inv = (\<lambda>(ts, s). sl_errors s = 0 \<longrightarrow>
     (\<forall>u. sl_states s u = Some QUEUED \<longrightarrow> u \<in> set (sl_arrays s 0) \<union> waiting ts)
     \<and> (sl_loading s = 0 \<longrightarrow> sl_queueLoadedCallbacks s \<noteq> [] \<longrightarrow> list_ex ends_queue ts))"

lemmas op_defs = sl_add_def markDone_def loadQueue_def sl_loadScripts_def load_all_def load_url_def loadScript_def
  execScriptLoadedCallbacks_def check_done_def do_call_def

lemma sl_inv_new: "sl_inv (loader.extend new_ScriptLoader z)" "work_inv ([], loader.extend new_ScriptLoader z)"
  by (simp_all add: sl_inv_def work_inv_def loader.extend_def new_ScriptLoader_def)

lemma sl_inv_update [simp]:
  "sl_inv (s\<lparr>sl_arrays := x\<rparr>) = sl_inv s" "sl_inv (s\<lparr>sl_scriptLoadedCallbacks := y\<rparr>) = sl_inv s"
  "sl_inv (s\<lparr>sl_queueLoadedCallbacks := z\<rparr>) = sl_inv s" "sl_inv (s\<lparr>sl_ran := r\<rparr>) = sl_inv s" "sl_inv (s\<lparr>sl_errors := n\<rparr>) = sl_inv s"
  "sl_inv (loader.more_update f s) = sl_inv s"
  by (simp_all add: sl_inv_def)

lemma sl_inv_markDone: "sl_inv s \<Longrightarrow> sl_inv (markDone url s)"
  by (auto simp: sl_inv_def markDone_def)

lemma sl_inv_add: "sl_inv s \<Longrightarrow> sl_inv (sl_add url cb s)"
  by (auto simp: sl_inv_def sl_add_def Let_def split: option.splits)

lemma sl_invD:
  assumes "sl_inv s"
  shows "sl_loading s = length (sl_elements s)" "distinct (map fst (sl_elements s))" "distinct (sl_requested s)"
    "(u, a) \<in> set (sl_elements s) \<Longrightarrow> u \<in> set (sl_requested s)"
    "u \<in> set (sl_requested s) \<Longrightarrow> sl_states s u = Some LOADING \<or> sl_states s u = Some LOADED"
    "sl_states s u = Some LOADING \<Longrightarrow> \<exists>a. (u, a) \<in> set (sl_elements s)"
  using assms unfolding sl_inv_def by blast+

lemma sl_inv_url:
  assumes "load_url arr url s = (us, s')" "sl_inv s" shows "sl_inv s'"
proof (cases "sl_states s url = Some LOADED \<or> sl_states s url = Some LOADING")
  case False
  note inv = sl_invD [OF assms(2)]
  have new: "url \<notin> set (sl_requested s)" "url \<notin> fst ` set (sl_elements s)" using inv(5) [of url] inv(4) [of url] False by auto
  have s': "s' = s\<lparr>sl_states := (sl_states s)(url \<mapsto> LOADING), sl_loading := sl_loading s + 1,
      sl_elements := sl_elements s @ [(url, arr)], sl_requested := sl_requested s @ [url]\<rparr>"
    using assms(1) False by (simp add: load_url_def loadScript_def)
  show ?thesis
    unfolding sl_inv_def
  proof (intro conjI allI ballI impI)
    show "u \<in> set (sl_requested s')" if "(u, a) \<in> set (sl_elements s')" for u a using inv(4) [of u a] that s' by auto
    show "sl_states s' u = Some LOADING \<or> sl_states s' u = Some LOADED" if "u \<in> set (sl_requested s')" for u
      using inv(5) [of u] that s' by (cases "u = url") auto
    show "\<exists>a. (u, a) \<in> set (sl_elements s')" if "sl_states s' u = Some LOADING" for u
      using inv(6) [of u] that s' by (cases "u = url") auto
  qed (use inv(1-3) new s' in simp_all)
qed (use assms in \<open>auto simp: load_url_def\<close>)

lemma sl_inv_op: "do_op p s = Some (us, s') \<Longrightarrow> sl_inv s \<Longrightarrow> sl_inv s'"
  by (cases p) (auto simp: sl_inv_add sl_inv_markDone loadQueue_def sl_loadScripts_def split: if_splits)

lemma sl_inv_task: "do_task call t s = Some (us, s') \<Longrightarrow> sl_inv s \<Longrightarrow> sl_inv s'"
  by (induction call t s rule: do_task.induct)
    (auto simp: sl_inv_op load_all_def do_call_def Let_def split: if_splits option.splits prod.splits dest: sl_inv_url)

lemma sl_inv_run: "sl_inv s \<Longrightarrow> sl_inv (snd (run_task call t (ts, s)))"
  using sl_inv_task [of call t s] by (auto simp: run_task_def split: option.splits prod.splits)

lemma set_remove1_fst: "distinct (map fst xs) \<Longrightarrow> (u, a) \<in> set xs \<Longrightarrow> set (remove1 (u, a) xs) = {e \<in> set xs. fst e \<noteq> u}"
  by (induction xs) force+

lemma distinct_map_remove1: "distinct (map f xs) \<Longrightarrow> distinct (map f (remove1 x xs))"
  using set_remove1_subset by (induction xs) fastforce+

lemma sl_inv_loaded:
  assumes "sl_inv s" "(url, arr) \<in> set (sl_elements s)" shows "sl_inv (snd (script_loaded url arr s))"
proof -
  have "distinct (map fst (sl_elements s))" using assms(1) by (simp add: sl_inv_def)
  from set_remove1_fst [OF this assms(2)] show ?thesis
    using assms distinct_map_remove1 [of fst "sl_elements s" "(url, arr)"]
    by (auto simp: sl_inv_def script_loaded_def Let_def length_remove1)
qed

lemma sl_reach_inv: "sl_reach call x \<Longrightarrow> sl_inv (snd x)"
proof (induction rule: sl_reach.induct)
  case (step x y)
  from step.hyps(2) step.IH show ?case
    by (cases rule: sl_step.cases) (auto simp: sl_inv_run sl_inv_loaded)
qed (simp add: sl_inv_new)

lemma waiting_simps [simp]:
  "waiting [] = {}" "waiting (t # ts) = (case t of TUrl _ u \<Rightarrow> {u} | _ \<Rightarrow> {}) \<union> waiting ts" "waiting (ts @ us) = waiting ts \<union> waiting us"
  "waiting (map (TUrl arr) urls) = set urls" "waiting (map TOp ops) = {}" "waiting (map (TCall \<circ> Some) cs) = {}"
  by (auto simp: waiting_def split: task.splits)

lemma ends_queue_simps [simp]:
  "ends_queue (TLoad a)" "ends_queue TCheck" "ends_queue TClear" "\<not> ends_queue (TOp p)" "\<not> ends_queue (TCall c)" "\<not> ends_queue (TUrl a u)"
  "\<not> ends_queue (TForget u)" "\<not> ends_queue (TQueue n l)"
  by (simp_all add: ends_queue_def)

lemma work_inv_task:
  assumes "do_task call t s = Some (us, s')" "work_inv (t # ts, s)"
  shows "work_inv (us @ ts, s')"
proof (cases t)
  case (TOp p)
  then show ?thesis using assms
    by (cases p) (auto simp: work_inv_def op_defs callbacks_of_def Let_def split: if_splits option.splits)
next
  case (TCall c)
  then show ?thesis using assms by (cases c) (auto simp: work_inv_def do_call_def Let_def split: prod.splits)
next
  case (TUrl a u)
  then show ?thesis using assms by (auto simp: work_inv_def op_defs split: if_splits)
qed (use assms in \<open>auto simp: work_inv_def load_all_def check_done_def split: if_splits option.splits\<close>)

lemma work_inv_run: "work_inv (t # ts, s) \<Longrightarrow> work_inv (run_task call t (ts, s))"
  using work_inv_task [of call t s _ _ ts] by (auto simp: run_task_def split: option.splits) (simp add: work_inv_def)

lemma sl_reach_work: "sl_reach call x \<Longrightarrow> work_inv x"
proof (induction rule: sl_reach.induct)
  case (step x y)
  from step.hyps(2) step.IH show ?case
    by (cases rule: sl_step.cases) (auto simp: work_inv_run, auto simp: work_inv_def script_loaded_def Let_def)
qed (rule sl_inv_new)

section \<open>Complete runs\<close>

lemma settle_Nil [simp]: "settle call ([], s) = Some s"
  by (subst settle.simps) simp

lemma settle_Cons: "settle call (t # ts, s) = settle call (run_task call t (ts, s))"
  by (subst settle.simps) simp

lemma settle_reach: "settle call x = Some t \<Longrightarrow> sl_reach call x \<Longrightarrow> sl_reach call ([], t)"
proof -
  assume run: "settle call x = Some t" and "sl_reach call x"
  have "call = call \<longrightarrow> sl_reach call x \<longrightarrow> sl_reach call ([], t)"
  proof (rule settle.raw_induct [OF _ run, where P = "\<lambda>c x t. c = call \<longrightarrow> sl_reach call x \<longrightarrow> sl_reach call ([], t)"], goal_cases)
    case (1 settle c x t)
    show ?case
    proof (intro impI)
      assume a: "c = call" "sl_reach call x"
      show "sl_reach call ([], t)"
      proof (cases "fst x")
        case (Cons u us)
        then have "sl_step call x (run_task call u (us, snd x))" by (cases x) (simp add: code)
        then have "sl_reach call (run_task call u (us, snd x))" using a(2) by (rule sl_reach.step [rotated])
        then show ?thesis using 1(1) [of call "run_task call u (us, snd x)" t] 1(2) a(1) Cons by simp
      qed (use 1(2) a in \<open>cases x; simp\<close>)
    qed
  qed
  then show ?thesis using \<open>sl_reach call x\<close> by simp
qed

text \<open>Callbacks that do not use the loader.\<close>

definition silent :: "('c, 'z) callee \<Rightarrow> bool" where
  "silent call \<longleftrightarrow> (\<forall>c s. call c s = ([], loader.more s))"

lemma do_call_silent: "silent call \<Longrightarrow> do_call call c s = ([], s\<lparr>sl_ran := sl_ran s @ [c]\<rparr>)"
  by (simp add: do_call_def silent_def)

lemma settle_calls:
  assumes "silent call"
  shows "settle call (map (TCall \<circ> Some) cs @ ts, s) = settle call (ts, s\<lparr>sl_ran := sl_ran s @ cs\<rparr>)"
proof (induction cs arbitrary: s)
  case (Cons c cs)
  then show ?case by (simp add: settle_Cons run_task_def do_call_silent [OF assms])
qed simp

lemma settle_queue_calls:
  assumes "silent call" "sl_queueLoadedCallbacks s = map Some qs" "n \<le> length qs"
  shows "settle call (TQueue n (length qs) # ts, s) = settle call (ts, s\<lparr>sl_ran := sl_ran s @ drop n qs\<rparr>)"
  using assms(2,3)
proof (induction "length qs - n" arbitrary: n s)
  case 0
  then show ?case by (simp add: settle_Cons run_task_def)
next
  case (Suc k)
  then have "n < length qs" by simp
  then show ?case using Suc(1) [of "Suc n" "s\<lparr>sl_ran := sl_ran s @ [qs ! n]\<rparr>"] Suc(2,3)
    by (simp add: settle_Cons [of _ "TQueue n _"] settle_Cons [of _ "TCall _"] run_task_def nth_opt_def do_call_silent [OF assms(1)] Cons_nth_drop_Suc [symmetric])
qed

text \<open>The end of the inner function, with nothing left in the array.\<close>

lemma settle_load_none:
  assumes "silent call" "sl_arrays s arr = []" "sl_queueLoadedCallbacks s = map Some qs"
  shows "settle call ([TLoad arr], s) = Some (if sl_loading s = 0 then s\<lparr>sl_ran := sl_ran s @ qs, sl_queueLoadedCallbacks := []\<rparr> else s)"
proof -
  have "s\<lparr>sl_arrays := (sl_arrays s)(arr := [])\<rparr> = s" using assms(2) by (simp add: fun_upd_idem)
  then show ?thesis using assms settle_queue_calls [OF assms(1,3), of 0 "[TClear]"]
    by (simp add: settle_Cons [of _ "TLoad _"] settle_Cons [of _ TCheck] settle_Cons [of _ TClear] run_task_def load_all_def check_done_def)
qed

text \<open>The load events of the elements, in some order.\<close>

fun load_events :: "('c, 'z) callee \<Rightarrow> string list \<Rightarrow> ('c, 'z) loader_scheme \<Rightarrow> ('c, 'z) loader_scheme option" where
  "load_events call [] s = Some s"
| "load_events call (u # us) s = Option.bind (settle call (script_loaded u 0 s)) (load_events call us)"

lemma settle_loaded:
  assumes "silent call" "sl_arrays s 0 = []" "sl_queueLoadedCallbacks s = map Some qs" "0 < sl_loading s"
  shows "settle call (script_loaded u 0 s) = Some (s\<lparr>sl_elements := remove1 (u, 0) (sl_elements s), sl_states := (sl_states s)(u \<mapsto> LOADED),
    sl_loading := sl_loading s - 1, sl_scriptLoadedCallbacks := (sl_scriptLoadedCallbacks s)(u := None),
    sl_ran := sl_ran s @ callbacks_of u s @ (if sl_loading s = 1 then qs else []),
    sl_queueLoadedCallbacks := (if sl_loading s = 1 then [] else sl_queueLoadedCallbacks s)\<rparr>)"
proof -
  define t where "t = s\<lparr>sl_elements := remove1 (u, 0) (sl_elements s), sl_states := (sl_states s)(u \<mapsto> LOADED), sl_loading := sl_loading s - 1\<rparr>"
  define v where "v = t\<lparr>sl_ran := sl_ran s @ callbacks_of u s, sl_scriptLoadedCallbacks := (sl_scriptLoadedCallbacks s)(u := None)\<rparr>"
  have cb: "callbacks_of u t = callbacks_of u s" by (simp add: t_def callbacks_of_def)
  have "settle call (script_loaded u 0 s) = settle call ([TForget u, TLoad 0], t\<lparr>sl_ran := sl_ran t @ callbacks_of u t\<rparr>)"
    using settle_calls [OF assms(1), of "callbacks_of u t" "[TForget u, TLoad 0]" t]
    unfolding script_loaded_def Let_def t_def [symmetric] by (simp add: execScriptLoadedCallbacks_def)
  also have "\<dots> = settle call ([TLoad 0], v)" by (simp add: settle_Cons [of _ "TForget _"] run_task_def v_def cb) (simp add: t_def)
  also have "\<dots> = Some (if sl_loading v = 0 then v\<lparr>sl_ran := sl_ran v @ qs, sl_queueLoadedCallbacks := []\<rparr> else v)"
    using assms(2,3) by (intro settle_load_none [OF assms(1)]) (simp_all add: v_def t_def)
  finally show ?thesis using assms(4) by (auto simp: v_def t_def)
qed

lemma load_events_all:
  assumes "silent call" "sl_arrays s 0 = []" "sl_queueLoadedCallbacks s = map Some qs" "sl_loading s = length vs" "distinct vs" "vs \<noteq> []"
  shows "\<exists>t. load_events call vs s = Some t \<and> sl_ran t = sl_ran s @ concat (map (\<lambda>u. callbacks_of u s) vs) @ qs
    \<and> sl_requested t = sl_requested s \<and> sl_queueLoadedCallbacks t = [] \<and> sl_loading t = 0 \<and> (\<forall>u \<in> set vs. isDone u t) \<and> (\<forall>u. isDone u s \<longrightarrow> isDone u t)"
  using assms(2-)
proof (induction vs arbitrary: s)
  case (Cons v vs)
  obtain t' where t': "settle call (script_loaded v 0 s) = Some t'" using settle_loaded [OF assms(1) Cons.prems(1,2), of v] Cons.prems(3) by simp
  have t: "sl_arrays t' 0 = []" "sl_loading t' = length vs"
    "sl_queueLoadedCallbacks t' = (if vs = [] then [] else map Some qs)" "isDone v t'" "isDone u s \<Longrightarrow> isDone u t'"
    "sl_ran t' = sl_ran s @ callbacks_of v s @ (if vs = [] then qs else [])" "u \<noteq> v \<Longrightarrow> callbacks_of u t' = callbacks_of u s"
    "sl_requested t' = sl_requested s" for u
    using settle_loaded [OF assms(1) Cons.prems(1,2), of v] Cons.prems(1-3) t' by (auto simp: isDone_def callbacks_of_def)
  show ?case
  proof (cases "vs = []")
    case True
    then show ?thesis using t t' by auto
  next
    case False
    have "concat (map (\<lambda>u. callbacks_of u t') vs) = concat (map (\<lambda>u. callbacks_of u s) vs)"
      using Cons.prems(4) by (intro arg_cong [of _ _ concat] map_cong [OF refl] t(7)) auto
    moreover obtain t where "load_events call vs t' = Some t" "sl_ran t = sl_ran t' @ concat (map (\<lambda>u. callbacks_of u t') vs) @ qs"
      "sl_requested t = sl_requested t'" "sl_queueLoadedCallbacks t = []" "sl_loading t = 0" "\<forall>u \<in> set vs. isDone u t" "\<forall>u. isDone u t' \<longrightarrow> isDone u t"
      using Cons.IH [of t'] t(1-3) False Cons.prems(4) by auto
    ultimately show ?thesis using t(4-6,8) t' False by (intro exI [of _ t]) simp
  qed
qed simp

lemma settle_start:
  assumes "distinct us" "\<forall>u \<in> set us. sl_states s u = Some QUEUED"
  shows "settle call (map (TUrl arr) us @ ts, s) = settle call (ts, s\<lparr>sl_states := (\<lambda>u. if u \<in> set us then Some LOADING else sl_states s u),
     sl_loading := sl_loading s + length us, sl_elements := sl_elements s @ map (\<lambda>u. (u, arr)) us, sl_requested := sl_requested s @ us\<rparr>)"
  using assms
proof (induction us arbitrary: s)
  case (Cons u us)
  let ?t = "s\<lparr>sl_states := (sl_states s)(u \<mapsto> LOADING), sl_loading := sl_loading s + 1,
      sl_elements := sl_elements s @ [(u, arr)], sl_requested := sl_requested s @ [u]\<rparr>"
  have "settle call (map (TUrl arr) (u # us) @ ts, s) = settle call (map (TUrl arr) us @ ts, ?t)"
    using Cons.prems by (simp add: settle_Cons run_task_def load_url_def loadScript_def)
  moreover have "\<forall>v \<in> set us. sl_states ?t v = Some QUEUED" using Cons.prems by auto
  moreover have "(\<lambda>v. if v \<in> set us then Some LOADING else sl_states ?t v) = (\<lambda>v. if v \<in> set (u # us) then Some LOADING else sl_states s v)"
    by auto
  ultimately show ?case using Cons.IH [of ?t] Cons.prems(1) by simp
qed simp

text \<open>The whole use of a loader: the queue is started, then the scripts load in some order.\<close>

definition load_in_order :: "('c, 'z) callee \<Rightarrow> 'c \<Rightarrow> string list \<Rightarrow> ('c, 'z) loader_scheme \<Rightarrow> ('c, 'z) loader_scheme option" where
  "load_in_order call q order s = Option.bind (settle call (loadQueue (Some q) s)) (load_events call order)"

section \<open>Properties\<close>

text \<open>C17. However the page and its callbacks use a loader, and whenever scripts load or fail: no script is
  ever requested twice, the counter \<open>loading\<close> is the number of script elements in the document, so it never
  goes below zero, and a script in the state LOADING has exactly one element.\<close>

theorem scripts_requested_once:
  assumes "sl_reach call (ts, s)"
  shows "distinct (sl_requested s) \<and> sl_loading s = length (sl_elements s) \<and> distinct (map fst (sl_elements s))
    \<and> (\<forall>u. sl_states s u = Some LOADING \<longrightarrow> (\<exists>arr. (u, arr) \<in> set (sl_elements s)))"
  using sl_invD [OF sl_reach_inv [OF assms]] by auto

text \<open>C28. When no code of the loader runs, no script is loading and nothing was thrown, then no work was forgotten: no
  callback for the queue is left, and every script that was added and is not loaded is still in the queue.\<close>

theorem idle_loader_has_no_work:
  assumes "sl_reach call ([], s)" "sl_errors s = 0" "sl_loading s = 0"
  shows "sl_queueLoadedCallbacks s = [] \<and> (\<forall>u. sl_states s u \<noteq> None \<longrightarrow> isDone u s \<or> u \<in> set (sl_arrays s 0))"
proof -
  have "sl_states s u \<noteq> Some LOADING" for u using sl_invD(1,6) [OF sl_reach_inv [OF assms(1)]] assms(3) by auto
  moreover have "x \<noteq> None \<Longrightarrow> x = Some QUEUED \<or> x = Some LOADING \<or> x = Some LOADED" for x by (metis option.exhaust script_state.exhaust)
  ultimately show ?thesis using sl_reach_work [OF assms(1)] assms(2,3) by (auto simp: work_inv_def isDone_def)
qed

text \<open>C13. With callbacks that do not use the loader themselves, a queue of new scripts loads completely whatever the
  order in which the browser finishes them: the callbacks of each script run when it has loaded, in the order in which they were added, and the
  callback of the queue runs exactly once, after all of them.\<close>

theorem queue_loads_in_any_order:
  assumes "silent call" "sl_arrays s 0 = us" "us \<noteq> []" "distinct us" "\<forall>u \<in> set us. sl_states s u = Some QUEUED"
    and "sl_loading s = 0" "sl_queueLoadedCallbacks s = []" "mset order = mset us"
  shows "\<exists>t. load_in_order call q order s = Some t \<and> sl_ran t = sl_ran s @ concat (map (\<lambda>u. callbacks_of u s) order) @ [q]
    \<and> sl_requested t = sl_requested s @ us \<and> sl_queueLoadedCallbacks t = [] \<and> sl_loading t = 0 \<and> (\<forall>u \<in> set us. isDone u t)"
proof -
  define t where "t = s\<lparr>sl_queueLoadedCallbacks := [Some q], sl_arrays := (sl_arrays s)(0 := []),
     sl_states := (\<lambda>u. if u \<in> set us then Some LOADING else sl_states s u),
     sl_loading := length us, sl_elements := sl_elements s @ map (\<lambda>u. (u, 0)) us, sl_requested := sl_requested s @ us\<rparr>"
  let ?s = "s\<lparr>sl_queueLoadedCallbacks := [Some q], sl_arrays := (sl_arrays s)(0 := [])\<rparr>"
  have "settle call (loadQueue (Some q) s) = settle call (map (TUrl 0) us @ [TCheck], ?s)"
    using assms(2,7) by (simp add: loadQueue_def sl_loadScripts_def settle_Cons [of _ "TLoad _"] run_task_def load_all_def)
  also have "\<dots> = settle call ([TCheck], t)" using settle_start [of us ?s call 0 "[TCheck]"] assms(4-6) by (simp add: t_def cong: if_cong)
  also have "\<dots> = Some t" using assms(3) by (simp add: settle_Cons run_task_def check_done_def t_def)
  finally have st: "settle call (loadQueue (Some q) s) = Some t" .
  have ord: "distinct order" "order \<noteq> []" "length order = length us" "set order = set us"
    using assms(3,4,8) by (metis mset_eq_imp_distinct_iff, metis mset_zero_iff, metis size_mset, metis set_mset_mset)
  have "callbacks_of u t = callbacks_of u s" for u by (simp add: t_def callbacks_of_def)
  then obtain v where "load_events call order t = Some v" "sl_ran v = sl_ran t @ concat (map (\<lambda>u. callbacks_of u s) order) @ [q]"
    "sl_requested v = sl_requested t" "sl_queueLoadedCallbacks v = []" "sl_loading v = 0" "\<forall>u \<in> set order. isDone u v"
    using load_events_all [of call t "[q]" order] assms(1) ord by (auto simp: t_def)
  then show ?thesis using st ord by (intro exI [of _ v]) (simp add: load_in_order_def t_def)
qed

text \<open>Three scripts, two of them with callbacks.\<close>

definition sample_loader :: "nat loader" where
  "sample_loader = sl_add ''c.js'' None (sl_add ''a.js'' (Some 3) (sl_add ''b.js'' (Some 2) (sl_add ''a.js'' (Some 1) new_ScriptLoader)))"

abbreviation "no_ops \<equiv> \<lambda>(c :: nat) (s :: nat loader). ([] :: nat op list, loader.more s)"

lemma silent_no_ops: "silent no_ops"
  by (simp add: silent_def)

lemma sample_loader_simps:
  "sl_arrays sample_loader 0 = [''a.js'', ''b.js'', ''c.js'']" "sl_loading sample_loader = 0" "sl_queueLoadedCallbacks sample_loader = []"
  "sl_ran sample_loader = []" "callbacks_of ''a.js'' sample_loader = [1, 3]" "callbacks_of ''b.js'' sample_loader = [2]" "callbacks_of ''c.js'' sample_loader = []"
  "sl_states sample_loader ''a.js'' = Some QUEUED" "sl_states sample_loader ''b.js'' = Some QUEUED" "sl_states sample_loader ''c.js'' = Some QUEUED"
  by (simp_all add: sample_loader_def sl_add_def new_ScriptLoader_def callbacks_of_def Let_def)

theorem queue_loads_in_any_order_witness:
  "\<exists>t. load_in_order no_ops 9 [''c.js'', ''b.js'', ''a.js''] sample_loader = Some t \<and> sl_ran t = [2, 1, 3, 9] \<and> sl_loading t = 0"
  using queue_loads_in_any_order [OF silent_no_ops sample_loader_simps(1), of "[''c.js'', ''b.js'', ''a.js'']" 9]
  by (auto simp: sample_loader_simps)

text \<open>Runs of the page.\<close>

lemma reach_op: "sl_reach call ([], s) \<Longrightarrow> settle call ([TOp p], s) = Some t \<Longrightarrow> sl_reach call ([], t)"
  by (blast intro: settle_reach sl_reach.step sl_step.page)

lemma reach_onload: "sl_reach call ([], s) \<Longrightarrow> (u, arr) \<in> set (sl_elements s) \<Longrightarrow> settle call (script_loaded u arr s) = Some t \<Longrightarrow> sl_reach call ([], t)"
  by (blast intro: settle_reach sl_reach.step sl_step.onload)

definition page_run :: "nat loader option" where
  "page_run = do { s \<leftarrow> settle no_ops ([TOp (Add ''a.js'' (Some 1))], new_ScriptLoader);
     t \<leftarrow> settle no_ops ([TOp (LoadScripts 0 (Some 2))], s);
     settle no_ops (script_loaded ''a.js'' 0 t) }"

lemma page_run_reach: "\<exists>s t. sl_reach no_ops ([], s) \<and> sl_elements s = [(''a.js'', 0)] \<and> sl_requested s = [''a.js'']
    \<and> page_run = Some t \<and> sl_reach no_ops ([], t) \<and> sl_errors t = 0 \<and> sl_loading t = 0 \<and> sl_states t ''a.js'' \<noteq> None \<and> sl_ran t = [1, 2]"
proof -
  define s0 s1 where "s0 = sl_add ''a.js'' (Some 1) (new_ScriptLoader :: nat loader)"
    and "s1 = s0\<lparr>sl_queueLoadedCallbacks := [Some 2], sl_arrays := (sl_arrays s0)(0 := []), sl_states := (sl_states s0)(''a.js'' \<mapsto> LOADING),
       sl_loading := 1, sl_elements := [(''a.js'', 0)], sl_requested := [''a.js'']\<rparr>"
  have s0: "settle no_ops ([TOp (Add ''a.js'' (Some 1))], new_ScriptLoader) = Some s0" by (simp add: settle_Cons run_task_def s0_def)
  have s1: "settle no_ops ([TOp (LoadScripts 0 (Some 2))], s0) = Some s1"
    by (simp add: settle_Cons run_task_def loadQueue_def sl_loadScripts_def load_all_def load_url_def loadScript_def check_done_def s0_def s1_def
        sl_add_def new_ScriptLoader_def callbacks_of_def)
  have r0: "sl_reach no_ops ([], new_ScriptLoader)" using sl_reach.start [of no_ops "()"] by (simp add: loader.extend_def new_ScriptLoader_def)
  note r1 = reach_op [OF reach_op [OF r0 s0] s1]
  have cb: "callbacks_of ''a.js'' s1 = [1]" by (simp add: callbacks_of_def s1_def s0_def sl_add_def new_ScriptLoader_def)
  obtain t where t: "settle no_ops (script_loaded ''a.js'' 0 s1) = Some t" "sl_errors t = 0" "sl_loading t = 0" "sl_states t ''a.js'' \<noteq> None" "sl_ran t = [1, 2]"
    using settle_loaded [OF silent_no_ops, of s1 "[2]" "''a.js''"] cb
    by (simp add: s1_def s0_def sl_add_def new_ScriptLoader_def)
  have el: "sl_elements s1 = [(''a.js'', 0)]" "sl_requested s1 = [''a.js'']" by (simp_all add: s1_def)
  have "sl_reach no_ops ([], t)" using reach_onload [OF r1 _ t(1)] el by simp
  moreover have "page_run = Some t" using s0 s1 t(1) by (simp add: page_run_def)
  ultimately show ?thesis using r1 el t by blast
qed

theorem scripts_requested_once_witness:
  "\<exists>s. sl_reach no_ops ([], s) \<and> sl_requested s = [''a.js''] \<and> sl_loading s = 1"
proof -
  obtain s where "sl_reach no_ops ([], s)" "sl_elements s = [(''a.js'', 0)]" "sl_requested s = [''a.js'']" using page_run_reach by blast
  then show ?thesis using scripts_requested_once [of no_ops "[]" s] by (intro exI [of _ s]) simp
qed

theorem idle_loader_has_no_work_witness:
  "\<exists>t. page_run = Some t \<and> sl_queueLoadedCallbacks t = [] \<and> sl_ran t = [1, 2]"
proof -
  obtain t where "page_run = Some t" "sl_reach no_ops ([], t)" "sl_errors t = 0" "sl_loading t = 0" "sl_ran t = [1, 2]" using page_run_reach by blast
  then show ?thesis using idle_loader_has_no_work [of no_ops t] by (intro exI [of _ t]) simp
qed

section \<open>Callbacks that load more\<close>

text \<open>The configurations of a run in which a callback \<open>a\<close> of the queue always starts the queue again.\<close>

definition looping :: "'c \<Rightarrow> 'c \<Rightarrow> 'c task list \<times> ('c, 'z) loader_scheme \<Rightarrow> bool" where
  "looping a b = (\<lambda>(ts, s). sl_loading s = 0 \<and> sl_arrays s 0 = [] \<and>
     (case ts of [] \<Rightarrow> False
      | t # _ \<Rightarrow> (\<exists>qs. sl_queueLoadedCallbacks s = Some a # qs)
          \<and> (t = TLoad 0 \<or> t = TCheck \<or> (\<exists>l. t = TQueue 0 (Suc l)) \<or> t = TCall (Some a) \<or> t = TOp (LoadScripts 0 (Some b)))))"

lemma looping_step:
  assumes "\<forall>s. call a s = ([LoadScripts 0 (Some b)], loader.more s)" "looping a b (t # ts, s)"
  shows "looping a b (run_task call t (ts, s))"
  using assms(2) unfolding looping_def
  by (auto simp: run_task_def load_all_def check_done_def nth_opt_def do_call_def assms(1) loadQueue_def sl_loadScripts_def)

lemma looping_never_ends:
  assumes "\<forall>s. call a s = ([LoadScripts 0 (Some b)], loader.more s)" "looping a b x"
  shows "settle call x = None"
proof (cases "settle call x")
  case (Some t)
  have "call = call \<longrightarrow> \<not> looping a b x"
  proof (rule settle.raw_induct [OF _ Some, where P = "\<lambda>c x t. c = call \<longrightarrow> \<not> looping a b x"], goal_cases)
    case (1 settle c x t)
    show ?case
    proof (intro impI notI)
      assume a: "c = call" "looping a b x"
      obtain u us s where x: "x = (u # us, s)" using a(2) by (cases x) (auto simp: looping_def split: list.splits)
      show False using 1(1) [of call "run_task call u (us, s)" t] 1(2) a x looping_step [where call = call and a = a and b = b, OF assms(1), of u us s] by simp
    qed
  qed
  then show ?thesis using assms(2) by simp
qed

text \<open>C39. A callback of the queue that starts the queue again, when nothing has to be loaded, never returns: the list of
  callbacks is cleared only after all of them have run, so the inner call runs the same callback again.\<close>

theorem nested_loadQueue_diverges:
  assumes "\<forall>s. call a s = ([LoadScripts 0 (Some b)], loader.more s)" "sl_loading s = 0" "sl_arrays s 0 = []" "sl_queueLoadedCallbacks s = []"
  shows "settle call (loadQueue (Some a) s) = None"
  using assms(2-4) by (intro looping_never_ends [where call = call and a = a and b = b, OF assms(1)]) (auto simp: looping_def loadQueue_def sl_loadScripts_def)

theorem nested_loadQueue_diverges_witness:
  "settle (\<lambda>c s. ([LoadScripts 0 (Some 2)], loader.more s)) (loadQueue (Some 1) (new_ScriptLoader :: nat loader)) = None"
  by (rule nested_loadQueue_diverges [of _ 1 2]) (simp_all add: new_ScriptLoader_def)

text \<open>When the callback adds a script first, the inner call returns, but its own callback is cleared with the
  others: it is not called when the script has loaded.\<close>

lemma nested_callback_lost:
  assumes "\<And>s. call a s = ([Add u None, LoadScripts 0 (Some b)], loader.more s)" "\<And>c s. c \<noteq> a \<Longrightarrow> call c s = ([], loader.more s)"
    and "sl_loading s = 0" "sl_arrays s 0 = []" "sl_queueLoadedCallbacks s = []" "sl_states s u = None" "sl_scriptLoadedCallbacks s u = None"
  shows "\<exists>t v. settle call (loadQueue (Some a) s) = Some t \<and> settle call (script_loaded u 0 t) = Some v
    \<and> sl_ran v = sl_ran s @ [a] \<and> isDone u v \<and> sl_queueLoadedCallbacks v = []"
  using assms(3-)
  by (simp add: loadQueue_def sl_loadScripts_def settle_Cons run_task_def load_all_def check_done_def nth_opt_def do_call_def assms(1) sl_add_def
      load_url_def loadScript_def script_loaded_def execScriptLoadedCallbacks_def callbacks_of_def isDone_def Let_def)

text \<open>A callback added for a script that has loaded is stored, and starting the queue does not run it.\<close>

lemma late_callback_not_run:
  assumes "silent call" "isDone u s" "sl_arrays s 0 = []" "sl_queueLoadedCallbacks s = []" "sl_loading s = 0"
  shows "\<exists>t. settle call (loadQueue (Some q) (sl_add u (Some c) s)) = Some t \<and> sl_ran t = sl_ran s @ [q] \<and> callbacks_of u t = callbacks_of u s @ [c]"
  using assms(2-5) settle_load_none [OF assms(1), of "(sl_add u (Some c) s)\<lparr>sl_queueLoadedCallbacks := [Some q]\<rparr>" 0 "[q]"]
  by (simp add: loadQueue_def sl_loadScripts_def sl_add_def isDone_def callbacks_of_def Let_def)

end
