(* ===== verification/AddOns.thy ===== *)
theory AddOns
  imports ScriptLoader
begin

text \<open>
  \<open>classes/AddOnManager.js\<close> on top of the script loader, and the function \<open>loadScripts\<close> of \<open>classes/Editor.js\<close> that uses both. The
  state of the managers is the state of the page in the model of the loader, and the closures the managers
  hand to the loader are its callbacks.
\<close>

section \<open>Managers\<close>

text \<open>A url is a string or an object with three parts; a part that is undefined is None.\<close>

datatype aurl = UStr string | UObj "string option" string "string option"

datatype adep = DName string | DUrl aurl

record aom =
  ao_items :: "nat list"
  ao_urls :: "string \<Rightarrow> string option"
  ao_lookup :: "string \<Rightarrow> (nat \<times> adep list option) option"

definition new_AddOnManager :: aom where
  "new_AddOnManager = \<lparr>ao_items = [], ao_urls = Map.empty, ao_lookup = Map.empty\<rparr>"

text \<open>Manager 0 is the \<open>PluginManager\<close>, manager 1 the \<open>ThemeManager\<close>; the rest are the fields of the constructor.\<close>

record addons =
  ad_manager :: "nat \<Rightarrow> aom"
  ad_language :: "string option"
  ad_languageLoad :: bool
  ad_baseURL :: string

datatype acb =
    Client nat
  | LoadDependencies nat string aurl "acb option"
  | LoadAddOn nat string aurl "acb option"
  | EditorPlugin string string

type_synonym page = "(acb, addons) loader_scheme"

definition truthy :: "string option \<Rightarrow> bool" where
  "truthy x \<longleftrightarrow> x \<noteq> None \<and> x \<noteq> Some []"

definition str :: "string option \<Rightarrow> string" where
  "str x = (case x of None \<Rightarrow> ''undefined'' | Some v \<Rightarrow> v)"

definition addon_get :: "string \<Rightarrow> aom \<Rightarrow> nat option" where
  "addon_get name m = map_option fst (ao_lookup m name)"

definition dependencies :: "string \<Rightarrow> aom \<Rightarrow> adep list" where
  "dependencies name m = (case ao_lookup m name of Some (_, Some ds) \<Rightarrow> ds | _ \<Rightarrow> [])"

definition addon_add :: "string \<Rightarrow> nat \<Rightarrow> adep list option \<Rightarrow> aom \<Rightarrow> aom" where
  "addon_add name addOn deps m = m\<lparr>ao_items := ao_items m @ [addOn], ao_lookup := (ao_lookup m)(name \<mapsto> (addOn, deps))\<rparr>"

text \<open>The parts of a base url that is a string are undefined.\<close>

definition createUrl :: "aurl \<Rightarrow> adep \<Rightarrow> aurl" where
  "createUrl baseUrl dep = (case dep of DUrl u \<Rightarrow> u
     | DName d \<Rightarrow> (case baseUrl of UObj p _ s \<Rightarrow> UObj p d s | UStr _ \<Rightarrow> UObj None d None))"

definition resource :: "aurl \<Rightarrow> string" where
  "resource u = (case u of UObj _ r _ \<Rightarrow> r | UStr _ \<Rightarrow> ''undefined'')"

text \<open>The test of the languages: a word of the list, between commas, spaces or word boundaries. The name of the
  language has no characters that are special in a regular expression.\<close>

definition is_word :: "char \<Rightarrow> bool" where
  "is_word c = (let n = (of_char c :: nat) in n = 95 \<or> 48 \<le> n \<and> n < 58 \<or> 65 \<le> n \<and> n < 91 \<or> 97 \<le> n \<and> n < 123)"

definition word_at :: "string \<Rightarrow> int \<Rightarrow> bool" where
  "word_at s i \<longleftrightarrow> 0 \<le> i \<and> i < int (length s) \<and> is_word (s ! nat i)"

definition boundary :: "string \<Rightarrow> nat \<Rightarrow> bool" where
  "boundary s i \<longleftrightarrow> word_at s (int i - 1) \<noteq> word_at s (int i)"

definition sep_at :: "string \<Rightarrow> int \<Rightarrow> bool" where
  "sep_at s i \<longleftrightarrow> 0 \<le> i \<and> i < int (length s) \<and> s ! nat i \<in> {CHR '','', CHR '' ''}"

definition lang_test :: "string \<Rightarrow> string \<Rightarrow> bool" where
  "lang_test lang langs = list_ex (\<lambda>i. take (length lang) (drop i langs) = lang
      \<and> (sep_at langs (int i - 1) \<or> boundary langs i) \<and> (sep_at langs (int (i + length lang)) \<or> boundary langs (i + length lang)))
     [0..<Suc (length langs)]"

definition requireLangPack :: "nat \<Rightarrow> string \<Rightarrow> string option \<Rightarrow> page \<Rightarrow> acb op list" where
  "requireLangPack k name languages s =
     (let a = loader.more s in
      if truthy (ad_language a) \<and> ad_languageLoad a
      then (if truthy languages \<and> \<not> lang_test (str (ad_language a)) (str languages) then []
            else [Add (str (ao_urls (ad_manager a k) name) @ ''/langs/'' @ str (ad_language a) @ ''.js'') None])
      else [])"

definition addComponents :: "nat \<Rightarrow> string \<Rightarrow> string list \<Rightarrow> page \<Rightarrow> acb op list" where
  "addComponents k pluginName scripts s =
     (let pluginUrl = str (ao_urls (ad_manager (loader.more s) k) pluginName) in map (\<lambda>script. Add (pluginUrl @ ''/'' @ script) None) scripts)"

section \<open>Loading\<close>

fun contains :: "'a list \<Rightarrow> 'a list \<Rightarrow> bool" where
  "contains pat [] = (pat = [])"
| "contains pat (x # xs) = (take (length pat) (x # xs) = pat \<or> contains pat xs)"

definition dir_of :: "string \<Rightarrow> string" where
  "dir_of url = rev (drop 1 (dropWhile (\<lambda>c. c \<noteq> CHR ''/'') (rev url)))"

definition url_text :: "aurl \<Rightarrow> string" where
  "url_text u = (case u of UStr v \<Rightarrow> v | UObj p r s \<Rightarrow> str p @ r @ str s)"

definition full_url :: "string \<Rightarrow> aurl \<Rightarrow> string" where
  "full_url baseURL u = (let url = url_text u in
     if hd_opt url \<noteq> Some (CHR ''/'') \<and> \<not> contains ''://'' url then baseURL @ ''/'' @ url else url)"

definition loadDependencies :: "nat \<Rightarrow> string \<Rightarrow> aurl \<Rightarrow> acb option \<Rightarrow> page \<Rightarrow> acb op list" where
  "loadDependencies k n u cb s =
     map (\<lambda>dep. let newUrl = createUrl u dep in Invoke (LoadAddOn k (resource newUrl) newUrl None)) (dependencies n (ad_manager (loader.more s) k))
     @ (case cb of None \<Rightarrow> [] | Some c \<Rightarrow> [Invoke c])"

definition addon_load :: "nat \<Rightarrow> string \<Rightarrow> aurl \<Rightarrow> acb option \<Rightarrow> page \<Rightarrow> acb op list \<times> addons" where
  "addon_load k n u cb s =
     (let a = loader.more s; m = ad_manager a k; url = full_url (ad_baseURL a) u in
      if truthy (ao_urls m n) then ([], a)
      else (if ao_lookup m n \<noteq> None then [Invoke (LoadDependencies k n u cb)] else [Add url (Some (LoadDependencies k n u cb))],
            a\<lparr>ad_manager := (ad_manager a)(k := m\<lparr>ao_urls := (ao_urls m)(n \<mapsto> dir_of url)\<rparr>)\<rparr>))"

section \<open>The editor\<close>

record editor_settings =
  es_language :: "string option"
  es_language_url :: "string option"
  es_theme :: "string option"
  es_theme_url :: "string option"
  es_external_plugins :: "(string \<times> string) list"
  es_plugins :: string
  es_suffix :: string

definition is_space :: "char \<Rightarrow> bool" where
  "is_space c \<longleftrightarrow> c \<in> set [CHR 0x20, CHR 0x09, CHR 0x0A, CHR 0x0B, CHR 0x0C, CHR 0x0D, CHR 0xA0]"

definition trim_string :: "string \<Rightarrow> string" where
  "trim_string v = rev (dropWhile is_space (rev (dropWhile is_space v)))"

fun split_names :: "string \<Rightarrow> string list" where
  "split_names [] = [[]]"
| "split_names (c # cs) = (if c = CHR '' '' \<or> c = CHR '','' then [] # split_names cs
     else case split_names cs of [] \<Rightarrow> [[c]] | n # ns \<Rightarrow> (c # n) # ns)"

definition plugin_url :: "string \<Rightarrow> string \<Rightarrow> aurl" where
  "plugin_url suffix name = UObj (Some ''plugins/'') name (Some (''/plugin'' @ suffix @ ''.js''))"

text \<open>The body of the loop over the plugins.\<close>

definition editor_plugin :: "string \<Rightarrow> string \<Rightarrow> page \<Rightarrow> acb op list" where
  "editor_plugin suffix name s =
     (let m = ad_manager (loader.more s) 0; plugin = trim_string name in
      if plugin \<noteq> [] \<and> \<not> truthy (ao_urls m plugin)
      then (if hd plugin = CHR ''-''
            then map (\<lambda>dep. let d = createUrl (plugin_url suffix (case dep of DName x \<Rightarrow> x | DUrl _ \<Rightarrow> [])) dep in Invoke (LoadAddOn 0 (resource d) d None))
                   (dependencies (tl plugin) m)
            else [Invoke (LoadAddOn 0 plugin (plugin_url suffix plugin) None)])
      else [])"

text \<open>\<open>toAbsolute\<close> is the method of \<open>documentBaseURI\<close>: it parses the address of the theme, which \<open>UriPath\<close> does not model.\<close>

definition editor_loadScripts :: "(string \<Rightarrow> string) \<Rightarrow> editor_settings \<Rightarrow> string \<Rightarrow> acb \<Rightarrow> page \<Rightarrow> acb op list" where
  "editor_loadScripts toAbsolute es baseURL init s =
     (let language_url = (if truthy (es_language es) \<and> es_language es \<noteq> Some ''en'' then Some (baseURL @ ''/langs/'' @ str (es_language es) @ ''.js'')
                          else es_language_url es);
          theme = str (es_theme es);
          names = split_names (es_plugins es @ concat (map (\<lambda>(name, _). '' '' @ name) (es_external_plugins es)))
      in (if truthy language_url then [Add (str language_url) None] else [])
         @ (if truthy (es_theme es) \<and> hd theme \<noteq> CHR ''-'' \<and> \<not> truthy (ao_urls (ad_manager (loader.more s) 1) theme)
            then [Invoke (LoadAddOn 1 theme (UStr (if truthy (es_theme_url es) then toAbsolute (str (es_theme_url es))
                    else ''themes/'' @ theme @ ''/theme'' @ es_suffix es @ ''.js'')) None)] else [])
         @ map (\<lambda>(name, url). Invoke (LoadAddOn 0 name (UStr url) None)) (es_external_plugins es)
         @ map (\<lambda>name. Invoke (EditorPlugin (es_suffix es) name)) names
         @ [LoadScripts 0 (Some init)])"

text \<open>What the callbacks do; the callbacks of the page itself are a parameter.\<close>

fun call_addons :: "(nat \<Rightarrow> page \<Rightarrow> acb op list \<times> addons) \<Rightarrow> acb \<Rightarrow> page \<Rightarrow> acb op list \<times> addons" where
  "call_addons client (Client i) s = client i s"
| "call_addons client (LoadDependencies k n u cb) s = (loadDependencies k n u cb s, loader.more s)"
| "call_addons client (LoadAddOn k n u cb) s = addon_load k n u cb s"
| "call_addons client (EditorPlugin suffix name) s = (editor_plugin suffix name s, loader.more s)"

section \<open>Dependencies\<close>

text \<open>The urls of the dependencies of an add-on that is loaded from the string \<open>v\<close> begin and end with \<open>undefined\<close>.\<close>

lemma dependency_of_string_url: "url_text (createUrl (UStr v) (DName dep)) = ''undefined'' @ dep @ ''undefined''"
  by (simp add: createUrl_def url_text_def str_def)

text \<open>One dependency that is neither registered nor loaded.\<close>

definition dep_url :: "page \<Rightarrow> string option \<Rightarrow> string option \<Rightarrow> string \<Rightarrow> string" where
  "dep_url s p x dep = full_url (ad_baseURL (loader.more s)) (UObj p dep x)"

definition new_dep :: "nat \<Rightarrow> string option \<Rightarrow> string option \<Rightarrow> page \<Rightarrow> string \<Rightarrow> bool" where
  "new_dep k p x s dep \<longleftrightarrow> \<not> truthy (ao_urls (ad_manager (loader.more s) k) dep) \<and> ao_lookup (ad_manager (loader.more s) k) dep = None
     \<and> sl_states s (dep_url s p x dep) = None \<and> sl_scriptLoadedCallbacks s (dep_url s p x dep) = None"

definition add_dep :: "nat \<Rightarrow> string option \<Rightarrow> string option \<Rightarrow> string \<Rightarrow> page \<Rightarrow> page" where
  "add_dep k p x dep s =
     (let a = loader.more s; m = ad_manager a k
      in sl_add (dep_url s p x dep) (Some (LoadDependencies k dep (UObj p dep x) None))
           (loader.more_update (\<lambda>_. a\<lparr>ad_manager := (ad_manager a)(k := m\<lparr>ao_urls := (ao_urls m)(dep \<mapsto> dir_of (dep_url s p x dep))\<rparr>)\<rparr>)
             (s\<lparr>sl_ran := sl_ran s @ [LoadAddOn k dep (UObj p dep x) None]\<rparr>)))"

lemma settle_dep:
  assumes "new_dep k p x s dep"
  shows "settle (call_addons client) (TOp (Invoke (LoadAddOn k dep (UObj p dep x) None)) # ts, s) = settle (call_addons client) (ts, add_dep k p x dep s)"
  using assms by (simp add: settle_Cons run_task_def do_call_def addon_load_def new_dep_def add_dep_def dep_url_def Let_def)

lemma add_dep_simps [simp]:
  assumes "new_dep k p x s dep"
  shows "sl_arrays (add_dep k p x dep s) 0 = sl_arrays s 0 @ [dep_url s p x dep]"
    "sl_states (add_dep k p x dep s) = (sl_states s)(dep_url s p x dep \<mapsto> QUEUED)"
    "sl_scriptLoadedCallbacks (add_dep k p x dep s) = (sl_scriptLoadedCallbacks s)(dep_url s p x dep \<mapsto> [LoadDependencies k dep (UObj p dep x) None])"
    "sl_queueLoadedCallbacks (add_dep k p x dep s) = sl_queueLoadedCallbacks s" "sl_loading (add_dep k p x dep s) = sl_loading s"
    "sl_elements (add_dep k p x dep s) = sl_elements s" "dep_url (add_dep k p x dep s) = dep_url s"
    "sl_ran (add_dep k p x dep s) = sl_ran s @ [LoadAddOn k dep (UObj p dep x) None]"
  using assms by (simp_all add: add_dep_def sl_add_def callbacks_of_def new_dep_def dep_url_def Let_def fun_eq_iff)

lemma add_dep_new:
  assumes "new_dep k p x s dep" "new_dep k p x s e" "e \<noteq> dep" "dep_url s p x e \<noteq> dep_url s p x dep"
  shows "new_dep k p x (add_dep k p x dep s) e"
proof -
  have "loader.more (add_dep k p x dep s) = (let a = loader.more s; m = ad_manager a k
      in a\<lparr>ad_manager := (ad_manager a)(k := m\<lparr>ao_urls := (ao_urls m)(dep \<mapsto> dir_of (dep_url s p x dep))\<rparr>)\<rparr>)"
    using assms(1) by (simp add: add_dep_def sl_add_def new_dep_def Let_def)
  then show ?thesis using assms(2-4) add_dep_simps(2,3,7) [OF assms(1)] by (simp add: new_dep_def Let_def)
qed

lemma settle_deps:
  assumes "\<forall>e \<in> set ds. new_dep k p x s e" "distinct (map (dep_url s p x) ds)"
  shows "\<exists>t. settle (call_addons client) (map (\<lambda>e. TOp (Invoke (LoadAddOn k e (UObj p e x) None))) ds @ ts, s) = settle (call_addons client) (ts, t)
    \<and> sl_arrays t 0 = sl_arrays s 0 @ map (dep_url s p x) ds
    \<and> sl_states t = (\<lambda>u. if u \<in> dep_url s p x ` set ds then Some QUEUED else sl_states s u)
    \<and> (\<forall>e \<in> set ds. sl_scriptLoadedCallbacks t (dep_url s p x e) = Some [LoadDependencies k e (UObj p e x) None])
    \<and> (\<forall>u. u \<notin> dep_url s p x ` set ds \<longrightarrow> sl_scriptLoadedCallbacks t u = sl_scriptLoadedCallbacks s u)
    \<and> sl_queueLoadedCallbacks t = sl_queueLoadedCallbacks s \<and> sl_loading t = sl_loading s \<and> sl_elements t = sl_elements s
    \<and> sl_ran t = sl_ran s @ map (\<lambda>e. LoadAddOn k e (UObj p e x) None) ds"
  using assms
proof (induction ds arbitrary: s)
  case (Cons e ds)
  let ?s = "add_dep k p x e s"
  have new: "new_dep k p x s e" using Cons.prems(1) by simp
  note e = add_dep_simps [OF new]
  have "\<forall>f \<in> set ds. new_dep k p x ?s f" using Cons.prems by (auto simp: image_iff intro!: add_dep_new)
  moreover have "distinct (map (dep_url ?s p x) ds)" using Cons.prems(2) e(7) by simp
  ultimately obtain t where
    "settle (call_addons client) (map (\<lambda>e. TOp (Invoke (LoadAddOn k e (UObj p e x) None))) ds @ ts, ?s) = settle (call_addons client) (ts, t)"
    "sl_arrays t 0 = sl_arrays ?s 0 @ map (dep_url s p x) ds" "sl_states t = (\<lambda>u. if u \<in> dep_url s p x ` set ds then Some QUEUED else sl_states ?s u)"
    "\<forall>e \<in> set ds. sl_scriptLoadedCallbacks t (dep_url s p x e) = Some [LoadDependencies k e (UObj p e x) None]"
    "\<forall>u. u \<notin> dep_url s p x ` set ds \<longrightarrow> sl_scriptLoadedCallbacks t u = sl_scriptLoadedCallbacks ?s u"
    "sl_queueLoadedCallbacks t = sl_queueLoadedCallbacks ?s" "sl_loading t = sl_loading ?s" "sl_elements t = sl_elements ?s"
    "sl_ran t = sl_ran ?s @ map (\<lambda>e. LoadAddOn k e (UObj p e x) None) ds"
    using Cons.IH [of ?s] e(7) by auto
  moreover have "dep_url s p x e \<notin> dep_url s p x ` set ds" using Cons.prems(2) by simp
  ultimately show ?case using e settle_dep [OF new, of client] by (intro exI [of _ t]) (auto simp: fun_eq_iff)
qed auto

text \<open>C29. When the script of an add-on has loaded and names other add-ons it depends on, which are not there yet, their
  scripts are requested at once: each one gets a script element, with its own dependencies to be looked at when it has loaded,
  and the callback of the queue, with which the editor starts, is not called before.\<close>

theorem dependencies_before_queue_callback:
  assumes "callbacks_of url s = [LoadDependencies k n (UObj p r x) None]" "sl_states s url = Some LOADING"
    and "dependencies n (ad_manager (loader.more s) k) = map DName ds" "ds \<noteq> []"
    and "\<forall>e \<in> set ds. new_dep k p x s e" "distinct (map (dep_url s p x) ds)"
    and "sl_arrays s 0 = []" "sl_loading s = 1" "sl_elements s = [(url, 0)]" "sl_queueLoadedCallbacks s = [Some q]"
  shows "\<exists>t. settle (call_addons client) (script_loaded url 0 s) = Some t \<and> isDone url t
    \<and> sl_elements t = map (\<lambda>e. (dep_url s p x e, 0)) ds \<and> sl_loading t = length ds \<and> sl_queueLoadedCallbacks t = [Some q]
    \<and> (\<forall>e \<in> set ds. callbacks_of (dep_url s p x e) t = [LoadDependencies k e (UObj p e x) None])
    \<and> sl_ran t = sl_ran s @ LoadDependencies k n (UObj p r x) None # map (\<lambda>e. LoadAddOn k e (UObj p e x) None) ds"
proof -
  let ?call = "call_addons client" and ?us = "map (dep_url s p x) ds"
  define s1 where "s1 = s\<lparr>sl_elements := [], sl_states := (sl_states s)(url \<mapsto> LOADED), sl_loading := 0,
    sl_ran := sl_ran s @ [LoadDependencies k n (UObj p r x) None]\<rparr>"
  have url: "url \<notin> set ?us" using assms(2,5) by (auto simp: new_dep_def)
  have dep: "dep_url s1 p x = dep_url s p x" by (simp add: s1_def dep_url_def fun_eq_iff)
  have new: "\<forall>e \<in> set ds. new_dep k p x s1 e" using assms(5) url unfolding new_dep_def dep by (auto simp: s1_def)
  have "settle ?call (script_loaded url 0 s)
      = settle ?call (map (\<lambda>e. TOp (Invoke (LoadAddOn k e (UObj p e x) None))) ds @ [TForget url, TLoad 0], s1)"
    using assms(1,3,8,9)
    by (simp add: script_loaded_def execScriptLoadedCallbacks_def Let_def settle_Cons [of _ "TCall _"] run_task_def do_call_def loadDependencies_def
        createUrl_def resource_def callbacks_of_def s1_def o_def)
  moreover obtain s2 where s2: "settle ?call (map (\<lambda>e. TOp (Invoke (LoadAddOn k e (UObj p e x) None))) ds @ [TForget url, TLoad 0], s1)
      = settle ?call ([TForget url, TLoad 0], s2)"
    "sl_arrays s2 0 = ?us" "sl_states s2 = (\<lambda>u. if u \<in> set ?us then Some QUEUED else sl_states s1 u)"
    "\<forall>e \<in> set ds. sl_scriptLoadedCallbacks s2 (dep_url s p x e) = Some [LoadDependencies k e (UObj p e x) None]"
    "sl_queueLoadedCallbacks s2 = [Some q]" "sl_loading s2 = 0" "sl_elements s2 = []"
    "sl_ran s2 = sl_ran s1 @ map (\<lambda>e. LoadAddOn k e (UObj p e x) None) ds"
    using settle_deps [OF new, of client "[TForget url, TLoad 0]"] assms(6,7,10) dep by (auto simp: s1_def)
  define s3 where "s3 = s2\<lparr>sl_scriptLoadedCallbacks := (sl_scriptLoadedCallbacks s2)(url := None), sl_arrays := (sl_arrays s2)(0 := [])\<rparr>"
  have "settle ?call ([TForget url, TLoad 0], s2) = settle ?call (map (TUrl 0) ?us @ [TCheck], s3)"
    using s2(2) by (simp add: settle_Cons [of _ "TForget _"] settle_Cons [of _ "TLoad _"] run_task_def load_all_def s3_def)
  moreover define s4 where "s4 = s3\<lparr>sl_states := (\<lambda>u. if u \<in> set ?us then Some LOADING else sl_states s3 u), sl_loading := length ds,
    sl_elements := map (\<lambda>e. (dep_url s p x e, 0)) ds, sl_requested := sl_requested s3 @ ?us\<rparr>"
  have "settle ?call (map (TUrl 0) ?us @ [TCheck], s3) = settle ?call ([TCheck], s4)"
    using settle_start [of ?us s3 ?call 0 "[TCheck]"] assms(6) s2(3,6,7) by (simp add: s4_def s3_def o_def cong: if_cong)
  moreover have "settle ?call ([TCheck], s4) = Some s4" using assms(4) by (simp add: settle_Cons run_task_def check_done_def s4_def)
  ultimately have "settle ?call (script_loaded url 0 s) = Some s4" using s2(1) by simp
  moreover have "isDone url s4" using url s2(3) by (simp add: isDone_def s4_def s3_def s1_def)
  moreover have "callbacks_of (dep_url s p x e) s4 = [LoadDependencies k e (UObj p e x) None]" if "e \<in> set ds" for e
    using s2(4) url that by (auto simp: callbacks_of_def s4_def s3_def)
  ultimately show ?thesis using s2(5,8) by (intro exI [of _ s4]) (auto simp: s4_def s3_def s1_def)
qed

definition sample_page :: page where
  "sample_page = (loader.extend new_ScriptLoader \<lparr>ad_manager = (\<lambda>_. addon_add ''a'' 1 (Some [DName ''b'', DName ''c'']) new_AddOnManager),
       ad_language = None, ad_languageLoad = True, ad_baseURL = ''/mce''\<rparr>)
     \<lparr>sl_states := [''/mce/plugins/a/plugin.js'' \<mapsto> LOADING], sl_loading := 1, sl_elements := [(''/mce/plugins/a/plugin.js'', 0)],
      sl_queueLoadedCallbacks := [Some (Client 0)],
      sl_scriptLoadedCallbacks := [''/mce/plugins/a/plugin.js'' \<mapsto> [LoadDependencies 0 ''a'' (plugin_url [] ''a'') None]]\<rparr>"

lemma sample_page_simps:
  "callbacks_of ''/mce/plugins/a/plugin.js'' sample_page = [LoadDependencies 0 ''a'' (UObj (Some ''plugins/'') ''a'' (Some ''/plugin.js'')) None]"
  "sl_states sample_page ''/mce/plugins/a/plugin.js'' = Some LOADING"
  "dependencies ''a'' (ad_manager (loader.more sample_page) 0) = map DName [''b'', ''c'']"
  "dep_url sample_page (Some ''plugins/'') (Some ''/plugin.js'') ''b'' = ''/mce/plugins/b/plugin.js''"
  "dep_url sample_page (Some ''plugins/'') (Some ''/plugin.js'') ''c'' = ''/mce/plugins/c/plugin.js''"
  "sl_arrays sample_page 0 = []" "sl_loading sample_page = 1" "sl_elements sample_page = [(''/mce/plugins/a/plugin.js'', 0)]"
  "sl_queueLoadedCallbacks sample_page = [Some (Client 0)]"
  by (simp_all add: sample_page_def loader.extend_def new_ScriptLoader_def callbacks_of_def plugin_url_def dependencies_def addon_add_def new_AddOnManager_def
      dep_url_def full_url_def url_text_def str_def)

theorem dependencies_before_queue_callback_witness:
  "\<exists>t. settle (call_addons (\<lambda>_ s. ([], loader.more s))) (script_loaded ''/mce/plugins/a/plugin.js'' 0 sample_page) = Some t
     \<and> sl_elements t = [(''/mce/plugins/b/plugin.js'', 0), (''/mce/plugins/c/plugin.js'', 0)] \<and> sl_queueLoadedCallbacks t = [Some (Client 0)]"
proof -
  have "\<forall>e \<in> set [''b'', ''c'']. new_dep 0 (Some ''plugins/'') (Some ''/plugin.js'') sample_page e"
    by (simp add: new_dep_def sample_page_simps truthy_def)
      (simp add: sample_page_def loader.extend_def new_ScriptLoader_def addon_add_def new_AddOnManager_def)
  then show ?thesis
    using dependencies_before_queue_callback [OF sample_page_simps(1-3) _ _ _ sample_page_simps(6-9)]
    by (fastforce simp: sample_page_simps)
qed

end
