(* ===== verification/RegExp.thy ===== *)
theory RegExp
  imports JsNumber
begin

text \<open>
  Regular expressions of the language, as the sources use them: a pattern is tried by backtracking, greedy quantifiers try the
  longest repetition first, lazy ones the shortest, and alternatives are tried from the left. \<open>matches\<close> lists all ways a pattern matches at
  the head of a text in the order they are tried, so that the match is the first of them; groups that are inside a
  repetition do not occur in the sources. \<open>fm\<close> is the relation of a text and its first match, with one rule per kind of pattern.
\<close>

section \<open>Patterns\<close>

datatype regex = Eps | Chr "code_unit \<Rightarrow> bool" | Seq regex regex | Alt regex regex | Star regex | Lazy regex | Grp nat regex

definition Plus :: "regex \<Rightarrow> regex" where
  "Plus r = Seq r (Star r)"

definition Opt :: "regex \<Rightarrow> regex" where
  "Opt r = Alt r Eps"

definition lit :: "ustring \<Rightarrow> regex" where
  "lit s = foldr (\<lambda>c. Seq (Chr (\<lambda>d. d = c))) s Eps"

text \<open>Literal text with the flag \<open>i\<close>; the letters of the sources are Basic Latin.\<close>

definition liti :: "ustring \<Rightarrow> regex" where
  "liti s = foldr (\<lambda>c. Seq (Chr (\<lambda>d. to_lower d = to_lower c))) s Eps"

definition any_chr :: regex where
  "any_chr = Chr (\<lambda>_. True)"

text \<open>What is left of the text, and the groups that have matched.\<close>

type_synonym mstate = "ustring \<times> (nat \<times> ustring) list"

function matches :: "regex \<Rightarrow> mstate \<Rightarrow> mstate list" where
  "matches Eps s = [s]"
| "matches (Chr p) s = (case fst s of [] \<Rightarrow> [] | c # cs \<Rightarrow> if p c then [(cs, snd s)] else [])"
| "matches (Seq a b) s = concat (map (matches b) (matches a s))"
| "matches (Alt a b) s = matches a s @ matches b s"
| "matches (Star r) s =
     concat (map (matches (Star r)) (filter (\<lambda>t. length (fst t) < length (fst s)) (matches r s))) @ [s]"
| "matches (Lazy r) s =
     s # concat (map (matches (Lazy r)) (filter (\<lambda>t. length (fst t) < length (fst s)) (matches r s)))"
| "matches (Grp k r) s =
     map (\<lambda>t. (fst t, (k, take (length (fst s) - length (fst t)) (fst s)) # snd t)) (matches r s)"
  by pat_completeness auto
termination
  by (relation "measures [\<lambda>(r, s). size r, \<lambda>(r, s). length (fst s)]") auto

declare matches.simps(5,6) [simp del]

text \<open>\<open>exec\<close>: the first place where the pattern matches, as the text before it, what is left, and the groups.\<close>

fun exec :: "regex \<Rightarrow> ustring \<Rightarrow> (ustring \<times> ustring \<times> (nat \<times> ustring) list) option" where
  "exec r s =
     (case matches r (s, []) of
        (rest, groups) # _ \<Rightarrow> Some ([], rest, groups)
      | [] \<Rightarrow> (case s of [] \<Rightarrow> None | c # cs \<Rightarrow> map_option (\<lambda>(b, rest, groups). (c # b, rest, groups)) (exec r cs)))"

declare exec.simps [simp del]

text \<open>\<open>test\<close>, and the matches of a pattern with the flag \<open>g\<close>, which never matches the empty text here.\<close>

definition test :: "regex \<Rightarrow> ustring \<Rightarrow> bool" where
  "test r s \<longleftrightarrow> exec r s \<noteq> None"

function all_groups :: "regex \<Rightarrow> ustring \<Rightarrow> (nat \<times> ustring) list list" where
  "all_groups r s =
     (case exec r s of
        None \<Rightarrow> []
      | Some (b, rest, groups) \<Rightarrow> groups # (if length rest < length s then all_groups r rest else []))"
  by pat_completeness auto
termination
  by (relation "measure (\<lambda>(r, s). length s)") auto

declare all_groups.simps [simp del]

text \<open>A group that has matched a text that is not empty.\<close>

definition group :: "nat \<Rightarrow> (nat \<times> ustring) list \<Rightarrow> ustring option" where
  "group k groups = (case map_of groups k of Some (c # cs) \<Rightarrow> Some (c # cs) | _ \<Rightarrow> None)"

section \<open>What a match leaves\<close>

lemma in_Star: "t \<in> set (matches (Star r) s) \<longleftrightarrow> t = s \<or> (\<exists>u \<in> set (matches r s). length (fst u) < length (fst s) \<and> t \<in> set (matches (Star r) u))"
  by (subst matches.simps(5)) auto

lemma in_Lazy: "t \<in> set (matches (Lazy r) s) \<longleftrightarrow> t = s \<or> (\<exists>u \<in> set (matches r s). length (fst u) < length (fst s) \<and> t \<in> set (matches (Lazy r) u))"
  by (subst matches.simps(6)) auto

lemma matches_suffix: "t \<in> set (matches r s) \<Longrightarrow> \<exists>xs. fst s = xs @ fst t"
proof (induction r s arbitrary: t rule: matches.induct)
  case (3 a b s)
  then obtain u where u: "u \<in> set (matches a s)" "t \<in> set (matches b u)" by auto
  obtain xs ys where "fst s = xs @ fst u" "fst u = ys @ fst t" using 3(1) [OF u(1)] 3(2) [OF u] by blast
  then have "fst s = (xs @ ys) @ fst t" by simp
  then show ?case by blast
next
  case (5 r s)
  show ?case
  proof (cases "t = s")
    case False
    then obtain u where u: "u \<in> set (matches r s)" "length (fst u) < length (fst s)" "t \<in> set (matches (Star r) u)" using 5(3) in_Star [of t r s] by blast
    have "u \<in> set (filter (\<lambda>t. length (fst t) < length (fst s)) (matches r s))" using u(1,2) by simp
    then obtain xs ys where "fst s = xs @ fst u" "fst u = ys @ fst t" using 5(1) [OF u(1)] 5(2) [OF _ u(3)] by blast
    then have "fst s = (xs @ ys) @ fst t" by simp
    then show ?thesis by blast
  qed simp
next
  case (6 r s)
  show ?case
  proof (cases "t = s")
    case False
    then obtain u where u: "u \<in> set (matches r s)" "length (fst u) < length (fst s)" "t \<in> set (matches (Lazy r) u)" using 6(3) in_Lazy [of t r s] by blast
    have "u \<in> set (filter (\<lambda>t. length (fst t) < length (fst s)) (matches r s))" using u(1,2) by simp
    then obtain xs ys where "fst s = xs @ fst u" "fst u = ys @ fst t" using 6(1) [OF u(1)] 6(2) [OF _ u(3)] by blast
    then have "fst s = (xs @ ys) @ fst t" by simp
    then show ?thesis by blast
  qed simp
qed (auto split: list.splits if_splits)

text \<open>Patterns that start with a certain character.\<close>

lemma matches_Chr_Seq: "matches (Seq (Chr p) r) s = (case fst s of [] \<Rightarrow> [] | c # cs \<Rightarrow> if p c then matches r (cs, snd s) else [])"
  by (simp split: list.splits)

lemma exec_cases:
  assumes "exec r s = Some (b, rest, groups)"
  obtains u where "s = b @ u" "matches r (u, []) \<noteq> []" "hd (matches r (u, [])) = (rest, groups)"
  using assms
proof (induction s arbitrary: b thesis)
  case Nil
  then show ?case using Nil.prems(1) [of "[]"] by (simp add: exec.simps [of r "[]"] split: list.splits)
next
  case (Cons c s)
  show ?case
  proof (cases "matches r (c # s, [])")
    case (Cons t ts)
    then show ?thesis using Cons.prems(2) Cons.prems(1) [of "c # s"] by (auto simp: exec.simps [of r "c # s"] split: prod.splits)
  next
    case Nil
    then obtain b' where b: "b = c # b'" "exec r s = Some (b', rest, groups)"
      using Cons.prems(2) by (auto simp: exec.simps [of r "c # s"])
    then obtain u where "s = b' @ u" "matches r (u, []) \<noteq> []" "hd (matches r (u, [])) = (rest, groups)" using Cons.IH by blast
    then show ?thesis using Cons.prems(1) [of u] b(1) by simp
  qed
qed

lemma exec_length:
  assumes "exec r s = Some (b, rest, groups)"
  shows "length b + length rest \<le> length s"
proof -
  obtain u where u: "s = b @ u" "matches r (u, []) \<noteq> []" "hd (matches r (u, [])) = (rest, groups)" using exec_cases [OF assms] .
  then have "(rest, groups) \<in> set (matches r (u, []))" by (metis list.set_sel(1))
  from matches_suffix [OF this] u(1) show ?thesis by auto
qed

text \<open>A pattern that starts with a character takes at least this one.\<close>

lemma exec_Chr_shorter:
  assumes "exec (Seq (Chr p) r) s = Some (b, rest, groups)"
  shows "length b + length rest < length s"
proof -
  obtain u where u: "s = b @ u" "matches (Seq (Chr p) r) (u, []) \<noteq> []" "hd (matches (Seq (Chr p) r) (u, [])) = (rest, groups)"
    using exec_cases [OF assms] .
  then have "(rest, groups) \<in> set (matches (Seq (Chr p) r) (u, []))" by (metis list.set_sel(1))
  then obtain c cs where c: "u = c # cs" "(rest, groups) \<in> set (matches r (cs, []))"
    by (auto simp: matches_Chr_Seq simp del: matches.simps split: list.splits if_splits)
  from matches_suffix [OF c(2)] u(1) c(1) show ?thesis by auto
qed

section \<open>The first match\<close>

definition fm :: "regex \<Rightarrow> mstate \<Rightarrow> mstate \<Rightarrow> bool" where
  "fm r s t \<longleftrightarrow> (\<exists>ts. matches r s = t # ts)"

lemma fm_Eps: "fm Eps s s"
  by (simp add: fm_def)

lemma fm_Chr: "p c \<Longrightarrow> fm (Chr p) (c # cs, g) (cs, g)"
  by (simp add: fm_def)

lemma fm_Seq: "fm a s t \<Longrightarrow> fm b t u \<Longrightarrow> fm (Seq a b) s u"
  by (auto simp: fm_def)

lemma fm_Alt1: "fm a s t \<Longrightarrow> fm (Alt a b) s t"
  by (auto simp: fm_def)

lemma fm_Alt2: "matches a s = [] \<Longrightarrow> fm b s t \<Longrightarrow> fm (Alt a b) s t"
  by (simp add: fm_def)

lemma fm_Grp: "fm r (xs @ ys, g) (ys, g') \<Longrightarrow> fm (Grp k r) (xs @ ys, g) (ys, (k, xs) # g')"
  by (auto simp: fm_def)

lemma fm_Star_step: "fm r s t \<Longrightarrow> length (fst t) < length (fst s) \<Longrightarrow> fm (Star r) t u \<Longrightarrow> fm (Star r) s u"
  unfolding fm_def by (auto simp: matches.simps(5))

lemma fm_Star_stop: "matches r s = [] \<Longrightarrow> fm (Star r) s s"
  unfolding fm_def by (simp add: matches.simps(5))

lemma fm_Plus: "fm r s t \<Longrightarrow> fm (Star r) t u \<Longrightarrow> fm (Plus r) s u"
  unfolding Plus_def by (rule fm_Seq)

lemma fm_Opt: "fm r s t \<Longrightarrow> fm (Opt r) s t"
  unfolding Opt_def by (rule fm_Alt1)

lemma fm_lit: "fm (lit xs) (xs @ ys, g) (ys, g)"
proof (induction xs)
  case (Cons x xs)
  have "lit (x # xs) = Seq (Chr (\<lambda>d. d = x)) (lit xs)" by (simp add: lit_def)
  then show ?case using fm_Seq [OF fm_Chr [of "\<lambda>d. d = x" x "xs @ ys" g] Cons] by simp
qed (simp add: lit_def fm_Eps)

text \<open>Runs of characters of a class.\<close>

definition stops :: "(code_unit \<Rightarrow> bool) \<Rightarrow> ustring \<Rightarrow> bool" where
  "stops p ys \<longleftrightarrow> (case ys of [] \<Rightarrow> True | c # _ \<Rightarrow> \<not> p c)"

lemma stops_simps [simp]: "stops p []" "stops p (c # cs) = (\<not> p c)"
  by (simp_all add: stops_def)

lemma fm_run: "list_all p xs \<Longrightarrow> stops p ys \<Longrightarrow> fm (Star (Chr p)) (xs @ ys, g) (ys, g)"
proof (induction xs)
  case Nil
  then have "matches (Chr p) (ys, g) = []" by (cases ys) simp_all
  then show ?case using fm_Star_stop by simp
next
  case (Cons x xs)
  then show ?case using fm_Star_step [OF fm_Chr [of p x "xs @ ys" g]] by simp
qed

lemma fm_run1: "xs \<noteq> [] \<Longrightarrow> list_all p xs \<Longrightarrow> stops p ys \<Longrightarrow> fm (Plus (Chr p)) (xs @ ys, g) (ys, g)"
  by (cases xs) (auto intro!: fm_Plus fm_run fm_Chr)

text \<open>A lazy run of any characters takes the shortest text after which the rest of the pattern matches.\<close>

lemma lazy_any: "matches (Lazy any_chr) (s, g) = map (\<lambda>i. (drop i s, g)) [0..<Suc (length s)]"
proof (induction s)
  case (Cons c s)
  have "map (\<lambda>i. (drop i (c # s), g)) [0..<Suc (length (c # s))] = (c # s, g) # map (\<lambda>i. (drop i (c # s), g)) (map Suc [0..<Suc (length s)])"
    by (simp only: map_Suc_upt) (simp add: upt_rec)
  then show ?case using Cons by (subst matches.simps(6)) (simp add: any_chr_def comp_def del: upt_Suc)
qed (simp add: any_chr_def matches.simps(6))

lemma fm_lazy:
  assumes "\<And>i. i < length xs \<Longrightarrow> matches b (drop i xs @ ys, (k, take i xs) # g) = []" "fm b (ys, (k, xs) # g) u"
  shows "fm (Seq (Grp k (Lazy any_chr)) b) (xs @ ys, g) u"
proof -
  let ?f = "\<lambda>i. matches b (drop i (xs @ ys), (k, take i (xs @ ys)) # g)"
  have "matches (Seq (Grp k (Lazy any_chr)) b) (xs @ ys, g) = concat (map ?f [0..<Suc (length (xs @ ys))])"
    by (simp add: lazy_any comp_def del: upt_Suc drop_append take_append) (intro arg_cong [of _ _ concat] map_cong refl, auto)
  also have "[0..<Suc (length (xs @ ys))] = [0..<length xs] @ length xs # [Suc (length xs)..<Suc (length (xs @ ys))]"
    using upt_add_eq_append [of 0 "length xs" "Suc (length ys)"] by (simp add: upt_rec)
  finally have "matches (Seq (Grp k (Lazy any_chr)) b) (xs @ ys, g)
      = concat (map ?f [0..<length xs]) @ ?f (length xs) @ concat (map ?f [Suc (length xs)..<Suc (length (xs @ ys))])" by simp
  moreover have "concat (map ?f [0..<length xs]) = []" using assms(1) by simp
  moreover obtain ts where "?f (length xs) = u # ts" using assms(2) by (auto simp: fm_def)
  ultimately have "matches (Seq (Grp k (Lazy any_chr)) b) (xs @ ys, g) = u # ts @ concat (map ?f [Suc (length xs)..<Suc (length (xs @ ys))])"
    by (simp only: append.simps)
  then show ?thesis unfolding fm_def by blast
qed

lemma matches_lit: "matches (lit xs) (ys, g) = (if take (length xs) ys = xs then [(drop (length xs) ys, g)] else [])"
proof (induction xs arbitrary: ys)
  case (Cons x xs)
  have "lit (x # xs) = Seq (Chr (\<lambda>d. d = x)) (lit xs)" by (simp add: lit_def)
  then show ?case using Cons by (cases ys) auto
qed (simp add: lit_def)

text \<open>Where the pattern is found.\<close>

lemma exec_here: "fm r (s, []) (rest, groups) \<Longrightarrow> exec r s = Some ([], rest, groups)"
  by (subst exec.simps) (auto simp: fm_def)

lemma exec_skip: "(\<And>c cs. c \<in> set xs \<Longrightarrow> matches r (c # cs, []) = []) \<Longrightarrow> exec r (xs @ s) = map_option (\<lambda>(b, rest, groups). (xs @ b, rest, groups)) (exec r s)"
proof (induction xs)
  case Nil
  show ?case by (cases "exec r s") auto
next
  case (Cons x xs)
  have "exec r ((x # xs) @ s) = map_option (\<lambda>(b, rest, groups). (x # b, rest, groups)) (exec r (xs @ s))"
    using Cons.prems by (subst exec.simps) simp
  then show ?case using Cons by (cases "exec r s") auto
qed

lemma exec_none: "(\<And>c cs. c \<in> set xs \<Longrightarrow> matches r (c # cs, []) = []) \<Longrightarrow> matches r ([], []) = [] \<Longrightarrow> exec r xs = None"
  using exec_skip [of xs r "[]"] by (simp add: exec.simps [of r "[]"])

end
