(* ===== verification/JsUri.thy ===== *)
theory JsUri
  imports JsNumber
begin

text \<open>
  \<open>decodeURIComponent\<close> and \<open>unescape\<close> of the language. The first reads the octets after percent signs as UTF-8
  and raises an error, None here, where they are no encoding of a character; the second reads each octet as a character and never fails.
\<close>

definition hex_val :: "code_unit \<Rightarrow> nat option" where
  "hex_val c = (case digit_val c of Some d \<Rightarrow> if d < 16 then Some d else None | None \<Rightarrow> None)"

text \<open>Two hexadecimal digits after a percent sign.\<close>

definition octet :: "ustring \<Rightarrow> (nat \<times> ustring) option" where
  "octet s = (case s of
     p # a # b # rest \<Rightarrow> if p = 0x25 then (case (hex_val a, hex_val b) of (Some x, Some y) \<Rightarrow> Some (16 * x + y, rest) | _ \<Rightarrow> None) else None
   | _ \<Rightarrow> None)"

lemma octet_shorter: "octet s = Some (b, r) \<Longrightarrow> length r < length s"
  by (auto simp: octet_def split: list.splits if_splits option.splits)

text \<open>The octets that continue a character: each has the bits 10 on top.\<close>

fun continue :: "nat \<Rightarrow> nat \<Rightarrow> ustring \<Rightarrow> (nat \<times> ustring) option" where
  "continue 0 v s = Some (v, s)"
| "continue (Suc n) v s = (case octet s of
     Some (b, r) \<Rightarrow> if b div 64 = 2 then continue n (v * 64 + b mod 64) r else None
   | None \<Rightarrow> None)"

lemma continue_shorter: "continue n v s = Some (w, r) \<Longrightarrow> length r \<le> length s"
proof (induction n arbitrary: v s)
  case (Suc n)
  then obtain b t where "octet s = Some (b, t)" "continue n (v * 64 + b mod 64) t = Some (w, r)" by (auto split: option.splits if_splits)
  then show ?case using Suc.IH octet_shorter by fastforce
qed simp

text \<open>The character that starts with the octet \<open>b\<close>: the number of octets that follow, and the least value of such a length.\<close>

definition utf8 :: "nat \<Rightarrow> ustring \<Rightarrow> (nat \<times> ustring) option" where
  "utf8 b s =
     (if b < 0x80 then Some (b, s)
      else if 0xC0 \<le> b \<and> b < 0xE0
      then (case continue 1 (b mod 32) s of Some (v, r) \<Rightarrow> if v \<ge> 0x80 then Some (v, r) else None | None \<Rightarrow> None)
      else if 0xE0 \<le> b \<and> b < 0xF0
      then (case continue 2 (b mod 16) s of Some (v, r) \<Rightarrow> if v \<ge> 0x800 \<and> \<not> (0xD800 \<le> v \<and> v \<le> 0xDFFF) then Some (v, r) else None | None \<Rightarrow> None)
      else if 0xF0 \<le> b \<and> b < 0xF8
      then (case continue 3 (b mod 8) s of Some (v, r) \<Rightarrow> if v \<ge> 0x10000 \<and> v \<le> 0x10FFFF then Some (v, r) else None | None \<Rightarrow> None)
      else None)"

lemma utf8_shorter: "utf8 b s = Some (v, r) \<Longrightarrow> length r \<le> length s"
  by (auto simp: utf8_def simp del: continue.simps dest!: continue_shorter split: if_splits option.splits)

definition utf16 :: "nat \<Rightarrow> ustring" where
  "utf16 v = (if v < 0x10000 then [of_nat v] else [of_nat (0xD800 + (v - 0x10000) div 1024), of_nat (0xDC00 + (v - 0x10000) mod 1024)])"

function decodeURIComponent :: "ustring \<Rightarrow> ustring option" where
  "decodeURIComponent [] = Some []"
| "decodeURIComponent (c # s) =
     (if c \<noteq> 0x25 then map_option ((#) c) (decodeURIComponent s)
      else (case octet (c # s) of
              None \<Rightarrow> None
            | Some (b, r) \<Rightarrow> (case utf8 b r of None \<Rightarrow> None | Some (v, r') \<Rightarrow> map_option ((@) (utf16 v)) (decodeURIComponent r'))))"
  by pat_completeness auto
termination
proof (relation "measure length", goal_cases)
  case (3 c s x b r y v r')
  then have "length r < length (c # s)" "length r' \<le> length r" by (auto dest: octet_shorter utf8_shorter)
  then show ?case by simp
qed auto

text \<open>\<open>%u\<close> with four digits, or an octet.\<close>

definition escaped :: "ustring \<Rightarrow> (nat \<times> ustring) option" where
  "escaped s = (case s of
     p # u # a # b # c # d # rest \<Rightarrow>
       (case (hex_val a, hex_val b, hex_val c, hex_val d) of
          (Some w, Some x, Some y, Some z) \<Rightarrow>
            if p = 0x25 \<and> u = 0x75 then Some (4096 * w + 256 * x + 16 * y + z, rest) else octet s
        | _ \<Rightarrow> octet s)
   | _ \<Rightarrow> octet s)"

lemma escaped_shorter: "escaped s = Some (v, r) \<Longrightarrow> length r < length s"
  by (auto simp: escaped_def dest: octet_shorter split: list.splits if_splits option.splits)

function unescape :: "ustring \<Rightarrow> ustring" where
  "unescape [] = []"
| "unescape (c # s) = (case escaped (c # s) of None \<Rightarrow> c # unescape s | Some (v, r) \<Rightarrow> of_nat v # unescape r)"
  by pat_completeness auto
termination
  by (relation "measure length") (auto dest!: escaped_shorter)

text \<open>A text without a percent sign is its own decoding.\<close>

lemma decodeURIComponent_id: "0x25 \<notin> set s \<Longrightarrow> decodeURIComponent s = Some s"
  by (induction s) auto

end
