(* ===== verification/SaxParser.thy ===== *)
theory SaxParser
  imports RegExp JsUri HtmlWriter
begin

text \<open>
  \<open>classes/html/SaxParser.js\<close>: it reads the text of a document with one regular expression per kind of token, keeps a stack of the open
  elements and reports events. The tables of the schema enter as a record, with the rules as they are after \<open>getElementRule\<close>. None is a
  TypeError. The variables \<open>attribsValue\<close>, \<open>isInternalElement\<close> and \<open>idCount\<close> live from one token to the next, as in the
  source. The regular expressions of names only admit Basic Latin letters; of the other letters only the Kelvin sign, which an end tag may
  contain, has a Basic Latin letter as its lower case.
\<close>

section \<open>Settings and rules\<close>

record attr_rule =
  ar_validValues :: "(ustring \<rightharpoonup> unit) option"

record tag_rule =
  tr_attributes :: "ustring \<rightharpoonup> attr_rule"
  tr_patterns :: "((ustring \<Rightarrow> bool) \<times> attr_rule) list"
  tr_required :: "ustring list option"
  tr_default :: "(ustring \<times> ustring) list"
  tr_forced :: "(ustring \<times> ustring) list"
  tr_removeEmptyAttrs :: bool

record sax_cfg =
  sx_validate :: bool
  sx_removeInternals :: bool
  sx_fixSelfClosing :: bool
  sx_allowScriptUrls :: bool
  sx_allowConditional :: bool
  sx_shortEnded :: "ustring \<rightharpoonup> unit"
  sx_selfClosing :: "ustring \<rightharpoonup> unit"
  sx_boolAttrs :: "ustring \<rightharpoonup> unit"
  sx_special :: "ustring \<rightharpoonup> unit"
  sx_rule :: "ustring \<Rightarrow> tag_rule option"
  sx_nativeDecode :: "ustring \<Rightarrow> ustring"

text \<open>The open elements, the last one first, each with whether it has been reported.\<close>

record sax_state =
  ss_stack :: "(ustring \<times> bool) list"
  ss_attribsValue :: ustring
  ss_isInternal :: bool
  ss_idCount :: nat
  ss_events :: "event list"

definition report :: "event list \<Rightarrow> sax_state \<Rightarrow> sax_state" where
  "report es s = s\<lparr>ss_events := ss_events s @ es\<rparr>"

section \<open>The regular expressions\<close>

definition not_gt :: regex where
  "not_gt = Chr (\<lambda>c. c \<noteq> 0x3E)"

definition space_chr :: regex where
  "space_chr = Chr js_space"

definition name_chr :: "code_unit \<Rightarrow> bool" where
  "name_chr c \<longleftrightarrow> (0x30 \<le> c \<and> c \<le> 0x39) \<or> (0x41 \<le> c \<and> c \<le> 0x5A) \<or> (0x61 \<le> c \<and> c \<le> 0x7A) \<or> c = 0x2D \<or> c = 0x3A \<or> c = 0x2E"

definition quoted :: "code_unit \<Rightarrow> regex" where
  "quoted q = Seq (Chr (\<lambda>c. c = q)) (Seq (Star (Chr (\<lambda>c. c \<noteq> q))) (Chr (\<lambda>c. c = q)))"

definition comment_re :: regex where
  "comment_re = Seq (lit (js ''!--'')) (Seq (Grp 1 (Lazy any_chr)) (lit (js ''-->'')))"

definition cdata_re :: regex where
  "cdata_re = Seq (lit (js ''![CDATA['')) (Seq (Grp 2 (Lazy any_chr)) (lit (js '']]>'')))"

definition doctype_re :: regex where
  "doctype_re = Seq (lit (js ''!DOCTYPE'')) (Seq (Grp 3 (Lazy any_chr)) (lit (js ''>'')))"

definition pi_re :: regex where
  "pi_re = Seq (lit (js ''?'')) (Seq (Grp 4 (Plus (Chr (\<lambda>c. \<not> js_space c \<and> c \<notin> {0x2F, 0x3C, 0x3E})))) (Seq (Opt (lit (js '' '')))
     (Seq (Grp 5 (Lazy any_chr)) (Seq (Chr (\<lambda>c. c = 0x3F \<or> c = 0x2F)) (lit (js ''>''))))))"

definition end_re :: regex where
  "end_re = Seq (lit (js ''/'')) (Seq (Grp 6 (Plus not_gt)) (lit (js ''>'')))"

definition attr_re :: regex where
  "attr_re = Seq (Plus space_chr) (Seq (Plus (Chr (\<lambda>c. c \<notin> {0x22, 0x27, 0x3E}))) (Alt (quoted 0x22) (Alt (quoted 0x27) (Star not_gt))))"

definition start_re :: regex where
  "start_re = Seq (Grp 7 (Plus (Chr name_chr))) (Seq (Grp 8 (Alt (Star attr_re) (Alt (lit (js ''/'')) (Plus space_chr)))) (lit (js ''>'')))"

definition tokenRegExp :: regex where
  "tokenRegExp = Seq (Chr (\<lambda>c. c = 0x3C)) (Alt comment_re (Alt cdata_re (Alt doctype_re (Alt pi_re (Alt end_re start_re)))))"

definition quoted_value :: "nat \<Rightarrow> code_unit \<Rightarrow> regex" where
  "quoted_value k q = Seq (Chr (\<lambda>c. c = q)) (Seq (Grp k (Star (Chr (\<lambda>c. c \<noteq> q)))) (Chr (\<lambda>c. c = q)))"

definition attr_chr :: "code_unit \<Rightarrow> bool" where
  "attr_chr c \<longleftrightarrow> is_word_char c \<or> c = 0x3A \<or> c = 0x2D"

definition attrRegExp :: regex where
  "attrRegExp = Seq (Grp 1 (Plus (Chr attr_chr))) (Opt (Seq (Star space_chr) (Seq (lit (js ''='')) (Seq (Star space_chr)
     (Alt (quoted_value 2 0x22) (Alt (quoted_value 3 0x27) (Grp 4 (Plus (Chr (\<lambda>c. c \<noteq> 0x3E \<and> \<not> js_space c))))))))))"

definition scriptUriRegExp :: regex where
  "scriptUriRegExp = Seq (Alt (liti (js ''java'')) (liti (js ''vb''))) (liti (js ''script:''))"

text \<open>The end of a special element, made by the schema.\<close>

definition endRegExp :: "ustring \<Rightarrow> regex" where
  "endRegExp name = Seq (lit (js ''</'')) (Seq (liti name) (Seq (Star not_gt) (lit (js ''>''))))"

section \<open>Attributes\<close>

definition find_rule :: "tag_rule \<Rightarrow> ustring \<Rightarrow> attr_rule option" where
  "find_rule tr name =
     (case get_prop (tr_attributes tr) name of
        Own r \<Rightarrow> Some r
      | Inherited \<Rightarrow> Some \<lparr>ar_validValues = None\<rparr>
      | Undefined \<Rightarrow> map_option snd (find (\<lambda>(pattern, _). pattern name) (rev (tr_patterns tr))))"

definition attr_valid :: "tag_rule \<Rightarrow> ustring \<Rightarrow> ustring \<Rightarrow> bool" where
  "attr_valid tr name v =
     (case find_rule tr name of
        None \<Rightarrow> False
      | Some r \<Rightarrow> (case ar_validValues r of None \<Rightarrow> True | Some vals \<Rightarrow> has_prop vals v))"

definition script_url :: "ustring \<Rightarrow> bool" where
  "script_url v =
     (let uri = filter (\<lambda>c. \<not> js_space c \<and> \<not> c \<le> 0x1F) v
      in case decodeURIComponent uri of
           Some u \<Rightarrow> test scriptUriRegExp u
         | None \<Rightarrow> test scriptUriRegExp (unescape uri))"

definition url_attr :: "ustring \<Rightarrow> bool" where
  "url_attr name = has_prop (makeMap_str (js ''src,href'') (cu CHR '','')) name"

definition attr_value :: "sax_cfg \<Rightarrow> ustring \<Rightarrow> (nat \<times> ustring) list \<Rightarrow> ustring" where
  "attr_value cfg name g =
     (if has_prop (sx_boolAttrs cfg) name then name
      else decode (sx_nativeDecode cfg)
        (case group 2 g of Some v \<Rightarrow> v | None \<Rightarrow> (case group 3 g of Some v \<Rightarrow> v | None \<Rightarrow> (case group 4 g of Some v \<Rightarrow> v | None \<Rightarrow> []))))"

definition parseAttribute :: "sax_cfg \<Rightarrow> tag_rule option \<Rightarrow> bool \<Rightarrow> (nat \<times> ustring) list \<Rightarrow> (ustring \<times> ustring) list \<Rightarrow> (ustring \<times> ustring) list" where
  "parseAttribute cfg rule internal g attrList =
     (let name = to_lower_case (case map_of g 1 of Some n \<Rightarrow> n | None \<Rightarrow> []);
          v = attr_value cfg name g
      in if sx_validate cfg \<and> \<not> internal \<and> take 5 name \<noteq> js ''data-'' \<and> (case rule of Some tr \<Rightarrow> \<not> attr_valid tr name v | None \<Rightarrow> True)
         then attrList
         else if url_attr name \<and> \<not> sx_allowScriptUrls cfg \<and> script_url v then attrList
         else attrList @ [(name, v)])"

definition uid_value :: "ustring \<Rightarrow> nat \<Rightarrow> ustring \<times> nat" where
  "uid_value v n = (if v = js ''{$uid}'' then (js ''mce_'' @ show_nat n, Suc n) else (v, n))"

fun add_forced :: "(ustring \<times> ustring) list \<Rightarrow> (ustring \<times> ustring) list \<Rightarrow> nat \<Rightarrow> (ustring \<times> ustring) list \<times> nat" where
  "add_forced [] attrList n = (attrList, n)"
| "add_forced ((name, v) # rest) attrList n = (let (w, m) = uid_value v n in add_forced rest (attrList @ [(name, w)]) m)"

fun add_default :: "(ustring \<times> ustring) list \<Rightarrow> (ustring \<times> ustring) list \<Rightarrow> nat \<Rightarrow> (ustring \<times> ustring) list \<times> nat" where
  "add_default [] attrList n = (attrList, n)"
| "add_default ((name, v) # rest) attrList n =
     (if has_prop (map_of attrList) name then add_default rest attrList n
      else (let (w, m) = uid_value v n in add_default rest (attrList @ [(name, w)]) m))"

text \<open>The attributes of an element that is validated, whether it is still valid, and the next number.\<close>

definition check_attrs :: "tag_rule \<Rightarrow> bool \<Rightarrow> (ustring \<times> ustring) list \<Rightarrow> nat \<Rightarrow> bool \<times> (ustring \<times> ustring) list \<times> nat" where
  "check_attrs tr valid attrList n =
     (let valid1 = (valid \<and> \<not> (tr_removeEmptyAttrs tr \<and> attrList = []));
          (a1, n1) = add_forced (rev (tr_forced tr)) attrList n;
          (a2, n2) = add_default (rev (tr_default tr)) a1 n1;
          valid2 = (valid1 \<and> (case tr_required tr of None \<Rightarrow> True | Some names \<Rightarrow> list_ex (has_prop (map_of a2)) names));
          bogus = (case map_of (rev a2) (js ''data-mce-bogus'') of Some v \<Rightarrow> v \<noteq> [] | None \<Rightarrow> False)
      in (valid2 \<and> \<not> bogus, a2, n2))"

section \<open>Elements\<close>

definition end_events :: "(ustring \<times> bool) list \<Rightarrow> event list" where
  "end_events st = map (\<lambda>(name, _). End name) (filter snd st)"

definition processEndTag :: "ustring \<Rightarrow> sax_state \<Rightarrow> sax_state" where
  "processEndTag name s =
     (case dropWhile (\<lambda>e. fst e \<noteq> name) (ss_stack s) of
        [] \<Rightarrow> s
      | e # rest \<Rightarrow> (report (end_events (takeWhile (\<lambda>e. fst e \<noteq> name) (ss_stack s) @ [e])) s)\<lparr>ss_stack := rest\<rparr>)"

definition tag_name :: "ustring \<Rightarrow> ustring" where
  "tag_name v = (case map (\<lambda>c. if c = 0x212A then 0x6B else to_lower c) v of c # cs \<Rightarrow> if c = 0x3A then cs else c # cs | [] \<Rightarrow> [])"

text \<open>The attributes of an element: whether it is valid, the list, and the next number.\<close>

definition internal_element :: "ustring \<Rightarrow> sax_state \<Rightarrow> bool" where
  "internal_element attribs s = (if attribs \<noteq> [] then test (lit (js ''data-mce-type'')) attribs else ss_isInternal s)"

definition element_attrs :: "sax_cfg \<Rightarrow> tag_rule option \<Rightarrow> bool \<Rightarrow> ustring \<Rightarrow> nat \<Rightarrow> bool \<times> (ustring \<times> ustring) list \<times> nat" where
  "element_attrs cfg rule internal attribs n =
     (let valid = \<not> (attribs \<noteq> [] \<and> internal \<and> sx_removeInternals cfg);
          attrList = fold (parseAttribute cfg rule internal) (all_groups attrRegExp attribs) []
      in case rule of
           Some tr \<Rightarrow> if sx_validate cfg \<and> \<not> internal then check_attrs tr valid attrList n else (valid, attrList, n)
         | None \<Rightarrow> (valid, attrList, n))"

text \<open>The element itself: whether it is valid, and the state with its event.\<close>

definition start_element :: "sax_cfg \<Rightarrow> ustring \<Rightarrow> ustring \<Rightarrow> sax_state \<Rightarrow> bool \<times> sax_state" where
  "start_element cfg name attribs s =
     (if sx_validate cfg \<and> sx_rule cfg name = None then (False, s)
      else
        let internal = internal_element attribs s;
            (valid, attrList, n) = element_attrs cfg (sx_rule cfg name) internal attribs (ss_idCount s);
            s1 = s\<lparr>ss_attribsValue := attribs, ss_isInternal := internal, ss_idCount := n\<rparr>
        in (valid, if valid then report [Start name (Some attrList) (has_prop (sx_shortEnded cfg) name)] s1 else s1))"

definition slash_last :: "ustring \<Rightarrow> bool" where
  "slash_last a \<longleftrightarrow> length (takeWhile (\<lambda>c. c \<noteq> 0x2F) a) = length a - 1"

text \<open>The contents of a special element is read up to its end tag, or to the end of the document.\<close>

definition special_element :: "ustring \<Rightarrow> bool \<Rightarrow> ustring \<Rightarrow> sax_state \<Rightarrow> ustring \<times> sax_state" where
  "special_element name valid html s =
     (let (v, rest) = (case exec (endRegExp name) html of Some (b, r, _) \<Rightarrow> (b, r) | None \<Rightarrow> (html, []))
      in (rest, if valid then report ((if v \<noteq> [] then [Text v True] else []) @ [End name]) s else s))"

definition open_element :: "sax_cfg \<Rightarrow> ustring \<Rightarrow> bool \<Rightarrow> sax_state \<Rightarrow> sax_state" where
  "open_element cfg name valid s =
     (if has_prop (sx_shortEnded cfg) name then s
      else if ss_attribsValue s = [] \<or> \<not> slash_last (ss_attribsValue s) then s\<lparr>ss_stack := (name, valid) # ss_stack s\<rparr>
      else if valid then report [End name] s else s)"

definition start_tag :: "sax_cfg \<Rightarrow> ustring \<Rightarrow> ustring \<Rightarrow> ustring \<Rightarrow> sax_state \<Rightarrow> (ustring \<times> sax_state) option" where
  "start_tag cfg name attribs html s =
     (let s1 = (if sx_fixSelfClosing cfg \<and> has_prop (sx_selfClosing cfg) name \<and> ss_stack s \<noteq> [] \<and> fst (hd (ss_stack s)) = name
                then processEndTag name s else s);
          (valid, s2) = start_element cfg name attribs s1
      in case get_prop (sx_special cfg) name of
           Inherited \<Rightarrow> None
         | Own _ \<Rightarrow> Some (special_element name valid html s2)
         | Undefined \<Rightarrow> Some (html, open_element cfg name valid s2))"

section \<open>Parsing\<close>

definition text_before :: "sax_cfg \<Rightarrow> ustring \<Rightarrow> sax_state \<Rightarrow> sax_state" where
  "text_before cfg v s = (if v \<noteq> [] then report [Text (decode (sx_nativeDecode cfg) v) False] s else s)"

definition comment_text :: "sax_cfg \<Rightarrow> ustring \<Rightarrow> ustring" where
  "comment_text cfg v =
     (let v1 = (if take 1 v = js ''>'' then js '' '' @ v else v)
      in if \<not> sx_allowConditional cfg \<and> take 3 v1 = js ''[if'' then js '' '' @ v1 else v1)"

definition other_token :: "sax_cfg \<Rightarrow> (nat \<times> ustring) list \<Rightarrow> event list" where
  "other_token cfg g =
     (case group 1 g of
        Some v \<Rightarrow> [Comment (Some (comment_text cfg v))]
      | None \<Rightarrow> (case group 2 g of
          Some v \<Rightarrow> [CData (Some v)]
        | None \<Rightarrow> (case group 3 g of
            Some v \<Rightarrow> [Doctype (Some v)]
          | None \<Rightarrow> (case group 4 g of
              Some v \<Rightarrow> [PI v (map_of g 5)]
            | None \<Rightarrow> []))))"

lemma special_rest: "special_element name valid html s = (rest, t) \<Longrightarrow> length rest \<le> length html"
  by (auto simp: special_element_def dest: exec_length split: option.splits)

lemma start_tag_rest: "start_tag cfg name attribs html s = Some (rest, t) \<Longrightarrow> length rest \<le> length html"
  by (auto simp: start_tag_def Let_def dest: special_rest split: prod.splits property.splits)

lemma token_shorter: "exec tokenRegExp html = Some (b, rest, g) \<Longrightarrow> length rest < length html"
  using exec_Chr_shorter [of _ _ html b rest g] by (fastforce simp: tokenRegExp_def)

function sax_loop :: "sax_cfg \<Rightarrow> ustring \<Rightarrow> sax_state \<Rightarrow> sax_state option" where
  "sax_loop cfg html s =
     (case exec tokenRegExp html of
        None \<Rightarrow> (let s1 = text_before cfg html s in Some (report (end_events (ss_stack s1)) s1))
      | Some (b, rest, g) \<Rightarrow>
          (let s1 = text_before cfg b s
           in case group 6 g of
                Some v \<Rightarrow> sax_loop cfg rest (processEndTag (tag_name v) s1)
              | None \<Rightarrow>
                  (case group 7 g of
                     Some v \<Rightarrow>
                       (case start_tag cfg (tag_name v) (case map_of g 8 of Some a \<Rightarrow> a | None \<Rightarrow> []) rest s1 of
                          None \<Rightarrow> None
                        | Some (rest2, s2) \<Rightarrow> sax_loop cfg rest2 s2)
                   | None \<Rightarrow> sax_loop cfg rest (report (other_token cfg g) s1))))"
  by pat_completeness auto
termination
proof (relation "measure (\<lambda>(cfg, html, s). length html)", goal_cases)
  case (3 cfg html s x2 b y rest g s1 v x rest2 s2)
  then show ?case using token_shorter [of html b rest g] start_tag_rest [of cfg _ _ rest _ rest2 s2] by fastforce
qed (auto dest: token_shorter)

declare sax_loop.simps [simp del]

definition sax_start :: sax_state where
  "sax_start = \<lparr>ss_stack = [], ss_attribsValue = [], ss_isInternal = False, ss_idCount = 0, ss_events = []\<rparr>"

definition sax_parse :: "sax_cfg \<Rightarrow> ustring \<Rightarrow> event list option" where
  "sax_parse cfg html = map_option ss_events (sax_loop cfg html sax_start)"

end
