(* ===== verification/DomParser.thy ===== *)
theory DomParser
  imports HtmlSerializer
begin

text \<open>
  \<open>classes/html/DomParser.js\<close>: it builds the node tree of a document from the events of the SAX parser, repairs it by the
  rules of the schema and runs filters on it. The SAX parser enters as the list of events it reports,
  the schema as the answers of the methods and tables the code uses. The state is
  the store of nodes with the variables of \<open>parse\<close>; None is a TypeError or a loop that never ends. The tables of filters
  and matched nodes are plain objects: a node, a node filter or an attribute filter named like a member of \<open>Object.prototype\<close> finds the inherited
  member, and adding to it raises. Only \<open>run_attributeFilters\<close> is for attribute filters without such names. The text in an element that \<open>end\<close> pads has
  the string \<open>'3'\<close> as its type (\<open>str_3\<close>): it is no text where the code compares with three equal signs, as \<open>isEmpty\<close> does.
\<close>

section \<open>Schema, settings and state\<close>

record rule =
  ru_outputName :: "ustring option"
  ru_removeEmpty :: bool
  ru_paddEmpty :: bool

record schema =
  sc_rule :: "ustring \<Rightarrow> rule option"
  sc_block :: "ustring \<Rightarrow> bool"
  sc_nonEmpty :: "ustring \<rightharpoonup> bool"
  sc_textBlock :: "ustring \<Rightarrow> bool"
  sc_whiteSpace :: "ustring \<Rightarrow> bool"
  sc_children :: "ustring \<Rightarrow> (ustring \<Rightarrow> bool) option"

definition isValidChild :: "schema \<Rightarrow> ustring \<Rightarrow> ustring \<Rightarrow> bool" where
  "isValidChild sc name child = (case sc_children sc name of None \<Rightarrow> False | Some f \<Rightarrow> f child)"

record pstate =
  ps_heap :: nheap
  ps_next :: addr
  ps_node :: "addr option"
  ps_white :: bool
  ps_invalidChildren :: "addr list"
  ps_fixed :: "addr list"
  ps_matchedNodes :: "(ustring \<times> addr list) list"
  ps_matchedAttributes :: "(ustring \<times> addr list) list"

type_synonym filter_fun = "addr list \<Rightarrow> pstate \<Rightarrow> pstate option"

record dparser =
  dp_schema :: schema
  dp_validate :: bool
  dp_root_name :: ustring
  dp_forced_root_block :: "ustring option"
  dp_forced_root_block_attrs :: "(ustring \<times> attr_arg) list"
  dp_nodeFilters :: "(ustring \<times> filter_fun list) list"
  dp_attributeFilters :: "(ustring \<times> filter_fun list) list"

record parse_args =
  pa_context :: "ustring option"
  pa_isRootContent :: bool
  pa_forced_root_block :: "ustring option option"

text \<open>Adding a callback to a filter, and a node to the nodes of a name.\<close>

fun push_to :: "'k \<Rightarrow> 'v \<Rightarrow> ('k \<times> 'v list) list \<Rightarrow> ('k \<times> 'v list) list" where
  "push_to k v [] = [(k, [v])]"
| "push_to k v ((a, vs) # xs) = (if a = k then (a, vs @ [v]) # xs else (a, vs) # push_to k v xs)"

definition addNodeFilter :: "ustring list \<Rightarrow> filter_fun \<Rightarrow> dparser \<Rightarrow> dparser option" where
  "addNodeFilter names callback p =
     (if list_ex (\<lambda>name. name \<in> set proto_keys) names then None
      else Some (p\<lparr>dp_nodeFilters := fold (\<lambda>name. push_to name callback) names (dp_nodeFilters p)\<rparr>))"

definition addAttributeFilter :: "ustring list \<Rightarrow> filter_fun \<Rightarrow> dparser \<Rightarrow> dparser" where
  "addAttributeFilter names callback p = p\<lparr>dp_attributeFilters := fold (\<lambda>name. push_to name callback) names (dp_attributeFilters p)\<rparr>"

definition has_key :: "('k \<times> 'v) list \<Rightarrow> 'k \<Rightarrow> bool" where
  "has_key xs k \<longleftrightarrow> k \<in> fst ` set xs"

text \<open>\<open>blockElements\<close> of \<open>parse\<close>\<close>

definition is_block :: "dparser \<Rightarrow> ustring \<Rightarrow> bool" where
  "is_block p name \<longleftrightarrow> name \<in> set (map js [''script'', ''style'', ''head'', ''html'', ''body'', ''title'', ''meta'', ''param''])
     \<or> sc_block (dp_schema p) name"

definition trim_start :: "ustring \<Rightarrow> ustring" where
  "trim_start v = dropWhile is_space_char v"

definition trim_end :: "ustring \<Rightarrow> ustring" where
  "trim_end v = rev (dropWhile is_space_char (rev v))"

function collapse_space :: "ustring \<Rightarrow> ustring" where
  "collapse_space [] = []"
| "collapse_space (c # cs) =
     (if is_space_char c then 0x20 # collapse_space (dropWhile is_space_char cs) else c # collapse_space cs)"
  by pat_completeness auto
termination
  by (relation "measure length") (auto simp: length_dropWhile_le le_imp_less_Suc)

section \<open>Nodes\<close>

definition new_node :: "ustring \<Rightarrow> nat \<Rightarrow> pstate \<Rightarrow> addr \<times> pstate" where
  "new_node name type s = (ps_next s, s\<lparr>ps_heap := (ps_heap s)(ps_next s \<mapsto> Node name type), ps_next := Suc (ps_next s)\<rparr>)"

text \<open>The operator \<open>in\<close> is true for an inherited name too; the list found there is then the inherited member, which has no \<open>push\<close>.\<close>

definition createNode :: "dparser \<Rightarrow> ustring \<Rightarrow> nat \<Rightarrow> pstate \<Rightarrow> (addr \<times> pstate) option" where
  "createNode p name type s =
     (if name \<in> set proto_keys then None
      else let (a, t) = new_node name type s
           in Some (a, if has_key (dp_nodeFilters p) name then t\<lparr>ps_matchedNodes := push_to name a (ps_matchedNodes t)\<rparr> else t))"

text \<open>A change of the store.\<close>

definition on_heap :: "(nheap \<Rightarrow> nheap option) \<Rightarrow> pstate \<Rightarrow> pstate option" where
  "on_heap f s = map_option (\<lambda>h. s\<lparr>ps_heap := h\<rparr>) (f (ps_heap s))"

text \<open>The attribute filters that match a node; the loop runs backwards. A filter with an inherited name matches every node and raises.\<close>

fun match_loop :: "ustring list \<Rightarrow> attrs \<Rightarrow> addr \<Rightarrow> pstate \<Rightarrow> pstate option" where
  "match_loop [] a n s = Some s"
| "match_loop (name # names) a n s =
     (if \<not> has_prop (attr_map a) name then match_loop names a n s
      else if name \<in> set proto_keys then None
      else match_loop names a n (s\<lparr>ps_matchedAttributes := push_to name n (ps_matchedAttributes s)\<rparr>))"

definition match_attributes :: "dparser \<Rightarrow> attrs \<Rightarrow> addr \<Rightarrow> pstate \<Rightarrow> pstate option" where
  "match_attributes p a n s = match_loop (rev (map fst (dp_attributeFilters p))) a n s"

text \<open>\<open>filterNode\<close> tests the variable \<open>name\<close> before it gets a value.\<close>

definition filterNode :: "dparser \<Rightarrow> addr \<Rightarrow> pstate \<Rightarrow> pstate option" where
  "filterNode p n s = do {
     let t = (if has_key (dp_nodeFilters p) (js ''undefined'')
              then s\<lparr>ps_matchedNodes := push_to (js ''undefined'') n (ps_matchedNodes s)\<rparr> else s);
     d \<leftarrow> ps_heap t n;
     if dp_attributeFilters p = [] then Some t
     else Option.bind (nd_attributes d) (\<lambda>a. match_attributes p a n t)
   }"

definition clone_node :: "addr \<Rightarrow> pstate \<Rightarrow> (addr \<times> pstate) option" where
  "clone_node n s = map_option (\<lambda>h. (ps_next s, s\<lparr>ps_heap := h, ps_next := Suc (ps_next s)\<rparr>)) (clone (ps_heap s) n (ps_next s))"

text \<open>\<open>self.filterNode(n.clone())\<close> and \<open>self.filterNode(new Node(name, 1))\<close>\<close>

definition filtered_clone :: "dparser \<Rightarrow> addr \<Rightarrow> pstate \<Rightarrow> (addr \<times> pstate) option" where
  "filtered_clone p n s = do { (a, t) \<leftarrow> clone_node n s; map_option (Pair a) (filterNode p a t) }"

definition filtered_new :: "dparser \<Rightarrow> ustring \<Rightarrow> pstate \<Rightarrow> (addr \<times> pstate) option" where
  "filtered_new p name s = (let (a, t) = new_node name 1 s in map_option (Pair a) (filterNode p a t))"

section \<open>White space\<close>

partial_function (option) rwb_loop :: "nheap \<Rightarrow> addr option \<Rightarrow> nheap option" where
  "rwb_loop h textNode =
     (case textNode of
        None \<Rightarrow> Some h
      | Some a \<Rightarrow> Option.bind (h a) (\<lambda>n.
          if nd_type n \<noteq> 3 then Some h
          else Option.bind (nd_value n) (\<lambda>v.
            Option.bind (if trim_end v \<noteq> [] then upd h a (\<lambda>n. n\<lparr>nd_value := Some (trim_end v)\<rparr>) else remove h a) (\<lambda>h1.
            rwb_loop h1 (nd_prev n)))))"

definition removeWhitespaceBefore :: "addr \<Rightarrow> nheap \<Rightarrow> nheap option" where
  "removeWhitespaceBefore node h = do { n \<leftarrow> h node; rwb_loop h (nd_prev n) }"

text \<open>The two passes over the texts at the start and at the end of a block; \<open>bwd\<close> is the second one.\<close>

partial_function (option) drop_white :: "bool \<Rightarrow> nheap \<Rightarrow> addr option \<Rightarrow> nheap option" where
  "drop_white bwd h textNode =
     (case textNode of
        None \<Rightarrow> Some h
      | Some a \<Rightarrow> Option.bind (h a) (\<lambda>n.
          if nd_type n \<noteq> 3 then Some h
          else Option.bind (nd_value n) (\<lambda>v.
            Option.bind (if list_all is_space_char v then remove h a else Some h) (\<lambda>h1.
            drop_white bwd h1 (sibling_link bwd n)))))"

declare rwb_loop.simps [code] drop_white.simps [code]

definition trim_edge :: "bool \<Rightarrow> addr \<Rightarrow> nheap \<Rightarrow> nheap option" where
  "trim_edge bwd node h = do {
     d \<leftarrow> h node;
     (case start_link bwd d of
        None \<Rightarrow> Some h
      | Some a \<Rightarrow> do {
          n \<leftarrow> h a;
          if nd_type n \<noteq> 3 then Some h
          else do {
            v \<leftarrow> nd_value n;
            let t = (if bwd then trim_end v else trim_start v);
            if t \<noteq> [] then upd h a (\<lambda>n. n\<lparr>nd_value := Some t\<rparr>)
            else do { h1 \<leftarrow> remove h a; drop_white bwd h1 (sibling_link bwd n) } } })
   }"

section \<open>The events\<close>

definition add_leaf :: "dparser \<Rightarrow> ustring \<Rightarrow> nat \<Rightarrow> ustring option \<Rightarrow> bool \<Rightarrow> pstate \<Rightarrow> pstate option" where
  "add_leaf p name type v raw s = do {
     cur \<leftarrow> ps_node s;
     (a, t) \<leftarrow> createNode p name type s;
     h1 \<leftarrow> upd (ps_heap t) a (\<lambda>n. n\<lparr>nd_raw := raw\<rparr>);
     h2 \<leftarrow> append_node h1 cur a;
     h3 \<leftarrow> upd h2 a (\<lambda>n. n\<lparr>nd_value := v\<rparr>);
     Some (t\<lparr>ps_heap := h3\<rparr>)
   }"

definition on_text :: "dparser \<Rightarrow> ustring \<Rightarrow> bool \<Rightarrow> pstate \<Rightarrow> pstate option" where
  "on_text p v raw s = do {
     t \<leftarrow> (if ps_white s then Some v
           else do {
             cur \<leftarrow> ps_node s;
             c \<leftarrow> ps_heap s cur;
             (case nd_lastChild c of
                None \<Rightarrow> Some (collapse_space v)
              | Some l \<Rightarrow> do { ln \<leftarrow> ps_heap s l;
                               Some (if is_block p (nd_name ln) then trim_start (collapse_space v) else collapse_space v) }) });
     if t = [] then Some s else add_leaf p (js ''#text'') 3 (Some t) raw s
   }"

definition before_current :: "pstate \<Rightarrow> pstate option" where
  "before_current s = do { cur \<leftarrow> ps_node s; on_heap (removeWhitespaceBefore cur) s }"

definition on_pi :: "dparser \<Rightarrow> ustring \<Rightarrow> ustring option \<Rightarrow> pstate \<Rightarrow> pstate option" where
  "on_pi p name v s = do { t \<leftarrow> add_leaf p name 7 v False s; before_current t }"

definition on_doctype :: "dparser \<Rightarrow> ustring option \<Rightarrow> pstate \<Rightarrow> pstate option" where
  "on_doctype p v s = do { t \<leftarrow> add_leaf p (js ''#doctype'') 10 v False s; before_current t }"

text \<open>The array of attributes with its map.\<close>

definition mk_attrs :: "(ustring \<times> ustring) list \<Rightarrow> attrs" where
  "mk_attrs kvs = \<lparr>attr_items = kvs, attr_map = map_of (rev kvs)\<rparr>"

definition no_rule :: rule where
  "no_rule = \<lparr>ru_outputName = None, ru_removeEmpty = False, ru_paddEmpty = False\<rparr>"

definition element_rule :: "dparser \<Rightarrow> ustring \<Rightarrow> rule option" where
  "element_rule p name = (if dp_validate p then sc_rule (dp_schema p) name else Some no_rule)"

definition output_name :: "rule \<Rightarrow> ustring \<Rightarrow> ustring" where
  "output_name ru name = (case ru_outputName ru of Some (c # cs) \<Rightarrow> c # cs | _ \<Rightarrow> name)"

definition invalid_in :: "dparser \<Rightarrow> ustring \<Rightarrow> ustring \<Rightarrow> bool" where
  "invalid_in p parent name = (case sc_children (dp_schema p) parent of None \<Rightarrow> False
     | Some f \<Rightarrow> sc_children (dp_schema p) name \<noteq> None \<and> \<not> f name)"

definition on_start :: "dparser \<Rightarrow> ustring \<Rightarrow> (ustring \<times> ustring) list \<Rightarrow> bool \<Rightarrow> pstate \<Rightarrow> pstate option" where
  "on_start p name kvs emp s =
     (case element_rule p name of
        None \<Rightarrow> Some s
      | Some ru \<Rightarrow> do {
          cur \<leftarrow> ps_node s;
          (a, t) \<leftarrow> createNode p (output_name ru name) 1 s;
          h1 \<leftarrow> upd (ps_heap t) a (\<lambda>n. n\<lparr>nd_attributes := Some (mk_attrs kvs), nd_shortEnded := emp\<rparr>);
          h2 \<leftarrow> append_node h1 cur a;
          c \<leftarrow> h2 cur;
          let t1 = t\<lparr>ps_heap := h2, ps_invalidChildren :=
                      ps_invalidChildren t @ (if invalid_in p (nd_name c) (output_name ru name) then [a] else [])\<rparr>;
          t2 \<leftarrow> match_attributes p (mk_attrs kvs) a t1;
          t3 \<leftarrow> (if is_block p name then on_heap (removeWhitespaceBefore a) t2 else Some t2);
          Some (t3\<lparr>ps_node := (if emp then Some cur else Some a), ps_white := ps_white t3 \<or> sc_whiteSpace (dp_schema p) name\<rparr>)
        })"

definition truthy_attr :: "attrs \<Rightarrow> ustring \<Rightarrow> bool" where
  "truthy_attr a k = (case attr_map a k of Some v \<Rightarrow> v \<noteq> [] | None \<Rightarrow> False)"

text \<open>An element that is empty when it ends: padded, removed, or left. The flag says whether the handler returns early.\<close>

definition pad :: "nat \<Rightarrow> addr \<Rightarrow> pstate \<Rightarrow> pstate option" where
  "pad type n s = do {
     h \<leftarrow> empty (ps_heap s) n;
     let (a, t) = new_node (js ''#text'') type (s\<lparr>ps_heap := h\<rparr>);
     h1 \<leftarrow> append_node (ps_heap t) n a;
     h2 \<leftarrow> upd h1 a (\<lambda>d. d\<lparr>nd_value := Some [0xA0]\<rparr>);
     Some (t\<lparr>ps_heap := h2\<rparr>)
   }"

definition empty_remove :: "addr \<Rightarrow> nheap \<Rightarrow> nheap option" where
  "empty_remove n h = do { h1 \<leftarrow> empty h n; remove h1 n }"

definition end_empty :: "rule \<Rightarrow> dparser \<Rightarrow> addr \<Rightarrow> pstate \<Rightarrow> (bool \<times> pstate) option" where
  "end_empty ru p cur s =
     (if ru_removeEmpty ru \<or> ru_paddEmpty ru
      then do {
        e \<leftarrow> isEmpty (ps_heap s) cur (sc_nonEmpty (dp_schema p));
        if \<not> e then Some (False, s)
        else if ru_paddEmpty ru then map_option (Pair False) (pad str_3 cur s)
        else do {
          d \<leftarrow> ps_heap s cur;
          a \<leftarrow> nd_attributes d;
          if truthy_attr a (js ''name'') \<or> truthy_attr a (js ''id'') then Some (False, s)
          else map_option (\<lambda>t. (True, t\<lparr>ps_node := nd_parent d\<rparr>)) (on_heap (empty_remove cur) s)
        } }
      else Some (False, s))"

definition on_end :: "dparser \<Rightarrow> ustring \<Rightarrow> pstate \<Rightarrow> pstate option" where
  "on_end p name s =
     (case element_rule p name of
        None \<Rightarrow> Some s
      | Some ru \<Rightarrow> do {
          cur \<leftarrow> ps_node s;
          t \<leftarrow> (if is_block p name \<and> \<not> ps_white s
                then on_heap (\<lambda>h. Option.bind (trim_edge False cur h) (trim_edge True cur)) s else Some s);
          let t1 = t\<lparr>ps_white := ps_white t \<and> \<not> sc_whiteSpace (dp_schema p) name\<rparr>;
          (stop, t2) \<leftarrow> end_empty ru p cur t1;
          if stop then Some t2
          else do { d \<leftarrow> ps_heap t2 cur; Some (t2\<lparr>ps_node := nd_parent d\<rparr>) }
        })"

fun on_event :: "dparser \<Rightarrow> event \<Rightarrow> pstate \<Rightarrow> pstate option" where
  "on_event p (Start name kvs emp) s = Option.bind kvs (\<lambda>kvs. on_start p name kvs emp s)"
| "on_event p (End name) s = on_end p name s"
| "on_event p (Text v raw) s = on_text p v raw s"
| "on_event p (CData v) s = add_leaf p (js ''#cdata'') 4 v False s"
| "on_event p (Comment v) s = add_leaf p (js ''#comment'') 8 v False s"
| "on_event p (PI name v) s = on_pi p name v s"
| "on_event p (Doctype v) s = on_doctype p v s"

fun on_events :: "dparser \<Rightarrow> event list \<Rightarrow> pstate \<Rightarrow> pstate option" where
  "on_events p [] s = Some s"
| "on_events p (e # es) s = Option.bind (on_event p e s) (on_events p es)"

section \<open>Invalid children\<close>

definition nonSplitable :: "ustring \<Rightarrow> bool" where
  "nonSplitable name \<longleftrightarrow> name \<in> set (map js [''tr'', ''td'', ''th'', ''tbody'', ''thead'', ''tfoot'', ''table''])"

text \<open>The blocks after the node become list items behind the item \<open>li\<close>.\<close>

partial_function (option) move_blocks :: "dparser \<Rightarrow> addr \<Rightarrow> addr option \<Rightarrow> pstate \<Rightarrow> pstate option" where
  "move_blocks p li sibling s =
     (case sibling of
        None \<Rightarrow> Some s
      | Some b \<Rightarrow> Option.bind (ps_heap s b) (\<lambda>n.
          if sc_textBlock (dp_schema p) (nd_name n)
          then Option.bind (upd (ps_heap s) b (\<lambda>n. n\<lparr>nd_name := js ''li''\<rparr>)) (\<lambda>h1.
               Option.bind (insert_node h1 li b li False) (\<lambda>h2.
               Option.bind (h2 b) (\<lambda>n2.
               move_blocks p li (nd_next n2) (s\<lparr>ps_heap := h2, ps_fixed := ps_fixed s @ [b]\<rparr>))))
          else Some s))"

text \<open>The parents up to one that may hold a node of the name.\<close>

partial_function (option) find_parents :: "dparser \<Rightarrow> ustring \<Rightarrow> nheap \<Rightarrow> addr option \<Rightarrow> addr list \<Rightarrow> (addr option \<times> addr list) option" where
  "find_parents p name h parent parents =
     (case parent of
        None \<Rightarrow> Some (None, parents)
      | Some a \<Rightarrow> Option.bind (h a) (\<lambda>n.
          if \<not> isValidChild (dp_schema p) (nd_name n) name \<and> \<not> nonSplitable (nd_name n)
          then find_parents p name h (nd_parent n) (parents @ [a]) else Some (parent, parents)))"

partial_function (option) move_left :: "nheap \<Rightarrow> addr \<Rightarrow> addr option \<Rightarrow> addr \<Rightarrow> nheap option" where
  "move_left h temp child stop =
     (case child of
        None \<Rightarrow> Some h
      | Some c \<Rightarrow>
          if c = stop then Some h
          else Option.bind (h c) (\<lambda>n. Option.bind (append_node h temp c) (\<lambda>h1. move_left h1 temp (nd_next n) stop)))"

declare move_blocks.simps [code] find_parents.simps [code] move_left.simps [code]

fun split_left :: "dparser \<Rightarrow> addr list \<Rightarrow> addr \<Rightarrow> pstate \<Rightarrow> pstate option" where
  "split_left p (a # b # rest) currentNode s = do {
     c \<leftarrow> ps_heap s currentNode;
     n \<leftarrow> ps_heap s a;
     (temp, t) \<leftarrow> (if isValidChild (dp_schema p) (nd_name c) (nd_name n)
                   then do { (x, u) \<leftarrow> filtered_clone p a s; map_option (Pair x) (on_heap (\<lambda>h. append_node h currentNode x) u) }
                   else Some (currentNode, s));
     m \<leftarrow> ps_heap t a;
     v \<leftarrow> on_heap (\<lambda>h. move_left h temp (nd_firstChild m) b) t;
     split_left p (b # rest) temp v
   }"
| "split_left p _ currentNode s = Some s"

definition only_br :: "addr \<Rightarrow> nheap \<Rightarrow> bool option" where
  "only_br n h = do {
     d \<leftarrow> h n;
     (case nd_firstChild d of
        None \<Rightarrow> None
      | Some c \<Rightarrow> do { cn \<leftarrow> h c; Some (nd_lastChild d = Some c \<and> nd_name cn = js ''br'') })
   }"

text \<open>The node moves out of its parents, \<open>tops\<close> from the highest one to the node, into \<open>parent\<close>.\<close>

definition move_out :: "dparser \<Rightarrow> addr \<Rightarrow> addr \<Rightarrow> addr list \<Rightarrow> pstate \<Rightarrow> pstate option" where
  "move_out p node parent tops s = do {
     top \<leftarrow> hd_opt tops;
     (newParent, s1) \<leftarrow> filtered_clone p top s;
     s2 \<leftarrow> split_left p tops newParent s1;
     e \<leftarrow> isEmpty (ps_heap s2) newParent (sc_nonEmpty (dp_schema p));
     s3 \<leftarrow> (if \<not> e
            then on_heap (\<lambda>h. Option.bind (insert_node h parent newParent top True) (\<lambda>h1. insert_node h1 parent node newParent False)) s2
            else on_heap (\<lambda>h. insert_node h parent node top True) s2);
     e2 \<leftarrow> isEmpty (ps_heap s3) top (sc_nonEmpty (dp_schema p));
     drop \<leftarrow> (if e2 then Some True else only_br top (ps_heap s3));
     if drop then on_heap (empty_remove top) s3 else Some s3
   }"

definition is_list :: "nheap \<Rightarrow> addr option \<Rightarrow> addr option option" where
  "is_list h x = (case x of None \<Rightarrow> Some None
     | Some a \<Rightarrow> map_option (\<lambda>n. if nd_name n = js ''ul'' \<or> nd_name n = js ''ul'' then Some a else None) (h a))"

definition wrap_new :: "dparser \<Rightarrow> addr \<Rightarrow> ustring \<Rightarrow> pstate \<Rightarrow> pstate option" where
  "wrap_new p node name s = do { (w, t) \<leftarrow> filtered_new p name s; on_heap (\<lambda>h. wrap h node w) t }"

definition fix_li :: "dparser \<Rightarrow> addr \<Rightarrow> hnode \<Rightarrow> pstate \<Rightarrow> pstate option" where
  "fix_li p node n s = do {
     a \<leftarrow> is_list (ps_heap s) (nd_prev n);
     (case a of
        Some l \<Rightarrow> on_heap (\<lambda>h. append_node h l node) s
      | None \<Rightarrow> do {
          b \<leftarrow> is_list (ps_heap s) (nd_next n);
          (case b of
             Some l \<Rightarrow> do { ln \<leftarrow> ps_heap s l; first \<leftarrow> nd_firstChild ln; on_heap (\<lambda>h. insert_node h l node first True) s }
           | None \<Rightarrow> wrap_new p node (js ''ul'') s) })
   }"

definition fix_here :: "dparser \<Rightarrow> addr \<Rightarrow> hnode \<Rightarrow> hnode \<Rightarrow> pstate \<Rightarrow> pstate option" where
  "fix_here p node n pn s =
     (if nd_name n = js ''li'' then fix_li p node n s
      else if isValidChild (dp_schema p) (nd_name pn) (js ''div'') \<and> isValidChild (dp_schema p) (js ''div'') (nd_name n)
      then wrap_new p node (js ''div'') s
      else if nd_name n = js ''style'' \<or> nd_name n = js ''script'' then on_heap (empty_remove node) s
      else on_heap (\<lambda>h. unwrap h node) s)"

definition fix_node :: "dparser \<Rightarrow> addr \<Rightarrow> pstate \<Rightarrow> pstate option" where
  "fix_node p node s = do {
     n \<leftarrow> ps_heap s node;
     (case nd_parent n of
        None \<Rightarrow> Some s
      | Some par \<Rightarrow>
          if node \<in> set (ps_fixed s) then Some s
          else do {
            pn \<leftarrow> ps_heap s par;
            if sc_textBlock (dp_schema p) (nd_name n) \<and> nd_name pn = js ''li''
            then do { t \<leftarrow> move_blocks p par (nd_next n) s; on_heap (\<lambda>h. unwrap h node) t }
            else do {
              (target, parents) \<leftarrow> find_parents p (nd_name n) (ps_heap s) (Some par) [node];
              (case target of
                 Some q \<Rightarrow> if length parents > 1 then move_out p node q (rev parents) s else fix_here p node n pn s
               | None \<Rightarrow> fix_here p node n pn s)
            } })
   }"

fun fixInvalidChildren :: "dparser \<Rightarrow> addr list \<Rightarrow> pstate \<Rightarrow> pstate option" where
  "fixInvalidChildren p [] s = Some s"
| "fixInvalidChildren p (n # ns) s = Option.bind (fix_node p n s) (fixInvalidChildren p ns)"

section \<open>Root blocks\<close>

definition trim_value :: "(ustring \<Rightarrow> ustring) \<Rightarrow> addr option \<Rightarrow> nheap \<Rightarrow> nheap option" where
  "trim_value f x h = (case x of None \<Rightarrow> Some h
     | Some a \<Rightarrow> do { n \<leftarrow> h a; if nd_type n \<noteq> 3 \<and> nd_type n \<noteq> str_3 then Some h else do { v \<leftarrow> nd_value n; upd h a (\<lambda>n. n\<lparr>nd_value := Some (f v)\<rparr>) } })"

definition trim_block :: "addr option \<Rightarrow> nheap \<Rightarrow> nheap option" where
  "trim_block rootBlock h = (case rootBlock of None \<Rightarrow> Some h
     | Some b \<Rightarrow> do { n \<leftarrow> h b; h1 \<leftarrow> trim_value trim_start (nd_firstChild n) h; m \<leftarrow> h1 b; trim_value trim_end (nd_lastChild m) h1 })"

definition needs_block :: "dparser \<Rightarrow> hnode \<Rightarrow> bool" where
  "needs_block p n \<longleftrightarrow> nd_type n = 3 \<or> nd_type n = str_3 \<or> nd_type n = 1 \<and> nd_name n \<noteq> js ''p'' \<and> \<not> is_block p (nd_name n)
     \<and> (case nd_attributes n of None \<Rightarrow> True | Some a \<Rightarrow> \<not> truthy_attr a (js ''data-mce-type''))"

definition new_root_block :: "dparser \<Rightarrow> ustring \<Rightarrow> addr \<Rightarrow> addr \<Rightarrow> pstate \<Rightarrow> (addr \<times> pstate) option" where
  "new_root_block p name root node s =
     Option.bind (createNode p name 1 s) (\<lambda>(b, t). map_option (Pair b) (on_heap (\<lambda>h. do {
           h1 \<leftarrow> attr_all h b (dp_forced_root_block_attrs p);
           h2 \<leftarrow> insert_node h1 root b node False;
           append_node h2 b node }) t))"

partial_function (option) root_loop :: "dparser \<Rightarrow> ustring \<Rightarrow> addr \<Rightarrow> addr option \<Rightarrow> addr option \<Rightarrow> pstate \<Rightarrow> pstate option" where
  "root_loop p name root node rootBlock s =
     (case node of
        None \<Rightarrow> on_heap (trim_block rootBlock) s
      | Some a \<Rightarrow> Option.bind (ps_heap s a) (\<lambda>n.
          if needs_block p n
          then (case rootBlock of
                  None \<Rightarrow> Option.bind (new_root_block p name root a s) (\<lambda>(b, t). root_loop p name root (nd_next n) (Some b) t)
                | Some b \<Rightarrow> Option.bind (on_heap (\<lambda>h. append_node h b a) s) (\<lambda>t. root_loop p name root (nd_next n) (Some b) t))
          else Option.bind (on_heap (trim_block rootBlock) s) (\<lambda>t. root_loop p name root (nd_next n) None t)))"

declare root_loop.simps [code]

definition addRootBlocks :: "dparser \<Rightarrow> ustring \<Rightarrow> addr \<Rightarrow> pstate \<Rightarrow> pstate option" where
  "addRootBlocks p name root s = do {
     n \<leftarrow> ps_heap s root;
     if \<not> isValidChild (dp_schema p) (nd_name n) (to_lower_case name) then Some s
     else root_loop p name root (nd_firstChild n) None s
   }"

section \<open>Filters\<close>

definition has_parent :: "nheap \<Rightarrow> addr \<Rightarrow> bool" where
  "has_parent h n = (case h n of Some d \<Rightarrow> nd_parent d \<noteq> None | None \<Rightarrow> False)"

fun call_filters :: "filter_fun list \<Rightarrow> addr list \<Rightarrow> pstate \<Rightarrow> pstate option" where
  "call_filters [] nodes s = Some s"
| "call_filters (f # fs) nodes s = Option.bind (f nodes s) (call_filters fs nodes)"

fun run_nodeFilters :: "dparser \<Rightarrow> (ustring \<times> addr list) list \<Rightarrow> pstate \<Rightarrow> pstate option" where
  "run_nodeFilters p [] s = Some s"
| "run_nodeFilters p ((name, nodes) # rest) s = do {
     fs \<leftarrow> map_of (dp_nodeFilters p) name;
     t \<leftarrow> call_filters fs (filter (has_parent (ps_heap s)) nodes) s;
     run_nodeFilters p rest t
   }"

fun run_attributeFilters :: "(ustring \<times> filter_fun list) list \<Rightarrow> pstate \<Rightarrow> pstate option" where
  "run_attributeFilters [] s = Some s"
| "run_attributeFilters ((name, fs) # rest) s = do {
     t \<leftarrow> (case map_of (ps_matchedAttributes s) name of
             None \<Rightarrow> Some s
           | Some nodes \<Rightarrow> call_filters fs (filter (has_parent (ps_heap s)) nodes) s);
     run_attributeFilters rest t
   }"

section \<open>Parsing\<close>

definition new_state :: "ustring \<Rightarrow> pstate" where
  "new_state name = \<lparr>ps_heap = [0 \<mapsto> Node name 11], ps_next = 1, ps_node = Some 0, ps_white = False, ps_invalidChildren = [], ps_fixed = [],
     ps_matchedNodes = [], ps_matchedAttributes = []\<rparr>"

text \<open>The result is the root, the state, and whether the contents is invalid in its context.\<close>

definition parse :: "dparser \<Rightarrow> parse_args \<Rightarrow> event list \<Rightarrow> (addr \<times> pstate \<times> bool) option" where
  "parse p args evs = do {
     let rootBlockName = (case pa_forced_root_block args of Some b \<Rightarrow> b | None \<Rightarrow> dp_forced_root_block p);
     let name = (case pa_context args of Some (c # cs) \<Rightarrow> c # cs | _ \<Rightarrow> dp_root_name p);
     let contextual = (case pa_context args of Some (c # cs) \<Rightarrow> True | _ \<Rightarrow> False);
     s1 \<leftarrow> on_events p evs (new_state name);
     let bad = (dp_validate p \<and> ps_invalidChildren s1 \<noteq> []);
     s2 \<leftarrow> (if bad \<and> \<not> contextual then fixInvalidChildren p (ps_invalidChildren s1) s1 else Some s1);
     s3 \<leftarrow> (case rootBlockName of
              Some (c # cs) \<Rightarrow> if name = js ''body'' \<or> pa_isRootContent args then addRootBlocks p (c # cs) 0 s2 else Some s2
            | _ \<Rightarrow> Some s2);
     s4 \<leftarrow> (if bad \<and> contextual then Some s3
            else Option.bind (run_nodeFilters p (ps_matchedNodes s3) s3) (run_attributeFilters (dp_attributeFilters p)));
     Some (0, s4, bad \<and> contextual)
   }"

section \<open>The filters of the parser\<close>

definition br_block :: "dparser \<Rightarrow> ustring \<Rightarrow> bool" where
  "br_block p name \<longleftrightarrow> sc_block (dp_schema p) name \<or> name = js ''body''"

definition is_bookmark :: "hnode \<Rightarrow> bool" where
  "is_bookmark n \<longleftrightarrow> nd_name n = js ''span''
     \<and> (case nd_attributes n of None \<Rightarrow> False | Some a \<Rightarrow> attr_map a (js ''data-mce-type'') = Some (js ''bookmark''))"

text \<open>Whether another \<open>br\<close> comes right before, apart from bookmarks.\<close>

partial_function (option) br_before :: "nheap \<Rightarrow> addr option \<Rightarrow> bool option" where
  "br_before h prev =
     (case prev of
        None \<Rightarrow> Some False
      | Some a \<Rightarrow> Option.bind (h a) (\<lambda>n. if is_bookmark n then br_before h (nd_prev n) else Some (nd_name n = js ''br'')))"

text \<open>Whether the node is alone in all its parents up to a block.\<close>

partial_function (option) alone_in_block :: "dparser \<Rightarrow> nheap \<Rightarrow> addr option \<Rightarrow> addr \<Rightarrow> bool option" where
  "alone_in_block p h parent lastParent =
     (case parent of
        None \<Rightarrow> Some False
      | Some a \<Rightarrow> Option.bind (h a) (\<lambda>n.
          if nd_firstChild n \<noteq> Some lastParent \<or> nd_lastChild n \<noteq> Some lastParent then Some False
          else if br_block p (nd_name n) then Some True
          else alone_in_block p h (nd_parent n) a))"

declare br_before.simps [code] alone_in_block.simps [code]

definition drop_br :: "dparser \<Rightarrow> addr \<Rightarrow> addr \<Rightarrow> pstate \<Rightarrow> pstate option" where
  "drop_br p node par s = do {
     t \<leftarrow> on_heap (\<lambda>h. remove h node) s;
     e \<leftarrow> isEmpty (ps_heap t) par (sc_nonEmpty (dp_schema p));
     pn \<leftarrow> ps_heap t par;
     if \<not> e then Some t
     else (case sc_rule (dp_schema p) (nd_name pn) of
             None \<Rightarrow> Some t
           | Some ru \<Rightarrow> if ru_removeEmpty ru then on_heap (\<lambda>h. remove h par) t else if ru_paddEmpty ru then pad 3 par t else Some t)
   }"

definition br_node :: "dparser \<Rightarrow> addr \<Rightarrow> pstate \<Rightarrow> pstate option" where
  "br_node p node s = do {
     n \<leftarrow> ps_heap s node;
     par \<leftarrow> nd_parent n;
     pn \<leftarrow> ps_heap s par;
     if br_block p (nd_name pn) \<and> nd_lastChild pn = Some node
     then do { keep \<leftarrow> br_before (ps_heap s) (nd_prev n); if keep then Some s else drop_br p node par s }
     else do {
       alone \<leftarrow> alone_in_block p (ps_heap s) (Some par) node;
       if \<not> alone then Some s
       else (let (t, u) = new_node (js ''#text'') 3 s
             in on_heap (\<lambda>h. Option.bind (upd h t (\<lambda>d. d\<lparr>nd_value := Some [0xA0]\<rparr>)) (\<lambda>h1. replace_node h1 node t)) u)
     }
   }"

fun br_filter :: "dparser \<Rightarrow> addr list \<Rightarrow> pstate \<Rightarrow> pstate option" where
  "br_filter p [] s = Some s"
| "br_filter p (n # ns) s = Option.bind (br_node p n s) (br_filter p ns)"

text \<open>The contents of an anchor without a link moves behind it, the last child first.\<close>

partial_function (option) move_behind :: "nheap \<Rightarrow> addr \<Rightarrow> addr option \<Rightarrow> addr \<Rightarrow> nheap option" where
  "move_behind h parent sibling node =
     (case sibling of
        None \<Rightarrow> Some h
      | Some c \<Rightarrow> Option.bind (h c) (\<lambda>n. Option.bind (insert_node h parent c node False) (\<lambda>h1. move_behind h1 parent (nd_prev n) node)))"

declare move_behind.simps [code]

definition anchor_node :: "addr \<Rightarrow> nheap \<Rightarrow> nheap option" where
  "anchor_node node h = do {
     n \<leftarrow> h node;
     if nd_name n = js ''a'' \<and> nd_firstChild n \<noteq> None \<and> (case nd_attributes n of None \<Rightarrow> True | Some a \<Rightarrow> \<not> truthy_attr a (js ''href''))
     then do { par \<leftarrow> nd_parent n; move_behind h par (nd_lastChild n) node }
     else Some h
   }"

fun anchor_loop :: "addr list \<Rightarrow> pstate \<Rightarrow> pstate option" where
  "anchor_loop [] s = Some s"
| "anchor_loop (n # ns) s = Option.bind (on_heap (anchor_node n) s) (anchor_loop ns)"

definition anchor_filter :: "addr list \<Rightarrow> pstate \<Rightarrow> pstate option" where
  "anchor_filter nodes = anchor_loop (rev nodes)"

text \<open>\<open>new DomParser(settings, schema)\<close> with the two settings that add filters.\<close>

definition new_DomParser :: "bool \<Rightarrow> bool \<Rightarrow> dparser \<Rightarrow> dparser option" where
  "new_DomParser remove_trailing_brs allow_html_in_named_anchor p0 =
     (let p = p0\<lparr>dp_nodeFilters := [], dp_attributeFilters := []\<rparr>
      in do {
        q \<leftarrow> (if remove_trailing_brs then addNodeFilter [js ''br''] (br_filter p) p else Some p);
        Some (if \<not> allow_html_in_named_anchor then addAttributeFilter [js ''id'', js ''name''] anchor_filter q else q)
      })"

end
