(* ===== verification/ParseTree.thy ===== *)
theory ParseTree
  imports DomParser
begin

text \<open>
  Parsing and writing: the tree the parser of \<open>classes/html/DomParser.js\<close> builds from the events of a tidy document is
  written by the serializer with the same events. A document is a list of nodes as a datatype; it is tidy when
  the schema has a rule for its elements that does not rename, remove or pad them, its elements are valid where they are, no element
  or processing instruction is named like a member of \<open>Object.prototype\<close>, and its texts have no white space at their ends and only single spaces in between.
\<close>

section \<open>Documents\<close>

datatype hdoc =
    HElem ustring "(ustring \<times> ustring) list" "hdoc list"
  | HVoid ustring "(ustring \<times> ustring) list"
  | HText ustring bool
  | HCData "ustring option"
  | HComment "ustring option"
  | HPI ustring "ustring option"
  | HDoctype "ustring option"

fun events_of :: "hdoc \<Rightarrow> event list" where
  "events_of (HElem n a ds) = Start n (Some a) False # concat (map events_of ds) @ [End n]"
| "events_of (HVoid n a) = [Start n (Some a) True]"
| "events_of (HText v raw) = [Text v raw]"
| "events_of (HCData v) = [CData v]"
| "events_of (HComment v) = [Comment v]"
| "events_of (HPI n v) = [PI n v]"
| "events_of (HDoctype v) = [Doctype v]"

definition tidy_text :: "ustring \<Rightarrow> bool" where
  "tidy_text v \<longleftrightarrow> v \<noteq> [] \<and> collapse_space v = v \<and> trim_start v = v \<and> trim_end v = v"

definition tidy_name :: "dparser \<Rightarrow> ustring \<Rightarrow> ustring \<Rightarrow> bool" where
  "tidy_name p parent n \<longleftrightarrow> n \<notin> set proto_keys \<and> \<not> invalid_in p parent n
     \<and> (case element_rule p n of None \<Rightarrow> False | Some ru \<Rightarrow> output_name ru n = n \<and> \<not> ru_removeEmpty ru \<and> \<not> ru_paddEmpty ru)"

fun tidy :: "dparser \<Rightarrow> ustring \<Rightarrow> hdoc \<Rightarrow> bool" where
  "tidy p parent (HElem n a ds) = (tidy_name p parent n \<and> (\<forall>d \<in> set ds. tidy p n d))"
| "tidy p parent (HVoid n a) = tidy_name p parent n"
| "tidy p parent (HText v raw) = tidy_text v"
| "tidy p parent (HPI n v) = (n \<notin> set proto_keys)"
| "tidy p parent _ = True"

section \<open>New nodes in the store\<close>

lemma clear_sel [simp]:
  "nd_type (clear_links n) = nd_type n" "nd_name (clear_links n) = nd_name n" "nd_shortEnded (clear_links n) = nd_shortEnded n"
  "nd_attributes (clear_links n) = nd_attributes n" "nd_value (clear_links n) = nd_value n" "nd_raw (clear_links n) = nd_raw n"
  by (simp_all add: clear_links_def)

lemma clear_events [simp]: "out_attrs sz (clear_links n) = out_attrs sz n" "leaf_event (clear_links n) = leaf_event n"
  by (simp_all add: out_attrs_def leaf_event_def cong: option.case_cong if_cong)

lemma clear_eq:
  assumes "clear_links m = clear_links n"
  shows "nd_type m = nd_type n" "nd_name m = nd_name n" "nd_shortEnded m = nd_shortEnded n" "out_attrs sz m = out_attrs sz n" "leaf_event m = leaf_event n"
  using assms by (metis clear_sel(1), metis clear_sel(2), metis clear_sel(3), metis clear_events(1), metis clear_events(2))

definition isolated :: "hnode \<Rightarrow> bool" where
  "isolated m \<longleftrightarrow> clear_links m = m"

lemma isolatedD: "isolated m \<Longrightarrow> nd_parent m = None \<and> nd_prev m = None \<and> nd_next m = None \<and> nd_firstChild m = None \<and> nd_lastChild m = None"
  by (metis isolated_def clear_links_def hnode.select_convs hnode.surjective hnode.update_convs(7-11))

lemma wf_heap_fresh:
  assumes "wf_heap h ch" "a \<notin> dom h" "isolated m" shows "wf_heap (h(a \<mapsto> m)) ch"
proof -
  have ch: "ch a = []" "a \<notin> set (ch q)" for q
    using assms(1,2) wf_linksD(2) [of "links h" "ends h" ch a] wf_heap_dom [of h ch a q] by (auto simp: wf_heap_def)
  have "links (h(a \<mapsto> m)) = (links h)(a \<mapsto> (None, None, None))" "ends (h(a \<mapsto> m)) = (ends h)(a \<mapsto> (None, None))"
    using isolatedD [OF assms(3)] by (auto simp: links_def ends_def fun_eq_iff)
  then show ?thesis using assms(1) ch unfolding wf_heap_def wf_links_def by auto
qed

lemma wf_heap_contents:
  assumes "wf_heap h ch" "h a = Some n" "clear_links m = clear_links (m\<lparr>nd_value := nd_value m\<rparr>)"
    "nd_parent m = nd_parent n" "nd_prev m = nd_prev n" "nd_next m = nd_next n" "nd_firstChild m = nd_firstChild n" "nd_lastChild m = nd_lastChild n"
  shows "wf_heap (h(a \<mapsto> m)) ch"
proof -
  have "links (h(a \<mapsto> m)) = links h" "ends (h(a \<mapsto> m)) = ends h" using assms(2-) by (auto simp: links_def ends_def fun_eq_iff)
  then show ?thesis using assms(1) by (simp add: wf_heap_def)
qed

lemma append_fresh:
  assumes "wf_heap h ch" "a \<notin> dom h" "isolated m" "x \<in> dom h"
  obtains h' where "append_node (h(a \<mapsto> m)) x a = Some h'" "contents h' = (contents h)(a \<mapsto> m)" "wf_heap h' (ch(x := ch x @ [a]))"
proof -
  have wf: "wf_heap (h(a \<mapsto> m)) ch" by (rule wf_heap_fresh [OF assms(1-3)])
  have "without a ch = ch" using assms(1,2) wf_heap_dom [of h ch a] by (intro without_id) auto
  moreover have "a \<noteq> x" using assms(2,4) by auto
  moreover have "contents (h(a \<mapsto> m)) = (contents h)(a \<mapsto> m)" using assms(3) by (auto simp: contents_def isolated_def fun_eq_iff)
  ultimately show thesis using append_refines [OF wf, of x a] that assms(4) by auto
qed

section \<open>White space\<close>

definition text_ok :: "hnode \<Rightarrow> bool" where
  "text_ok n \<longleftrightarrow> (nd_type n = 3 \<longrightarrow> (\<exists>v. nd_value n = Some v \<and> tidy_text v))"

definition texts_ok :: "nheap \<Rightarrow> bool" where
  "texts_ok h \<longleftrightarrow> (\<forall>a. pred_option text_ok (h a))"

lemma text_ok_clear [simp]: "text_ok (clear_links n) = text_ok n"
  by (simp add: text_ok_def clear_links_def)

lemma texts_ok_contents: "texts_ok (contents h) = texts_ok h"
  by (simp add: texts_ok_def contents_def option.pred_map comp_def)

lemma texts_okD: "texts_ok h \<Longrightarrow> h a = Some n \<Longrightarrow> nd_type n = 3 \<Longrightarrow> \<exists>v. nd_value n = Some v \<and> tidy_text v"
  by (drule texts_ok_def [THEN iffD1, THEN spec, of _ a]) (simp add: text_ok_def)

lemma same_value: "h a = Some n \<Longrightarrow> nd_value n = Some v \<Longrightarrow> upd h a (\<lambda>n. n\<lparr>nd_value := Some v\<rparr>) = Some h"
  by (simp add: upd_def fun_upd_idem)

lemma rwb_loop_id:
  assumes "wf_heap h ch" "texts_ok h" "ch q = xs @ ys"
  shows "rwb_loop h (last_opt xs) = Some h"
  using assms(3)
proof (induction xs arbitrary: ys rule: rev_induct)
  case Nil
  then show ?case by (simp add: rwb_loop.simps)
next
  case (snoc a xs)
  obtain n where n: "h a = Some n" "nd_prev n = last_opt xs" using wf_heap_childE [OF assms(1), of q xs a ys] snoc.prems by auto
  have "rwb_loop h (last_opt xs) = Some h" using snoc.IH [of "a # ys"] snoc.prems by simp
  then show ?case using n texts_okD [OF assms(2) n(1)] same_value [of h a n]
    by (subst rwb_loop.simps) (auto simp: tidy_text_def)
qed

lemma removeWhitespaceBefore_id:
  assumes "wf_heap h ch" "texts_ok h" "a \<in> dom h"
  shows "removeWhitespaceBefore a h = Some h"
proof -
  obtain n where n: "h a = Some n" using assms(3) by auto
  show ?thesis
  proof (cases "nd_parent n")
    case None
    then have "nd_prev n = None" using wf_linksD(8) [of "links h" "ends h" ch a] n assms(1) by (auto simp: wf_heap_def links_def)
    then show ?thesis using n by (simp add: removeWhitespaceBefore_def rwb_loop.simps)
  next
    case (Some q)
    then have "a \<in> set (ch q)" using wf_linksD(7) [of "links h" "ends h" ch a q] n assms(1) by (auto simp: wf_heap_def links_def)
    from split_list [OF this] obtain ls rs where "ch q = ls @ a # rs" by blast
    moreover have "nd_prev n = last_opt ls" using wf_heap_childE [OF assms(1) calculation] n by (metis option.inject)
    ultimately show ?thesis using rwb_loop_id [OF assms(1,2), of q ls] n by (simp add: removeWhitespaceBefore_def)
  qed
qed

lemma trim_edge_id:
  assumes "wf_heap h ch" "texts_ok h" "a \<in> dom h"
  shows "trim_edge bwd a h = Some h"
proof -
  obtain n where n: "h a = Some n" "nd_firstChild n = hd_opt (ch a)" "nd_lastChild n = last_opt (ch a)" using wf_heap_node [OF assms(1,3)] .
  show ?thesis
  proof (cases "start_link bwd n")
    case (Some c)
    then have "c \<in> set (ch a)" using n by (auto simp: start_link_def hd_opt_in_set last_opt_in_set split: if_splits)
    then obtain cn where cn: "h c = Some cn" using wf_heap_dom [OF assms(1), of c a] by auto
    show ?thesis using n(1) Some cn texts_okD [OF assms(2) cn] same_value [of h c cn]
      by (auto simp: trim_edge_def tidy_text_def Let_def)
  qed (simp add: trim_edge_def n)
qed

section \<open>Growing a tree\<close>

text \<open>The store of a state spells the child lists \<open>ch\<close>, is filled up to the next address, and all its texts are tidy.\<close>

definition ready :: "pstate \<Rightarrow> (addr \<Rightarrow> addr list) \<Rightarrow> bool" where
  "ready s ch \<longleftrightarrow> wf_heap (ps_heap s) ch \<and> dom (ps_heap s) = {..<ps_next s} \<and> texts_ok (ps_heap s)"

text \<open>The variables that only invalid children and filters use.\<close>

definition quiet :: "pstate \<Rightarrow> addr list \<times> addr list \<times> (ustring \<times> addr list) list \<times> (ustring \<times> addr list) list" where
  "quiet s = (ps_invalidChildren s, ps_fixed s, ps_matchedNodes s, ps_matchedAttributes s)"

text \<open>A new node \<open>m\<close> at the end of the children of \<open>x\<close>.\<close>

definition added :: "addr \<Rightarrow> hnode \<Rightarrow> pstate \<Rightarrow> (addr \<Rightarrow> addr list) \<Rightarrow> pstate \<Rightarrow> bool" where
  "added x m s ch t \<longleftrightarrow> ready t (ch(x := ch x @ [ps_next s])) \<and> ps_next t = Suc (ps_next s)
     \<and> contents (ps_heap t) = (contents (ps_heap s))(ps_next s \<mapsto> m) \<and> quiet t = quiet s"

lemma isolated_Node [simp]: "isolated (Node n k)" "isolated ((Node n k)\<lparr>nd_raw := r\<rparr>)"
  "isolated ((Node n k)\<lparr>nd_attributes := a, nd_shortEnded := e\<rparr>)"
  by (simp_all add: isolated_def clear_links_def Node_def)

lemma texts_ok_upd: "texts_ok h \<Longrightarrow> text_ok m \<Longrightarrow> texts_ok (h(a \<mapsto> m))"
  by (simp add: texts_ok_def)

lemma upd_contents:
  assumes "h a = Some n"
  shows "contents (h(a \<mapsto> n\<lparr>nd_value := v\<rparr>)) = (contents h)(a \<mapsto> (clear_links n)\<lparr>nd_value := v\<rparr>)"
  using assms by (auto simp: contents_def clear_links_def fun_eq_iff)

lemma add_leaf_added:
  assumes "ready s ch" "ps_node s = Some x" "x < ps_next s" "dp_nodeFilters p = []" "name \<notin> set proto_keys"
    and "text_ok ((Node name k)\<lparr>nd_raw := raw, nd_value := v\<rparr>)"
  shows "\<exists>t. add_leaf p name k v raw s = Some t \<and> added x ((Node name k)\<lparr>nd_raw := raw, nd_value := v\<rparr>) s ch t \<and> ps_node t = Some x"
proof -
  let ?a = "ps_next s" and ?m = "(Node name k)\<lparr>nd_raw := raw\<rparr>" and ?h = "ps_heap s"
  have wf: "wf_heap ?h ch" and dom: "dom ?h = {..<?a}" and ok: "texts_ok ?h" using assms(1) by (simp_all add: ready_def)
  obtain h where h: "append_node (?h(?a \<mapsto> ?m)) x ?a = Some h" "contents h = (contents ?h)(?a \<mapsto> ?m)" "wf_heap h (ch(x := ch x @ [?a]))"
    using append_fresh [OF wf, of ?a ?m x] dom assms(3) by auto
  obtain n where n: "h ?a = Some n" "clear_links n = ?m" using fun_cong [OF h(2), of ?a] by (auto simp: contents_def)
  let ?h' = "h(?a \<mapsto> n\<lparr>nd_value := v\<rparr>)"
  have c: "contents ?h' = (contents ?h)(?a \<mapsto> ?m\<lparr>nd_value := v\<rparr>)" using upd_contents [of h ?a n v] n h(2) by simp
  have "texts_ok (contents ?h')" unfolding c using assms(6) ok by (intro texts_ok_upd) (simp_all add: texts_ok_contents)
  then have "texts_ok ?h'" by (simp only: texts_ok_contents)
  moreover have "dom ?h' = {..<Suc ?a}" using contents_dom [of ?h' ?h'] c dom by (metis dom_contents dom_fun_upd lessThan_Suc option.simps(3))
  moreover have "wf_heap ?h' (ch(x := ch x @ [?a]))" using h(3) n(1) by (intro wf_heap_contents) simp_all
  moreover have "add_leaf p name k v raw s = Some (s\<lparr>ps_heap := ?h', ps_next := Suc ?a\<rparr>)"
    using assms(2,4,5) h(1) n(1) by (simp add: add_leaf_def createNode_def new_node_def has_key_def upd_def)
  ultimately show ?thesis using c assms(2) by (simp add: added_def ready_def quiet_def)
qed

lemma before_current_id:
  assumes "ready s ch" "ps_node s = Some x" "x < ps_next s"
  shows "before_current s = Some s"
  using assms removeWhitespaceBefore_id [of "ps_heap s" ch x] by (simp add: ready_def before_current_def on_heap_def)

lemma on_start_added:
  assumes "ready s ch" "ps_node s = Some x" "x < ps_next s" "dp_nodeFilters p = []" "dp_attributeFilters p = []"
    and "ps_heap s x = Some xn" "tidy_name p (nd_name xn) name"
  shows "\<exists>t. on_start p name kvs emp s = Some t \<and> added x ((Node name 1)\<lparr>nd_attributes := Some (mk_attrs kvs), nd_shortEnded := emp\<rparr>) s ch t
    \<and> ps_node t = Some (if emp then x else ps_next s)"
proof -
  let ?a = "ps_next s" and ?m = "(Node name 1)\<lparr>nd_attributes := Some (mk_attrs kvs), nd_shortEnded := emp\<rparr>" and ?h = "ps_heap s"
  have wf: "wf_heap ?h ch" and dom: "dom ?h = {..<?a}" and ok: "texts_ok ?h" using assms(1) by (simp_all add: ready_def)
  obtain ru where ru: "element_rule p name = Some ru" "output_name ru name = name" "\<not> invalid_in p (nd_name xn) name" "name \<notin> set proto_keys"
    using assms(7) by (auto simp: tidy_name_def split: option.splits)
  obtain h where h: "append_node (?h(?a \<mapsto> ?m)) x ?a = Some h" "contents h = (contents ?h)(?a \<mapsto> ?m)" "wf_heap h (ch(x := ch x @ [?a]))"
    using append_fresh [OF wf, of ?a ?m x] dom assms(3) by auto
  have "texts_ok (contents h)" unfolding h(2) using ok by (intro texts_ok_upd) (simp_all add: texts_ok_contents text_ok_def Node_def)
  then have okh: "texts_ok h" by (simp add: texts_ok_contents)
  have domh: "dom h = {..<Suc ?a}" using h(2) dom by (metis dom_contents dom_fun_upd lessThan_Suc option.simps(3))
  have rw: "removeWhitespaceBefore ?a h = Some h" using removeWhitespaceBefore_id [OF h(3) okh] domh by auto
  obtain c where c: "h x = Some c" "clear_links c = clear_links xn"
    using fun_cong [OF h(2), of x] assms(3,6) by (auto simp: contents_def split: if_splits)
  then have cn: "nd_name c = nd_name xn" using clear_eq(2) by blast
  have "on_start p name kvs emp s = Some (s\<lparr>ps_heap := h, ps_next := Suc ?a, ps_node := Some (if emp then x else ?a),
      ps_white := ps_white s \<or> sc_whiteSpace (dp_schema p) name\<rparr>)"
    using ru assms(2,4,5) h(1) c(1) cn rw
    by (auto simp: on_start_def createNode_def new_node_def has_key_def upd_def match_attributes_def on_heap_def Let_def)
  then show ?thesis using h(2,3) okh domh by (simp add: added_def ready_def quiet_def)
qed

lemma on_end_id:
  assumes "ready s ch" "ps_node s = Some x" "x < ps_next s" "ps_heap s x = Some xn" "tidy_name p parent name"
  shows "\<exists>w. on_end p name s = Some (s\<lparr>ps_node := nd_parent xn, ps_white := w\<rparr>)"
proof -
  have h: "wf_heap (ps_heap s) ch" "texts_ok (ps_heap s)" "x \<in> dom (ps_heap s)" using assms(1,3) by (auto simp: ready_def)
  obtain ru where ru: "element_rule p name = Some ru" "\<not> ru_removeEmpty ru" "\<not> ru_paddEmpty ru"
    using assms(5) by (auto simp: tidy_name_def split: option.splits)
  have "on_end p name s = Some (s\<lparr>ps_node := nd_parent xn, ps_white := ps_white s \<and> \<not> sc_whiteSpace (dp_schema p) name\<rparr>)"
    using ru assms(2,4) trim_edge_id [OF h, of False] trim_edge_id [OF h, of True]
    by (auto simp: on_end_def end_empty_def on_heap_def)
  then show ?thesis by blast
qed

section \<open>Trees of documents\<close>

text \<open>The children \<open>ts\<close> have been added to \<open>x\<close>, with new nodes only, and the serializer writes them with the events \<open>es\<close>.\<close>

definition grown :: "serializer \<Rightarrow> addr \<Rightarrow> pstate \<Rightarrow> (addr \<Rightarrow> addr list) \<Rightarrow> tree list \<Rightarrow> event list \<Rightarrow> pstate \<Rightarrow> (addr \<Rightarrow> addr list) \<Rightarrow> bool" where
  "grown sz x s ch ts es t ch' \<longleftrightarrow> ready t ch' \<and> ps_next s \<le> ps_next t \<and> ps_node t = Some x \<and> quiet t = quiet s
     \<and> ch' x = ch x @ map troot ts \<and> (\<forall>y < ps_next s. y \<noteq> x \<longrightarrow> ch' y = ch y)
     \<and> (\<forall>y < ps_next s. contents (ps_heap t) y = contents (ps_heap s) y)
     \<and> (\<forall>u \<in> set ts. tree_in ch' u \<and> set (preorder u) \<subseteq> {ps_next s..<ps_next t})
     \<and> forest_events sz (ps_heap t) ts = Some es"

lemma tree_in_cong: "(\<And>a. a \<in> set (preorder u) \<Longrightarrow> ch' a = ch a) \<Longrightarrow> tree_in ch' u = tree_in ch u"
  by (induction u) auto

lemma tree_events_cong: "(\<And>a. a \<in> set (preorder u) \<Longrightarrow> contents h' a = contents h a) \<Longrightarrow> tree_events sz h' u = tree_events sz h u"
proof (induction u)
  case (T x ts)
  have "map (tree_events sz h') ts = map (tree_events sz h) ts" using T by (intro map_cong) auto
  then have sub: "those (map (tree_events sz h') ts) = those (map (tree_events sz h) ts)" by (rule arg_cong)
  have x: "map_option clear_links (h' x) = map_option clear_links (h x)" using T.prems [of x] by (simp add: contents_def)
  show ?case
  proof (cases "h x")
    case None
    then show ?thesis using x by simp
  next
    case (Some n)
    then obtain m where m: "h' x = Some m" "clear_links m = clear_links n" using x by auto
    then show ?thesis using Some clear_eq [OF m(2)] sub by (simp cong: if_cong)
  qed
qed

lemma forest_events_cong:
  "(\<And>u a. u \<in> set ts \<Longrightarrow> a \<in> set (preorder u) \<Longrightarrow> contents h' a = contents h a) \<Longrightarrow> forest_events sz h' ts = forest_events sz h ts"
  unfolding forest_events_def by (intro arg_cong [of _ _ "map_option concat"] arg_cong [of _ _ those] map_cong refl tree_events_cong) auto

lemma forest_events_append:
  "forest_events sz h ts = Some es \<Longrightarrow> forest_events sz h us = Some fs \<Longrightarrow> forest_events sz h (ts @ us) = Some (es @ fs)"
  by (induction ts arbitrary: es) (auto simp: forest_events_simps split: bind_splits)

lemma grownD:
  assumes "grown sz x s ch ts es t ch'"
  shows "ready t ch'" "ps_next s \<le> ps_next t" "ps_node t = Some x" "quiet t = quiet s" "ch' x = ch x @ map troot ts"
    "y < ps_next s \<Longrightarrow> y \<noteq> x \<Longrightarrow> ch' y = ch y" "y < ps_next s \<Longrightarrow> contents (ps_heap t) y = contents (ps_heap s) y"
    "u \<in> set ts \<Longrightarrow> tree_in ch' u" "u \<in> set ts \<Longrightarrow> set (preorder u) \<subseteq> {ps_next s..<ps_next t}"
    "forest_events sz (ps_heap t) ts = Some es"
  using assms unfolding grown_def by auto

lemma grown_trans:
  assumes "grown sz x s ch ts es t ch1" "grown sz x t ch1 us fs v ch2" "x < ps_next s"
  shows "grown sz x s ch (ts @ us) (es @ fs) v ch2"
proof -
  note a = grownD [OF assms(1)] and b = grownD [OF assms(2)]
  have old: "y \<noteq> x" "y < ps_next t" if "u \<in> set ts" "y \<in> set (preorder u)" for u y using a(9) [OF that(1)] that(2) assms(3) by auto
  have "tree_in ch2 u" if "u \<in> set ts" for u
    using tree_in_cong [of u ch2 ch1] old [OF that] b(6) a(8) [OF that] by blast
  moreover have "forest_events sz (ps_heap v) ts = Some es"
    using forest_events_cong [of ts "ps_heap v" "ps_heap t" sz] old b(7) a(10) by metis
  then have "forest_events sz (ps_heap v) (ts @ us) = Some (es @ fs)" using b(10) by (rule forest_events_append)
  moreover have "ch2 y = ch y" if "y < ps_next s" "y \<noteq> x" for y using a(2,6) b(6) that by simp
  moreover have "contents (ps_heap v) y = contents (ps_heap s) y" if "y < ps_next s" for y using a(2,7) b(7) that by simp
  moreover have "set (preorder u) \<subseteq> {ps_next s..<ps_next v}" if "u \<in> set (ts @ us)" for u
    using that a(2,9) b(2,9) by (cases "u \<in> set ts") fastforce+
  ultimately show ?thesis unfolding grown_def using a(2,4,5) b(1-5,8) by auto
qed

lemma ready_fresh: "ready s ch \<Longrightarrow> ps_next s \<le> y \<Longrightarrow> ch y = []"
  using wf_linksD(2) [of "links (ps_heap s)" "ends (ps_heap s)" ch y] by (auto simp: ready_def wf_heap_def)

lemma grown_name:
  assumes "grown sz x s ch ts es t ch'" "y < ps_next s" "ps_heap s y = Some n"
  shows "\<exists>m. ps_heap t y = Some m \<and> nd_name m = nd_name n"
proof -
  have "map_option clear_links (ps_heap t y) = map_option clear_links (ps_heap s y)"
    using grownD(7) [OF assms(1,2)] by (simp add: contents_def)
  then obtain m where "ps_heap t y = Some m" "clear_links m = clear_links n" using assms(3) by auto
  then show ?thesis using clear_eq(2) by blast
qed

lemma added_grown:
  assumes "added x m s ch t" "ps_node t = Some x" "x < ps_next s" "ready s ch" "isolated m"
    and "tree_events sz (\<lambda>_. Some m) (T (ps_next s) []) = Some es"
  shows "grown sz x s ch [T (ps_next s) []] es t (ch(x := ch x @ [ps_next s]))"
proof -
  let ?a = "ps_next s"
  note a = assms(1) [unfolded added_def]
  have "tree_events sz (ps_heap t) (T ?a []) = tree_events sz (\<lambda>_. Some m) (T ?a [])"
    using a assms(5) by (intro tree_events_cong) (simp add: contents_def isolated_def)
  then have "forest_events sz (ps_heap t) [T ?a []] = Some es" using assms(6) by (simp add: forest_events_simps del: tree_events.simps)
  moreover have "ch ?a = []" using ready_fresh [OF assms(4), of ?a] by simp
  ultimately show ?thesis using a assms(2,3) by (simp add: grown_def)
qed

lemma on_events_append: "on_events p (es @ fs) s = Option.bind (on_events p es s) (on_events p fs)"
proof (induction es arbitrary: s)
  case (Cons e es)
  then show ?case by (cases "on_event p e s") simp_all
qed simp

text \<open>One node of a document, and a list of them.\<close>

definition builds :: "serializer \<Rightarrow> dparser \<Rightarrow> ustring \<Rightarrow> event list \<Rightarrow> bool" where
  "builds sz p parent es \<longleftrightarrow> (\<forall>s ch x xn. ready s ch \<longrightarrow> ps_node s = Some x \<longrightarrow> x < ps_next s \<longrightarrow> ps_heap s x = Some xn \<longrightarrow> nd_name xn = parent \<longrightarrow>
     (\<exists>t ch' ts. on_events p es s = Some t \<and> grown sz x s ch ts es t ch'))"

lemma buildsD:
  assumes "builds sz p parent es" "ready s ch" "ps_node s = Some x" "x < ps_next s" "ps_heap s x = Some xn" "nd_name xn = parent"
  shows "\<exists>t ch' ts. on_events p es s = Some t \<and> grown sz x s ch ts es t ch'"
  using assms unfolding builds_def by blast

lemma builds_forest:
  assumes "\<And>d. d \<in> set ds \<Longrightarrow> builds sz p parent (events_of d)"
  shows "builds sz p parent (concat (map events_of ds))"
  using assms
proof (induction ds)
  case Nil
  show ?case unfolding builds_def
  proof (intro allI impI)
    fix s ch x xn assume "ready s ch" "ps_node s = Some x" "x < ps_next s"
    then have "grown sz x s ch [] [] s ch" by (simp add: grown_def forest_events_def)
    then show "\<exists>t ch' ts. on_events p (concat (map events_of [])) s = Some t \<and> grown sz x s ch ts (concat (map events_of [])) t ch'"
      by (auto intro!: exI [of _ s] exI [of _ ch] exI [of _ "[]"])
  qed
next
  case (Cons d ds)
  show ?case unfolding builds_def
  proof (intro allI impI)
    fix s ch x xn assume s: "ready s ch" "ps_node s = Some x" "x < ps_next s" "ps_heap s x = Some xn" "nd_name xn = parent"
    obtain t ch1 ts where t: "on_events p (events_of d) s = Some t" "grown sz x s ch ts (events_of d) t ch1"
      using buildsD [OF Cons.prems [OF list.set_intros(1)] s] by blast
    obtain tn where tn: "ps_heap t x = Some tn" "nd_name tn = parent" using grown_name [OF t(2) s(3,4)] s(5) by auto
    have xt: "x < ps_next t" using grownD(2) [OF t(2)] s(3) by simp
    have "builds sz p parent (concat (map events_of ds))" using Cons by simp
    then obtain v ch2 us where v: "on_events p (concat (map events_of ds)) t = Some v" "grown sz x t ch1 us (concat (map events_of ds)) v ch2"
      using buildsD [OF _ grownD(1,3) [OF t(2)] xt tn] by blast
    from grown_trans [OF t(2) v(2) s(3)] t(1) v(1)
    show "\<exists>t ch' ts. on_events p (concat (map events_of (d # ds))) s = Some t \<and> grown sz x s ch ts (concat (map events_of (d # ds))) t ch'"
      by (auto simp: on_events_append)
  qed
qed

lemma builds_leaf:
  assumes "\<And>s ch x xn. ready s ch \<Longrightarrow> ps_node s = Some x \<Longrightarrow> x < ps_next s \<Longrightarrow> ps_heap s x = Some xn \<Longrightarrow> nd_name xn = parent \<Longrightarrow>
      \<exists>t. on_event p e s = Some t \<and> added x m s ch t \<and> ps_node t = Some x"
    and "isolated m" "\<And>a. tree_events sz (\<lambda>_. Some m) (T a []) = Some [e]"
  shows "builds sz p parent [e]"
  unfolding builds_def
proof (intro allI impI)
  fix s ch x xn assume s: "ready s ch" "ps_node s = Some x" "x < ps_next s" "ps_heap s x = Some xn" "nd_name xn = parent"
  obtain t where t: "on_event p e s = Some t" "added x m s ch t" "ps_node t = Some x" using assms(1) [OF s] by blast
  have "grown sz x s ch [T (ps_next s) []] [e] t (ch(x := ch x @ [ps_next s]))" using added_grown [OF t(2,3) s(3,1) assms(2,3)] .
  then show "\<exists>t ch' ts. on_events p [e] s = Some t \<and> grown sz x s ch ts [e] t ch'" using t(1) by auto
qed

text \<open>The leaves.\<close>

lemma plain_hash: "js ''#text'' \<notin> set proto_keys" "js ''#cdata'' \<notin> set proto_keys" "js ''#comment'' \<notin> set proto_keys" "js ''#doctype'' \<notin> set proto_keys"
  by (simp_all add: proto_keys_def js_def)

lemma isolated_value [simp]: "isolated m \<Longrightarrow> isolated (m\<lparr>nd_value := v\<rparr>)"
  by (cases m) (simp add: isolated_def clear_links_def)

lemma on_text_leaf:
  assumes "ready s ch" "ps_node s = Some x" "x < ps_next s" "tidy_text v"
  shows "on_text p v raw s = add_leaf p (js ''#text'') 3 (Some v) raw s"
proof -
  have v: "v \<noteq> []" "collapse_space v = v" "trim_start v = v" using assms(4) by (simp_all add: tidy_text_def)
  have h: "wf_heap (ps_heap s) ch" "x \<in> dom (ps_heap s)" using assms(1,3) by (auto simp: ready_def)
  obtain n where n: "ps_heap s x = Some n" "nd_lastChild n = last_opt (ch x)" using wf_heap_node [OF h] .
  show ?thesis
  proof (cases "nd_lastChild n")
    case None
    then show ?thesis using v n assms(2) by (simp add: on_text_def)
  next
    case (Some l)
    then have "l \<in> set (ch x)" using n by (simp add: last_opt_in_set)
    then obtain ln where "ps_heap s l = Some ln" using wf_heap_dom [OF h(1), of l x] by auto
    then show ?thesis using Some v n(1) assms(2) by (simp add: on_text_def)
  qed
qed

lemma before_current_added:
  assumes "added x m s ch t" "ps_node t = Some x" "x < ps_next s"
  shows "before_current t = Some t"
  using assms before_current_id [of t _ x] by (auto simp: added_def)

lemma builds_leaves:
  assumes "dp_nodeFilters p = []" "\<not> sz_validate sz"
  shows "tidy_text v \<Longrightarrow> builds sz p parent [Text v raw]"
    and "builds sz p parent [CData w]"
    and "builds sz p parent [Comment w]"
    and "name \<notin> set proto_keys \<Longrightarrow> builds sz p parent [PI name w]"
    and "builds sz p parent [Doctype w]"
proof -
  have leaf: "\<exists>t. add_leaf p n k w r s = Some t \<and> added x ((Node n k)\<lparr>nd_raw := r, nd_value := w\<rparr>) s ch t \<and> ps_node t = Some x"
    if "ready s ch" "ps_node s = Some x" "x < ps_next s" "k \<noteq> 3" "n \<notin> set proto_keys" for n k w r s ch x
    using that(4) by (intro add_leaf_added [OF that(1-3) assms(1) that(5)]) (simp add: text_ok_def Node_def)
  note ev = leaf_type_def leaf_event_def Node_def isolated_def clear_links_def
  show "builds sz p parent [Text v raw]" if "tidy_text v"
  proof (rule builds_leaf [where m = "(Node (js ''#text'') 3)\<lparr>nd_raw := raw, nd_value := Some v\<rparr>"])
    fix s ch x xn assume s: "ready s ch" "ps_node s = Some x" "x < ps_next s"
    show "\<exists>t. on_event p (Text v raw) s = Some t \<and> added x ((Node (js ''#text'') 3)\<lparr>nd_raw := raw, nd_value := Some v\<rparr>) s ch t \<and> ps_node t = Some x"
      using add_leaf_added [OF s assms(1) plain_hash(1), where k = 3 and raw = raw and v = "Some v"] that on_text_leaf [OF s that]
      by (simp add: text_ok_def Node_def)
  qed (simp_all add: ev)
  show "builds sz p parent [CData w]"
  proof (rule builds_leaf [where m = "(Node (js ''#cdata'') 4)\<lparr>nd_raw := False, nd_value := w\<rparr>"])
    fix s ch x xn assume s: "ready s ch" "ps_node s = Some x" "x < ps_next s"
    then show "\<exists>t. on_event p (CData w) s = Some t \<and> added x ((Node (js ''#cdata'') 4)\<lparr>nd_raw := False, nd_value := w\<rparr>) s ch t \<and> ps_node t = Some x"
      using leaf [OF s, where k = 4 and n = "js ''#cdata''" and w = w and r = False] plain_hash by simp
  qed (simp_all add: ev)
  show "builds sz p parent [Comment w]"
  proof (rule builds_leaf [where m = "(Node (js ''#comment'') 8)\<lparr>nd_raw := False, nd_value := w\<rparr>"])
    fix s ch x xn assume s: "ready s ch" "ps_node s = Some x" "x < ps_next s"
    then show "\<exists>t. on_event p (Comment w) s = Some t \<and> added x ((Node (js ''#comment'') 8)\<lparr>nd_raw := False, nd_value := w\<rparr>) s ch t \<and> ps_node t = Some x"
      using leaf [OF s, where k = 8 and n = "js ''#comment''" and w = w and r = False] plain_hash by simp
  qed (simp_all add: ev)
  show "builds sz p parent [PI name w]" if plain: "name \<notin> set proto_keys"
  proof (rule builds_leaf [where m = "(Node name 7)\<lparr>nd_raw := False, nd_value := w\<rparr>"])
    fix s ch x xn assume s: "ready s ch" "ps_node s = Some x" "x < ps_next s"
    then show "\<exists>t. on_event p (PI name w) s = Some t \<and> added x ((Node name 7)\<lparr>nd_raw := False, nd_value := w\<rparr>) s ch t \<and> ps_node t = Some x"
      using leaf [OF s, where k = 7 and n = name and w = w and r = False] plain before_current_added by (fastforce simp: on_pi_def)
  qed (simp_all add: ev)
  show "builds sz p parent [Doctype w]"
  proof (rule builds_leaf [where m = "(Node (js ''#doctype'') 10)\<lparr>nd_raw := False, nd_value := w\<rparr>"])
    fix s ch x xn assume s: "ready s ch" "ps_node s = Some x" "x < ps_next s"
    then show "\<exists>t. on_event p (Doctype w) s = Some t \<and> added x ((Node (js ''#doctype'') 10)\<lparr>nd_raw := False, nd_value := w\<rparr>) s ch t
        \<and> ps_node t = Some x"
      using leaf [OF s, where k = 10 and n = "js ''#doctype''" and w = w and r = False] plain_hash before_current_added by (fastforce simp: on_doctype_def)
  qed (simp_all add: ev)
qed

lemma builds_void:
  assumes "dp_nodeFilters p = []" "dp_attributeFilters p = []" "\<not> sz_validate sz" "tidy_name p parent n"
  shows "builds sz p parent [Start n (Some kvs) True]"
proof (rule builds_leaf [where m = "(Node n 1)\<lparr>nd_attributes := Some (mk_attrs kvs), nd_shortEnded := True\<rparr>"])
  fix s ch x xn assume s: "ready s ch" "ps_node s = Some x" "x < ps_next s" "ps_heap s x = Some xn" "nd_name xn = parent"
  then show "\<exists>t. on_event p (Start n (Some kvs) True) s = Some t
      \<and> added x ((Node n 1)\<lparr>nd_attributes := Some (mk_attrs kvs), nd_shortEnded := True\<rparr>) s ch t \<and> ps_node t = Some x"
    using on_start_added [OF s(1-3) assms(1,2) s(4), of n kvs True] assms(4) by simp
next
  show "tree_events sz (\<lambda>_. Some ((Node n 1)\<lparr>nd_attributes := Some (mk_attrs kvs), nd_shortEnded := True\<rparr>)) (T a []) = Some [Start n (Some kvs) True]" for a
    using assms(3) by (simp add: leaf_type_def Node_def out_attrs_def mk_attrs_def)
qed simp

text \<open>An element around its contents.\<close>

lemma grown_element:
  assumes "added x m s ch t0" "grown sz (ps_next s) t0 (ch(x := ch x @ [ps_next s])) ts es t ch'" "x < ps_next s" "ready s ch" "isolated m"
    and "nd_type m = 1" "\<not> nd_shortEnded m" "out_attrs sz m = Some (Some kvs)"
  shows "grown sz x s ch [T (ps_next s) ts] (Start (nd_name m) (Some kvs) False # es @ [End (nd_name m)]) (t\<lparr>ps_node := Some x, ps_white := w\<rparr>) ch'"
proof -
  let ?a = "ps_next s" and ?t = "t\<lparr>ps_node := Some x, ps_white := w\<rparr>"
  note a = assms(1) [unfolded added_def] and g = grownD [OF assms(2)]
  have "contents (ps_heap t) ?a = Some m" using g(7) [of ?a] a by simp
  then obtain n where n: "ps_heap t ?a = Some n" "clear_links n = clear_links m" using assms(5) by (auto simp: contents_def isolated_def)
  have "tree_events sz (ps_heap t) (T ?a ts) = Some (Start (nd_name m) (Some kvs) False # es @ [End (nd_name m)])"
    using n clear_eq [OF n(2)] assms(6-8) g(10) by (auto simp: leaf_type_def forest_events_def)
  then have "forest_events sz (ps_heap ?t) [T ?a ts] = Some (Start (nd_name m) (Some kvs) False # es @ [End (nd_name m)])"
    by (simp add: forest_events_simps del: tree_events.simps)
  moreover have ca: "ch ?a = []" using ready_fresh [OF assms(4), of ?a] by simp
  then have "ch' ?a = map troot ts" using g(5) assms(3) by simp
  then have "tree_in ch' (T ?a ts)" using g(8) by simp
  moreover have "set (preorder (T ?a ts)) \<subseteq> {?a..<ps_next t}" using g(2,9) a by fastforce
  moreover have "ch' x = ch x @ [?a]" using g(6) [of x] a assms(3) by simp
  moreover have "ch' y = ch y" if "y < ?a" "y \<noteq> x" for y using g(6) [of y] a that by simp
  moreover have "contents (ps_heap t) y = contents (ps_heap s) y" if "y < ?a" for y using g(7) [of y] a that by simp
  moreover have "ready ?t ch'" using g(1) by (simp add: ready_def)
  moreover have "quiet ?t = quiet s" using g(4) a by (simp add: quiet_def)
  ultimately show ?thesis using g(2) a by (simp add: grown_def)
qed

lemma builds_element:
  assumes "dp_nodeFilters p = []" "dp_attributeFilters p = []" "\<not> sz_validate sz" "tidy_name p parent n" "builds sz p n es"
  shows "builds sz p parent (Start n (Some kvs) False # es @ [End n])"
  unfolding builds_def
proof (intro allI impI)
  fix s ch x xn assume s: "ready s ch" "ps_node s = Some x" "x < ps_next s" "ps_heap s x = Some xn" "nd_name xn = parent"
  let ?a = "ps_next s" and ?m = "(Node n 1)\<lparr>nd_attributes := Some (mk_attrs kvs), nd_shortEnded := False\<rparr>"
  obtain t0 where t0: "on_start p n kvs False s = Some t0" "added x ?m s ch t0" "ps_node t0 = Some ?a"
    using on_start_added [OF s(1-3) assms(1,2) s(4), of n kvs False] assms(4) s(5) by auto
  note a = t0(2) [unfolded added_def]
  have at0: "?a < ps_next t0" using a by simp
  have ma: "isolated ?m" "out_attrs sz ?m = Some (Some kvs)" using assms(3) by (simp_all add: out_attrs_def mk_attrs_def)
  have "contents (ps_heap t0) ?a = Some ?m" using a by simp
  then obtain an where an: "ps_heap t0 ?a = Some an" "clear_links an = ?m" by (auto simp: contents_def)
  then have "nd_name an = n" using clear_eq(2) [of an ?m] ma(1) by (simp add: isolated_def Node_def)
  then obtain t ch' ts where t: "on_events p es t0 = Some t" "grown sz ?a t0 (ch(x := ch x @ [?a])) ts es t ch'"
    using buildsD [OF assms(5) _ t0(3) at0 an(1)] a by blast
  note g = grownD [OF t(2)]
  have "?a \<in> set (ch' x)" using g(6) [of x] a s(3) by simp
  then obtain tn where tn: "ps_heap t ?a = Some tn" "nd_parent tn = Some x"
    using g(1) split_list [of ?a "ch' x"] by (metis ready_def wf_heap_childE)
  have "?a < ps_next t" using g(2) at0 by simp
  then obtain w where w: "on_end p n t = Some (t\<lparr>ps_node := Some x, ps_white := w\<rparr>)"
    using on_end_id [OF g(1,3) _ tn(1) assms(4)] tn(2) by auto
  have "on_events p (Start n (Some kvs) False # es @ [End n]) s = Some (t\<lparr>ps_node := Some x, ps_white := w\<rparr>)"
    using t0(1) t(1) w by (simp add: on_events_append)
  moreover have "grown sz x s ch [T ?a ts] (Start n (Some kvs) False # es @ [End n]) (t\<lparr>ps_node := Some x, ps_white := w\<rparr>) ch'"
    using grown_element [OF t0(2) t(2) s(3,1) ma(1) _ _ ma(2), of w] by (simp add: Node_def)
  ultimately show "\<exists>t ch' ts. on_events p (Start n (Some kvs) False # es @ [End n]) s = Some t
      \<and> grown sz x s ch ts (Start n (Some kvs) False # es @ [End n]) t ch'" by blast
qed

lemma tidy_builds:
  assumes "dp_nodeFilters p = []" "dp_attributeFilters p = []" "\<not> sz_validate sz"
  shows "tidy p parent d \<Longrightarrow> builds sz p parent (events_of d)"
proof (induction d arbitrary: parent)
  case (HElem n kvs ds)
  then show ?case using builds_element [OF assms, of parent n _ kvs] builds_forest [of ds sz p n] by simp
qed (simp_all add: builds_leaves [OF assms(1,3)] builds_void [OF assms])

section \<open>Parsing and writing\<close>

lemma serialize_fragment:
  assumes "wf_heap h ch" "h r = Some n" "nd_type n = 11" "ch r = map troot ts" "\<And>t. t \<in> set ts \<Longrightarrow> tree_in ch t" "forest_events sz h ts = Some es"
  shows "serialize sz h r html = Some (getContent (emit_all (sz_writer sz) es []))"
proof -
  have "nd_firstChild n = hd_opt (map troot ts)" using wf_heap_node [OF assms(1), of r] assms(2,4) by auto
  moreover have "walk_list sz h (hd_opt (map troot ts)) [] = written sz (forest_events sz h ts) []"
    by (rule walk_forest [OF assms(1), of r "[]"]) (use assms(4,5) walk_node_tree [OF assms(1)] in auto)
  ultimately show ?thesis using assms(2,3,6) by (simp add: serialize_def reset_def)
qed

lemma ready_new: "ready (new_state name) (\<lambda>_. [])"
proof -
  have "wf_heap Map.empty (\<lambda>_. [])" by (simp add: wf_heap_def wf_links_def links_def ends_def)
  then have "wf_heap [0 \<mapsto> Node name 11] (\<lambda>_. [])" by (rule wf_heap_fresh) simp_all
  then show ?thesis by (auto simp: ready_def new_state_def texts_ok_def text_ok_def Node_def)
qed

text \<open>Reading and writing a tidy document: the parser without filters and without a root block builds, from the events of the
  document, a tree the serializer writes as exactly those events, whatever the element it is parsed in allows.\<close>

lemma parse_serialize_roundtrip:
  assumes "dp_nodeFilters p = []" "dp_attributeFilters p = []" "dp_forced_root_block p = None" "\<not> sz_validate sz"
    and "\<And>d. d \<in> set ds \<Longrightarrow> tidy p (dp_root_name p) d"
  shows "\<exists>s. parse p \<lparr>pa_context = None, pa_isRootContent = b, pa_forced_root_block = None\<rparr> (concat (map events_of ds)) = Some (0, s, False)
    \<and> serialize sz (ps_heap s) 0 html = Some (getContent (emit_all (sz_writer sz) (concat (map events_of ds)) []))"
proof -
  let ?s = "new_state (dp_root_name p)" and ?es = "concat (map events_of ds)"
  have root: "ps_node ?s = Some 0" "0 < ps_next ?s" "ps_heap ?s 0 = Some (Node (dp_root_name p) 11)" "nd_name (Node (dp_root_name p) 11) = dp_root_name p"
    by (simp_all add: new_state_def Node_def)
  have "builds sz p (dp_root_name p) ?es" using tidy_builds [OF assms(1,2,4)] assms(5) by (intro builds_forest) blast
  then obtain t ch ts where t: "on_events p ?es ?s = Some t" "grown sz 0 ?s (\<lambda>_. []) ts ?es t ch"
    using buildsD [OF _ ready_new root] by blast
  note g = grownD [OF t(2)]
  have q: "ps_invalidChildren t = []" "ps_matchedNodes t = []" using g(4) by (simp_all add: quiet_def new_state_def)
  have "parse p \<lparr>pa_context = None, pa_isRootContent = b, pa_forced_root_block = None\<rparr> ?es = Some (0, t, False)"
    using t(1) q assms(2,3) by (simp add: parse_def Let_def)
  moreover obtain n where n: "ps_heap t 0 = Some n" "clear_links n = clear_links (Node (dp_root_name p) 11)"
    using g(7) [of 0] root(2,3) by (auto simp: contents_def)
  have "wf_heap (ps_heap t) ch" "nd_type n = 11" "ch 0 = map troot ts" using g(1,5) clear_eq(1) [OF n(2)] by (simp_all add: ready_def Node_def)
  from serialize_fragment [OF this(1) n(1) this(2,3) g(8,10)]
  have "serialize sz (ps_heap t) 0 html = Some (getContent (emit_all (sz_writer sz) ?es []))" .
  ultimately show ?thesis by blast
qed

definition demo_rule :: "ustring \<Rightarrow> rule option" where
  "demo_rule n = (if n \<in> {js ''p'', js ''b'', js ''br''} then Some no_rule else None)"

definition demo_parser :: dparser where
  "demo_parser = \<lparr>dp_schema = \<lparr>sc_rule = demo_rule, sc_block = (\<lambda>n. n = js ''p''), sc_nonEmpty = [js ''br'' \<mapsto> True],
       sc_textBlock = (\<lambda>n. n = js ''p''), sc_whiteSpace = (\<lambda>_. False),
       sc_children = [js ''body'' \<mapsto> (\<lambda>n. n = js ''p''), js ''p'' \<mapsto> (\<lambda>n. n \<noteq> js ''p''), js ''b'' \<mapsto> (\<lambda>n. n \<noteq> js ''p'')]\<rparr>,
     dp_validate = True, dp_root_name = js ''body'', dp_forced_root_block = None, dp_forced_root_block_attrs = [],
     dp_nodeFilters = [], dp_attributeFilters = []\<rparr>"

definition demo_doc :: "hdoc list" where
  "demo_doc = [HElem (js ''p'') [(js ''id'', js ''a'')] [HElem (js ''b'') [] [HText (js ''go on'') False], HVoid (js ''br'') []], HComment (Some (js ''x''))]"

lemma tidy_demo: "d \<in> set demo_doc \<Longrightarrow> tidy demo_parser (dp_root_name demo_parser) d"
  by (auto simp: demo_doc_def demo_parser_def demo_rule_def tidy_name_def tidy_text_def invalid_in_def element_rule_def no_rule_def output_name_def
      trim_start_def trim_end_def is_space_char_def proto_keys_def js_def)


end
