(* ===== verification/SaxTokens.thy ===== *)
theory SaxTokens
  imports SaxParser ParseTree EntityNames
begin

text \<open>
  The regular expressions of \<open>classes/html/SaxParser.js\<close> on the text \<open>classes/html/Writer.js\<close> writes: each event is read back as one token, and the
  attributes of a tag one by one. The contract of the encoder the writer uses is the locale \<open>html_encoder\<close>.
\<close>

section \<open>Tokens that do not start here\<close>

lemma matches_lit_Seq: "matches (Seq (lit xs) r) (ys, g) = (if take (length xs) ys = xs then matches r (drop (length xs) ys, g) else [])"
  by (simp add: matches_lit)

lemma token_other: "c \<noteq> 0x3C \<Longrightarrow> matches tokenRegExp (c # cs, g) = []"
  by (simp add: tokenRegExp_def)

lemma exec_text:
  assumes "0x3C \<notin> set xs"
  shows "exec tokenRegExp (xs @ s) = map_option (\<lambda>(b, rest, g). (xs @ b, rest, g)) (exec tokenRegExp s)"
  using assms by (intro exec_skip token_other) auto

lemma exec_text_none: "0x3C \<notin> set xs \<Longrightarrow> exec tokenRegExp xs = None"
  by (rule exec_none, rule token_other) (auto simp: tokenRegExp_def)

text \<open>The kinds of tokens by the character after the angle bracket.\<close>

lemma re_by_char:
  "c \<noteq> 0x21 \<Longrightarrow> matches comment_re (c # cs, g) = []" "c \<noteq> 0x21 \<Longrightarrow> matches cdata_re (c # cs, g) = []" "c \<noteq> 0x21 \<Longrightarrow> matches doctype_re (c # cs, g) = []"
  "c \<noteq> 0x3F \<Longrightarrow> matches pi_re (c # cs, g) = []" "c \<noteq> 0x2F \<Longrightarrow> matches end_re (c # cs, g) = []"
  by (simp_all add: comment_re_def cdata_re_def doctype_re_def pi_re_def end_re_def matches_lit js_def)

lemma re_by_second:
  "c \<noteq> 0x2D \<Longrightarrow> matches comment_re (0x21 # c # cs, g) = []" "c \<noteq> 0x5B \<Longrightarrow> matches cdata_re (0x21 # c # cs, g) = []"
  by (simp_all add: comment_re_def cdata_re_def matches_lit js_def)

lemma fm_token:
  "fm comment_re (s, []) t \<Longrightarrow> fm tokenRegExp (0x3C # s, []) t"
  "fm cdata_re (0x21 # 0x5B # s, []) t \<Longrightarrow> fm tokenRegExp (0x3C # 0x21 # 0x5B # s, []) t"
  "fm doctype_re (0x21 # 0x44 # s, []) t \<Longrightarrow> fm tokenRegExp (0x3C # 0x21 # 0x44 # s, []) t"
  "fm pi_re (0x3F # s, []) t \<Longrightarrow> fm tokenRegExp (0x3C # 0x3F # s, []) t"
  "fm end_re (0x2F # s, []) t \<Longrightarrow> fm tokenRegExp (0x3C # 0x2F # s, []) t"
  "c \<notin> {0x21, 0x3F, 0x2F} \<Longrightarrow> fm start_re (c # s, []) t \<Longrightarrow> fm tokenRegExp (0x3C # c # s, []) t"
  by (auto simp: fm_def tokenRegExp_def re_by_char re_by_second)

section \<open>Tokens without attributes\<close>

text \<open>A text that the ends of comments and the like do not cut short.\<close>

definition uncut :: "ustring \<Rightarrow> ustring \<Rightarrow> bool" where
  "uncut stop v \<longleftrightarrow> list_all (\<lambda>i. take (length stop) (drop i (v @ stop)) \<noteq> stop) [0..<length v]"

lemma uncutD: "uncut stop v \<Longrightarrow> i < length v \<Longrightarrow> take (length stop) (drop i v @ stop @ h) \<noteq> stop"
proof -
  assume "uncut stop v" "i < length v"
  moreover from this have "take (length stop) (drop i v @ stop @ h) = take (length stop) (drop i (v @ stop))" by simp
  ultimately show ?thesis by (auto simp: uncut_def list_all_iff simp del: drop_append take_append)
qed

lemma fm_lit_until:
  assumes "uncut stop v"
  shows "fm (Seq (lit xs) (Seq (Grp k (Lazy any_chr)) (lit stop))) (xs @ v @ stop @ h, g) (h, (k, v) # g)"
proof (intro fm_Seq [OF fm_lit] fm_lazy)
  show "fm (lit stop) (stop @ h, (k, v) # g) (h, (k, v) # g)" by (rule fm_lit)
  show "matches (lit stop) (drop i v @ stop @ h, (k, take i v) # g) = []" if "i < length v" for i
    using uncutD [OF assms that, of h] by (simp add: matches_lit)
qed

lemma fm_comment: "uncut (js ''-->'') v \<Longrightarrow> fm tokenRegExp (js ''<!--'' @ v @ js ''-->'' @ h, []) (h, [(1, v)])"
  using fm_token(1) [of "js ''!--'' @ v @ js ''-->'' @ h"] fm_lit_until [of "js ''-->''" v "js ''!--''" 1 h "[]"] by (simp add: js_def comment_re_def)

lemma fm_cdata: "uncut (js '']]>'') v \<Longrightarrow> fm tokenRegExp (js ''<![CDATA['' @ v @ js '']]>'' @ h, []) (h, [(2, v)])"
  using fm_token(2) [of "js ''CDATA['' @ v @ js '']]>'' @ h"] fm_lit_until [of "js '']]>''" v "js ''![CDATA[''" 2 h "[]"] by (simp add: js_def cdata_re_def)

lemma fm_doctype: "uncut (js ''>'') v \<Longrightarrow> fm tokenRegExp (js ''<!DOCTYPE'' @ v @ js ''>'' @ h, []) (h, [(3, v)])"
  using fm_token(3) [of "js ''OCTYPE'' @ v @ js ''>'' @ h"] fm_lit_until [of "js ''>''" v "js ''!DOCTYPE''" 3 h "[]"] by (simp add: js_def doctype_re_def)

lemma fm_end:
  assumes "n \<noteq> []" "0x3E \<notin> set n"
  shows "fm tokenRegExp (js ''</'' @ n @ js ''>'' @ h, []) (h, [(6, n)])"
proof -
  have "fm (Plus not_gt) (n @ js ''>'' @ h, []) (js ''>'' @ h, [])"
    unfolding not_gt_def using assms by (intro fm_run1) (auto simp: list_all_iff js_def)
  from fm_Seq [OF fm_lit fm_Seq [OF fm_Grp [OF this] fm_lit], of "js ''/''" 6]
  have "fm end_re (0x2F # n @ js ''>'' @ h, []) (h, [(6, n)])" by (simp add: end_re_def js_def)
  from fm_token(5) [OF this] show ?thesis by (simp add: js_def)
qed

text \<open>A processing instruction has a text, which does not contain its end.\<close>

definition pi_chr :: "code_unit \<Rightarrow> bool" where
  "pi_chr c \<longleftrightarrow> \<not> js_space c \<and> c \<notin> {0x2F, 0x3C, 0x3E}"

lemma fm_pi:
  assumes "n \<noteq> []" "list_all pi_chr n" "uncut (js ''?>'') v" "uncut (js ''/>'') (v @ js ''?'')"
  shows "fm tokenRegExp (js ''<?'' @ n @ js '' '' @ v @ js ''?>'' @ h, []) (h, [(5, v), (4, n)])"
proof -
  let ?e = "Seq (Chr (\<lambda>c. c = 0x3F \<or> c = 0x2F)) (lit (js ''>''))"
  have last: "fm ?e (js ''?>'' @ h, g) (h, g)" for g using fm_Seq [OF fm_Chr fm_lit, of _ "0x3F" "js ''>''" h] by (simp add: js_def)
  have "matches ?e (drop i v @ js ''?>'' @ h, g) = []" if i: "i < length v" for i g
  proof -
    obtain c cs where c: "drop i v = c # cs" using i by (cases "drop i v") auto
    have u: "take 2 (c # cs @ js ''?>'') \<noteq> js ''?>''" using uncutD [OF assms(3) i, of "[]"] c by (simp add: numeral_2_eq_2 js_def)
    have w: "take 2 (c # cs @ js ''?'' @ js ''/>'') \<noteq> js ''/>''" using uncutD [OF assms(4), of i "[]"] i c by (simp add: numeral_2_eq_2 js_def)
    show ?thesis using u w c by (cases cs) (auto simp: matches_lit js_def)
  qed
  from fm_lazy [OF this last]
  have l: "fm (Seq (Grp 5 (Lazy any_chr)) ?e) (v @ js ''?>'' @ h, g) (h, (5, v) # g)" for g .
  have sp: "fm (Opt (lit (js '' ''))) (js '' '' @ y, g) (y, g)" for y g by (intro fm_Opt fm_lit)
  have "fm (Plus (Chr (\<lambda>c. \<not> js_space c \<and> c \<notin> {0x2F, 0x3C, 0x3E}))) (n @ js '' '' @ v @ js ''?>'' @ h, []) (js '' '' @ v @ js ''?>'' @ h, [])"
    using assms(1,2) by (intro fm_run1) (auto simp: pi_chr_def list_all_iff js_def js_space_def)
  from fm_Seq [OF fm_lit fm_Seq [OF fm_Grp [OF this] fm_Seq [OF sp l]], of "js ''?''" 4]
  have "fm pi_re (0x3F # n @ js '' '' @ v @ js ''?>'' @ h, []) (h, [(5, v), (4, n)])" by (simp add: pi_re_def js_def)
  from fm_token(4) [OF this] show ?thesis by (simp add: js_def)
qed

section \<open>Tags\<close>

text \<open>The text of the attributes, for an encoder that leaves no quote in a value.\<close>

definition attr_text :: "(ustring \<Rightarrow> bool \<Rightarrow> ustring) \<Rightarrow> (ustring \<times> ustring) list \<Rightarrow> ustring" where
  "attr_text enc kvs = concat (map (\<lambda>(k, v). js '' '' @ k @ [0x3D, 0x22] @ enc v True @ [0x22]) kvs)"

lemma attr_text_simps: "attr_text enc [] = []"
  "attr_text enc ((k, v) # kvs) = 0x20 # k @ 0x3D # 0x22 # enc v True @ 0x22 # attr_text enc kvs"
  by (simp_all add: attr_text_def js_def)

definition attr_names :: "(ustring \<times> ustring) list \<Rightarrow> bool" where
  "attr_names kvs \<longleftrightarrow> list_all (\<lambda>(k, v). k \<noteq> [] \<and> list_all attr_chr k) kvs"

lemma attr_chr_avoids: "attr_chr c \<Longrightarrow> \<not> js_space c \<and> c \<notin> {0x22, 0x27, 0x3E, 0x3D, 0x2F, 0x20}"
  by (auto simp: attr_chr_def is_word_char_def js_space_def word_le_nat_alt)

lemma fm_quoted: "0x22 \<notin> set v \<Longrightarrow> fm (quoted 0x22) (0x22 # v @ 0x22 # h, g) (h, g)"
  unfolding quoted_def by (intro fm_Seq [OF fm_Chr] fm_Seq [OF fm_run fm_Chr]) (auto simp: list_all_iff)

lemma fm_space: "stops js_space h \<Longrightarrow> fm (Plus space_chr) (0x20 # h, g) (h, g)"
  unfolding space_chr_def using fm_run1 [of "[0x20]" js_space h g] by (simp add: js_space_def)

lemma fm_attr:
  assumes "k \<noteq> []" "list_all attr_chr k" "0x22 \<notin> set v"
  shows "fm attr_re (0x20 # k @ 0x3D # 0x22 # v @ 0x22 # h, g) (h, g)"
proof -
  have "stops js_space (k @ 0x3D # 0x22 # v @ 0x22 # h)" using assms(1,2) attr_chr_avoids by (cases k) auto
  moreover have "fm (Plus (Chr (\<lambda>c. c \<notin> {0x22, 0x27, 0x3E}))) ((k @ [0x3D]) @ 0x22 # v @ 0x22 # h, g) (0x22 # v @ 0x22 # h, g)"
    using assms(2) attr_chr_avoids by (intro fm_run1) (auto simp: list_all_iff)
  ultimately show ?thesis unfolding attr_re_def by (intro fm_Seq [OF fm_space] fm_Seq [OF _ fm_Alt1 [OF fm_quoted [OF assms(3)]]]) simp_all
qed

text \<open>What a tag has after its attributes: nothing, or a slash after a space.\<close>

definition tag_tail :: "bool \<Rightarrow> ustring" where
  "tag_tail slash = (if slash then js '' /'' else [])"

lemma no_attr_at_end: "matches attr_re (0x3E # h, g) = []"
  by (simp add: attr_re_def Plus_def space_chr_def js_space_def)

lemma fm_tail: "fm (Star attr_re) (tag_tail slash @ 0x3E # h, g) (0x3E # h, g)"
proof (cases slash)
  case True
  have "fm (Plus (Chr (\<lambda>c. c \<notin> {0x22, 0x27, 0x3E}))) ([0x2F] @ 0x3E # h, g) (0x3E # h, g)" by (rule fm_run1) simp_all
  moreover have "fm (Alt (quoted 0x22) (Alt (quoted 0x27) (Star not_gt))) (0x3E # h, g) (0x3E # h, g)"
    unfolding not_gt_def by (intro fm_Alt2) (use fm_run [of "\<lambda>c. c \<noteq> 0x3E" "[]"] in \<open>simp_all add: quoted_def\<close>)
  ultimately have "fm attr_re (0x20 # 0x2F # 0x3E # h, g) (0x3E # h, g)"
    unfolding attr_re_def by (intro fm_Seq [OF fm_space] fm_Seq) (simp_all add: js_space_def)
  from fm_Star_step [OF this _ fm_Star_stop [OF no_attr_at_end]] show ?thesis using True by (simp add: tag_tail_def js_def)
qed (simp add: tag_tail_def fm_Star_stop [OF no_attr_at_end])

lemma fm_attrs:
  assumes "attr_names kvs" "\<And>v. 0x22 \<notin> set (enc v True)"
  shows "fm (Star attr_re) (attr_text enc kvs @ tag_tail slash @ 0x3E # h, g) (0x3E # h, g)"
  using assms(1)
proof (induction kvs)
  case Nil
  then show ?case by (simp add: attr_text_simps fm_tail)
next
  case (Cons kv kvs)
  obtain k v where kv: "kv = (k, v)" by fastforce
  then have k: "k \<noteq> []" "list_all attr_chr k" and rest: "attr_names kvs" using Cons.prems by (simp_all add: attr_names_def)
  show ?case using fm_Star_step [OF fm_attr [OF k assms(2)] _ Cons.IH [OF rest]] by (simp add: kv attr_text_simps)
qed

lemma fm_start:
  assumes "n \<noteq> []" "list_all name_chr n" "attr_names kvs" "\<And>v. 0x22 \<notin> set (enc v True)"
  shows "fm tokenRegExp (js ''<'' @ n @ (attr_text enc kvs @ tag_tail slash) @ js ''>'' @ h, [])
    (h, [(8, attr_text enc kvs @ tag_tail slash), (7, n)])"
proof -
  let ?a = "attr_text enc kvs @ tag_tail slash"
  obtain c cs where n: "n = c # cs" using assms(1) by (cases n) auto
  have c: "c \<notin> {0x21, 0x3F, 0x2F}" using assms(2) n by (auto simp: name_chr_def)
  have "stops name_chr (?a @ 0x3E # h)"
    by (cases kvs; cases slash) (auto simp: attr_text_def tag_tail_def js_def name_chr_def)
  from fm_run1 [OF assms(1,2) this] have 1: "fm (Plus (Chr name_chr)) (n @ ?a @ 0x3E # h, []) (?a @ 0x3E # h, [])" .
  have 2: "fm (Alt (Star attr_re) (Alt (lit (js ''/'')) (Plus space_chr))) (?a @ 0x3E # h, g) (0x3E # h, g)" for g
    using fm_attrs [of kvs enc slash h g] assms(3,4) by (intro fm_Alt1) simp
  have 3: "fm (lit (js ''>'')) (0x3E # h, g) (h, g)" for g using fm_lit [of "js ''>''" h g] by (simp add: js_def)
  from fm_Seq [OF fm_Grp [OF 1] fm_Seq [OF fm_Grp [OF 2] 3]] have "fm start_re (n @ ?a @ 0x3E # h, []) (h, [(8, ?a), (7, n)])"
    by (simp add: start_re_def)
  from fm_token(6) [OF c this [unfolded n append_Cons]] show ?thesis by (simp add: js_def n)
qed

text \<open>The attributes one by one.\<close>

lemma no_attr: "\<not> attr_chr c \<Longrightarrow> matches attrRegExp (c # cs, g) = []"
  by (simp add: attrRegExp_def Plus_def)

lemma fm_one_attr:
  assumes "k \<noteq> []" "list_all attr_chr k" "0x22 \<notin> set v"
  shows "fm attrRegExp (k @ 0x3D # 0x22 # v @ 0x22 # h, []) (h, [(2, v), (1, k)])"
proof -
  have name: "fm (Plus (Chr attr_chr)) (k @ 0x3D # 0x22 # v @ 0x22 # h, []) (0x3D # 0x22 # v @ 0x22 # h, [])"
    using assms(1,2) by (intro fm_run1) (simp_all add: attr_chr_def is_word_char_def)
  have sp: "fm (Star space_chr) (c # s, g) (c # s, g)" if "\<not> js_space c" for c s g
    using that fm_run [of js_space "[]" "c # s" g] by (simp add: space_chr_def)
  have eq: "fm (lit (js ''='')) (0x3D # s, g) (s, g)" for s g using fm_lit [of "js ''=''" s g] by (simp add: js_def)
  have val: "fm (quoted_value 2 0x22) (0x22 # v @ 0x22 # h, g) (h, (2, v) # g)" for g
    unfolding quoted_value_def using assms(3) by (intro fm_Seq [OF fm_Chr] fm_Seq [OF fm_Grp [OF fm_run] fm_Chr]) (auto simp: list_all_iff)
  have "fm (Opt (Seq (Star space_chr) (Seq (lit (js ''='')) (Seq (Star space_chr)
     (Alt (quoted_value 2 0x22) (Alt (quoted_value 3 0x27) (Grp 4 (Plus (Chr (\<lambda>c. c \<noteq> 0x3E \<and> \<not> js_space c)))))))))) (0x3D # 0x22 # v @ 0x22 # h, g) (h, (2, v) # g)" for g
    by (intro fm_Opt fm_Seq [OF sp] fm_Seq [OF eq] fm_Seq [OF sp] fm_Alt1 val) (simp_all add: js_space_def)
  from fm_Seq [OF fm_Grp [OF name] this] show ?thesis unfolding attrRegExp_def .
qed

lemma all_attrs:
  assumes "attr_names kvs" "\<And>v. 0x22 \<notin> set (enc v True)"
  shows "all_groups attrRegExp (attr_text enc kvs @ tag_tail slash) = map (\<lambda>(k, v). [(2, enc v True), (1, k)]) kvs"
  using assms(1)
proof (induction kvs)
  case Nil
  have "exec attrRegExp (tag_tail slash) = None"
    by (rule exec_none, rule no_attr) (auto simp: tag_tail_def js_def attr_chr_def is_word_char_def attrRegExp_def Plus_def split: if_splits)
  then show ?case by (simp add: attr_text_simps all_groups.simps)
next
  case (Cons kv kvs)
  obtain k v where kv: "kv = (k, v)" by fastforce
  then have k: "k \<noteq> []" "list_all attr_chr k" and rest: "attr_names kvs" using Cons.prems by (simp_all add: attr_names_def)
  let ?r = "attr_text enc kvs @ tag_tail slash"
  have "\<not> attr_chr 0x20" using attr_chr_avoids by blast
  then have "exec attrRegExp ([0x20] @ k @ 0x3D # 0x22 # enc v True @ 0x22 # ?r) = Some ([0x20], ?r, [(2, enc v True), (1, k)])"
    using exec_skip [of "[0x20]" attrRegExp] no_attr exec_here [OF fm_one_attr [OF k assms(2), of v ?r]] by simp
  then show ?case using Cons.IH [OF rest] by (subst all_groups.simps) (simp add: kv attr_text_simps)
qed

end
