(* ===== verification/ParseWf.thy ===== *)
theory ParseWf
  imports ParseTree
begin

text \<open>
  The trees the parser builds: whatever the document, the schema and the texts are, the handlers of the events
  of \<open>classes/html/DomParser.js\<close> never raise, keep the doubly linked lists of the store in agreement and leave the current node where
  the document has it, also where white space is trimmed and empty elements are padded or removed. Children have
  larger addresses than their parents, which makes the store a forest.
\<close>

section \<open>Stores the handlers keep\<close>

definition sound_node :: "hnode \<Rightarrow> bool" where
  "sound_node n \<longleftrightarrow> (nd_type n \<in> {3, str_3} \<longrightarrow> nd_value n \<noteq> None) \<and> (nd_type n = 1 \<longrightarrow> nd_attributes n \<noteq> None)"

definition good :: "nat \<Rightarrow> nheap \<Rightarrow> (addr \<Rightarrow> addr list) \<Rightarrow> bool" where
  "good k h ch \<longleftrightarrow> wf_heap h ch \<and> dom h = {..<k} \<and> (\<forall>q. \<forall>c \<in> set (ch q). q < c) \<and> (\<forall>a. pred_option sound_node (h a))"

definition kind :: "nheap \<Rightarrow> addr \<Rightarrow> nat option" where
  "kind h y = map_option nd_type (h y)"

text \<open>The nodes below \<open>j\<close> that are no texts stay where they are.\<close>

definition kept :: "nat \<Rightarrow> nheap \<Rightarrow> (addr \<Rightarrow> addr list) \<Rightarrow> nheap \<Rightarrow> (addr \<Rightarrow> addr list) \<Rightarrow> bool" where
  "kept j h ch h' ch' \<longleftrightarrow> (\<forall>y < j. kind h' y = kind h y \<and> (kind h y \<noteq> Some 3 \<longrightarrow> (\<forall>q. y \<in> set (ch' q) \<longleftrightarrow> y \<in> set (ch q))))"

definition runs :: "nat \<Rightarrow> nat \<Rightarrow> nheap \<Rightarrow> (addr \<Rightarrow> addr list) \<Rightarrow> nheap option \<Rightarrow> bool" where
  "runs j k h ch r \<longleftrightarrow> (\<exists>h' ch'. r = Some h' \<and> good k h' ch' \<and> kept j h ch h' ch')"

lemma sound_clear [simp]: "sound_node (clear_links n) = sound_node n"
  by (simp add: sound_node_def clear_links_def)

lemma sound_contents: "(\<forall>a. pred_option sound_node (contents h a)) = (\<forall>a. pred_option sound_node (h a))"
  by (simp add: contents_def option.pred_map comp_def)

lemma kind_contents: "kind (contents h) = kind h"
  by (auto simp: kind_def contents_def option.map_comp comp_def fun_eq_iff clear_links_def)

lemma goodD:
  assumes "good k h ch"
  shows "wf_heap h ch" "dom h = {..<k}" "c \<in> set (ch q) \<Longrightarrow> q < c" "h a = Some n \<Longrightarrow> sound_node n"
  using assms by (auto simp: good_def dest: spec [of _ a])

lemma good_nodeE:
  assumes "good k h ch" "x < k" obtains n where "h x = Some n"
  using goodD(2) [OF assms(1)] assms(2) by auto

lemma goodI:
  assumes "wf_heap h' ch'" "contents h' = contents h" "good k h ch" "\<And>q. set (ch' q) \<subseteq> set (ch q)"
  shows "good k h' ch'"
  unfolding good_def
proof (intro conjI)
  show "dom h' = {..<k}" using contents_dom [OF assms(2)] goodD(2) [OF assms(3)] by simp
  show "\<forall>a. pred_option sound_node (h' a)" using sound_contents [of h'] sound_contents [of h] assms(2,3) by (simp add: good_def)
  show "\<forall>q. \<forall>c\<in>set (ch' q). q < c" using goodD(3) [OF assms(3)] assms(4) by blast
qed (rule assms(1))

lemma kept_refl: "kept j h ch h ch"
  by (simp add: kept_def)

lemma kept_trans: "kept j h ch h1 ch1 \<Longrightarrow> kept j h1 ch1 h2 ch2 \<Longrightarrow> kept j h ch h2 ch2"
  by (simp add: kept_def)

lemma kept_le: "kept j h ch h' ch' \<Longrightarrow> i \<le> j \<Longrightarrow> kept i h ch h' ch'"
  by (simp add: kept_def)

lemma runsI: "good k h' ch' \<Longrightarrow> kept j h ch h' ch' \<Longrightarrow> runs j k h ch (Some h')"
  by (auto simp: runs_def)

lemma runs_same: "good k h ch \<Longrightarrow> runs j k h ch (Some h)"
  by (auto intro: runsI kept_refl)

lemma runs_bind:
  assumes "runs j k h ch r" "\<And>h' ch'. r = Some h' \<Longrightarrow> good k h' ch' \<Longrightarrow> kept j h ch h' ch' \<Longrightarrow> runs j k h' ch' (f h')"
  shows "runs j k h ch (Option.bind r f)"
proof -
  obtain h1 ch1 where 1: "r = Some h1" "good k h1 ch1" "kept j h ch h1 ch1" using assms(1) by (auto simp: runs_def)
  from assms(2) [OF this] obtain h2 ch2 where "f h1 = Some h2" "good k h2 ch2" "kept j h1 ch1 h2 ch2" by (auto simp: runs_def)
  with 1 show ?thesis using kept_trans [OF 1(3)] by (auto simp: runs_def)
qed

lemma runsE:
  assumes "runs j k h ch r" obtains h' ch' where "r = Some h'" "good k h' ch'" "kept j h ch h' ch'"
  using assms by (auto simp: runs_def)

section \<open>White space\<close>

text \<open>A text gets a new value or leaves its parent.\<close>

lemma good_value:
  assumes "good k h ch" "h a = Some n" "nd_value n = Some w"
  shows "good k (h(a \<mapsto> n\<lparr>nd_value := Some v\<rparr>)) ch" "kept j h ch (h(a \<mapsto> n\<lparr>nd_value := Some v\<rparr>)) ch"
proof -
  let ?h = "h(a \<mapsto> n\<lparr>nd_value := Some v\<rparr>)"
  have "wf_heap ?h ch" using goodD(1) [OF assms(1)] assms(2) by (intro wf_heap_contents [of h ch a n]) simp_all
  moreover have "dom ?h = {..<k}" using goodD(2) [OF assms(1)] assms(2) by auto
  moreover have "pred_option sound_node (?h b)" for b
    using goodD(4) [OF assms(1)] assms(2) by (cases "h b") (auto simp: sound_node_def)
  ultimately show "good k ?h ch" using goodD(3) [OF assms(1)] by (simp add: good_def)
  show "kept j h ch ?h ch" using assms(2) by (simp add: kept_def kind_def)
qed

lemma good_drop:
  assumes "good k h ch" "h a = Some n" "nd_type n = 3"
  obtains h' where "remove h a = Some h'" "good k h' (without a ch)" "kept j h ch h' (without a ch)"
proof -
  obtain h' where h': "remove h a = Some h'" "wf_heap h' (without a ch)" "contents h' = contents h"
    using remove_refines [OF goodD(1) [OF assms(1)], of a] assms(2) by auto
  have "good k h' (without a ch)" using h'(2,3) assms(1) by (rule goodI) (auto simp: without_def dest: set_remove1_subset [THEN subsetD])
  have "kind h' = kind h" using kind_contents [of h'] kind_contents [of h] h'(3) by simp
  moreover have "y \<noteq> a" if "kind h y \<noteq> Some 3" for y using that assms(2,3) by (auto simp: kind_def)
  ultimately have "kept j h ch h' (without a ch)" by (simp add: kept_def without_def)
  then show thesis using that h'(1) \<open>good k h' (without a ch)\<close> by blast
qed

lemma without_list: "good k h ch \<Longrightarrow> ch q = xs @ a # ys \<Longrightarrow> without a ch q = xs @ ys"
  using wf_heap_distinct(1) [OF goodD(1), of k h ch q] by (simp add: without_def remove1_append)

lemma text_valueE:
  assumes "good k h ch" "h a = Some n" "nd_type n = 3" obtains v where "nd_value n = Some v"
  using goodD(4) [OF assms(1,2)] assms(3) by (auto simp: sound_node_def)

lemma runs_rwb: "good k h ch \<Longrightarrow> ch q = xs @ ys \<Longrightarrow> runs j k h ch (rwb_loop h (last_opt xs))"
proof (induction xs arbitrary: h ch ys rule: rev_induct)
  case Nil
  then show ?case by (simp add: rwb_loop.simps runs_same)
next
  case (snoc a xs)
  note wf = goodD(1) [OF snoc.prems(1)]
  obtain n where n: "h a = Some n" "nd_prev n = last_opt xs" using wf_heap_childE [OF wf, of q xs a ys] snoc.prems(2) by auto
  show ?case
  proof (cases "nd_type n = 3")
    case False
    then show ?thesis using n(1) snoc.prems(1) by (subst rwb_loop.simps) (simp add: runs_same)
  next
    case True
    then obtain v where v: "nd_value n = Some v" using text_valueE [OF snoc.prems(1) n(1)] by blast
    let ?r = "if trim_end v \<noteq> [] then upd h a (\<lambda>n. n\<lparr>nd_value := Some (trim_end v)\<rparr>) else remove h a"
    have "rwb_loop h (last_opt (xs @ [a])) = Option.bind ?r (\<lambda>h1. rwb_loop h1 (last_opt xs))"
      using n v True by (subst rwb_loop.simps) simp
    moreover have "runs j k h ch (Option.bind ?r (\<lambda>h1. rwb_loop h1 (last_opt xs)))"
    proof (cases "trim_end v = []")
      case False
      then show ?thesis using good_value(1) [OF snoc.prems(1) n(1) v, of "trim_end v"] good_value(2) [OF snoc.prems(1) n(1) v, where v = "trim_end v" and j = j] snoc.IH [of _ ch "a # ys"] snoc.prems(2) n(1)
        by (simp add: upd_def) (metis kept_trans runsE runsI)
    next
      case e: True
      obtain h1 where h1: "remove h a = Some h1" "good k h1 (without a ch)" "kept j h ch h1 (without a ch)"
        using good_drop [OF snoc.prems(1) n(1) True] by blast
      have "without a ch q = xs @ ys" using without_list [OF snoc.prems(1), of q xs a ys] snoc.prems(2) by simp
      from snoc.IH [OF h1(2) this] show ?thesis using e h1(1,3) by simp (metis kept_trans runsE runsI)
    qed
    ultimately show ?thesis by simp
  qed
qed

lemma runs_before:
  assumes "good k h ch" "a < k"
  shows "runs j k h ch (removeWhitespaceBefore a h)"
proof -
  obtain n where n: "h a = Some n" using good_nodeE [OF assms] .
  note wf = goodD(1) [OF assms(1)]
  show ?thesis
  proof (cases "nd_parent n")
    case None
    then have "nd_prev n = None" using wf_linksD(8) [of "links h" "ends h" ch a] n wf by (auto simp: wf_heap_def links_def)
    then show ?thesis using n assms(1) by (simp add: removeWhitespaceBefore_def rwb_loop.simps runs_same)
  next
    case (Some q)
    then have "a \<in> set (ch q)" using wf_linksD(7) [of "links h" "ends h" ch a q] n wf by (auto simp: wf_heap_def links_def)
    from split_list [OF this] obtain ls rs where ls: "ch q = ls @ a # rs" by blast
    moreover have "nd_prev n = last_opt ls" using wf_heap_childE [OF wf ls] n by (metis option.inject)
    ultimately show ?thesis using runs_rwb [OF assms(1) ls, of j] n by (simp add: removeWhitespaceBefore_def)
  qed
qed

text \<open>One step of the loop over the texts at an edge.\<close>

lemma runs_drop_step:
  assumes "good k h ch" "h a = Some n" "ch q = xs @ a # ys"
    and "\<And>h1 ch1. good k h1 ch1 \<Longrightarrow> ch1 q = xs @ ys \<or> ch1 q = xs @ a # ys \<Longrightarrow> runs j k h1 ch1 (drop_white bwd h1 (sibling_link bwd n))"
  shows "runs j k h ch (drop_white bwd h (Some a))"
proof (cases "nd_type n = 3")
  case False
  then show ?thesis using assms(1,2) by (subst drop_white.simps) (simp add: runs_same)
next
  case True
  then obtain v where v: "nd_value n = Some v" using text_valueE [OF assms(1,2)] by blast
  show ?thesis
  proof (cases "list_all is_space_char v")
    case e: True
    obtain h1 where h1: "remove h a = Some h1" "good k h1 (without a ch)" "kept j h ch h1 (without a ch)"
      using good_drop [OF assms(1,2) True] by blast
    have "runs j k h1 (without a ch) (drop_white bwd h1 (sibling_link bwd n))" using assms(4) [OF h1(2)] without_list [OF assms(1,3)] by simp
    then show ?thesis using assms(2) True v e h1(1,3) by (subst drop_white.simps) (simp, metis kept_trans runsE runsI)
  next
    case False
    then show ?thesis using assms(2) True v assms(4) [OF assms(1)] assms(3) by (subst drop_white.simps) simp
  qed
qed

lemma runs_drop_fwd: "good k h ch \<Longrightarrow> ch q = xs @ ys \<Longrightarrow> runs j k h ch (drop_white False h (hd_opt ys))"
proof (induction ys arbitrary: h ch xs)
  case Nil
  then show ?case by (simp add: drop_white.simps runs_same)
next
  case (Cons a ys)
  obtain n where n: "h a = Some n" "nd_next n = hd_opt ys" using wf_heap_childE [OF goodD(1) [OF Cons.prems(1)] Cons.prems(2)] by auto
  have "runs j k h1 ch1 (drop_white False h1 (sibling_link False n))" if "good k h1 ch1" "ch1 q = xs @ ys \<or> ch1 q = xs @ a # ys" for h1 ch1
    using that Cons.IH [of h1 ch1 xs] Cons.IH [of h1 ch1 "xs @ [a]"] n(2) by (auto simp: sibling_link_def)
  from runs_drop_step [OF Cons.prems(1) n(1) Cons.prems(2) this] show ?case by simp
qed

lemma runs_drop_bwd: "good k h ch \<Longrightarrow> ch q = xs @ ys \<Longrightarrow> runs j k h ch (drop_white True h (last_opt xs))"
proof (induction xs arbitrary: h ch ys rule: rev_induct)
  case Nil
  then show ?case by (simp add: drop_white.simps runs_same)
next
  case (snoc a xs)
  have q: "ch q = xs @ a # ys" using snoc.prems(2) by simp
  obtain n where n: "h a = Some n" "nd_prev n = last_opt xs" using wf_heap_childE [OF goodD(1) [OF snoc.prems(1)] q] by auto
  have "runs j k h1 ch1 (drop_white True h1 (sibling_link True n))" if "good k h1 ch1" "ch1 q = xs @ ys \<or> ch1 q = xs @ a # ys" for h1 ch1
    using that snoc.IH [of h1 ch1] n(2) by (auto simp: sibling_link_def)
  from runs_drop_step [OF snoc.prems(1) n(1) q this] show ?case by simp
qed

lemma runs_drop:
  assumes "good k h ch" "ch q = xs @ ys"
  shows "runs j k h ch (drop_white bwd h (if bwd then last_opt xs else hd_opt ys))"
  using runs_drop_fwd [OF assms] runs_drop_bwd [OF assms] by (cases bwd) simp_all

lemma runs_edge:
  assumes "good k h ch" "x < k"
  shows "runs j k h ch (trim_edge bwd x h)"
proof -
  note wf = goodD(1) [OF assms(1)]
  obtain d where d: "h x = Some d" "nd_firstChild d = hd_opt (ch x)" "nd_lastChild d = last_opt (ch x)"
    using wf_heap_node [OF wf, of x] goodD(2) [OF assms(1)] assms(2) by auto
  show ?thesis
  proof (cases "start_link bwd d")
    case None
    then show ?thesis using d(1) assms(1) by (simp add: trim_edge_def runs_same)
  next
    case (Some a)
    then have "a \<in> set (ch x)" using d by (auto simp: start_link_def hd_opt_in_set last_opt_in_set split: if_splits)
    then obtain xs ys where q: "ch x = xs @ a # ys" using split_list by metis
    obtain n where n: "h a = Some n" "nd_prev n = last_opt xs" "nd_next n = hd_opt ys" using wf_heap_childE [OF wf q] by auto
    let ?t = "\<lambda>v. if bwd then trim_end v else trim_start v"
    show ?thesis
    proof (cases "nd_type n = 3")
      case False
      then show ?thesis using d(1) Some n(1) assms(1) by (simp add: trim_edge_def runs_same)
    next
      case True
      then obtain v where v: "nd_value n = Some v" using text_valueE [OF assms(1) n(1)] by blast
      obtain h1 where h1: "remove h a = Some h1" "good k h1 (without a ch)" "kept j h ch h1 (without a ch)"
        using good_drop [OF assms(1) n(1) True] by blast
      have "runs j k h1 (without a ch) (drop_white bwd h1 (sibling_link bwd n))"
        using runs_drop [OF h1(2) without_list [OF assms(1) q], of j bwd] n(2,3) by (cases bwd) (simp_all add: sibling_link_def)
      then have "runs j k h ch (do { h1 \<leftarrow> remove h a; drop_white bwd h1 (sibling_link bwd n) })"
        using h1(1,3) by simp (metis kept_trans runsE runsI)
      then show ?thesis using good_value(1) [OF assms(1) n(1) v, of "?t v"] good_value(2) [OF assms(1) n(1) v, where v = "?t v" and j = j] d(1) Some n(1) True v
        by (simp add: trim_edge_def Let_def upd_def runsI)
    qed
  qed
qed

section \<open>Adding and removing nodes\<close>

text \<open>A new node at the end of the children of \<open>x\<close>.\<close>

lemma good_add:
  assumes "good k h ch" "x < k" "isolated m" "nd_type m = 1 \<Longrightarrow> nd_attributes m \<noteq> None" "nd_type m \<in> {3, str_3} \<Longrightarrow> v \<noteq> None"
  obtains h1 n where "append_node (h(k \<mapsto> m)) x k = Some h1" "h1 k = Some n" "nd_type n = nd_type m" "nd_value n = nd_value m"
    "h1 x \<noteq> None" "good (Suc k) (h1(k \<mapsto> n\<lparr>nd_value := v\<rparr>)) (ch(x := ch x @ [k]))"
    "kept k h ch (h1(k \<mapsto> n\<lparr>nd_value := v\<rparr>)) (ch(x := ch x @ [k]))"
proof -
  note dom = goodD(2) [OF assms(1)]
  obtain h1 where h1: "append_node (h(k \<mapsto> m)) x k = Some h1" "contents h1 = (contents h)(k \<mapsto> m)" "wf_heap h1 (ch(x := ch x @ [k]))"
    using append_fresh [OF goodD(1) [OF assms(1)] _ assms(3), of k x] dom assms(2) by auto
  have "contents h1 k = Some m" using h1(2) by simp
  then obtain n where n: "h1 k = Some n" "clear_links n = clear_links m" using assms(3) by (auto simp: contents_def isolated_def)
  have nm: "nd_type n = nd_type m" "nd_value n = nd_value m" using clear_eq(1) [OF n(2)] n(2) clear_sel(5) by metis+
  let ?h = "h1(k \<mapsto> n\<lparr>nd_value := v\<rparr>)"
  have c: "contents ?h = (contents h)(k \<mapsto> (clear_links m)\<lparr>nd_value := v\<rparr>)" using upd_contents [of h1 k n v] n(1) h1(2) n(2) by simp
  have "dom ?h = {..<Suc k}" using c dom by (metis dom_contents dom_fun_upd lessThan_Suc option.simps(3))
  moreover have "wf_heap ?h (ch(x := ch x @ [k]))" using h1(3) n(1) by (intro wf_heap_contents) simp_all
  moreover have "\<forall>a. pred_option sound_node (contents ?h a)"
    using sound_contents [of h] assms(1,4,5) unfolding c by (simp add: good_def sound_node_def clear_links_def)
  then have "\<forall>a. pred_option sound_node (?h a)" by (rule sound_contents [THEN iffD1])
  ultimately have "good (Suc k) ?h (ch(x := ch x @ [k]))" using goodD(3) [OF assms(1)] assms(2) by (auto simp: good_def)
  moreover have "kind ?h y = kind h y" if "y < k" for y
    using fun_cong [OF c, of y] that by (metis fun_upd_other kind_contents kind_def less_irrefl)
  then have "kept k h ch ?h (ch(x := ch x @ [k]))" by (simp add: kept_def)
  moreover have "h1 x \<noteq> None" using dom_contents [of h1] h1(2) dom assms(2) by (auto simp: dom_contents)
  ultimately show thesis using that h1(1) n(1) nm by blast
qed

lemma trees_exist:
  assumes "good k h ch" shows "\<exists>ts. tree_in ch (T r ts)"
proof (induction "k - r" arbitrary: r rule: less_induct)
  case less
  have "\<forall>c \<in> set (ch r). \<exists>us. tree_in ch (T c us)"
  proof
    fix c assume c: "c \<in> set (ch r)"
    then have "r < c" "c < k" using goodD(1-3) [OF assms] wf_heap_dom [of h ch c r] by auto
    then show "\<exists>us. tree_in ch (T c us)" by (intro less) simp
  qed
  then obtain f where f: "\<And>c. c \<in> set (ch r) \<Longrightarrow> tree_in ch (T c (f c))" by metis
  then have "tree_in ch (T r (map (\<lambda>c. T c (f c)) (ch r)))" by (auto simp: comp_def)
  then show ?case by blast
qed

lemma tree_above:
  assumes "good k h ch" "tree_in ch t" "a \<in> set (preorder t)" shows "troot t \<le> a"
  using assms(2,3)
proof (induction t)
  case (T x ts)
  show ?case
  proof (cases "a = x")
    case False
    then obtain t where t: "t \<in> set ts" "a \<in> set (preorder t)" using T.prems(2) by auto
    have "x < troot t" using T.prems(1) t(1) goodD(3) [OF assms(1), of "troot t" x] by (metis image_eqI list.set_map tree_in.simps)
    then show ?thesis using T.IH [OF t(1) _ t(2)] T.prems(1) t(1) by fastforce
  qed simp
qed

lemma good_empty:
  assumes "good k h ch" "x < k"
  obtains h' ch' where "empty h x = Some h'" "good k h' ch'" "kept (Suc x) h ch h' ch'"
proof -
  obtain ts where t: "tree_in ch (T x ts)" using trees_exist [OF assms(1)] by blast
  let ?ch = "\<lambda>a. if a \<in> set (preorder (T x ts)) then [] else ch a"
  obtain h' where h': "empty h x = Some h'" "contents h' = contents h" "wf_heap h' ?ch"
    using empty_refines [OF goodD(1) [OF assms(1)] t] goodD(2) [OF assms(1)] assms(2) by auto
  have "good k h' ?ch" using h'(3,2) assms(1) by (rule goodI) simp
  moreover have "kind h' = kind h" using kind_contents [of h'] kind_contents [of h] h'(2) by simp
  moreover have "q \<notin> set (preorder (T x ts))" if "y \<in> set (ch q)" "y < Suc x" for q y
    using tree_above [OF assms(1) t, of q] goodD(3) [OF assms(1) that(1)] that(2) by auto
  then have "y \<in> set (?ch q) \<longleftrightarrow> y \<in> set (ch q)" if "y < Suc x" for q y using that by (auto simp del: preorder.simps)
  ultimately have "kept (Suc x) h ch h' ?ch" by (simp add: kept_def del: preorder.simps)
  then show thesis using that h'(1) \<open>good k h' ?ch\<close> by blast
qed

lemma good_empty_remove:
  assumes "good k h ch" "x < k"
  shows "runs x k h ch (empty_remove x h)"
proof -
  obtain h1 ch1 where h1: "empty h x = Some h1" "good k h1 ch1" "kept (Suc x) h ch h1 ch1" using good_empty [OF assms] .
  obtain h2 where h2: "remove h1 x = Some h2" "wf_heap h2 (without x ch1)" "contents h2 = contents h1"
    using remove_refines [OF goodD(1) [OF h1(2)], of x] goodD(2) [OF h1(2)] assms(2) by auto
  have g: "good k h2 (without x ch1)" using h2(2,3) h1(2) by (rule goodI) (auto simp: without_def dest: set_remove1_subset [THEN subsetD])
  have "kind h2 = kind h1" using kind_contents [of h2] kind_contents [of h1] h2(3) by simp
  then have "kept x h1 ch1 h2 (without x ch1)" by (simp add: kept_def without_def)
  then have "kept x h ch h2 (without x ch1)" using kept_trans kept_le [OF h1(3), of x] by auto
  with g show ?thesis using h1(1) h2(1) by (auto simp: empty_remove_def intro: runsI)
qed

section \<open>The handlers\<close>

text \<open>The handler returns a state \<open>t\<close>; the nodes below \<open>j\<close> stay, and the next event finds the node \<open>x\<close>.\<close>

definition handled :: "nat \<Rightarrow> pstate \<Rightarrow> (addr \<Rightarrow> addr list) \<Rightarrow> addr option \<Rightarrow> pstate option \<Rightarrow> bool" where
  "handled j s ch x r \<longleftrightarrow> (\<exists>t ch'. r = Some t \<and> good (ps_next t) (ps_heap t) ch' \<and> ps_next s \<le> ps_next t
     \<and> kept j (ps_heap s) ch (ps_heap t) ch' \<and> ps_node t = x)"

lemma handled_leaf:
  assumes "good (ps_next s) (ps_heap s) ch" "ps_node s = Some x" "x < ps_next s" "type \<noteq> 1" "type \<in> {3, str_3} \<Longrightarrow> v \<noteq> None" "name \<notin> set proto_keys"
  shows "handled (ps_next s) s ch (Some x) (add_leaf p name type v raw s)"
proof -
  let ?a = "ps_next s" and ?m = "(Node name type)\<lparr>nd_raw := raw\<rparr>"
  obtain h1 n where h1: "append_node ((ps_heap s)(?a \<mapsto> ?m)) x ?a = Some h1" "h1 ?a = Some n"
      "good (Suc ?a) (h1(?a \<mapsto> n\<lparr>nd_value := v\<rparr>)) (ch(x := ch x @ [?a]))" "kept ?a (ps_heap s) ch (h1(?a \<mapsto> n\<lparr>nd_value := v\<rparr>)) (ch(x := ch x @ [?a]))"
    by (rule good_add [OF assms(1,3), of ?m v]) (use assms(4,5) in \<open>auto simp: Node_def isolated_def clear_links_def\<close>)
  show ?thesis using assms(2,6) h1 by (auto simp: handled_def add_leaf_def createNode_def new_node_def upd_def Let_def)
qed

lemma handledE:
  assumes "handled j s ch x r"
  obtains t ch' where "r = Some t" "good (ps_next t) (ps_heap t) ch'" "ps_next s \<le> ps_next t" "kept j (ps_heap s) ch (ps_heap t) ch'" "ps_node t = x"
  using assms by (auto simp: handled_def)

text \<open>A change of the store only.\<close>

lemma handled_heap:
  assumes "runs j (ps_next s) (ps_heap s) ch r"
  obtains h ch' where "r = Some h" "on_heap (\<lambda>_. r) s = Some (s\<lparr>ps_heap := h\<rparr>)" "good (ps_next s) h ch'" "kept j (ps_heap s) ch h ch'"
  using runsE [OF assms] by (auto simp: on_heap_def)

lemma handled_text:
  assumes "good (ps_next s) (ps_heap s) ch" "ps_node s = Some x" "x < ps_next s"
  shows "handled (ps_next s) s ch (Some x) (on_text p v raw s)"
proof -
  obtain n where n: "ps_heap s x = Some n" "nd_lastChild n = last_opt (ch x)"
    using wf_heap_node [OF goodD(1) [OF assms(1)], of x] goodD(2) [OF assms(1)] assms(3) by auto
  have "ps_heap s l \<noteq> None" if "nd_lastChild n = Some l" for l
    using that n(2) wf_heap_dom [OF goodD(1) [OF assms(1)], of l x] by (auto simp: last_opt_in_set)
  then have "on_text p v raw s = (if t = [] then Some s else add_leaf p (js ''#text'') 3 (Some t) raw s)"
    if "t = (if ps_white s then v else case nd_lastChild n of None \<Rightarrow> collapse_space v
         | Some l \<Rightarrow> if is_block p (nd_name (the (ps_heap s l))) then trim_start (collapse_space v) else collapse_space v)" for t
    using n(1) assms(2) that by (cases "ps_white s"; cases "nd_lastChild n") (auto simp: on_text_def)
  then obtain t where t: "on_text p v raw s = (if t = [] then Some s else add_leaf p (js ''#text'') 3 (Some t) raw s)" by blast
  have "handled (ps_next s) s ch (Some x) (Some s)" using assms by (auto simp: handled_def intro!: exI [of _ ch] kept_refl)
  then show ?thesis using t handled_leaf [OF assms, of 3 "Some t", OF _ _ plain_hash(1)] by simp
qed

lemma handled_before:
  assumes "handled (ps_next s) s ch (Some x) r" "x < ps_next s"
  shows "handled (ps_next s) s ch (Some x) (Option.bind r before_current)"
proof -
  obtain t ch1 where t: "r = Some t" "good (ps_next t) (ps_heap t) ch1" "ps_next s \<le> ps_next t" "kept (ps_next s) (ps_heap s) ch (ps_heap t) ch1" "ps_node t = Some x"
    using handledE [OF assms(1)] .
  have "x < ps_next t" using t(3) assms(2) by simp
  from runs_before [OF t(2) this] obtain h ch2 where h: "removeWhitespaceBefore x (ps_heap t) = Some h" "good (ps_next t) h ch2" "kept (ps_next s) (ps_heap t) ch1 h ch2"
    by (rule runsE)
  then show ?thesis using t kept_trans [OF t(4) h(3)] by (auto simp: handled_def before_current_def on_heap_def intro!: exI [of _ ch2])
qed

text \<open>Attribute filters that are not named like a member of \<open>Object.prototype\<close> never raise.\<close>

definition plain_filters :: "dparser \<Rightarrow> bool" where
  "plain_filters p \<longleftrightarrow> list_all (\<lambda>name. name \<notin> set proto_keys) (map fst (dp_attributeFilters p))"

lemma match_loop_same:
  "list_all (\<lambda>name. name \<notin> set proto_keys) names \<Longrightarrow> \<exists>m. match_loop names a n s = Some (s\<lparr>ps_matchedAttributes := m\<rparr>)"
proof (induction names arbitrary: s)
  case Nil
  then show ?case by (auto intro!: exI [of _ "ps_matchedAttributes s"])
next
  case (Cons name names)
  then show ?case using Cons.IH [of s] Cons.IH [of "s\<lparr>ps_matchedAttributes := push_to name n (ps_matchedAttributes s)\<rparr>"] by auto
qed

lemma match_attributes_same:
  assumes "plain_filters p" obtains m where "match_attributes p a n s = Some (s\<lparr>ps_matchedAttributes := m\<rparr>)"
  using match_loop_same [of "rev (map fst (dp_attributeFilters p))" a n s] assms by (auto simp: plain_filters_def match_attributes_def)

lemma handled_start:
  assumes "good (ps_next s) (ps_heap s) ch" "ps_node s = Some x" "x < ps_next s" "element_rule p name = Some ru"
    and "output_name ru name \<notin> set proto_keys" "plain_filters p"
  shows "\<exists>t ch'. on_start p name kvs emp s = Some t \<and> good (ps_next t) (ps_heap t) ch' \<and> ps_next t = Suc (ps_next s)
    \<and> kept (ps_next s) (ps_heap s) ch (ps_heap t) ch' \<and> ps_node t = Some (if emp then x else ps_next s)
    \<and> kind (ps_heap t) (ps_next s) = Some 1 \<and> ps_next s \<in> set (ch' x)"
proof -
  let ?a = "ps_next s" and ?m = "(Node (output_name ru name) 1)\<lparr>nd_attributes := Some (mk_attrs kvs), nd_shortEnded := emp\<rparr>" and ?ch = "ch(x := ch x @ [ps_next s])"
  obtain h1 n where h1: "append_node ((ps_heap s)(?a \<mapsto> ?m)) x ?a = Some h1" "h1 ?a = Some n" "nd_type n = nd_type ?m" "h1 x \<noteq> None"
      "good (Suc ?a) (h1(?a \<mapsto> n\<lparr>nd_value := None\<rparr>)) ?ch" "kept ?a (ps_heap s) ch (h1(?a \<mapsto> n\<lparr>nd_value := None\<rparr>)) ?ch" "nd_value n = nd_value ?m"
    by (rule good_add [OF assms(1,3), of ?m None]) (auto simp: Node_def isolated_def clear_links_def)
  have g: "good (Suc ?a) h1 ?ch" "kept ?a (ps_heap s) ch h1 ?ch" using h1(2,5-7) by (simp_all add: fun_upd_idem Node_def)
  obtain c where c: "h1 x = Some c" using h1(4) by auto
  have ka: "kind h1 ?a = Some 1" using h1(2,3) by (simp add: kind_def Node_def)
  have "runs (Suc ?a) (Suc ?a) h1 ?ch (if is_block p name then removeWhitespaceBefore ?a h1 else Some h1)"
    using runs_before [OF g(1), of ?a] runs_same [OF g(1)] by simp
  then obtain h2 ch2 where h2: "(if is_block p name then removeWhitespaceBefore ?a h1 else Some h1) = Some h2" "good (Suc ?a) h2 ch2" "kept (Suc ?a) h1 ?ch h2 ch2"
    by (rule runsE)
  have "kept ?a (ps_heap s) ch h2 ch2" using kept_trans [OF g(2) kept_le [OF h2(3)]] by simp
  moreover have "kind h2 ?a = Some 1" "?a \<in> set (ch2 x)" using h2(3) ka by (auto simp: kept_def)
  moreover have "\<forall>u. \<exists>m. match_attributes p (mk_attrs kvs) ?a u = Some (u\<lparr>ps_matchedAttributes := m\<rparr>)"
    using match_attributes_same [OF assms(6), of "mk_attrs kvs" ?a] by metis
  then obtain f where ma: "match_attributes p (mk_attrs kvs) ?a u = Some (u\<lparr>ps_matchedAttributes := f u\<rparr>)" for u by metis
  have "\<exists>t. on_start p name kvs emp s = Some t \<and> ps_heap t = h2 \<and> ps_next t = Suc ?a \<and> ps_node t = Some (if emp then x else ?a)"
    using assms(2,4,5) h1(1) c h2(1) ma
    by (auto simp: on_start_def createNode_def new_node_def upd_def on_heap_def Let_def split: if_splits)
  ultimately show ?thesis using h2(2) by metis
qed

text \<open>The end of an element \<open>a\<close>.\<close>

lemma handled_pad:
  assumes "good (ps_next s) (ps_heap s) ch" "a < ps_next s"
  shows "handled (Suc a) s ch (ps_node s) (pad str_3 a s)"
proof -
  let ?k = "ps_next s"
  obtain h ch1 where h: "empty (ps_heap s) a = Some h" "good ?k h ch1" "kept (Suc a) (ps_heap s) ch h ch1" using good_empty [OF assms] .
  obtain h1 n where h1: "append_node (h(?k \<mapsto> Node (js ''#text'') str_3)) a ?k = Some h1" "h1 ?k = Some n"
      "good (Suc ?k) (h1(?k \<mapsto> n\<lparr>nd_value := Some [0xA0]\<rparr>)) (ch1(a := ch1 a @ [?k]))"
      "kept ?k h ch1 (h1(?k \<mapsto> n\<lparr>nd_value := Some [0xA0]\<rparr>)) (ch1(a := ch1 a @ [?k]))"
    by (rule good_add [OF h(2) assms(2), of "Node (js ''#text'') str_3" "Some [0xA0]"]) (auto simp: Node_def isolated_def clear_links_def)
  have "kept (Suc a) (ps_heap s) ch (h1(?k \<mapsto> n\<lparr>nd_value := Some [0xA0]\<rparr>)) (ch1(a := ch1 a @ [?k]))"
    using kept_trans [OF h(3) kept_le [OF h1(4), of "Suc a"]] assms(2) by simp
  then show ?thesis using h(1) h1(1-3) by (auto simp: handled_def pad_def new_node_def upd_def Let_def intro!: exI [of _ "ch1(a := ch1 a @ [?k])"])
qed

lemma good_parent:
  assumes "good k h ch" "a \<in> set (ch x)"
  obtains n where "h a = Some n" "nd_parent n = Some x"
proof -
  obtain xs ys where "ch x = xs @ a # ys" using split_list [OF assms(2)] by blast
  from wf_heap_childE [OF goodD(1) [OF assms(1)] this] show thesis using that by blast
qed

lemma good_isEmpty:
  assumes "good k h ch" "a < k" obtains e where "isEmpty h a els = Some e"
proof -
  obtain ts where t: "tree_in ch (T a ts)" using trees_exist [OF assms(1)] by blast
  have "typed_heap h" using goodD(4) [OF assms(1)] by (auto simp: typed_heap_def sound_node_def)
  then show thesis using that node_isEmpty [OF goodD(1) [OF assms(1)] t, of els] goodD(2) [OF assms(1)] assms(2) by auto
qed

lemma handled_end_empty:
  assumes "good (ps_next s) (ps_heap s) ch" "ps_node s = Some a" "a < ps_next s" "a \<in> set (ch x)" "kind (ps_heap s) a = Some 1"
  shows "\<exists>stop t ch'. end_empty ru p a s = Some (stop, t) \<and> good (ps_next t) (ps_heap t) ch' \<and> ps_next s \<le> ps_next t
    \<and> kept a (ps_heap s) ch (ps_heap t) ch' \<and> (if stop then ps_node t = Some x else a \<in> set (ch' x))"
proof -
  obtain e where e: "isEmpty (ps_heap s) a (sc_nonEmpty (dp_schema p)) = Some e" using good_isEmpty [OF assms(1,3)] .
  obtain d where d: "ps_heap s a = Some d" "nd_parent d = Some x" using good_parent [OF assms(1,4)] .
  obtain at where at: "nd_attributes d = Some at" using goodD(4) [OF assms(1) d(1)] assms(5) d(1) by (auto simp: sound_node_def kind_def)
  have same: ?thesis if "end_empty ru p a s = Some (False, s)" using that assms(1,4) by (auto intro!: exI [of _ ch] kept_refl)
  show ?thesis
  proof (cases "(ru_removeEmpty ru \<or> ru_paddEmpty ru) \<and> e")
    case False
    then show ?thesis using e by (intro same) (auto simp: end_empty_def)
  next
    case True
    show ?thesis
    proof (cases "ru_paddEmpty ru")
      case pad: True
      obtain t ch1 where t: "pad str_3 a s = Some t" "good (ps_next t) (ps_heap t) ch1" "ps_next s \<le> ps_next t" "kept (Suc a) (ps_heap s) ch (ps_heap t) ch1"
        using handledE [OF handled_pad [OF assms(1,3)]] by metis
      have "end_empty ru p a s = Some (False, t)" using True pad e t(1) by (simp add: end_empty_def)
      moreover have "a \<in> set (ch1 x)" using t(4) assms(4,5) by (simp add: kept_def)
      ultimately show ?thesis using t(2,3) kept_le [OF t(4), of a] by auto
    next
      case nopad: False
      obtain h ch1 where h: "empty_remove a (ps_heap s) = Some h" "good (ps_next s) h ch1" "kept a (ps_heap s) ch h ch1"
        using runsE [OF good_empty_remove [OF assms(1,3)]] .
      show ?thesis
      proof (cases "truthy_attr at (js ''name'') \<or> truthy_attr at (js ''id'')")
        case True
        then show ?thesis using nopad e d(1) at \<open>(ru_removeEmpty ru \<or> ru_paddEmpty ru) \<and> e\<close> by (intro same) (auto simp: end_empty_def)
      next
        case False
        then have "end_empty ru p a s = Some (True, s\<lparr>ps_heap := h, ps_node := Some x\<rparr>)"
          using True nopad e d at h(1) by (simp add: end_empty_def on_heap_def)
        then show ?thesis using h(2,3) by (auto intro!: exI [of _ ch1])
      qed
    qed
  qed
qed

lemma handled_end:
  assumes "good (ps_next s) (ps_heap s) ch" "ps_node s = Some a" "a < ps_next s" "a \<in> set (ch x)" "kind (ps_heap s) a = Some 1" "element_rule p name = Some ru"
  shows "handled a s ch (Some x) (on_end p name s)"
proof -
  let ?r = "if is_block p name \<and> \<not> ps_white s then Option.bind (trim_edge False a (ps_heap s)) (trim_edge True a) else Some (ps_heap s)"
  have "runs (Suc a) (ps_next s) (ps_heap s) ch ?r"
    using assms(1,3) by (auto intro!: runs_bind runs_edge intro: runs_same)
  then obtain h ch1 where h: "?r = Some h" "good (ps_next s) h ch1" "kept (Suc a) (ps_heap s) ch h ch1" by (rule runsE)
  let ?t = "s\<lparr>ps_heap := h, ps_white := ps_white s \<and> \<not> sc_whiteSpace (dp_schema p) name\<rparr>"
  have a1: "a \<in> set (ch1 x)" "kind h a = Some 1" using h(3) assms(4,5) by (auto simp: kept_def)
  obtain stop t ch2 where t: "end_empty ru p a ?t = Some (stop, t)" "good (ps_next t) (ps_heap t) ch2" "ps_next s \<le> ps_next t"
      "kept a h ch1 (ps_heap t) ch2" "if stop then ps_node t = Some x else a \<in> set (ch2 x)"
    using handled_end_empty [of ?t ch1 a x ru p] h(2) assms(2,3) a1 by auto
  have k: "kept a (ps_heap s) ch (ps_heap t) ch2" using kept_trans [OF kept_le [OF h(3)] t(4)] by simp
  have run: "on_end p name s = (if stop then Some t else do { d \<leftarrow> ps_heap t a; Some (t\<lparr>ps_node := nd_parent d\<rparr>) })"
    using h(1) t(1) assms(2,6) by (auto simp: on_end_def on_heap_def Let_def split: if_splits)
  show ?thesis
  proof (cases stop)
    case True
    then show ?thesis using run t k by (auto simp: handled_def)
  next
    case False
    then obtain d where "ps_heap t a = Some d" "nd_parent d = Some x" using good_parent [OF t(2), of a x] t(5) by auto
    then show ?thesis using False run t(2,3) k by (auto simp: handled_def intro!: exI [of _ ch2])
  qed
qed

section \<open>Documents\<close>

text \<open>A document none of whose nodes is named like a member of \<open>Object.prototype\<close>, under the names the schema gives its elements.\<close>

definition plain_name :: "dparser \<Rightarrow> ustring \<Rightarrow> bool" where
  "plain_name p n = (case element_rule p n of None \<Rightarrow> True | Some ru \<Rightarrow> output_name ru n \<notin> set proto_keys)"

fun plain_doc :: "dparser \<Rightarrow> hdoc \<Rightarrow> bool" where
  "plain_doc p (HElem n a ds) = (plain_name p n \<and> (\<forall>d \<in> set ds. plain_doc p d))"
| "plain_doc p (HVoid n a) = plain_name p n"
| "plain_doc p (HPI n v) = (n \<notin> set proto_keys)"
| "plain_doc p _ = True"

definition accepted :: "dparser \<Rightarrow> event list \<Rightarrow> bool" where
  "accepted p es \<longleftrightarrow> (\<forall>s ch x. good (ps_next s) (ps_heap s) ch \<longrightarrow> ps_node s = Some x \<longrightarrow> x < ps_next s \<longrightarrow>
     handled (ps_next s) s ch (Some x) (on_events p es s))"

lemma acceptedD:
  "accepted p es \<Longrightarrow> good (ps_next s) (ps_heap s) ch \<Longrightarrow> ps_node s = Some x \<Longrightarrow> x < ps_next s \<Longrightarrow> handled (ps_next s) s ch (Some x) (on_events p es s)"
  unfolding accepted_def by blast

lemma handled_trans:
  assumes "handled (ps_next s) s ch (Some x) r" "x < ps_next s" "accepted p fs"
  shows "handled (ps_next s) s ch (Some x) (Option.bind r (on_events p fs))"
proof -
  obtain t ch1 where t: "r = Some t" "good (ps_next t) (ps_heap t) ch1" "ps_next s \<le> ps_next t" "kept (ps_next s) (ps_heap s) ch (ps_heap t) ch1" "ps_node t = Some x"
    using handledE [OF assms(1)] .
  have "x < ps_next t" using t(3) assms(2) by simp
  from acceptedD [OF assms(3) t(2,5) this] obtain u ch2 where u: "on_events p fs t = Some u" "good (ps_next u) (ps_heap u) ch2" "ps_next t \<le> ps_next u"
      "kept (ps_next t) (ps_heap t) ch1 (ps_heap u) ch2" "ps_node u = Some x" by (rule handledE)
  have "kept (ps_next s) (ps_heap s) ch (ps_heap u) ch2" using kept_trans [OF t(4) kept_le [OF u(4) t(3)]] .
  then show ?thesis using t(1,3) u by (auto simp: handled_def intro!: exI [of _ ch2])
qed

lemma accepted_forest: "(\<And>d. d \<in> set ds \<Longrightarrow> accepted p (events_of d)) \<Longrightarrow> accepted p (concat (map events_of ds))"
proof (induction ds)
  case Nil
  show ?case by (auto simp: accepted_def handled_def intro!: kept_refl)
next
  case (Cons d ds)
  then have "accepted p (events_of d)" "accepted p (concat (map events_of ds))" by simp_all
  then show ?case using handled_trans acceptedD by (simp add: accepted_def on_events_append)
qed

lemma on_events_single: "on_events p [e] s = on_event p e s"
  by (cases "on_event p e s") simp_all

lemma accepted_leaf:
  assumes "\<And>s ch x. good (ps_next s) (ps_heap s) ch \<Longrightarrow> ps_node s = Some x \<Longrightarrow> x < ps_next s \<Longrightarrow> handled (ps_next s) s ch (Some x) (on_event p e s)"
  shows "accepted p [e]"
  using assms by (simp add: accepted_def on_events_single del: on_events.simps)

lemma accepted_void:
  assumes "plain_filters p" "plain_name p n" shows "accepted p [Start n (Some kvs) True]"
proof (rule accepted_leaf)
  fix s :: pstate and ch x assume s: "good (ps_next s) (ps_heap s) ch" "ps_node s = Some x" "x < ps_next s"
  show "handled (ps_next s) s ch (Some x) (on_event p (Start n (Some kvs) True) s)"
  proof (cases "element_rule p n")
    case None
    then show ?thesis using s by (auto simp: on_start_def handled_def intro!: kept_refl)
  next
    case (Some ru)
    then have "output_name ru n \<notin> set proto_keys" using assms(2) by (simp add: plain_name_def)
    from handled_start [OF s Some this assms(1), of kvs True] show ?thesis by (auto simp: handled_def)
  qed
qed

lemma accepted_element:
  assumes "accepted p es" "plain_filters p" "plain_name p n" shows "accepted p (Start n (Some kvs) False # es @ [End n])"
  unfolding accepted_def
proof (intro allI impI)
  fix s :: pstate and ch x assume s: "good (ps_next s) (ps_heap s) ch" "ps_node s = Some x" "x < ps_next s"
  have split: "on_events p (Start n (Some kvs) False # es @ [End n]) s = Option.bind (on_start p n kvs False s) (\<lambda>t. Option.bind (on_events p es t) (on_end p n))"
  proof (cases "on_start p n kvs False s")
    case (Some t)
    then show ?thesis using on_events_single [of p "End n"] by (cases "on_events p es t") (simp_all add: on_events_append)
  qed simp
  show "handled (ps_next s) s ch (Some x) (on_events p (Start n (Some kvs) False # es @ [End n]) s)"
  proof (cases "element_rule p n")
    case None
    then have "on_events p (Start n (Some kvs) False # es @ [End n]) s = on_events p es s"
      unfolding split by (cases "on_events p es s") (simp_all add: on_start_def on_end_def)
    then show ?thesis using acceptedD [OF assms(1) s] by simp
  next
    case (Some ru)
    then have "output_name ru n \<notin> set proto_keys" using assms(3) by (simp add: plain_name_def)
    let ?a = "ps_next s"
    obtain t ch1 where t: "on_start p n kvs False s = Some t" "good (ps_next t) (ps_heap t) ch1" "ps_next t = Suc ?a"
        "kept ?a (ps_heap s) ch (ps_heap t) ch1" "ps_node t = Some ?a" "kind (ps_heap t) ?a = Some 1" "?a \<in> set (ch1 x)"
      using handled_start [OF s Some \<open>output_name ru n \<notin> set proto_keys\<close> assms(2), of kvs False] by auto
    have "?a < ps_next t" using t(3) by simp
    from acceptedD [OF assms(1) t(2,5) this] obtain u ch2 where u: "on_events p es t = Some u" "good (ps_next u) (ps_heap u) ch2" "ps_next t \<le> ps_next u"
      "kept (ps_next t) (ps_heap t) ch1 (ps_heap u) ch2" "ps_node u = Some ?a" by (rule handledE)
    have "kind (ps_heap u) ?a = Some 1" "?a \<in> set (ch2 x)" "?a < ps_next u" using u(3,4) t(3,6,7) by (auto simp: kept_def)
    from handled_end [OF u(2,5) this(3,2,1) Some] obtain v ch3 where v: "on_end p n u = Some v" "good (ps_next v) (ps_heap v) ch3" "ps_next u \<le> ps_next v"
      "kept ?a (ps_heap u) ch2 (ps_heap v) ch3" "ps_node v = Some x" by (rule handledE)
    have "kept ?a (ps_heap s) ch (ps_heap v) ch3"
      using kept_trans [OF kept_trans [OF t(4) kept_le [OF u(4)]] v(4)] t(3) by simp
    moreover have "on_events p (Start n (Some kvs) False # es @ [End n]) s = Some v" unfolding split using t(1) u(1) v(1) by simp
    ultimately show ?thesis using v t(3) u(3) by (auto simp: handled_def)
  qed
qed

lemma accepted_doc:
  assumes "plain_filters p" shows "plain_doc p d \<Longrightarrow> accepted p (events_of d)"
proof (induction d)
  case (HElem n kvs ds)
  then show ?case using accepted_element [OF accepted_forest assms, of ds n kvs] by simp
next
  case (HVoid n kvs)
  then show ?case using accepted_void [OF assms] by simp
next
  case (HText v raw)
  show ?case by (simp only: events_of.simps, rule accepted_leaf) (simp add: handled_text)
next
  case (HCData v)
  show ?case by (simp only: events_of.simps, rule accepted_leaf) (auto intro!: handled_leaf simp: plain_hash)
next
  case (HComment v)
  show ?case by (simp only: events_of.simps, rule accepted_leaf) (auto intro!: handled_leaf simp: plain_hash)
next
  case (HPI n v)
  then show ?case by (simp only: events_of.simps plain_doc.simps, intro accepted_leaf) (auto simp: on_pi_def intro!: handled_before handled_leaf)
next
  case (HDoctype v)
  show ?case by (simp only: events_of.simps, rule accepted_leaf) (auto simp: on_doctype_def plain_hash intro!: handled_before handled_leaf)
qed

lemma good_new: "good (ps_next (new_state name)) (ps_heap (new_state name)) (\<lambda>_. [])"
  using ready_new [of name] by (auto simp: good_def ready_def new_state_def sound_node_def Node_def)

lemma document_builds:
  assumes "plain_filters p" "\<And>d. d \<in> set ds \<Longrightarrow> plain_doc p d"
  shows "\<exists>s ch ts. on_events p (concat (map events_of ds)) (new_state name) = Some s \<and> wf_heap (ps_heap s) ch \<and> tree_in ch (T 0 ts)
    \<and> (\<forall>a. pred_option sound_node (ps_heap s a)) \<and> ps_node s = Some 0"
proof -
  from acceptedD [OF accepted_forest [OF accepted_doc [OF assms(1,2)]] good_new] obtain s ch where "on_events p (concat (map events_of ds)) (new_state name) = Some s"
    "good (ps_next s) (ps_heap s) ch" "ps_node s = Some 0" by (rule handledE) (auto simp: new_state_def)
  then show ?thesis using trees_exist [of _ _ ch 0] by (auto simp: good_def)
qed

text \<open>C4. For every document, schema and set of filters in which no node and no attribute filter is named like a member of \<open>Object.prototype\<close> (an element
  counts under the name the schema gives it; such a name makes the code raise), the handlers of the events build a tree: they never raise,
  every list of children is linked in both directions, the root has a finite tree of descendants, every element has attributes, every text
  has a value, and at the end the current node is the root again.\<close>

theorem events_build_tree:
  assumes "plain_filters p" and "list_all (plain_doc p) ds"
  shows "\<exists>s ch ts. on_events p (concat (map events_of ds)) (new_state name) = Some s \<and> wf_heap (ps_heap s) ch \<and> tree_in ch (T 0 ts)
    \<and> (\<forall>a. pred_option sound_node (ps_heap s a)) \<and> ps_node s = Some 0"
  using assms by (intro document_builds) (simp_all add: list_all_iff)

theorem events_build_tree_witness:
  "\<exists>s ch ts. on_events demo_parser (concat (map events_of demo_doc)) (new_state (js ''body'')) = Some s \<and> wf_heap (ps_heap s) ch \<and> tree_in ch (T 0 ts)
    \<and> (\<forall>a. pred_option sound_node (ps_heap s a)) \<and> ps_node s = Some 0"
  by (rule events_build_tree)
     (simp_all add: plain_filters_def demo_parser_def demo_doc_def plain_name_def element_rule_def demo_rule_def no_rule_def output_name_def proto_keys_def js_def)

text \<open>A processing instruction with an inherited name raises, whatever the filters are.\<close>

lemma inherited_pi_raises: "n \<in> set proto_keys \<Longrightarrow> on_events p (events_of (HPI n v)) s = None"
  by (cases "ps_node s") (simp_all add: on_pi_def add_leaf_def createNode_def)

text \<open>The text in a padded element has a type that \<open>isEmpty\<close> does not know: a padded block that holds a padded block counts as empty and
  loses it.\<close>

definition padding_parser :: dparser where
  "padding_parser = demo_parser\<lparr>dp_schema := (dp_schema demo_parser)\<lparr>sc_rule := (\<lambda>_. Some (no_rule\<lparr>ru_paddEmpty := True\<rparr>))\<rparr>\<rparr>"

declare isEmpty_loop.simps [code] walk_up.simps [code] walk_from.simps [code] walk_list.simps [code]

lemma padded_child_lost:
  "Option.bind (on_events padding_parser (events_of (HElem (js ''div'') [] [HElem (js ''p'') [] []])) (new_state (js ''body'')))
     (\<lambda>s. serialize plain_serializer (ps_heap s) 0 []) = Some (js ''<div>'' @ [0xA0] @ js ''</div>'')"
  by code_simp

end
