(* ===== verification/SaxNesting.thy ===== *)
theory SaxNesting
  imports SaxParser ParseWf
begin

text \<open>
  What \<open>classes/html/SaxParser.js\<close> promises for a text without tags named like a member of \<open>Object.prototype\<close>: the events it reports are
  those of a document, with every element closed in the right order, so that the DOM parser builds a tree from it.
\<close>

section \<open>Events of a document that is not complete\<close>

fun part_of :: "ustring list \<Rightarrow> event list \<Rightarrow> bool" where
  "part_of [] es \<longleftrightarrow> (\<exists>ds. es = concat (map events_of ds))"
| "part_of (n # st) es \<longleftrightarrow> (\<exists>es' a ds. es = es' @ Start n (Some a) False # concat (map events_of ds) \<and> part_of st es')"

lemma part_of_add: "part_of st es \<Longrightarrow> part_of st (es @ events_of d)"
proof (cases st)
  case Nil
  assume "part_of st es"
  then obtain ds where "es = concat (map events_of ds)" using Nil by auto
  then have "es @ events_of d = concat (map events_of (ds @ [d]))" by simp
  then show ?thesis using Nil by (simp only: part_of.simps) blast
next
  case (Cons n st')
  assume "part_of st es"
  then obtain es' a ds where e: "es = es' @ Start n (Some a) False # concat (map events_of ds)" "part_of st' es'" using Cons by auto
  have "es @ events_of d = es' @ Start n (Some a) False # concat (map events_of (ds @ [d]))" using e(1) by simp
  then show ?thesis using Cons e(2) by (simp only: part_of.simps) blast
qed

lemma part_of_open: "part_of st es \<Longrightarrow> part_of (n # st) (es @ [Start n (Some a) False])"
  by (simp, intro exI [of _ es] conjI exI [of _ a] exI [of _ "[]"]) simp_all

lemma part_of_close:
  assumes "part_of (n # st) es" shows "part_of st (es @ [End n])"
proof -
  obtain es' a ds where e: "es = es' @ Start n (Some a) False # concat (map events_of ds)" "part_of st es'" using assms by auto
  have "es @ [End n] = es' @ events_of (HElem n a ds)" using e(1) by simp
  then show ?thesis using part_of_add [OF e(2), of "HElem n a ds"] by simp
qed

lemma part_of_close_all: "part_of (map fst (filter snd (xs @ ys))) es \<Longrightarrow> part_of (map fst (filter snd ys)) (es @ end_events xs)"
proof (induction xs arbitrary: es)
  case (Cons x xs)
  show ?case
  proof (cases "snd x")
    case True
    then have "part_of (map fst (filter snd (xs @ ys))) (es @ [End (fst x)])" using Cons.prems part_of_close by simp
    from Cons.IH [OF this] show ?thesis using True by (cases x) (simp add: end_events_def)
  next
    case False
    then show ?thesis using Cons by (cases x) (simp add: end_events_def)
  qed
qed (simp add: end_events_def)

section \<open>Every text is read as a document\<close>

text \<open>The elements that have been reported and are open are those on the stack.\<close>

definition tracks :: "sax_state \<Rightarrow> bool" where
  "tracks s \<longleftrightarrow> part_of (map fst (filter snd (ss_stack s))) (ss_events s)"

lemma report_sel [simp]: "ss_stack (report es s) = ss_stack s" "ss_events (report es s) = ss_events s @ es" "ss_attribsValue (report es s) = ss_attribsValue s"
  by (simp_all add: report_def)

lemma tracks_leaf: "tracks s \<Longrightarrow> tracks (report (events_of d) s)"
  by (simp add: tracks_def part_of_add)

lemma tracks_text: "tracks s \<Longrightarrow> tracks (report [Text v raw] s)"
  using tracks_leaf [of s "HText v raw"] by simp

lemma tracks_text_before: "tracks s \<Longrightarrow> tracks (text_before cfg v s)"
  by (simp add: text_before_def tracks_text)

lemma tracks_other: "tracks s \<Longrightarrow> tracks (report (other_token cfg g) s)"
  using tracks_leaf [of s "HComment _"] tracks_leaf [of s "HCData _"] tracks_leaf [of s "HDoctype _"] tracks_leaf [of s "HPI _ _"]
  by (auto simp: other_token_def report_def split: option.splits)

lemma tracks_end:
  assumes "tracks s" shows "tracks (processEndTag name s)"
proof (cases "dropWhile (\<lambda>e. fst e \<noteq> name) (ss_stack s)")
  case (Cons e rest)
  let ?xs = "takeWhile (\<lambda>e. fst e \<noteq> name) (ss_stack s) @ [e]"
  have "ss_stack s = ?xs @ rest" using Cons takeWhile_dropWhile_id [of "\<lambda>e. fst e \<noteq> name" "ss_stack s"] by simp
  then have "part_of (map fst (filter snd (?xs @ rest))) (ss_events s)" using assms by (simp only: tracks_def)
  from part_of_close_all [OF this] show ?thesis using Cons by (simp add: processEndTag_def tracks_def)
qed (simp only: processEndTag_def assms list.case)

text \<open>An element right after its start has been reported, or has been found invalid.\<close>

definition started :: "sax_cfg \<Rightarrow> ustring \<Rightarrow> bool \<Rightarrow> sax_state \<Rightarrow> bool" where
  "started cfg name valid s \<longleftrightarrow> (if valid then \<exists>t a. ss_events s = ss_events t @ [Start name (Some a) (has_prop (sx_shortEnded cfg) name)]
       \<and> tracks t \<and> ss_stack t = ss_stack s else tracks s)"

lemma start_element_started:
  assumes "tracks s" "start_element cfg name attribs s = (valid, t)"
  shows "started cfg name valid t"
proof -
  have same: "tracks (s\<lparr>ss_attribsValue := a, ss_isInternal := i, ss_idCount := n\<rparr>)" for a i n using assms(1) by (simp add: tracks_def)
  show ?thesis
  proof (cases "sx_validate cfg \<and> sx_rule cfg name = None")
    case True
    then show ?thesis using assms by (simp add: start_element_def started_def)
  next
    case False
    obtain v a1 n1 where e: "element_attrs cfg (sx_rule cfg name) (internal_element attribs s) attribs (ss_idCount s) = (v, a1, n1)" by (metis prod_cases3)
    let ?s = "s\<lparr>ss_attribsValue := attribs, ss_isInternal := internal_element attribs s, ss_idCount := n1\<rparr>"
    have "v = valid" "t = (if valid then report [Start name (Some a1) (has_prop (sx_shortEnded cfg) name)] ?s else ?s)"
      using assms(2) False e by (auto simp: start_element_def Let_def)
    then show ?thesis using same [where a = attribs and n = n1] unfolding started_def by (auto intro!: exI [of _ ?s])
  qed
qed

lemma started_open:
  assumes "started cfg name valid s" shows "tracks (open_element cfg name valid s)"
proof (cases valid)
  case False
  then show ?thesis using assms by (auto simp: started_def open_element_def tracks_def)
next
  case True
  then obtain t a where t: "ss_events s = ss_events t @ [Start name (Some a) (has_prop (sx_shortEnded cfg) name)]" "tracks t" "ss_stack t = ss_stack s"
    using assms by (auto simp: started_def)
  note tr = t(2) [unfolded tracks_def]
  show ?thesis
  proof (cases "has_prop (sx_shortEnded cfg) name")
    case short: True
    then show ?thesis using t(1,3) part_of_add [OF tr, of "HVoid name a"] by (simp add: open_element_def tracks_def)
  next
    case False
    then show ?thesis using True t(1,3) part_of_open [OF tr, of name a] part_of_add [OF tr, of "HElem name a []"]
      by (auto simp: open_element_def tracks_def)
  qed
qed

lemma started_special:
  assumes "started cfg name valid s" "\<not> has_prop (sx_shortEnded cfg) name"
  shows "tracks (snd (special_element name valid html s))"
proof (cases valid)
  case False
  then show ?thesis using assms by (auto simp: started_def special_element_def Let_def split: prod.splits)
next
  case True
  then obtain t a where t: "ss_events s = ss_events t @ [Start name (Some a) False]" "tracks t" "ss_stack t = ss_stack s"
    using assms by (auto simp: started_def)
  obtain v rest where "(case exec (endRegExp name) html of Some (b, r, _) \<Rightarrow> (b, r) | None \<Rightarrow> (html, [])) = (v, rest)" by fastforce
  then have "snd (special_element name valid html s) = report ((if v \<noteq> [] then [Text v True] else []) @ [End name]) s"
    using True by (simp add: special_element_def)
  moreover have "(if v \<noteq> [] then [Text v True] else []) = concat (map events_of (if v \<noteq> [] then [HText v True] else []))" by simp
  then have "Start name (Some a) False # (if v \<noteq> [] then [Text v True] else []) @ [End name] = events_of (HElem name a (if v \<noteq> [] then [HText v True] else []))"
    by simp
  ultimately show ?thesis using t(1,3) part_of_add [OF t(2) [unfolded tracks_def], of "HElem name a (if v \<noteq> [] then [HText v True] else [])"]
    by (simp add: tracks_def)
qed

text \<open>The names of special elements are not those of elements without an end tag.\<close>

definition special_ok :: "sax_cfg \<Rightarrow> bool" where
  "special_ok cfg \<longleftrightarrow> (\<forall>n. sx_special cfg n \<noteq> None \<longrightarrow> \<not> has_prop (sx_shortEnded cfg) n)"

lemma start_tag_tracks:
  assumes "special_ok cfg" "tracks s" "start_tag cfg name attribs html s = Some (rest, t)"
  shows "tracks t"
proof -
  let ?s = "if sx_fixSelfClosing cfg \<and> has_prop (sx_selfClosing cfg) name \<and> ss_stack s \<noteq> [] \<and> fst (hd (ss_stack s)) = name then processEndTag name s else s"
  obtain valid u where u: "start_element cfg name attribs ?s = (valid, u)" by (cases "start_element cfg name attribs ?s") auto
  have st: "started cfg name valid u" using start_element_started [OF _ u] assms(2) tracks_end by simp
  show ?thesis
  proof (cases "get_prop (sx_special cfg) name")
    case (Own x)
    then have "\<not> has_prop (sx_shortEnded cfg) name" using assms(1) by (auto simp: special_ok_def get_prop_def split: option.splits if_splits)
    then show ?thesis using started_special [OF st] assms(3) Own u by (simp add: start_tag_def) (metis snd_conv)
  next
    case Undefined
    then show ?thesis using started_open [OF st] assms(3) u by (simp add: start_tag_def)
  qed (use assms(3) u in \<open>simp add: start_tag_def\<close>)
qed

lemma sax_loop_nested:
  "tracks s \<Longrightarrow> sax_loop cfg html s = Some t \<Longrightarrow> special_ok cfg \<Longrightarrow> \<exists>ds. ss_events t = concat (map events_of ds)"
proof (induction cfg html s rule: sax_loop.induct)
  case (1 cfg html s)
  note run = 1(5) [unfolded sax_loop.simps [of cfg html s]]
  show ?case
  proof (cases "exec tokenRegExp html")
    case None
    let ?s = "text_before cfg html s"
    have "part_of (map fst (filter snd (ss_stack ?s @ []))) (ss_events ?s)" using tracks_text_before [OF 1(4)] by (simp add: tracks_def)
    from part_of_close_all [OF this] show ?thesis using run None by (auto simp: Let_def)
  next
    case (Some x)
    then obtain b rest g where x: "exec tokenRegExp html = Some (b, rest, g)" by (cases x) auto
    let ?s = "text_before cfg b s"
    have s: "tracks ?s" by (rule tracks_text_before [OF 1(4)])
    show ?thesis
    proof (cases "group 6 g")
      case (Some v)
      then show ?thesis using 1(3) [OF x refl refl refl Some tracks_end [OF s] _ 1(6)] run x by simp
    next
      case six: None
      show ?thesis
      proof (cases "group 7 g")
        case None
        then show ?thesis using 1(1) [OF x refl refl refl six None tracks_other [OF s] _ 1(6)] run x six by simp
      next
        case (Some v)
        let ?a = "case map_of g 8 of Some a \<Rightarrow> a | None \<Rightarrow> []"
        obtain rest2 s2 where st: "start_tag cfg (tag_name v) ?a rest ?s = Some (rest2, s2)"
          "sax_loop cfg rest2 s2 = Some t" using run x six Some by (auto split: option.splits)
        show ?thesis using 1(2) [OF x refl refl refl six Some st(1) refl start_tag_tracks [OF 1(6) s st(1)] st(2) 1(6)] .
      qed
    qed
  qed
qed

section \<open>No text makes the parser raise\<close>

text \<open>The groups of a pattern; a match adds no others.\<close>

fun groups_of :: "regex \<Rightarrow> nat set" where
  "groups_of (Seq a b) = groups_of a \<union> groups_of b"
| "groups_of (Alt a b) = groups_of a \<union> groups_of b"
| "groups_of (Star r) = groups_of r"
| "groups_of (Lazy r) = groups_of r"
| "groups_of (Grp k r) = insert k (groups_of r)"
| "groups_of _ = {}"

lemma group_from: "t \<in> set (matches r s) \<Longrightarrow> (k, w) \<in> set (snd t) \<Longrightarrow> (k, w) \<in> set (snd s) \<or> k \<in> groups_of r"
proof (induction r s arbitrary: t rule: matches.induct)
  case (3 a b s)
  then obtain u where u: "u \<in> set (matches a s)" "t \<in> set (matches b u)" by auto
  then show ?case using 3(1) [OF u(1)] 3(2) [OF u 3(4)] by auto
next
  case (5 r s)
  show ?case
  proof (cases "t = s")
    case False
    then obtain u where u: "u \<in> set (matches r s)" "length (fst u) < length (fst s)" "t \<in> set (matches (Star r) u)" using 5(3) in_Star [of t r s] by blast
    have "u \<in> set (filter (\<lambda>t. length (fst t) < length (fst s)) (matches r s))" using u(1,2) by simp
    from 5(2) [OF this u(3) 5(4)] show ?thesis using 5(1) [OF u(1)] by auto
  qed (use 5 in simp)
next
  case (6 r s)
  show ?case
  proof (cases "t = s")
    case False
    then obtain u where u: "u \<in> set (matches r s)" "length (fst u) < length (fst s)" "t \<in> set (matches (Lazy r) u)" using 6(3) in_Lazy [of t r s] by blast
    have "u \<in> set (filter (\<lambda>t. length (fst t) < length (fst s)) (matches r s))" using u(1,2) by simp
    from 6(2) [OF this u(3) 6(4)] show ?thesis using 6(1) [OF u(1)] by auto
  qed (use 6 in simp)
next
  case (7 k' r s)
  then obtain u where u: "u \<in> set (matches r s)" "snd t = (k', take (length (fst s) - length (fst u)) (fst s)) # snd u" by auto
  then show ?case using 7(1) [OF u(1)] 7(3) by auto
qed (auto split: list.splits if_splits)

text \<open>What a group at the head of a pattern has matched is at the head of the text.\<close>

lemma leading_group:
  assumes "t \<in> set (matches (Seq (Grp k a) b) (u, []))" "(k, w) \<in> set (snd t)" "k \<notin> groups_of a" "k \<notin> groups_of b"
  shows "\<exists>r. u = w @ r"
proof -
  obtain y where y: "y \<in> set (matches a (u, []))" "t \<in> set (matches b (fst y, (k, take (length u - length (fst y)) u) # snd y))" using assms(1) by auto
  have "(k, w) \<notin> set (snd y)" using group_from [OF y(1)] assms(3) by auto
  then have "w = take (length u - length (fst y)) u" using group_from [OF y(2) assms(2)] assms(4) by auto
  then show ?thesis by (metis append_take_drop_id)
qed

lemma groups_of_parts [simp]: "groups_of (lit s) = {}" "groups_of (Plus r) = groups_of r" "groups_of (Opt r) = groups_of r"
  by (induction s) (simp_all add: lit_def Plus_def Opt_def)

lemma groups_of_tokens:
  "groups_of comment_re = {1}" "groups_of cdata_re = {2}" "groups_of doctype_re = {3}" "groups_of pi_re = {4, 5}" "groups_of end_re = {6}" "groups_of start_re = {7, 8}"
  by (auto simp: comment_re_def cdata_re_def doctype_re_def pi_re_def end_re_def start_re_def any_chr_def not_gt_def space_chr_def attr_re_def quoted_def)

text \<open>The name of a tag comes right after an angle bracket, that of a processing instruction after a question mark too.\<close>

lemma token_names:
  assumes "(rest, g) \<in> set (matches tokenRegExp (u, []))"
  shows "(7, v) \<in> set g \<Longrightarrow> \<exists>r. u = 0x3C # v @ r" and "(4, v) \<in> set g \<Longrightarrow> \<exists>r. u = 0x3C # 0x3F # v @ r"
proof -
  obtain cs re where u: "u = 0x3C # cs" "(rest, g) \<in> set (matches re (cs, []))" "re \<in> {comment_re, cdata_re, doctype_re, pi_re, end_re, start_re}"
    using assms by (auto simp: tokenRegExp_def split: list.splits if_splits)
  have k: "k \<in> groups_of re" if "(k, v) \<in> set g" for k using group_from [OF u(2), of k v] that by simp
  show "\<exists>r. u = 0x3C # v @ r" if "(7, v) \<in> set g"
  proof -
    have "re = start_re" using k [OF that] u(3) by (auto simp: groups_of_tokens)
    then show ?thesis using leading_group [OF u(2) [unfolded \<open>re = start_re\<close> start_re_def], of v] that u(1)
      by (auto simp: not_gt_def space_chr_def attr_re_def quoted_def)
  qed
  show "\<exists>r. u = 0x3C # 0x3F # v @ r" if "(4, v) \<in> set g"
  proof -
    have re: "re = pi_re" using k [OF that] u(3) by (auto simp: groups_of_tokens)
    obtain ds where ds: "cs = 0x3F # ds" using u(2) re by (cases cs) (auto simp: pi_re_def matches_lit js_def split: if_splits)
    let ?r = "Seq (Opt (lit (js '' ''))) (Seq (Grp 5 (Lazy any_chr)) (Seq (Chr (\<lambda>c. c = 0x3F \<or> c = 0x2F)) (lit (js ''>''))))"
    have "(rest, g) \<in> set (matches (Seq (Grp 4 (Plus (Chr (\<lambda>c. \<not> js_space c \<and> c \<notin> {0x2F, 0x3C, 0x3E})))) ?r) (ds, []))"
      using u(2) unfolding re ds pi_re_def matches.simps(3) [of "lit (js ''?'')"] by (simp add: matches_lit js_def)
    from leading_group [OF this, of v] show ?thesis using that u(1) ds by (auto simp: any_chr_def)
  qed
qed

lemma exec_suffix: "exec r s = Some (b, rest, g) \<Longrightarrow> \<exists>a. s = a @ rest"
proof -
  assume run: "exec r s = Some (b, rest, g)"
  obtain u where u: "s = b @ u" "matches r (u, []) \<noteq> []" "hd (matches r (u, [])) = (rest, g)" using exec_cases [OF run] .
  then have m: "(rest, g) \<in> set (matches r (u, []))" by (metis list.set_sel(1))
  show ?thesis using matches_suffix [OF m] u(1) by auto
qed

lemma group_in: "group k g = Some v \<Longrightarrow> (k, v) \<in> set g"
  by (auto simp: group_def dest: map_of_SomeD split: option.splits list.splits)

lemma start_tag_suffix: "start_tag cfg name attribs html s = Some (rest, t) \<Longrightarrow> \<exists>a. html = a @ rest"
proof -
  assume run: "start_tag cfg name attribs html s = Some (rest, t)"
  have "\<exists>a. html = a @ fst (special_element name valid html u)" for valid u
    using exec_suffix [of "endRegExp name" html] by (cases "exec (endRegExp name) html") (auto simp: special_element_def)
  moreover obtain valid u where "start_element cfg name attribs (if sx_fixSelfClosing cfg \<and> has_prop (sx_selfClosing cfg) name \<and> ss_stack s \<noteq> []
      \<and> fst (hd (ss_stack s)) = name then processEndTag name s else s) = (valid, u)" by fastforce
  then have "special_element name valid html u = (rest, t) \<or> rest = html"
    using run by (cases "get_prop (sx_special cfg) name") (simp_all add: start_tag_def)
  ultimately show ?thesis by (metis append_Nil fst_conv)
qed

text \<open>No angle bracket of the text is followed by the name of a member of \<open>Object.prototype\<close>, in any case and after a colon too, or by a question
  mark and such a name. The rest of the text may name them.\<close>

definition plain_after :: "ustring \<Rightarrow> bool" where
  "plain_after cs \<longleftrightarrow> list_all (\<lambda>n. tag_name (take n cs) \<notin> set proto_keys) [0..<Suc (length cs)]
     \<and> (case cs of c # ds \<Rightarrow> c = 0x3F \<longrightarrow> list_all (\<lambda>n. take n ds \<notin> set proto_keys) [0..<Suc (length ds)] | [] \<Rightarrow> True)"

fun no_inherited :: "ustring \<Rightarrow> bool" where
  "no_inherited [] = True"
| "no_inherited (c # cs) = ((c = 0x3C \<longrightarrow> plain_after cs) \<and> no_inherited cs)"

lemma no_inherited_suffix: "no_inherited (a @ t) \<Longrightarrow> no_inherited t"
  by (induction a) auto

lemma no_inherited_names:
  "no_inherited (a @ 0x3C # v @ r) \<Longrightarrow> tag_name v \<notin> set proto_keys"
  "no_inherited (a @ 0x3C # 0x3F # v @ r) \<Longrightarrow> v \<notin> set proto_keys"
proof -
  assume "no_inherited (a @ 0x3C # v @ r)"
  then have "plain_after (v @ r)" using no_inherited_suffix by fastforce
  then have "\<forall>n \<in> {0..<Suc (length (v @ r))}. tag_name (take n (v @ r)) \<notin> set proto_keys" by (simp only: plain_after_def list_all_iff set_upt conj_assoc) blast
  from bspec [OF this, of "length v"] show "tag_name v \<notin> set proto_keys" by simp
next
  assume "no_inherited (a @ 0x3C # 0x3F # v @ r)"
  then have "plain_after (0x3F # v @ r)" using no_inherited_suffix by fastforce
  then have "\<forall>n \<in> {0..<Suc (length (v @ r))}. take n (v @ r) \<notin> set proto_keys" by (simp only: plain_after_def list_all_iff set_upt list.case simp_thms) blast
  from bspec [OF this, of "length v"] show "v \<notin> set proto_keys" by simp
qed

lemma token_plain:
  assumes "exec tokenRegExp html = Some (b, rest, g)" "no_inherited html"
  shows "group 7 g = Some v \<Longrightarrow> tag_name v \<notin> set proto_keys" "group 4 g = Some v \<Longrightarrow> v \<notin> set proto_keys"
proof -
  obtain u where u: "html = b @ u" "matches tokenRegExp (u, []) \<noteq> []" "hd (matches tokenRegExp (u, [])) = (rest, g)" using exec_cases [OF assms(1)] .
  then have m: "(rest, g) \<in> set (matches tokenRegExp (u, []))" by (metis list.set_sel(1))
  show "group 7 g = Some v \<Longrightarrow> tag_name v \<notin> set proto_keys"
    using token_names(1) [OF m group_in [of 7 g v]] no_inherited_names(1) [of b v] assms(2) u(1) by auto
  show "group 4 g = Some v \<Longrightarrow> v \<notin> set proto_keys"
    using token_names(2) [OF m group_in [of 4 g v]] no_inherited_names(2) [of b v] assms(2) u(1) by auto
qed

lemma start_tag_total: "tag_name v \<notin> set proto_keys \<Longrightarrow> start_tag cfg (tag_name v) attribs html s \<noteq> None"
  by (auto simp: start_tag_def Let_def get_prop_def split: prod.splits option.splits)

text \<open>The names of the events.\<close>

fun plain_event :: "event \<Rightarrow> bool" where
  "plain_event (Start n _ _) = (n \<notin> set proto_keys)"
| "plain_event (PI n _) = (n \<notin> set proto_keys)"
| "plain_event _ = True"

definition plain_state :: "sax_state \<Rightarrow> bool" where
  "plain_state s \<longleftrightarrow> list_all plain_event (ss_events s)"

lemma plain_ends [simp]: "list_all plain_event (end_events st)"
  by (auto simp: end_events_def list_all_iff)

lemma plain_report [simp]: "plain_state (report es s) \<longleftrightarrow> plain_state s \<and> list_all plain_event es"
  by (simp add: plain_state_def)

lemma plain_end: "plain_state s \<Longrightarrow> plain_state (processEndTag name s)"
  using plain_report [of "end_events _" s] by (simp add: processEndTag_def plain_state_def split: list.splits)

lemma plain_text: "plain_state s \<Longrightarrow> plain_state (text_before cfg v s)"
  by (simp add: text_before_def)

lemma plain_other: "(\<And>v. group 4 g = Some v \<Longrightarrow> v \<notin> set proto_keys) \<Longrightarrow> list_all plain_event (other_token cfg g)"
  by (auto simp: other_token_def split: option.splits)

lemma plain_start:
  assumes "plain_state s" "name \<notin> set proto_keys" "start_tag cfg name attribs html s = Some (rest, t)"
  shows "plain_state t"
proof -
  let ?s = "if sx_fixSelfClosing cfg \<and> has_prop (sx_selfClosing cfg) name \<and> ss_stack s \<noteq> [] \<and> fst (hd (ss_stack s)) = name then processEndTag name s else s"
  have s: "plain_state ?s" using assms(1) plain_end by simp
  obtain valid u where u: "start_element cfg name attribs ?s = (valid, u)" by fastforce
  have "plain_state u" using u s assms(2) by (auto simp: start_element_def Let_def plain_state_def split: if_splits prod.splits)
  then have "plain_state (snd (special_element name valid html u))" "plain_state (open_element cfg name valid u)"
    by (auto simp: special_element_def open_element_def plain_state_def Let_def split: prod.splits)
  then show ?thesis using assms(3) u by (cases "get_prop (sx_special cfg) name") (auto simp: start_tag_def)
qed

lemma sax_loop_total: "no_inherited html \<Longrightarrow> plain_state s \<Longrightarrow> \<exists>t. sax_loop cfg html s = Some t \<and> plain_state t"
proof (induction cfg html s rule: sax_loop.induct)
  case (1 cfg html s)
  show ?case
  proof (cases "exec tokenRegExp html")
    case None
    then show ?thesis using plain_text [OF 1(5)] by (simp add: sax_loop.simps Let_def)
  next
    case (Some x)
    then obtain b rest g where x: "exec tokenRegExp html = Some (b, rest, g)" by (cases x) auto
    have r: "no_inherited rest" using exec_suffix [OF x] 1(4) no_inherited_suffix by blast
    let ?s = "text_before cfg b s"
    have s: "plain_state ?s" by (rule plain_text [OF 1(5)])
    show ?thesis
    proof (cases "group 6 g")
      case (Some v)
      then show ?thesis using 1(3) [OF x refl refl refl Some r plain_end [OF s]] x by (simp add: sax_loop.simps [of cfg html])
    next
      case six: None
      show ?thesis
      proof (cases "group 7 g")
        case None
        have "plain_state (report (other_token cfg g) ?s)" using s plain_other token_plain(2) [OF x 1(4)] by simp
        then show ?thesis using 1(1) [OF x refl refl refl six None r] x six None by (simp add: sax_loop.simps [of cfg html])
      next
        case (Some v)
        let ?a = "case map_of g 8 of Some a \<Rightarrow> a | None \<Rightarrow> []"
        have v: "tag_name v \<notin> set proto_keys" by (rule token_plain(1) [OF x 1(4) Some])
        then obtain rest2 s2 where st: "start_tag cfg (tag_name v) ?a rest ?s = Some (rest2, s2)" using start_tag_total by fastforce
        have "no_inherited rest2" using start_tag_suffix [OF st] r no_inherited_suffix by blast
        then show ?thesis using 1(2) [OF x refl refl refl six Some st refl _ plain_start [OF s v st]] x six Some st by (simp add: sax_loop.simps [of cfg html])
      qed
    qed
  qed
qed

text \<open>No rule of the schema renames an element to such a name.\<close>

definition plain_schema :: "dparser \<Rightarrow> bool" where
  "plain_schema p \<longleftrightarrow> (\<forall>n ru m. sc_rule (dp_schema p) n = Some ru \<longrightarrow> ru_outputName ru = Some m \<longrightarrow> m \<notin> set proto_keys)"

lemma plain_schema_name: "plain_schema p \<Longrightarrow> n \<notin> set proto_keys \<Longrightarrow> plain_name p n"
  by (auto simp: plain_schema_def plain_name_def element_rule_def output_name_def no_rule_def split: option.splits list.splits)

lemma plain_events_doc: "plain_schema p \<Longrightarrow> list_all plain_event (events_of d) \<Longrightarrow> plain_doc p d"
  by (induction d) (auto simp: plain_schema_name list_all_iff)

text \<open>C3. A text is parsed without an error unless it has a tag or a processing instruction named like a member of \<open>Object.prototype\<close>: when no angle
  bracket of the text is followed by such a name (\<open>no_inherited\<close>), no special element is one without an end tag (\<open>special_ok\<close>), and neither
  the output names of the schema (\<open>plain_schema\<close>) nor the attribute filters (\<open>plain_filters\<close>) are such names, the SAX parser reads the text as the
  events of a document, with every element closed in the right order, and the DOM parser builds a well linked tree from them and is
  back at the root at the end.\<close>

theorem text_parses_to_tree:
  assumes "special_ok cfg" "no_inherited html" "plain_schema p" "plain_filters p"
  shows "\<exists>es s ch ts. sax_parse cfg html = Some es \<and> (\<exists>ds. es = concat (map events_of ds)) \<and> on_events p es (new_state name) = Some s
    \<and> wf_heap (ps_heap s) ch \<and> tree_in ch (T 0 ts) \<and> ps_node s = Some 0"
proof -
  obtain t where t: "sax_loop cfg html sax_start = Some t" "plain_state t" using sax_loop_total [OF assms(2), of sax_start cfg] by (auto simp: plain_state_def sax_start_def)
  have "tracks sax_start" using exI [of "\<lambda>ds. [] = concat (map events_of ds)" "[]"] by (simp add: tracks_def sax_start_def)
  then obtain ds where ds: "ss_events t = concat (map events_of ds)" using sax_loop_nested [OF _ t(1) assms(1)] by blast
  then have "plain_doc p d" if "d \<in> set ds" for d using that t(2) by (intro plain_events_doc [OF assms(3)]) (auto simp: plain_state_def list_all_iff)
  then obtain s ch ts where "on_events p (concat (map events_of ds)) (new_state name) = Some s" "wf_heap (ps_heap s) ch" "tree_in ch (T 0 ts)" "ps_node s = Some 0"
    using document_builds [OF assms(4), of ds name] by blast
  moreover have "sax_parse cfg html = Some (concat (map events_of ds))" using t ds by (simp add: sax_parse_def)
  ultimately show ?thesis by blast
qed

definition demo_cfg :: sax_cfg where
  "demo_cfg = \<lparr>sx_validate = False, sx_removeInternals = False, sx_fixSelfClosing = True, sx_allowScriptUrls = False, sx_allowConditional = False,
     sx_shortEnded = [js ''br'' \<mapsto> ()], sx_selfClosing = [js ''td'' \<mapsto> ()], sx_boolAttrs = [js ''checked'' \<mapsto> ()], sx_special = [js ''script'' \<mapsto> ()],
     sx_rule = (\<lambda>_. None), sx_nativeDecode = (\<lambda>s. s)\<rparr>"

lemma plain_after_first:
  assumes "c \<notin> {0x3A, 0x3F, 0x212A}" "to_lower c \<noteq> 0x3A" "to_lower c \<notin> hd ` set proto_keys"
  shows "plain_after (c # cs)"
proof -
  have "tag_name (take n (c # cs)) \<notin> set proto_keys" for n
  proof (cases n)
    case 0
    then show ?thesis by (simp add: tag_name_def proto_keys_def js_def)
  next
    case (Suc m)
    then have "hd (tag_name (take n (c # cs))) = to_lower c" using assms(1,2) by (simp add: tag_name_def)
    then show ?thesis using assms(3) by (metis imageI)
  qed
  then show ?thesis using assms(1) by (simp add: plain_after_def list_all_iff)
qed

theorem text_parses_to_tree_witness:
  "\<exists>es s ch ts. sax_parse demo_cfg (js ''<b>constructor</a>'') = Some es \<and> (\<exists>ds. es = concat (map events_of ds))
    \<and> on_events demo_parser es (new_state (js ''body'')) = Some s \<and> wf_heap (ps_heap s) ch \<and> tree_in ch (T 0 ts) \<and> ps_node s = Some 0"
proof (rule text_parses_to_tree)
  show "special_ok demo_cfg" by (simp add: special_ok_def demo_cfg_def has_prop_def proto_keys_def js_def)
  show "no_inherited (js ''<b>constructor</a>'')" by (simp add: plain_after_first to_lower_def proto_keys_def js_def)
  show "plain_schema demo_parser" by (simp add: plain_schema_def demo_parser_def demo_rule_def no_rule_def)
  show "plain_filters demo_parser" by (simp add: plain_filters_def demo_parser_def)
qed

end
