(* ===== verification/SaxRoundtrip.thy ===== *)
theory SaxRoundtrip
  imports SaxTokens SaxNesting
begin

text \<open>
  Writing and reading again: the SAX parser reads the text \<open>classes/html/Writer.js\<close> writes for a document as the events it was written from. Together
  with \<open>ParseTree\<close> this gives the round trip of the editor: a text that the writer could have written is parsed to a tree that
  the serializer writes as the same text.
\<close>

section \<open>Documents that can be read back\<close>

definition plain_tag :: "sax_cfg \<Rightarrow> ustring \<Rightarrow> ustring \<Rightarrow> bool" where
  "plain_tag cfg parent n \<longleftrightarrow> n \<noteq> [] \<and> list_all (\<lambda>c. name_chr c \<and> to_lower c = c \<and> c \<noteq> 0x3A) n \<and> \<not> has_prop (sx_special cfg) n
     \<and> \<not> (n = parent \<and> has_prop (sx_selfClosing cfg) n)"

definition plain_attrs :: "sax_cfg \<Rightarrow> (ustring \<times> ustring) list \<Rightarrow> bool" where
  "plain_attrs cfg kvs \<longleftrightarrow> attr_names kvs \<and> list_all (\<lambda>(k, v). to_lower_case k = k \<and> \<not> has_prop (sx_boolAttrs cfg) k
     \<and> \<not> (url_attr k \<and> \<not> sx_allowScriptUrls cfg \<and> script_url v)) kvs"

definition is_text :: "hdoc \<Rightarrow> bool" where
  "is_text d = (case d of HText _ _ \<Rightarrow> True | _ \<Rightarrow> False)"

fun separate :: "hdoc list \<Rightarrow> bool" where
  "separate (d # e # ds) = (\<not> (is_text d \<and> is_text e) \<and> separate (e # ds))"
| "separate _ = True"

fun readable :: "sax_cfg \<Rightarrow> ustring \<Rightarrow> hdoc \<Rightarrow> bool" where
  "readable cfg parent (HElem n a ds) = (plain_tag cfg parent n \<and> plain_attrs cfg a \<and> \<not> has_prop (sx_shortEnded cfg) n
     \<and> (\<forall>d \<in> set ds. readable cfg n d) \<and> separate ds)"
| "readable cfg parent (HVoid n a) = (plain_tag cfg parent n \<and> plain_attrs cfg a \<and> has_prop (sx_shortEnded cfg) n)"
| "readable cfg parent (HText v raw) = (v \<noteq> [] \<and> \<not> raw)"
| "readable cfg parent (HCData v) = (case v of Some u \<Rightarrow> u \<noteq> [] \<and> uncut (js '']]>'') u | None \<Rightarrow> False)"
| "readable cfg parent (HComment v) = (case v of Some u \<Rightarrow> u \<noteq> [] \<and> uncut (js ''-->'') u \<and> comment_text cfg u = u | None \<Rightarrow> False)"
| "readable cfg parent (HPI n v) = (case v of Some u \<Rightarrow> u \<noteq> [] \<and> n \<noteq> [] \<and> list_all pi_chr n \<and> uncut (js ''?>'') u \<and> uncut (js ''/>'') (u @ js ''?'')
     | None \<Rightarrow> False)"
| "readable cfg parent (HDoctype v) = (case v of Some u \<Rightarrow> u \<noteq> [] \<and> uncut (js ''>'') u | None \<Rightarrow> False)"

text \<open>The text the writer makes of a document when it does not indent.\<close>

definition doc_text :: "writer \<Rightarrow> hdoc \<Rightarrow> ustring" where
  "doc_text w d = concat (map (render w) (events_of d))"

definition docs_text :: "writer \<Rightarrow> hdoc list \<Rightarrow> ustring" where
  "docs_text w ds = concat (map (doc_text w) ds)"

lemma docs_text_simps [simp]: "docs_text w [] = []" "docs_text w (d # ds) = doc_text w d @ docs_text w ds"
  by (simp_all add: docs_text_def)

lemma render_forest: "concat (map (render w) (concat (map events_of ds))) = docs_text w ds"
  by (induction ds) (simp_all add: doc_text_def)

lemma attr_chunks_text: "concat (attr_chunks w kvs) = attr_text (wr_encode w) kvs"
  by (induction kvs) (simp_all add: attr_chunks_def attr_text_def js_def split: prod.splits)

lemma doc_text_simps:
  "doc_text w (HElem n a ds) = js ''<'' @ n @ (attr_text (wr_encode w) a @ tag_tail False) @ js ''>'' @ docs_text w ds @ js ''</'' @ n @ js ''>''"
  "doc_text w (HVoid n a) = js ''<'' @ n @ (attr_text (wr_encode w) a @ tag_tail (\<not> wr_htmlOutput w)) @ js ''>''"
  "v \<noteq> [] \<Longrightarrow> doc_text w (HText v False) = wr_encode w v False"
  "doc_text w (HCData (Some u)) = js ''<![CDATA['' @ u @ js '']]>''"
  "doc_text w (HComment (Some u)) = js ''<!--'' @ u @ js ''-->''"
  "doc_text w (HDoctype (Some u)) = js ''<!DOCTYPE'' @ u @ js ''>''"
  "u \<noteq> [] \<Longrightarrow> doc_text w (HPI n (Some u)) = js ''<?'' @ n @ js '' '' @ u @ js ''?>''"
  by (simp_all add: doc_text_def render_def start_def end_tag_def text_out_def cdata_def comment_def doctype_def pi_def chunk_def
      attr_chunks_text tag_tail_def js_def Let_def render_forest)

section \<open>Reading one node\<close>

text \<open>The end of a document, or a token right at the start.\<close>

definition front :: "ustring \<Rightarrow> bool" where
  "front h \<longleftrightarrow> h = [] \<or> (\<exists>rest g. exec tokenRegExp h = Some ([], rest, g))"

text \<open>After \<open>x\<close> the parser goes on with \<open>h\<close>, with the same open elements and the events \<open>es\<close> more.\<close>

definition reads :: "sax_cfg \<Rightarrow> ustring \<Rightarrow> ustring \<Rightarrow> event list \<Rightarrow> ustring \<Rightarrow> bool" where
  "reads cfg parent x es h \<longleftrightarrow> (\<forall>s. (ss_stack s \<noteq> [] \<longrightarrow> fst (hd (ss_stack s)) = parent) \<longrightarrow>
     (\<exists>a i n. sax_loop cfg (x @ h) s = sax_loop cfg h (s\<lparr>ss_events := ss_events s @ es, ss_attribsValue := a, ss_isInternal := i, ss_idCount := n\<rparr>)))"

lemma readsI:
  assumes "\<And>s. (ss_stack s \<noteq> [] \<Longrightarrow> fst (hd (ss_stack s)) = parent) \<Longrightarrow>
     \<exists>a i n. sax_loop cfg (x @ h) s = sax_loop cfg h (s\<lparr>ss_events := ss_events s @ es, ss_attribsValue := a, ss_isInternal := i, ss_idCount := n\<rparr>)"
  shows "reads cfg parent x es h"
  using assms unfolding reads_def by blast

lemma readsD:
  "reads cfg parent x es h \<Longrightarrow> (ss_stack s \<noteq> [] \<Longrightarrow> fst (hd (ss_stack s)) = parent) \<Longrightarrow>
     \<exists>a i n. sax_loop cfg (x @ h) s = sax_loop cfg h (s\<lparr>ss_events := ss_events s @ es, ss_attribsValue := a, ss_isInternal := i, ss_idCount := n\<rparr>)"
  unfolding reads_def by blast

lemma reads_append:
  assumes "reads cfg parent x es (y @ h)" "reads cfg parent y fs h"
  shows "reads cfg parent (x @ y) (es @ fs) h"
proof (rule readsI)
  fix s :: sax_state assume s: "ss_stack s \<noteq> [] \<Longrightarrow> fst (hd (ss_stack s)) = parent"
  obtain a i n where 1: "sax_loop cfg (x @ y @ h) s = sax_loop cfg (y @ h) (s\<lparr>ss_events := ss_events s @ es, ss_attribsValue := a, ss_isInternal := i, ss_idCount := n\<rparr>)"
    using readsD [OF assms(1) s] by blast
  obtain a' i' n' where "sax_loop cfg (y @ h) (s\<lparr>ss_events := ss_events s @ es, ss_attribsValue := a, ss_isInternal := i, ss_idCount := n\<rparr>)
     = sax_loop cfg h (s\<lparr>ss_events := ss_events s @ es @ fs, ss_attribsValue := a', ss_isInternal := i', ss_idCount := n'\<rparr>)"
    using readsD [OF assms(2), of "s\<lparr>ss_events := ss_events s @ es, ss_attribsValue := a, ss_isInternal := i, ss_idCount := n\<rparr>"] s by auto
  with 1 show "\<exists>a i n. sax_loop cfg ((x @ y) @ h) s
      = sax_loop cfg h (s\<lparr>ss_events := ss_events s @ es @ fs, ss_attribsValue := a, ss_isInternal := i, ss_idCount := n\<rparr>)" by auto
qed

lemma reads_nil: "reads cfg parent [] [] h"
proof (rule readsI)
  fix s :: sax_state
  have "sax_loop cfg ([] @ h) s = sax_loop cfg h (s\<lparr>ss_events := ss_events s @ [], ss_attribsValue := ss_attribsValue s, ss_isInternal := ss_isInternal s,
      ss_idCount := ss_idCount s\<rparr>)" by simp
  then show "\<exists>a i n. sax_loop cfg ([] @ h) s = sax_loop cfg h (s\<lparr>ss_events := ss_events s @ [], ss_attribsValue := a, ss_isInternal := i, ss_idCount := n\<rparr>)"
    by blast
qed

text \<open>A token that only reports events.\<close>

lemma reads_other:
  assumes "fm tokenRegExp (x @ h, []) (h, g)" "group 6 g = None" "group 7 g = None" "other_token cfg g = es"
  shows "reads cfg parent x es h"
proof (rule readsI)
  fix s :: sax_state
  have "sax_loop cfg (x @ h) s = sax_loop cfg h (report es s)"
    using exec_here [OF assms(1)] assms(2-4) by (subst sax_loop.simps) (simp add: text_before_def)
  also have "report es s = s\<lparr>ss_events := ss_events s @ es, ss_attribsValue := ss_attribsValue s, ss_isInternal := ss_isInternal s, ss_idCount := ss_idCount s\<rparr>"
    by (simp add: report_def)
  finally show "\<exists>a i n. sax_loop cfg (x @ h) s = sax_loop cfg h (s\<lparr>ss_events := ss_events s @ es, ss_attribsValue := a, ss_isInternal := i, ss_idCount := n\<rparr>)"
    by blast
qed

text \<open>A text is read together with what follows it.\<close>

lemma reads_text:
  assumes "v \<noteq> []" "0x3C \<notin> set v" "front h"
  shows "reads cfg parent v [Text (decode (sx_nativeDecode cfg) v) False] h"
proof (rule readsI)
  fix s :: sax_state
  let ?s = "report [Text (decode (sx_nativeDecode cfg) v) False] s"
  have tb: "text_before cfg v s = ?s" "text_before cfg [] ?s = ?s" using assms(1) by (simp_all add: text_before_def)
  have "sax_loop cfg (v @ h) s = sax_loop cfg h ?s"
  proof (cases "h = []")
    case True
    then show ?thesis using exec_text_none [OF assms(2)] exec_text_none [of "[]"] tb
      by (simp add: sax_loop.simps [of cfg v s] sax_loop.simps [of cfg "[]" ?s] Let_def)
  next
    case False
    then obtain rest g where "exec tokenRegExp h = Some ([], rest, g)" using assms(3) by (auto simp: front_def)
    then show ?thesis using exec_text [OF assms(2), of h] tb
      by (simp add: sax_loop.simps [of cfg "v @ h" s] sax_loop.simps [of cfg h ?s] Let_def cong: option.case_cong)
  qed
  also have "?s = s\<lparr>ss_events := ss_events s @ [Text (decode (sx_nativeDecode cfg) v) False], ss_attribsValue := ss_attribsValue s,
      ss_isInternal := ss_isInternal s, ss_idCount := ss_idCount s\<rparr>" by (simp add: report_def)
  finally show "\<exists>a i n. sax_loop cfg (v @ h) s
      = sax_loop cfg h (s\<lparr>ss_events := ss_events s @ [Text (decode (sx_nativeDecode cfg) v) False], ss_attribsValue := a, ss_isInternal := i, ss_idCount := n\<rparr>)"
    by blast
qed

section \<open>Encoders\<close>

text \<open>What the writer and the parser rely on: decoding undoes the encoder, and it leaves no markup in a text and no quote in a value.\<close>

locale html_encoder =
  fixes enc :: "ustring \<Rightarrow> bool \<Rightarrow> ustring" and nd :: "ustring \<Rightarrow> ustring"
  assumes decode_enc: "decode nd (enc v b) = v"
    and no_markup: "0x3C \<notin> set (enc v b)"
    and no_quote: "0x22 \<notin> set (enc v True)"
begin

lemma enc_not_nil: "v \<noteq> [] \<Longrightarrow> enc v b \<noteq> []"
  using decode_enc [of v b] by (cases "enc v b") auto

lemma attr_value_enc: "\<not> has_prop (sx_boolAttrs cfg) k \<Longrightarrow> sx_nativeDecode cfg = nd \<Longrightarrow> attr_value cfg k [(2, enc v True), (1, k)] = v"
  using decode_enc [of v True] by (cases "enc v True") (auto simp: attr_value_def group_def)

lemma parse_attrs:
  assumes "plain_attrs cfg kvs" "sx_nativeDecode cfg = nd" "\<not> sx_validate cfg"
  shows "fold (parseAttribute cfg rule internal) (all_groups attrRegExp (attr_text enc kvs @ tag_tail slash)) [] = kvs"
proof -
  have one: "parseAttribute cfg rule internal [(2, enc v True), (1, k)] l = l @ [(k, v)]"
    if "to_lower_case k = k" "\<not> has_prop (sx_boolAttrs cfg) k" "\<not> (url_attr k \<and> \<not> sx_allowScriptUrls cfg \<and> script_url v)" for k v l
    using that attr_value_enc [OF that(2) assms(2), of v] assms(3) by (simp add: parseAttribute_def Let_def)
  have "fold (parseAttribute cfg rule internal) (map (\<lambda>(k, v). [(2, enc v True), (1, k)]) xs) l = l @ xs"
    if "list_all (\<lambda>(k, v). to_lower_case k = k \<and> \<not> has_prop (sx_boolAttrs cfg) k \<and> \<not> (url_attr k \<and> \<not> sx_allowScriptUrls cfg \<and> script_url v)) xs" for xs l
    using that
  proof (induction xs arbitrary: l)
    case (Cons x xs)
    obtain k v where x: "x = (k, v)" by fastforce
    have "parseAttribute cfg rule internal [(2, enc v True), (1, k)] l = l @ [(k, v)]" using Cons.prems one [of k v l] by (simp add: x)
    then show ?case using Cons by (simp add: x)
  qed simp
  then show ?thesis using assms(1) all_attrs [of kvs enc slash] no_quote by (simp add: plain_attrs_def)
qed

lemma plain_tag_name: "plain_tag cfg parent n \<Longrightarrow> tag_name n = n \<and> list_all name_chr n \<and> 0x3E \<notin> set n \<and> n \<noteq> []"
proof -
  assume a: "plain_tag cfg parent n"
  have "(if c = 0x212A then 0x6B else to_lower c) = c" if "c \<in> set n" for c
    using that a by (auto simp: plain_tag_def list_all_iff name_chr_def word_le_nat_alt)
  then have "map (\<lambda>c. if c = 0x212A then 0x6B else to_lower c) n = n" by (simp add: map_idI)
  then show ?thesis using a by (cases n) (auto simp: tag_name_def plain_tag_def list_all_iff name_chr_def)
qed

text \<open>A start tag: the state after it.\<close>

lemma read_start:
  assumes "plain_tag cfg parent n" "plain_attrs cfg kvs" "sx_nativeDecode cfg = nd" "\<not> sx_validate cfg" "\<not> sx_removeInternals cfg"
    and "ss_stack s \<noteq> [] \<Longrightarrow> fst (hd (ss_stack s)) = parent"
  shows "\<exists>a i m. a = attr_text enc kvs @ tag_tail slash \<and> sax_loop cfg (js ''<'' @ n @ (attr_text enc kvs @ tag_tail slash) @ js ''>'' @ h) s
    = sax_loop cfg h (open_element cfg n True (s\<lparr>ss_events := ss_events s @ [Start n (Some kvs) (has_prop (sx_shortEnded cfg) n)], ss_attribsValue := a,
        ss_isInternal := i, ss_idCount := m\<rparr>))"
proof -
  let ?a = "attr_text enc kvs @ tag_tail slash"
  note nm = plain_tag_name [OF assms(1)]
  have names: "attr_names kvs" using assms(2) by (simp add: plain_attrs_def)
  have tok: "exec tokenRegExp (js ''<'' @ n @ ?a @ js ''>'' @ h) = Some ([], h, [(8, ?a), (7, n)])"
    using exec_here [OF fm_start [of n kvs enc slash h]] nm names no_quote by simp
  have close: "\<not> (sx_fixSelfClosing cfg \<and> has_prop (sx_selfClosing cfg) n \<and> ss_stack s \<noteq> [] \<and> fst (hd (ss_stack s)) = n)"
    using assms(1,6) by (auto simp: plain_tag_def)
  have spec: "get_prop (sx_special cfg) n = Undefined" using assms(1) by (simp add: plain_tag_def get_prop_Undefined)
  have attrs: "element_attrs cfg (sx_rule cfg n) i ?a m = (True, kvs, m)" for i m
    using parse_attrs [OF assms(2-4)] assms(4,5) by (simp add: element_attrs_def split: option.splits)
  have st: "start_tag cfg n ?a h s = Some (h, open_element cfg n True (s\<lparr>ss_events := ss_events s @ [Start n (Some kvs) (has_prop (sx_shortEnded cfg) n)],
      ss_attribsValue := ?a, ss_isInternal := internal_element ?a s, ss_idCount := ss_idCount s\<rparr>))"
  proof -
    let ?i = "internal_element ?a s"
    have "report [Start n (Some kvs) (has_prop (sx_shortEnded cfg) n)] (s\<lparr>ss_attribsValue := ?a, ss_isInternal := ?i, ss_idCount := ss_idCount s\<rparr>)
      = s\<lparr>ss_events := ss_events s @ [Start n (Some kvs) (has_prop (sx_shortEnded cfg) n)], ss_attribsValue := ?a, ss_isInternal := ?i, ss_idCount := ss_idCount s\<rparr>"
      by (rule sax_state.equality) (simp_all add: report_def)
    moreover have "start_element cfg n ?a s = (True, report [Start n (Some kvs) (has_prop (sx_shortEnded cfg) n)]
        (s\<lparr>ss_attribsValue := ?a, ss_isInternal := ?i, ss_idCount := ss_idCount s\<rparr>))"
      using assms(4) attrs [of ?i "ss_idCount s"] unfolding start_element_def Let_def by simp
    ultimately show ?thesis using spec unfolding start_tag_def if_not_P [OF close] Let_def by simp
  qed
  obtain c cs where c: "n = c # cs" using nm by (cases n) auto
  have g: "group 6 [(8, ?a), (7, n)] = None" "group 7 [(8, ?a), (7, n)] = Some n" "map_of [(8, ?a), (7, n)] 8 = Some ?a"
    by (simp_all add: group_def c)
  have "sax_loop cfg (js ''<'' @ n @ ?a @ js ''>'' @ h) s = sax_loop cfg h (open_element cfg n True
     (s\<lparr>ss_events := ss_events s @ [Start n (Some kvs) (has_prop (sx_shortEnded cfg) n)], ss_attribsValue := ?a, ss_isInternal := internal_element ?a s,
        ss_idCount := ss_idCount s\<rparr>))"
    by (subst sax_loop.simps) (simp add: tok g st nm text_before_def Let_def del: append_assoc)
  then show ?thesis by blast
qed

lemma not_slash_last: "\<not> slash_last (attr_text enc kvs) \<or> attr_text enc kvs = []"
proof (cases kvs rule: rev_cases)
  case (snoc xs kv)
  then obtain k v where "attr_text enc kvs = (attr_text enc xs @ js '' '' @ k @ [0x3D, 0x22] @ enc v True) @ [0x22]"
    by (cases kv) (simp add: attr_text_def)
  then obtain ys where ys: "attr_text enc kvs = ys @ [0x22]" by blast
  show ?thesis
  proof (cases "0x2F \<in> set ys")
    case True
    then obtain us vs where "ys = us @ 0x2F # vs" using split_list by metis
    then have "length (takeWhile (\<lambda>c. c \<noteq> 0x2F) (ys @ [0x22])) \<le> length us"
      by (simp add: takeWhile_append length_takeWhile_le)
    then have "length (takeWhile (\<lambda>c. c \<noteq> 0x2F) (ys @ [0x22])) < length ys" using \<open>ys = us @ 0x2F # vs\<close> by simp
    then show ?thesis by (simp add: ys slash_last_def)
  next
    case False
    then have "takeWhile (\<lambda>c. c \<noteq> 0x2F) (ys @ [0x22]) = ys @ [0x22]" by (intro takeWhile_eq_all_conv [THEN iffD2]) auto
    then show ?thesis by (simp add: ys slash_last_def)
  qed
qed (simp add: attr_text_def)

lemma reads_void:
  assumes "plain_tag cfg parent n" "plain_attrs cfg kvs" "sx_nativeDecode cfg = nd" "\<not> sx_validate cfg" "\<not> sx_removeInternals cfg" "has_prop (sx_shortEnded cfg) n"
  shows "reads cfg parent (js ''<'' @ n @ (attr_text enc kvs @ tag_tail slash) @ js ''>'') [Start n (Some kvs) True] h"
proof (rule readsI)
  fix s :: sax_state assume s: "ss_stack s \<noteq> [] \<Longrightarrow> fst (hd (ss_stack s)) = parent"
  from read_start [OF assms(1-5) s, of slash h] show "\<exists>a i m. sax_loop cfg ((js ''<'' @ n @ (attr_text enc kvs @ tag_tail slash) @ js ''>'') @ h) s
      = sax_loop cfg h (s\<lparr>ss_events := ss_events s @ [Start n (Some kvs) True], ss_attribsValue := a, ss_isInternal := i, ss_idCount := m\<rparr>)"
    using assms(6) by (auto simp: open_element_def)
qed

lemma reads_element:
  assumes "plain_tag cfg parent n" "plain_attrs cfg kvs" "sx_nativeDecode cfg = nd" "\<not> sx_validate cfg" "\<not> sx_removeInternals cfg" "\<not> has_prop (sx_shortEnded cfg) n"
    and "reads cfg n x es (js ''</'' @ n @ js ''>'' @ h)"
  shows "reads cfg parent (js ''<'' @ n @ (attr_text enc kvs @ tag_tail False) @ js ''>'' @ x @ js ''</'' @ n @ js ''>'') (Start n (Some kvs) False # es @ [End n]) h"
proof (rule readsI)
  fix s :: sax_state assume s: "ss_stack s \<noteq> [] \<Longrightarrow> fst (hd (ss_stack s)) = parent"
  let ?h = "js ''</'' @ n @ js ''>'' @ h"
  obtain i m where 1: "sax_loop cfg (js ''<'' @ n @ (attr_text enc kvs @ tag_tail False) @ js ''>'' @ x @ ?h) s
    = sax_loop cfg (x @ ?h) (open_element cfg n True (s\<lparr>ss_events := ss_events s @ [Start n (Some kvs) False], ss_attribsValue := attr_text enc kvs @ tag_tail False,
        ss_isInternal := i, ss_idCount := m\<rparr>))"
    using read_start [OF assms(1-5) s, of False "x @ ?h"] assms(6) by auto
  let ?s = "s\<lparr>ss_stack := (n, True) # ss_stack s, ss_events := ss_events s @ [Start n (Some kvs) False], ss_attribsValue := attr_text enc kvs, ss_isInternal := i, ss_idCount := m\<rparr>"
  have opn: "open_element cfg n True (s\<lparr>ss_events := ss_events s @ [Start n (Some kvs) False], ss_attribsValue := attr_text enc kvs @ tag_tail False,
        ss_isInternal := i, ss_idCount := m\<rparr>) = ?s"
    using assms(6) not_slash_last [of kvs] by (auto simp: open_element_def tag_tail_def)
  obtain a2 i2 m2 where 2: "sax_loop cfg (x @ ?h) ?s = sax_loop cfg ?h (?s\<lparr>ss_events := ss_events ?s @ es, ss_attribsValue := a2, ss_isInternal := i2, ss_idCount := m2\<rparr>)"
    using readsD [OF assms(7), of ?s] by auto
  let ?u = "?s\<lparr>ss_events := ss_events ?s @ es, ss_attribsValue := a2, ss_isInternal := i2, ss_idCount := m2\<rparr>"
  note nm = plain_tag_name [OF assms(1)]
  obtain c cs where c: "n = c # cs" using nm by (cases n) auto
  have "exec tokenRegExp ?h = Some ([], h, [(6, n)])" using exec_here [OF fm_end [of n h]] nm by blast
  moreover have "group 6 [(6, n)] = Some n" by (simp add: group_def c)
  ultimately have "sax_loop cfg ?h ?u = sax_loop cfg h (processEndTag n ?u)"
    using nm by (subst sax_loop.simps) (simp add: text_before_def)
  moreover have "processEndTag n ?u = s\<lparr>ss_events := ss_events s @ (Start n (Some kvs) False # es @ [End n]), ss_attribsValue := a2, ss_isInternal := i2, ss_idCount := m2\<rparr>"
    by (simp add: processEndTag_def report_def end_events_def)
  ultimately have "sax_loop cfg ((js ''<'' @ n @ (attr_text enc kvs @ tag_tail False) @ js ''>'' @ x @ js ''</'' @ n @ js ''>'') @ h) s
      = sax_loop cfg h (s\<lparr>ss_events := ss_events s @ (Start n (Some kvs) False # es @ [End n]), ss_attribsValue := a2, ss_isInternal := i2, ss_idCount := m2\<rparr>)"
    using 1 opn 2 by simp
  then show "\<exists>a i m. sax_loop cfg ((js ''<'' @ n @ (attr_text enc kvs @ tag_tail False) @ js ''>'' @ x @ js ''</'' @ n @ js ''>'') @ h) s
      = sax_loop cfg h (s\<lparr>ss_events := ss_events s @ (Start n (Some kvs) False # es @ [End n]), ss_attribsValue := a, ss_isInternal := i, ss_idCount := m\<rparr>)" by blast
qed

text \<open>The other nodes, and whole documents.\<close>

definition encoded_by :: "writer \<Rightarrow> sax_cfg \<Rightarrow> bool" where
  "encoded_by w cfg \<longleftrightarrow> wr_encode w = enc \<and> sx_nativeDecode cfg = nd \<and> \<not> sx_validate cfg \<and> \<not> sx_removeInternals cfg"

lemma group_single: "v \<noteq> [] \<Longrightarrow> group k [(k, v)] = Some v" "k \<noteq> j \<Longrightarrow> group j [(k, v)] = None"
  by (cases v) (auto simp: group_def)

lemma reads_leaf:
  assumes "readable cfg parent d" "\<not> is_text d" "\<And>n a ds. d \<noteq> HElem n a ds" "\<And>n a. d \<noteq> HVoid n a"
  shows "reads cfg parent (doc_text w d) (events_of d) h"
proof (cases d)
  case (HCData v)
  then obtain u where u: "v = Some u" "u \<noteq> []" "uncut (js '']]>'') u" using assms(1) by (auto split: option.splits)
  show ?thesis unfolding HCData u(1) doc_text_simps
    by (rule reads_other) (use fm_cdata [OF u(3)] group_single(1) [OF u(2)] in \<open>auto simp: group_single other_token_def\<close>)
next
  case (HComment v)
  then obtain u where u: "v = Some u" "u \<noteq> []" "uncut (js ''-->'') u" "comment_text cfg u = u" using assms(1) by (auto split: option.splits)
  show ?thesis unfolding HComment u(1) doc_text_simps
    by (rule reads_other) (use fm_comment [OF u(3)] group_single(1) [OF u(2)] u(4) in \<open>auto simp: group_single other_token_def\<close>)
next
  case (HDoctype v)
  then obtain u where u: "v = Some u" "u \<noteq> []" "uncut (js ''>'') u" using assms(1) by (auto split: option.splits)
  show ?thesis unfolding HDoctype u(1) doc_text_simps
    by (rule reads_other) (use fm_doctype [OF u(3)] group_single(1) [OF u(2)] in \<open>auto simp: group_single other_token_def\<close>)
next
  case (HPI n v)
  then obtain u where u: "v = Some u" "u \<noteq> []" "n \<noteq> []" "list_all pi_chr n" "uncut (js ''?>'') u" "uncut (js ''/>'') (u @ js ''?'')"
    using assms(1) by (auto split: option.splits)
  show ?thesis unfolding HPI u(1) doc_text_simps(7) [OF u(2)]
  proof (rule reads_other)
    show "fm tokenRegExp ((js ''<?'' @ n @ js '' '' @ u @ js ''?>'') @ h, []) (h, [(5, u), (4, n)])" using fm_pi [OF u(3-6)] by simp
    show "other_token cfg [(5, u), (4, n)] = events_of (HPI n (Some u))" using u(3) by (cases n) (simp_all add: other_token_def group_def)
  qed (simp_all add: group_def)
qed (use assms in \<open>auto simp: is_text_def\<close>)

lemma readable_front:
  assumes "readable cfg parent d" "\<not> is_text d" "wr_encode w = enc"
  shows "front (doc_text w d @ h)"
proof -
  have "\<exists>rest g. fm tokenRegExp (doc_text w d @ h, []) (rest, g)"
  proof (cases d)
    case (HElem n a ds)
    then have n: "tag_name n = n \<and> list_all name_chr n \<and> 0x3E \<notin> set n \<and> n \<noteq> []" "attr_names a"
      using assms(1) plain_tag_name by (auto simp: plain_attrs_def)
    show ?thesis unfolding HElem doc_text_simps assms(3) using fm_start [of n a enc False "docs_text w ds @ js ''</'' @ n @ js ''>'' @ h"] n no_quote by auto
  next
    case (HVoid n a)
    then have n: "tag_name n = n \<and> list_all name_chr n \<and> 0x3E \<notin> set n \<and> n \<noteq> []" "attr_names a"
      using assms(1) plain_tag_name by (auto simp: plain_attrs_def)
    show ?thesis unfolding HVoid doc_text_simps assms(3) using fm_start [of n a enc "\<not> wr_htmlOutput w" h] n no_quote by auto
  next
    case (HCData v)
    then show ?thesis using assms(1) fm_cdata [of _ h] by (auto simp: doc_text_simps split: option.splits)
  next
    case (HComment v)
    then show ?thesis using assms(1) fm_comment [of _ h] by (auto simp: doc_text_simps split: option.splits)
  next
    case (HDoctype v)
    then show ?thesis using assms(1) fm_doctype [of _ h] by (auto simp: doc_text_simps split: option.splits)
  next
    case (HPI n v)
    then show ?thesis using assms(1) fm_pi [of n _ h] by (auto simp: doc_text_simps split: option.splits)
  qed (use assms(2) in \<open>simp add: is_text_def\<close>)
  then show ?thesis using exec_here by (auto simp: front_def)
qed

lemma end_front: "plain_tag cfg parent n \<Longrightarrow> front (js ''</'' @ n @ js ''>'' @ h)"
  using fm_end [of n h] plain_tag_name exec_here by (metis front_def)

text \<open>A list of nodes, when its nodes can be read.\<close>

lemma reads_forest:
  assumes "\<And>d h. d \<in> set ds \<Longrightarrow> is_text d \<longrightarrow> front h \<Longrightarrow> reads cfg parent (doc_text w d) (events_of d) h"
    and "\<And>d. d \<in> set ds \<Longrightarrow> readable cfg parent d" "wr_encode w = enc" "separate ds" "front h"
  shows "reads cfg parent (docs_text w ds) (concat (map events_of ds)) h"
  using assms
proof (induction ds)
  case Nil
  show ?case by (simp add: reads_nil)
next
  case (Cons d ds)
  have rest: "reads cfg parent (docs_text w ds) (concat (map events_of ds)) h" using Cons by (cases ds) (auto simp: reads_nil)
  have "front (docs_text w ds @ h)" if "is_text d"
    using that Cons.prems(2-5) readable_front [of cfg parent _ w] by (cases ds) auto
  then have "reads cfg parent (doc_text w d) (events_of d) (docs_text w ds @ h)" using Cons.prems(1) [of d] by simp
  from reads_append [OF this rest] show ?case by simp
qed

lemma reads_doc:
  assumes "encoded_by w cfg"
  shows "readable cfg parent d \<Longrightarrow> is_text d \<longrightarrow> front h \<Longrightarrow> reads cfg parent (doc_text w d) (events_of d) h"
proof (induction d arbitrary: parent h)
  case (HElem n a ds)
  note e = assms [unfolded encoded_by_def]
  have t: "plain_tag cfg parent n" "plain_attrs cfg a" "\<not> has_prop (sx_shortEnded cfg) n" "separate ds" "\<And>d. d \<in> set ds \<Longrightarrow> readable cfg n d"
    using HElem.prems(1) by simp_all
  have "reads cfg n (docs_text w ds) (concat (map events_of ds)) (js ''</'' @ n @ js ''>'' @ h)"
    using reads_forest [of ds cfg n w] HElem.IH t(4,5) end_front [OF t(1)] e by blast
  from reads_element [OF t(1,2) _ _ _ t(3) this] show ?case using e by (simp add: doc_text_simps)
next
  case (HVoid n a)
  then show ?case using assms reads_void [of cfg parent n a "\<not> wr_htmlOutput w" h] by (simp add: doc_text_simps encoded_by_def)
next
  case (HText v raw)
  then show ?case using assms reads_text [of "enc v False" h cfg parent] enc_not_nil [of v False] no_markup [of v False] decode_enc [of v False]
    by (simp add: doc_text_simps encoded_by_def is_text_def)
next
  case (HCData v)
  then show ?case by (intro reads_leaf) (simp_all add: is_text_def)
next
  case (HComment v)
  then show ?case by (intro reads_leaf) (simp_all add: is_text_def)
next
  case (HPI n v)
  then show ?case by (intro reads_leaf) (simp_all add: is_text_def)
next
  case (HDoctype v)
  then show ?case by (intro reads_leaf) (simp_all add: is_text_def)
qed

lemma docs_read_back:
  assumes "encoded_by w cfg" "\<And>d. d \<in> set ds \<Longrightarrow> readable cfg [] d" "separate ds"
  shows "sax_parse cfg (docs_text w ds) = Some (concat (map events_of ds))"
proof -
  have "reads cfg [] (docs_text w ds) (concat (map events_of ds)) []"
    using assms reads_doc [OF assms(1)] by (intro reads_forest) (auto simp: encoded_by_def front_def)
  from readsD [OF this, of sax_start] obtain a i n where "sax_loop cfg (docs_text w ds) sax_start
      = sax_loop cfg [] (sax_start\<lparr>ss_events := concat (map events_of ds), ss_attribsValue := a, ss_isInternal := i, ss_idCount := n\<rparr>)"
    by (auto simp: sax_start_def)
  then show ?thesis using exec_text_none [of "[]"]
    by (simp add: sax_parse_def sax_loop.simps [of cfg "[]"] text_before_def sax_start_def report_def end_events_def Let_def)
qed

end

section \<open>The encoders of the editor\<close>

interpretation raw_html: html_encoder encodeRaw nd
proof
  show "decode nd (encodeRaw v b) = v" for v b using decode_encodeRaw by blast
  show "0x3C \<notin> set (encodeRaw v b)" for v b using encoders_avoid [of "0x3C" b v] markup_in_chars by (cases b) (auto simp: chars_def text_chars_def)
  show "0x22 \<notin> set (encodeRaw v True)" for v using encoders_avoid [of "0x22" True v] markup_in_chars by auto
qed

interpretation named_html: html_encoder "\<lambda>v b. encodeNamed v b None" nd
proof
  show "decode nd (encodeNamed v b None) = v" for v b
    using named.decode_replace [of v nd b] by (simp add: encodeNamed_def Let_def list_all_iff del: decode.simps)
  show "0x3C \<notin> set (encodeNamed v b None)" for v b using encoders_avoid(3) [of "0x3C" b v] by (cases b) (auto simp: chars_def text_chars_def attrs_chars_def)
  show "0x22 \<notin> set (encodeNamed v True None)" for v using encoders_avoid(3) [of "0x22" True v] markup_in_chars by auto
qed

definition editor_encoder :: "writer \<Rightarrow> bool" where
  "editor_encoder w \<longleftrightarrow> wr_encode w = encodeRaw \<or> wr_encode w = (\<lambda>v b. encodeNamed v b None)"

lemma written_docs:
  assumes "\<not> wr_indent w" "last_opt (docs_text w ds) \<noteq> Some 0x0A"
  shows "getContent (emit_all w (concat (map events_of ds)) []) = docs_text w ds"
proof -
  have "plain w = w" using assms(1) by (simp add: plain_def)
  then have "concat (emit_all w (concat (map events_of ds)) []) = docs_text w ds"
    using emit_all_plain [of w "concat (map events_of ds)" "[]"] by (simp add: render_forest)
  then show ?thesis using assms(2) by (simp add: getContent_def)
qed

text \<open>C2. The text of a document survives the editor: a text that the writer makes of a document whose nodes the schema allows as they are, none
  of them named like a member of \<open>Object.prototype\<close>, is read by the SAX parser as the events of the document, the DOM parser builds a tree of them, and the serializer writes exactly the same
  text again; with the raw and with the named encoder, and for elements, attributes, texts, comments, CDATA sections, processing
  instructions and document types.\<close>

theorem html_text_roundtrip:
  assumes "editor_encoder w" "\<not> wr_indent w" "sz_writer sz = w" "\<not> sz_validate sz"
    and "\<not> sx_validate cfg" "\<not> sx_removeInternals cfg"
    and "dp_nodeFilters p = []" "dp_attributeFilters p = []" "dp_forced_root_block p = None"
    and "\<And>d. d \<in> set ds \<Longrightarrow> readable cfg [] d \<and> tidy p (dp_root_name p) d" "separate ds" "last_opt (docs_text w ds) \<noteq> Some 0x0A"
    and "html = getContent (emit_all w (concat (map events_of ds)) [])"
  shows "\<exists>es s. sax_parse cfg html = Some es \<and> es = concat (map events_of ds)
    \<and> parse p \<lparr>pa_context = None, pa_isRootContent = b, pa_forced_root_block = None\<rparr> es = Some (0, s, False)
    \<and> serialize sz (ps_heap s) 0 out = Some html"
proof -
  have html: "html = docs_text w ds" using assms(2,12,13) written_docs by simp
  have r: "\<And>d. d \<in> set ds \<Longrightarrow> readable cfg [] d" "\<And>d. d \<in> set ds \<Longrightarrow> tidy p (dp_root_name p) d" using assms(10) by blast+
  have "sax_parse cfg html = Some (concat (map events_of ds))"
    using assms(1) unfolding editor_encoder_def
  proof
    assume "wr_encode w = encodeRaw"
    then have "raw_html.encoded_by (sx_nativeDecode cfg) w cfg" using assms(5,6) by (simp add: raw_html.encoded_by_def)
    from raw_html.docs_read_back [OF this r(1) assms(11)] show ?thesis by (simp add: html)
  next
    assume "wr_encode w = (\<lambda>v b. encodeNamed v b None)"
    then have "named_html.encoded_by (sx_nativeDecode cfg) w cfg" using assms(5,6) by (simp add: named_html.encoded_by_def)
    from named_html.docs_read_back [OF this r(1) assms(11)] show ?thesis by (simp add: html)
  qed
  then show ?thesis using parse_serialize_roundtrip [OF assms(7-9,4) r(2), where b = b and html = out] assms(3,13) by blast
qed

lemma readable_demo: "d \<in> set demo_doc \<Longrightarrow> readable demo_cfg [] d"
  by (auto simp: demo_doc_def demo_cfg_def plain_tag_def plain_attrs_def attr_names_def attr_chr_def is_word_char_def name_chr_def to_lower_def to_lower_case_def
      has_prop_def proto_keys_def url_attr_def makeMap_str_def makeMap_lookup uncut_def comment_text_def is_text_def js_def cu_def)

theorem html_text_roundtrip_witness:
  "\<exists>es s. sax_parse demo_cfg (js ''<p id='' @ [0x22] @ js ''a'' @ [0x22] @ js ''><b>go on</b><br /></p><!--x-->'') = Some es \<and> es = concat (map events_of demo_doc)
    \<and> parse demo_parser \<lparr>pa_context = None, pa_isRootContent = True, pa_forced_root_block = None\<rparr> es = Some (0, s, False)
    \<and> serialize plain_serializer (ps_heap s) 0 [] = Some (js ''<p id='' @ [0x22] @ js ''a'' @ [0x22] @ js ''><b>go on</b><br /></p><!--x-->'')"
proof (rule html_text_roundtrip [where w = raw_writer and sz = plain_serializer and cfg = demo_cfg and p = demo_parser and ds = demo_doc])
  have t: "getContent (emit_all raw_writer (concat (map events_of demo_doc)) [])
      = js ''<p id='' @ [0x22] @ js ''a'' @ [0x22] @ js ''><b>go on</b><br /></p><!--x-->''"
    by (simp add: demo_doc_def raw_writer_def emit_all_def start_def end_tag_def text_out_def comment_def chunk_def attr_chunks_def
        getContent_def encodeRaw_def chars_def text_chars_def attrs_chars_def is_high_def is_low_def last_opt_def js_def)
  then show "js ''<p id='' @ [0x22] @ js ''a'' @ [0x22] @ js ''><b>go on</b><br /></p><!--x-->''
      = getContent (emit_all raw_writer (concat (map events_of demo_doc)) [])" by simp
  show "last_opt (docs_text raw_writer demo_doc) \<noteq> Some 0x0A"
    by (simp add: demo_doc_def doc_text_simps last_opt_def js_def)
  show "readable demo_cfg [] d \<and> tidy demo_parser (dp_root_name demo_parser) d" if "d \<in> set demo_doc" for d
    using readable_demo [OF that] tidy_demo [OF that] by simp
  show "separate demo_doc" by (simp add: demo_doc_def is_text_def)
qed (simp_all add: editor_encoder_def raw_writer_def plain_serializer_def demo_cfg_def demo_parser_def)

section \<open>Texts that are not read as written\<close>

text \<open>The table of special elements inherits members of all objects: a tag with the name of one of them is an error.\<close>

lemma constructor_tag_raises:
  assumes "sx_special cfg (js ''constructor'') = None"
  shows "sax_parse cfg (js ''<constructor>'') = None"
proof -
  have c: "list_all name_chr (js ''constructor'')" by (simp add: js_def name_chr_def)
  have "fm tokenRegExp (js ''<constructor>'', []) ([], [(8, []), (7, js ''constructor'')])"
    using fm_start [of "js ''constructor''" "[]" "\<lambda>_ _. []" False "[]"] c
    by (simp add: attr_names_def attr_text_def tag_tail_def js_def)
  from exec_here [OF this] have tok: "exec tokenRegExp (js ''<constructor>'') = Some ([], [], [(8, []), (7, js ''constructor'')])" .
  have name: "tag_name (js ''constructor'') = js ''constructor''" by (simp add: tag_name_def to_lower_def js_def)
  have g: "group 6 [(8, []), (7, js ''constructor'')] = None" "group 7 [(8, []), (7, js ''constructor'')] = Some (js ''constructor'')"
    by (simp_all add: group_def js_def)
  have "get_prop (sx_special cfg) (js ''constructor'') = Inherited" using assms by (simp add: get_prop_def proto_keys_def)
  then have "start_tag cfg (js ''constructor'') a h s = None" for a h s by (simp add: start_tag_def Let_def split: prod.split)
  then show ?thesis using tok g name by (simp add: sax_parse_def sax_loop.simps [of cfg "js ''<constructor>''"] Let_def cong: option.case_cong)
qed

text \<open>Two processing instructions without a text are read as one.\<close>

lemma pi_without_text_joined:
  "exec tokenRegExp (js ''<?a?>b<?c?>'') = Some ([], [], [(5, js ''>b<?c''), (4, js ''a?'')])"
proof -
  let ?e = "Seq (Chr (\<lambda>c. c = 0x3F \<or> c = 0x2F)) (lit (js ''>''))"
  have 1: "fm (Grp 4 (Plus (Chr (\<lambda>c. \<not> js_space c \<and> c \<notin> {0x2F, 0x3C, 0x3E})))) (js ''a?'' @ js ''>b<?c?>'', []) (js ''>b<?c?>'', [(4, js ''a?'')])"
    by (intro fm_Grp fm_run1) (simp_all add: js_def js_space_def)
  have 2: "fm (Opt (lit (js '' ''))) (js ''>b<?c?>'', g) (js ''>b<?c?>'', g)" for g
    unfolding Opt_def by (rule fm_Alt2 [OF _ fm_Eps]) (simp add: matches_lit js_def)
  have 3: "fm (Seq (Grp 5 (Lazy any_chr)) ?e) (js ''>b<?c'' @ js ''?>'', g) ([], (5, js ''>b<?c'') # g)" for g
  proof (rule fm_lazy)
    show "fm ?e (js ''?>'', (5, js ''>b<?c'') # g) ([], (5, js ''>b<?c'') # g)" by (simp add: fm_def matches_lit js_def)
    fix i assume "i < length (js ''>b<?c'')"
    then have "i \<in> {0, 1, 2, 3, 4}" by (auto simp: js_def)
    then show "matches ?e (drop i (js ''>b<?c'') @ js ''?>'', (5, take i (js ''>b<?c'')) # g) = []" by (auto simp: matches_lit js_def)
  qed
  have "fm pi_re (js ''?'' @ js ''a?'' @ js ''>b<?c?>'', []) ([], [(5, js ''>b<?c''), (4, js ''a?'')])"
    unfolding pi_re_def using 1 2 3 by (intro fm_Seq [OF fm_lit] fm_Seq [OF 1] fm_Seq [OF 2]) (simp add: js_def)
  then show ?thesis using exec_here [OF fm_token(4)] by (simp add: js_def)
qed

end
