(* ===== verification/SaxScripts.thy ===== *)
theory SaxScripts
  imports SaxRoundtrip
begin

text \<open>
  The filter for addresses of scripts in \<open>classes/html/SaxParser.js\<close>: whatever the text and the rules for elements are, no attribute that holds an
  address is reported with a value that, without white space and decoded, contains the name of a script protocol in any case.
\<close>

section \<open>What the test for scripts finds\<close>

lemma matches_liti:
  "matches (liti xs) (ys, g) = (if to_lower_case (take (length xs) ys) = to_lower_case xs then [(drop (length xs) ys, g)] else [])"
proof (induction xs arbitrary: ys)
  case (Cons x xs)
  have "liti (x # xs) = Seq (Chr (\<lambda>d. to_lower d = to_lower x)) (liti xs)" by (simp add: liti_def)
  then show ?case using Cons by (cases ys) (auto simp: to_lower_case_def)
qed (simp add: liti_def to_lower_case_def)

lemma test_iff: "test r s \<longleftrightarrow> (\<exists>a b. s = a @ b \<and> matches r (b, []) \<noteq> [])"
proof
  assume "test r s"
  then obtain b rest g where "exec r s = Some (b, rest, g)" by (auto simp: test_def)
  from exec_cases [OF this] show "\<exists>a b. s = a @ b \<and> matches r (b, []) \<noteq> []" by metis
next
  assume "\<exists>a b. s = a @ b \<and> matches r (b, []) \<noteq> []"
  then obtain a b where s: "s = a @ b" "matches r (b, []) \<noteq> []" by blast
  have "exec r (a @ b) \<noteq> None"
  proof (induction a)
    case Nil
    then show ?case using s(2) by (subst exec.simps) (auto split: list.splits)
  next
    case (Cons x a)
    then show ?case by (subst exec.simps) (auto split: list.splits)
  qed
  then show "test r s" using s(1) by (simp add: test_def)
qed

text \<open>A text that names a script protocol.\<close>

definition names_script :: "ustring \<Rightarrow> bool" where
  "names_script u \<longleftrightarrow> (\<exists>a w b. u = a @ w @ b \<and> to_lower_case w \<in> {js ''javascript:'', js ''vbscript:''})"

lemma lower_split:
  "(\<exists>b1 b2. s = b1 @ b2 \<and> to_lower_case b1 = xs @ ys) \<longleftrightarrow>
     to_lower_case (take (length xs) s) = xs \<and> to_lower_case (take (length ys) (drop (length xs) s)) = ys"
proof
  assume "\<exists>b1 b2. s = b1 @ b2 \<and> to_lower_case b1 = xs @ ys"
  then obtain b1 b2 where s: "s = b1 @ b2" "map to_lower b1 = xs @ ys" by (auto simp: to_lower_case_def)
  then obtain p q where pq: "b1 = p @ q" "map to_lower p = xs" "map to_lower q = ys" by (auto simp: map_eq_append_conv)
  then have "length xs = length p" "length ys = length q" by auto
  then show "to_lower_case (take (length xs) s) = xs \<and> to_lower_case (take (length ys) (drop (length xs) s)) = ys"
    using s(1) pq by (simp add: to_lower_case_def)
next
  assume "to_lower_case (take (length xs) s) = xs \<and> to_lower_case (take (length ys) (drop (length xs) s)) = ys"
  moreover have "s = (take (length xs) s @ take (length ys) (drop (length xs) s)) @ drop (length ys) (drop (length xs) s)"
    by (simp only: append_assoc append_take_drop_id)
  ultimately show "\<exists>b1 b2. s = b1 @ b2 \<and> to_lower_case b1 = xs @ ys" unfolding to_lower_case_def by (metis map_append)
qed

lemma lower_js: "to_lower_case (js ''java'') = js ''java''" "to_lower_case (js ''vb'') = js ''vb''" "to_lower_case (js ''script:'') = js ''script:''"
  by (simp_all add: to_lower_case_def to_lower_def js_def)

lemma script_test: "test scriptUriRegExp u \<longleftrightarrow> names_script u"
proof -
  have m: "matches scriptUriRegExp (s, []) \<noteq> [] \<longleftrightarrow> (\<exists>b1 b2. s = b1 @ b2 \<and> to_lower_case b1 = js ''java'' @ js ''script:'')
      \<or> (\<exists>b1 b2. s = b1 @ b2 \<and> to_lower_case b1 = js ''vb'' @ js ''script:'')" for s
    unfolding lower_split by (auto simp: scriptUriRegExp_def matches_liti lower_js)
  have "js ''java'' @ js ''script:'' = js ''javascript:''" "js ''vb'' @ js ''script:'' = js ''vbscript:''" by (simp_all add: js_def)
  moreover have "(\<exists>a b. u = a @ b \<and> (\<exists>w b2. b = w @ b2 \<and> to_lower_case w = x)) \<longleftrightarrow> (\<exists>a w b. u = a @ w @ b \<and> to_lower_case w = x)" for x by auto
  ultimately show ?thesis unfolding test_iff m names_script_def by (simp add: conj_disj_distribL ex_disj_distrib)
qed

text \<open>The address as it is tested.\<close>

definition url_text :: "ustring \<Rightarrow> ustring" where
  "url_text v = (let uri = filter (\<lambda>c. \<not> js_space c \<and> \<not> c \<le> 0x1F) v in case decodeURIComponent uri of Some u \<Rightarrow> u | None \<Rightarrow> unescape uri)"

lemma script_url_iff: "script_url v \<longleftrightarrow> names_script (url_text v)"
  by (simp add: script_url_def url_text_def script_test Let_def split: option.splits)

section \<open>The events\<close>

definition safe_attrs :: "(ustring \<times> ustring) list \<Rightarrow> bool" where
  "safe_attrs kvs \<longleftrightarrow> list_all (\<lambda>(k, v). k \<in> {js ''src'', js ''href''} \<longrightarrow> \<not> names_script (url_text v)) kvs"

definition safe_event :: "event \<Rightarrow> bool" where
  "safe_event e = (case e of Start _ (Some kvs) _ \<Rightarrow> safe_attrs kvs | _ \<Rightarrow> True)"

lemma safe_simps [simp]: "safe_attrs []" "safe_attrs (xs @ ys) \<longleftrightarrow> safe_attrs xs \<and> safe_attrs ys"
  "safe_event (Start n (Some a) b) = safe_attrs a" "safe_event (End n)" "safe_event (Text v r)" "safe_event (Comment w)" "safe_event (CData w)"
  "safe_event (PI n w)" "safe_event (Doctype w)"
  by (simp_all add: safe_attrs_def safe_event_def)

lemma url_names: "url_attr (js ''src'')" "url_attr (js ''href'')"
  by (simp_all add: url_attr_def has_prop_def makeMap_str_def makeMap_def js_def cu_def)

lemma safe_parse: "\<not> sx_allowScriptUrls cfg \<Longrightarrow> safe_attrs l \<Longrightarrow> safe_attrs (parseAttribute cfg rule internal g l)"
  using url_names by (auto simp: parseAttribute_def Let_def script_url_iff safe_attrs_def)

text \<open>The attributes a rule adds are no addresses.\<close>

definition plain_rule :: "tag_rule \<Rightarrow> bool" where
  "plain_rule tr \<longleftrightarrow> (\<forall>(k, v) \<in> set (tr_forced tr) \<union> set (tr_default tr). k \<notin> {js ''src'', js ''href''})"

lemma safe_forced: "list_all (\<lambda>(k, v). k \<notin> {js ''src'', js ''href''}) xs \<Longrightarrow> safe_attrs l \<Longrightarrow> safe_attrs (fst (add_forced xs l n))"
  by (induction xs l n rule: add_forced.induct) (auto simp: safe_attrs_def split: prod.splits)

lemma safe_default: "list_all (\<lambda>(k, v). k \<notin> {js ''src'', js ''href''}) xs \<Longrightarrow> safe_attrs l \<Longrightarrow> safe_attrs (fst (add_default xs l n))"
  by (induction xs l n rule: add_default.induct) (auto simp: safe_attrs_def split: prod.splits)

lemma safe_check: "plain_rule tr \<Longrightarrow> safe_attrs l \<Longrightarrow> safe_attrs (fst (snd (check_attrs tr valid l n)))"
proof -
  assume a: "plain_rule tr" "safe_attrs l"
  obtain a1 n1 where 1: "add_forced (rev (tr_forced tr)) l n = (a1, n1)" by fastforce
  obtain a2 n2 where 2: "add_default (rev (tr_default tr)) a1 n1 = (a2, n2)" by fastforce
  have "safe_attrs a1" using safe_forced [of "rev (tr_forced tr)" l n] a 1 by (auto simp: plain_rule_def list_all_iff)
  then have "safe_attrs a2" using safe_default [of "rev (tr_default tr)" a1 n1] a(1) 2 by (auto simp: plain_rule_def list_all_iff)
  then show ?thesis using 1 2 by (simp add: check_attrs_def Let_def)
qed

lemma safe_element:
  assumes "\<not> sx_allowScriptUrls cfg" "\<And>tr. rule = Some tr \<Longrightarrow> plain_rule tr"
  shows "safe_attrs (fst (snd (element_attrs cfg rule internal attribs n)))"
proof -
  have "safe_attrs (fold (parseAttribute cfg rule internal) gs l)" if "safe_attrs l" for gs l
    using that safe_parse [OF assms(1)] by (induction gs arbitrary: l) simp_all
  then show ?thesis using safe_check assms(2) by (auto simp: element_attrs_def Let_def split: option.splits)
qed

definition safe_state :: "sax_state \<Rightarrow> bool" where
  "safe_state s \<longleftrightarrow> list_all safe_event (ss_events s)"

lemma safe_report: "safe_state s \<Longrightarrow> list_all safe_event es \<Longrightarrow> safe_state (report es s)"
  by (simp add: safe_state_def report_def)

lemma safe_ends: "list_all safe_event (end_events st)"
  by (auto simp: end_events_def list_all_iff)

lemma safe_end: "safe_state s \<Longrightarrow> safe_state (processEndTag name s)"
  using safe_report [of s, OF _ safe_ends] by (simp add: processEndTag_def safe_state_def split: list.splits)

lemma safe_text: "safe_state s \<Longrightarrow> safe_state (text_before cfg v s)"
  by (simp add: text_before_def safe_report)

lemma safe_other: "safe_state s \<Longrightarrow> safe_state (report (other_token cfg g) s)"
  by (rule safe_report) (auto simp: other_token_def split: option.splits)

lemma safe_start:
  assumes "\<not> sx_allowScriptUrls cfg" "\<And>n tr. sx_rule cfg n = Some tr \<Longrightarrow> plain_rule tr" "safe_state s"
    and "start_tag cfg name attribs html s = Some (rest, t)"
  shows "safe_state t"
proof -
  let ?s = "if sx_fixSelfClosing cfg \<and> has_prop (sx_selfClosing cfg) name \<and> ss_stack s \<noteq> [] \<and> fst (hd (ss_stack s)) = name then processEndTag name s else s"
  have s: "safe_state ?s" using assms(3) safe_end by simp
  obtain valid u where u: "start_element cfg name attribs ?s = (valid, u)" by fastforce
  have "safe_state u"
  proof (cases "sx_validate cfg \<and> sx_rule cfg name = None")
    case True
    then show ?thesis using u s by (simp add: start_element_def)
  next
    case False
    obtain v a1 n1 where e: "element_attrs cfg (sx_rule cfg name) (internal_element attribs ?s) attribs (ss_idCount ?s) = (v, a1, n1)" by (metis prod_cases3)
    have "safe_attrs a1" using safe_element [OF assms(1), of "sx_rule cfg name" "internal_element attribs ?s" attribs "ss_idCount ?s"] assms(2) e by simp
    then show ?thesis using u s False e by (auto simp: start_element_def Let_def safe_state_def report_def)
  qed
  then have "safe_state (snd (special_element name valid html u))" "safe_state (open_element cfg name valid u)"
    by (auto simp: special_element_def open_element_def safe_state_def report_def Let_def split: prod.splits)
  then show ?thesis using assms(4) u by (cases "get_prop (sx_special cfg) name") (auto simp: start_tag_def)
qed

lemma safe_loop:
  assumes "\<not> sx_allowScriptUrls cfg" "\<And>n tr. sx_rule cfg n = Some tr \<Longrightarrow> plain_rule tr"
  shows "safe_state s \<Longrightarrow> sax_loop cfg html s = Some t \<Longrightarrow> safe_state t"
proof (induction "length html" arbitrary: html s rule: less_induct)
  case less
  note run = less(3) [unfolded sax_loop.simps [of cfg html s]]
  show ?case
  proof (cases "exec tokenRegExp html")
    case None
    then show ?thesis using run safe_report [OF safe_text [OF less(2)] safe_ends] by (auto simp: Let_def)
  next
    case (Some x)
    then obtain b rest g where x: "exec tokenRegExp html = Some (b, rest, g)" by (cases x) auto
    have l: "length rest < length html" by (rule token_shorter [OF x])
    let ?s = "text_before cfg b s"
    have s: "safe_state ?s" by (rule safe_text [OF less(2)])
    show ?thesis
    proof (cases "group 6 g")
      case (Some v)
      then show ?thesis using less(1) [OF l safe_end [OF s]] run x by simp
    next
      case six: None
      show ?thesis
      proof (cases "group 7 g")
        case None
        then show ?thesis using less(1) [OF l safe_other [OF s]] run x six by simp
      next
        case (Some v)
        then obtain rest2 s2 where st: "start_tag cfg (tag_name v) (case map_of g 8 of Some a \<Rightarrow> a | None \<Rightarrow> []) rest ?s = Some (rest2, s2)"
          "sax_loop cfg rest2 s2 = Some t" using run x six by (auto split: option.splits)
        have "length rest2 < length html" using start_tag_rest [OF st(1)] l by simp
        then show ?thesis using less(1) [OF _ safe_start [OF assms s st(1)] st(2)] by simp
      qed
    qed
  qed
qed

text \<open>C5. No address of a script comes through: unless the settings allow it, an attribute \<open>src\<close> or \<open>href\<close> that the SAX parser reports never
  has a value that names a script protocol, in upper or lower case, also when white space or percent signs hide the name;
  this holds for every text, as long as the rules of the schema add no such attribute themselves.\<close>

theorem no_script_urls:
  assumes "\<not> sx_allowScriptUrls cfg" and "\<And>n tr. sx_rule cfg n = Some tr \<Longrightarrow> plain_rule tr"
    and "sax_parse cfg html = Some es" and "Start name (Some kvs) b \<in> set es" and "(k, v) \<in> set kvs" and "k \<in> {js ''src'', js ''href''}"
  shows "\<not> names_script (url_text v)"
proof -
  obtain t where t: "sax_loop cfg html sax_start = Some t" "ss_events t = es" using assms(3) by (auto simp: sax_parse_def)
  have "safe_state t" using safe_loop [OF assms(1,2) _ t(1)] by (simp add: sax_start_def safe_state_def)
  then have "safe_attrs kvs" using t(2) assms(4) by (auto simp: safe_state_def list_all_iff dest: bspec)
  then show ?thesis using assms(5,6) by (auto simp: safe_attrs_def list_all_iff)
qed

definition link_doc :: "hdoc list" where
  "link_doc = [HElem (js ''a'') [(js ''href'', js ''/x'')] []]"

lemma link_read: "sax_parse demo_cfg (js ''<a href='' @ [0x22] @ js ''/x'' @ [0x22] @ js ''></a>'') = Some [Start (js ''a'') (Some [(js ''href'', js ''/x'')]) False, End (js ''a'')]"
proof -
  have "\<not> script_url (js ''/x'')"
    by (simp add: script_url_def js_def js_space_def test_def scriptUriRegExp_def exec.simps matches_liti to_lower_case_def to_lower_def Let_def)
  then have "readable demo_cfg [] d" if "d \<in> set link_doc" for d
    using that by (auto simp: link_doc_def demo_cfg_def plain_tag_def plain_attrs_def attr_names_def attr_chr_def is_word_char_def name_chr_def to_lower_def
        to_lower_case_def has_prop_def proto_keys_def js_def)
  moreover have "raw_html.encoded_by (\<lambda>s. s) raw_writer demo_cfg" by (simp add: raw_html.encoded_by_def raw_writer_def demo_cfg_def)
  ultimately have "sax_parse demo_cfg (docs_text raw_writer link_doc) = Some (concat (map events_of link_doc))"
    using raw_html.docs_read_back [of "\<lambda>s. s" raw_writer demo_cfg link_doc] by (simp add: link_doc_def)
  moreover have "docs_text raw_writer link_doc = js ''<a href='' @ [0x22] @ js ''/x'' @ [0x22] @ js ''></a>''"
    by (simp add: link_doc_def doc_text_simps attr_text_def raw_writer_def encodeRaw_def chars_def attrs_chars_def text_chars_def is_high_def is_low_def tag_tail_def js_def)
  ultimately show ?thesis by (simp add: link_doc_def)
qed

theorem no_script_urls_witness: "\<not> names_script (url_text (js ''/x''))"
  by (rule no_script_urls [OF _ _ link_read, where b = False and k = "js ''href''" and name = "js ''a''" and kvs = "[(js ''href'', js ''/x'')]"])
     (simp_all add: demo_cfg_def)

end
