(* ===== verification/UiControl.thy ===== *)
theory UiControl
  imports Complex_Main JsNumber
begin

text \<open>
  The rectangles of the user interface controls
  (\<open>server/html/js/tinymce/tinymce/js/tinymce/classes/ui/Control.js\<close>): \<open>parseBox\<close>,
  \<open>initLayoutRect\<close>, \<open>layoutRect\<close>, \<open>repaint\<close> and \<open>visible\<close>. Controls live in a store, as a
  container, its items and their parents refer to each other; what the document says about the
  element of a control (its size, its border, padding and margin) is a field of the control.
  Lengths are rational numbers. An operation returns \<open>None\<close> where the code raises, computes
  \<open>NaN\<close> or has not returned when the fuel of the layouts (\<open>UiLayout\<close>) is used up.
\<close>

section \<open>Boxes and rectangles\<close>

record box =
  bx_top :: rat
  bx_right :: rat
  bx_bottom :: rat
  bx_left :: rat

datatype box_value = BoxNumber rat | BoxString ustring

text \<open>\<open>parseInt(part, 10) || 0\<close>.\<close>

definition box_side :: "ustring \<Rightarrow> rat" where
  "box_side t = (case parse_int 10 t of None \<Rightarrow> 0 | Some i \<Rightarrow> of_int i)"

fun box_parts :: "ustring list \<Rightarrow> ustring list" where
  "box_parts [a] = [a, a, a, a]"
| "box_parts [a, b] = [a, b, a, b]"
| "box_parts [a, b, c] = [a, b, c, b]"
| "box_parts ps = ps"

definition parse_box :: "box_value option \<Rightarrow> box option" where
  "parse_box v = (case v of
     None \<Rightarrow> None
   | Some (BoxNumber n) \<Rightarrow> (if n = 0 then None else Some \<lparr>bx_top = n, bx_right = n, bx_bottom = n, bx_left = n\<rparr>)
   | Some (BoxString t) \<Rightarrow>
       (if t = [] then None
        else let ps = box_parts (split_on (cu CHR '' '') t) in
          Some \<lparr>bx_top = box_side (ps ! 0), bx_right = box_side (ps ! 1), bx_bottom = box_side (ps ! 2),
                bx_left = box_side (ps ! 3)\<rparr>))"

record layout_rect =
  lr_x :: rat
  lr_y :: rat
  lr_w :: rat
  lr_h :: rat
  lr_deltaW :: rat
  lr_deltaH :: rat
  lr_contentW :: rat
  lr_contentH :: rat
  lr_innerW :: rat
  lr_innerH :: rat
  lr_startMinWidth :: rat
  lr_startMinHeight :: rat
  lr_minW :: rat
  lr_minH :: rat
  lr_maxW :: rat
  lr_maxH :: rat
  lr_autoResize :: bool
  lr_flex :: "rat option"
  lr_maxFlexSize :: "rat option"

text \<open>The argument of \<open>layoutRect\<close>: \<open>None\<close> is a property it does not have.\<close>

record new_rect =
  nr_x :: "rat option"
  nr_y :: "rat option"
  nr_minW :: "rat option"
  nr_minH :: "rat option"
  nr_w :: "rat option"
  nr_h :: "rat option"
  nr_innerW :: "rat option"
  nr_innerH :: "rat option"
  nr_contentW :: "rat option"
  nr_contentH :: "rat option"

definition no_rect :: new_rect where
  "no_rect = \<lparr>nr_x = None, nr_y = None, nr_minW = None, nr_minH = None, nr_w = None, nr_h = None,
     nr_innerW = None, nr_innerH = None, nr_contentW = None, nr_contentH = None\<rparr>"

section \<open>Controls\<close>

text \<open>What \<open>DomUtils.getSize\<close> and \<open>measureBox\<close> read from the document.\<close>

record element =
  el_width :: rat
  el_height :: rat
  el_border :: box
  el_padding :: box
  el_margin :: box

datatype align_setting = AlignOne string | AlignEach "string list"

record ctrl_settings =
  st_x :: "rat option"
  st_y :: "rat option"
  st_w :: "rat option"
  st_h :: "rat option"
  st_minWidth :: "rat option"
  st_minHeight :: "rat option"
  st_maxWidth :: "rat option"
  st_maxHeight :: "rat option"
  st_width :: "rat option"
  st_height :: "rat option"
  st_autoResize :: "bool option"
  st_flex :: "rat option"
  st_layout :: "string option"
  st_direction :: "string option"
  st_align :: "align_setting option"
  st_pack :: "string option"
  st_packV :: "string option"
  st_spacing :: "rat option"
  st_spacingH :: "rat option"
  st_spacingV :: "rat option"
  st_columns :: "nat option"
  st_alignH :: "align_setting option"
  st_alignV :: "align_setting option"
  st_flexWidths :: "rat list option"

datatype layout_kind = FlexLayout | FitLayout | AbsoluteLayout | GridLayout | FlowLayout

text \<open>\<open>_lastRect\<close>: not set yet, set to \<open>null\<close>, or the size at the last layout.\<close>

datatype last_rect = NoRect | NullRect | LastRect rat rat

text \<open>\<open>lastRepaintRect\<close> and the style of the element, both written by \<open>repaint\<close>.\<close>

record painted =
  pt_x :: "rat option"
  pt_y :: "rat option"
  pt_w :: "rat option"
  pt_h :: "rat option"
  pt_innerW :: "rat option"
  pt_innerH :: "rat option"

text \<open>\<open>ct_layout\<close>: the layout of a container; \<open>None\<close>: a control without items, which has no
  \<open>recalc\<close>. \<open>ct_lastLayout\<close>: x, y, w and h of \<open>_lastLayoutRect\<close>.\<close>

record control =
  ct_settings :: ctrl_settings
  ct_element :: element
  ct_visible :: bool
  ct_rendered :: bool
  ct_display :: bool
  ct_parent :: "nat option"
  ct_items :: "nat list"
  ct_layout :: "layout_kind option"
  ct_border :: "box option"
  ct_padding :: "box option"
  ct_margin :: "box option"
  ct_rect :: "layout_rect option"
  ct_lastLayout :: "(rat \<times> rat \<times> rat \<times> rat) option"
  ct_lastRect :: last_rect
  ct_painted :: painted
  ct_style :: painted

text \<open>\<open>ui_repaint\<close>: \<open>Control.repaintControls\<close> while it has a \<open>map\<close> (in \<open>reflow\<close>), \<open>None\<close>
  otherwise; \<open>ui_old_ie\<close>: the document has no \<open>createRange\<close>.\<close>

record ui =
  ui_ctrl :: "nat \<Rightarrow> control"
  ui_rtl :: bool
  ui_repaint :: "nat list option"
  ui_old_ie :: bool
  ui_window :: "rat \<times> rat"

definition upd :: "nat \<Rightarrow> (control \<Rightarrow> control) \<Rightarrow> ui \<Rightarrow> ui" where
  "upd c f s = s\<lparr>ui_ctrl := (ui_ctrl s)(c := f (ui_ctrl s c))\<rparr>"

lemma upd_ctrl [simp]: "ui_ctrl (upd c f s) d = (if d = c then f (ui_ctrl s c) else ui_ctrl s d)"
  by (simp add: upd_def)

lemma upd_frame [simp]: "ui_rtl (upd c f s) = ui_rtl s" "ui_old_ie (upd c f s) = ui_old_ie s"
  by (simp_all add: upd_def)

section \<open>The rectangle of a control\<close>

text \<open>\<open>v || w\<close> for a number.\<close>

definition or_num :: "rat option \<Rightarrow> rat \<Rightarrow> rat" where
  "or_num v w = (case v of None \<Rightarrow> w | Some n \<Rightarrow> if n = 0 then w else n)"

definition truthy :: "rat option \<Rightarrow> bool" where
  "truthy v = (v \<noteq> None \<and> v \<noteq> Some 0)"

definition init_rect :: "control \<Rightarrow> box \<Rightarrow> layout_rect" where
  "init_rect k border =
     (let st = ct_settings k; el = ct_element k;
        minWidth = or_num (st_minWidth st) (el_width el);
        minHeight = or_num (st_minHeight st) (el_height el);
        width = or_num (st_width st) minWidth;
        height = or_num (st_height st) minHeight;
        deltaW = bx_left border + bx_right border;
        deltaH = bx_top border + bx_bottom border;
        maxW = or_num (st_maxWidth st) 65535;
        maxH = or_num (st_maxHeight st) 65535
      in \<lparr>lr_x = or_num (st_x st) 0, lr_y = or_num (st_y st) 0, lr_w = width, lr_h = height,
          lr_deltaW = deltaW, lr_deltaH = deltaH, lr_contentW = width - deltaW, lr_contentH = height - deltaH,
          lr_innerW = width - deltaW, lr_innerH = height - deltaH,
          lr_startMinWidth = or_num (st_minWidth st) 0, lr_startMinHeight = or_num (st_minHeight st) 0,
          lr_minW = min minWidth maxW, lr_minH = min minHeight maxH, lr_maxW = maxW, lr_maxH = maxH,
          lr_autoResize = (case st_autoResize st of Some b \<Rightarrow> b
                           | None \<Rightarrow> \<not> truthy (st_width st) \<and> \<not> truthy (st_height st)),
          lr_flex = None, lr_maxFlexSize = None\<rparr>)"

definition init_control :: "control \<Rightarrow> control" where
  "init_control k =
     (let border = (case ct_border k of Some b \<Rightarrow> b | None \<Rightarrow> el_border (ct_element k)) in
      k\<lparr>ct_border := Some border,
        ct_padding := Some (case ct_padding k of Some b \<Rightarrow> b | None \<Rightarrow> el_padding (ct_element k)),
        ct_margin := Some (case ct_margin k of Some b \<Rightarrow> b | None \<Rightarrow> el_margin (ct_element k)),
        ct_rect := Some (init_rect k border), ct_lastLayout := None\<rparr>)"

text \<open>\<open>layoutRect()\<close>: a container also asks its layout \<open>L\<close> the first time.\<close>

definition rect_of :: "ui \<Rightarrow> nat \<Rightarrow> layout_rect option" where
  "rect_of s c = ct_rect (ui_ctrl s c)"

definition get_rect :: "(nat \<Rightarrow> ui \<Rightarrow> ui option) \<Rightarrow> nat \<Rightarrow> ui \<Rightarrow> (ui \<times> layout_rect) option" where
  "get_rect L c s = (case rect_of s c of
     Some r \<Rightarrow> Some (s, r)
   | None \<Rightarrow> do {
       s1 \<leftarrow> (if ct_layout (ui_ctrl s c) = None then Some (upd c init_control s)
             else L c (upd c init_control s));
       r \<leftarrow> rect_of s1 c;
       Some (s1, r) })"

text \<open>\<open>layoutRect(newRect)\<close> reads each property of its argument when it comes to it: the argument
  is a function of the rectangle, constant unless it is the rectangle of the control itself.\<close>

definition clamp_to :: "rat \<Rightarrow> rat \<Rightarrow> rat \<Rightarrow> rat" where
  "clamp_to lo hi v = (let a = (if v < lo then lo else v) in if a > hi then hi else a)"

definition put_x :: "new_rect \<Rightarrow> layout_rect \<Rightarrow> layout_rect" where
  "put_x n r = (case nr_x n of None \<Rightarrow> r | Some v \<Rightarrow> r\<lparr>lr_x := v\<rparr>)"

definition put_y :: "new_rect \<Rightarrow> layout_rect \<Rightarrow> layout_rect" where
  "put_y n r = (case nr_y n of None \<Rightarrow> r | Some v \<Rightarrow> r\<lparr>lr_y := v\<rparr>)"

definition put_minW :: "new_rect \<Rightarrow> layout_rect \<Rightarrow> layout_rect" where
  "put_minW n r = (case nr_minW n of None \<Rightarrow> r | Some v \<Rightarrow> r\<lparr>lr_minW := v\<rparr>)"

definition put_minH :: "new_rect \<Rightarrow> layout_rect \<Rightarrow> layout_rect" where
  "put_minH n r = (case nr_minH n of None \<Rightarrow> r | Some v \<Rightarrow> r\<lparr>lr_minH := v\<rparr>)"

definition put_w :: "new_rect \<Rightarrow> layout_rect \<Rightarrow> layout_rect" where
  "put_w n r = (case nr_w n of None \<Rightarrow> r
   | Some v \<Rightarrow> (let a = clamp_to (lr_minW r) (lr_maxW r) v in r\<lparr>lr_w := a, lr_innerW := a - lr_deltaW r\<rparr>))"

definition put_h :: "new_rect \<Rightarrow> layout_rect \<Rightarrow> layout_rect" where
  "put_h n r = (case nr_h n of None \<Rightarrow> r
   | Some v \<Rightarrow> (let a = clamp_to (lr_minH r) (lr_maxH r) v in r\<lparr>lr_h := a, lr_innerH := a - lr_deltaH r\<rparr>))"

definition put_innerW :: "new_rect \<Rightarrow> layout_rect \<Rightarrow> layout_rect" where
  "put_innerW n r = (case nr_innerW n of None \<Rightarrow> r
   | Some v \<Rightarrow> (let a = clamp_to (lr_minW r - lr_deltaW r) (lr_maxW r - lr_deltaW r) v in
       r\<lparr>lr_innerW := a, lr_w := a + lr_deltaW r\<rparr>))"

definition put_innerH :: "new_rect \<Rightarrow> layout_rect \<Rightarrow> layout_rect" where
  "put_innerH n r = (case nr_innerH n of None \<Rightarrow> r
   | Some v \<Rightarrow> (let a = clamp_to (lr_minH r - lr_deltaH r) (lr_maxH r - lr_deltaH r) v in
       r\<lparr>lr_innerH := a, lr_h := a + lr_deltaH r\<rparr>))"

definition put_contentW :: "new_rect \<Rightarrow> layout_rect \<Rightarrow> layout_rect" where
  "put_contentW n r = (case nr_contentW n of None \<Rightarrow> r | Some v \<Rightarrow> r\<lparr>lr_contentW := v\<rparr>)"

definition put_contentH :: "new_rect \<Rightarrow> layout_rect \<Rightarrow> layout_rect" where
  "put_contentH n r = (case nr_contentH n of None \<Rightarrow> r | Some v \<Rightarrow> r\<lparr>lr_contentH := v\<rparr>)"

lemmas put_defs = put_x_def put_y_def put_minW_def put_minH_def put_w_def put_h_def put_innerW_def
  put_innerH_def put_contentW_def put_contentH_def

definition set_rect :: "(layout_rect \<Rightarrow> new_rect) \<Rightarrow> layout_rect \<Rightarrow> layout_rect" where
  "set_rect f r = fold (\<lambda>put q. put (f q) q)
     [put_x, put_y, put_minW, put_minH, put_w, put_h, put_innerW, put_innerH, put_contentW, put_contentH] r"

definition own_rect :: "layout_rect \<Rightarrow> new_rect" where
  "own_rect r = \<lparr>nr_x = Some (lr_x r), nr_y = Some (lr_y r), nr_minW = Some (lr_minW r), nr_minH = Some (lr_minH r),
     nr_w = Some (lr_w r), nr_h = Some (lr_h r), nr_innerW = Some (lr_innerW r), nr_innerH = Some (lr_innerH r),
     nr_contentW = Some (lr_contentW r), nr_contentH = Some (lr_contentH r)\<rparr>"

text \<open>The comparison with \<open>_lastLayoutRect\<close> and the list of controls to repaint.\<close>

definition mark_moved :: "nat \<Rightarrow> layout_rect \<Rightarrow> ui \<Rightarrow> ui" where
  "mark_moved c r s =
     (let now = (lr_x r, lr_y r, lr_w r, lr_h r) in
      if ct_lastLayout (ui_ctrl s c) = Some now then s
      else (upd c (\<lambda>k. k\<lparr>ct_lastLayout := Some now\<rparr>) s)
        \<lparr>ui_repaint := map_option (\<lambda>cs. if c \<in> set cs then cs else cs @ [c]) (ui_repaint s)\<rparr>)"

definition layoutRect :: "(nat \<Rightarrow> ui \<Rightarrow> ui option) \<Rightarrow> (layout_rect \<Rightarrow> new_rect) \<Rightarrow> nat \<Rightarrow> ui \<Rightarrow> ui option" where
  "layoutRect L f c s = do {
     (s1, r) \<leftarrow> get_rect L c s;
     let r' = set_rect f r;
     Some (mark_moved c r' (upd c (\<lambda>k. k\<lparr>ct_rect := Some r'\<rparr>) s1)) }"

section \<open>Painting and visibility\<close>

definition js_round :: "rat \<Rightarrow> rat" where
  "js_round v = of_int \<lfloor>v + 1 / 2\<rfloor>"

definition paint :: "ui \<Rightarrow> rat \<Rightarrow> rat" where
  "paint s v = (if ui_old_ie s then js_round v else v)"

text \<open>\<open>repaint\<close>; the event it fires is not part of the state. A container has a body.\<close>

definition repaint :: "nat \<Rightarrow> ui \<Rightarrow> ui option" where
  "repaint c s = do {
     r \<leftarrow> rect_of s c;
     b \<leftarrow> ct_border (ui_ctrl s c);
     let k = ui_ctrl s c;
     let pt = ct_painted k;
     let borderW = bx_left b + bx_right b;
     let borderH = bx_top b + bx_bottom b;
     let hasBody = (ct_layout k \<noteq> None);
     let sl = ct_style k;
     let sl' = \<lparr>pt_x = (if pt_x pt = Some (lr_x r) then pt_x sl else Some (paint s (lr_x r))),
       pt_y = (if pt_y pt = Some (lr_y r) then pt_y sl else Some (paint s (lr_y r))),
       pt_w = (if pt_w pt = Some (lr_w r) then pt_w sl else Some (paint s (lr_w r - borderW))),
       pt_h = (if pt_h pt = Some (lr_h r) then pt_h sl else Some (paint s (lr_h r - borderH))),
       pt_innerW = (if hasBody \<and> pt_innerW pt \<noteq> Some (lr_innerW r) then Some (paint s (lr_innerW r)) else pt_innerW sl),
       pt_innerH = (if hasBody \<and> pt_innerH pt \<noteq> Some (lr_innerH r) then Some (paint s (lr_innerH r)) else pt_innerH sl)\<rparr>;
     let pt' = \<lparr>pt_x = Some (lr_x r), pt_y = Some (lr_y r), pt_w = Some (lr_w r), pt_h = Some (lr_h r),
       pt_innerW = (if hasBody then Some (lr_innerW r) else pt_innerW pt),
       pt_innerH = (if hasBody then Some (lr_innerH r) else pt_innerH pt)\<rparr>;
     Some (upd c (\<lambda>k. k\<lparr>ct_style := sl', ct_painted := pt'\<rparr>) s) }"

text \<open>\<open>visible(state)\<close>: the parent lays out again at the next \<open>recalc\<close>.\<close>

definition set_visible :: "nat \<Rightarrow> bool \<Rightarrow> ui \<Rightarrow> ui" where
  "set_visible c b s =
     (if ct_visible (ui_ctrl s c) = b then s
      else let s1 = upd c (\<lambda>k. k\<lparr>ct_display := (if ct_rendered k then b else ct_display k), ct_visible := b\<rparr>) s in
        (case ct_parent (ui_ctrl s c) of None \<Rightarrow> s1 | Some p \<Rightarrow> upd p (\<lambda>k. k\<lparr>ct_lastRect := NullRect\<rparr>) s1))"

end
