(* ===== verification/UiLayout.thy ===== *)
theory UiLayout
  imports UiControl
begin

text \<open>
  The layout managers of the user interface
  (\<open>server/html/js/tinymce/tinymce/js/tinymce/classes/ui/\<close>: \<open>FlexLayout\<close>, \<open>FitLayout\<close>,
  \<open>AbsoluteLayout\<close>, \<open>GridLayout\<close>, \<open>FlowLayout\<close>) and \<open>recalc\<close> and \<open>reflow\<close> of \<open>Container.js\<close>.
  A layout calls itself again when its container has resized itself, lays out the containers among
  the items and may be sent to the parent, so \<open>layout_recalc\<close> counts fuel: \<open>L\<close> in the definitions
  before it is the layout of any container with less fuel.
\<close>

section \<open>Containers\<close>

text \<open>\<open>Container.recalc\<close>.\<close>

definition container_recalc :: "(nat \<Rightarrow> ui \<Rightarrow> ui option) \<Rightarrow> nat \<Rightarrow> ui \<Rightarrow> ui option" where
  "container_recalc L c s = do {
     moved \<leftarrow> (case ct_lastRect (ui_ctrl s c) of
        LastRect w h \<Rightarrow> map_option (\<lambda>r. w \<noteq> lr_w r \<or> h \<noteq> lr_h r) (rect_of s c)
      | _ \<Rightarrow> Some True);
     if moved then do {
       s1 \<leftarrow> L c s;
       (s2, r) \<leftarrow> get_rect L c s1;
       Some (upd c (\<lambda>k. k\<lparr>ct_lastRect := LastRect (lr_w r) (lr_h r)\<rparr>) s2) }
     else Some s }"

text \<open>\<open>if (ctrl.recalc) ctrl.recalc()\<close>.\<close>

definition recalc_item :: "(nat \<Rightarrow> ui \<Rightarrow> ui option) \<Rightarrow> nat \<Rightarrow> ui \<Rightarrow> ui option" where
  "recalc_item L i s = (if ct_layout (ui_ctrl s i) = None then Some s else container_recalc L i s)"

text \<open>The forced \<open>recalc\<close> of the parent.\<close>

definition forced_recalc :: "(nat \<Rightarrow> ui \<Rightarrow> ui option) \<Rightarrow> nat \<Rightarrow> ui \<Rightarrow> ui option" where
  "forced_recalc L c s =
     (if ct_lastRect (ui_ctrl s c) = NullRect
      then (case ct_parent (ui_ctrl s c) of None \<Rightarrow> Some s
            | Some p \<Rightarrow> container_recalc L p (upd p (\<lambda>k. k\<lparr>ct_lastRect := NullRect\<rparr>) s))
      else Some s)"

definition visible_items :: "ui \<Rightarrow> nat \<Rightarrow> nat list" where
  "visible_items s c = filter (\<lambda>i. ct_visible (ui_ctrl s i)) (ct_items (ui_ctrl s c))"

section \<open>Flow, fit and absolute layouts\<close>

fun each_item :: "(nat \<Rightarrow> ui \<Rightarrow> ui option) \<Rightarrow> nat list \<Rightarrow> ui \<Rightarrow> ui option" where
  "each_item f [] s = Some s"
| "each_item f (i # is) s = do { s1 \<leftarrow> f i s; each_item f is s1 }"

definition flow_recalc :: "(nat \<Rightarrow> ui \<Rightarrow> ui option) \<Rightarrow> nat \<Rightarrow> ui \<Rightarrow> ui option" where
  "flow_recalc L c s = each_item (recalc_item L) (visible_items s c) s"

definition fit_rect :: "layout_rect \<Rightarrow> box \<Rightarrow> new_rect" where
  "fit_rect r pad = no_rect\<lparr>nr_x := Some (bx_left pad), nr_y := Some (bx_top pad),
     nr_w := Some (lr_innerW r - bx_right pad - bx_left pad), nr_h := Some (lr_innerH r - bx_top pad - bx_bottom pad)\<rparr>"

definition fit_recalc :: "(nat \<Rightarrow> ui \<Rightarrow> ui option) \<Rightarrow> nat \<Rightarrow> ui \<Rightarrow> ui option" where
  "fit_recalc L c s = do {
     (s1, _) \<leftarrow> get_rect L c s;
     pad \<leftarrow> ct_padding (ui_ctrl s1 c);
     each_item (\<lambda>i q. do {
       r \<leftarrow> rect_of q c;
       q1 \<leftarrow> layoutRect L (\<lambda>_. fit_rect r pad) i q;
       recalc_item L i q1 }) (visible_items s1 c) s1 }"

definition absolute_rect :: "ctrl_settings \<Rightarrow> new_rect" where
  "absolute_rect st = no_rect\<lparr>nr_x := st_x st, nr_y := st_y st, nr_w := st_w st, nr_h := st_h st\<rparr>"

definition absolute_recalc :: "(nat \<Rightarrow> ui \<Rightarrow> ui option) \<Rightarrow> nat \<Rightarrow> ui \<Rightarrow> ui option" where
  "absolute_recalc L c s = each_item (\<lambda>i q. do {
     q1 \<leftarrow> layoutRect L (\<lambda>_. absolute_rect (ct_settings (ui_ctrl q i))) i q;
     recalc_item L i q1 }) (visible_items s c) s"

section \<open>Flex layout\<close>

text \<open>The property names of the two directions.\<close>

datatype axis = AxisX | AxisY

fun cross :: "axis \<Rightarrow> axis" where
  "cross AxisX = AxisY"
| "cross AxisY = AxisX"

definition pick :: "axis \<Rightarrow> 'a \<Rightarrow> 'a \<Rightarrow> 'a" where
  "pick a u v = (case a of AxisX \<Rightarrow> u | AxisY \<Rightarrow> v)"

definition ax_pos :: "axis \<Rightarrow> layout_rect \<Rightarrow> rat" where "ax_pos a r = pick a (lr_x r) (lr_y r)"
definition ax_size :: "axis \<Rightarrow> layout_rect \<Rightarrow> rat" where "ax_size a r = pick a (lr_w r) (lr_h r)"
definition ax_min :: "axis \<Rightarrow> layout_rect \<Rightarrow> rat" where "ax_min a r = pick a (lr_minW r) (lr_minH r)"
definition ax_max :: "axis \<Rightarrow> layout_rect \<Rightarrow> rat" where "ax_max a r = pick a (lr_maxW r) (lr_maxH r)"
definition ax_inner :: "axis \<Rightarrow> layout_rect \<Rightarrow> rat" where "ax_inner a r = pick a (lr_innerW r) (lr_innerH r)"
definition ax_delta :: "axis \<Rightarrow> layout_rect \<Rightarrow> rat" where "ax_delta a r = pick a (lr_deltaW r) (lr_deltaH r)"
definition bx_before :: "axis \<Rightarrow> box \<Rightarrow> rat" where "bx_before a b = pick a (bx_left b) (bx_top b)"
definition bx_after :: "axis \<Rightarrow> box \<Rightarrow> rat" where "bx_after a b = pick a (bx_right b) (bx_bottom b)"

definition nr_at :: "axis \<Rightarrow> rat \<Rightarrow> new_rect \<Rightarrow> new_rect" where
  "nr_at a v n = pick a (n\<lparr>nr_x := Some v\<rparr>) (n\<lparr>nr_y := Some v\<rparr>)"
definition nr_sized :: "axis \<Rightarrow> rat \<Rightarrow> new_rect \<Rightarrow> new_rect" where
  "nr_sized a v n = pick a (n\<lparr>nr_w := Some v\<rparr>) (n\<lparr>nr_h := Some v\<rparr>)"

lemmas axis_defs = pick_def ax_pos_def ax_size_def ax_min_def ax_max_def ax_inner_def ax_delta_def
  bx_before_def bx_after_def nr_at_def nr_sized_def

definition flex_direction :: "ui \<Rightarrow> ctrl_settings \<Rightarrow> string option" where
  "flex_direction s st =
     (if ui_rtl s then Some (case st_direction st of None \<Rightarrow> ''row-reversed'' | Some d \<Rightarrow> if d = [] then ''row-reversed'' else d)
      else st_direction st)"

definition flex_reversed :: "string option \<Rightarrow> bool" where
  "flex_reversed d = (d = Some ''row-reversed'' \<or> d = Some ''column-reverse'')"

text \<open>Only a reversed direction is split at its hyphen.\<close>

definition flex_axis :: "string option \<Rightarrow> axis" where
  "flex_axis d = (if (if flex_reversed d then map_option (takeWhile (\<lambda>x. x \<noteq> CHR ''-'')) d else d) = Some ''column''
                  then AxisY else AxisX)"

definition flex_pack :: "ui \<Rightarrow> ctrl_settings \<Rightarrow> string option" where
  "flex_pack s st =
     (if ui_rtl s then Some (case st_pack st of None \<Rightarrow> ''end'' | Some p \<Rightarrow> if p = [] then ''end'' else p)
      else st_pack st)"

text \<open>The total flex, the available space, the end of the largest item on the other axis and the
  flexed items that have a maximal size.\<close>

record flex_sum =
  fs_flex :: rat
  fs_space :: rat
  fs_end :: rat
  fs_maxItems :: "nat list"

fun flex_collect :: "(nat \<Rightarrow> ui \<Rightarrow> ui option) \<Rightarrow> axis \<Rightarrow> box \<Rightarrow> rat \<Rightarrow> nat list \<Rightarrow> flex_sum \<Rightarrow> ui \<Rightarrow> (ui \<times> flex_sum) option" where
  "flex_collect L a pad spacing [] m s = Some (s, m)"
| "flex_collect L a pad spacing (i # is) m s = do {
     (s1, r) \<leftarrow> get_rect L i s;
     let flexed = (case st_flex (ct_settings (ui_ctrl s1 i)) of None \<Rightarrow> None | Some v \<Rightarrow> if v > 0 then Some v else None);
     let m1 = m\<lparr>fs_space := fs_space m - (if is = [] then 0 else spacing)\<rparr>;
     let m2 = (case flexed of None \<Rightarrow> m1
        | Some v \<Rightarrow> m1\<lparr>fs_flex := fs_flex m1 + v,
                      fs_maxItems := (if ax_max a r \<noteq> 0 then fs_maxItems m1 @ [i] else fs_maxItems m1)\<rparr>);
     let s2 = (if flexed = None then s1 else upd i (\<lambda>k. k\<lparr>ct_rect := Some (r\<lparr>lr_flex := flexed\<rparr>)\<rparr>) s1);
     let size = bx_before (cross a) pad + ax_min (cross a) r + bx_after (cross a) pad;
     let m3 = m2\<lparr>fs_space := fs_space m2 - ax_min a r, fs_end := (if size > fs_end m2 then size else fs_end m2)\<rparr>;
     flex_collect L a pad spacing is m3 s2 }"

text \<open>The minimal size of the container and the size of its contents.\<close>

definition flex_min :: "axis \<Rightarrow> layout_rect \<Rightarrow> flex_sum \<Rightarrow> new_rect" where
  "flex_min a r m =
     (let main = (if fs_space m < 0 then ax_min a r - fs_space m + ax_delta a r
                  else ax_inner a r - fs_space m + ax_delta a r);
        other = fs_end m + ax_delta (cross a) r;
        content = ax_inner a r - fs_space m
      in no_rect\<lparr>
        nr_minW := Some (max (min (pick a main other) (lr_maxW r)) (lr_startMinWidth r)),
        nr_minH := Some (max (min (pick a other main) (lr_maxH r)) (lr_startMinHeight r)),
        nr_contentW := Some (pick a content (fs_end m)),
        nr_contentH := Some (pick a (fs_end m) content)\<rparr>)"

text \<open>The size of the container is to change.\<close>

definition resizes :: "layout_rect \<Rightarrow> new_rect \<Rightarrow> bool" where
  "resizes r n = (lr_autoResize r \<and> (nr_minW n \<noteq> Some (lr_minW r) \<or> nr_minH n \<noteq> Some (lr_minH r)))"

definition to_min :: "new_rect \<Rightarrow> new_rect" where
  "to_min n = n\<lparr>nr_w := nr_minW n, nr_h := nr_minH n\<rparr>"

text \<open>The items that come to their maximal size are no longer flexed. An item without a flex is
  not in the list.\<close>

fun flex_limit :: "axis \<Rightarrow> rat \<Rightarrow> nat list \<Rightarrow> rat \<Rightarrow> rat \<Rightarrow> ui \<Rightarrow> (ui \<times> rat \<times> rat) option" where
  "flex_limit a ratio [] space flexes s = Some (s, space, flexes)"
| "flex_limit a ratio (i # is) space flexes s = do {
     r \<leftarrow> rect_of s i;
     v \<leftarrow> lr_flex r;
     if ax_min a r + v * ratio > ax_max a r
     then flex_limit a ratio is (space - (ax_max a r - ax_min a r)) (flexes - v)
       (upd i (\<lambda>k. k\<lparr>ct_rect := Some (r\<lparr>lr_flex := Some 0, lr_maxFlexSize := Some (ax_max a r)\<rparr>)\<rparr>) s)
     else flex_limit a ratio is space flexes (upd i (\<lambda>k. k\<lparr>ct_rect := Some (r\<lparr>lr_maxFlexSize := Some 0\<rparr>)\<rparr>) s) }"

text \<open>The start of the first item and the spacing.\<close>

definition flex_start :: "axis \<Rightarrow> string option \<Rightarrow> layout_rect \<Rightarrow> box \<Rightarrow> rat \<Rightarrow> rat \<Rightarrow> nat \<Rightarrow> rat \<Rightarrow> rat \<times> rat" where
  "flex_start a pack r pad space flexes n spacing =
     (if flexes \<noteq> 0 then (bx_before a pad, spacing)
      else if pack = Some ''end'' then (space + bx_before a pad, spacing)
      else if pack = Some ''center'' then
        (let pos = js_round (ax_inner a r / 2 - (ax_inner a r - space) / 2) + bx_before a pad
         in (if pos < 0 then bx_before a pad else pos, spacing))
      else if pack = Some ''justify'' then (bx_before a pad, of_int \<lfloor>space / (of_nat n - 1)\<rfloor>)
      else (bx_before a pad, spacing))"

definition flex_align :: "axis \<Rightarrow> align_setting option \<Rightarrow> layout_rect \<Rightarrow> box \<Rightarrow> layout_rect \<Rightarrow> new_rect \<Rightarrow> new_rect" where
  "flex_align a al r pad item n =
     (if al = Some (AlignOne ''center'') then
        nr_at (cross a) (js_round (ax_inner (cross a) r / 2 - ax_size (cross a) item / 2)) n
      else if al = Some (AlignOne ''stretch'') then
        nr_at (cross a) (bx_before (cross a) pad)
          (nr_sized (cross a) (max (ax_min (cross a) item)
             (ax_inner (cross a) r - bx_before (cross a) pad - bx_after (cross a) pad)) n)
      else if al = Some (AlignOne ''end'') then
        nr_at (cross a) (ax_inner (cross a) r - ax_size (cross a) item - bx_top pad) n
      else n)"

definition flex_size :: "axis \<Rightarrow> rat \<Rightarrow> layout_rect \<Rightarrow> rat" where
  "flex_size a ratio item = or_num (lr_maxFlexSize item) (ax_min a item)
     + (case lr_flex item of None \<Rightarrow> 0 | Some v \<Rightarrow> if v > 0 then v * ratio else 0)"

text \<open>The loop that places the items: \<open>n\<close> is the object \<open>rect\<close>, used for all of them.\<close>

fun flex_place :: "(nat \<Rightarrow> ui \<Rightarrow> ui option) \<Rightarrow> nat \<Rightarrow> axis \<Rightarrow> align_setting option \<Rightarrow> box \<Rightarrow> rat \<Rightarrow> rat \<Rightarrow>
    nat list \<Rightarrow> rat \<Rightarrow> new_rect \<Rightarrow> ui \<Rightarrow> ui option" where
  "flex_place L c a al pad ratio spacing [] pos n s = Some s"
| "flex_place L c a al pad ratio spacing (i # is) pos n s = do {
     (s1, item) \<leftarrow> get_rect L i s;
     r \<leftarrow> rect_of s1 c;
     let size = flex_size a ratio item;
     let n1 = nr_at a pos (nr_sized a size (flex_align a al r pad item n));
     s2 \<leftarrow> layoutRect L (\<lambda>_. n1) i s1;
     s3 \<leftarrow> recalc_item L i s2;
     flex_place L c a al pad ratio spacing is (pos + (size + spacing)) n1 s3 }"

text \<open>\<open>recalc\<close>. The ratio is only used for flexed items; there are none when the total is zero.\<close>

definition flex_recalc :: "(nat \<Rightarrow> ui \<Rightarrow> ui option) \<Rightarrow> nat \<Rightarrow> ui \<Rightarrow> ui option" where
  "flex_recalc L c s = do {
     (s1, r1) \<leftarrow> get_rect L c s;
     pad \<leftarrow> ct_padding (ui_ctrl s1 c);
     let st = ct_settings (ui_ctrl s1 c);
     let dir = flex_direction s1 st;
     let a = flex_axis dir;
     let pack = flex_pack s1 st;
     let spacing = or_num (st_spacing st) 0;
     let items = (if flex_reversed dir then rev (visible_items s c) else visible_items s c);
     (s2, m) \<leftarrow> flex_collect L a pad spacing items
       \<lparr>fs_flex = 0, fs_space = ax_inner a r1 - bx_before a pad - bx_before a pad, fs_end = 0, fs_maxItems = []\<rparr> s1;
     r2 \<leftarrow> rect_of s2 c;
     let n = flex_min a r2 m;
     if resizes r2 n then do {
       s3 \<leftarrow> layoutRect L (\<lambda>_. to_min n) c s2;
       s4 \<leftarrow> L c s3;
       forced_recalc L c s4 }
     else do {
       (s3, space, flexes) \<leftarrow> flex_limit a (fs_space m / fs_flex m) (fs_maxItems m) (fs_space m) (fs_flex m) s2;
       let ps = flex_start a pack r2 pad space flexes (length items) spacing;
       flex_place L c a (st_align st) pad (space / flexes) (snd ps) items (fst ps)
         (nr_at (cross a) (bx_before (cross a) pad) no_rect) s3 } }"

section \<open>Grid layout\<close>

text \<open>\<open>Math.ceil(Math.sqrt(n))\<close>, counted up from \<open>k\<close>.\<close>

function ceil_sqrt :: "nat \<Rightarrow> nat \<Rightarrow> nat" where
  "ceil_sqrt k n = (if n \<le> k * k then k else ceil_sqrt (Suc k) n)"
  by pat_completeness auto
termination
proof (relation "measure (\<lambda>(k, n). n - k)", goal_cases)
  case (2 k n)
  then have "k < n" by (metis leD le_square linorder_le_less_linear order_le_less_trans)
  then show ?case by auto
qed simp

declare ceil_sqrt.simps [simp del]

text \<open>A number of columns of 0 is falsy; without items there are no columns and no rows.\<close>

definition grid_cols :: "ctrl_settings \<Rightarrow> nat \<Rightarrow> nat" where
  "grid_cols st n = (case st_columns st of None \<Rightarrow> ceil_sqrt 0 n | Some k \<Rightarrow> if k = 0 then ceil_sqrt 0 n else k)"

definition grid_rows :: "nat \<Rightarrow> nat \<Rightarrow> nat" where
  "grid_rows cols n = (if n = 0 then 0 else (n + cols - 1) div cols)"

definition grid_spacing :: "rat option \<Rightarrow> rat option \<Rightarrow> rat" where
  "grid_spacing own all = or_num own (or_num all 0)"

text \<open>\<open>alignH || align\<close>, a string made a list; the empty string is falsy, an empty list is not.\<close>

definition align_list :: "align_setting option \<Rightarrow> align_setting option \<Rightarrow> string list option" where
  "align_list own all =
     (let v = (if own = None \<or> own = Some (AlignOne []) then all else own) in
      case v of None \<Rightarrow> None | Some (AlignOne t) \<Rightarrow> if t = [] then None else Some [t] | Some (AlignEach ts) \<Rightarrow> Some ts)"

text \<open>\<open>ctrlSettings.align || (list ? (list[x] || list[0]) : null)\<close>. A list as the setting of a
  control is compared with strings as its elements with commas between them.\<close>

definition cell_align :: "align_setting option \<Rightarrow> string list option \<Rightarrow> nat \<Rightarrow> string option" where
  "cell_align own list x =
     (case own of
        Some (AlignEach ts) \<Rightarrow> Some (join_with '','' ts)
      | Some (AlignOne (ch # t)) \<Rightarrow> Some (ch # t)
      | _ \<Rightarrow> (case list of None \<Rightarrow> None
              | Some ts \<Rightarrow> if nth_opt ts x = None \<or> nth_opt ts x = Some [] then nth_opt ts 0 else nth_opt ts x))"

text \<open>The largest minimal sizes of the columns and of the rows: item \<open>k\<close> is in row \<open>k div cols\<close>
  and column \<open>k mod cols\<close>, and the loops pass over the items in their order.\<close>

fun grid_measure :: "(nat \<Rightarrow> ui \<Rightarrow> ui option) \<Rightarrow> nat \<Rightarrow> nat \<Rightarrow> nat list \<Rightarrow> rat list \<Rightarrow> rat list \<Rightarrow> ui \<Rightarrow>
    (ui \<times> rat list \<times> rat list) option" where
  "grid_measure L cols k [] ws hs s = Some (s, ws, hs)"
| "grid_measure L cols k (i # is) ws hs s = do {
     (s1, r) \<leftarrow> get_rect L i s;
     let x = k mod cols;
     let y = k div cols;
     grid_measure L cols (Suc k) is
       (ws[x := (if lr_minW r > ws ! x then lr_minW r else ws ! x)])
       (hs[y := (if lr_minH r > hs ! y then lr_minH r else hs ! y)]) s1 }"

text \<open>The sum of the sizes and the spacings between them.\<close>

definition grid_extent :: "rat \<Rightarrow> rat list \<Rightarrow> rat" where
  "grid_extent spacing sizes = sum_list sizes + of_nat (length sizes - 1) * spacing"

definition grid_min :: "layout_rect \<Rightarrow> rat \<Rightarrow> rat \<Rightarrow> new_rect" where
  "grid_min r maxX maxY =
     (let minW = maxX + (lr_w r - lr_innerW r); minH = maxY + (lr_h r - lr_innerH r) in
      no_rect\<lparr>nr_contentW := Some (minW - lr_deltaW r), nr_contentH := Some (minH - lr_deltaH r),
        nr_minW := Some (max (min minW (lr_maxW r)) (lr_startMinWidth r)),
        nr_minH := Some (max (min minH (lr_maxH r)) (lr_startMinHeight r))\<rparr>)"

text \<open>The columns share the available width. \<open>None\<close>: the code divides by a total of 0 or takes a
  flex that is not in the list.\<close>

definition grid_flex :: "rat list option \<Rightarrow> rat \<Rightarrow> rat list \<Rightarrow> rat list option" where
  "grid_flex flexWidths available ws =
     (let flexes = (case flexWidths of None \<Rightarrow> of_nat (length ws) | Some fs \<Rightarrow> sum_list fs);
        ratio = available / flexes
      in if ws = [] then Some []
      else if flexes = 0 then None
      else case flexWidths of
        None \<Rightarrow> Some (map (\<lambda>w. w + ratio) ws)
      | Some fs \<Rightarrow> if length fs < length ws then None else Some (map2 (\<lambda>w v. w + v * ratio) ws fs))"

text \<open>The new position and size of a control in its cell, written into its rectangle.\<close>

definition grid_cell :: "rat \<Rightarrow> rat \<Rightarrow> rat \<Rightarrow> rat \<Rightarrow> string option \<Rightarrow> string option \<Rightarrow> layout_rect \<Rightarrow> layout_rect" where
  "grid_cell posX posY width height alH alV r =
     (let r1 = r\<lparr>lr_x := posX, lr_y := posY\<rparr>;
        r2 = (if alH = Some ''center'' then r1\<lparr>lr_x := posX + width / 2 - lr_w r1 / 2\<rparr>
              else if alH = Some ''right'' then r1\<lparr>lr_x := posX + width - lr_w r1\<rparr>
              else if alH = Some ''stretch'' then r1\<lparr>lr_w := width\<rparr> else r1)
      in if alV = Some ''center'' then r2\<lparr>lr_y := posY + height / 2 - lr_h r2 / 2\<rparr>
         else if alV = Some ''bottom'' then r2\<lparr>lr_y := posY + height - lr_h r2\<rparr>
         else if alV = Some ''stretch'' then r2\<lparr>lr_h := height\<rparr> else r2)"

text \<open>The loop over the items of one row, then over the rows.\<close>

fun grid_row :: "(nat \<Rightarrow> ui \<Rightarrow> ui option) \<Rightarrow> string list option \<Rightarrow> string list option \<Rightarrow> rat \<Rightarrow> rat list \<Rightarrow> rat \<Rightarrow>
    rat \<Rightarrow> nat \<Rightarrow> rat \<Rightarrow> nat list \<Rightarrow> ui \<Rightarrow> ui option" where
  "grid_row L alH alV spacingH ws posY height x posX [] s = Some s"
| "grid_row L alH alV spacingH ws posY height x posX (i # is) s = do {
     (s1, r) \<leftarrow> get_rect L i s;
     let st = ct_settings (ui_ctrl s1 i);
     let width = max (ws ! x) (lr_startMinWidth r);
     let r1 = grid_cell posX posY width height (cell_align (st_alignH st) alH x) (cell_align (st_alignV st) alV x) r;
     s2 \<leftarrow> layoutRect L own_rect i (upd i (\<lambda>k. k\<lparr>ct_rect := Some r1\<rparr>) s1);
     s3 \<leftarrow> recalc_item L i s2;
     grid_row L alH alV spacingH ws posY height (Suc x) (posX + (width + spacingH)) is s3 }"

fun grid_place :: "(nat \<Rightarrow> ui \<Rightarrow> ui option) \<Rightarrow> string list option \<Rightarrow> string list option \<Rightarrow> rat \<Rightarrow> rat \<Rightarrow> rat list \<Rightarrow>
    rat list \<Rightarrow> rat \<Rightarrow> rat \<Rightarrow> rat \<Rightarrow> nat list \<Rightarrow> ui \<Rightarrow> ui option" where
  "grid_place L alH alV spacingH spacingV ws [] flexV left posY is s = Some s"
| "grid_place L alH alV spacingH spacingV ws (h # hs) flexV left posY is s = do {
     let height = h + flexV;
     s1 \<leftarrow> grid_row L alH alV spacingH ws posY height 0 left (take (length ws) is) s;
     grid_place L alH alV spacingH spacingV ws hs flexV left (posY + (height + spacingV)) (drop (length ws) is) s1 }"

text \<open>\<open>recalc\<close>. After \<open>container.layoutRect(rect)\<close> in the second branch \<open>rect\<close> is the control, so the
  assignments to its \<open>contentW\<close> and \<open>contentH\<close> do not reach the rectangle.\<close>

definition grid_recalc :: "(nat \<Rightarrow> ui \<Rightarrow> ui option) \<Rightarrow> nat \<Rightarrow> ui \<Rightarrow> ui option" where
  "grid_recalc L c s = do {
     let items = visible_items s c;
     (s1, _) \<leftarrow> get_rect L c s;
     pad \<leftarrow> ct_padding (ui_ctrl s1 c);
     let st = ct_settings (ui_ctrl s1 c);
     let cols = grid_cols st (length items);
     let rows = grid_rows cols (length items);
     let spacingH = grid_spacing (st_spacingH st) (st_spacing st);
     let spacingV = grid_spacing (st_spacingV st) (st_spacing st);
     (s2, ws, hs) \<leftarrow> grid_measure L cols 0 items (replicate cols 0) (replicate rows 0) s1;
     r \<leftarrow> rect_of s2 c;
     let availableWidth = lr_innerW r - bx_left pad - bx_right pad - grid_extent spacingH ws;
     let availableHeight = lr_innerH r - bx_top pad - bx_bottom pad - grid_extent spacingV hs;
     let n = grid_min r (grid_extent spacingH ws + (bx_left pad + bx_right pad))
                        (grid_extent spacingV hs + (bx_top pad + bx_bottom pad));
     if resizes r n then do {
       s3 \<leftarrow> layoutRect L (\<lambda>_. to_min n) c s2;
       s4 \<leftarrow> L c s3;
       forced_recalc L c s4 }
     else do {
       s3 \<leftarrow> (if lr_autoResize r then layoutRect L (\<lambda>_. n) c s2 else Some s2);
       let flexV = (if st_packV st = Some ''start'' then 0
                    else if availableHeight > 0 then of_int \<lfloor>availableHeight / of_nat rows\<rfloor> else 0);
       ws' \<leftarrow> grid_flex (st_flexWidths st) availableWidth ws;
       grid_place L (align_list (st_alignH st) (st_align st)) (align_list (st_alignV st) (st_align st))
         spacingH spacingV ws' hs flexV (bx_left pad) (bx_top pad) items s3 } }"

section \<open>All layouts\<close>

definition layout_step :: "(nat \<Rightarrow> ui \<Rightarrow> ui option) \<Rightarrow> nat \<Rightarrow> ui \<Rightarrow> ui option" where
  "layout_step L c s = (case ct_layout (ui_ctrl s c) of
     None \<Rightarrow> None
   | Some FlexLayout \<Rightarrow> flex_recalc L c s
   | Some FitLayout \<Rightarrow> fit_recalc L c s
   | Some AbsoluteLayout \<Rightarrow> absolute_recalc L c s
   | Some GridLayout \<Rightarrow> grid_recalc L c s
   | Some FlowLayout \<Rightarrow> flow_recalc L c s)"

primrec layout_recalc :: "nat \<Rightarrow> nat \<Rightarrow> ui \<Rightarrow> ui option" where
  "layout_recalc 0 = (\<lambda>c s. None)"
| "layout_recalc (Suc n) = layout_step (layout_recalc n)"

text \<open>\<open>reflow\<close> of \<open>Container.js\<close>: the controls that moved are repainted from the last one on.\<close>

definition reflow :: "nat \<Rightarrow> nat \<Rightarrow> ui \<Rightarrow> ui option" where
  "reflow n c s =
     (if \<not> ct_visible (ui_ctrl s c) then Some s
      else do {
        s1 \<leftarrow> container_recalc (layout_recalc n) c (s\<lparr>ui_repaint := Some []\<rparr>);
        moved \<leftarrow> ui_repaint s1;
        s2 \<leftarrow> each_item repaint (rev moved) s1;
        s3 \<leftarrow> (let l = st_layout (ct_settings (ui_ctrl s2 c)) in
               if l \<noteq> Some ''flow'' \<and> l \<noteq> Some ''stack'' then repaint c s2 else Some s2);
        Some (s3\<lparr>ui_repaint := None\<rparr>) })"

text \<open>\<open>Resizable.js\<close>: sizes up to 1 are parts of the window.\<close>

definition set_autoResize :: "nat \<Rightarrow> bool \<Rightarrow> ui \<Rightarrow> ui option" where
  "set_autoResize c b s = do {
     r \<leftarrow> rect_of s c;
     Some (upd c (\<lambda>k. k\<lparr>ct_rect := Some (r\<lparr>lr_autoResize := b\<rparr>)\<rparr>) s) }"

definition resizeToContent :: "nat \<Rightarrow> nat \<Rightarrow> ui \<Rightarrow> ui option" where
  "resizeToContent n c s = do {
     s1 \<leftarrow> set_autoResize c True s;
     reflow n c (upd c (\<lambda>k. k\<lparr>ct_lastRect := NullRect\<rparr>) s1) }"

definition window_part :: "bool \<Rightarrow> rat \<Rightarrow> rat \<Rightarrow> rat" where
  "window_part scaled full v = (if scaled \<and> v \<le> 1 then v * full else v)"

definition resizeTo :: "nat \<Rightarrow> rat \<Rightarrow> rat \<Rightarrow> nat \<Rightarrow> ui \<Rightarrow> ui option" where
  "resizeTo n w h c s = do {
     let scaled = (w \<le> 1 \<or> h \<le> 1);
     let w' = window_part scaled (fst (ui_window s)) w;
     let h' = window_part scaled (snd (ui_window s)) h;
     s1 \<leftarrow> set_autoResize c False s;
     s2 \<leftarrow> layoutRect (layout_recalc n)
       (\<lambda>_. no_rect\<lparr>nr_minW := Some w', nr_minH := Some h', nr_w := Some w', nr_h := Some h'\<rparr>) c s1;
     reflow n c s2 }"

definition resizeBy :: "nat \<Rightarrow> rat \<Rightarrow> rat \<Rightarrow> nat \<Rightarrow> ui \<Rightarrow> ui option" where
  "resizeBy n dw dh c s = do {
     (s1, r) \<leftarrow> get_rect (layout_recalc n) c s;
     resizeTo n (lr_w r + dw) (lr_h r + dh) c s1 }"

end
