(* ===== verification/UiFlex.thy ===== *)
theory UiFlex
  imports UiLayout
begin

text \<open>
  What the flex layout of \<open>UiLayout\<close> does to a container whose items are plain controls: it
  resizes its container at most three times before it places the items, and the items it
  places do not overlap, keep their size limits and stay inside the container.
\<close>

named_theorems flex_simps

section \<open>The size of the container\<close>

text \<open>The minimal size of a container whose contents need \<open>need\<close> on the main axis and \<open>far\<close> on the
  other one, and the rectangle after it has been resized to it.\<close>

definition need_min :: "axis \<Rightarrow> rat \<Rightarrow> rat \<Rightarrow> layout_rect \<Rightarrow> new_rect" where
  "need_min a need far r = flex_min a r \<lparr>fs_flex = 0, fs_space = ax_inner a r - need, fs_end = far, fs_maxItems = []\<rparr>"

definition resized :: "axis \<Rightarrow> rat \<Rightarrow> rat \<Rightarrow> layout_rect \<Rightarrow> layout_rect" where
  "resized a need far r = set_rect (\<lambda>_. to_min (need_min a need far r)) r"

lemma flex_min_need: "flex_min a r m = need_min a (ax_inner a r - fs_space m) (fs_end m) r"
  by (simp add: need_min_def flex_min_def Let_def)

text \<open>One step on the main axis: \<open>m\<close> is the minimal size, the container is resized to it.\<close>

definition next_min :: "rat \<Rightarrow> rat \<Rightarrow> rat \<Rightarrow> rat \<Rightarrow> rat \<Rightarrow> rat" where
  "next_min need delta hi start m =
     (let space = min m hi - delta - need in
      max (min (if space < 0 then m - space + delta else need + delta) hi) start)"

lemma next_min_settles:
  assumes "m = max (min q hi) start"
  shows "next_min need delta hi start (next_min need delta hi start (next_min need delta hi start m)) =
    next_min need delta hi start (next_min need delta hi start m)"
proof (cases "hi \<le> start")
  case True
  then have "next_min need delta hi start v = start" for v
    unfolding next_min_def Let_def by (intro max_absorb2 order_trans [OF min.cobounded2])
  then show ?thesis by simp
next
  case False
  define low where "low = max (min (need + delta) hi) start"
  define high where "high = max (min (need + delta + delta) hi) start"
  have step: "next_min need delta hi start v = (if v < need + delta then high else low)" if "v \<le> hi" for v
    unfolding next_min_def Let_def low_def high_def min_absorb1 [OF that] by simp
  have le: "m \<le> hi" "low \<le> hi" "high \<le> hi" using False unfolding assms low_def high_def by auto
  have fix1: "high < need + delta" if "low < need + delta"
    using that le(3) False unfolding low_def by (auto simp: min_def max_def split: if_splits)
  show ?thesis using le fix1 by (auto simp: step)
qed

definition ax_start :: "axis \<Rightarrow> layout_rect \<Rightarrow> rat" where
  "ax_start a r = pick a (lr_startMinWidth r) (lr_startMinHeight r)"

text \<open>The sizes of a rectangle go together.\<close>

definition sized_rect :: "axis \<Rightarrow> layout_rect \<Rightarrow> bool" where
  "sized_rect a r \<longleftrightarrow> ax_inner a r = ax_size a r - ax_delta a r \<and> min (ax_min a r) (ax_max a r) \<le> ax_size a r"

lemma clamp_to_same: "clamp_to v hi v = min v hi"
  by (simp add: clamp_to_def min_def)

lemma set_to_min:
  assumes "nr_x n = None" "nr_y n = None" "nr_innerW n = None" "nr_innerH n = None"
    and "nr_minW n = Some u" "nr_minH n = Some v" "nr_contentW n = Some p" "nr_contentH n = Some q"
  shows "set_rect (\<lambda>_. to_min n) r = r\<lparr>lr_minW := u, lr_minH := v, lr_w := min u (lr_maxW r),
    lr_innerW := min u (lr_maxW r) - lr_deltaW r, lr_h := min v (lr_maxH r), lr_innerH := min v (lr_maxH r) - lr_deltaH r,
    lr_contentW := p, lr_contentH := q\<rparr>"
  using assms by (simp add: set_rect_def to_min_def put_defs clamp_to_same Let_def)

definition main_min :: "axis \<Rightarrow> rat \<Rightarrow> layout_rect \<Rightarrow> rat" where
  "main_min a need r = max (min (if ax_inner a r < need then ax_min a r - (ax_inner a r - need) + ax_delta a r
     else need + ax_delta a r) (ax_max a r)) (ax_start a r)"

definition cross_min :: "axis \<Rightarrow> rat \<Rightarrow> layout_rect \<Rightarrow> rat" where
  "cross_min a far r = max (min (far + ax_delta (cross a) r) (ax_max (cross a) r)) (ax_start (cross a) r)"

lemma need_min_fields:
  "nr_x (need_min a need far r) = None" "nr_y (need_min a need far r) = None"
  "nr_innerW (need_min a need far r) = None" "nr_innerH (need_min a need far r) = None"
  "nr_minW (need_min a need far r) = Some (pick a (main_min a need r) (cross_min a far r))"
  "nr_minH (need_min a need far r) = Some (pick a (cross_min a far r) (main_min a need r))"
  "nr_contentW (need_min a need far r) = Some (pick a need far)"
  "nr_contentH (need_min a need far r) = Some (pick a far need)"
  by (cases a; simp add: need_min_def flex_min_def no_rect_def main_min_def cross_min_def axis_defs ax_start_def Let_def)+

lemmas resized_eq = resized_def [unfolded set_to_min [OF need_min_fields]]

lemma resized_facts:
  shows "ax_max b (resized a need far r) = ax_max b r"
    and "ax_delta b (resized a need far r) = ax_delta b r"
    and "ax_start b (resized a need far r) = ax_start b r"
    and "lr_autoResize (resized a need far r) = lr_autoResize r"
    and "ax_size b (resized a need far r) = min (ax_min b (resized a need far r)) (ax_max b r)"
    and "ax_inner b (resized a need far r) = ax_size b (resized a need far r) - ax_delta b r"
  by (cases b; simp add: resized_eq axis_defs ax_start_def)+

lemma resized_min:
  shows "ax_min a (resized a need far r) = main_min a need r"
    and "ax_min (cross a) (resized a need far r) = cross_min a far r"
  by (cases a; simp add: resized_eq axis_defs)+

lemma resizes_iff:
  "resizes r (need_min a need far r) \<longleftrightarrow> lr_autoResize r \<and>
     (main_min a need r \<noteq> ax_min a r \<or> cross_min a far r \<noteq> ax_min (cross a) r)"
  by (cases a; auto simp: resizes_def need_min_fields axis_defs)

lemma sized_resized [simp]: "sized_rect b (resized a need far r)"
  by (simp add: sized_rect_def resized_facts)

text \<open>After the first step the minimal size follows \<open>next_min\<close>.\<close>

lemma resized_again:
  assumes "q = resized a need far p"
  shows "main_min a need q = next_min need (ax_delta a p) (ax_max a p) (ax_start a p) (ax_min a q)"
    and "cross_min a far q = ax_min (cross a) q"
proof -
  have inner: "ax_inner a q = min (ax_min a q) (ax_max a p) - ax_delta a p"
    unfolding assms by (simp add: resized_facts)
  show "main_min a need q = next_min need (ax_delta a p) (ax_max a p) (ax_start a p) (ax_min a q)"
    unfolding main_min_def next_min_def inner Let_def by (simp add: assms resized_facts)
  show "cross_min a far q = ax_min (cross a) q"
    unfolding cross_min_def assms by (simp add: resized_facts resized_min(2) cross_min_def)
qed

lemma resizing_ends:
  fixes a need far r defines "step \<equiv> resized a need far"
  shows "\<not> resizes (step (step (step r))) (need_min a need far (step (step (step r))))"
proof -
  let ?f = "next_min need (ax_delta a r) (ax_max a r) (ax_start a r)"
  have m1: "\<exists>v. ax_min a (step r) = max (min v (ax_max a r)) (ax_start a r)"
    unfolding step_def resized_min main_min_def by blast
  have next_step: "main_min a need (step q) = ?f (ax_min a (step q))"
    if "ax_delta a q = ax_delta a r" "ax_max a q = ax_max a r" "ax_start a q = ax_start a r" for q
    unfolding step_def by (simp add: resized_again(1) [OF refl] that)
  have m2: "ax_min a (step (step r)) = ?f (ax_min a (step r))"
    by (subst step_def, unfold resized_min) (rule next_step; rule refl)
  have m3: "ax_min a (step (step (step r))) = ?f (ax_min a (step (step r)))"
    by (subst step_def, unfold resized_min) (rule next_step; simp add: step_def resized_facts)
  have "main_min a need (step (step (step r))) = ?f (ax_min a (step (step (step r))))"
    by (rule next_step; simp add: step_def resized_facts)
  also have "\<dots> = ax_min a (step (step (step r)))"
    unfolding m3 m2 using m1 next_min_settles by blast
  finally show ?thesis
    unfolding resizes_iff by (simp add: resized_again(2) step_def)
qed

text \<open>A container that has settled and may grow far enough has the space its contents need.\<close>

lemma settled_fits:
  assumes stop: "\<not> resizes r (need_min a need far r)" and auto: "lr_autoResize r"
    and ok: "sized_rect a r" "0 \<le> ax_delta a r" and room: "need + ax_delta a r \<le> ax_max a r"
  shows "need \<le> ax_inner a r"
proof (rule ccontr)
  assume "\<not> need \<le> ax_inner a r"
  then have short: "ax_inner a r < need" by simp
  let ?m = "ax_min a r - (ax_inner a r - need) + ax_delta a r"
  have "ax_min a r = max (min ?m (ax_max a r)) (ax_start a r)"
    using stop auto short unfolding resizes_iff main_min_def by simp
  moreover have "ax_inner a r = ax_size a r - ax_delta a r" "min (ax_min a r) (ax_max a r) \<le> ax_size a r"
    using ok(1) unfolding sized_rect_def by auto
  ultimately show False using short ok(2) room unfolding min_def max_def by (auto split: if_splits)
qed

section \<open>The loops over plain controls\<close>

text \<open>An item that is not a container and has a rectangle.\<close>

definition plain_item :: "ui \<Rightarrow> nat \<Rightarrow> bool" where
  "plain_item s i \<longleftrightarrow> ct_layout (ui_ctrl s i) = None \<and> ct_rect (ui_ctrl s i) \<noteq> None"

abbreviation the_rect :: "ui \<Rightarrow> nat \<Rightarrow> layout_rect" where
  "the_rect s i \<equiv> the (ct_rect (ui_ctrl s i))"

definition on_items :: "(control \<Rightarrow> control) \<Rightarrow> nat list \<Rightarrow> ui \<Rightarrow> ui" where
  "on_items f is s = s\<lparr>ui_ctrl := (\<lambda>j. if j \<in> set is then f (ui_ctrl s j) else ui_ctrl s j)\<rparr>"

lemma on_items_ctrl [simp]: "ui_ctrl (on_items f is s) j = (if j \<in> set is then f (ui_ctrl s j) else ui_ctrl s j)"
  by (simp add: on_items_def)

lemma on_items_frame [simp]: "ui_rtl (on_items f is s) = ui_rtl s"
  by (simp add: on_items_def)

lemma on_items_Nil [simp]: "on_items f [] s = s"
  by (simp add: on_items_def)

lemma on_items_Cons: "i \<notin> set is \<Longrightarrow> on_items f is (upd i f s) = on_items f (i # is) s"
  by (auto simp: on_items_def upd_def fun_eq_iff)

lemma on_items_id: "(\<And>j. j \<in> set is \<Longrightarrow> f (ui_ctrl s j) = ui_ctrl s j) \<Longrightarrow> on_items f is s = s"
  by (auto simp: on_items_def fun_eq_iff intro: ui.equality)

lemma get_rect_plain: "plain_item s i \<Longrightarrow> get_rect L i s = Some (s, the_rect s i)"
  by (auto simp: plain_item_def get_rect_def rect_of_def)

text \<open>The flex of an item, 0 when it has none, and the items that are flexed.\<close>

definition flex_of :: "control \<Rightarrow> rat" where
  "flex_of k = (case st_flex (ct_settings k) of None \<Rightarrow> 0 | Some v \<Rightarrow> max v 0)"

definition tag_flex :: "control \<Rightarrow> control" where
  "tag_flex k = (if 0 < flex_of k then k\<lparr>ct_rect := Some ((the (ct_rect k))\<lparr>lr_flex := Some (flex_of k)\<rparr>)\<rparr> else k)"

definition gaps :: "rat \<Rightarrow> nat list \<Rightarrow> rat" where
  "gaps spacing is = of_nat (length is - 1) * spacing"

definition far_end :: "axis \<Rightarrow> box \<Rightarrow> ui \<Rightarrow> nat list \<Rightarrow> rat \<Rightarrow> rat" where
  "far_end a pad s is e = foldl (\<lambda>e i. max e (bx_before (cross a) pad + ax_min (cross a) (the_rect s i) + bx_after (cross a) pad)) e is"

definition limited :: "axis \<Rightarrow> ui \<Rightarrow> nat list \<Rightarrow> nat list" where
  "limited a s is = filter (\<lambda>i. 0 < flex_of (ui_ctrl s i) \<and> ax_max a (the_rect s i) \<noteq> 0) is"

lemma flexed_eq:
  "(case st_flex (ct_settings k) of None \<Rightarrow> None | Some v \<Rightarrow> if v > 0 then Some v else None)
     = (if 0 < flex_of k then Some (flex_of k) else None)"
  by (auto simp: flex_of_def max_def split: option.splits)

lemma tag_flex_settings [simp]: "ct_settings (tag_flex k) = ct_settings k" "ct_layout (tag_flex k) = ct_layout k"
  "flex_of (tag_flex k) = flex_of k" "ct_visible (tag_flex k) = ct_visible k" "ct_items (tag_flex k) = ct_items k"
  by (simp_all add: tag_flex_def flex_of_def)

lemma tag_flex_rect [simp]:
  "ax_min b (the (ct_rect (tag_flex k))) = ax_min b (the (ct_rect k))"
  "ax_max b (the (ct_rect (tag_flex k))) = ax_max b (the (ct_rect k))"
  "ct_rect (tag_flex k) = None \<longleftrightarrow> ct_rect k = None \<and> \<not> 0 < flex_of k"
  by (cases b; simp add: tag_flex_def axis_defs)+

lemma larger: "(if e < v then v else e) = max e (v :: rat)"
  by (simp add: max_def)

lemma flex_of_cases: "flex_of k = 0 \<or> 0 < flex_of k"
  by (auto simp: flex_of_def max_def split: option.splits)

lemma limited_Cons: "limited a s (i # is) =
    (if 0 < flex_of (ui_ctrl s i) \<and> ax_max a (the_rect s i) \<noteq> 0 then i # limited a s is else limited a s is)"
  by (simp add: limited_def)

lemma far_end_Cons: "far_end a pad s (i # is) e =
    far_end a pad s is (max e (bx_before (cross a) pad + ax_min (cross a) (the_rect s i) + bx_after (cross a) pad))"
  by (simp add: far_end_def)

lemma collect_eq:
  assumes "distinct is" "\<forall>i\<in>set is. plain_item s i"
  shows "flex_collect L a pad spacing is m s = Some (on_items tag_flex is s,
    \<lparr>fs_flex = fs_flex m + (\<Sum>i\<leftarrow>is. flex_of (ui_ctrl s i)),
     fs_space = fs_space m - gaps spacing is - (\<Sum>i\<leftarrow>is. ax_min a (the_rect s i)),
     fs_end = far_end a pad s is (fs_end m), fs_maxItems = fs_maxItems m @ limited a s is\<rparr>)"
  using assms
proof (induction "is" arbitrary: m s)
  case Nil
  then show ?case by (simp add: gaps_def far_end_def limited_def)
next
  case (Cons i "is")
  let ?k = "ui_ctrl s i" and ?r = "the_rect s i"
  define s1 where "s1 = upd i tag_flex s"
  have i: "i \<notin> set is" "distinct is" "plain_item s i" using Cons.prems by auto
  have tag: "(if (if 0 < flex_of ?k then Some (flex_of ?k) else None) = None then s
      else upd i (\<lambda>k. k\<lparr>ct_rect := Some (?r\<lparr>lr_flex := (if 0 < flex_of ?k then Some (flex_of ?k) else None)\<rparr>)\<rparr>) s) = s1"
    by (auto simp: s1_def tag_flex_def upd_def fun_eq_iff intro!: ui.equality)
  have same: "ui_ctrl s1 j = ui_ctrl s j" if "j \<in> set is" for j using i(1) that by (auto simp: s1_def)
  have plain: "\<forall>j\<in>set is. plain_item s1 j" using Cons.prems(2) same by (simp add: plain_item_def)
  have sums: "(\<Sum>j\<leftarrow>is. flex_of (ui_ctrl s1 j)) = (\<Sum>j\<leftarrow>is. flex_of (ui_ctrl s j))"
      "(\<Sum>j\<leftarrow>is. ax_min a (the_rect s1 j)) = (\<Sum>j\<leftarrow>is. ax_min a (the_rect s j))"
      "limited a s1 is = limited a s is" "far_end a pad s1 is e = far_end a pad s is e" for e
    by (auto simp: same limited_def far_end_def intro!: arg_cong [where f = sum_list] filter_cong foldl_cong)
  have moved: "on_items tag_flex is s1 = on_items tag_flex (i # is) s"
    unfolding s1_def by (rule on_items_Cons [OF i(1)])
  have gap: "gaps spacing (i # is) = (if is = [] then 0 else spacing) + gaps spacing is"
    by (cases "is") (simp_all add: gaps_def field_simps)
  show ?case
    unfolding flex_collect.simps get_rect_plain [OF i(3)] Option.bind.bind_lunit prod.case Let_def flexed_eq tag
      Cons.IH [OF i(2) plain]
    using flex_of_cases [of ?k]
    by (elim disjE; simp add: sums gap limited_Cons far_end_Cons larger moved algebra_simps)
qed

text \<open>The items that come to their maximal size.\<close>

definition the_flex :: "layout_rect \<Rightarrow> rat" where
  "the_flex r = (case lr_flex r of None \<Rightarrow> 0 | Some v \<Rightarrow> v)"

definition capped :: "axis \<Rightarrow> rat \<Rightarrow> layout_rect \<Rightarrow> bool" where
  "capped a ratio r \<longleftrightarrow> ax_min a r + the_flex r * ratio > ax_max a r"

definition limit_item :: "axis \<Rightarrow> rat \<Rightarrow> control \<Rightarrow> control" where
  "limit_item a ratio k = (let r = the (ct_rect k) in
     k\<lparr>ct_rect := Some (if capped a ratio r then r\<lparr>lr_flex := Some 0, lr_maxFlexSize := Some (ax_max a r)\<rparr>
                       else r\<lparr>lr_maxFlexSize := Some 0\<rparr>)\<rparr>)"

lemma limit_eq:
  assumes "distinct is" "\<forall>i\<in>set is. \<exists>r v. ct_rect (ui_ctrl s i) = Some r \<and> lr_flex r = Some v"
  shows "flex_limit a ratio is space flexes s = Some (on_items (limit_item a ratio) is s,
     space - (\<Sum>i\<leftarrow>filter (\<lambda>i. capped a ratio (the_rect s i)) is. ax_max a (the_rect s i) - ax_min a (the_rect s i)),
     flexes - (\<Sum>i\<leftarrow>filter (\<lambda>i. capped a ratio (the_rect s i)) is. the_flex (the_rect s i)))"
  using assms
proof (induction "is" arbitrary: space flexes s)
  case Nil
  then show ?case by simp
next
  case (Cons i "is")
  have i: "i \<notin> set is" "distinct is" using Cons.prems by auto
  obtain r v where r: "ct_rect (ui_ctrl s i) = Some r" "lr_flex r = Some v" using Cons.prems(2) by auto
  define s1 where "s1 = upd i (limit_item a ratio) s"
  have same: "ui_ctrl s1 j = ui_ctrl s j" if "j \<in> set is" for j using i(1) that by (auto simp: s1_def)
  have flexed: "\<forall>j\<in>set is. \<exists>r v. ct_rect (ui_ctrl s1 j) = Some r \<and> lr_flex r = Some v"
    using Cons.prems(2) same by simp
  have filters: "filter (\<lambda>j. capped a ratio (the_rect s1 j)) is = filter (\<lambda>j. capped a ratio (the_rect s j)) is"
    by (rule filter_cong) (simp_all add: same)
  have sums: "(\<Sum>j\<leftarrow>filter (\<lambda>j. capped a ratio (the_rect s j)) is. f (ui_ctrl s1 j)) =
      (\<Sum>j\<leftarrow>filter (\<lambda>j. capped a ratio (the_rect s j)) is. f (ui_ctrl s j))" for f :: "control \<Rightarrow> rat"
    by (rule arg_cong [where f = sum_list], rule map_cong) (simp_all add: same)
  have moved: "on_items (limit_item a ratio) is s1 = on_items (limit_item a ratio) (i # is) s"
    unfolding s1_def by (rule on_items_Cons [OF i(1)])
  have state: "upd i (\<lambda>k. k\<lparr>ct_rect := Some (r\<lparr>lr_flex := Some 0, lr_maxFlexSize := Some (ax_max a r)\<rparr>)\<rparr>) s = s1"
    if "capped a ratio r" using that r by (simp add: s1_def upd_def limit_item_def Let_def fun_upd_def)
  have state': "upd i (\<lambda>k. k\<lparr>ct_rect := Some (r\<lparr>lr_maxFlexSize := Some 0\<rparr>)\<rparr>) s = s1"
    if "\<not> capped a ratio r" using that r by (simp add: s1_def upd_def limit_item_def Let_def fun_upd_def)
  have test: "ax_min a r + v * ratio > ax_max a r \<longleftrightarrow> capped a ratio r"
    using r(2) by (simp add: capped_def the_flex_def)
  have fl: "the_flex r = v" using r(2) by (simp add: the_flex_def)
  note IH = Cons.IH [OF i(2) flexed, unfolded filters sums [where f = "\<lambda>k. ax_max a (the (ct_rect k)) - ax_min a (the (ct_rect k))"]
      sums [where f = "\<lambda>k. the_flex (the (ct_rect k))"] moved]
  show ?case
    by (cases "capped a ratio r")
      (simp_all add: rect_of_def r test state state' IH fl del: on_items_ctrl)
qed

text \<open>Placing an item changes its rectangle only.\<close>

definition same_item :: "ui \<Rightarrow> ui \<Rightarrow> nat \<Rightarrow> bool" where
  "same_item s s' i \<longleftrightarrow> (\<exists>r l. ui_ctrl s' i = (ui_ctrl s i)\<lparr>ct_rect := Some r, ct_lastLayout := l\<rparr>)"

lemma layoutRect_rect:
  assumes "rect_of s i = Some r"
  shows "\<exists>l s'. layoutRect L f i s = Some s' \<and> ui_rtl s' = ui_rtl s \<and> (\<forall>j. ui_ctrl s' j =
    (if j = i then (ui_ctrl s i)\<lparr>ct_rect := Some (set_rect f r), ct_lastLayout := l\<rparr> else ui_ctrl s j))"
  unfolding layoutRect_def get_rect_def assms mark_moved_def Let_def
  by (cases "ct_lastLayout (ui_ctrl s i) =
      Some (lr_x (set_rect f r), lr_y (set_rect f r), lr_w (set_rect f r), lr_h (set_rect f r))")
    (auto intro: exI [of _ "ct_lastLayout (ui_ctrl s i)"])

text \<open>The object \<open>rect\<close> of the loop has positions and sizes only.\<close>

definition moves_only :: "new_rect \<Rightarrow> bool" where
  "moves_only n \<longleftrightarrow> nr_minW n = None \<and> nr_minH n = None \<and> nr_innerW n = None \<and> nr_innerH n = None
     \<and> nr_contentW n = None \<and> nr_contentH n = None"

lemma moves_only_step: "moves_only n \<Longrightarrow> moves_only (nr_at a pos (nr_sized a v (flex_align a al r pad item n)))"
  by (cases a) (auto simp: moves_only_def flex_align_def axis_defs)

lemma moves_only_start: "moves_only (nr_at b v no_rect)"
  by (cases b) (simp_all add: moves_only_def no_rect_def axis_defs)

lemma put_x_other [simp]: "lr_y (put_x n r) = lr_y r" "lr_w (put_x n r) = lr_w r" "lr_h (put_x n r) = lr_h r"
  "lr_minW (put_x n r) = lr_minW r" "lr_minH (put_x n r) = lr_minH r" "lr_maxW (put_x n r) = lr_maxW r" "lr_maxH (put_x n r) = lr_maxH r"
  by (simp_all add: put_x_def split: option.splits)

lemma put_y_other [simp]: "lr_x (put_y n r) = lr_x r" "lr_w (put_y n r) = lr_w r" "lr_h (put_y n r) = lr_h r"
  "lr_minW (put_y n r) = lr_minW r" "lr_minH (put_y n r) = lr_minH r" "lr_maxW (put_y n r) = lr_maxW r" "lr_maxH (put_y n r) = lr_maxH r"
  by (simp_all add: put_y_def split: option.splits)

lemma put_w_other [simp]: "lr_x (put_w n r) = lr_x r" "lr_y (put_w n r) = lr_y r" "lr_h (put_w n r) = lr_h r"
  "lr_minW (put_w n r) = lr_minW r" "lr_minH (put_w n r) = lr_minH r" "lr_maxW (put_w n r) = lr_maxW r" "lr_maxH (put_w n r) = lr_maxH r"
  by (simp_all add: put_w_def Let_def split: option.splits)

lemma put_h_other [simp]: "lr_x (put_h n r) = lr_x r" "lr_y (put_h n r) = lr_y r" "lr_w (put_h n r) = lr_w r"
  "lr_minW (put_h n r) = lr_minW r" "lr_minH (put_h n r) = lr_minH r" "lr_maxW (put_h n r) = lr_maxW r" "lr_maxH (put_h n r) = lr_maxH r"
  by (simp_all add: put_h_def Let_def split: option.splits)

lemma put_new:
  "nr_x n = Some v \<Longrightarrow> lr_x (put_x n r) = v" "nr_y n = Some v \<Longrightarrow> lr_y (put_y n r) = v"
  "nr_w n = Some v \<Longrightarrow> lr_w (put_w n r) = clamp_to (lr_minW r) (lr_maxW r) v"
  "nr_h n = Some v \<Longrightarrow> lr_h (put_h n r) = clamp_to (lr_minH r) (lr_maxH r) v"
  by (simp_all add: put_x_def put_y_def put_w_def put_h_def Let_def)

lemma set_moves:
  assumes "moves_only n"
  shows "set_rect (\<lambda>_. n) r = put_h n (put_w n (put_y n (put_x n r)))"
  using assms by (simp add: moves_only_def set_rect_def put_minW_def put_minH_def put_innerW_def put_innerH_def
      put_contentW_def put_contentH_def)

lemma placed_rect:
  assumes "moves_only n" and q_def: "q = set_rect (\<lambda>_. nr_at a pos (nr_sized a v (flex_align a al r pad item n))) r'"
  shows "ax_pos a q = pos" "ax_size a q = clamp_to (ax_min a r') (ax_max a r') v"
    and "ax_min b q = ax_min b r'" "ax_max b q = ax_max b r'"
proof -
  show "ax_pos a q = pos" "ax_size a q = clamp_to (ax_min a r') (ax_max a r') v"
    unfolding q_def set_moves [OF moves_only_step [OF assms(1)]]
    by (cases a; simp add: axis_defs put_new)+
  show "ax_min b q = ax_min b r'" "ax_max b q = ax_max b r'"
    unfolding q_def set_moves [OF moves_only_step [OF assms(1)]] by (cases b; simp add: axis_defs)+
qed

lemma same_item_plain:
  assumes "same_item s s' i"
  shows "ct_layout (ui_ctrl s' i) = ct_layout (ui_ctrl s i)" "ct_settings (ui_ctrl s' i) = ct_settings (ui_ctrl s i)"
    and "ct_visible (ui_ctrl s' i) = ct_visible (ui_ctrl s i)" "ct_rect (ui_ctrl s' i) \<noteq> None"
  using assms by (auto simp: same_item_def)

lemma place_step:
  assumes i: "plain_item s i" "c \<noteq> i" and c: "rect_of s c = Some r" and n: "moves_only n"
  obtains s1 n1 where
    "flex_place L c a al pad ratio spacing (i # is) pos n s =
       flex_place L c a al pad ratio spacing is (pos + (flex_size a ratio (the_rect s i) + spacing)) n1 s1"
    "moves_only n1" "\<And>j. j \<noteq> i \<Longrightarrow> ui_ctrl s1 j = ui_ctrl s j" "same_item s s1 i" "ui_rtl s1 = ui_rtl s"
    "ax_pos a (the_rect s1 i) = pos"
    "ax_size a (the_rect s1 i) = clamp_to (ax_min a (the_rect s i)) (ax_max a (the_rect s i)) (flex_size a ratio (the_rect s i))"
    "\<And>b. ax_min b (the_rect s1 i) = ax_min b (the_rect s i)" "\<And>b. ax_max b (the_rect s1 i) = ax_max b (the_rect s i)"
proof -
  define item where "item = the_rect s i"
  define n1 where "n1 = nr_at a pos (nr_sized a (flex_size a ratio item) (flex_align a al r pad item n))"
  have ri: "rect_of s i = Some item" using i(1) by (auto simp: plain_item_def rect_of_def item_def)
  obtain l s1 where s1: "layoutRect L (\<lambda>_. n1) i s = Some s1" "ui_rtl s1 = ui_rtl s"
    "\<forall>j. ui_ctrl s1 j = (if j = i then (ui_ctrl s i)\<lparr>ct_rect := Some (set_rect (\<lambda>_. n1) item), ct_lastLayout := l\<rparr>
      else ui_ctrl s j)"
    using layoutRect_rect [OF ri] by blast
  have same: "same_item s s1 i" using s1(3) by (auto simp: same_item_def)
  have leaf: "recalc_item L i s1 = Some s1"
    using i(1) s1(3) by (simp add: recalc_item_def plain_item_def)
  have "flex_place L c a al pad ratio spacing (i # is) pos n s =
       flex_place L c a al pad ratio spacing is (pos + (flex_size a ratio item + spacing)) n1 s1"
    unfolding flex_place.simps get_rect_plain [OF i(1)] Option.bind.bind_lunit prod.case c Let_def
      item_def [symmetric] n1_def [symmetric] s1(1) leaf ..
  moreover have "the_rect s1 i = set_rect (\<lambda>_. n1) item" using s1(3) by simp
  note placed_rect [OF n this [unfolded n1_def]]
  moreover have "moves_only n1" unfolding n1_def by (rule moves_only_step [OF n])
  ultimately show thesis using that [of n1 s1] same s1 unfolding item_def by auto
qed

lemma place_returns:
  assumes "distinct is" "c \<notin> set is" "\<forall>i\<in>set is. plain_item s i" "rect_of s c = Some r" "moves_only n"
  shows "\<exists>s'. flex_place L c a al pad ratio spacing is pos n s = Some s' \<and> ui_rtl s' = ui_rtl s
    \<and> (\<forall>j. j \<notin> set is \<longrightarrow> ui_ctrl s' j = ui_ctrl s j)
    \<and> (\<forall>i\<in>set is. same_item s s' i \<and> (\<forall>b. ax_min b (the_rect s' i) = ax_min b (the_rect s i)))"
  using assms
proof (induction "is" arbitrary: pos n s)
  case Nil
  then show ?case by simp
next
  case (Cons i "is")
  have i: "plain_item s i" "c \<noteq> i" "i \<notin> set is" using Cons.prems by auto
  obtain s1 n1 where 1: "flex_place L c a al pad ratio spacing (i # is) pos n s =
       flex_place L c a al pad ratio spacing is (pos + (flex_size a ratio (the_rect s i) + spacing)) n1 s1"
    "moves_only n1" "\<And>j. j \<noteq> i \<Longrightarrow> ui_ctrl s1 j = ui_ctrl s j" "same_item s s1 i" "ui_rtl s1 = ui_rtl s"
    "ax_pos a (the_rect s1 i) = pos"
    "ax_size a (the_rect s1 i) = clamp_to (ax_min a (the_rect s i)) (ax_max a (the_rect s i)) (flex_size a ratio (the_rect s i))"
    "\<And>b. ax_min b (the_rect s1 i) = ax_min b (the_rect s i)" "\<And>b. ax_max b (the_rect s1 i) = ax_max b (the_rect s i)"
    by (rule place_step [OF i(1,2) Cons.prems(4,5), of L a al pad ratio spacing "is" pos]) (rule that; assumption)
  have tail: "\<forall>j\<in>set is. ui_ctrl s1 j = ui_ctrl s j" using i(3) 1(3) by metis
  obtain s' where s': "flex_place L c a al pad ratio spacing is (pos + (flex_size a ratio (the_rect s i) + spacing)) n1 s1 = Some s'"
    "ui_rtl s' = ui_rtl s1" "\<And>j. j \<notin> set is \<Longrightarrow> ui_ctrl s' j = ui_ctrl s1 j"
    "\<And>j. j \<in> set is \<Longrightarrow> same_item s1 s' j \<and> (\<forall>b. ax_min b (the_rect s' j) = ax_min b (the_rect s1 j))"
    using Cons.IH [of s1 n1 "pos + (flex_size a ratio (the_rect s i) + spacing)"] Cons.prems tail 1
    by (auto simp: plain_item_def rect_of_def)
  have "same_item s s' j \<and> (\<forall>b. ax_min b (the_rect s' j) = ax_min b (the_rect s j))" if "j \<in> set (i # is)" for j
    using that s'(3) [of i] s'(4) [of j] tail 1(4,8) i(3) by (cases "j = i") (auto simp: same_item_def)
  then show ?case using s' 1 by auto
qed

text \<open>Controls side by side between two bounds.\<close>

fun row_in :: "axis \<Rightarrow> rat \<Rightarrow> rat \<Rightarrow> layout_rect list \<Rightarrow> bool" where
  "row_in a lo hi [] \<longleftrightarrow> lo \<le> hi"
| "row_in a lo hi (r # rs) \<longleftrightarrow> lo \<le> ax_pos a r \<and> row_in a (ax_pos a r + ax_size a r) hi rs"

definition size_limits :: "axis \<Rightarrow> layout_rect \<Rightarrow> bool" where
  "size_limits a r \<longleftrightarrow> 0 \<le> ax_min a r \<and> ax_min a r \<le> ax_max a r"

definition in_limits :: "axis \<Rightarrow> layout_rect \<Rightarrow> bool" where
  "in_limits a r \<longleftrightarrow> ax_min a r \<le> ax_size a r \<and> ax_size a r \<le> ax_max a r"

lemma gaps_Cons: "gaps spacing (i # j # is) = spacing + gaps spacing (j # is)"
  by (simp add: gaps_def field_simps)

lemma gaps_nonneg: "0 \<le> spacing \<Longrightarrow> 0 \<le> gaps spacing is"
  by (simp add: gaps_def)

lemma place_row:
  assumes "distinct is" "c \<notin> set is" "\<forall>i\<in>set is. plain_item s i" "rect_of s c = Some r" "moves_only n"
    and "\<forall>i\<in>set is. size_limits a (the_rect s i) \<and> ax_min a (the_rect s i) \<le> flex_size a ratio (the_rect s i)"
    and "0 \<le> spacing" "lo \<le> pos" "lo \<le> hi"
    and "is \<noteq> [] \<longrightarrow> pos + (\<Sum>i\<leftarrow>is. flex_size a ratio (the_rect s i)) + gaps spacing is \<le> hi"
    and "flex_place L c a al pad ratio spacing is pos n s = Some s'"
  shows "row_in a lo hi (map (the_rect s') is) \<and> (\<forall>i\<in>set is. in_limits a (the_rect s' i))"
  using assms
proof (induction "is" arbitrary: pos n s lo)
  case Nil
  then show ?case by simp
next
  case (Cons i "is")
  define z where "z = flex_size a ratio (the_rect s i)"
  have i: "plain_item s i" "c \<noteq> i" "i \<notin> set is" using Cons.prems by auto
  obtain s1 n1 where 1: "flex_place L c a al pad ratio spacing (i # is) pos n s =
       flex_place L c a al pad ratio spacing is (pos + (z + spacing)) n1 s1"
    "moves_only n1" "\<And>j. j \<noteq> i \<Longrightarrow> ui_ctrl s1 j = ui_ctrl s j" "same_item s s1 i" "ui_rtl s1 = ui_rtl s"
    "ax_pos a (the_rect s1 i) = pos"
    "ax_size a (the_rect s1 i) = clamp_to (ax_min a (the_rect s i)) (ax_max a (the_rect s i)) z"
    "\<And>b. ax_min b (the_rect s1 i) = ax_min b (the_rect s i)" "\<And>b. ax_max b (the_rect s1 i) = ax_max b (the_rect s i)"
    unfolding z_def by (rule place_step [OF i(1,2) Cons.prems(4,5), of L a al pad ratio spacing "is" pos]) (rule that [unfolded z_def]; assumption)
  have tail: "ui_ctrl s1 j = ui_ctrl s j" if "j \<in> set is" for j using i(3) 1(3) that by metis
  have lim: "0 \<le> ax_min a (the_rect s i)" "ax_min a (the_rect s i) \<le> ax_max a (the_rect s i)" "ax_min a (the_rect s i) \<le> z"
    using Cons.prems(6) by (auto simp: size_limits_def z_def)
  have size: "ax_min a (the_rect s i) \<le> ax_size a (the_rect s1 i)" "ax_size a (the_rect s1 i) \<le> ax_max a (the_rect s i)"
    "ax_size a (the_rect s1 i) \<le> z"
    using lim unfolding 1(7) clamp_to_def Let_def by auto
  have sizes: "(\<Sum>j\<leftarrow>is. flex_size a ratio (the_rect s1 j)) = (\<Sum>j\<leftarrow>is. flex_size a ratio (the_rect s j))"
    by (rule arg_cong [where f = sum_list], rule map_cong) (simp_all add: tail)
  have tail_pos: "0 \<le> (\<Sum>j\<leftarrow>is. flex_size a ratio (the_rect s j))"
    using Cons.prems(6) by (intro sum_list_nonneg) (auto simp: size_limits_def intro: order_trans)
  have room: "pos + z + (\<Sum>j\<leftarrow>is. flex_size a ratio (the_rect s j)) + gaps spacing (i # is) \<le> hi"
    using Cons.prems(10) by (simp add: z_def)
  have gap: "is \<noteq> [] \<longrightarrow> gaps spacing (i # is) = spacing + gaps spacing is"
    by (cases "is") (simp_all add: gaps_Cons)
  have end_pos: "pos + ax_size a (the_rect s1 i) \<le> hi"
    using room tail_pos size(3) gaps_nonneg [OF Cons.prems(7), of "i # is"] by linarith
  have "flex_place L c a al pad ratio spacing is (pos + (z + spacing)) n1 s1 = Some s'"
    using Cons.prems(11) unfolding 1(1) .
  moreover have "is \<noteq> [] \<longrightarrow> pos + (z + spacing) + (\<Sum>j\<leftarrow>is. flex_size a ratio (the_rect s1 j)) + gaps spacing is \<le> hi"
    using room gap unfolding sizes by (auto simp: algebra_simps)
  moreover have "pos + ax_size a (the_rect s1 i) \<le> pos + (z + spacing)" using size(3) Cons.prems(7) by linarith
  ultimately have IH: "row_in a (pos + ax_size a (the_rect s1 i)) hi (map (the_rect s') is) \<and> (\<forall>j\<in>set is. in_limits a (the_rect s' j))"
    using Cons.IH [of s1 n1 "pos + ax_size a (the_rect s1 i)" "pos + (z + spacing)"] Cons.prems 1(2,3) i end_pos tail
    by (auto simp: plain_item_def rect_of_def)
  have rest: "\<forall>j\<in>set is. plain_item s1 j" using Cons.prems(3) tail by (simp add: plain_item_def)
  have "ui_ctrl s' i = ui_ctrl s1 i"
    using place_returns [of "is" c s1 r n1 L a al pad ratio spacing "pos + (z + spacing)"] Cons.prems(1,2,4) rest 1 i
      Cons.prems(11) by (auto simp: rect_of_def)
  then show ?case using IH size Cons.prems(8) 1(6,8,9) by (simp add: in_limits_def)
qed

section \<open>The sizes of the items\<close>

lemma sum_split:
  fixes mn mx f :: "nat \<Rightarrow> rat"
  shows "(\<Sum>i\<leftarrow>is. if C i then mx i else mn i + f i * \<rho>) = (\<Sum>i\<leftarrow>is. mn i) + (\<Sum>i\<leftarrow>filter C is. mx i - mn i)
    + ((\<Sum>i\<leftarrow>is. f i) - (\<Sum>i\<leftarrow>filter C is. f i)) * \<rho>"
  by (induction "is") (auto simp: algebra_simps)

lemma sum_filter_le:
  fixes f :: "nat \<Rightarrow> rat"
  assumes "\<forall>i\<in>set is. 0 \<le> f i"
  shows "(\<Sum>i\<leftarrow>filter C is. f i) \<le> (\<Sum>i\<leftarrow>is. f i)" "0 \<le> (\<Sum>i\<leftarrow>is. f i)"
  using assms by (induction "is") auto

text \<open>What the items at their maximal size take does not exceed the space that is to be shared.\<close>

lemma capped_space:
  fixes mn mx f :: "nat \<Rightarrow> rat"
  assumes "\<forall>i\<in>set is. 0 \<le> f i" "0 \<le> space" "\<And>i. C i \<longleftrightarrow> 0 < f i \<and> mx i < mn i + f i * (space / (\<Sum>i\<leftarrow>is. f i))"
  shows "(\<Sum>i\<leftarrow>filter C is. mx i - mn i) \<le> space"
proof -
  let ?F = "\<Sum>i\<leftarrow>is. f i" and ?Fc = "\<Sum>i\<leftarrow>filter C is. f i"
  have "(\<Sum>i\<leftarrow>filter C is. mx i - mn i) \<le> (\<Sum>i\<leftarrow>filter C is. f i * (space / ?F))"
    using assms(3) by (intro sum_list_mono) auto
  also have "\<dots> = ?Fc * (space / ?F)" by (rule sum_list_mult_const)
  also have "\<dots> \<le> ?F * (space / ?F)"
    using sum_filter_le [OF assms(1)] assms(2) by (intro mult_right_mono) auto
  also have "\<dots> \<le> space" using assms(2) by (cases "?F = 0") auto
  finally show ?thesis .
qed

text \<open>Numbers a flex layout is meant for: an item without a flex has no traces of one.\<close>

definition flex_number :: "axis \<Rightarrow> control \<Rightarrow> bool" where
  "flex_number a k \<longleftrightarrow> (let r = the (ct_rect k) in size_limits a r \<and> 0 < ax_max a r
     \<and> (flex_of k = 0 \<longrightarrow> lr_flex r = None \<and> lr_maxFlexSize r = None))"

lemma flex_number_tag [simp]: "flex_number a (tag_flex k) = flex_number a k"
  using tag_flex_settings(3) [of k]
  by (cases a; cases "0 < flex_of k") (simp_all add: flex_number_def tag_flex_def size_limits_def axis_defs Let_def)

text \<open>The rectangle of an item when the loop that places it starts.\<close>

definition ready_item :: "axis \<Rightarrow> rat \<Rightarrow> control \<Rightarrow> control" where
  "ready_item a ratio k = (if 0 < flex_of k \<and> ax_max a (the (ct_rect k)) \<noteq> 0 then limit_item a ratio (tag_flex k) else tag_flex k)"

definition is_capped :: "axis \<Rightarrow> rat \<Rightarrow> control \<Rightarrow> bool" where
  "is_capped a ratio k \<longleftrightarrow> 0 < flex_of k \<and>
     ax_max a (the (ct_rect k)) < ax_min a (the (ct_rect k)) + flex_of k * ratio"

lemma the_flex_tag: "0 < flex_of k \<Longrightarrow> the_flex (the (ct_rect (tag_flex k))) = flex_of k"
  by (simp add: tag_flex_def the_flex_def)

lemma capped_tag: "0 < flex_of k \<Longrightarrow> capped a ratio (the (ct_rect (tag_flex k))) = is_capped a ratio k"
  by (simp add: capped_def is_capped_def the_flex_tag)

lemma ready_rect: "ax_min b (the (ct_rect (ready_item a ratio k))) = ax_min b (the (ct_rect k))"
  "ax_max b (the (ct_rect (ready_item a ratio k))) = ax_max b (the (ct_rect k))"
  by (cases b; simp add: ready_item_def limit_item_def tag_flex_def axis_defs Let_def)+

lemma ready_size:
  assumes "flex_number a k"
  shows "flex_size a \<rho> (the (ct_rect (ready_item a ratio k))) =
    (if is_capped a ratio k then ax_max a (the (ct_rect k)) else ax_min a (the (ct_rect k)) + flex_of k * \<rho>)"
proof (cases "0 < flex_of k")
  case True
  have mx: "ax_max a (the (ct_rect k)) \<noteq> 0" using assms by (simp add: flex_number_def Let_def)
  show ?thesis
  proof (cases "is_capped a ratio k")
    case True
    then show ?thesis
      using \<open>0 < flex_of k\<close> mx capped_tag [OF \<open>0 < flex_of k\<close>]
      by (simp add: ready_item_def limit_item_def flex_size_def or_num_def Let_def)
  next
    case False
    then have "lr_flex (the (ct_rect (tag_flex k))) = Some (flex_of k)"
      using \<open>0 < flex_of k\<close> by (simp add: tag_flex_def)
    then show ?thesis
      using \<open>0 < flex_of k\<close> mx False capped_tag [OF \<open>0 < flex_of k\<close>] tag_flex_rect(1) [of a k]
      by (cases a) (simp_all add: ready_item_def limit_item_def flex_size_def or_num_def axis_defs Let_def)
  qed
next
  case False
  then have "flex_of k = 0" using flex_of_cases by auto
  then show ?thesis
    using assms by (auto simp: ready_item_def flex_size_def is_capped_def tag_flex_def flex_number_def or_num_def Let_def)
qed

lemma ready_size_min:
  assumes "flex_number a k" "0 \<le> \<rho>"
  shows "ax_min a (the (ct_rect k)) \<le> flex_size a \<rho> (the (ct_rect (ready_item a ratio k)))"
  using assms flex_of_cases [of k] unfolding ready_size [OF assms(1)]
  by (auto simp: flex_number_def size_limits_def Let_def)

section \<open>One call of the layout\<close>

definition flex_axis_of :: "ui \<Rightarrow> nat \<Rightarrow> axis" where
  "flex_axis_of s c = flex_axis (flex_direction s (ct_settings (ui_ctrl s c)))"

definition flex_items :: "ui \<Rightarrow> nat \<Rightarrow> nat list" where
  "flex_items s c = (if flex_reversed (flex_direction s (ct_settings (ui_ctrl s c)))
     then rev (visible_items s c) else visible_items s c)"

definition flex_spacing :: "ui \<Rightarrow> nat \<Rightarrow> rat" where
  "flex_spacing s c = or_num (st_spacing (ct_settings (ui_ctrl s c))) 0"

definition the_padding :: "ui \<Rightarrow> nat \<Rightarrow> box" where
  "the_padding s c = the (ct_padding (ui_ctrl s c))"

text \<open>What the contents need inside the container. The code takes the padding before the items
  twice and leaves out the one after them.\<close>

definition flex_need :: "ui \<Rightarrow> nat \<Rightarrow> rat" where
  "flex_need s c = (let a = flex_axis_of s c in 2 * bx_before a (the_padding s c)
     + gaps (flex_spacing s c) (flex_items s c) + (\<Sum>i\<leftarrow>flex_items s c. ax_min a (the_rect s i)))"

definition flex_far :: "ui \<Rightarrow> nat \<Rightarrow> rat" where
  "flex_far s c = far_end (flex_axis_of s c) (the_padding s c) s (flex_items s c) 0"

text \<open>A flex container with its rectangle set, whose visible items are plain controls, and which
  does not send the layout to its parent.\<close>

definition flex_container :: "ui \<Rightarrow> nat \<Rightarrow> bool" where
  "flex_container s c \<longleftrightarrow> ct_layout (ui_ctrl s c) = Some FlexLayout \<and> ct_rect (ui_ctrl s c) \<noteq> None
     \<and> ct_padding (ui_ctrl s c) \<noteq> None \<and> (ct_lastRect (ui_ctrl s c) \<noteq> NullRect \<or> ct_parent (ui_ctrl s c) = None)
     \<and> distinct (flex_items s c) \<and> (\<forall>i\<in>set (flex_items s c). plain_item s i)"

lemma flex_containerD:
  assumes "flex_container s c"
  shows "rect_of s c = Some (the_rect s c)" "ct_padding (ui_ctrl s c) = Some (the_padding s c)"
    and "distinct (flex_items s c)" "\<forall>i\<in>set (flex_items s c). plain_item s i" "c \<notin> set (flex_items s c)"
    and "ct_layout (ui_ctrl s c) = Some FlexLayout"
  using assms by (auto simp: flex_container_def rect_of_def the_padding_def plain_item_def)

text \<open>The state when the items are about to be placed, and the sums of the second loop.\<close>

definition main_space :: "ui \<Rightarrow> nat \<Rightarrow> rat" where
  "main_space s c = ax_inner (flex_axis_of s c) (the_rect s c) - flex_need s c"

definition total_flex :: "ui \<Rightarrow> nat \<Rightarrow> rat" where
  "total_flex s c = (\<Sum>i\<leftarrow>flex_items s c. flex_of (ui_ctrl s i))"

definition ready :: "ui \<Rightarrow> nat \<Rightarrow> ui" where
  "ready s c = on_items (ready_item (flex_axis_of s c) (main_space s c / total_flex s c)) (flex_items s c) s"

definition capped_items :: "ui \<Rightarrow> nat \<Rightarrow> nat list" where
  "capped_items s c = filter (\<lambda>i. is_capped (flex_axis_of s c) (main_space s c / total_flex s c) (ui_ctrl s i))
     (limited (flex_axis_of s c) s (flex_items s c))"

definition left_space :: "ui \<Rightarrow> nat \<Rightarrow> rat" where
  "left_space s c = main_space s c - (\<Sum>i\<leftarrow>capped_items s c. ax_max (flex_axis_of s c) (the_rect s i) - ax_min (flex_axis_of s c) (the_rect s i))"

definition left_flex :: "ui \<Rightarrow> nat \<Rightarrow> rat" where
  "left_flex s c = total_flex s c - (\<Sum>i\<leftarrow>capped_items s c. flex_of (ui_ctrl s i))"

definition place_start :: "ui \<Rightarrow> nat \<Rightarrow> rat \<times> rat" where
  "place_start s c = flex_start (flex_axis_of s c) (flex_pack s (ct_settings (ui_ctrl s c))) (the_rect s c) (the_padding s c)
     (left_space s c) (left_flex s c) (length (flex_items s c)) (flex_spacing s c)"

lemma limit_ready:
  assumes "flex_container s c"
  defines "is \<equiv> flex_items s c" and "a \<equiv> flex_axis_of s c"
  shows "flex_limit a (main_space s c / total_flex s c) (limited a s is) (main_space s c) (total_flex s c) (on_items tag_flex is s) =
    Some (ready s c, left_space s c, left_flex s c)"
proof -
  let ?M = "limited a s is" and ?\<rho> = "main_space s c / total_flex s c" and ?s = "on_items tag_flex is s"
  have d: "distinct is" using flex_containerD [OF assms(1)] by (simp add: is_def)
  have M: "i \<in> set is" "0 < flex_of (ui_ctrl s i)" "ax_max a (the_rect s i) \<noteq> 0" if "i \<in> set ?M" for i
    using that by (auto simp: limited_def)
  have flexed: "\<forall>i\<in>set ?M. \<exists>r v. ct_rect (ui_ctrl ?s i) = Some r \<and> lr_flex r = Some v"
    using M by (auto simp: tag_flex_def)
  have caps: "filter (\<lambda>i. capped a ?\<rho> (the_rect ?s i)) ?M = capped_items s c"
    unfolding capped_items_def is_def [symmetric] a_def [symmetric]
    by (rule filter_cong) (simp_all add: M capped_tag)
  have C: "i \<in> set is" "0 < flex_of (ui_ctrl s i)" if "i \<in> set (capped_items s c)" for i
    using that M by (auto simp: capped_items_def is_def a_def)
  have sums: "(\<Sum>i\<leftarrow>capped_items s c. the_flex (the_rect ?s i)) = (\<Sum>i\<leftarrow>capped_items s c. flex_of (ui_ctrl s i))"
    "(\<Sum>i\<leftarrow>capped_items s c. ax_max a (the_rect ?s i) - ax_min a (the_rect ?s i)) =
       (\<Sum>i\<leftarrow>capped_items s c. ax_max a (the_rect s i) - ax_min a (the_rect s i))"
    using C by (auto intro!: arg_cong [where f = sum_list] simp: the_flex_tag)
  have state: "on_items (limit_item a ?\<rho>) ?M ?s = ready s c"
    unfolding ready_def is_def [symmetric] a_def [symmetric]
    by (auto simp: on_items_def fun_eq_iff ready_item_def limited_def)
  show ?thesis
    unfolding limit_eq [OF distinct_filter [OF d, of "\<lambda>i. 0 < flex_of (ui_ctrl s i) \<and> ax_max a (the_rect s i) \<noteq> 0",
        folded limited_def] flexed] caps sums state
    by (simp add: left_space_def left_flex_def a_def)
qed

lemma flex_recalc_eq:
  assumes ok: "flex_container s c"
  defines "is \<equiv> flex_items s c" and "a \<equiv> flex_axis_of s c" and "n \<equiv> need_min (flex_axis_of s c) (flex_need s c) (flex_far s c) (the_rect s c)"
  shows "flex_recalc L c s = (if resizes (the_rect s c) n
    then do { s3 \<leftarrow> layoutRect L (\<lambda>_. to_min n) c (on_items tag_flex is s); s4 \<leftarrow> L c s3; forced_recalc L c s4 }
    else flex_place L c a (st_align (ct_settings (ui_ctrl s c))) (the_padding s c) (left_space s c / left_flex s c)
      (snd (place_start s c)) is (fst (place_start s c)) (nr_at (cross a) (bx_before (cross a) (the_padding s c)) no_rect) (ready s c))"
proof -
  note D = flex_containerD [OF ok]
  let ?m = "\<lparr>fs_flex = total_flex s c, fs_space = main_space s c, fs_end = flex_far s c, fs_maxItems = limited a s is\<rparr>"
  have get: "get_rect L c s = Some (s, the_rect s c)" by (simp add: get_rect_def D)
  have collect: "flex_collect L a (the_padding s c) (flex_spacing s c) is
       \<lparr>fs_flex = 0, fs_space = ax_inner a (the_rect s c) - bx_before a (the_padding s c) - bx_before a (the_padding s c),
        fs_end = 0, fs_maxItems = []\<rparr> s = Some (on_items tag_flex is s, ?m)"
    using D unfolding is_def by (subst collect_eq)
      (simp_all add: total_flex_def main_space_def flex_need_def flex_far_def a_def Let_def algebra_simps)
  have rc: "rect_of (on_items tag_flex is s) c = Some (the_rect s c)"
    using D(1,5) by (simp add: rect_of_def is_def)
  have min_eq: "flex_min a (the_rect s c) ?m = n"
    unfolding flex_min_need by (simp add: n_def a_def main_space_def)
  have lim: "flex_limit a (main_space s c / total_flex s c) (limited a s is) (main_space s c) (total_flex s c)
      (on_items tag_flex is s) = Some (ready s c, left_space s c, left_flex s c)"
    unfolding is_def a_def by (rule limit_ready [OF ok])
  have "flex_axis (flex_direction s (ct_settings (ui_ctrl s c))) = a" by (simp add: a_def flex_axis_of_def)
  moreover have "(if flex_reversed (flex_direction s (ct_settings (ui_ctrl s c))) then rev (visible_items s c) else visible_items s c) = is"
    by (simp add: is_def flex_items_def)
  ultimately show ?thesis
    unfolding flex_recalc_def get Option.bind.bind_lunit prod.case D(2) Let_def flex_spacing_def [symmetric]
    by (simp only: collect rc min_eq lim Option.bind.bind_lunit prod.case flex_sum.simps place_start_def is_def [symmetric] a_def [symmetric])
qed

end
