(* ===== verification/UiFlexProps.thy ===== *)
theory UiFlexProps
  imports UiFlex
begin

text \<open>
  The flex layout of a container with plain controls (\<open>UiLayout\<close>, \<open>UiFlex\<close>): it always returns,
  and the controls are inside the container, side by side and within their size limits.
\<close>

section \<open>Placing\<close>

lemma ready_ctrl: "ui_ctrl (ready s c) j = (if j \<in> set (flex_items s c)
    then ready_item (flex_axis_of s c) (main_space s c / total_flex s c) (ui_ctrl s j) else ui_ctrl s j)"
  by (simp add: ready_def)

lemma ready_item_keeps [simp]: "ct_settings (ready_item a \<rho> k) = ct_settings k" "ct_layout (ready_item a \<rho> k) = ct_layout k"
  "ct_visible (ready_item a \<rho> k) = ct_visible k" "ct_items (ready_item a \<rho> k) = ct_items k"
  "ct_rect k \<noteq> None \<Longrightarrow> ct_rect (ready_item a \<rho> k) \<noteq> None"
  by (simp_all add: ready_item_def limit_item_def tag_flex_def Let_def)

lemma stop_state:
  assumes ok: "flex_container s c" and stop: "\<not> resizes (the_rect s c) (need_min (flex_axis_of s c) (flex_need s c) (flex_far s c) (the_rect s c))"
  shows "\<exists>s'. flex_recalc L c s = Some s' \<and> ui_rtl s' = ui_rtl s \<and> (\<forall>j. j \<notin> set (flex_items s c) \<longrightarrow> ui_ctrl s' j = ui_ctrl s j)
    \<and> (\<forall>i\<in>set (flex_items s c). ct_settings (ui_ctrl s' i) = ct_settings (ui_ctrl s i)
        \<and> ct_visible (ui_ctrl s' i) = ct_visible (ui_ctrl s i) \<and> (\<forall>b. ax_min b (the_rect s' i) = ax_min b (the_rect s i)))"
proof -
  note D = flex_containerD [OF ok]
  have plain: "\<forall>i\<in>set (flex_items s c). plain_item (ready s c) i"
    using D(4) by (simp add: plain_item_def ready_ctrl)
  have rc: "rect_of (ready s c) c = Some (the_rect s c)" using D(1,5) by (simp add: rect_of_def ready_ctrl)
  have rtl: "ui_rtl (ready s c) = ui_rtl s" by (simp add: ready_def)
  note P = place_returns [OF D(3,5) plain rc moves_only_start, of L _ _ _ _ _ _ "cross (flex_axis_of s c)"
      "bx_before (cross (flex_axis_of s c)) (the_padding s c)"]
  show ?thesis
    using P [of "flex_axis_of s c" "st_align (ct_settings (ui_ctrl s c))" "the_padding s c" "left_space s c / left_flex s c"
        "snd (place_start s c)" "fst (place_start s c)"]
    unfolding flex_recalc_eq [OF ok] if_not_P [OF stop] rtl
    by (elim exE) (auto simp: ready_ctrl ready_rect same_item_plain)
qed

section \<open>The row\<close>

lemma js_round_half: "0 \<le> v \<Longrightarrow> 0 \<le> js_round (v / 2) \<and> js_round (v / 2) \<le> v"
proof -
  assume v: "0 \<le> v"
  have "of_int \<lfloor>v / 2 + 1 / 2\<rfloor> \<le> v"
  proof (cases "v < 1")
    case True
    then have "\<lfloor>v / 2 + 1 / 2\<rfloor> = 0" using v by (simp add: floor_eq_iff)
    then show ?thesis using v by simp
  next
    case False
    have "of_int \<lfloor>v / 2 + 1 / 2\<rfloor> \<le> v / 2 + 1 / 2" by (rule of_int_floor_le)
    then show ?thesis using False by linarith
  qed
  moreover have "(0 :: rat) \<le> of_int \<lfloor>v / 2 + 1 / 2\<rfloor>" using v by simp
  ultimately show ?thesis unfolding js_round_def by blast
qed

lemma start_bounds:
  assumes left: "0 \<le> left" "0 \<le> spacing" and n: "n = length is" "is \<noteq> []"
    and st: "(pos, sp) = flex_start a pack r pad left flexes n spacing"
  shows "0 \<le> sp" "bx_before a pad \<le> pos"
    and "pos + gaps sp is \<le> bx_before a pad + gaps spacing is + (if flexes = 0 then left else 0)"
proof -
  have half: "js_round (ax_inner a r / 2 - (ax_inner a r - left) / 2) = js_round (left / 2)"
    by (simp add: field_simps)
  have just: "0 \<le> (of_int \<lfloor>left / (of_nat n - 1)\<rfloor> :: rat)" "gaps (of_int \<lfloor>left / (of_nat n - 1)\<rfloor>) is \<le> left"
  proof -
    have n1: "of_nat (length is - 1) = (of_nat n - 1 :: rat)" "(0 :: rat) \<le> of_nat n - 1"
      using n by (cases "is"; simp)+
    show "0 \<le> (of_int \<lfloor>left / (of_nat n - 1)\<rfloor> :: rat)" using left n1(2) by simp
    have "gaps (of_int \<lfloor>left / (of_nat n - 1)\<rfloor>) is \<le> (of_nat n - 1) * (left / (of_nat n - 1))"
      unfolding gaps_def n1(1) by (rule mult_left_mono [OF of_int_floor_le n1(2)])
    also have "\<dots> \<le> left" using left by (cases "of_nat n = (1 :: rat)") auto
    finally show "gaps (of_int \<lfloor>left / (of_nat n - 1)\<rfloor>) is \<le> left" .
  qed
  have g: "0 \<le> gaps spacing is" by (rule gaps_nonneg [OF left(2)])
  note b = js_round_half [OF left(1)]
  consider (none) "pos = bx_before a pad" "sp = spacing"
    | (pack) "flexes = 0" "bx_before a pad \<le> pos" "pos \<le> bx_before a pad + left" "sp = spacing"
    | (justify) "flexes = 0" "pos = bx_before a pad" "sp = of_int \<lfloor>left / (of_nat n - 1)\<rfloor>"
    using st b left(1) unfolding flex_start_def half Let_def by (auto split: if_splits)
  then show "0 \<le> sp" "bx_before a pad \<le> pos"
    "pos + gaps sp is \<le> bx_before a pad + gaps spacing is + (if flexes = 0 then left else 0)"
    by (cases; use left g just in auto)+
qed

lemma flex_of_nonneg: "0 \<le> flex_of k"
  using flex_of_cases [of k] by auto

definition flex_numbers :: "ui \<Rightarrow> nat \<Rightarrow> bool" where
  "flex_numbers s c \<longleftrightarrow> 0 \<le> flex_spacing s c \<and> (\<forall>i\<in>set (flex_items s c). flex_number (flex_axis_of s c) (ui_ctrl s i))"

text \<open>The items in their order, with the padding before them kept free at both ends, as in the
  code.\<close>

definition items_fit :: "ui \<Rightarrow> nat \<Rightarrow> bool" where
  "items_fit s c \<longleftrightarrow> (let a = flex_axis_of s c; before = bx_before a (the_padding s c) in
     row_in a before (ax_inner a (the_rect s c) - before) (map (the_rect s) (flex_items s c))
     \<and> (\<forall>i\<in>set (flex_items s c). in_limits a (the_rect s i)))"

lemma left_bounds:
  assumes nums: "flex_numbers s c" and room: "flex_need s c \<le> ax_inner (flex_axis_of s c) (the_rect s c)"
  shows "0 \<le> left_space s c" "0 \<le> left_flex s c"
    and "(\<Sum>i\<leftarrow>flex_items s c. flex_size (flex_axis_of s c) (left_space s c / left_flex s c) (the_rect (ready s c) i)) =
      (\<Sum>i\<leftarrow>flex_items s c. ax_min (flex_axis_of s c) (the_rect s i)) + main_space s c - (if left_flex s c = 0 then left_space s c else 0)"
proof -
  define a "is" f mn mx C \<rho> where abs: "a = flex_axis_of s c" "is = flex_items s c" "f = (\<lambda>i. flex_of (ui_ctrl s i))"
    "mn = (\<lambda>i. ax_min a (the_rect s i))" "mx = (\<lambda>i. ax_max a (the_rect s i))"
    "C = (\<lambda>i. is_capped a (main_space s c / total_flex s c) (ui_ctrl s i))" "\<rho> = left_space s c / left_flex s c"
  have num: "flex_number a (ui_ctrl s i)" if "i \<in> set is" for i using nums that by (simp add: flex_numbers_def abs)
  have mx0: "ax_max a (the_rect s i) \<noteq> 0" if "i \<in> set is" for i using num [OF that] by (simp add: flex_number_def Let_def)
  have caps: "capped_items s c = filter C is"
    unfolding capped_items_def limited_def abs(1,2) [symmetric] using mx0
    by (auto simp: abs(6) is_capped_def intro!: filter_cong)
  have f: "\<forall>i\<in>set is. 0 \<le> f i" using flex_of_nonneg by (simp add: abs(3))
  have total: "total_flex s c = (\<Sum>i\<leftarrow>is. f i)" by (simp add: total_flex_def abs)
  have space: "0 \<le> main_space s c" using room by (simp add: main_space_def)
  have C: "C i \<longleftrightarrow> 0 < f i \<and> mx i < mn i + f i * (main_space s c / (\<Sum>i\<leftarrow>is. f i))" for i
    by (simp add: is_capped_def abs(3-6) total)
  have ls: "left_space s c = main_space s c - (\<Sum>i\<leftarrow>filter C is. mx i - mn i)"
    by (simp add: left_space_def caps abs)
  have lf: "left_flex s c = (\<Sum>i\<leftarrow>is. f i) - (\<Sum>i\<leftarrow>filter C is. f i)"
    by (simp add: left_flex_def caps total abs(3))
  show "0 \<le> left_space s c" unfolding ls using capped_space [of "is" f "main_space s c" C mx mn, OF f space C] by simp
  show "0 \<le> left_flex s c" unfolding lf using sum_filter_le [OF f] by simp
  have "(\<Sum>i\<leftarrow>is. flex_size a \<rho> (the_rect (ready s c) i)) = (\<Sum>i\<leftarrow>is. if C i then mx i else mn i + f i * \<rho>)"
    using num by (intro arg_cong [where f = sum_list] map_cong)
      (simp_all add: ready_ctrl abs(1,2) [symmetric] ready_size abs(3-6))
  also have "\<dots> = (\<Sum>i\<leftarrow>is. mn i) + main_space s c - left_space s c + left_flex s c * \<rho>"
    unfolding sum_split ls lf by simp
  finally show "(\<Sum>i\<leftarrow>flex_items s c. flex_size (flex_axis_of s c) (left_space s c / left_flex s c) (the_rect (ready s c) i)) =
      (\<Sum>i\<leftarrow>flex_items s c. ax_min (flex_axis_of s c) (the_rect s i)) + main_space s c - (if left_flex s c = 0 then left_space s c else 0)"
    unfolding abs(1,2) [symmetric] abs(7) [symmetric] by (simp add: abs(4,7))
qed

lemma stop_row:
  assumes ok: "flex_container s c" and stop: "\<not> resizes (the_rect s c) (need_min (flex_axis_of s c) (flex_need s c) (flex_far s c) (the_rect s c))"
    and nums: "flex_numbers s c" and room: "flex_need s c \<le> ax_inner (flex_axis_of s c) (the_rect s c)"
    and s': "flex_recalc L c s = Some s'"
  defines "a \<equiv> flex_axis_of s c" and "is \<equiv> flex_items s c" and "lo \<equiv> bx_before (flex_axis_of s c) (the_padding s c)"
  shows "row_in a lo (ax_inner a (the_rect s c) - lo) (map (the_rect s') is) \<and> (\<forall>i\<in>set is. in_limits a (the_rect s' i))"
proof -
  note D = flex_containerD [OF ok]
  let ?hi = "ax_inner a (the_rect s c) - lo" and ?\<rho> = "left_space s c / left_flex s c"
  let ?sum = "\<Sum>i\<leftarrow>is. ax_min a (the_rect s i)"
  have num: "flex_number a (ui_ctrl s i)" if "i \<in> set is" for i using nums that by (simp add: flex_numbers_def is_def a_def)
  have sp: "0 \<le> flex_spacing s c" using nums by (simp add: flex_numbers_def)
  have pos_sum: "0 \<le> ?sum" using num by (intro sum_list_nonneg) (auto simp: flex_number_def size_limits_def Let_def)
  have need: "flex_need s c = 2 * lo + gaps (flex_spacing s c) is + ?sum"
    by (simp add: flex_need_def Let_def is_def a_def lo_def)
  have main: "main_space s c = ax_inner a (the_rect s c) - flex_need s c" by (simp add: main_space_def a_def)
  note left = left_bounds [OF nums room]
  have lohi: "lo \<le> ?hi"
    using room pos_sum gaps_nonneg [OF sp, of "is"] need unfolding a_def by linarith
  have place: "flex_place L c a (st_align (ct_settings (ui_ctrl s c))) (the_padding s c) ?\<rho> (snd (place_start s c)) is
      (fst (place_start s c)) (nr_at (cross a) (bx_before (cross a) (the_padding s c)) no_rect) (ready s c) = Some s'"
    using s' unfolding flex_recalc_eq [OF ok] if_not_P [OF stop] is_def a_def .
  show ?thesis
  proof (cases "is = []")
    case True
    then show ?thesis using lohi by simp
  next
    case False
    have st: "(fst (place_start s c), snd (place_start s c)) = flex_start a (flex_pack s (ct_settings (ui_ctrl s c)))
        (the_rect s c) (the_padding s c) (left_space s c) (left_flex s c) (length is) (flex_spacing s c)"
      by (simp add: place_start_def is_def a_def)
    note B = start_bounds [OF left(1) sp refl False st]
    have plain: "\<forall>i\<in>set is. plain_item (ready s c) i"
      using D(4) by (simp add: plain_item_def ready_ctrl is_def)
    have rc: "rect_of (ready s c) c = Some (the_rect s c)" using D(1,5) by (simp add: rect_of_def ready_ctrl)
    have lims: "\<forall>i\<in>set is. size_limits a (the_rect (ready s c) i) \<and> ax_min a (the_rect (ready s c) i) \<le> flex_size a ?\<rho> (the_rect (ready s c) i)"
      using num ready_size_min [of a _ ?\<rho>] left
      by (auto simp: ready_ctrl is_def [symmetric] a_def [symmetric] size_limits_def ready_rect flex_number_def Let_def)
    have "fst (place_start s c) + (\<Sum>i\<leftarrow>is. flex_size a ?\<rho> (the_rect (ready s c) i)) + gaps (snd (place_start s c)) is \<le> ?hi"
      using B(3) left(3) unfolding is_def [symmetric] a_def [symmetric] main need lo_def [folded a_def, symmetric]
      by (simp split: if_splits)
    then show ?thesis
      by (intro place_row [OF D(3,5) [folded is_def] plain rc moves_only_start lims B(1) _ lohi _ place])
        (use B(2) in \<open>simp_all add: lo_def a_def\<close>)
  qed
qed

section \<open>Resizing the container\<close>

lemma resize_state:
  assumes ok: "flex_container s c"
  defines "a \<equiv> flex_axis_of s c" and "need \<equiv> flex_need s c" and "far \<equiv> flex_far s c" and "is \<equiv> flex_items s c"
  assumes more: "resizes (the_rect s c) (need_min a need far (the_rect s c))"
  obtains s3 where "flex_recalc L c s = do { s4 \<leftarrow> L c s3; forced_recalc L c s4 }"
    "flex_container s3 c" "the_rect s3 c = resized a need far (the_rect s c)" "same_item s s3 c"
    "flex_axis_of s3 c = a" "flex_need s3 c = need" "flex_far s3 c = far" "flex_items s3 c = is"
    "flex_numbers s3 c = flex_numbers s c" "the_padding s3 c = the_padding s c"
proof -
  note D = flex_containerD [OF ok]
  let ?n = "need_min a need far (the_rect s c)" and ?s = "on_items tag_flex is s"
  have rc: "rect_of ?s c = Some (the_rect s c)" using D(1,5) by (simp add: rect_of_def is_def)
  obtain l s3 where s3: "layoutRect L (\<lambda>_. to_min ?n) c ?s = Some s3" "ui_rtl s3 = ui_rtl ?s"
    "\<forall>j. ui_ctrl s3 j = (if j = c then (ui_ctrl ?s c)\<lparr>ct_rect := Some (set_rect (\<lambda>_. to_min ?n) (the_rect s c)), ct_lastLayout := l\<rparr>
      else ui_ctrl ?s j)"
    using layoutRect_rect [OF rc] by blast
  have c: "ui_ctrl s3 c = (ui_ctrl s c)\<lparr>ct_rect := Some (resized a need far (the_rect s c)), ct_lastLayout := l\<rparr>"
    using s3(3) D(5) by (simp add: is_def resized_def)
  have j: "ui_ctrl s3 j = tag_flex (ui_ctrl s j)" if "j \<in> set is" for j using s3(3) that D(5) by (auto simp: is_def)
  have vis: "ct_visible (ui_ctrl s3 j) = ct_visible (ui_ctrl s j)" for j using s3(3) by simp
  have ax: "flex_axis_of s3 c = a" using s3(2) by (simp add: flex_axis_of_def a_def flex_direction_def c)
  have its: "flex_items s3 c = is"
    using s3(2) by (simp add: flex_items_def is_def flex_direction_def visible_items_def c vis)
  have pad: "the_padding s3 c = the_padding s c" "flex_spacing s3 c = flex_spacing s c"
    by (simp_all add: the_padding_def flex_spacing_def c)
  have mins: "(\<Sum>i\<leftarrow>is. ax_min a (the_rect s3 i)) = (\<Sum>i\<leftarrow>is. ax_min a (the_rect s i))"
    by (intro arg_cong [where f = sum_list] map_cong) (simp_all add: j)
  have fars: "far_end a p s3 is e = far_end a p s is e" for p e
    unfolding far_end_def by (rule foldl_cong) (simp_all add: j)
  have "flex_container s3 c"
    using ok s3(2) unfolding flex_container_def its by (auto simp: c j is_def plain_item_def)
  moreover have "flex_need s3 c = need" "flex_far s3 c = far"
    by (simp_all add: flex_need_def flex_far_def ax its pad need_def far_def a_def is_def Let_def
        mins [unfolded a_def is_def] fars [unfolded a_def is_def])
  moreover have "flex_numbers s3 c = flex_numbers s c"
    by (simp add: flex_numbers_def ax its pad a_def is_def j [unfolded is_def])
  moreover have "flex_recalc L c s = do { s4 \<leftarrow> L c s3; forced_recalc L c s4 }"
    unfolding flex_recalc_eq [OF ok] a_def [symmetric] need_def [symmetric] far_def [symmetric] is_def [symmetric]
    using more s3(1) by simp
  moreover have "same_item s s3 c" unfolding same_item_def using c by blast
  ultimately show thesis using that [of s3] c ax its pad by simp
qed

lemma forced_none:
  "ct_lastRect (ui_ctrl s c) \<noteq> NullRect \<or> ct_parent (ui_ctrl s c) = None \<Longrightarrow> forced_recalc L c s = Some s"
  by (auto simp: forced_recalc_def)

text \<open>What the layout has reached when it returns.\<close>

definition same_limits :: "layout_rect \<Rightarrow> layout_rect \<Rightarrow> bool" where
  "same_limits r q \<longleftrightarrow> lr_autoResize q = lr_autoResize r \<and> (\<not> lr_autoResize r \<longrightarrow> q = r)
     \<and> (\<forall>b. ax_max b q = ax_max b r \<and> ax_delta b q = ax_delta b r \<and> (sized_rect b r \<longrightarrow> sized_rect b q))"

lemma same_limits_refl [simp]: "same_limits r r"
  by (simp add: same_limits_def)

lemma same_limits_resized: "resizes r n \<Longrightarrow> same_limits (resized a need far r) q \<Longrightarrow> same_limits r q"
  by (auto simp: same_limits_def resized_facts resizes_def)

definition laid_out :: "ui \<Rightarrow> nat \<Rightarrow> ui \<Rightarrow> bool" where
  "laid_out s c s' \<longleftrightarrow> same_item s s' c \<and> flex_axis_of s' c = flex_axis_of s c \<and> flex_items s' c = flex_items s c
     \<and> \<not> resizes (the_rect s' c) (need_min (flex_axis_of s c) (flex_need s c) (flex_far s c) (the_rect s' c))
     \<and> same_limits (the_rect s c) (the_rect s' c)
     \<and> (flex_numbers s c \<and> flex_need s c \<le> ax_inner (flex_axis_of s c) (the_rect s' c) \<longrightarrow> items_fit s' c)"

lemma same_item_trans: "same_item s s1 c \<Longrightarrow> same_item s1 s2 c \<Longrightarrow> same_item s s2 c"
  unfolding same_item_def by (elim exE) (simp, blast)

lemma same_item_refl: "ct_rect (ui_ctrl s c) \<noteq> None \<Longrightarrow> ui_ctrl s' c = ui_ctrl s c \<Longrightarrow> same_item s s' c"
  by (auto simp: same_item_def intro!: exI [of _ "the_rect s c"] exI [of _ "ct_lastLayout (ui_ctrl s c)"])

lemma layout_flex: "ct_layout (ui_ctrl s c) = Some FlexLayout \<Longrightarrow> layout_recalc (Suc n) c s = flex_recalc (layout_recalc n) c s"
  by (simp add: layout_step_def)

lemma stops_laid_out:
  assumes ok: "flex_container s c" and stop: "\<not> resizes (the_rect s c) (need_min (flex_axis_of s c) (flex_need s c) (flex_far s c) (the_rect s c))"
  shows "\<exists>s'. flex_recalc L c s = Some s' \<and> laid_out s c s' \<and> the_rect s' c = the_rect s c"
proof -
  note D = flex_containerD [OF ok]
  obtain s' where s': "flex_recalc L c s = Some s'" "ui_rtl s' = ui_rtl s" "\<And>j. j \<notin> set (flex_items s c) \<Longrightarrow> ui_ctrl s' j = ui_ctrl s j"
    "\<And>i. i \<in> set (flex_items s c) \<Longrightarrow> ct_visible (ui_ctrl s' i) = ct_visible (ui_ctrl s i)"
    using stop_state [OF ok stop] by metis
  have c: "ui_ctrl s' c = ui_ctrl s c" by (rule s'(3) [OF D(5)])
  have vis: "ct_visible (ui_ctrl s' j) = ct_visible (ui_ctrl s j)" for j
    using s'(3) [of j] s'(4) [of j] by (cases "j \<in> set (flex_items s c)") auto
  have ax: "flex_axis_of s' c = flex_axis_of s c" "flex_items s' c = flex_items s c" "the_padding s' c = the_padding s c"
    using s'(2) by (simp_all add: flex_axis_of_def flex_items_def flex_direction_def visible_items_def the_padding_def c vis)
  have "items_fit s' c" if "flex_numbers s c" "flex_need s c \<le> ax_inner (flex_axis_of s c) (the_rect s c)"
    using stop_row [OF ok stop that s'(1)] by (simp add: items_fit_def Let_def ax c)
  moreover have "same_item s s' c" using ok c by (intro same_item_refl) (auto simp: flex_container_def)
  ultimately show ?thesis
    using s'(1) stop ax by (auto simp: laid_out_def c)
qed

lemma recalc_steps:
  assumes "flex_container s c"
    and "\<not> resizes ((resized (flex_axis_of s c) (flex_need s c) (flex_far s c) ^^ k) (the_rect s c))
      (need_min (flex_axis_of s c) (flex_need s c) (flex_far s c)
        ((resized (flex_axis_of s c) (flex_need s c) (flex_far s c) ^^ k) (the_rect s c)))"
  shows "\<exists>s'. layout_recalc (Suc k + n) c s = Some s' \<and> laid_out s c s'"
  using assms
proof (induction k arbitrary: s)
  case 0
  then show ?case
    using stops_laid_out [OF 0(1), of "layout_recalc n"] layout_flex [OF flex_containerD(6) [OF 0(1)], of n] by auto
next
  case (Suc k)
  let ?step = "resized (flex_axis_of s c) (flex_need s c) (flex_far s c)"
  note flex = layout_flex [OF flex_containerD(6) [OF Suc.prems(1)]]
  show ?case
  proof (cases "resizes (the_rect s c) (need_min (flex_axis_of s c) (flex_need s c) (flex_far s c) (the_rect s c))")
    case False
    then obtain s' where "flex_recalc (layout_recalc (Suc k + n)) c s = Some s'" "laid_out s c s'"
      using stops_laid_out [OF Suc.prems(1) False] by metis
    then show ?thesis using flex [of "Suc k + n"] by auto
  next
    case True
    obtain s3 where s3: "flex_recalc (layout_recalc (Suc k + n)) c s =
        do { s4 \<leftarrow> layout_recalc (Suc k + n) c s3; forced_recalc (layout_recalc (Suc k + n)) c s4 }"
      "flex_container s3 c" "the_rect s3 c = ?step (the_rect s c)" "same_item s s3 c"
      "flex_axis_of s3 c = flex_axis_of s c" "flex_need s3 c = flex_need s c" "flex_far s3 c = flex_far s c"
      "flex_items s3 c = flex_items s c" "flex_numbers s3 c = flex_numbers s c" "the_padding s3 c = the_padding s c"
      by (rule resize_state [OF Suc.prems(1) True, of "layout_recalc (Suc k + n)"])
    obtain s4 where s4: "layout_recalc (Suc k + n) c s3 = Some s4" "laid_out s3 c s4"
      using Suc.IH [OF s3(2)] Suc.prems(2) by (auto simp: s3 funpow_swap1)
    have same: "same_item s s4 c" using s3(4) s4(2) by (auto simp: laid_out_def intro: same_item_trans)
    have "ct_lastRect (ui_ctrl s4 c) \<noteq> NullRect \<or> ct_parent (ui_ctrl s4 c) = None"
      using Suc.prems(1) same by (auto simp: flex_container_def same_item_def)
    then have "layout_recalc (Suc (Suc k) + n) c s = Some s4"
      using flex [of "Suc k + n"] s3(1) s4(1) by (simp add: forced_none)
    moreover have "laid_out s c s4"
      using s4(2) same same_limits_resized [OF True, of "flex_axis_of s c" "flex_need s c" "flex_far s c" "the_rect s4 c"]
      unfolding laid_out_def by (simp add: s3)
    ultimately show ?thesis by blast
  qed
qed

lemma recalc_laid_out:
  assumes "flex_container s c" "4 \<le> n"
  shows "\<exists>s'. layout_recalc n c s = Some s' \<and> laid_out s c s'"
proof -
  define step where "step = resized (flex_axis_of s c) (flex_need s c) (flex_far s c)"
  have three: "(step ^^ 3) r = step (step (step r))" for r by (simp add: eval_nat_numeral)
  obtain m where n: "n = Suc 3 + m" using assms(2) by (auto simp: le_iff_add)
  show ?thesis
    unfolding n by (rule recalc_steps [OF assms(1)], fold step_def, unfold three, unfold step_def) (rule resizing_ends)
qed

section \<open>An example\<close>

text \<open>A container with three controls: one of 30 that is flexed and at most 40 wide, one of 20, and
  one of 10 that is flexed twice as much.\<close>

definition no_settings :: ctrl_settings where
  "no_settings = \<lparr>st_x = None, st_y = None, st_w = None, st_h = None, st_minWidth = None, st_minHeight = None,
     st_maxWidth = None, st_maxHeight = None, st_width = None, st_height = None, st_autoResize = None, st_flex = None,
     st_layout = None, st_direction = None, st_align = None, st_pack = None, st_packV = None, st_spacing = None,
     st_spacingH = None, st_spacingV = None, st_columns = None, st_alignH = None, st_alignV = None, st_flexWidths = None\<rparr>"

definition no_box :: box where
  "no_box = \<lparr>bx_top = 0, bx_right = 0, bx_bottom = 0, bx_left = 0\<rparr>"

definition no_paint :: painted where
  "no_paint = \<lparr>pt_x = None, pt_y = None, pt_w = None, pt_h = None, pt_innerW = None, pt_innerH = None\<rparr>"

definition new_control :: "ctrl_settings \<Rightarrow> rat \<Rightarrow> box \<Rightarrow> nat option \<Rightarrow> nat list \<Rightarrow> layout_kind option \<Rightarrow> control" where
  "new_control st w pad parent items layout = init_control \<lparr>ct_settings = st,
     ct_element = \<lparr>el_width = w, el_height = 20, el_border = no_box, el_padding = pad, el_margin = no_box\<rparr>,
     ct_visible = True, ct_rendered = True, ct_display = True, ct_parent = parent, ct_items = items, ct_layout = layout,
     ct_border = None, ct_padding = None, ct_margin = None, ct_rect = None, ct_lastLayout = None, ct_lastRect = NoRect,
     ct_painted = no_paint, ct_style = no_paint\<rparr>"

definition demo_ui :: ui where
  "demo_ui = \<lparr>ui_ctrl = (\<lambda>i.
       if i = 0 then new_control (no_settings\<lparr>st_flex := Some 1, st_maxWidth := Some 40\<rparr>) 30 no_box (Some 9) [] None
       else if i = 1 then new_control no_settings 20 no_box (Some 9) [] None
       else if i = 2 then new_control (no_settings\<lparr>st_flex := Some 2\<rparr>) 10 no_box (Some 9) [] None
       else new_control (no_settings\<lparr>st_spacing := Some 5, st_width := Some 150\<rparr>) 100
         \<lparr>bx_top = 3, bx_right = 8, bx_bottom = 3, bx_left = 8\<rparr> None [0, 1, 2] (Some FlexLayout)),
     ui_rtl = False, ui_repaint = None, ui_old_ie = False, ui_window = (800, 600)\<rparr>"

lemmas demo_defs = demo_ui_def new_control_def init_control_def init_rect_def no_settings_def no_box_def or_num_def
  truthy_def Let_def

lemma demo_view:
  "flex_axis_of demo_ui 9 = AxisX" "flex_items demo_ui 9 = [0, 1, 2]" "flex_spacing demo_ui 9 = 5"
  by (simp_all add: flex_axis_of_def flex_items_def visible_items_def flex_spacing_def flex_direction_def flex_reversed_def
      flex_axis_def demo_defs)

lemma demo_container: "flex_container demo_ui 9"
  unfolding flex_container_def demo_view by (simp add: plain_item_def demo_defs)

lemma demo_numbers: "flex_numbers demo_ui 9"
  unfolding flex_numbers_def demo_view
  by (simp add: flex_number_def size_limits_def flex_of_def axis_defs demo_defs)

lemma demo_need: "flex_need demo_ui 9 = 86"
  unfolding flex_need_def demo_view Let_def by (simp add: gaps_def the_padding_def axis_defs demo_defs)

text \<open>The padding after the items is not kept: the item covers the right padding of 10.\<close>

definition padded_ui :: ui where
  "padded_ui = \<lparr>ui_ctrl = (\<lambda>i.
       if i = 0 then new_control (no_settings\<lparr>st_flex := Some 1\<rparr>) 30 no_box (Some 9) [] None
       else new_control (no_settings\<lparr>st_width := Some 100\<rparr>) 100
         \<lparr>bx_top = 0, bx_right = 10, bx_bottom = 0, bx_left = 0\<rparr> None [0] (Some FlexLayout)),
     ui_rtl = False, ui_repaint = None, ui_old_ie = False, ui_window = (800, 600)\<rparr>"

lemma right_padding_covered:
  "map_option (\<lambda>s. lr_w (the_rect s 0)) (layout_recalc 1 9 padded_ui) = Some 100"
  by code_simp
text \<open>The layout of the example: the first control is at its limit.\<close>

lemma demo_layout: "map_option (\<lambda>s. map (\<lambda>i. (lr_x (the_rect s i), lr_w (the_rect s i))) [0, 1, 2]) (layout_recalc 1 9 demo_ui)
   = Some [(8, 40), (53, 20), (78, 64)]"
  by code_simp

section \<open>Properties\<close>

text \<open>C19. Recalculating a flex container whose visible items are plain controls ends, whatever the
  sizes, limits, paddings and settings are: the container resizes itself three times at most, and
  in the end its minimal size is the one the layout computes for it, so that it does not resize
  itself again.\<close>

theorem flex_layout_settles:
  assumes "flex_container s c" and "4 \<le> n"
  shows "\<exists>s'. layout_recalc n c s = Some s' \<and>
    \<not> resizes (the_rect s' c) (need_min (flex_axis_of s c) (flex_need s c) (flex_far s c) (the_rect s' c))"
  using recalc_laid_out [OF assms] by (auto simp: laid_out_def)

lemma flex_layout_settles_witness:
  "\<exists>s'. layout_recalc 4 9 demo_ui = Some s' \<and>
    \<not> resizes (the_rect s' 9) (need_min (flex_axis_of demo_ui 9) (flex_need demo_ui 9) (flex_far demo_ui 9) (the_rect s' 9))"
  by (rule flex_layout_settles [OF demo_container order_refl])

text \<open>C6. The items of a flex container stay inside it: when the container is large enough for their
  minimal sizes, or resizes itself and is allowed to become so, each visible item ends before the
  next one starts, the first starts behind the padding before the items, the last ends at least as far from the
  other side as that same padding (the code takes it on both sides), and no item is smaller or larger than its
  limits, in every direction, packing and alignment and with every mixture of flexed, limited and fixed items. This is about
  the main axis of the container and about items that are plain controls.\<close>

theorem flex_items_fit:
  assumes "flex_container s c" and "flex_numbers s c" and "4 \<le> n"
    and "let a = flex_axis_of s c; r = the_rect s c in
      if lr_autoResize r then sized_rect a r \<and> 0 \<le> ax_delta a r \<and> flex_need s c + ax_delta a r \<le> ax_max a r
      else flex_need s c \<le> ax_inner a r"
  shows "\<exists>s'. layout_recalc n c s = Some s' \<and> items_fit s' c"
proof -
  let ?a = "flex_axis_of s c"
  obtain s' where s': "layout_recalc n c s = Some s'" "laid_out s c s'"
    using recalc_laid_out [OF assms(1,3)] by blast
  have same: "same_limits (the_rect s c) (the_rect s' c)" using s'(2) by (simp add: laid_out_def)
  have "flex_need s c \<le> ax_inner ?a (the_rect s' c)"
  proof (cases "lr_autoResize (the_rect s c)")
    case True
    then show ?thesis
      using s'(2) same assms(4)
      by (intro settled_fits [of "the_rect s' c" ?a "flex_need s c" "flex_far s c"])
        (auto simp: laid_out_def same_limits_def Let_def)
  next
    case False
    then show ?thesis using same assms(4) by (simp add: same_limits_def Let_def)
  qed
  then show ?thesis using s' assms(2) by (auto simp: laid_out_def)
qed

lemma flex_items_fit_witness: "\<exists>s'. layout_recalc 4 9 demo_ui = Some s' \<and> items_fit s' 9"
proof (rule flex_items_fit [OF demo_container demo_numbers order_refl])
  show "let a = flex_axis_of demo_ui 9; r = the_rect demo_ui 9 in
      if lr_autoResize r then sized_rect a r \<and> 0 \<le> ax_delta a r \<and> flex_need demo_ui 9 + ax_delta a r \<le> ax_max a r
      else flex_need demo_ui 9 \<le> ax_inner a r"
    unfolding demo_view demo_need Let_def by (simp add: axis_defs demo_defs)
qed

end
