(* ===== verification/DomEvents.thy ===== *)
theory DomEvents
  imports Observable "HOL-Library.AList"
begin

text \<open>
  Events of the document (\<open>classes/dom/EventUtils.js\<close>): binding callbacks to targets, the native
  listeners behind them, unbinding, firing and cleaning. Targets, callbacks and scopes are numbers.
  What a callback does is the parameter \<open>run\<close>, a function of the callback, its scope, the event and
  the state (a callback may bind and unbind), whose last result says that it returned false. What the
  document says of a target is the parameter \<open>doc\<close>. The browser has \<open>addEventListener\<close>; names of
  events are not those of properties that every object inherits.
\<close>

section \<open>State\<close>

text \<open>A native handler is a function object: what it does, and the id it was made for. \<open>HReady h\<close> is
  \<open>readyHandler\<close> around the handler with number \<open>h\<close>.\<close>

datatype handler = HDefault nat | HMouse nat | HFocus nat | HReady nat

record callback_list =
  cl_items :: "(nat \<times> nat) list"
  cl_fakeName :: "ustring option"
  cl_capture :: bool
  cl_native :: nat

text \<open>\<open>ev_events\<close>: the object \<open>events\<close> with the lists as objects of their own; \<open>ev_native\<close>: the
  listeners the browser has (target, name, handler, capture).\<close>

record events =
  ev_count :: nat
  ev_expando :: "nat \<Rightarrow> nat option"
  ev_events :: "nat \<Rightarrow> (ustring \<times> nat) list option"
  ev_lists :: "nat \<Rightarrow> callback_list"
  ev_fresh :: nat
  ev_handlers :: "handler list"
  ev_native :: "(nat \<times> ustring \<times> nat \<times> bool) list"
  ev_domLoaded :: bool
  ev_hasFocusIn :: bool
  ev_hasMouseEnterLeave :: bool

definition new_EventUtils :: "bool \<Rightarrow> bool \<Rightarrow> events" where
  "new_EventUtils focusIn mouse = \<lparr>ev_count = 1, ev_expando = (\<lambda>_. None), ev_events = (\<lambda>_. None),
     ev_lists = (\<lambda>_. \<lparr>cl_items = [], cl_fakeName = None, cl_capture = False, cl_native = 0\<rparr>), ev_fresh = 0,
     ev_handlers = [], ev_native = [], ev_domLoaded = False, ev_hasFocusIn = focusIn, ev_hasMouseEnterLeave = mouse\<rparr>"

text \<open>\<open>dc_plain\<close>: a text node or a comment; \<open>dc_up\<close>: the parent, the document or the window of a
  target; \<open>dc_complete\<close>: the ready state of a target, \<open>dc_doc_complete\<close> of its document.\<close>

record document =
  dc_plain :: "nat \<Rightarrow> bool"
  dc_up :: "nat \<Rightarrow> nat option"
  dc_complete :: "nat \<Rightarrow> bool"
  dc_doc_complete :: "nat \<Rightarrow> bool"
  dc_contains :: "nat \<Rightarrow> nat \<Rightarrow> bool"
  dc_document :: nat

type_synonym runner = "nat \<Rightarrow> nat \<Rightarrow> event_args \<Rightarrow> events \<Rightarrow> event_args \<times> events \<times> bool"

section \<open>Native listeners\<close>

text \<open>The browser adds a listener once.\<close>

definition addEvent :: "nat \<Rightarrow> ustring \<Rightarrow> nat \<Rightarrow> bool \<Rightarrow> events \<Rightarrow> events" where
  "addEvent target name h capture s =
     (if (target, name, h, capture) \<in> set (ev_native s) then s
      else s\<lparr>ev_native := ev_native s @ [(target, name, h, capture)]\<rparr>)"

definition removeEvent :: "nat \<Rightarrow> ustring \<Rightarrow> nat \<Rightarrow> bool \<Rightarrow> events \<Rightarrow> events" where
  "removeEvent target name h capture s = s\<lparr>ev_native := filter (\<lambda>l. l \<noteq> (target, name, h, capture)) (ev_native s)\<rparr>"

definition new_handler :: "handler \<Rightarrow> events \<Rightarrow> events \<times> nat" where
  "new_handler h s = (s\<lparr>ev_handlers := ev_handlers s @ [h]\<rparr>, length (ev_handlers s))"

definition fixed :: "ustring \<Rightarrow> nat \<Rightarrow> event_args" where
  "fixed type target = \<lparr>ea_type = type, ea_target = target, ea_prevented = False, ea_stopped = False, ea_immediate = False\<rparr>"

section \<open>Calling the callbacks\<close>

fun handlers_loop :: "runner \<Rightarrow> nat \<Rightarrow> nat \<Rightarrow> nat \<Rightarrow> event_args \<times> events \<Rightarrow> event_args \<times> events" where
  "handlers_loop run a i 0 x = x"
| "handlers_loop run a i (Suc n) (e, s) =
     (let (e1, s1) = (case nth_opt (cl_items (ev_lists s a)) i of
          None \<Rightarrow> (e, s)
        | Some (func, scope) \<Rightarrow> (case run func scope e s of (e', s', false) \<Rightarrow>
            (if false then e'\<lparr>ea_prevented := True\<rparr> else e', s')))
      in if ea_immediate e1 then (e1, s1) else handlers_loop run a (Suc i) n (e1, s1))"

definition find_list :: "events \<Rightarrow> nat \<Rightarrow> ustring \<Rightarrow> nat option" where
  "find_list s i name = (case ev_events s i of None \<Rightarrow> None | Some m \<Rightarrow> map_of m name)"

definition executeHandlers :: "runner \<Rightarrow> event_args \<Rightarrow> nat \<Rightarrow> events \<Rightarrow> event_args \<times> events" where
  "executeHandlers run e i s = (case find_list s i (ea_type e) of
     None \<Rightarrow> (e, s)
   | Some a \<Rightarrow> handlers_loop run a 0 (length (cl_items (ev_lists s a))) (e, s))"

text \<open>A native event: its type, target, current target and related target.\<close>

record native_event =
  ne_type :: ustring
  ne_target :: nat
  ne_current :: nat
  ne_related :: "nat option"

definition call_ready :: "runner \<Rightarrow> document \<Rightarrow> nat \<Rightarrow> events \<Rightarrow> events" where
  "call_ready run doc h s =
     (if ev_domLoaded s then s
      else let s1 = s\<lparr>ev_domLoaded := True\<rparr> in
        case nth_opt (ev_handlers s1) h of
          Some (HDefault i) \<Rightarrow> snd (executeHandlers run (fixed (js ''ready'') (dc_document doc)) i s1)
        | _ \<Rightarrow> s1)"

definition call_handler :: "runner \<Rightarrow> document \<Rightarrow> native_event \<Rightarrow> handler \<Rightarrow> events \<Rightarrow> events" where
  "call_handler run doc ev h s = (case h of
     HDefault i \<Rightarrow> snd (executeHandlers run (fixed (ne_type ev) (ne_target ev)) i s)
   | HMouse i \<Rightarrow>
       (if (case ne_related ev of None \<Rightarrow> False | Some r \<Rightarrow> dc_contains doc (ne_current ev) r) then s
        else snd (executeHandlers run
          (fixed (if ne_type ev = js ''mouseout'' then js ''mouseleave'' else js ''mouseenter'') (ne_current ev)) i s))
   | HFocus i \<Rightarrow> snd (executeHandlers run
       (fixed (if ne_type ev = js ''focus'' then js ''focusin'' else js ''focusout'') (ne_target ev)) i s)
   | HReady k \<Rightarrow> call_ready run doc k s)"

text \<open>The browser calls the listeners a target has for an event when it occurs, apart from those that
  have been removed meanwhile.\<close>

definition dispatch :: "runner \<Rightarrow> document \<Rightarrow> native_event \<Rightarrow> bool \<Rightarrow> events \<Rightarrow> events" where
  "dispatch run doc ev capture s =
     fold (\<lambda>(t, name, h, c) q. if (t, name, h, c) \<notin> set (ev_native q) then q
         else case nth_opt (ev_handlers q) h of None \<Rightarrow> q | Some k \<Rightarrow> call_handler run doc ev k q)
       (filter (\<lambda>(t, name, h, c). t = ne_current ev \<and> name = ne_type ev \<and> c = capture) (ev_native s)) s"

section \<open>Binding\<close>

definition bindOnReady :: "runner \<Rightarrow> document \<Rightarrow> nat \<Rightarrow> nat \<Rightarrow> events \<Rightarrow> events" where
  "bindOnReady run doc win h s =
     (if ev_domLoaded s then
        (case nth_opt (ev_handlers s) h of
           Some (HDefault i) \<Rightarrow> snd (executeHandlers run (fixed (js ''ready'') (dc_document doc)) i s) | _ \<Rightarrow> s)
      else let (s1, k) = new_handler (HReady h) s;
          s2 = (if dc_doc_complete doc win then call_ready run doc h s1
                else addEvent win (js ''DOMContentLoaded'') k False s1)
        in addEvent win (js ''load'') k False s2)"

definition mouse_fake :: "ustring \<Rightarrow> ustring option" where
  "mouse_fake name = (if name = js ''mouseenter'' then Some (js ''mouseover'')
     else if name = js ''mouseleave'' then Some (js ''mouseout'') else None)"

text \<open>The native handler, the name it is bound to and whether it captures; \<open>d\<close> is the default handler.\<close>

definition native_for :: "nat \<Rightarrow> nat \<Rightarrow> ustring \<Rightarrow> events \<Rightarrow> events \<times> nat \<times> ustring option \<times> bool" where
  "native_for d i name s =
     (if \<not> ev_hasFocusIn s \<and> (name = js ''focusin'' \<or> name = js ''focusout'') then
        (case new_handler (HFocus i) s of (s1, h) \<Rightarrow>
           (s1, h, Some (if name = js ''focusin'' then js ''focus'' else js ''blur''), True))
      else if \<not> ev_hasMouseEnterLeave s \<and> mouse_fake name \<noteq> None then
        (case new_handler (HMouse i) s of (s1, h) \<Rightarrow> (s1, h, mouse_fake name, False))
      else (s, d, None, False))"

definition new_list :: "nat \<Rightarrow> (ustring \<times> nat) list \<Rightarrow> ustring \<Rightarrow> callback_list \<Rightarrow> events \<Rightarrow> events" where
  "new_list i m name l s = s\<lparr>ev_events := (ev_events s)(i := Some (AList.update name (ev_fresh s) m)),
     ev_lists := (ev_lists s)(ev_fresh s := l), ev_fresh := Suc (ev_fresh s)\<rparr>"

text \<open>None: the object of the target is missing in \<open>events\<close>, a TypeError.\<close>

definition bind_name :: "runner \<Rightarrow> document \<Rightarrow> nat \<Rightarrow> nat \<Rightarrow> nat \<Rightarrow> nat \<Rightarrow> nat \<Rightarrow> ustring \<Rightarrow> events \<Rightarrow> events option" where
  "bind_name run doc target func scope i d name0 s =
     (let name = (if name0 = js ''DOMContentLoaded'' then js ''ready'' else name0) in
      if ev_domLoaded s \<and> name = js ''ready'' \<and> dc_complete doc target then
        (case run func scope (fixed name (dc_document doc)) s of (_, s1, _) \<Rightarrow> Some s1)
      else case native_for d i name s of (s1, h, fake, capture) \<Rightarrow>
        (case ev_events s1 i of
           None \<Rightarrow> None
         | Some m \<Rightarrow>
             (case map_of m name of
                None \<Rightarrow>
                  (let s2 = new_list i m name \<lparr>cl_items = [(func, scope)], cl_fakeName = fake, cl_capture = capture, cl_native = h\<rparr> s1 in
                   Some (if name = js ''ready'' then bindOnReady run doc target h s2
                         else addEvent target (case fake of None \<Rightarrow> name | Some n \<Rightarrow> n) h capture s2))
              | Some a \<Rightarrow>
                  Some (if name = js ''ready'' \<and> ev_domLoaded s1
                        then (case run func 0 (fixed name (dc_document doc)) s1 of (_, s2, _) \<Rightarrow> s2)
                        else s1\<lparr>ev_lists := (ev_lists s1)(a := (ev_lists s1 a)\<lparr>cl_items := cl_items (ev_lists s1 a) @ [(func, scope)]\<rparr>)\<rparr>))))"

fun each_name :: "(ustring \<Rightarrow> events \<Rightarrow> events option) \<Rightarrow> ustring list \<Rightarrow> events \<Rightarrow> events option" where
  "each_name f [] s = Some s"
| "each_name f (n # ns) s = do { s1 \<leftarrow> f n s; each_name f ns s1 }"

definition target_id :: "nat \<Rightarrow> events \<Rightarrow> events \<times> nat" where
  "target_id target s = (case ev_expando s target of
     Some i \<Rightarrow> (s, i)
   | None \<Rightarrow> (s\<lparr>ev_count := Suc (ev_count s), ev_expando := (ev_expando s)(target := Some (ev_count s)),
        ev_events := (ev_events s)(ev_count s := Some [])\<rparr>, ev_count s))"

text \<open>The names are bound from the last one on; all share the default handler of the call.\<close>

definition bind_event :: "runner \<Rightarrow> document \<Rightarrow> nat \<Rightarrow> ustring \<Rightarrow> nat \<Rightarrow> nat option \<Rightarrow> events \<Rightarrow> events option" where
  "bind_event run doc target names func scope s =
     (if dc_plain doc target then Some s
      else case target_id target s of (s1, i) \<Rightarrow>
        (case new_handler (HDefault i) s1 of (s2, d) \<Rightarrow>
           each_name (bind_name run doc target func (case scope of None \<Rightarrow> target | Some x \<Rightarrow> x) i d)
             (rev (split_on 0x20 names)) s2))"

section \<open>Unbinding\<close>

text \<open>The loop over the list from its end: each callback found is cut out of a copy, which keeps the
  native handler and loses \<open>fakeName\<close> and \<open>capture\<close>. \<open>n\<close> counts down.\<close>

fun cut_callback :: "nat \<Rightarrow> nat \<Rightarrow> callback_list \<Rightarrow> callback_list \<times> bool" where
  "cut_callback func 0 l = (l, False)"
| "cut_callback func (Suc n) l =
     (if map_option fst (nth_opt (cl_items l) n) = Some func
      then (fst (cut_callback func n \<lparr>cl_items = remove_at n (cl_items l), cl_fakeName = None, cl_capture = False,
              cl_native = cl_native l\<rparr>), True)
      else cut_callback func n l)"

definition drop_list :: "nat \<Rightarrow> nat \<Rightarrow> ustring \<Rightarrow> callback_list \<Rightarrow> events \<Rightarrow> events" where
  "drop_list target i name l s =
     removeEvent target (case cl_fakeName l of None \<Rightarrow> name | Some n \<Rightarrow> n) (cl_native l) (cl_capture l)
       (s\<lparr>ev_events := (ev_events s)(i := map_option (filter (\<lambda>(n, _). n \<noteq> name)) (ev_events s i))\<rparr>)"

definition unbind_name :: "nat \<Rightarrow> nat \<Rightarrow> nat option \<Rightarrow> ustring \<Rightarrow> events \<Rightarrow> events option" where
  "unbind_name target i callback name s = (case ev_events s i of
     None \<Rightarrow> None
   | Some m \<Rightarrow>
       (case map_of m name of
          None \<Rightarrow> Some s
        | Some a \<Rightarrow>
            (case callback of
               None \<Rightarrow> Some (drop_list target i name (ev_lists s a) s)
             | Some func \<Rightarrow>
                 (case cut_callback func (length (cl_items (ev_lists s a))) (ev_lists s a) of (l, found) \<Rightarrow>
                    (let s1 = (if found then new_list i m name l s else s) in
                     Some (if cl_items l = [] then drop_list target i name l s1 else s1))))))"

definition forget_target :: "nat \<Rightarrow> nat \<Rightarrow> events \<Rightarrow> events" where
  "forget_target target i s = s\<lparr>ev_events := (ev_events s)(i := None), ev_expando := (ev_expando s)(target := None)\<rparr>"

text \<open>\<open>unbind(target)\<close>: the map that is emptied is not the one in \<open>events\<close>, but that one is deleted next.\<close>

definition remove_listener :: "nat \<Rightarrow> ustring \<times> nat \<Rightarrow> events \<Rightarrow> events" where
  "remove_listener target = (\<lambda>(name, a) s. let l = ev_lists s a in
     removeEvent target (case cl_fakeName l of None \<Rightarrow> name | Some n \<Rightarrow> n) (cl_native l) (cl_capture l) s)"

definition unbind_target :: "document \<Rightarrow> nat \<Rightarrow> events \<Rightarrow> events" where
  "unbind_target doc target s =
     (if dc_plain doc target then s
      else case ev_expando s target of
        None \<Rightarrow> s
      | Some i \<Rightarrow> forget_target target i
          (fold (remove_listener target) (case ev_events s i of None \<Rightarrow> [] | Some m \<Rightarrow> m) s))"

definition unbind_event :: "document \<Rightarrow> nat \<Rightarrow> ustring option \<Rightarrow> nat option \<Rightarrow> events \<Rightarrow> events option" where
  "unbind_event doc target names callback s =
     (case names of
        Some (c # cs) \<Rightarrow>
          (if dc_plain doc target then Some s
           else case ev_expando s target of
             None \<Rightarrow> Some s
           | Some i \<Rightarrow> do {
               s1 \<leftarrow> each_name (unbind_name target i callback) (rev (split_on 0x20 (c # cs))) s;
               Some (if ev_events s1 i = Some [] then forget_target target i s1 else s1) })
      | _ \<Rightarrow> Some (unbind_target doc target s))"

section \<open>Firing and cleaning\<close>

text \<open>The walk up the document; \<open>None\<close>: the fuel is used up.\<close>

fun fire_up :: "runner \<Rightarrow> document \<Rightarrow> nat \<Rightarrow> nat \<Rightarrow> event_args \<Rightarrow> events \<Rightarrow> (event_args \<times> events) option" where
  "fire_up run doc 0 target e s = None"
| "fire_up run doc (Suc n) target e s =
     (let (e1, s1) = (case ev_expando s target of None \<Rightarrow> (e, s) | Some i \<Rightarrow> executeHandlers run e i s) in
      case dc_up doc target of
        None \<Rightarrow> Some (e1, s1)
      | Some t \<Rightarrow> if ea_stopped e1 then Some (e1, s1) else fire_up run doc n t e1 s1)"

definition fire_event :: "runner \<Rightarrow> document \<Rightarrow> nat \<Rightarrow> nat \<Rightarrow> ustring \<Rightarrow> events \<Rightarrow> (event_args \<times> events) option" where
  "fire_event run doc n target name s =
     (if dc_plain doc target then Some (fixed name target, s) else fire_up run doc n target (fixed name target) s)"

text \<open>\<open>children\<close>: the elements in the target (in the document of a window); \<open>root\<close>: the target or
  that document.\<close>

definition clean_target :: "document \<Rightarrow> nat \<Rightarrow> nat option \<Rightarrow> nat list \<Rightarrow> events \<Rightarrow> events" where
  "clean_target doc target root children s =
     (if dc_plain doc target then s
      else let s1 = unbind_target doc target s in
        case root of
          None \<Rightarrow> s1
        | Some r \<Rightarrow> fold (unbind_target doc) (rev children) (unbind_target doc r s1))"

definition destroy_events :: "events \<Rightarrow> events" where
  "destroy_events s = s\<lparr>ev_events := (\<lambda>_. None)\<rparr>"

definition cancel_event :: "event_args \<Rightarrow> event_args" where
  "cancel_event e = e\<lparr>ea_prevented := True, ea_immediate := True, ea_stopped := True\<rparr>"

end
