(* ===== verification/DomEventsProps.thy ===== *)
theory DomEventsProps
  imports DomEvents
begin

text \<open>
  Binding and unbinding of \<open>DomEvents\<close> as a table: which callbacks a target has for an event. The
  native listeners of the browser are exactly those of the table, so that every event calls every
  callback bound for it once.
\<close>

section \<open>The table\<close>

definition find_callbacks :: "events \<Rightarrow> nat \<Rightarrow> ustring \<Rightarrow> nat option" where
  "find_callbacks s t name = (case ev_expando s t of None \<Rightarrow> None | Some i \<Rightarrow> find_list s i name)"

definition bound :: "events \<Rightarrow> nat \<Rightarrow> ustring \<Rightarrow> (nat \<times> nat) list" where
  "bound s t name = (case find_callbacks s t name of None \<Rightarrow> [] | Some a \<Rightarrow> cl_items (ev_lists s a))"

text \<open>Names that the browser has and that are not about the loading of the document.\<close>

definition plain_name :: "events \<Rightarrow> ustring \<Rightarrow> bool" where
  "plain_name s name \<longleftrightarrow> name \<noteq> js ''ready'' \<and> name \<noteq> js ''DOMContentLoaded''
     \<and> (ev_hasFocusIn s \<or> name \<noteq> js ''focusin'' \<and> name \<noteq> js ''focusout'')
     \<and> (ev_hasMouseEnterLeave s \<or> mouse_fake name = None)"

definition ids_ok :: "events \<Rightarrow> bool" where
  "ids_ok s \<longleftrightarrow> (\<forall>t i. ev_expando s t = Some i \<longrightarrow> i < ev_count s \<and> ev_events s i \<noteq> None)
     \<and> (\<forall>t t' i. ev_expando s t = Some i \<and> ev_expando s t' = Some i \<longrightarrow> t = t')
     \<and> (\<forall>i m. ev_events s i = Some m \<longrightarrow> distinct (map fst m))"

definition list_ok :: "events \<Rightarrow> nat \<Rightarrow> nat \<Rightarrow> bool" where
  "list_ok s t a \<longleftrightarrow> a < ev_fresh s \<and> cl_items (ev_lists s a) \<noteq> []
     \<and> cl_fakeName (ev_lists s a) = None \<and> \<not> cl_capture (ev_lists s a)
     \<and> (\<exists>i. ev_expando s t = Some i \<and> nth_opt (ev_handlers s) (cl_native (ev_lists s a)) = Some (HDefault i))"

definition lists_ok :: "events \<Rightarrow> bool" where
  "lists_ok s \<longleftrightarrow> (\<forall>t n a. find_callbacks s t n = Some a \<longrightarrow> list_ok s t a)
     \<and> (\<forall>t n t' n' a. find_callbacks s t n = Some a \<longrightarrow> find_callbacks s t' n' = Some a \<longrightarrow> t = t' \<and> n = n')"

definition native_ok :: "events \<Rightarrow> bool" where
  "native_ok s \<longleftrightarrow> distinct (ev_native s) \<and> (\<forall>t n h c. (t, n, h, c) \<in> set (ev_native s) \<longleftrightarrow>
     (\<exists>a. find_callbacks s t n = Some a \<and> h = cl_native (ev_lists s a) \<and> \<not> c))"

definition events_ok :: "events \<Rightarrow> bool" where
  "events_ok s \<longleftrightarrow> ids_ok s \<and> lists_ok s \<and> native_ok s"

lemma find_callbacks_same:
  assumes "ev_expando s' = ev_expando s" "ev_events s' = ev_events s"
  shows "find_callbacks s' = find_callbacks s"
  using assms by (simp add: find_callbacks_def find_list_def fun_eq_iff cong: option.case_cong)

lemma new_ok: "events_ok (new_EventUtils f m)" "bound (new_EventUtils f m) t n = []"
  by (auto simp: events_ok_def ids_ok_def lists_ok_def native_ok_def bound_def new_EventUtils_def find_callbacks_def)

section \<open>Binding\<close>

lemma lists_okD:
  assumes "lists_ok s" "find_callbacks s t n = Some a"
  shows "list_ok s t a" "find_callbacks s t' n' = Some a \<Longrightarrow> t' = t \<and> n' = n"
  using assms unfolding lists_ok_def by blast+

lemma list_okD:
  assumes "list_ok s t a"
  shows "a < ev_fresh s" "cl_items (ev_lists s a) \<noteq> []" "cl_fakeName (ev_lists s a) = None" "\<not> cl_capture (ev_lists s a)"
    "\<exists>i. ev_expando s t = Some i \<and> nth_opt (ev_handlers s) (cl_native (ev_lists s a)) = Some (HDefault i)"
  using assms by (simp_all add: list_ok_def)

lemma find_expando: "find_callbacks s t n = Some a \<Longrightarrow> ev_expando s t \<noteq> None"
  by (auto simp: find_callbacks_def split: option.splits)

lemma lists_okI:
  assumes "\<And>t n a. find_callbacks s t n = Some a \<Longrightarrow> list_ok s t a"
    and "\<And>t n t' n' a. find_callbacks s t n = Some a \<Longrightarrow> find_callbacks s t' n' = Some a \<Longrightarrow> t = t' \<and> n = n'"
  shows "lists_ok s"
  using assms unfolding lists_ok_def by blast

lemma nth_opt_snoc: "nth_opt xs i = Some x \<Longrightarrow> nth_opt (xs @ ys) i = Some x"
  by (auto simp: nth_opt_def nth_append split: if_splits)

text \<open>States with the same table.\<close>

lemma same_table:
  assumes ok: "lists_ok s" "native_ok s" and find: "find_callbacks s' = find_callbacks s"
    and same: "ev_lists s' = ev_lists s" "ev_fresh s' = ev_fresh s" "ev_native s' = ev_native s"
    and ex: "\<And>t. ev_expando s t \<noteq> None \<Longrightarrow> ev_expando s' t = ev_expando s t"
    and hs: "ev_handlers s' = ev_handlers s @ ys"
  shows "lists_ok s'" "native_ok s'" "bound s' = bound s"
proof -
  have one: "list_ok s' t a" if f: "find_callbacks s t n = Some a" for t n a
    using list_okD [OF lists_okD(1) [OF ok(1) f]] ex [OF find_expando [OF f]] nth_opt_snoc
    by (auto simp: list_ok_def same hs)
  show "lists_ok s'"
    by (rule lists_okI; unfold find) (rule one, assumption, use lists_okD(2) [OF ok(1)] in blast)
  show "native_ok s'" using ok(2) unfolding native_ok_def find same .
  show "bound s' = bound s" unfolding bound_def [abs_def] find same ..
qed

lemma new_handler_ok:
  assumes "events_ok s" "new_handler h s = (s', k)"
  shows "events_ok s' \<and> bound s' = bound s \<and> ev_expando s' = ev_expando s \<and> ev_events s' = ev_events s
    \<and> nth_opt (ev_handlers s') k = Some h \<and> plain_name s' = plain_name s"
proof -
  have s': "s' = s\<lparr>ev_handlers := ev_handlers s @ [h]\<rparr>" "k = length (ev_handlers s)"
    using assms(2) by (auto simp: new_handler_def)
  have find: "find_callbacks s' = find_callbacks s" by (rule find_callbacks_same) (simp_all add: s')
  have "lists_ok s'" "native_ok s'" "bound s' = bound s"
    by (rule same_table [of s s' "[h]"]; use assms(1) find in \<open>simp add: events_ok_def s'\<close>)+
  moreover have "ids_ok s'" using assms(1) by (simp add: events_ok_def ids_ok_def s')
  ultimately show ?thesis by (simp add: events_ok_def s' nth_opt_def plain_name_def fun_eq_iff)
qed

lemma target_id_ok:
  assumes ok: "events_ok s" and s': "target_id t s = (s', i)"
  shows "events_ok s' \<and> bound s' = bound s \<and> ev_expando s' t = Some i \<and> plain_name s' = plain_name s"
proof (cases "ev_expando s t")
  case (Some j)
  then show ?thesis using assms by (simp add: target_id_def)
next
  case None
  then have s': "i = ev_count s" "s' = s\<lparr>ev_count := Suc (ev_count s), ev_expando := (ev_expando s)(t := Some (ev_count s)),
        ev_events := (ev_events s)(ev_count s := Some [])\<rparr>"
    using s' by (auto simp: target_id_def)
  have ids: "\<And>u j. ev_expando s u = Some j \<Longrightarrow> j < ev_count s" using ok by (simp add: events_ok_def ids_ok_def)
  have find: "find_callbacks s' = find_callbacks s"
    using None ids by (fastforce simp: find_callbacks_def find_list_def fun_eq_iff s' split: option.splits)
  have "lists_ok s'" "native_ok s'" "bound s' = bound s"
    by (rule same_table [of s s' "[]"]; use ok find None in \<open>auto simp: events_ok_def s'\<close>)+
  moreover have "ids_ok s'" using ok ids unfolding events_ok_def ids_ok_def s' by (fastforce split: if_splits)
  ultimately show ?thesis by (simp add: events_ok_def s' fun_eq_iff plain_name_def)
qed

lemma bound_Nil: "lists_ok s \<Longrightarrow> bound s t n = [] \<longleftrightarrow> find_callbacks s t n = None"
  using lists_okD(1) list_okD(2) by (fastforce simp: bound_def split: option.splits)

definition add_bound :: "(nat \<Rightarrow> ustring \<Rightarrow> (nat \<times> nat) list) \<Rightarrow> nat \<Rightarrow> nat \<times> nat \<Rightarrow> ustring \<Rightarrow> nat \<Rightarrow> ustring \<Rightarrow> (nat \<times> nat) list" where
  "add_bound b t f name u n = (if u = t \<and> n = name then b u n @ [f] else b u n)"

text \<open>A new list for a name that had none or one that is replaced, with the native handler of the
  target.\<close>

lemma new_list_find:
  assumes ok: "ids_ok s" and i: "ev_expando s t = Some i" "ev_events s i = Some m"
  shows "find_callbacks (new_list i m name l s) u n = (if u = t \<and> n = name then Some (ev_fresh s) else find_callbacks s u n)"
proof (cases "ev_expando s u = Some i")
  case True
  then have "u = t" using ok i(1) by (auto simp: ids_ok_def)
  then show ?thesis using i by (simp add: find_callbacks_def find_list_def new_list_def update_conv)
next
  case False
  then have "u \<noteq> t" using i(1) by auto
  then show ?thesis using False by (auto simp: find_callbacks_def find_list_def new_list_def split: option.splits)
qed

lemma new_list_ok:
  assumes ok: "ids_ok s" "lists_ok s" and i: "ev_expando s t = Some i" "ev_events s i = Some m"
    and l: "cl_items l \<noteq> []" "cl_fakeName l = None" "\<not> cl_capture l" "nth_opt (ev_handlers s) (cl_native l) = Some (HDefault i)"
  shows "ids_ok (new_list i m name l s)" "lists_ok (new_list i m name l s)"
    and "bound (new_list i m name l s) u n = (if u = t \<and> n = name then cl_items l else bound s u n)"
proof -
  let ?s = "new_list i m name l s"
  note find = new_list_find [OF ok(1) i]
  have less: "a < ev_fresh s" if "find_callbacks s u n = Some a" for u n a
    by (rule list_okD(1) [OF lists_okD(1) [OF ok(2) that]])
  have old: "ev_lists ?s a = ev_lists s a" if "find_callbacks s u n = Some a" for u n a
    using less [OF that] by (simp add: new_list_def)
  have new: "ev_lists ?s (ev_fresh s) = l" by (simp add: new_list_def)
  have frame: "ev_fresh ?s = Suc (ev_fresh s)" "ev_handlers ?s = ev_handlers s" "ev_expando ?s = ev_expando s"
    by (simp_all add: new_list_def)
  show "ids_ok ?s" using ok(1) i by (simp add: ids_ok_def new_list_def distinct_update)
  show "lists_ok ?s"
  proof (rule lists_okI)
    fix u n a
    assume f: "find_callbacks ?s u n = Some a"
    show "list_ok ?s u a"
    proof (cases "u = t \<and> n = name")
      case True
      then show ?thesis using f l i(1) by (auto simp: find list_ok_def new frame)
    next
      case False
      then have f': "find_callbacks s u n = Some a" using f by (auto simp: find split: if_splits)
      show ?thesis using list_okD [OF lists_okD(1) [OF ok(2) f']] by (simp add: list_ok_def old [OF f'] frame)
    qed
  next
    fix u n u' n' a
    assume two: "find_callbacks ?s u n = Some a" "find_callbacks ?s u' n' = Some a"
    then show "u = u' \<and> n = n'"
      using less [of u n a] less [of u' n' a] lists_okD(2) [OF ok(2), of u n a u' n'] unfolding find
      by (auto split: if_splits)
  qed
  show "bound ?s u n = (if u = t \<and> n = name then cl_items l else bound s u n)"
    using old [of u n] by (auto simp: bound_def find new split: option.splits)
qed

text \<open>One more callback in a list.\<close>

lemma push_ok:
  assumes ok: "events_ok s" and f: "find_callbacks s t name = Some a"
    and s': "s' = s\<lparr>ev_lists := (ev_lists s)(a := (ev_lists s a)\<lparr>cl_items := cl_items (ev_lists s a) @ [x]\<rparr>)\<rparr>"
  shows "events_ok s' \<and> bound s' = add_bound (bound s) t x name \<and> ev_expando s' = ev_expando s
    \<and> ev_handlers s' = ev_handlers s \<and> plain_name s' = plain_name s"
proof -
  have lok: "lists_ok s" "native_ok s" using ok by (simp_all add: events_ok_def)
  have find: "find_callbacks s' = find_callbacks s" by (rule find_callbacks_same) (simp_all add: s')
  have "lists_ok s'"
  proof (rule lists_okI; unfold find)
    fix u n b assume "find_callbacks s u n = Some b"
    from list_okD [OF lists_okD(1) [OF lok(1) this]] show "list_ok s' u b" by (auto simp: list_ok_def s')
  next
    fix u n u' n' b assume "find_callbacks s u n = Some b" "find_callbacks s u' n' = Some b"
    then show "u = u' \<and> n = n'" using lists_okD(2) [OF lok(1)] by blast
  qed
  moreover have "cl_native (ev_lists s' b) = cl_native (ev_lists s b)" for b by (simp add: s')
  then have "native_ok s'" using lok(2) unfolding native_ok_def find by (simp add: s')
  moreover have "bound s' = add_bound (bound s) t x name"
  proof (intro ext)
    fix u n
    show "bound s' u n = add_bound (bound s) t x name u n"
    proof (cases "find_callbacks s u n")
      case None
      then show ?thesis using f by (auto simp: bound_def find add_bound_def)
    next
      case (Some b)
      then have "b = a \<longleftrightarrow> u = t \<and> n = name" using lists_okD(2) [OF lok(1) f, of u n] f by auto
      moreover have "ev_lists s' b = (if b = a then (ev_lists s a)\<lparr>cl_items := cl_items (ev_lists s a) @ [x]\<rparr> else ev_lists s b)"
        by (simp add: s')
      ultimately show ?thesis using Some f by (auto simp: bound_def find add_bound_def)
    qed
  qed
  moreover have "ids_ok s'" using ok by (simp add: events_ok_def ids_ok_def s')
  moreover have "ev_expando s' = ev_expando s" "ev_handlers s' = ev_handlers s" "plain_name s' = plain_name s"
    by (simp_all add: s' plain_name_def [abs_def])
  ultimately show ?thesis unfolding events_ok_def by blast
qed

lemma native_for_plain: "plain_name s name \<Longrightarrow> native_for d i name s = (s, d, None, False)"
  by (auto simp: native_for_def plain_name_def)

lemma addEvent_frame [simp]: "ev_lists (addEvent t n h c s) = ev_lists s" "ev_fresh (addEvent t n h c s) = ev_fresh s"
  "ev_expando (addEvent t n h c s) = ev_expando s" "ev_events (addEvent t n h c s) = ev_events s"
  "ev_handlers (addEvent t n h c s) = ev_handlers s" "ev_count (addEvent t n h c s) = ev_count s"
  "ev_hasFocusIn (addEvent t n h c s) = ev_hasFocusIn s" "ev_hasMouseEnterLeave (addEvent t n h c s) = ev_hasMouseEnterLeave s"
  "find_callbacks (addEvent t n h c s) = find_callbacks s" "plain_name (addEvent t n h c s) = plain_name s"
  by (simp_all add: addEvent_def find_callbacks_def find_list_def plain_name_def fun_eq_iff cong: option.case_cong)

lemma lists_ok_native: "lists_ok (s\<lparr>ev_native := x\<rparr>) = lists_ok s" "ids_ok (s\<lparr>ev_native := x\<rparr>) = ids_ok s"
  "bound (s\<lparr>ev_native := x\<rparr>) = bound s"
  by (simp_all add: lists_ok_def ids_ok_def list_ok_def bound_def find_callbacks_def find_list_def fun_eq_iff cong: option.case_cong)

lemma bind_name_ok:
  assumes ok: "events_ok s" and i: "ev_expando s t = Some i" and d: "nth_opt (ev_handlers s) d = Some (HDefault i)"
    and name: "plain_name s name"
  shows "\<exists>s'. bind_name run doc t func scope i d name s = Some s' \<and> events_ok s' \<and> bound s' = add_bound (bound s) t (func, scope) name
    \<and> ev_expando s' = ev_expando s \<and> ev_handlers s' = ev_handlers s \<and> plain_name s' = plain_name s"
proof -
  have o: "ids_ok s" "lists_ok s" "native_ok s" using ok by (simp_all add: events_ok_def)
  have "ev_events s i \<noteq> None" using o(1) i unfolding ids_ok_def by blast
  then obtain m where m: "ev_events s i = Some m" by blast
  have names: "name \<noteq> js ''ready''" "name \<noteq> js ''DOMContentLoaded''" using name by (simp_all add: plain_name_def)
  have look: "find_callbacks s t name = map_of m name" using i m by (simp add: find_callbacks_def find_list_def)
  show ?thesis
  proof (cases "map_of m name")
    case (Some a)
    from push_ok [OF ok look [unfolded Some] refl] show ?thesis
      using names by (simp add: bind_name_def native_for_plain [OF name] m Some)
  next
    case None
    define l where "l = \<lparr>cl_items = [(func, scope)], cl_fakeName = None, cl_capture = False, cl_native = d\<rparr>"
    define s2 where "s2 = new_list i m name l s"
    define s3 where "s3 = addEvent t name d False s2"
    have l: "cl_items l \<noteq> []" "cl_fakeName l = None" "\<not> cl_capture l" "nth_opt (ev_handlers s) (cl_native l) = Some (HDefault i)"
      using d by (simp_all add: l_def)
    note N = new_list_ok [OF o(1,2) i m l, of name, folded s2_def]
    have find: "find_callbacks s2 u n = (if u = t \<and> n = name then Some (ev_fresh s) else find_callbacks s u n)" for u n
      unfolding s2_def by (rule new_list_find [OF o(1) i m])
    have none: "find_callbacks s t name = None" using look None by simp
    have nat2: "ev_native s2 = ev_native s" by (simp add: s2_def new_list_def)
    have fresh: "(t, name, h, c) \<notin> set (ev_native s)" for h c using o(3) none by (simp add: native_ok_def)
    have lists: "cl_native (ev_lists s2 a) = cl_native (ev_lists s a)" if "find_callbacks s u n = Some a" for u n a
      using list_okD(1) [OF lists_okD(1) [OF o(2) that]] by (simp add: s2_def new_list_def)
    have s3: "s3 = s2\<lparr>ev_native := ev_native s @ [(t, name, d, False)]\<rparr>"
      using fresh by (simp add: s3_def addEvent_def nat2)
    have "native_ok s3"
      unfolding native_ok_def
    proof (intro conjI allI)
      have "distinct (ev_native s)" using o(3) unfolding native_ok_def by blast
      then show "distinct (ev_native s3)" using fresh by (simp add: s3)
      fix u n h c
      have f3: "find_callbacks s3 u n = find_callbacks s2 u n" by (simp add: s3_def)
      have l3: "ev_lists s3 = ev_lists s2" by (simp add: s3_def)
      have old: "(u, n, h, c) \<in> set (ev_native s) \<longleftrightarrow> (\<exists>a. find_callbacks s u n = Some a \<and> h = cl_native (ev_lists s a) \<and> \<not> c)"
        using o(3) by (simp add: native_ok_def)
      show "(u, n, h, c) \<in> set (ev_native s3) \<longleftrightarrow> (\<exists>a. find_callbacks s3 u n = Some a \<and> h = cl_native (ev_lists s3 a) \<and> \<not> c)"
      proof (cases "u = t \<and> n = name")
        case True
        have "ev_lists s2 (ev_fresh s) = l" by (simp add: s2_def new_list_def)
        then show ?thesis using True fresh unfolding f3 l3 find by (auto simp: s3 l_def)
      next
        case False
        then have mem: "(u, n, h, c) \<in> set (ev_native s3) \<longleftrightarrow> (u, n, h, c) \<in> set (ev_native s)" by (auto simp: s3)
        show ?thesis
          unfolding mem old f3 l3 find if_not_P [OF False] by (cases "find_callbacks s u n") (simp_all add: lists)
      qed
    qed
    moreover have "lists_ok s3" "ids_ok s3" "bound s3 = bound s2" using N(1,2) by (simp_all add: s3 lists_ok_native)
    moreover have "bound s2 = add_bound (bound s) t (func, scope) name"
    proof (intro ext)
      fix u n
      show "bound s2 u n = add_bound (bound s) t (func, scope) name u n"
        using N(3) [of u n] bound_Nil [OF o(2), of t name] none by (auto simp: add_bound_def l_def)
    qed
    moreover have "ev_expando s3 = ev_expando s" "ev_handlers s3 = ev_handlers s" "plain_name s3 = plain_name s"
      by (simp_all add: s3_def s2_def new_list_def plain_name_def [abs_def])
    moreover have "bind_name run doc t func scope i d name s = Some s3"
      using names by (simp add: bind_name_def native_for_plain [OF name] m None s3_def s2_def l_def)
    ultimately show ?thesis unfolding events_ok_def by metis
  qed
qed

section \<open>Unbinding\<close>

lemma cut_eq:
  "n \<le> length (cl_items l) \<Longrightarrow> cut_callback func n l =
    (if \<exists>x\<in>set (take n (cl_items l)). fst x = func
     then (\<lparr>cl_items = filter (\<lambda>x. fst x \<noteq> func) (take n (cl_items l)) @ drop n (cl_items l),
            cl_fakeName = None, cl_capture = False, cl_native = cl_native l\<rparr>, True)
     else (l, False))"
proof (induction n arbitrary: l)
  case 0
  then show ?case by simp
next
  case (Suc n)
  define xs where "xs = cl_items l"
  have n: "n < length xs" using Suc.prems by (simp add: xs_def)
  have nth: "nth_opt xs n = Some (xs ! n)" using n by (simp add: nth_opt_def)
  have take: "take (Suc n) xs = take n xs @ [xs ! n]" by (rule take_Suc_conv_app_nth [OF n])
  have drop: "drop n xs = xs ! n # drop (Suc n) xs" by (rule Cons_nth_drop_Suc [OF n, symmetric])
  have rem: "remove_at n xs = take n xs @ drop (Suc n) xs" "take n (remove_at n xs) = take n xs" "drop n (remove_at n xs) = drop (Suc n) xs" "n \<le> length (remove_at n xs)"
    using n by (simp_all add: remove_at_def)
  show ?case
  proof (cases "fst (xs ! n) = func")
    case True
    show ?thesis
      using True Suc.IH [of "\<lparr>cl_items = remove_at n xs, cl_fakeName = None, cl_capture = False, cl_native = cl_native l\<rparr>"] rem
      by (auto simp: xs_def [symmetric] nth take filter_id_conv)
  next
    case False
    then show ?thesis using Suc.IH [of l] n by (simp add: xs_def [symmetric] nth take drop)
  qed
qed

lemma map_of_without: "map_of (filter (\<lambda>(n, _). n \<noteq> name) m) n = (if n = name then None else map_of m n)"
  by (induction m) auto

lemma without_update: "filter (\<lambda>(n, _). n \<noteq> name) (AList.update name x m) = filter (\<lambda>(n, _). n \<noteq> name) m"
  by (induction m) auto

text \<open>A list that no name refers to.\<close>

lemma spare_list_ok:
  assumes ok: "events_ok s" and s'_def: "s' = s\<lparr>ev_lists := (ev_lists s)(ev_fresh s := l), ev_fresh := Suc (ev_fresh s)\<rparr>"
  shows "events_ok s'" "bound s' = bound s" "find_callbacks s' = find_callbacks s"
    "find_callbacks s t n = Some a \<Longrightarrow> ev_lists s' a = ev_lists s a"
proof -
  have lok: "lists_ok s" "native_ok s" "ids_ok s" using ok by (simp_all add: events_ok_def)
  show find: "find_callbacks s' = find_callbacks s" by (rule find_callbacks_same) (simp_all add: s'_def)
  have old: "ev_lists s' a = ev_lists s a" if "find_callbacks s t n = Some a" for t n a
    using list_okD(1) [OF lists_okD(1) [OF lok(1) that]] by (simp add: s'_def)
  then show "find_callbacks s t n = Some a \<Longrightarrow> ev_lists s' a = ev_lists s a" .
  have fr: "ev_expando s' = ev_expando s" "ev_handlers s' = ev_handlers s" "ev_fresh s' = Suc (ev_fresh s)" "ev_native s' = ev_native s"
    by (simp_all add: s'_def)
  have "lists_ok s'"
  proof (rule lists_okI; unfold find)
    fix u n b assume f: "find_callbacks s u n = Some b"
    from list_okD [OF lists_okD(1) [OF lok(1) f]] show "list_ok s' u b" by (simp add: list_ok_def old [OF f] fr)
  next
    fix u n u' n' b assume "find_callbacks s u n = Some b" "find_callbacks s u' n' = Some b"
    then show "u = u' \<and> n = n'" using lists_okD(2) [OF lok(1)] by blast
  qed
  moreover have "native_ok s'"
    unfolding native_ok_def fr find
  proof (intro conjI allI)
    show "distinct (ev_native s)" using lok(2) unfolding native_ok_def by blast
    fix u n h c
    have "(u, n, h, c) \<in> set (ev_native s) \<longleftrightarrow> (\<exists>a. find_callbacks s u n = Some a \<and> h = cl_native (ev_lists s a) \<and> \<not> c)"
      using lok(2) unfolding native_ok_def by blast
    then show "(u, n, h, c) \<in> set (ev_native s) \<longleftrightarrow> (\<exists>a. find_callbacks s u n = Some a \<and> h = cl_native (ev_lists s' a) \<and> \<not> c)"
      by (cases "find_callbacks s u n") (simp_all add: old)
  qed
  moreover have "ids_ok s'" using lok(3) by (simp add: ids_ok_def s'_def)
  ultimately show "events_ok s'" by (simp add: events_ok_def)
  show "bound s' = bound s"
  proof (intro ext)
    show "bound s' u n = bound s u n" for u n
      by (cases "find_callbacks s u n") (simp_all add: bound_def find old)
  qed
qed

definition cut_bound :: "(nat \<Rightarrow> ustring \<Rightarrow> (nat \<times> nat) list) \<Rightarrow> nat \<Rightarrow> nat option \<Rightarrow> ustring \<Rightarrow> nat \<Rightarrow> ustring \<Rightarrow> (nat \<times> nat) list" where
  "cut_bound b t callback name u n = (if u = t \<and> n = name
     then (case callback of None \<Rightarrow> [] | Some f \<Rightarrow> filter (\<lambda>x. fst x \<noteq> f) (b u n)) else b u n)"

text \<open>States with some entries less in the table.\<close>

lemma fewer_entries:
  assumes ok: "events_ok s" and ids: "ids_ok s'"
    and find: "\<And>u n. find_callbacks s' u n = (if P u n then None else find_callbacks s u n)"
    and same: "ev_lists s' = ev_lists s" "ev_fresh s' = ev_fresh s" "ev_handlers s' = ev_handlers s"
    and ex: "\<And>u n. \<not> P u n \<Longrightarrow> find_callbacks s u n \<noteq> None \<Longrightarrow> ev_expando s' u = ev_expando s u"
    and nat: "distinct (ev_native s')" "\<And>u n h c. (u, n, h, c) \<in> set (ev_native s') \<longleftrightarrow> (u, n, h, c) \<in> set (ev_native s) \<and> \<not> P u n"
  shows "events_ok s'" "bound s' u n = (if P u n then [] else bound s u n)"
proof -
  have lok: "lists_ok s" "native_ok s" using ok by (simp_all add: events_ok_def)
  have "lists_ok s'"
  proof (rule lists_okI)
    fix u n b assume "find_callbacks s' u n = Some b"
    then have f: "\<not> P u n" "find_callbacks s u n = Some b" by (auto simp: find split: if_splits)
    from list_okD [OF lists_okD(1) [OF lok(1) f(2)]] ex [of u n] f show "list_ok s' u b" by (simp add: list_ok_def same)
  next
    fix u n u' n' b assume "find_callbacks s' u n = Some b" "find_callbacks s' u' n' = Some b"
    then have "find_callbacks s u n = Some b" "find_callbacks s u' n' = Some b" by (auto simp: find split: if_splits)
    then show "u = u' \<and> n = n'" using lists_okD(2) [OF lok(1)] by blast
  qed
  moreover have "native_ok s'"
    unfolding native_ok_def
  proof (intro conjI allI)
    fix u n h c
    have "(u, n, h, c) \<in> set (ev_native s) \<longleftrightarrow> (\<exists>a. find_callbacks s u n = Some a \<and> h = cl_native (ev_lists s a) \<and> \<not> c)"
      using lok(2) unfolding native_ok_def by blast
    then show "(u, n, h, c) \<in> set (ev_native s') \<longleftrightarrow> (\<exists>a. find_callbacks s' u n = Some a \<and> h = cl_native (ev_lists s' a) \<and> \<not> c)"
      unfolding nat(2) find same by simp
  qed (rule nat(1))
  ultimately show "events_ok s'" using ids by (simp add: events_ok_def)
  show "bound s' u n = (if P u n then [] else bound s u n)" unfolding bound_def find same by simp
qed

lemma drop_list_ok:
  assumes ok: "events_ok s" and i: "ev_expando s t = Some i" and f: "find_callbacks s t name = Some a"
    and l: "cl_fakeName l = None" "\<not> cl_capture l" "cl_native l = cl_native (ev_lists s a)"
  shows "events_ok (drop_list t i name l s)"
    and "bound (drop_list t i name l s) u n = (if u = t \<and> n = name then [] else bound s u n)"
    and "ev_expando (drop_list t i name l s) = ev_expando s"
proof -
  let ?s = "drop_list t i name l s"
  have ids: "ids_ok s" "native_ok s" using ok by (simp_all add: events_ok_def)
  have s: "?s = s\<lparr>ev_events := (ev_events s)(i := map_option (filter (\<lambda>(n, _). n \<noteq> name)) (ev_events s i)),
      ev_native := filter (\<lambda>x. x \<noteq> (t, name, cl_native l, False)) (ev_native s)\<rparr>"
    using l by (simp add: drop_list_def removeEvent_def)
  have fr: "ev_lists ?s = ev_lists s" "ev_fresh ?s = ev_fresh s" "ev_handlers ?s = ev_handlers s" "ev_expando ?s = ev_expando s"
    by (simp_all add: s)
  then show "ev_expando ?s = ev_expando s" by blast
  have inj: "u = t" if "ev_expando s u = Some i" for u using ids(1) i that unfolding ids_ok_def by blast
  have find: "find_callbacks ?s u n = (if u = t \<and> n = name then None else find_callbacks s u n)" for u n
  proof (cases "u = t")
    case True
    then show ?thesis using i by (cases "ev_events s i") (auto simp: find_callbacks_def find_list_def s map_of_without)
  next
    case False
    then show ?thesis using inj [of u] by (auto simp: find_callbacks_def find_list_def s split: option.splits)
  qed
  have dist: "distinct (map fst (filter (\<lambda>(n, _). n \<noteq> name) m))" if "distinct (map fst m)" for m :: "(ustring \<times> nat) list"
    by (rule distinct_map_filter [OF that])
  have idsok: "ids_ok ?s" using ids(1) dist by (auto simp: ids_ok_def s)
  have nat: "distinct (ev_native ?s)"
    using ids(2) unfolding native_ok_def by (simp add: s)
  have mem: "(v, n, h, c) \<in> set (ev_native ?s) \<longleftrightarrow> (v, n, h, c) \<in> set (ev_native s) \<and> \<not> (v = t \<and> n = name)" for v n h c
  proof -
    have "(v, n, h, c) \<in> set (ev_native s) \<longleftrightarrow> (\<exists>a. find_callbacks s v n = Some a \<and> h = cl_native (ev_lists s a) \<and> \<not> c)"
      using ids(2) unfolding native_ok_def by blast
    then show ?thesis using f l(3) by (auto simp: s)
  qed
  show "events_ok ?s" "bound ?s u n = (if u = t \<and> n = name then [] else bound s u n)"
    by (rule fewer_entries [OF ok idsok find fr(1-3) _ nat mem]; simp add: fr)+
qed

text \<open>A list that is replaced by another one with the same native handler.\<close>

lemma replace_list_ok:
  assumes ok: "events_ok s" and i: "ev_expando s t = Some i" "ev_events s i = Some m" and f: "find_callbacks s t name = Some a"
    and l: "cl_items l \<noteq> []" "cl_fakeName l = None" "\<not> cl_capture l" "cl_native l = cl_native (ev_lists s a)"
  shows "events_ok (new_list i m name l s)" "ev_expando (new_list i m name l s) = ev_expando s"
    and "bound (new_list i m name l s) u n = (if u = t \<and> n = name then cl_items l else bound s u n)"
proof -
  let ?s = "new_list i m name l s"
  have o: "ids_ok s" "lists_ok s" "native_ok s" using ok by (simp_all add: events_ok_def)
  have "nth_opt (ev_handlers s) (cl_native l) = Some (HDefault i)"
    using list_okD(5) [OF lists_okD(1) [OF o(2) f]] i(1) l(4) by auto
  note N = new_list_ok [OF o(1,2) i l(1-3) this, of name]
  have old: "ev_lists ?s a' = ev_lists s a'" if "find_callbacks s u n = Some a'" for u n a'
    using list_okD(1) [OF lists_okD(1) [OF o(2) that]] by (simp add: new_list_def)
  have "native_ok ?s"
    unfolding native_ok_def
  proof (intro conjI allI)
    have n1: "ev_native ?s = ev_native s" by (simp add: new_list_def)
    show "distinct (ev_native ?s)" using o(3) unfolding native_ok_def n1 by blast
    fix u n h c
    have "(u, n, h, c) \<in> set (ev_native s) \<longleftrightarrow> (\<exists>a. find_callbacks s u n = Some a \<and> h = cl_native (ev_lists s a) \<and> \<not> c)"
      using o(3) unfolding native_ok_def by blast
    moreover have "ev_lists ?s (ev_fresh s) = l" by (simp add: new_list_def)
    ultimately show "(u, n, h, c) \<in> set (ev_native ?s) \<longleftrightarrow> (\<exists>a. find_callbacks ?s u n = Some a \<and> h = cl_native (ev_lists ?s a) \<and> \<not> c)"
      unfolding n1 new_list_find [OF o(1) i] using f l(4) by (cases "find_callbacks s u n") (auto simp: old)
  qed
  then show "events_ok ?s" "ev_expando ?s = ev_expando s" using N(1,2) by (simp_all add: events_ok_def) (simp add: new_list_def)
  show "bound ?s u n = (if u = t \<and> n = name then cl_items l else bound s u n)" by (rule N(3))
qed

lemma unbind_name_ok:
  assumes ok: "events_ok s" and i: "ev_expando s t = Some i"
  shows "\<exists>s'. unbind_name t i callback name s = Some s' \<and> events_ok s' \<and> bound s' = cut_bound (bound s) t callback name
    \<and> ev_expando s' = ev_expando s"
proof -
  have o: "ids_ok s" "lists_ok s" "native_ok s" using ok by (simp_all add: events_ok_def)
  have "ev_events s i \<noteq> None" using o(1) i unfolding ids_ok_def by blast
  then obtain m where m: "ev_events s i = Some m" by blast
  have look: "find_callbacks s t name = map_of m name" using i m by (simp add: find_callbacks_def find_list_def)
  show ?thesis
  proof (cases "map_of m name")
    case None
    have b: "bound s t name = []" by (simp add: bound_def look None)
    have "bound s = cut_bound (bound s) t callback name"
    proof (intro ext)
      show "bound s u n = cut_bound (bound s) t callback name u n" for u n
        by (cases callback) (auto simp: cut_bound_def b)
    qed
    then show ?thesis using ok by (simp add: unbind_name_def m None)
  next
    case (Some a)
    note f = look [unfolded Some] and la = list_okD [OF lists_okD(1) [OF o(2) look [unfolded Some]]]
    have b: "bound s t name = cl_items (ev_lists s a)" by (simp add: bound_def f)
    show ?thesis
    proof (cases callback)
      case None
      have "bound (drop_list t i name (ev_lists s a) s) = cut_bound (bound s) t None name"
        by (intro ext) (simp add: drop_list_ok(2) [OF ok i f la(3,4) refl] cut_bound_def)
      then show ?thesis
        using drop_list_ok(1,3) [OF ok i f la(3,4) refl] by (simp add: unbind_name_def m Some None)
    next
      case func: (Some func)
      let ?l = "ev_lists s a"
      define hit where "hit \<longleftrightarrow> (\<exists>x\<in>set (cl_items ?l). fst x = func)"
      define l where "l = \<lparr>cl_items = filter (\<lambda>x. fst x \<noteq> func) (cl_items ?l), cl_fakeName = None, cl_capture = False,
          cl_native = cl_native ?l\<rparr>"
      have cut: "cut_callback func (length (cl_items ?l)) ?l = (if hit then (l, True) else (?l, False))"
        by (subst cut_eq) (simp_all add: hit_def l_def)
      have item: "bound s' = cut_bound (bound s) t callback name"
        if "\<And>u n. bound s' u n = (if u = t \<and> n = name then filter (\<lambda>x. fst x \<noteq> func) (cl_items ?l) else bound s u n)" for s'
        by (intro ext) (simp add: that cut_bound_def func b)
      show ?thesis
      proof (cases hit)
        case False
        then have "filter (\<lambda>x. fst x \<noteq> func) (cl_items ?l) = cl_items ?l" by (auto simp: hit_def filter_id_conv)
        then have "bound s = cut_bound (bound s) t callback name" by (intro item) (simp add: b)
        then show ?thesis using ok la(2) False by (simp add: unbind_name_def m Some func cut)
      next
        case True
        define s1 where "s1 = new_list i m name l s"
        have un: "unbind_name t i callback name s = Some (if cl_items l = [] then drop_list t i name l s1 else s1)"
          using True by (simp add: unbind_name_def m Some func cut s1_def)
        show ?thesis
        proof (cases "cl_items l = []")
          case False
          note R = replace_list_ok [OF ok i m f, of l, folded s1_def]
          have "bound s1 = cut_bound (bound s) t callback name" by (rule item) (use R False in \<open>simp add: l_def\<close>)
          then show ?thesis using un False R by (simp add: l_def)
        next
          case empty: True
          define s2 where "s2 = s\<lparr>ev_lists := (ev_lists s)(ev_fresh s := l), ev_fresh := Suc (ev_fresh s)\<rparr>"
          note S = spare_list_ok [OF ok s2_def]
          have "drop_list t i name l s1 = drop_list t i name l s2"
            using m by (simp add: s1_def s2_def drop_list_def new_list_def removeEvent_def without_update)
          moreover have D: "ev_expando s2 t = Some i" "find_callbacks s2 t name = Some a" "cl_native l = cl_native (ev_lists s2 a)"
            using i f S(3) S(4) [OF f] by (simp_all add: s2_def l_def)
          have l2: "cl_fakeName l = None" "\<not> cl_capture l" by (simp_all add: l_def)
          note drop_list_ok [OF S(1) D(1,2) l2 D(3)]
          moreover have "filter (\<lambda>x. fst x \<noteq> func) (cl_items ?l) = []" using empty by (simp add: l_def)
          then have "bound (drop_list t i name l s2) = cut_bound (bound s) t callback name"
            by (intro item) (simp add: drop_list_ok(2) [OF S(1) D(1,2) l2 D(3)] S(2))
          ultimately show ?thesis using un empty by (simp add: s2_def)
        qed
      qed
    qed
  qed
qed

text \<open>All events of a target.\<close>

definition clear_bound :: "nat \<Rightarrow> (nat \<Rightarrow> ustring \<Rightarrow> (nat \<times> nat) list) \<Rightarrow> nat \<Rightarrow> ustring \<Rightarrow> (nat \<times> nat) list" where
  "clear_bound t b u n = (if u = t then [] else b u n)"

lemma forget_find:
  assumes "ids_ok s" "ev_expando s t = Some i"
  shows "find_callbacks (forget_target t i s) u n = (if u = t then None else find_callbacks s u n)"
proof -
  have "u = t" if "ev_expando s u = Some i" for u using assms that unfolding ids_ok_def by blast
  then show ?thesis by (auto simp: find_callbacks_def find_list_def forget_target_def split: option.splits)
qed

lemma forget_ids: "ids_ok s \<Longrightarrow> ev_expando s t = Some i \<Longrightarrow> ids_ok (forget_target t i s)"
  unfolding ids_ok_def forget_target_def by (auto simp: fun_upd_def)

lemma remove_fold_native:
  assumes "\<forall>(n, a)\<in>set m. cl_fakeName (ev_lists s a) = None \<and> \<not> cl_capture (ev_lists s a)"
  shows "fold (remove_listener t) m s =
    s\<lparr>ev_native := filter (\<lambda>x. x \<notin> (\<lambda>(n, a). (t, n, cl_native (ev_lists s a), False)) ` set m) (ev_native s)\<rparr>"
  using assms
proof (induction m arbitrary: s)
  case (Cons p m)
  obtain n a where p: "p = (n, a)" by (cases p)
  show ?case
    using Cons.prems Cons.IH [of "remove_listener t p s"]
    by (simp add: p remove_listener_def removeEvent_def)
qed simp

lemma clear_target_ok:
  assumes ok: "events_ok s" and i: "ev_expando s t = Some i" and m: "ev_events s i = Some m"
    and s2_def: "s2 = forget_target t i (fold (remove_listener t) m s)"
  shows "events_ok s2" "bound s2 = clear_bound t (bound s)"
proof -
  have o: "ids_ok s" "lists_ok s" "native_ok s" using ok by (simp_all add: events_ok_def)
  have keys: "find_callbacks s t n = Some a" if "(n, a) \<in> set m" for n a
    using that o(1) i m by (auto simp: ids_ok_def find_callbacks_def find_list_def)
  have plain_lists: "\<forall>(n, a)\<in>set m. cl_fakeName (ev_lists s a) = None \<and> \<not> cl_capture (ev_lists s a)"
    using list_okD(3,4) [OF lists_okD(1) [OF o(2) keys]] by blast
  define s1 where "s1 = fold (remove_listener t) m s"
  have s1: "s1 = s\<lparr>ev_native := filter (\<lambda>x. x \<notin> (\<lambda>(n, a). (t, n, cl_native (ev_lists s a), False)) ` set m) (ev_native s)\<rparr>"
    unfolding s1_def by (rule remove_fold_native [OF plain_lists])
  have ids1: "ids_ok s1" "ev_expando s1 t = Some i" using o(1) i by (simp_all add: s1 ids_ok_def)
  have find: "find_callbacks s2 u n = (if u = t then None else find_callbacks s u n)" for u n
    using forget_find [OF ids1] unfolding s2_def s1_def [symmetric]
    by (simp add: s1 find_callbacks_same [of "s\<lparr>ev_native := x\<rparr>" s for x])
  have ids: "ids_ok s2" unfolding s2_def s1_def [symmetric] by (rule forget_ids [OF ids1])
  have fr: "ev_lists s2 = ev_lists s" "ev_fresh s2 = ev_fresh s" "ev_handlers s2 = ev_handlers s"
    "ev_native s2 = ev_native s1" "ev_expando s2 = (ev_expando s)(t := None)"
    unfolding s2_def s1_def [symmetric] by (simp_all add: forget_target_def s1)
  have nat: "distinct (ev_native s2)" using o(3) unfolding native_ok_def fr by (simp add: s1)
  have mem: "(u, n, h, c) \<in> set (ev_native s2) \<longleftrightarrow> (u, n, h, c) \<in> set (ev_native s) \<and> \<not> u = t" for u n h c
  proof -
    have "(u, n, h, c) \<in> set (ev_native s) \<longleftrightarrow> (\<exists>a. find_callbacks s u n = Some a \<and> h = cl_native (ev_lists s a) \<and> \<not> c)"
      using o(3) unfolding native_ok_def by blast
    moreover have "(n, a) \<in> set m" if "find_callbacks s t n = Some a" for a
      using that i m by (auto simp: find_callbacks_def find_list_def dest: map_of_SomeD)
    ultimately show ?thesis unfolding fr by (fastforce simp: s1)
  qed
  note F = fewer_entries [OF ok ids find fr(1-3) _ nat mem]
  show "events_ok s2" by (rule F(1)) (simp add: fr)
  show "bound s2 = clear_bound t (bound s)"
    by (intro ext, unfold clear_bound_def) (rule F(2), simp add: fr)
qed

lemma unbind_target_ok:
  assumes ok: "events_ok s"
  shows "events_ok (unbind_target doc t s)"
    and "bound (unbind_target doc t s) = (if dc_plain doc t then bound s else clear_bound t (bound s))"
proof -
  have o: "ids_ok s" using ok by (simp add: events_ok_def)
  have "events_ok (unbind_target doc t s) \<and> bound (unbind_target doc t s) = (if dc_plain doc t then bound s else clear_bound t (bound s))"
  proof (cases "dc_plain doc t \<or> ev_expando s t = None")
    case True
    moreover have "clear_bound t (bound s) = bound s" if "ev_expando s t = None"
      using that by (auto simp: clear_bound_def fun_eq_iff bound_def find_callbacks_def)
    ultimately show ?thesis using ok by (auto simp: unbind_target_def)
  next
    case False
    then obtain i where i: "ev_expando s t = Some i" by blast
    have "ev_events s i \<noteq> None" using o i unfolding ids_ok_def by blast
    then obtain m where m: "ev_events s i = Some m" by blast
    from clear_target_ok [OF ok i m refl] show ?thesis using False i m by (simp add: unbind_target_def)
  qed
  then show "events_ok (unbind_target doc t s)"
    "bound (unbind_target doc t s) = (if dc_plain doc t then bound s else clear_bound t (bound s))" by blast+
qed

section \<open>Sequences of operations\<close>

datatype event_op = Bind nat ustring nat "nat option" | Unbind nat "ustring option" "nat option" | Clean nat "nat option" "nat list"

definition run_op :: "runner \<Rightarrow> document \<Rightarrow> event_op \<Rightarrow> events \<Rightarrow> events option" where
  "run_op run doc op s = (case op of
     Bind t names func scope \<Rightarrow> bind_event run doc t names func scope s
   | Unbind t names callback \<Rightarrow> unbind_event doc t names callback s
   | Clean t root children \<Rightarrow> Some (clean_target doc t root children s))"

fun run_ops :: "runner \<Rightarrow> document \<Rightarrow> event_op list \<Rightarrow> events \<Rightarrow> events option" where
  "run_ops run doc [] s = Some s"
| "run_ops run doc (op # ops) s = do { s1 \<leftarrow> run_op run doc op s; run_ops run doc ops s1 }"

text \<open>The same operations on a table.\<close>

type_synonym callbacks = "nat \<Rightarrow> ustring \<Rightarrow> (nat \<times> nat) list"

definition clear_target :: "document \<Rightarrow> nat \<Rightarrow> callbacks \<Rightarrow> callbacks" where
  "clear_target doc t b = (if dc_plain doc t then b else clear_bound t b)"

definition table_op :: "document \<Rightarrow> event_op \<Rightarrow> callbacks \<Rightarrow> callbacks" where
  "table_op doc op b = (case op of
     Bind t names func scope \<Rightarrow>
       (if dc_plain doc t then b
        else fold (\<lambda>name b. add_bound b t (func, case scope of None \<Rightarrow> t | Some x \<Rightarrow> x) name) (rev (split_on 0x20 names)) b)
   | Unbind t names callback \<Rightarrow>
       (if dc_plain doc t then b
        else if names = None \<or> names = Some [] then clear_bound t b
        else fold (\<lambda>name b. cut_bound b t callback name) (rev (split_on 0x20 (the names))) b)
   | Clean t root children \<Rightarrow>
       (if dc_plain doc t then b
        else case root of None \<Rightarrow> clear_target doc t b
             | Some r \<Rightarrow> fold (clear_target doc) (rev children) (clear_target doc r (clear_target doc t b))))"

definition plain_op :: "bool \<Rightarrow> bool \<Rightarrow> event_op \<Rightarrow> bool" where
  "plain_op focusIn mouse op \<longleftrightarrow> (case op of
     Bind t names func scope \<Rightarrow> list_all (plain_name (new_EventUtils focusIn mouse)) (split_on 0x20 names) | _ \<Rightarrow> True)"

lemma bind_names_ok:
  assumes "events_ok s" "ev_expando s t = Some i" "nth_opt (ev_handlers s) d = Some (HDefault i)"
    and "\<forall>name\<in>set names. plain_name s name"
  shows "\<exists>s'. each_name (bind_name run doc t func scope i d) names s = Some s' \<and> events_ok s'
    \<and> bound s' = fold (\<lambda>name b. add_bound b t (func, scope) name) names (bound s) \<and> plain_name s' = plain_name s"
  using assms
proof (induction names arbitrary: s)
  case (Cons name names)
  have "plain_name s name" using Cons.prems(4) by simp
  from bind_name_ok [OF Cons.prems(1-3) this]
  obtain s1 where s1: "bind_name run doc t func scope i d name s = Some s1" "events_ok s1"
    "bound s1 = add_bound (bound s) t (func, scope) name" "ev_expando s1 = ev_expando s" "ev_handlers s1 = ev_handlers s"
    "plain_name s1 = plain_name s" by blast
  show ?case using Cons.IH [of s1] Cons.prems(2-4) s1 by auto
qed simp

lemma unbind_names_ok:
  assumes "events_ok s" "ev_expando s t = Some i"
  shows "\<exists>s'. each_name (unbind_name t i callback) names s = Some s' \<and> events_ok s'
    \<and> bound s' = fold (\<lambda>name b. cut_bound b t callback name) names (bound s) \<and> ev_expando s' = ev_expando s"
  using assms
proof (induction names arbitrary: s)
  case (Cons name names)
  from unbind_name_ok [OF Cons.prems] obtain s1 where s1: "unbind_name t i callback name s = Some s1" "events_ok s1"
    "bound s1 = cut_bound (bound s) t callback name" "ev_expando s1 = ev_expando s" by blast
  show ?case using Cons.IH [of s1] Cons.prems(2) s1 by auto
qed simp

lemma forget_ok:
  assumes ok: "events_ok s" and i: "ev_expando s t = Some i" "ev_events s i = Some []"
  shows "events_ok (forget_target t i s)" "bound (forget_target t i s) = bound s"
proof -
  have none: "find_callbacks s t n = None" for n using i by (simp add: find_callbacks_def find_list_def)
  have "bound s t n = []" for n by (simp add: bound_def none)
  then have "clear_bound t (bound s) = bound s" by (auto simp: clear_bound_def fun_eq_iff)
  then show "events_ok (forget_target t i s)" "bound (forget_target t i s) = bound s"
    using clear_target_ok [OF ok i refl] by simp_all
qed

lemma unbind_targets_ok:
  "events_ok s \<Longrightarrow> events_ok (fold (unbind_target doc) ts s) \<and> bound (fold (unbind_target doc) ts s) = fold (clear_target doc) ts (bound s)"
proof (induction ts arbitrary: s)
  case (Cons t ts)
  from unbind_target_ok [OF Cons.prems, of doc t] show ?case
    using Cons.IH [of "unbind_target doc t s"] by (simp add: clear_target_def)
qed simp

text \<open>No operation changes what the browser offers.\<close>

definition flags :: "events \<Rightarrow> bool \<times> bool" where
  "flags s = (ev_hasFocusIn s, ev_hasMouseEnterLeave s)"

lemma flags_simps [simp]: "flags (removeEvent t n h c s) = flags s" "flags (new_list i m name l s) = flags s"
  "flags (forget_target t i s) = flags s" "flags (remove_listener t p s) = flags s" "flags (drop_list t i name l s) = flags s"
  by (cases p; simp add: flags_def removeEvent_def new_list_def forget_target_def remove_listener_def drop_list_def Let_def)+

lemma flags_unbind_name: "unbind_name t i callback name s = Some s' \<Longrightarrow> flags s' = flags s"
  by (auto simp: unbind_name_def Let_def split: option.splits prod.splits if_splits)

lemma flags_each: "each_name (unbind_name t i callback) names s = Some s' \<Longrightarrow> flags s' = flags s"
proof (induction names arbitrary: s)
  case (Cons name names)
  then obtain s1 where "unbind_name t i callback name s = Some s1" "each_name (unbind_name t i callback) names s1 = Some s'"
    by (auto simp: bind_eq_Some_conv)
  then show ?case using Cons.IH flags_unbind_name by metis
qed simp

lemma flags_fold: "(\<And>x s. flags (f x s) = flags s) \<Longrightarrow> flags (fold f xs s) = flags s"
  by (induction xs arbitrary: s) simp_all

lemma flags_unbind_target: "flags (unbind_target doc t s) = flags s"
  by (auto simp: unbind_target_def flags_fold split: option.splits)

lemma plain_name_flags: "flags s = flags s' \<Longrightarrow> plain_name s = plain_name s'"
  by (simp add: flags_def plain_name_def [abs_def])

lemma unbind_event_ok:
  assumes ok: "events_ok s"
  shows "\<exists>s'. unbind_event doc t names callback s = Some s' \<and> events_ok s' \<and> bound s' = table_op doc (Unbind t names callback) (bound s)
    \<and> plain_name s' = plain_name s"
proof (cases "names = None \<or> names = Some []")
  case True
  then have "unbind_event doc t names callback s = Some (unbind_target doc t s)"
    by (auto simp: unbind_event_def)
  then show ?thesis
    using True unbind_target_ok [OF ok, of doc t] plain_name_flags [OF flags_unbind_target] by (auto simp: table_op_def)
next
  case False
  then obtain c cs where names: "names = Some (c # cs)" by (metis list.exhaust option.exhaust)
  show ?thesis
  proof (cases "dc_plain doc t \<or> ev_expando s t = None")
    case True
    have "fold (\<lambda>name b. cut_bound b t callback name) ns (bound s) = bound s" if "ev_expando s t = None" for ns
    proof -
      have "bound s t n = []" for n using that by (simp add: bound_def find_callbacks_def)
      then have "cut_bound (bound s) t callback name = bound s" for name
        by (auto simp: cut_bound_def fun_eq_iff split: option.splits)
      then show ?thesis by (induction ns) simp_all
    qed
    then show ?thesis using True ok names by (auto simp: unbind_event_def table_op_def simp del: split_on.simps)
  next
    case False
    then obtain i where i: "ev_expando s t = Some i" by blast
    obtain s1 where s1: "each_name (unbind_name t i callback) (rev (split_on 0x20 (c # cs))) s = Some s1" "events_ok s1"
      "bound s1 = fold (\<lambda>name b. cut_bound b t callback name) (rev (split_on 0x20 (c # cs))) (bound s)" "ev_expando s1 = ev_expando s"
      using unbind_names_ok [OF ok i] by blast
    have "plain_name s1 = plain_name s" "plain_name (forget_target t i s1) = plain_name s"
      using flags_each [OF s1(1)] by (auto intro: plain_name_flags)
    then show ?thesis
      using s1 False i names forget_ok [OF s1(2), of t i]
      by (auto simp: unbind_event_def table_op_def simp del: split_on.simps)
  qed
qed

lemma run_op_ok:
  assumes ok: "events_ok s" and plain: "plain_op focusIn mouse op" "plain_name s = plain_name (new_EventUtils focusIn mouse)"
  shows "\<exists>s'. run_op run doc op s = Some s' \<and> events_ok s' \<and> bound s' = table_op doc op (bound s) \<and> plain_name s' = plain_name s"
proof (cases op)
  case (Unbind t names callback)
  then show ?thesis using unbind_event_ok [OF ok] by (simp add: run_op_def)
next
  case (Clean t root children)
  have fl: "plain_name (fold (unbind_target doc) ts s') = plain_name s'" for ts s'
    by (rule plain_name_flags, rule flags_fold, rule flags_unbind_target)
  have one: "plain_name (unbind_target doc u s') = plain_name s'" for u s' by (rule plain_name_flags, rule flags_unbind_target)
  note U = unbind_target_ok [OF ok, of doc t]
  have R: "events_ok q \<and> bound q = fold (clear_target doc) (rev children) (clear_target doc r (clear_target doc t (bound s)))"
    if "q = fold (unbind_target doc) (rev children) (unbind_target doc r (unbind_target doc t s))" for q r
    using unbind_targets_ok [OF unbind_target_ok(1) [OF U(1)], where ts = "rev children" and doc = doc] U
      unbind_target_ok [OF U(1), of doc r] unfolding that clear_target_def by simp
  show ?thesis
    using ok U R [OF refl]
    by (auto simp: Clean run_op_def table_op_def clean_target_def clear_target_def fl one Let_def split: option.splits)
next
  case (Bind t names func scope)
  let ?sc = "case scope of None \<Rightarrow> t | Some x \<Rightarrow> x"
  show ?thesis
  proof (cases "dc_plain doc t")
    case False
    obtain s1 i where s1: "target_id t s = (s1, i)" by fastforce
    obtain s2 d where s2: "new_handler (HDefault i) s1 = (s2, d)" by fastforce
    note T = target_id_ok [OF ok s1] and H = new_handler_ok [OF _ s2]
    have "\<forall>name\<in>set (rev (split_on 0x20 names)). plain_name s2 name"
      using plain T H by (simp add: Bind plain_op_def list_all_iff)
    from bind_names_ok [OF _ _ _ this, of t i d run doc func ?sc] show ?thesis
      using T H False by (simp add: Bind run_op_def table_op_def bind_event_def s1 s2)
  qed (use ok in \<open>simp add: Bind run_op_def table_op_def bind_event_def\<close>)
qed

lemma run_ops_ok:
  assumes "events_ok s" "\<forall>op\<in>set ops. plain_op focusIn mouse op" "plain_name s = plain_name (new_EventUtils focusIn mouse)"
  shows "\<exists>s'. run_ops run doc ops s = Some s' \<and> events_ok s' \<and> bound s' = fold (table_op doc) ops (bound s)"
  using assms
proof (induction ops arbitrary: s)
  case (Cons op ops)
  have "plain_op focusIn mouse op" using Cons.prems(2) by simp
  from run_op_ok [OF Cons.prems(1) this Cons.prems(3), of run doc] obtain s1
    where s1: "run_op run doc op s = Some s1" "events_ok s1" "bound s1 = table_op doc op (bound s)" "plain_name s1 = plain_name s"
    by blast
  show ?case using Cons.IH [of s1] Cons.prems(2,3) s1 by simp
qed simp

section \<open>Native events\<close>

lemma filter_single: "distinct xs \<Longrightarrow> (\<And>x. x \<in> set xs \<and> P x \<longleftrightarrow> x = v) \<Longrightarrow> filter P xs = [v]"
proof -
  assume d: "distinct xs" and v: "\<And>x. x \<in> set xs \<and> P x \<longleftrightarrow> x = v"
  have "set (filter P xs) = {v}" using v by auto
  moreover have "ys = [v]" if "distinct ys" "set ys = {v}" for ys
    using that by (cases ys; cases "tl ys") auto
  ultimately show "filter P xs = [v]" using distinct_filter [OF d] by blast
qed

lemma dispatch_ok:
  assumes ok: "events_ok s"
  shows "dispatch run doc ev capture s = (if capture \<or> bound s (ne_current ev) (ne_type ev) = [] then s
    else snd (handlers_loop run (the (find_callbacks s (ne_current ev) (ne_type ev))) 0 (length (bound s (ne_current ev) (ne_type ev)))
      (fixed (ne_type ev) (ne_target ev), s)))"
proof -
  have o: "lists_ok s" "native_ok s" using ok by (simp_all add: events_ok_def)
  let ?t = "ne_current ev" and ?n = "ne_type ev"
  let ?P = "\<lambda>(t, name, h, c). t = ?t \<and> name = ?n \<and> c = capture"
  have mem: "(t, n, h, c) \<in> set (ev_native s) \<longleftrightarrow> (\<exists>a. find_callbacks s t n = Some a \<and> h = cl_native (ev_lists s a) \<and> \<not> c)" for t n h c
    using o(2) unfolding native_ok_def by blast
  show ?thesis
  proof (cases "capture \<or> bound s ?t ?n = []")
    case True
    then have "filter ?P (ev_native s) = []" using bound_Nil [OF o(1), of ?t ?n] mem by (auto simp: filter_empty_conv)
    then show ?thesis using True by (simp add: dispatch_def)
  next
    case False
    then obtain a where a: "find_callbacks s ?t ?n = Some a" using bound_Nil [OF o(1), of ?t ?n] by auto
    note la = list_okD [OF lists_okD(1) [OF o(1) a]]
    obtain i where i: "ev_expando s ?t = Some i" "nth_opt (ev_handlers s) (cl_native (ev_lists s a)) = Some (HDefault i)"
      using la(5) by blast
    let ?l = "(?t, ?n, cl_native (ev_lists s a), False)"
    have "distinct (ev_native s)" using o(2) unfolding native_ok_def by blast
    then have one: "filter ?P (ev_native s) = [?l]"
      by (rule filter_single) (use False a mem in auto)
    have "?l \<in> set (ev_native s)" using a mem by blast
    moreover have "find_list s i ?n = Some a" using a i(1) by (simp add: find_callbacks_def)
    ultimately show ?thesis
      using False a i unfolding dispatch_def one by (simp add: call_handler_def executeHandlers_def fixed_def bound_def)
  qed
qed

section \<open>Properties\<close>

text \<open>C7. Binding, unbinding and cleaning in any order keep the callbacks of each target and event as a
  table would: a binding adds its callback behind the others, unbinding removes every entry of the
  callback, cleaning all entries of the targets. The browser has a single listener for an entry that
  is not empty and none otherwise, so an event calls the callbacks of the table, in their order,
  once each. The names are those of events the browser has itself.\<close>

theorem events_follow_table:
  assumes "\<forall>op\<in>set ops. plain_op focusIn mouse op"
  shows "\<exists>s. run_ops run doc ops (new_EventUtils focusIn mouse) = Some s \<and> (\<forall>ev.
    let callbacks = fold (table_op doc) ops (\<lambda>_ _. []) (ne_current ev) (ne_type ev) in
    dispatch run doc ev True s = s \<and>
    (case find_callbacks s (ne_current ev) (ne_type ev) of
       None \<Rightarrow> callbacks = [] \<and> dispatch run doc ev False s = s
     | Some a \<Rightarrow> cl_items (ev_lists s a) = callbacks \<and>
         dispatch run doc ev False s = snd (handlers_loop run a 0 (length callbacks) (fixed (ne_type ev) (ne_target ev), s))))"
proof -
  have empty_table: "bound (new_EventUtils focusIn mouse) = (\<lambda>_ _. [])" by (simp add: new_ok(2) fun_eq_iff)
  obtain s where s: "run_ops run doc ops (new_EventUtils focusIn mouse) = Some s" "events_ok s"
    "bound s = fold (table_op doc) ops (\<lambda>_ _. [])"
    using run_ops_ok [OF new_ok(1) assms refl] unfolding empty_table by blast
  have lok: "lists_ok s" using s(2) by (simp add: events_ok_def)
  show ?thesis
  proof (intro exI conjI allI, rule s(1), unfold Let_def s(3) [symmetric], intro conjI)
    fix ev
    show "dispatch run doc ev True s = s" by (simp add: dispatch_ok [OF s(2)])
    show "case find_callbacks s (ne_current ev) (ne_type ev) of
       None \<Rightarrow> bound s (ne_current ev) (ne_type ev) = [] \<and> dispatch run doc ev False s = s
     | Some a \<Rightarrow> cl_items (ev_lists s a) = bound s (ne_current ev) (ne_type ev) \<and>
         dispatch run doc ev False s = snd (handlers_loop run a 0 (length (bound s (ne_current ev) (ne_type ev)))
           (fixed (ne_type ev) (ne_target ev), s))"
      using bound_Nil [OF lok, of "ne_current ev" "ne_type ev"]
      by (cases "find_callbacks s (ne_current ev) (ne_type ev)") (simp_all add: dispatch_ok [OF s(2)] bound_def)
  qed
qed

definition demo_doc :: document where
  "demo_doc = \<lparr>dc_plain = (\<lambda>_. False), dc_up = (\<lambda>_. None), dc_complete = (\<lambda>_. False), dc_doc_complete = (\<lambda>_. False),
     dc_contains = (=), dc_document = 0\<rparr>"

definition quiet :: runner where
  "quiet func scope e s = (e, s, False)"

definition demo_ops :: "event_op list" where
  "demo_ops = [Bind 5 (js ''click mouseup'') 1 None, Bind 5 (js ''click'') 2 (Some 7), Bind 5 (js ''click'') 1 None,
     Unbind 5 (Some (js ''click'')) (Some 1)]"

lemma demo_ops_plain: "list_all (plain_op True False) demo_ops"
  by code_simp

lemma demo_ops_table: "fold (table_op demo_doc) demo_ops (\<lambda>_ _. []) 5 (js ''click'') = [(2, 7)]"
  by code_simp

lemma events_follow_table_witness:
  "\<exists>s. run_ops quiet demo_doc demo_ops (new_EventUtils True False) = Some s \<and> (\<forall>ev.
    let callbacks = fold (table_op demo_doc) demo_ops (\<lambda>_ _. []) (ne_current ev) (ne_type ev) in
    dispatch quiet demo_doc ev True s = s \<and>
    (case find_callbacks s (ne_current ev) (ne_type ev) of
       None \<Rightarrow> callbacks = [] \<and> dispatch quiet demo_doc ev False s = s
     | Some a \<Rightarrow> cl_items (ev_lists s a) = callbacks \<and>
         dispatch quiet demo_doc ev False s = snd (handlers_loop quiet a 0 (length callbacks) (fixed (ne_type ev) (ne_target ev), s))))"
  by (rule events_follow_table) (use demo_ops_plain in \<open>simp add: list_all_iff\<close>)

text \<open>A browser without \<open>focusin\<close>: the list that unbinding makes has lost the name and the phase of the
  native listener, which is not removed with the last callback. A callback that is bound again is
  called by two native listeners.\<close>

lemma focusin_bound_twice:
  "map_option (\<lambda>s. filter (\<lambda>(t, name, h, capture). name = js ''focus'') (ev_native s))
     (run_ops quiet demo_doc [Bind 5 (js ''click'') 1 None, Bind 5 (js ''focusin'') 2 None,
        Unbind 5 (Some (js ''focusin'')) (Some 2), Bind 5 (js ''focusin'') 3 None] (new_EventUtils False True)) =
   Some [(5, js ''focus'', 2, True), (5, js ''focus'', 4, True)]"
  by code_simp

end
