(* ===== verification/Spec2Isabelle.thy ===== *)
theory Spec2Isabelle
  imports HtmlSerializer EntityNames UndoManager OwlPlugins LocalStorage UriPath Observable TableCommands TreeWalker RangeClone AddOns SaxScripts UiFlexProps DomEventsProps
begin

text \<open>
  A verification library for the JavaScript front end of the station: the web pages under
  \<open>src/server/html/js\<close>. Two programs carry its logic. The carousel \<open>owl.carousel.js\<close> shows the
  items of a page on a sliding stage, with plugins for playing, navigation, lazy loading, videos and
  animation. The editor TinyMCE (\<open>tinymce/tinymce/js/tinymce/classes\<close>, here \<open>classes/\<close>) keeps
  documents as trees of nodes, writes them as HTML, encodes their entities, remembers the history of
  changes and connects its parts by events; its table plugin (\<open>plugins/table\<close>) edits tables.

  \<^bold>\<open>Foundations.\<close> \<open>JsBase\<close> models what the sources use of the language: strings as lists of 16-bit
  words, objects as tables with their inherited properties, splitting and joining, slices.
  \<open>JsNumber\<close> has the printing and parsing of integers in a radix and the conversions of the bit
  operators. \<open>Dictionary\<close> states the contract of a key/value store as the locale \<open>dictionary\<close> (what
  a lookup returns after a write and a deletion); its instances are the attributes of a node
  (\<open>HtmlAttributes\<close>, interpretation \<open>at\<close>) and the fallback storage (\<open>LocalStorage\<close>, interpretation
  \<open>ls\<close>). \<open>Tools\<close> models \<open>classes/util/Tools.js\<close>.

  \<^bold>\<open>Node tree.\<close> \<open>HtmlNode\<close> has the nodes of \<open>classes/html/Node.js\<close> in a heap from addresses to
  records, with the sibling and parent links of the source and one definition per method; an access
  to a missing node is None, the TypeError of the program. \<open>HtmlTree\<close> relates heaps to abstract
  trees, \<open>HtmlTraversal\<close> proves that \<open>walk\<close> visits them in document order and ends, and
  \<open>HtmlNodeProps\<close> states for every structural operation that it refines the operation on the child
  list: insert, append, remove, replace, wrap, unwrap, empty, getAll, isEmpty, attributes.

  \<^bold>\<open>Writing HTML.\<close> \<open>HtmlWriter\<close> models \<open>classes/html/Writer.js\<close> and \<open>HtmlSerializer\<close>
  \<open>classes/html/Serializer.js\<close>. On a well-formed tree the serializer ends and writes exactly the
  events of the tree in document order; indentation only adds line breaks between the texts of the calls.

  \<^bold>\<open>Parsing.\<close> \<open>RegExp\<close> models the regular expressions of the language by backtracking and \<open>JsUri\<close> its decoding of addresses.
  \<open>SaxParser\<close> models \<open>classes/html/SaxParser.js\<close>, \<open>DomParser\<close> models \<open>classes/html/DomParser.js\<close>, with the answers of the schema as parameters: the
  first reads a text and reports events, the second builds a tree of them, repairs children that are not allowed where they are,
  adds root blocks and runs the filters. The tables of both are plain objects, so names of members
  of \<open>Object.prototype\<close> raise in them and the theorems exclude such names. \<open>ParseWf\<close> proves that the tree is well-formed for the events of every
  document without them, \<open>SaxNesting\<close> that every text without such a name after an angle bracket gives such events, so that it can be parsed. \<open>ParseTree\<close> proves that the tree of a tidy
  document is written with the events it was read from, \<open>SaxTokens\<close> and \<open>SaxRoundtrip\<close> that the SAX parser reads what the writer wrote: a text the
  editor could have written is parsed and written again without a change. The contract between the parser and the encoder of the
  writer is the locale \<open>html_encoder\<close>, interpreted for the raw and the named encoder. \<open>SaxScripts\<close> proves that no address of a script gets
  through.

  \<^bold>\<open>Entities.\<close> \<open>Entities\<close> models \<open>classes/html/Entities.js\<close> with its table of names, \<open>EntityTable\<close>
  checks the table, \<open>EntityCodec\<close> states the locale \<open>entity_encoder\<close> (an encoder that works unit by
  unit and whose pieces decode) and \<open>EntityNames\<close> interprets it for the named encoder: decoding
  undoes every encoder, apart from the combined one, which loses half of a surrogate pair, and with the built-in table of
  entities no encoder lets an angle bracket through.

  \<^bold>\<open>Undo.\<close> \<open>UndoManager\<close> models \<open>classes/UndoManager.js\<close> over an editor given by its operations
  (the record \<open>editor_ops\<close>), states the contract of a history as the locale \<open>history\<close>, and has a step
  relation \<open>um_step\<close> whose reachable states satisfy the invariant of the levels.

  \<^bold>\<open>Storage, URIs, events.\<close> \<open>LocalStorage\<close> models \<open>classes/util/LocalStorage.js\<close>: the loop that
  reads the saved text may not end on foreign data (\<open>partial_function\<close>, None), and is proved to end on
  what was saved and to find it all (a value under the key \<open>__proto__\<close> is not stored at all). \<open>UriPath\<close> models the paths of \<open>classes/util/URI.js\<close>: a relative
  path resolves to the path it was made of. \<open>Observable\<close> models \<open>classes/util/Observable.js\<close> with the
  arrays of listeners as objects, so that listeners may change what is being fired. \<open>DomEvents\<close> models
  \<open>classes/dom/EventUtils.js\<close>, the same for the events of the browser with its native listeners; \<open>DomEventsProps\<close>
  proves that it refines a table of callbacks and that an event calls each callback once.

  \<^bold>\<open>Tables.\<close> \<open>TableGrid\<close> models the grid of \<open>plugins/table/classes/TableGrid.js\<close>, with the cells and
  rows of the document as objects in stores and the slots they cover as a sparse array of sparse rows;
  \<open>TableEdit\<close> its operations: cloning, splitting, merging, rows, columns, the clipboard. \<open>TableLayout\<close>
  proves what the grid shows of the table and that \<open>getPos\<close> finds every cell, \<open>TableText\<close> that splitting,
  merging and inserting keep the texts, \<open>TablePlain\<close> what inserting a column does to a table without
  spans, what deleting columns does to the spans of all cells, and where spans lead to wrong results. \<open>TableCommands\<close> models the commands of \<open>Plugin.js\<close>; the
  locale \<open>text_edit\<close> is the contract of an operation that loses no text, interpreted for the
  operations that have it.

  \<^bold>\<open>Ranges.\<close> \<open>DomTree\<close> has the document of the browser, with the node operations of the DOM standard, and the
  helpers of \<open>classes/dom/DOMUtils.js\<close> that find positions in it. \<open>DomRange\<close> models \<open>classes/dom/Range.js\<close>, one definition
  per function. \<open>RangeOrder\<close> proves that comparing boundary points is the order of the document and that
  setting a point keeps a range ordered; \<open>RangeContents\<close> what extracting, inserting, surrounding and
  deleting do when both points are in one container; \<open>RangeClone\<close> that cloning changes no existing
  node, for any two points. \<open>TreeWalker\<close> models \<open>classes/dom/TreeWalker.js\<close>: the locale \<open>walk_dir\<close> has what one search
  needs of the two directions, interpreted forward and backward, and a walk ends after all nodes
  of the tree.

  \<^bold>\<open>Loading scripts.\<close> \<open>ScriptLoader\<close> models \<open>classes/dom/ScriptLoader.js\<close>, whose callbacks may call it again: the calls still
  to be made are a stack of tasks, \<open>settle\<close> runs it (None when the calls never return), and \<open>sl_step\<close> adds
  what the page and the browser do in between. Its theorems are the invariants of all reachable
  states, that a queue loads in any order of load events, and the endless call when a callback
  starts the queue again. \<open>AddOns\<close> puts \<open>classes/AddOnManager.js\<close> and the loading of plugins in \<open>classes/Editor.js\<close> on top of
  it.

  \<^bold>\<open>Layouts.\<close> \<open>UiControl\<close> models the rectangles of the controls of the user interface (\<open>classes/ui/Control.js\<close>)
  as a store, with what the browser measures as fields of the controls; \<open>UiLayout\<close> models the layout managers
  (\<open>FlexLayout\<close>, \<open>GridLayout\<close>, \<open>FitLayout\<close>, \<open>AbsoluteLayout\<close>, \<open>FlowLayout\<close>) and \<open>recalc\<close> and \<open>reflow\<close> of \<open>Container.js\<close>.
  Layouts call each other up and down the tree of controls, so \<open>layout_recalc\<close> counts fuel. \<open>UiFlex\<close> and
  \<open>UiFlexProps\<close> prove that for a flex container of plain controls four calls are enough, and that along its
  main axis the controls do not overlap, keep their limits and stay in the container.

  \<^bold>\<open>Carousel.\<close> \<open>OwlStates\<close> has the counted states with tags; \<open>OwlCore\<close> the state of the carousel as the
  record \<open>owl\<close>, positions, clones and coordinates; \<open>OwlUpdate\<close> the pipeline of workers, \<open>update\<close>,
  \<open>refresh\<close> and the navigation; \<open>OwlProps\<close> what they promise; \<open>OwlItems\<close> the constructor, adding,
  removing and replacing; \<open>OwlDrag\<close> dragging; \<open>OwlAutoplay\<close>, \<open>OwlNav\<close> and \<open>OwlPlugins\<close> the plugins. The
  autoplay plugin relies on \<open>next\<close> of the carousel by the locale \<open>advance\<close>, interpreted for the core
  (\<open>core_next\<close>) and for the navigation plugin that replaces it (\<open>page_next\<close>); its runs are the step
  relation \<open>ap_step\<close>. What the program measures in the page (widths, visibility, the clock) and the
  listeners of a change of position enter as arguments. Pixels are rational numbers, NaN and undefined
  are None, positions are integers.

  \<^bold>\<open>Not modelled.\<close> Creating and styling page elements, registering handlers with the browser and
  jQuery itself; the regular expressions that parse URIs and video addresses; the editor's
  commands, selections and the rendering of widgets, which work on the live document of the browser; the generated
  bundles and the minified libraries; the C++ and C programs of the station. Next candidates are the
  style parser and the schema of the editor.
\<close>

end
